(* ===== verification/Pep_Prelude.thy ===== *)
theory Pep_Prelude
  imports Main "HOL-Library.Word" "HOL-Library.Sublist"
begin

unbundle bit_operations_syntax

section \<open>Machine types, byte order and shared lemmas\<close>

text \<open>
  What every component of the PEP-DNA kernel module shares: the names of the machine
  integer types, the error numbers the code returns (negated, as the kernel does), the
  byte-order conversions of a little-endian host, and the generic facts about lists and
  words the component proofs use. Integers keep the width the source gives them: a \<open>u32\<close>
  is a \<open>32 word\<close>, so addition and subtraction wrap as in C. The type \<open>int\<close> of C, used for
  return codes and lengths that stay far from its bounds, is HOL's \<open>int\<close>.
\<close>

type_synonym u8 = "8 word"
type_synonym u16 = "16 word"
type_synonym u32 = "32 word"
type_synonym u64 = "64 word"
type_synonym bytes = "8 word list"

text \<open>
  Collections of the development: \<open>word_nat\<close> moves order on words to \<open>nat\<close>, \<open>wire\<close>
  holds the conversions between host and wire values.
\<close>

named_theorems word_nat
named_theorems wire

declare word_less_nat_alt [word_nat] word_le_nat_alt [word_nat]

subsection \<open>Error numbers\<close>

abbreviation (input) EINTR :: int where "EINTR \<equiv> 4"
abbreviation (input) EIO :: int where "EIO \<equiv> 5"
abbreviation (input) EBADF :: int where "EBADF \<equiv> 9"
abbreviation (input) EAGAIN :: int where "EAGAIN \<equiv> 11"
abbreviation (input) ENOMEM :: int where "ENOMEM \<equiv> 12"
abbreviation (input) EINVAL :: int where "EINVAL \<equiv> 22"
abbreviation (input) EPIPE :: int where "EPIPE \<equiv> 32"
abbreviation (input) ESHUTDOWN :: int where "ESHUTDOWN \<equiv> 108"
abbreviation (input) ECONNREFUSED :: int where "ECONNREFUSED \<equiv> 111"
abbreviation (input) EINPROGRESS :: int where "EINPROGRESS \<equiv> 115"
abbreviation (input) ERESTARTSYS :: int where "ERESTARTSYS \<equiv> 512"

subsection \<open>Bytes of a word\<close>

text \<open>
  \<open>byte32 i w\<close> is the byte at offset \<open>i\<close> of \<open>w\<close> in the memory of a little-endian host;
  \<open>mk32\<close> reads four such bytes back.
\<close>

definition byte32 :: "nat \<Rightarrow> u32 \<Rightarrow> u8" where
  "byte32 i w = ucast (drop_bit (8 * i) w)"

definition mk32 :: "u8 \<Rightarrow> u8 \<Rightarrow> u8 \<Rightarrow> u8 \<Rightarrow> u32" where
  "mk32 b0 b1 b2 b3 =
     ucast b0 OR push_bit 8 (ucast b1) OR push_bit 16 (ucast b2) OR push_bit 24 (ucast b3)"

definition byte16 :: "nat \<Rightarrow> u16 \<Rightarrow> u8" where
  "byte16 i w = ucast (drop_bit (8 * i) w)"

definition mk16 :: "u8 \<Rightarrow> u8 \<Rightarrow> u16" where
  "mk16 b0 b1 = ucast b0 OR push_bit 8 (ucast b1)"

lemma bit_mk32:
  "bit (mk32 b0 b1 b2 b3) n \<longleftrightarrow>
     (if n < 8 then bit b0 n else if n < 16 then bit b1 (n - 8)
      else if n < 24 then bit b2 (n - 16) else n < 32 \<and> bit b3 (n - 24))"
  by (auto simp: mk32_def bit_simps dest: bit_imp_le_length)

lemma bit_mk16:
  "bit (mk16 b0 b1) n \<longleftrightarrow> (if n < 8 then bit b0 n else n < 16 \<and> bit b1 (n - 8))"
  by (auto simp: mk16_def bit_simps dest: bit_imp_le_length)

lemma byte32_mk32 [simp]:
  "byte32 0 (mk32 a b c d) = a" "byte32 (Suc 0) (mk32 a b c d) = b"
  "byte32 2 (mk32 a b c d) = c" "byte32 3 (mk32 a b c d) = d"
  by (rule bit_word_eqI; simp add: byte32_def bit_simps bit_mk32)+

lemma mk32_byte32 [simp]:
  "mk32 (byte32 0 w) (byte32 (Suc 0) w) (byte32 2 w) (byte32 3 w) = w"
  by (rule bit_word_eqI) (auto simp: byte32_def bit_simps bit_mk32)

lemma byte16_mk16 [simp]: "byte16 0 (mk16 a b) = a" "byte16 (Suc 0) (mk16 a b) = b"
  by (rule bit_word_eqI; simp add: byte16_def bit_simps bit_mk16)+

lemma mk16_byte16 [simp]: "mk16 (byte16 0 w) (byte16 (Suc 0) w) = w"
  by (rule bit_word_eqI) (auto simp: byte16_def bit_simps bit_mk16)

subsection \<open>Byte order\<close>

text \<open>
  The conversions \<open>htonl\<close>, \<open>ntohl\<close>, \<open>be32_to_cpu\<close> and \<open>cpu_to_be32\<close> are all the byte
  swap on a little-endian host; likewise the 16-bit ones.
\<close>

definition bswap32 :: "u32 \<Rightarrow> u32" where
  "bswap32 w = mk32 (byte32 3 w) (byte32 2 w) (byte32 1 w) (byte32 0 w)"

definition bswap16 :: "u16 \<Rightarrow> u16" where
  "bswap16 w = mk16 (byte16 1 w) (byte16 0 w)"

abbreviation htonl :: "u32 \<Rightarrow> u32" where "htonl \<equiv> bswap32"
abbreviation ntohl :: "u32 \<Rightarrow> u32" where "ntohl \<equiv> bswap32"
abbreviation be32_to_cpu :: "u32 \<Rightarrow> u32" where "be32_to_cpu \<equiv> bswap32"
abbreviation cpu_to_be32 :: "u32 \<Rightarrow> u32" where "cpu_to_be32 \<equiv> bswap32"
abbreviation ntohs :: "u16 \<Rightarrow> u16" where "ntohs \<equiv> bswap16"
abbreviation htons :: "u16 \<Rightarrow> u16" where "htons \<equiv> bswap16"
abbreviation be16_to_cpu :: "u16 \<Rightarrow> u16" where "be16_to_cpu \<equiv> bswap16"
abbreviation cpu_to_be16 :: "u16 \<Rightarrow> u16" where "cpu_to_be16 \<equiv> bswap16"

lemma bswap32_bswap32 [simp, wire]: "bswap32 (bswap32 w) = w"
  by (simp add: bswap32_def)

lemma bswap16_bswap16 [simp, wire]: "bswap16 (bswap16 w) = w"
  by (simp add: bswap16_def)

lemma bswap32_eq_iff [simp]: "bswap32 a = bswap32 b \<longleftrightarrow> a = b"
  using bswap32_bswap32 by metis

lemma bswap32_zero [simp]: "bswap32 0 = 0"
  by (simp add: bswap32_def byte32_def mk32_def)

lemma bswap32_eq_0_iff [simp]: "bswap32 a = 0 \<longleftrightarrow> a = 0"
  using bswap32_eq_iff [of a 0] by simp

subsection \<open>Words as natural numbers\<close>

lemma unat_add_small:
  fixes x y :: "'a::len word"
  assumes "unat x + unat y < 2 ^ LENGTH('a)"
  shows "unat (x + y) = unat x + unat y"
  using assms by (simp add: unat_word_ariths)

lemma unat_succ_small:
  fixes x :: "'a::len word"
  assumes "Suc (unat x) < 2 ^ LENGTH('a)"
  shows "unat (x + 1) = Suc (unat x)"
  using assms by (simp add: unat_word_ariths)

lemma unat_sub_small:
  fixes x y :: "'a::len word"
  assumes "unat y \<le> unat x"
  shows "unat (x - y) = unat x - unat y"
  using assms by (simp add: unat_sub word_nat)

subsection \<open>Lists in the order of a key\<close>

lemma sorted_dropWhile_filter:
  fixes k :: "'a \<Rightarrow> 'b::linorder"
  shows "sorted_wrt (\<lambda>a b. k a < k b) es \<Longrightarrow>
    dropWhile (\<lambda>e. k e < c) es = filter (\<lambda>e. c \<le> k e) es"
proof (induction es)
  case (Cons e es)
  show ?case
  proof (cases "k e < c")
    case True
    with Cons show ?thesis by simp
  next
    case False
    with Cons.prems have "\<forall>x\<in>set es. c \<le> k x" by auto
    with False show ?thesis by simp
  qed
qed simp

lemma sorted_takeWhile_filter:
  fixes k :: "'a \<Rightarrow> 'b::linorder"
  shows "sorted_wrt (\<lambda>a b. k a < k b) es \<Longrightarrow>
    takeWhile (\<lambda>e. k e < c) es = filter (\<lambda>e. k e < c) es"
proof (induction es)
  case (Cons e es)
  show ?case
  proof (cases "k e < c")
    case True
    with Cons show ?thesis by simp
  next
    case False
    with Cons.prems have "\<forall>x\<in>set es. \<not> k x < c" by auto
    with False show ?thesis by simp
  qed
qed simp

end
