(* ===== verification/Pep_Rtxq.thy ===== *)
theory Pep_Rtxq
  imports Pep_Prelude
begin

section \<open>MINIP packets and the retransmission queue (minip.h, minip.c)\<close>

text \<open>
  The wire format of MINIP, the sequence-numbered protocol PEP-DNA runs between two
  proxies, and the queue of transmitted packets that wait for their acknowledgement. A
  header field holds the value in memory, so a field filled with \<open>htonl\<close> is read with
  \<open>ntohl\<close>. A queue entry owns one reference of its packet: a retransmission takes another
  one (\<open>skb_get\<close>) that \<open>dev_queue_xmit\<close> consumes, so packets are values here. The spin
  lock of the queue serialises its operations; each operation is one function.
\<close>

subsection \<open>Packet types and headers\<close>

datatype minip_packet_type =
    MINIP_CONN_REQUEST
  | MINIP_CONN_RESPONSE
  | MINIP_CONN_DELETE
  | MINIP_CONN_FINISHED
  | MINIP_CONN_DATA
  | MINIP_CONN_ACK

fun pkt_code :: "minip_packet_type \<Rightarrow> u8" where
  "pkt_code MINIP_CONN_REQUEST = 1"
| "pkt_code MINIP_CONN_RESPONSE = 2"
| "pkt_code MINIP_CONN_DELETE = 3"
| "pkt_code MINIP_CONN_FINISHED = 4"
| "pkt_code MINIP_CONN_DATA = 5"
| "pkt_code MINIP_CONN_ACK = 6"

definition pkt_of :: "u8 \<Rightarrow> minip_packet_type option" where
  "pkt_of c =
    (if c = 1 then Some MINIP_CONN_REQUEST else if c = 2 then Some MINIP_CONN_RESPONSE
     else if c = 3 then Some MINIP_CONN_DELETE else if c = 4 then Some MINIP_CONN_FINISHED
     else if c = 5 then Some MINIP_CONN_DATA else if c = 6 then Some MINIP_CONN_ACK
     else None)"

lemma pkt_of_code [simp]: "pkt_of (pkt_code t) = Some t"
  by (cases t) (simp_all add: pkt_of_def)

definition MINIP_FIRST_SEQ :: u32 where "MINIP_FIRST_SEQ = 9"
definition WINDOW_SIZE :: u8 where "WINDOW_SIZE = 12"
definition MAX_MINIP_RETRY :: u8 where "MAX_MINIP_RETRY = 3"
definition MINIP_MSS :: nat where "MINIP_MSS = 1481"

record minip_hdr =
  h_pkt_type :: u8
  h_sdu_len :: u16
  h_id :: u32
  h_seq :: u32
  h_ack :: u32
  h_ts :: u32

text \<open>The packed structure as it lies in memory and on the wire.\<close>

definition le16 :: "u16 \<Rightarrow> bytes" where
  "le16 w = [byte16 0 w, byte16 1 w]"

definition le32 :: "u32 \<Rightarrow> bytes" where
  "le32 w = [byte32 0 w, byte32 1 w, byte32 2 w, byte32 3 w]"

definition hdr_bytes :: "minip_hdr \<Rightarrow> bytes" where
  "hdr_bytes h =
     [h_pkt_type h] @ le16 (h_sdu_len h) @ le32 (h_id h) @ le32 (h_seq h)
       @ le32 (h_ack h) @ le32 (h_ts h)"

fun hdr_of_bytes :: "bytes \<Rightarrow> (minip_hdr \<times> bytes) option" where
  "hdr_of_bytes (t # l0 # l1 # i0 # i1 # i2 # i3 # s0 # s1 # s2 # s3
      # a0 # a1 # a2 # a3 # t0 # t1 # t2 # t3 # rest) =
     Some (\<lparr>h_pkt_type = t, h_sdu_len = mk16 l0 l1, h_id = mk32 i0 i1 i2 i3,
            h_seq = mk32 s0 s1 s2 s3, h_ack = mk32 a0 a1 a2 a3,
            h_ts = mk32 t0 t1 t2 t3\<rparr>, rest)"
| "hdr_of_bytes _ = None"

text \<open>A MINIP packet: destination address, header and the bytes after the header.\<close>

record sk_buff =
  f_mac :: bytes
  f_hdr :: minip_hdr
  f_data :: bytes

definition skb_seq_get :: "sk_buff \<Rightarrow> u32" where
  "skb_seq_get skb = ntohl (h_seq (f_hdr skb))"

subsection \<open>The queue\<close>

record rtxq_entry =
  e_skb :: sk_buff
  e_retries :: u8

record rtxqueue =
  q_len :: int
  q_head :: "rtxq_entry list"

record rtxq =
  rq_queue :: rtxqueue

abbreviation e_seq :: "rtxq_entry \<Rightarrow> u32" where
  "e_seq e \<equiv> skb_seq_get (e_skb e)"

text \<open>Destroying an entry fails only for a null pointer.\<close>

definition rtxq_entry_destroy :: "rtxq_entry option \<Rightarrow> int" where
  "rtxq_entry_destroy entry = (case entry of None \<Rightarrow> -1 | Some _ \<Rightarrow> 0)"

fun entries_ack_loop ::
    "u32 \<Rightarrow> rtxq_entry list \<Rightarrow> int \<Rightarrow> int \<Rightarrow> rtxq_entry list \<times> int \<times> int" where
  "entries_ack_loop ack [] len credit = ([], len, credit)"
| "entries_ack_loop ack (cur # n) len credit =
    (if ack \<le> e_seq cur then (cur # n, len, credit)
     else if rtxq_entry_destroy (Some cur) \<noteq> 0 then (cur # n, len, -1)
     else entries_ack_loop ack n (len - 1) (credit + 1))"

definition rtxqueue_entries_ack :: "rtxqueue \<Rightarrow> u32 \<Rightarrow> int \<times> rtxqueue" where
  "rtxqueue_entries_ack q ack =
    (case entries_ack_loop ack (q_head q) (q_len q) 0 of
       (hd', len', credit) \<Rightarrow> (credit, q\<lparr>q_head := hd', q_len := len'\<rparr>))"

text \<open>
  A retransmission stamps the packet with the current time, counts the attempt and hands
  the packet to \<open>dev_queue_xmit\<close>, whose result is the parameter \<open>xmit\<close>. The result holds
  the return code, the entry and the packets handed over.
\<close>

definition rtxq_entry_rtx ::
    "u32 \<Rightarrow> (sk_buff \<Rightarrow> int) \<Rightarrow> rtxq_entry \<Rightarrow> int \<times> rtxq_entry \<times> sk_buff list" where
  "rtxq_entry_rtx now_ms xmit entry =
    (if e_retries entry < MAX_MINIP_RETRY then
       let skb = (e_skb entry)\<lparr>f_hdr := (f_hdr (e_skb entry))\<lparr>h_ts := htonl now_ms\<rparr>\<rparr>;
           entry' = entry\<lparr>e_skb := skb, e_retries := e_retries entry + 1\<rparr>
       in (xmit skb, entry', [skb])
     else (-1, entry, []))"

fun entries_rtx_loop ::
    "u32 \<Rightarrow> (sk_buff \<Rightarrow> int) \<Rightarrow> u32 \<Rightarrow> rtxq_entry list \<Rightarrow> int \<times> rtxq_entry list \<times> sk_buff list"
where
  "entries_rtx_loop now_ms xmit ack [] = (0, [], [])"
| "entries_rtx_loop now_ms xmit ack (cur # n) =
    (if ack \<le> e_seq cur then
       (case rtxq_entry_rtx now_ms xmit cur of (rc, cur', out) \<Rightarrow>
          if rc < 0 then (-1, cur' # n, out)
          else (case entries_rtx_loop now_ms xmit ack n of
                  (rc', n', out') \<Rightarrow> (rc', cur' # n', out @ out')))
     else (case entries_rtx_loop now_ms xmit ack n of
             (rc', n', out') \<Rightarrow> (rc', cur # n', out')))"

definition rtxqueue_entries_rtx ::
    "u32 \<Rightarrow> (sk_buff \<Rightarrow> int) \<Rightarrow> rtxqueue \<Rightarrow> u32 \<Rightarrow> int \<times> rtxqueue \<times> sk_buff list" where
  "rtxqueue_entries_rtx now_ms xmit q ack =
    (case entries_rtx_loop now_ms xmit ack (q_head q) of
       (rc, hd', out) \<Rightarrow> (rc, q\<lparr>q_head := hd'\<rparr>, out))"

definition rtxq_full_rtx ::
    "u32 \<Rightarrow> (sk_buff \<Rightarrow> int) \<Rightarrow> rtxq option \<Rightarrow> u32 \<Rightarrow> int \<times> rtxq option \<times> sk_buff list" where
  "rtxq_full_rtx now_ms xmit q ack =
    (case q of None \<Rightarrow> (-1, None, [])
     | Some q \<Rightarrow>
        (case rtxqueue_entries_rtx now_ms xmit (rq_queue q) ack of
           (rc, qu, out) \<Rightarrow> (if rc < 0 then -1 else 0, Some (q\<lparr>rq_queue := qu\<rparr>), out)))"

fun fast_rtx_loop ::
    "u32 \<Rightarrow> (sk_buff \<Rightarrow> int) \<Rightarrow> u32 \<Rightarrow> rtxq_entry list \<Rightarrow> int \<times> rtxq_entry list \<times> sk_buff list"
where
  "fast_rtx_loop now_ms xmit ack [] = (0, [], [])"
| "fast_rtx_loop now_ms xmit ack (cur # n) =
    (if e_seq cur = ack then
       (case rtxq_entry_rtx now_ms xmit cur of (rc, cur', out) \<Rightarrow>
          (if rc < 0 then -1 else 0, cur' # n, out))
     else (case fast_rtx_loop now_ms xmit ack n of
             (rc', n', out') \<Rightarrow> (rc', cur # n', out')))"

definition rtxqueue_fast_rtx ::
    "u32 \<Rightarrow> (sk_buff \<Rightarrow> int) \<Rightarrow> rtxqueue \<Rightarrow> u32 \<Rightarrow> int \<times> rtxqueue \<times> sk_buff list" where
  "rtxqueue_fast_rtx now_ms xmit q ack =
    (case fast_rtx_loop now_ms xmit ack (q_head q) of
       (rc, hd', out) \<Rightarrow> (rc, q\<lparr>q_head := hd'\<rparr>, out))"

definition rtxq_single_rtx ::
    "u32 \<Rightarrow> (sk_buff \<Rightarrow> int) \<Rightarrow> rtxq option \<Rightarrow> u32 \<Rightarrow> int \<times> rtxq option \<times> sk_buff list" where
  "rtxq_single_rtx now_ms xmit q ack =
    (case q of None \<Rightarrow> (-1, None, [])
     | Some q \<Rightarrow>
        (case rtxqueue_fast_rtx now_ms xmit (rq_queue q) ack of
           (rc, qu, out) \<Rightarrow> (if rc < 0 then -1 else 0, Some (q\<lparr>rq_queue := qu\<rparr>), out)))"

definition rtxq_ack :: "rtxq option \<Rightarrow> u32 \<Rightarrow> int \<times> rtxq option" where
  "rtxq_ack q ack =
    (case q of None \<Rightarrow> (-1, None)
     | Some q \<Rightarrow>
        (case rtxqueue_entries_ack (rq_queue q) ack of
           (rc, qu) \<Rightarrow> (rc, Some (q\<lparr>rq_queue := qu\<rparr>))))"

text \<open>
  Creation and insertion allocate memory; the parameters named \<open>ok\<close> say whether
  \<open>kzalloc\<close> succeeds.
\<close>

definition rtxq_entry_create :: "bool \<Rightarrow> sk_buff \<Rightarrow> rtxq_entry option" where
  "rtxq_entry_create ok skb =
    (if ok then Some \<lparr>e_skb = skb, e_retries = 0\<rparr> else None)"

definition rtxqueue_push :: "bool \<Rightarrow> rtxqueue \<Rightarrow> sk_buff \<Rightarrow> int \<times> rtxqueue" where
  "rtxqueue_push ok q skb =
    (case rtxq_entry_create ok skb of None \<Rightarrow> (-1, q)
     | Some tmp \<Rightarrow> (0, q\<lparr>q_head := q_head q @ [tmp], q_len := q_len q + 1\<rparr>))"

definition rtxq_push :: "bool \<Rightarrow> rtxq \<Rightarrow> sk_buff \<Rightarrow> int \<times> rtxq" where
  "rtxq_push ok q skb =
    (case rtxqueue_push ok (rq_queue q) skb of (res, qu) \<Rightarrow> (res, q\<lparr>rq_queue := qu\<rparr>))"

definition rtxqueue_create :: "bool \<Rightarrow> rtxqueue option" where
  "rtxqueue_create ok = (if ok then Some \<lparr>q_len = 0, q_head = []\<rparr> else None)"

definition rtxq_create :: "bool \<Rightarrow> bool \<Rightarrow> rtxq option" where
  "rtxq_create ok ok_queue =
    (if \<not> ok then None
     else case rtxqueue_create ok_queue of None \<Rightarrow> None
          | Some qu \<Rightarrow> Some \<lparr>rq_queue = qu\<rparr>)"

fun flush_loop :: "rtxq_entry list \<Rightarrow> int \<Rightarrow> rtxq_entry list \<times> int" where
  "flush_loop [] len = ([], len)"
| "flush_loop (cur # n) len = flush_loop n (len - 1)"

definition rtxqueue_flush :: "rtxqueue \<Rightarrow> rtxqueue" where
  "rtxqueue_flush q =
    (case flush_loop (q_head q) (q_len q) of (h, l) \<Rightarrow> q\<lparr>q_head := h, q_len := l\<rparr>)"

definition rtxqueue_destroy :: "rtxqueue option \<Rightarrow> int \<times> rtxqueue option" where
  "rtxqueue_destroy q =
    (case q of None \<Rightarrow> (-1, None) | Some q \<Rightarrow> (0, Some (rtxqueue_flush q)))"

text \<open>The result of \<open>rtxq_destroy\<close>: the code, and the flushed queue at the time it is freed.\<close>

definition rtxq_destroy :: "rtxq option \<Rightarrow> int \<times> rtxqueue option" where
  "rtxq_destroy q =
    (case q of None \<Rightarrow> (-1, None)
     | Some q \<Rightarrow> (0, snd (rtxqueue_destroy (Some (rq_queue q)))))"

definition rtxq_size :: "rtxq \<Rightarrow> u32" where
  "rtxq_size q = word_of_int (q_len (rq_queue q))"

subsection \<open>The wire format\<close>

lemma length_le [simp]: "length (le16 a) = 2" "length (le32 b) = 4"
  by (simp_all add: le16_def le32_def)

text \<open>
  A MINIP header read back from the bytes of the packed structure is the header that was
  written, followed by the payload; it takes 19 bytes, so a full segment of \<open>MINIP_MSS\<close>
  bytes and its header fill exactly the 1500 bytes of an Ethernet frame.
\<close>

lemma minip_hdr_roundtrip:
  "hdr_of_bytes (hdr_bytes h @ payload) = Some (h, payload)
   \<and> length (hdr_bytes h) = 19 \<and> MINIP_MSS + length (hdr_bytes h) = 1500"
  by (simp add: hdr_bytes_def le16_def le32_def MINIP_MSS_def)

subsection \<open>Acknowledging\<close>

text \<open>
  The well-formed queue: the counter is the number of entries, the sequence numbers increase,
  and no entry was transmitted again more than \<open>MAX_MINIP_RETRY\<close> times.
\<close>

definition wf_rtxqueue :: "rtxqueue \<Rightarrow> bool" where
  "wf_rtxqueue q \<longleftrightarrow>
     q_len q = int (length (q_head q))
     \<and> sorted_wrt (\<lambda>a b. e_seq a < e_seq b) (q_head q)
     \<and> list_all (\<lambda>e. e_retries e \<le> MAX_MINIP_RETRY) (q_head q)"

lemma entries_ack_loop_eq:
  "entries_ack_loop ack es len credit =
     (dropWhile (\<lambda>e. e_seq e < ack) es,
      len - int (length (takeWhile (\<lambda>e. e_seq e < ack) es)),
      credit + int (length (takeWhile (\<lambda>e. e_seq e < ack) es)))"
  by (induction es arbitrary: len credit) (auto simp: rtxq_entry_destroy_def)

lemma rtxqueue_entries_ack_eq:
  assumes "wf_rtxqueue q"
  shows "rtxqueue_entries_ack q ack =
     (int (length (filter (\<lambda>e. e_seq e < ack) (q_head q))),
      q\<lparr>q_head := filter (\<lambda>e. ack \<le> e_seq e) (q_head q),
        q_len := int (length (filter (\<lambda>e. ack \<le> e_seq e) (q_head q)))\<rparr>)"
proof -
  have "length (q_head q) = length (filter (\<lambda>e. e_seq e < ack) (q_head q))
      + length (filter (\<lambda>e. ack \<le> e_seq e) (q_head q))"
    using sum_length_filter_compl [of "\<lambda>e. e_seq e < ack" "q_head q"] by (simp add: not_less)
  then show ?thesis
    using assms
    by (simp add: rtxqueue_entries_ack_def entries_ack_loop_eq wf_rtxqueue_def
        sorted_dropWhile_filter sorted_takeWhile_filter)
qed

text \<open>
  The contract of a queue of packets that wait for a cumulative acknowledgement: packets
  enter in the order of their keys and an acknowledgement removes exactly the packets below
  it and reports how many there were.
\<close>

locale ack_queue =
  fixes abs :: "'q \<Rightarrow> 'e list"
    and wf :: "'q \<Rightarrow> bool"
    and key :: "'e \<Rightarrow> u32"
    and ent :: "'s \<Rightarrow> 'e"
    and push :: "'q \<Rightarrow> 's \<Rightarrow> 'q"
    and ack :: "'q \<Rightarrow> u32 \<Rightarrow> int \<times> 'q"
  assumes abs_push: "wf q \<Longrightarrow> abs (push q s) = abs q @ [ent s]"
    and wf_push: "wf q \<Longrightarrow> (\<And>e. e \<in> set (abs q) \<Longrightarrow> key e < key (ent s)) \<Longrightarrow> wf (push q s)"
    and abs_ack: "wf q \<Longrightarrow> abs (snd (ack q a)) = filter (\<lambda>e. a \<le> key e) (abs q)"
    and credit_ack: "wf q \<Longrightarrow> fst (ack q a) = int (length (filter (\<lambda>e. key e < a) (abs q)))"
    and wf_ack: "wf q \<Longrightarrow> wf (snd (ack q a))"
begin

lemma credit_conservation:
  "wf q \<Longrightarrow> fst (ack q a) + int (length (abs (snd (ack q a)))) = int (length (abs q))"
  using sum_length_filter_compl [of "\<lambda>e. key e < a" "abs q"]
  by (simp add: abs_ack credit_ack not_less)

lemma ack_cumulative:
  "wf q \<Longrightarrow> a \<le> b \<Longrightarrow> abs (snd (ack (snd (ack q a)) b)) = abs (snd (ack q b))"
  by (auto simp: abs_ack wf_ack intro: filter_cong)

lemma ack_again_no_credit:
  "wf q \<Longrightarrow> b \<le> a \<Longrightarrow> fst (ack (snd (ack q a)) b) = 0"
  by (auto simp: abs_ack credit_ack wf_ack filter_empty_conv not_less)

lemma ack_cumulative_credit:
  assumes "wf q" "a \<le> b"
  shows "fst (ack q a) + fst (ack (snd (ack q a)) b) = fst (ack q b)"
  using credit_conservation [OF assms(1), of a] credit_conservation [OF assms(1), of b]
    credit_conservation [OF wf_ack [OF assms(1)], of a b]
  unfolding ack_cumulative [OF assms] by linarith

end

lemma wf_rtxqueue_ack: "wf_rtxqueue q \<Longrightarrow> wf_rtxqueue (snd (rtxqueue_entries_ack q ack))"
  by (auto simp: rtxqueue_entries_ack_eq)
    (auto simp: wf_rtxqueue_def sorted_wrt_filter list_all_iff)

lemma rtxqueue_push_ok [simp]:
  "rtxqueue_push True q skb =
     (0, q\<lparr>q_head := q_head q @ [\<lparr>e_skb = skb, e_retries = 0\<rparr>], q_len := q_len q + 1\<rparr>)"
  by (simp add: rtxqueue_push_def rtxq_entry_create_def)

interpretation rtxq: ack_queue q_head wf_rtxqueue e_seq "\<lambda>s. \<lparr>e_skb = s, e_retries = 0\<rparr>"
  "\<lambda>q s. snd (rtxqueue_push True q s)" rtxqueue_entries_ack
proof (unfold_locales, goal_cases)
  case (2 q s)
  then show ?case by (auto simp: wf_rtxqueue_def sorted_wrt_append MAX_MINIP_RETRY_def)
next
  case (5 q a)
  then show ?case by (rule wf_rtxqueue_ack)
qed (simp_all add: rtxqueue_entries_ack_eq)

text \<open>
  C21. A cumulative acknowledgement removes from a well-formed retransmission queue exactly the
  packets with a smaller sequence number, keeps the others in their order, reports the number
  of removed packets as the credit and leaves the queue well formed.
\<close>

theorem rtxq_ack_exact:
  assumes "wf_rtxqueue (rq_queue q)"
  shows "\<exists>q'. rtxq_ack (Some q) ack =
       (int (length (filter (\<lambda>e. e_seq e < ack) (q_head (rq_queue q)))), Some q')
     \<and> q_head (rq_queue q') = filter (\<lambda>e. ack \<le> e_seq e) (q_head (rq_queue q))
     \<and> wf_rtxqueue (rq_queue q')"
  using assms wf_rtxqueue_ack [OF assms, of ack]
  by (simp add: rtxq_ack_def rtxqueue_entries_ack_eq)

definition ex_skb :: "u32 \<Rightarrow> sk_buff" where
  "ex_skb seq = \<lparr>f_mac = [], f_hdr = \<lparr>h_pkt_type = 5, h_sdu_len = 0, h_id = 0,
     h_seq = htonl seq, h_ack = 0, h_ts = 0\<rparr>, f_data = []\<rparr>"

definition ex_rtxq :: rtxq where
  "ex_rtxq = \<lparr>rq_queue = \<lparr>q_len = 2, q_head =
     [\<lparr>e_skb = ex_skb 10, e_retries = 0\<rparr>, \<lparr>e_skb = ex_skb 11, e_retries = 1\<rparr>]\<rparr>\<rparr>"

lemma ex_skb_seq [simp]: "skb_seq_get (ex_skb n) = n"
  by (simp add: skb_seq_get_def ex_skb_def)

lemma ex_rtxq_wf: "wf_rtxqueue (rq_queue ex_rtxq)"
  by (simp add: ex_rtxq_def wf_rtxqueue_def MAX_MINIP_RETRY_def)

theorem rtxq_ack_exact_witness:
  "\<exists>q'. rtxq_ack (Some ex_rtxq) 11 = (1, Some q')
     \<and> q_head (rq_queue q') = [\<lparr>e_skb = ex_skb 11, e_retries = 1\<rparr>]
     \<and> wf_rtxqueue (rq_queue q')"
  using rtxq_ack_exact [OF ex_rtxq_wf, of 11] by (simp add: ex_rtxq_def)

subsection \<open>Retransmitting\<close>

text \<open>
  A packet up to its time stamp: retransmission changes nothing else. \<open>restamp\<close> is the
  packet as it is sent again.
\<close>

definition untimed :: "sk_buff \<Rightarrow> sk_buff" where
  "untimed s = s\<lparr>f_hdr := (f_hdr s)\<lparr>h_ts := 0\<rparr>\<rparr>"

definition restamp :: "u32 \<Rightarrow> sk_buff \<Rightarrow> sk_buff" where
  "restamp now_ms s = s\<lparr>f_hdr := (f_hdr s)\<lparr>h_ts := htonl now_ms\<rparr>\<rparr>"

definition rtx_entry :: "u32 \<Rightarrow> rtxq_entry \<Rightarrow> rtxq_entry" where
  "rtx_entry now_ms e = e\<lparr>e_skb := restamp now_ms (e_skb e), e_retries := e_retries e + 1\<rparr>"

lemma restamp_simps [simp]:
  "skb_seq_get (restamp n s) = skb_seq_get s" "untimed (restamp n s) = untimed s"
  "f_data (restamp n s) = f_data s" "f_mac (restamp n s) = f_mac s"
  "h_pkt_type (f_hdr (restamp n s)) = h_pkt_type (f_hdr s)"
  "h_sdu_len (f_hdr (restamp n s)) = h_sdu_len (f_hdr s)"
  "h_id (f_hdr (restamp n s)) = h_id (f_hdr s)"
  "h_ts (f_hdr (restamp n s)) = htonl n"
  by (simp_all add: restamp_def untimed_def skb_seq_get_def)

lemma rtx_entry_simps [simp]:
  "e_skb (rtx_entry n e) = restamp n (e_skb e)" "e_retries (rtx_entry n e) = e_retries e + 1"
  by (simp_all add: rtx_entry_def)

lemma untimed_eqD:
  assumes "untimed s = untimed t"
  shows "f_data s = f_data t" "skb_seq_get s = skb_seq_get t" "f_mac s = f_mac t"
    "h_sdu_len (f_hdr s) = h_sdu_len (f_hdr t)" "h_pkt_type (f_hdr s) = h_pkt_type (f_hdr t)"
    "h_id (f_hdr s) = h_id (f_hdr t)"
  using assms by (cases s; cases t; cases "f_hdr s"; cases "f_hdr t";
      simp add: untimed_def skb_seq_get_def)+

text \<open>The entries a retransmission of everything from \<open>ack\<close> on can process.\<close>

definition can_rtx :: "u32 \<Rightarrow> (sk_buff \<Rightarrow> int) \<Rightarrow> u32 \<Rightarrow> rtxq_entry \<Rightarrow> bool" where
  "can_rtx now_ms xmit ack e \<longleftrightarrow>
     (e_seq e < ack \<or> e_retries e < MAX_MINIP_RETRY \<and> 0 \<le> xmit (restamp now_ms (e_skb e)))"

lemma rtxq_entry_rtx_eq:
  "rtxq_entry_rtx n xmit e =
     (if e_retries e < MAX_MINIP_RETRY
      then (xmit (restamp n (e_skb e)), rtx_entry n e, [restamp n (e_skb e)]) else (-1, e, []))"
  by (simp add: rtxq_entry_rtx_def rtx_entry_def restamp_def Let_def)

lemma entries_rtx_loop_ok:
  assumes "\<forall>e\<in>set es. can_rtx n xmit ack e"
  shows "entries_rtx_loop n xmit ack es =
     (0, map (\<lambda>e. if ack \<le> e_seq e then rtx_entry n e else e) es,
      map (restamp n \<circ> e_skb) (filter (\<lambda>e. ack \<le> e_seq e) es))"
  using assms by (induction es) (auto simp: rtxq_entry_rtx_eq can_rtx_def)

lemma entries_rtx_loop_fail:
  assumes "\<exists>e\<in>set es. \<not> can_rtx n xmit ack e"
  shows "fst (entries_rtx_loop n xmit ack es) = -1"
  using assms
proof (induction es)
  case (Cons a es)
  show ?case
  proof (cases "can_rtx n xmit ack a")
    case True
    with Cons have "fst (entries_rtx_loop n xmit ack es) = -1" by auto
    with True show ?thesis by (auto simp: rtxq_entry_rtx_eq can_rtx_def split: prod.splits)
  next
    case False
    then show ?thesis by (auto simp: rtxq_entry_rtx_eq can_rtx_def not_less)
  qed
qed simp

lemma entries_rtx_loop_keys:
  assumes "entries_rtx_loop n xmit ack es = (rc, es', out)"
  shows "map (untimed \<circ> e_skb) es' = map (untimed \<circ> e_skb) es"
    and "set (map untimed out) \<subseteq> set (map (untimed \<circ> e_skb) es)"
  using assms
proof (induction es arbitrary: rc es' out)
  case (Cons e es)
  { case 1
    then show ?case using Cons.IH(1)
      by (auto simp: rtxq_entry_rtx_eq split: if_splits prod.splits)
  next
    case 2
    then show ?case using Cons.IH(2)
      by (auto 0 3 simp: rtxq_entry_rtx_eq split: if_splits prod.splits)
  }
qed simp_all

lemma rtxqueue_entries_rtx_head:
  assumes "rtxqueue_entries_rtx n xmit q ack = (rc, q', out)"
  shows "map (untimed \<circ> e_skb) (q_head q') = map (untimed \<circ> e_skb) (q_head q)"
    and "q_len q' = q_len q"
    and "set (map untimed out) \<subseteq> set (map (untimed \<circ> e_skb) (q_head q))"
  using assms entries_rtx_loop_keys [of n xmit ack "q_head q"]
  by (auto simp: rtxqueue_entries_rtx_def split: prod.splits)

text \<open>
  Retransmitting a queue from \<open>ack\<close> on fails exactly when a packet from there on has
  used up its attempts or the device refuses it. Otherwise every such packet is sent once, in
  the order of the queue, unchanged but for the new time stamp, and its attempt is counted.
\<close>

lemma rtxq_full_rtx_spec:
  "rtxq_full_rtx now_ms xmit (Some q) ack =
    (if \<forall>e\<in>set (q_head (rq_queue q)). can_rtx now_ms xmit ack e then
       (0, Some (q\<lparr>rq_queue := (rq_queue q)\<lparr>q_head :=
             map (\<lambda>e. if ack \<le> e_seq e then rtx_entry now_ms e else e) (q_head (rq_queue q))\<rparr>\<rparr>),
        map (restamp now_ms \<circ> e_skb) (filter (\<lambda>e. ack \<le> e_seq e) (q_head (rq_queue q))))
     else (-1, snd (rtxq_full_rtx now_ms xmit (Some q) ack)))"
proof (cases "\<forall>e\<in>set (q_head (rq_queue q)). can_rtx now_ms xmit ack e")
  case True
  then show ?thesis
    by (simp add: rtxq_full_rtx_def rtxqueue_entries_rtx_def entries_rtx_loop_ok)
next
  case False
  then have "fst (entries_rtx_loop now_ms xmit ack (q_head (rq_queue q))) = -1"
    by (intro entries_rtx_loop_fail) auto
  with False show ?thesis
    by (auto simp: rtxq_full_rtx_def rtxqueue_entries_rtx_def split: prod.splits)
qed

lemma untimed_seq [simp]: "skb_seq_get (untimed s) = skb_seq_get s"
  by (simp add: untimed_def skb_seq_get_def)

lemma map_e_seq_untimed: "map e_seq es = map skb_seq_get (map (untimed \<circ> e_skb) es)"
  by simp

lemma entries_rtx_loop_retries:
  "entries_rtx_loop n xmit ack es = (rc, es', out) \<Longrightarrow>
     list_all (\<lambda>e. e_retries e \<le> MAX_MINIP_RETRY) es \<Longrightarrow>
     list_all (\<lambda>e. e_retries e \<le> MAX_MINIP_RETRY) es'"
  by (induction es arbitrary: rc es' out)
    (auto simp: rtxq_entry_rtx_eq inc_le split: if_splits prod.splits)

lemma wf_rtxqueue_rtx:
  assumes "rtxqueue_entries_rtx n xmit q ack = (rc, q', out)" "wf_rtxqueue q"
  shows "wf_rtxqueue q'"
proof -
  have keys: "map (untimed \<circ> e_skb) (q_head q') = map (untimed \<circ> e_skb) (q_head q)"
    and len: "q_len q' = q_len q"
    using rtxqueue_entries_rtx_head [OF assms(1)] by blast+
  have "map e_seq (q_head q') = map e_seq (q_head q)"
    unfolding map_e_seq_untimed keys ..
  then have "sorted_wrt (\<lambda>a b. e_seq a < e_seq b) (q_head q')"
    using assms(2) unfolding wf_rtxqueue_def by (metis sorted_wrt_map)
  moreover have "list_all (\<lambda>e. e_retries e \<le> MAX_MINIP_RETRY) (q_head q')"
    using assms by (auto simp: rtxqueue_entries_rtx_def wf_rtxqueue_def split: prod.splits
        intro: entries_rtx_loop_retries)
  moreover have "length (q_head q') = length (q_head q)"
    using keys by (rule map_eq_imp_length_eq)
  ultimately show ?thesis using assms(2) len by (simp add: wf_rtxqueue_def)
qed

lemma flush_loop_eq: "flush_loop es len = ([], len - int (length es))"
  by (induction es arbitrary: len) auto

lemma rtxq_destroy_flushes:
  "wf_rtxqueue (rq_queue q) \<Longrightarrow>
     rtxq_destroy (Some q) = (0, Some (rq_queue q\<lparr>q_head := [], q_len := 0\<rparr>))"
  by (simp add: rtxq_destroy_def rtxqueue_destroy_def rtxqueue_flush_def flush_loop_eq
      wf_rtxqueue_def)

lemma rtxq_create_wf:
  "rtxq_create a b = Some q \<Longrightarrow> a \<and> b \<and> rq_queue q = \<lparr>q_len = 0, q_head = []\<rparr>
     \<and> wf_rtxqueue (rq_queue q)"
  by (auto simp: rtxq_create_def rtxqueue_create_def wf_rtxqueue_def split: if_splits)

end
