(* ===== verification/Pep_World.thy ===== *)
theory Pep_World
  imports Pep_Rtxq
begin

section \<open>The state of the module and of the kernel around it\<close>

text \<open>
  The structures of \<open>connection.h\<close> and \<open>server.h\<close>, the global variables of the module, the
  sockets it owns and the queues of pending work, as one record \<open>world\<close> that every
  operation takes and returns. Objects live in stores indexed by an address, so that a
  freed object is one its store no longer holds: an access to it is recorded in \<open>g_faults\<close>,
  and so are null dereferences, double frees and accesses outside a buffer. A theorem that
  the list of faults stays empty is a memory-safety statement; the state after a fault has
  no meaning of its own.

  Kernel services whose result the module does not determine (allocation, device and
  socket calls, the clock, the kernel's integer hash) are the fields of \<open>kenv\<close>, a parameter
  of the operations; its first part holds the build options that the source tests with
  \<open>#ifdef\<close>. Linked lists, atomic counters, reference counts and work queues are modelled
  directly; locks only serialise and are left out, so an operation is one atomic step.
\<close>

datatype 'a ptr = Null | Freed | Live 'a

subsection \<open>Modes\<close>

datatype server_mode =
    TCP2TCP
  | TCP2RINA
  | TCP2CCN
  | TCP2MINIP
  | RINA2TCP
  | MINIP2TCP
  | CCN2TCP
  | RINA2RINA
  | CCN2CCN

text \<open>
  The mode is a module parameter of type \<open>int\<close> stored in the enumeration, so it can hold a
  value that no enumerator has.
\<close>

fun mode_code :: "server_mode \<Rightarrow> int" where
  "mode_code TCP2TCP = 0"
| "mode_code TCP2RINA = 1"
| "mode_code TCP2CCN = 2"
| "mode_code TCP2MINIP = 3"
| "mode_code RINA2TCP = 4"
| "mode_code MINIP2TCP = 5"
| "mode_code CCN2TCP = 6"
| "mode_code RINA2RINA = 7"
| "mode_code CCN2CCN = 8"

definition mode_of :: "int \<Rightarrow> server_mode option" where
  "mode_of m =
    (if m = 0 then Some TCP2TCP else if m = 1 then Some TCP2RINA
     else if m = 2 then Some TCP2CCN else if m = 3 then Some TCP2MINIP
     else if m = 4 then Some RINA2TCP else if m = 5 then Some MINIP2TCP
     else if m = 6 then Some CCN2TCP else if m = 7 then Some RINA2RINA
     else if m = 8 then Some CCN2CCN else None)"

lemma mode_of_code [simp]: "mode_of (mode_code m) = Some m"
  by (cases m) (simp_all add: mode_of_def)

lemma mode_of_Some: "mode_of i = Some m \<longleftrightarrow> i = mode_code m"
  by (cases m) (auto simp: mode_of_def)

subsection \<open>Connections\<close>

record syn_tuple =
  t_saddr :: u32
  t_source :: u16
  t_daddr :: u32
  t_dest :: u16

text \<open>A TCP packet as the netfilter hook sees it, with addresses and ports in network order.\<close>

record tcp_skb =
  p_protocol :: u8
  p_saddr :: u32
  p_daddr :: u32
  p_source :: u16
  p_dest :: u16
  p_syn :: bool
  p_ack :: bool
  p_rst :: bool
  p_mark :: u32
  p_tstamp :: u64

text \<open>The work functions that \<open>pepdna_con_alloc\<close> installs, and the slot of a work item.\<close>

datatype work_fn =
    W_l2r_fwd | W_r2l_fwd | W_tcp_connect
  | W_i2r_work | W_r2i_work | W_rina_flow_alloc
  | W_i2m_work | W_m2i_work | W_minip_handshake
  | W_i2c_work | W_c2i_work | W_udp_open

datatype work_slot = L2R | R2L | TCFA

datatype minip_state = NO_STATE | REQUEST_SENT | REQUEST_RECVD | ESTABLISHED | RECOVERY

text \<open>
  The parts of a RINA flow (\<open>struct ipcp_flow\<close> of the IRATI stack) that PEP-DNA reads.
\<close>

datatype flow_state =
  PORT_STATE_NULL | PORT_STATE_PENDING | PORT_STATE_ALLOCATED | PORT_STATE_DEALLOCATED
  | PORT_STATE_DISABLED

record ipcp_flow =
  fl_state :: flow_state
  fl_wqs :: bool
  fl_sdu_ready :: "bytes list"

record pepdna_con =
  c_kref :: nat
  c_tcfa_work :: "work_fn option"
  c_l2r_work :: "work_fn option"
  c_r2l_work :: "work_fn option"
  c_flow :: "ipcp_flow option"
  c_port_id :: int
  c_rtxq :: "rtxq ptr"
  c_timer :: "u64 option"
  c_dup_acks :: u32
  c_sending :: bool
  c_last_acked :: u32
  c_next_seq :: u32
  c_state :: minip_state
  c_window :: u8
  c_next_recv :: u32
  c_rto :: u32
  c_srtt :: u32
  c_rttvar :: u32
  c_lsock :: "nat option"
  c_rsock :: "nat option"
  c_lflag :: bool
  c_rflag :: bool
  c_id :: u32
  c_ts :: u64
  c_tuple :: syn_tuple
  c_skb :: "tcp_skb ptr"

text \<open>The structure as \<open>kzalloc\<close> returns it.\<close>

definition zero_con :: pepdna_con where
  "zero_con = \<lparr>c_kref = 0, c_tcfa_work = None, c_l2r_work = None, c_r2l_work = None,
     c_flow = None, c_port_id = 0, c_rtxq = Null, c_timer = None, c_dup_acks = 0,
     c_sending = False, c_last_acked = 0, c_next_seq = 0, c_state = NO_STATE, c_window = 0,
     c_next_recv = 0, c_rto = 0, c_srtt = 0, c_rttvar = 0, c_lsock = None, c_rsock = None,
     c_lflag = False, c_rflag = False, c_id = 0, c_ts = 0,
     c_tuple = \<lparr>t_saddr = 0, t_source = 0, t_daddr = 0, t_dest = 0\<rparr>, c_skb = Null\<rparr>"

subsection \<open>Sockets and the server\<close>

text \<open>
  A listener keeps its original callback in \<open>sk_user_data\<close>, a connected socket the
  connection it belongs to.
\<close>

datatype user_data = UD_null | UD_con nat | UD_ready

datatype data_ready = DR_default | DR_listen | DR_l2r | DR_r2l | DR_udp

record sock =
  k_user_data :: user_data
  k_data_ready :: data_ready
  k_shutdown :: bool
  k_reuse :: bool
  k_sndbuf :: int
  k_rcvbuf :: int
  k_snd_locked :: bool
  k_rcv_locked :: bool
  k_nodelay :: bool
  k_quickack :: bool
  k_transparent :: bool
  k_mark :: u32
  k_local :: "(u32 \<times> u16) option"
  k_peer :: "(u32 \<times> u16) option"

definition new_sock :: sock where
  "new_sock = \<lparr>k_user_data = UD_null, k_data_ready = DR_default, k_shutdown = False,
     k_reuse = False, k_sndbuf = 0, k_rcvbuf = 0, k_snd_locked = False, k_rcv_locked = False,
     k_nodelay = False, k_quickack = False, k_transparent = False, k_mark = 0,
     k_local = None, k_peer = None\<rparr>"

record pepdna_server =
  s_mode :: int
  s_l2r_wq :: bool
  s_r2l_wq :: bool
  s_tcfa_wq :: bool
  s_accept_wq :: bool
  s_accept_work :: bool
  s_listener :: "nat option"
  s_port :: int
  s_to_mac :: bytes
  s_htable :: "nat \<Rightarrow> nat list"
  s_conns :: int

text \<open>The netlink message exchanged with the flow allocator in user space.\<close>

record nl_msg =
  n_saddr :: u32
  n_source :: u16
  n_daddr :: u32
  n_dest :: u16
  n_id :: u32
  n_port_id :: int
  n_alloc :: bool

subsection \<open>Faults, events and the world\<close>

datatype fault =
    UseAfterFree nat
  | NullDeref
  | DoubleFree
  | DoubleRelease nat
  | OverRead
  | Overflow

datatype event =
    Ev_reinject tcp_skb
  | Ev_shutdown nat
  | Ev_netlink nl_msg
  | Ev_flow_write bytes
  | Ev_wake_flow nat
  | Ev_sent nat bytes
  | Ev_free_skb nat

record world =
  g_srv :: "pepdna_server ptr"
  g_cons :: "nat \<Rightarrow> pepdna_con option"
  g_next :: nat
  g_socks :: "nat \<Rightarrow> sock option"
  g_next_sock :: nat
  g_skbs :: "nat \<Rightarrow> sk_buff option"
  g_pending :: "(nat \<times> work_slot) list"
  g_accept_pending :: bool
  g_out :: "sk_buff list"
  g_log :: "event list"
  g_faults :: "fault list"
  g_mode :: int
  g_port :: int
  g_hooks :: int
  g_pack :: bool
  g_sysctl :: bool
  g_rmem :: "int list"
  g_wmem :: "int list"
  g_nl_sock :: bool
  g_nl_mode :: int
  g_nl_port_id :: int
  g_wqs :: int
  g_request_done :: bool

subsection \<open>Build options and kernel services\<close>

datatype alloc_site =
    A_con | A_skb_copy | A_rtxq | A_rtxqueue | A_entry u32 | A_skb minip_packet_type u32
  | A_clone u32 | A_buffer | A_syn | A_addr | A_server | A_nl_skb nat | A_du nat | A_iowqs

record kconfig =
  CONFIG_RINA :: bool
  CONFIG_MINIP :: bool
  CONFIG_CCN :: bool
  CONFIG_LOCAL_SENDER :: bool
  CONFIG_LOCAL_RECEIVER :: bool
  CONFIG_LOCALHOST :: bool

record kenv = kconfig +
  jiffies :: u64
  jiffies_to_msecs :: "u64 \<Rightarrow> u32"
  msecs_to_jiffies :: "u32 \<Rightarrow> u64"
  hash_min :: "u32 \<Rightarrow> nat \<Rightarrow> nat"
  kzalloc :: "alloc_site \<Rightarrow> bool"
  skb_junk :: minip_hdr
  dev_hard_header :: int
  dev_queue_xmit :: "sk_buff \<Rightarrow> int"
  alloc_workqueue :: "string \<Rightarrow> bool"
  sock_create_kern :: int
  kernel_bind :: int
  kernel_listen :: int
  kernel_connect :: int
  kernel_getname :: "nat \<Rightarrow> int"
  ip_setsockopt :: int
  netlink_kernel_create :: bool
  register_net_sysctl :: bool

definition now_ms :: "kenv \<Rightarrow> u32" where
  "now_ms E = jiffies_to_msecs E (jiffies E)"

subsection \<open>Access to the stores\<close>

definition add_fault :: "fault \<Rightarrow> world \<Rightarrow> world" where
  "add_fault f w = w\<lparr>g_faults := f # g_faults w\<rparr>"

definition log_event :: "event \<Rightarrow> world \<Rightarrow> world" where
  "log_event e w = w\<lparr>g_log := g_log w @ [e]\<rparr>"

definition upd_con :: "nat \<Rightarrow> (pepdna_con \<Rightarrow> pepdna_con) \<Rightarrow> world \<Rightarrow> world" where
  "upd_con a f w =
    (case g_cons w a of None \<Rightarrow> add_fault (UseAfterFree a) w
     | Some con \<Rightarrow> w\<lparr>g_cons := (g_cons w)(a \<mapsto> f con)\<rparr>)"

definition upd_sock :: "nat \<Rightarrow> (sock \<Rightarrow> sock) \<Rightarrow> world \<Rightarrow> world" where
  "upd_sock s f w =
    (case g_socks w s of None \<Rightarrow> add_fault (UseAfterFree s) w
     | Some k \<Rightarrow> w\<lparr>g_socks := (g_socks w)(s \<mapsto> f k)\<rparr>)"

definition upd_srv :: "(pepdna_server \<Rightarrow> pepdna_server) \<Rightarrow> world \<Rightarrow> world" where
  "upd_srv f w =
    (case g_srv w of Null \<Rightarrow> add_fault NullDeref w
     | Freed \<Rightarrow> add_fault (UseAfterFree 0) w
     | Live srv \<Rightarrow> w\<lparr>g_srv := Live (f srv)\<rparr>)"

text \<open>Kernel primitives the module calls on its own objects.\<close>

definition sock_release :: "nat \<Rightarrow> world \<Rightarrow> world" where
  "sock_release s w =
    (case g_socks w s of None \<Rightarrow> add_fault (DoubleRelease s) w
     | Some _ \<Rightarrow> w\<lparr>g_socks := (g_socks w)(s := None)\<rparr>)"

definition kernel_sock_shutdown :: "nat \<Rightarrow> world \<Rightarrow> world" where
  "kernel_sock_shutdown s w =
     log_event (Ev_shutdown s) (upd_sock s (\<lambda>k. k\<lparr>k_shutdown := True\<rparr>) w)"

definition kfree_skb :: "nat \<Rightarrow> world \<Rightarrow> world" where
  "kfree_skb p w =
    (case g_skbs w p of None \<Rightarrow> add_fault DoubleFree w
     | Some _ \<Rightarrow> w\<lparr>g_skbs := (g_skbs w)(p := None)\<rparr>)"

text \<open>\<open>queue_work\<close> reports whether the item was added, that is, not yet pending.\<close>

definition queue_work :: "nat \<Rightarrow> work_slot \<Rightarrow> world \<Rightarrow> bool \<times> world" where
  "queue_work a slot w =
    (if (a, slot) \<in> set (g_pending w) then (False, w)
     else (True, w\<lparr>g_pending := g_pending w @ [(a, slot)]\<rparr>))"

definition xmit_frame :: "kenv \<Rightarrow> sk_buff \<Rightarrow> world \<Rightarrow> int \<times> world" where
  "xmit_frame E skb w = (dev_queue_xmit E skb, w\<lparr>g_out := g_out w @ [skb]\<rparr>)"

lemmas store_defs = add_fault_def log_event_def upd_con_def upd_sock_def upd_srv_def
  sock_release_def kernel_sock_shutdown_def kfree_skb_def queue_work_def xmit_frame_def

subsection \<open>Sample states\<close>

text \<open>
  A freshly started server without connections, and kernel services that always succeed,
  as the concrete inputs of the examples.
\<close>

definition sample_srv :: "server_mode \<Rightarrow> pepdna_server" where
  "sample_srv m = \<lparr>s_mode = mode_code m, s_l2r_wq = True, s_r2l_wq = True, s_tcfa_wq = True,
     s_accept_wq = True, s_accept_work = True, s_listener = None, s_port = 9999,
     s_to_mac = [1, 2, 3, 4, 5, 6], s_htable = (\<lambda>_. []), s_conns = 0\<rparr>"

definition sample_world :: "server_mode \<Rightarrow> world" where
  "sample_world m = \<lparr>g_srv = Live (sample_srv m), g_cons = Map.empty, g_next = 0,
     g_socks = Map.empty, g_next_sock = 0, g_skbs = Map.empty, g_pending = [],
     g_accept_pending = False, g_out = [], g_log = [], g_faults = [], g_mode = mode_code m,
     g_port = 9999, g_hooks = 1, g_pack = True, g_sysctl = True,
     g_rmem = [8388608, 8388608, 8388608], g_wmem = [8388608, 8388608, 8388608],
     g_nl_sock = False, g_nl_mode = 0, g_nl_port_id = -1, g_wqs = 4, g_request_done = False\<rparr>"

definition sample_env :: kenv where
  "sample_env = \<lparr>CONFIG_RINA = False, CONFIG_MINIP = True, CONFIG_CCN = False,
     CONFIG_LOCAL_SENDER = False, CONFIG_LOCAL_RECEIVER = False, CONFIG_LOCALHOST = False,
     jiffies = 1000, jiffies_to_msecs = (\<lambda>j. ucast j), msecs_to_jiffies = (\<lambda>m. ucast m),
     hash_min = (\<lambda>k b. unat k mod 2 ^ b), kzalloc = (\<lambda>_. True),
     skb_junk = \<lparr>h_pkt_type = 0, h_sdu_len = 0, h_id = 0, h_seq = 0, h_ack = 0, h_ts = 0\<rparr>,
     dev_hard_header = 14, dev_queue_xmit = (\<lambda>_. 0), alloc_workqueue = (\<lambda>_. True),
     sock_create_kern = 0, kernel_bind = 0, kernel_listen = 0, kernel_connect = 0,
     kernel_getname = (\<lambda>_. 16), ip_setsockopt = 0, netlink_kernel_create = True,
     register_net_sysctl = True\<rparr>"

end
