(* ===== verification/Pep_Conn.thy ===== *)
theory Pep_Conn
  imports Pep_World
begin

section \<open>Connection instances (connection.h, connection.c)\<close>

text \<open>
  Allocation of a connection, its lookup in the hash table of the server, its reference
  count and its teardown. A connection is an address of the store \<open>g_cons\<close>; the hash table
  maps a bucket to the addresses chained there, newest first, as \<open>hash_add\<close> inserts at the
  head.
\<close>

subsection \<open>State tests\<close>

text \<open>
  Both tests read a flag of the connection. A connection that is no longer in the store has no flag to
  read: the data ready callbacks, the only callers with an address that may be stale, look it up first
  and record the access to freed memory (\<open>Pep_Ready\<close>).
\<close>

definition lconnected :: "nat option \<Rightarrow> world \<Rightarrow> bool" where
  "lconnected a w =
    (case a of None \<Rightarrow> False
     | Some a \<Rightarrow> (case g_cons w a of None \<Rightarrow> False | Some con \<Rightarrow> c_lflag con))"

definition rconnected :: "nat option \<Rightarrow> world \<Rightarrow> bool" where
  "rconnected a w =
    (case a of None \<Rightarrow> False
     | Some a \<Rightarrow> (case g_cons w a of None \<Rightarrow> False | Some con \<Rightarrow> c_rflag con))"

subsection \<open>The hash table\<close>

text \<open>
  \<open>htable\<close> is declared with \<open>PEPDNA_HASH_BITS\<close>, that is 9, buckets. \<open>HASH_BITS\<close> of an array
  is the logarithm of its length rounded down, here 3.
\<close>

definition PEPDNA_HASH_BITS :: nat where "PEPDNA_HASH_BITS = 9"

fun ilog2 :: "nat \<Rightarrow> nat" where
  "ilog2 n = (if n < 2 then 0 else Suc (ilog2 (n div 2)))"

declare ilog2.simps [simp del]

definition pepdna_hash :: "kenv \<Rightarrow> u32 \<Rightarrow> nat" where
  "pepdna_hash E key = hash_min E key (ilog2 PEPDNA_HASH_BITS)"

definition has_id :: "world \<Rightarrow> u32 \<Rightarrow> nat \<Rightarrow> bool" where
  "has_id w key a = (case g_cons w a of None \<Rightarrow> False | Some con \<Rightarrow> c_id con = key)"

definition pepdna_con_find :: "kenv \<Rightarrow> u32 \<Rightarrow> world \<Rightarrow> nat option" where
  "pepdna_con_find E key w =
    (case g_srv w of Live srv \<Rightarrow> find (has_id w key) (s_htable srv (pepdna_hash E key))
     | _ \<Rightarrow> None)"

definition hash_add :: "kenv \<Rightarrow> nat \<Rightarrow> u32 \<Rightarrow> pepdna_server \<Rightarrow> pepdna_server" where
  "hash_add E a key srv =
     srv\<lparr>s_htable := (s_htable srv)(pepdna_hash E key := a # s_htable srv (pepdna_hash E key))\<rparr>"

definition hlist_del :: "nat \<Rightarrow> pepdna_server \<Rightarrow> pepdna_server" where
  "hlist_del a srv = srv\<lparr>s_htable := (\<lambda>b. filter (\<lambda>x. x \<noteq> a) (s_htable srv b))\<rparr>"

subsection \<open>Reference counting\<close>

definition pepdna_con_kref_release :: "nat \<Rightarrow> world \<Rightarrow> world" where
  "pepdna_con_kref_release a w =
    (case g_cons w a of None \<Rightarrow> add_fault (UseAfterFree a) w
     | Some con \<Rightarrow>
        (let w = (case c_lsock con of None \<Rightarrow> w | Some s \<Rightarrow> sock_release s w);
             w = (case c_rsock con of None \<Rightarrow> w | Some s \<Rightarrow> sock_release s w);
             w = upd_srv (hlist_del a) w;
             w = w\<lparr>g_cons := (g_cons w)(a := None)\<rparr>
         in upd_srv (\<lambda>srv. srv\<lparr>s_conns := s_conns srv - 1\<rparr>) w))"

definition pepdna_con_put :: "nat \<Rightarrow> world \<Rightarrow> world" where
  "pepdna_con_put a w =
    (case g_cons w a of None \<Rightarrow> add_fault (UseAfterFree a) w
     | Some con \<Rightarrow>
        (if 0 < c_kref con then
           (if c_kref con = 1 then pepdna_con_kref_release a w
            else upd_con a (\<lambda>c. c\<lparr>c_kref := c_kref c - 1\<rparr>) w)
         else w))"

definition pepdna_con_get :: "nat \<Rightarrow> world \<Rightarrow> world" where
  "pepdna_con_get a w = upd_con a (\<lambda>c. c\<lparr>c_kref := c_kref c + 1\<rparr>) w"

subsection \<open>Allocation\<close>

text \<open>
  The work functions of a mode: forwarding left to right, right to left, and the work that
  opens the far side. A mode that the build does not support falls to the default case,
  \<open>None\<close>; the modes announced as not yet implemented install nothing.
\<close>

definition con_works ::
    "kenv \<Rightarrow> int \<Rightarrow> (work_fn option \<times> work_fn option \<times> work_fn option) option" where
  "con_works E mode =
    (case mode_of mode of
       Some TCP2TCP \<Rightarrow> Some (Some W_l2r_fwd, Some W_r2l_fwd, Some W_tcp_connect)
     | Some TCP2RINA \<Rightarrow> (if CONFIG_RINA E
         then Some (Some W_i2r_work, Some W_r2i_work, Some W_rina_flow_alloc) else None)
     | Some RINA2TCP \<Rightarrow> (if CONFIG_RINA E
         then Some (Some W_i2r_work, Some W_r2i_work, Some W_tcp_connect) else None)
     | Some RINA2RINA \<Rightarrow> (if CONFIG_RINA E then Some (None, None, None) else None)
     | Some TCP2MINIP \<Rightarrow> (if CONFIG_MINIP E
         then Some (Some W_i2m_work, Some W_m2i_work, Some W_minip_handshake) else None)
     | Some MINIP2TCP \<Rightarrow> (if CONFIG_MINIP E
         then Some (Some W_i2m_work, Some W_m2i_work, Some W_tcp_connect) else None)
     | Some TCP2CCN \<Rightarrow> (if CONFIG_CCN E
         then Some (Some W_i2c_work, Some W_c2i_work, Some W_udp_open) else None)
     | Some CCN2TCP \<Rightarrow> (if CONFIG_CCN E then Some (None, None, None) else None)
     | Some CCN2CCN \<Rightarrow> (if CONFIG_CCN E then Some (None, None, None) else None)
     | None \<Rightarrow> None)"

text \<open>The fields set between the mode switch and the insertion into the table.\<close>

definition init_con ::
    "kenv \<Rightarrow> syn_tuple \<Rightarrow> u32 \<Rightarrow> u64 \<Rightarrow> int \<Rightarrow> rtxq ptr \<Rightarrow> pepdna_con \<Rightarrow> pepdna_con" where
  "init_con E syn hash_id ts port_id rq con =
    (let con = con\<lparr>c_id := hash_id, c_ts := ts\<rparr>;
         con = (if CONFIG_RINA E then con\<lparr>c_port_id := port_id, c_flow := None\<rparr> else con);
         con = (if CONFIG_MINIP E then
                  con\<lparr>c_next_seq := MINIP_FIRST_SEQ, c_last_acked := MINIP_FIRST_SEQ,
                      c_next_recv := MINIP_FIRST_SEQ, c_window := WINDOW_SIZE, c_rtxq := rq,
                      c_sending := True, c_dup_acks := 0, c_rto := 3000, c_srtt := 0,
                      c_rttvar := 0, c_timer := None\<rparr>
                else con)
     in con\<lparr>c_lsock := None, c_rsock := None, c_lflag := False, c_rflag := False,
            c_tuple := syn\<rparr>)"

definition skb_copy :: "kenv \<Rightarrow> tcp_skb option \<Rightarrow> tcp_skb ptr" where
  "skb_copy E skb =
    (case skb of None \<Rightarrow> Null | Some s \<Rightarrow> if kzalloc E A_skb_copy then Live s else Null)"

definition pepdna_con_alloc ::
    "kenv \<Rightarrow> syn_tuple \<Rightarrow> tcp_skb option \<Rightarrow> u32 \<Rightarrow> u64 \<Rightarrow> int \<Rightarrow> world \<Rightarrow> nat option \<times> world"
where
  "pepdna_con_alloc E syn skb hash_id ts port_id w =
    (if \<not> kzalloc E A_con then (None, w)
     else case g_srv w of
       Null \<Rightarrow> (None, add_fault NullDeref w)
     | Freed \<Rightarrow> (None, add_fault (UseAfterFree 0) w)
     | Live srv \<Rightarrow>
        (let a = g_next w;
             w = w\<lparr>g_next := a + 1\<rparr>;
             con = zero_con\<lparr>c_kref := 1,
                     c_skb := skb_copy E skb\<rparr>
         in case con_works E (s_mode srv) of
              None \<Rightarrow> (None, w\<lparr>g_cons := (g_cons w)(a \<mapsto> con)\<rparr>)
            | Some (l2r, r2l, tcfa) \<Rightarrow>
               (let con = con\<lparr>c_l2r_work := l2r, c_r2l_work := r2l, c_tcfa_work := tcfa\<rparr>;
                    rq = rtxq_create (kzalloc E A_rtxq) (kzalloc E A_rtxqueue)
                in if CONFIG_MINIP E \<and> rq = None then (None, w)
                   else
                     (let con = init_con E syn hash_id ts port_id
                                  (case rq of None \<Rightarrow> Null | Some q \<Rightarrow> Live q) con;
                          w = w\<lparr>g_cons := (g_cons w)(a \<mapsto> con)\<rparr>;
                          w = upd_srv (\<lambda>srv. srv\<lparr>s_conns := s_conns srv + 1\<rparr>) w;
                          w = upd_srv (hash_add E a hash_id) w;
                          (queued, w) = queue_work a TCFA w
                      in (Some a, if queued then w else pepdna_con_put a w)))))"

subsection \<open>Reinjecting the first packet\<close>

text \<open>
  Once the far side is up, the stored SYN goes back to the stack, which owns it from then on;
  the pointer is not cleared. A local sender needs the listening socket for it.
\<close>

definition reinject_syn :: "kenv \<Rightarrow> nat \<Rightarrow> world \<Rightarrow> world" where
  "reinject_syn E a w =
    (case g_cons w a of None \<Rightarrow> add_fault (UseAfterFree a) w
     | Some con \<Rightarrow>
        (if CONFIG_LOCAL_SENDER E
            \<and> (case g_srv w of Live srv \<Rightarrow> s_listener srv = None | _ \<Rightarrow> True)
         then add_fault NullDeref w
         else case c_skb con of
                Null \<Rightarrow> add_fault NullDeref w
              | Freed \<Rightarrow> add_fault (UseAfterFree a) w
              | Live skb \<Rightarrow> upd_con a (\<lambda>c. c\<lparr>c_skb := Freed\<rparr>)
                              (log_event (Ev_reinject skb) w)))"

subsection \<open>Teardown\<close>

text \<open>
  \<open>rtxq_destroy\<close> on the connection's queue; the pointer is not cleared, so it dangles
  afterwards, and a second destruction is a double free.
\<close>

definition con_rtxq_destroy :: "nat \<Rightarrow> world \<Rightarrow> world" where
  "con_rtxq_destroy a w =
    (case g_cons w a of None \<Rightarrow> add_fault (UseAfterFree a) w
     | Some con \<Rightarrow>
        (case c_rtxq con of Null \<Rightarrow> w
         | Freed \<Rightarrow> add_fault DoubleFree w
         | Live q \<Rightarrow> upd_con a (\<lambda>c. c\<lparr>c_rtxq := Freed\<rparr>) w))"

definition close_left :: "nat \<Rightarrow> nat \<Rightarrow> bool \<Rightarrow> world \<Rightarrow> world" where
  "close_left a lsk connected w =
    (let w = upd_con a (\<lambda>c. c\<lparr>c_lflag := False\<rparr>) w
     in if connected
        then kernel_sock_shutdown lsk (upd_sock lsk (\<lambda>k. k\<lparr>k_user_data := UD_null\<rparr>) w)
        else w)"

definition close_right_tcp :: "nat \<Rightarrow> nat \<Rightarrow> bool \<Rightarrow> world \<Rightarrow> world" where
  "close_right_tcp a rsk connected w =
    (let w = upd_con a (\<lambda>c. c\<lparr>c_rflag := False\<rparr>) w
     in if connected
        then kernel_sock_shutdown rsk (upd_sock rsk (\<lambda>k. k\<lparr>k_user_data := UD_null\<rparr>) w)
        else w)"

definition close_right_rina :: "nat \<Rightarrow> pepdna_con \<Rightarrow> bool \<Rightarrow> world \<Rightarrow> world" where
  "close_right_rina a con connected w =
    (let w = upd_con a (\<lambda>c. c\<lparr>c_rflag := False\<rparr>) w
     in if connected
        then
          (let w = (case c_flow con of None \<Rightarrow> w
                    | Some fl \<Rightarrow> if fl_wqs fl then log_event (Ev_wake_flow a) w else w)
           in w\<lparr>g_pending := filter (\<lambda>x. x \<noteq> (a, R2L)) (g_pending w)\<rparr>)
        else w)"

definition pepdna_con_close :: "kenv \<Rightarrow> nat option \<Rightarrow> world \<Rightarrow> world" where
  "pepdna_con_close E con_ptr w =
    (case con_ptr of None \<Rightarrow> w
     | Some a \<Rightarrow>
       (case g_cons w a of None \<Rightarrow> add_fault (UseAfterFree a) w
        | Some con \<Rightarrow>
          (case c_lsock con of None \<Rightarrow> pepdna_con_put a w
           | Some lsk \<Rightarrow>
             (let lconn = c_lflag con;
                  rconn = c_rflag con;
                  w = close_left a lsk lconn w
              in case g_srv w of
                   Null \<Rightarrow> add_fault NullDeref w
                 | Freed \<Rightarrow> add_fault (UseAfterFree 0) w
                 | Live srv \<Rightarrow>
                   (if mode_of (s_mode srv) = Some TCP2TCP then
                      (case c_rsock con of None \<Rightarrow> pepdna_con_put a w
                       | Some rsk \<Rightarrow> pepdna_con_put a (close_right_tcp a rsk rconn w))
                    else
                      (let w = (if CONFIG_RINA E then close_right_rina a con rconn w else w)
                       in if CONFIG_MINIP E then
                            (let w = upd_con a (\<lambda>c. c\<lparr>c_timer := None\<rparr>) w
                             in if rconn then w
                                else pepdna_con_put a (con_rtxq_destroy a w))
                          else pepdna_con_put a w))))))"

subsection \<open>The table and the store agree\<close>

text \<open>
  The invariant of the connection table: a bucket chains exactly the live connections whose
  identifier hashes to it, once each; a live connection has a positive reference count and
  an address already handed out; the server's counter is the number of live connections; and the mode is one that the build
  supports, as a server with another mode does not start. The map \<open>I\<close> lists connections that are known
  by their identifier and the addresses of their SYN: as long as such a connection is live it keeps
  both, and no other connection takes its address. With nothing known it is the invariant of the
  table alone.
\<close>

definition wf_known :: "(nat \<Rightarrow> (u32 \<times> syn_tuple) option) \<Rightarrow> kenv \<Rightarrow> world \<Rightarrow> bool" where
  "wf_known I E w \<longleftrightarrow>
    (\<exists>srv. g_srv w = Live srv
      \<and> (\<forall>a b. a \<in> set (s_htable srv b) \<longleftrightarrow>
                (\<exists>c. g_cons w a = Some c \<and> b = pepdna_hash E (c_id c)))
      \<and> (\<forall>b. distinct (s_htable srv b))
      \<and> (\<forall>a c. g_cons w a = Some c \<longrightarrow> 0 < c_kref c \<and> a < g_next w)
      \<and> s_conns srv = int (card (dom (g_cons w)))
      \<and> con_works E (s_mode srv) \<noteq> None)
    \<and> (\<forall>a i. I a = Some i \<longrightarrow> a < g_next w \<and> (\<forall>c. g_cons w a = Some c \<longrightarrow> (c_id c, c_tuple c) = i))"

abbreviation wf_world :: "kenv \<Rightarrow> world \<Rightarrow> bool" where
  "wf_world \<equiv> wf_known Map.empty"

named_theorems wf_frame

lemma wf_world_frame [simp, wf_frame]:
  "wf_known I E (w\<lparr>g_socks := x1\<rparr>) = wf_known I E w"
  "wf_known I E (w\<lparr>g_skbs := x2\<rparr>) = wf_known I E w"
  "wf_known I E (w\<lparr>g_pending := x3\<rparr>) = wf_known I E w"
  "wf_known I E (w\<lparr>g_out := x4\<rparr>) = wf_known I E w"
  "wf_known I E (w\<lparr>g_log := x5\<rparr>) = wf_known I E w"
  "wf_known I E (w\<lparr>g_faults := x6\<rparr>) = wf_known I E w"
  "wf_known I E (w\<lparr>g_request_done := x7\<rparr>) = wf_known I E w"
  "wf_known I E (w\<lparr>g_next_sock := x8\<rparr>) = wf_known I E w"
  "wf_known I E (w\<lparr>g_accept_pending := x9\<rparr>) = wf_known I E w"
  "wf_known I E (w\<lparr>g_nl_port_id := x10\<rparr>) = wf_known I E w"
  by (simp_all add: wf_known_def)

lemma wf_world_store [simp, wf_frame]:
  "wf_known I E (add_fault f w) = wf_known I E w"
  "wf_known I E (log_event e w) = wf_known I E w"
  "wf_known I E (upd_sock s g w) = wf_known I E w"
  "wf_known I E (sock_release s w) = wf_known I E w"
  "wf_known I E (kernel_sock_shutdown s w) = wf_known I E w"
  "wf_known I E (kfree_skb p w) = wf_known I E w"
  "wf_known I E (snd (queue_work a slot w)) = wf_known I E w"
  "wf_known I E (snd (xmit_frame E skb w)) = wf_known I E w"
  by (simp_all add: store_defs split: option.splits)

lemma wf_world_live: "wf_known I E w \<Longrightarrow> \<exists>srv. g_srv w = Live srv"
  by (auto simp: wf_known_def)

text \<open>The kernel's answers change over time; its hash and the build options do not.\<close>

definition same_build :: "kenv \<Rightarrow> kenv \<Rightarrow> bool" where
  "same_build E E' \<longleftrightarrow> hash_min E' = hash_min E \<and> CONFIG_RINA E' = CONFIG_RINA E
     \<and> CONFIG_MINIP E' = CONFIG_MINIP E \<and> CONFIG_CCN E' = CONFIG_CCN E
     \<and> CONFIG_LOCAL_SENDER E' = CONFIG_LOCAL_SENDER E \<and> CONFIG_LOCAL_RECEIVER E' = CONFIG_LOCAL_RECEIVER E
     \<and> CONFIG_LOCALHOST E' = CONFIG_LOCALHOST E"

lemma wf_world_build: "same_build E E' \<Longrightarrow> wf_known I E' w = wf_known I E w"
  by (simp add: same_build_def wf_known_def pepdna_hash_def con_works_def split: option.split server_mode.split)

text \<open>An update of a connection that keeps what identifies it and a positive count.\<close>

definition keeps_id :: "(pepdna_con \<Rightarrow> pepdna_con) \<Rightarrow> bool" where
  "keeps_id f \<longleftrightarrow> (\<forall>c. c_id (f c) = c_id c \<and> c_tuple (f c) = c_tuple c \<and> (0 < c_kref c \<longrightarrow> 0 < c_kref (f c)))"

lemma wf_upd_con_at:
  assumes "wf_known I E w" "\<And>c. g_cons w a = Some c \<Longrightarrow> c_id (f c) = c_id c \<and> c_tuple (f c) = c_tuple c \<and> 0 < c_kref (f c)"
  shows "wf_known I E (upd_con a f w)"
proof (cases "g_cons w a")
  case None
  with assms show ?thesis by (simp add: upd_con_def)
next
  case (Some c)
  then have "dom ((g_cons w)(a \<mapsto> f c)) = dom (g_cons w)" by auto
  with Some assms(1) assms(2) [OF Some] show ?thesis
    unfolding wf_known_def upd_con_def by (auto split: if_splits)
qed

lemma wf_world_kref: "wf_known I E w \<Longrightarrow> g_cons w a = Some c \<Longrightarrow> 0 < c_kref c"
  by (auto simp: wf_known_def)

lemma wf_upd_con:
  assumes "wf_known I E w" "keeps_id f"
  shows "wf_known I E (upd_con a f w)"
  using assms wf_world_kref [OF assms(1)] by (auto intro!: wf_upd_con_at simp: keeps_id_def)

lemma wf_upd_srv:
  assumes "wf_known I E w" "\<And>srv. s_htable (f srv) = s_htable srv" "\<And>srv. s_conns (f srv) = s_conns srv"
    and "\<And>srv. s_mode (f srv) = s_mode srv"
  shows "wf_known I E (upd_srv f w)"
  using assms by (auto simp: wf_known_def upd_srv_def)

lemma wf_kref_release:
  assumes wf: "wf_known I E w" and live: "g_cons w a = Some c"
  shows "wf_known I E (pepdna_con_kref_release a w)"
proof -
  define w' where "w' = (case c_rsock c of None \<Rightarrow> (case c_lsock c of None \<Rightarrow> w | Some s \<Rightarrow> sock_release s w)
      | Some s \<Rightarrow> sock_release s (case c_lsock c of None \<Rightarrow> w | Some s \<Rightarrow> sock_release s w))"
  have wf': "wf_known I E w'" and cons: "g_cons w' = g_cons w"
    using wf by (auto simp: w'_def sock_release_def add_fault_def split: option.splits)
  have fin: "finite (dom (g_cons w'))"
    using wf' by (auto simp: wf_known_def intro!: finite_subset [of _ "{..<g_next w'}"])
  have "a \<in> dom (g_cons w')" using live cons by auto
  then have card: "int (card (dom (g_cons w') - {a})) = int (card (dom (g_cons w'))) - 1"
    using fin by (metis card_Diff_singleton card_gt_0_iff empty_iff int_ops(2) of_nat_diff
        Suc_leI One_nat_def)
  have eq: "pepdna_con_kref_release a w =
      upd_srv (\<lambda>srv. srv\<lparr>s_conns := s_conns srv - 1\<rparr>)
        ((upd_srv (hlist_del a) w')\<lparr>g_cons := (g_cons w')(a := None)\<rparr>)"
    using live wf_world_live [OF wf']
    by (auto simp: pepdna_con_kref_release_def w'_def Let_def upd_srv_def split: option.splits)
  obtain srv where srv: "g_srv w' = Live srv" using wf_world_live [OF wf'] by blast
  show ?thesis
    using wf' srv card unfolding eq wf_known_def
    by (auto simp: upd_srv_def hlist_del_def)
qed

lemma wf_con_put: "wf_known I E w \<Longrightarrow> wf_known I E (pepdna_con_put a w)"
  by (auto simp: pepdna_con_put_def split: option.splits intro: wf_kref_release wf_upd_con_at)

lemma wf_con_get: "wf_known I E w \<Longrightarrow> wf_known I E (pepdna_con_get a w)"
  by (simp add: pepdna_con_get_def wf_upd_con keeps_id_def)

lemma wf_con_rtxq_destroy: "wf_known I E w \<Longrightarrow> wf_known I E (con_rtxq_destroy a w)"
  by (simp add: con_rtxq_destroy_def wf_upd_con keeps_id_def split: option.splits ptr.splits)

lemma wf_reinject_syn: "wf_known I E w \<Longrightarrow> wf_known I E (reinject_syn E' a w)"
  by (simp add: reinject_syn_def wf_upd_con keeps_id_def split: option.splits ptr.splits)

lemma wf_close_parts:
  assumes "wf_known I E w"
  shows "wf_known I E (close_left a lsk lc w)" "wf_known I E (close_right_tcp a rsk rc w)"
    "wf_known I E (close_right_rina a con rc w)"
  using assms
  by (simp_all add: close_left_def close_right_tcp_def close_right_rina_def Let_def wf_upd_con
      keeps_id_def split: option.splits)

lemma wf_con_close:
  assumes "wf_known I E w"
  shows "wf_known I E (pepdna_con_close E p w)"
proof (cases p)
  case (Some a)
  show ?thesis
    using assms Some
    by (simp add: pepdna_con_close_def Let_def wf_con_put wf_con_rtxq_destroy wf_upd_con keeps_id_def
        wf_close_parts split: option.splits ptr.splits)
qed (use assms in \<open>simp add: pepdna_con_close_def\<close>)

lemma ilog2_9: "ilog2 9 = 3"
  by (simp add: ilog2.simps)

text \<open>What \<open>pepdna_con_alloc\<close> does when memory is available and the mode is supported.\<close>

definition new_con ::
    "kenv \<Rightarrow> int \<Rightarrow> syn_tuple \<Rightarrow> tcp_skb option \<Rightarrow> u32 \<Rightarrow> u64 \<Rightarrow> int \<Rightarrow> pepdna_con" where
  "new_con E mode syn skb hash_id ts port_id =
    (case con_works E mode of None \<Rightarrow> zero_con
     | Some (l2r, r2l, tcfa) \<Rightarrow>
        init_con E syn hash_id ts port_id
          (case rtxq_create (kzalloc E A_rtxq) (kzalloc E A_rtxqueue) of
             None \<Rightarrow> Null | Some q \<Rightarrow> Live q)
          (zero_con\<lparr>c_kref := 1, c_skb := skb_copy E skb,
             c_l2r_work := l2r, c_r2l_work := r2l, c_tcfa_work := tcfa\<rparr>))"

lemma new_con_simps:
  assumes "con_works E mode \<noteq> None"
  shows "c_id (new_con E mode syn skb h ts pid) = h" "c_kref (new_con E mode syn skb h ts pid) = 1"
    "c_lsock (new_con E mode syn skb h ts pid) = None"
    "c_rsock (new_con E mode syn skb h ts pid) = None"
    "c_tuple (new_con E mode syn skb h ts pid) = syn" "c_ts (new_con E mode syn skb h ts pid) = ts"
  using assms by (auto simp: new_con_def init_con_def zero_con_def Let_def)

lemma con_alloc_ok:
  assumes "g_srv w = Live srv" "kzalloc E A_con" "con_works E (s_mode srv) \<noteq> None"
    and "CONFIG_MINIP E \<Longrightarrow> kzalloc E A_rtxq \<and> kzalloc E A_rtxqueue"
    and "(g_next w, TCFA) \<notin> set (g_pending w)"
  shows "pepdna_con_alloc E syn skb h ts pid w =
    (Some (g_next w),
     w\<lparr>g_next := g_next w + 1,
       g_cons := (g_cons w)(g_next w \<mapsto> new_con E (s_mode srv) syn skb h ts pid),
       g_srv := Live (hash_add E (g_next w) h (srv\<lparr>s_conns := s_conns srv + 1\<rparr>)),
       g_pending := g_pending w @ [(g_next w, TCFA)]\<rparr>)"
  using assms
  by (auto simp: pepdna_con_alloc_def new_con_def Let_def upd_srv_def queue_work_def
      rtxq_create_def rtxqueue_create_def split: prod.splits option.splits)

lemma con_alloc_None:
  assumes "g_srv w = Live srv" "con_works E (s_mode srv) \<noteq> None"
    and "(g_next w, TCFA) \<notin> set (g_pending w)" "fst (pepdna_con_alloc E syn skb h ts pid w) = None"
  shows "snd (pepdna_con_alloc E syn skb h ts pid w) = w
    \<or> snd (pepdna_con_alloc E syn skb h ts pid w) = w\<lparr>g_next := g_next w + 1\<rparr>"
  using assms
  by (auto simp: pepdna_con_alloc_def Let_def queue_work_def split: prod.splits option.splits if_splits)

lemma wf_add_con:
  assumes wf: "wf_known I E w" and srv: "g_srv w = Live srv" and con: "c_id con = h" "0 < c_kref con"
  shows "wf_known I E (w\<lparr>g_next := g_next w + 1, g_cons := (g_cons w)(g_next w \<mapsto> con),
     g_srv := Live (hash_add E (g_next w) h (srv\<lparr>s_conns := s_conns srv + 1\<rparr>))\<rparr>)"
proof -
  have fresh: "g_cons w (g_next w) = None"
    using wf by (cases "g_cons w (g_next w)") (auto simp: wf_known_def)
  have unknown: "I (g_next w) = None"
    using wf by (cases "I (g_next w)") (auto simp: wf_known_def)
  have fin: "finite (dom (g_cons w))"
    using wf by (auto simp: wf_known_def intro!: finite_subset [of _ "{..<g_next w}"])
  have "g_next w \<notin> dom (g_cons w)" using fresh by auto
  then have "card (insert (g_next w) (dom (g_cons w))) = Suc (card (dom (g_cons w)))"
    using fin by simp
  then show ?thesis
    using wf srv fresh unknown con unfolding wf_known_def
    by (auto simp: hash_add_def less_SucI split: if_splits)
qed

lemma wf_world_mode: "wf_known I E w \<Longrightarrow> g_srv w = Live srv \<Longrightarrow> con_works E (s_mode srv) \<noteq> None"
  by (auto simp: wf_known_def)

lemma wf_con_alloc:
  assumes wf: "wf_known I E w"
  shows "wf_known I E (snd (pepdna_con_alloc E syn skb h ts pid w))"
proof -
  obtain srv where srv: "g_srv w = Live srv" using wf_world_live [OF wf] by blast
  note mode = wf_world_mode [OF wf srv]
  have next_only: "wf_known I E (w\<lparr>g_next := Suc (g_next w)\<rparr>)"
    using wf by (auto simp: wf_known_def less_SucI)
  have id: "c_id (init_con E syn h ts pid rq con) = h" "c_kref (init_con E syn h ts pid rq con) = c_kref con"
    for rq con by (simp_all add: init_con_def Let_def)
  have added: "wf_known I E (w\<lparr>g_next := Suc (g_next w),
      g_cons := (g_cons w)(g_next w \<mapsto> init_con E syn h ts pid rq con),
      g_srv := Live (hash_add E (g_next w) h (srv\<lparr>s_conns := s_conns srv + 1\<rparr>))\<rparr>)"
    if "c_kref con = Suc 0" for rq con
    using wf_add_con [OF wf srv, of "init_con E syn h ts pid rq con" h] that by (simp add: id)
  show ?thesis
    using wf srv mode next_only
    by (auto simp: pepdna_con_alloc_def Let_def upd_srv_def queue_work_def
        intro!: wf_con_put added split: option.splits)
qed

lemma wf_known_iff:
  "wf_known I E w \<longleftrightarrow> wf_world E w
     \<and> (\<forall>a i. I a = Some i \<longrightarrow> a < g_next w \<and> (\<forall>c. g_cons w a = Some c \<longrightarrow> (c_id c, c_tuple c) = i))"
  by (simp add: wf_known_def)

lemma wf_known_world: "wf_known I E w \<Longrightarrow> wf_world E w"
  by (simp add: wf_known_def)

lemma wf_known_con:
  "\<lbrakk>wf_known I E w; I a = Some i; g_cons w a = Some c\<rbrakk> \<Longrightarrow> c_id c = fst i \<and> c_tuple c = snd i"
  unfolding wf_known_def by (cases i) auto

text \<open>A connection that was just allocated is known by the identifier and the addresses it was given.\<close>

lemma con_alloc_known:
  assumes "wf_world E w" "pepdna_con_alloc E syn skb h ts pid w = (Some a, w')"
  shows "a = g_next w \<and> wf_known [a \<mapsto> (h, syn)] E w'"
proof -
  obtain srv where srv: "g_srv w = Live srv" using wf_world_live [OF assms(1)] by blast
  obtain l2r r2l tcfa where works: "con_works E (s_mode srv) = Some (l2r, r2l, tcfa)"
    using wf_world_mode [OF assms(1) srv] by fastforce
  define con where "con = init_con E syn h ts pid
      (case rtxq_create (kzalloc E A_rtxq) (kzalloc E A_rtxqueue) of None \<Rightarrow> Null | Some q \<Rightarrow> Live q)
      (zero_con\<lparr>c_kref := Suc 0, c_skb := skb_copy E skb, c_l2r_work := l2r, c_r2l_work := r2l, c_tcfa_work := tcfa\<rparr>)"
  have con: "c_id con = h" "c_tuple con = syn" "c_kref con = 1"
    by (simp_all add: con_def init_con_def Let_def)
  obtain queued w1 where w1: "queue_work (g_next w) TCFA (w\<lparr>g_next := Suc (g_next w), g_cons := (g_cons w)(g_next w \<mapsto> con),
        g_srv := Live (hash_add E (g_next w) h (srv\<lparr>s_conns := s_conns srv + 1\<rparr>))\<rparr>) = (queued, w1)" by fastforce
  have a: "a = g_next w" and w': "w' = (if queued then w1 else pepdna_con_put (g_next w) w1)"
    using assms(2) w1 by (auto simp: pepdna_con_alloc_def srv works Let_def upd_srv_def con_def [symmetric] split: if_splits)
  have "wf_world E w1"
    using wf_add_con [OF assms(1) srv, of con h] w1 con by (auto simp: queue_work_def split: if_splits)
  moreover have "g_next w1 = Suc a" "g_cons w1 a = Some con" using w1 a by (auto simp: queue_work_def split: if_splits)
  ultimately have "wf_known [a \<mapsto> (h, syn)] E w1" using con unfolding wf_known_iff [of "[a \<mapsto> (h, syn)]"] by auto
  then show ?thesis using a w' by (auto intro: wf_con_put)
qed

subsection \<open>Looking connections up\<close>

text \<open>
  The contract of a registry of objects with an identifier: lookup finds an object with the
  wanted identifier whenever there is one, and dropping an object forgets exactly it.
\<close>

locale id_registry =
  fixes wf :: "'w \<Rightarrow> bool"
    and ident :: "'w \<Rightarrow> 'a \<Rightarrow> 'k option"
    and lookup :: "'k \<Rightarrow> 'w \<Rightarrow> 'a option"
    and drop_obj :: "'a \<Rightarrow> 'w \<Rightarrow> 'w"
  assumes lookup_sound: "wf w \<Longrightarrow> lookup k w = Some a \<Longrightarrow> ident w a = Some k"
    and lookup_complete: "wf w \<Longrightarrow> ident w a = Some k \<Longrightarrow> lookup k w \<noteq> None"
    and ident_drop: "wf w \<Longrightarrow> ident w a \<noteq> None \<Longrightarrow> ident (drop_obj a w) = (ident w)(a := None)"
    and wf_drop: "wf w \<Longrightarrow> ident w a \<noteq> None \<Longrightarrow> wf (drop_obj a w)"
begin

lemma lookup_None_iff: "wf w \<Longrightarrow> lookup k w = None \<longleftrightarrow> (\<forall>a. ident w a \<noteq> Some k)"
  using lookup_sound [of w k] lookup_complete [of w _ k] by (cases "lookup k w") auto

lemma lookup_unique:
  assumes "wf w" "ident w a = Some k" "\<And>b. ident w b = Some k \<Longrightarrow> b = a"
  shows "lookup k w = Some a"
proof -
  obtain b where "lookup k w = Some b" using lookup_complete [OF assms(1,2)] by blast
  with lookup_sound [OF assms(1)] assms(3) show ?thesis by blast
qed

lemma lookup_drop_gone:
  assumes "wf w" "ident w a = Some k" "\<And>b. ident w b = Some k \<Longrightarrow> b = a"
  shows "lookup k (drop_obj a w) = None"
proof -
  have "ident w a \<noteq> None" using assms(2) by simp
  then have wf': "wf (drop_obj a w)" and id': "ident (drop_obj a w) = (ident w)(a := None)"
    using assms(1) by (auto intro: wf_drop ident_drop)
  have "ident (drop_obj a w) b \<noteq> Some k" for b
    using assms(3) [of b] unfolding id' by (cases "b = a") auto
  with wf' show ?thesis by (simp add: lookup_None_iff)
qed

lemma lookup_drop_other:
  assumes "wf w" "ident w a \<noteq> None" "lookup k (drop_obj a w) = Some b"
  shows "b \<noteq> a \<and> ident w b = Some k"
  using assms wf_drop [of w a] lookup_sound [of "drop_obj a w" k b]
  by (auto simp: ident_drop split: if_splits)

end

definition con_ident :: "world \<Rightarrow> nat \<Rightarrow> u32 option" where
  "con_ident w a = map_option c_id (g_cons w a)"

lemma g_cons_release:
  "g_cons w a = Some c \<Longrightarrow> g_cons (pepdna_con_kref_release a w) = (g_cons w)(a := None)"
  by (auto simp: pepdna_con_kref_release_def Let_def upd_srv_def sock_release_def add_fault_def
      split: option.splits ptr.splits)

lemma con_find_sound:
  "wf_known I E w \<Longrightarrow> pepdna_con_find E k w = Some a \<Longrightarrow> \<exists>c. g_cons w a = Some c \<and> c_id c = k"
  by (auto simp: pepdna_con_find_def find_Some_iff has_id_def split: ptr.splits option.splits)

lemma con_find_complete:
  assumes "wf_known I E w" "g_cons w a = Some c"
  shows "pepdna_con_find E (c_id c) w \<noteq> None"
proof -
  obtain srv where srv: "g_srv w = Live srv" using wf_world_live assms(1) by blast
  have "a \<in> set (s_htable srv (pepdna_hash E (c_id c)))"
    using assms srv by (auto simp: wf_known_def)
  then show ?thesis
    using assms(2) srv by (auto simp: pepdna_con_find_def find_None_iff has_id_def)
qed

interpretation reg: id_registry "wf_world E" con_ident "pepdna_con_find E" pepdna_con_kref_release
  for E
proof (unfold_locales, goal_cases)
  case (1 w k a)
  then show ?case by (auto simp: con_ident_def dest: con_find_sound)
next
  case (2 w a k)
  then show ?case using con_find_complete by (auto simp: con_ident_def)
next
  case (3 w a)
  then show ?case by (auto simp: con_ident_def fun_eq_iff g_cons_release)
next
  case (4 w a)
  then show ?case by (auto simp: con_ident_def intro: wf_kref_release)
qed

end
