(* ===== verification/Pep_Hash.thy ===== *)
theory Pep_Hash
  imports Pep_Prelude
begin

unbundle bit_operations_syntax

section \<open>The connection hash (hash.h, hash.c)\<close>

text \<open>
  Every connection is identified by a 32-bit hash of the client's address and port. The
  macro \<open>pepdna_hashmix\<close> assigns to its three arguments nine times; each line of the macro
  is one application of \<open>mix_shr\<close> (the line shifts right) or \<open>mix_shl\<close> (it shifts left), and
  the updated variables are rebound in the order of the assignments.
\<close>

definition mix_shr :: "nat \<Rightarrow> u32 \<Rightarrow> u32 \<Rightarrow> u32 \<Rightarrow> u32" where
  "mix_shr k x y z = (x - y - z) XOR drop_bit k z"

definition mix_shl :: "nat \<Rightarrow> u32 \<Rightarrow> u32 \<Rightarrow> u32 \<Rightarrow> u32" where
  "mix_shl k x y z = (x - y - z) XOR push_bit k z"

definition pepdna_hashmix :: "u32 \<Rightarrow> u32 \<Rightarrow> u32 \<Rightarrow> u32 \<times> u32 \<times> u32" where
  "pepdna_hashmix a b c =
    (let a = mix_shr 13 a b c;
         b = mix_shl 8 b c a;
         c = mix_shr 13 c a b;
         a = mix_shr 12 a b c;
         b = mix_shl 16 b c a;
         c = mix_shr 5 c a b;
         a = mix_shr 3 a b c;
         b = mix_shl 10 b c a;
         c = mix_shr 15 c a b
     in (a, b, c))"

definition pepdna_hash_seed :: u32 where
  "pepdna_hash_seed = 1315423911"

definition pepdna_hash32_rjenkins1_2 :: "u32 \<Rightarrow> u16 \<Rightarrow> u32" where
  "pepdna_hash32_rjenkins1_2 src_ip src_port =
    (let a = be32_to_cpu src_ip;
         sp = (ucast src_port :: u32);
         b = be32_to_cpu sp;
         hash = pepdna_hash_seed XOR a XOR b;
         x = 231232;
         y = 1232;
         (a, b, hash) = pepdna_hashmix a b hash;
         (x, a, hash) = pepdna_hashmix x a hash;
         (b, y, hash) = pepdna_hashmix b y hash
     in hash)"

subsection \<open>The mix loses no information\<close>

text \<open>
  Each line of the macro can be undone from the values it leaves, so the nine lines are a
  permutation of the triples of words: \<open>pepdna_hashunmix\<close> undoes them in reverse order.
\<close>

definition unmix_shr :: "nat \<Rightarrow> u32 \<Rightarrow> u32 \<Rightarrow> u32 \<Rightarrow> u32" where
  "unmix_shr k x y z = (x XOR drop_bit k z) + z + y"

definition unmix_shl :: "nat \<Rightarrow> u32 \<Rightarrow> u32 \<Rightarrow> u32 \<Rightarrow> u32" where
  "unmix_shl k x y z = (x XOR push_bit k z) + z + y"

definition pepdna_hashunmix :: "u32 \<Rightarrow> u32 \<Rightarrow> u32 \<Rightarrow> u32 \<times> u32 \<times> u32" where
  "pepdna_hashunmix a b c =
    (let c = unmix_shr 15 c a b;
         b = unmix_shl 10 b c a;
         a = unmix_shr 3 a b c;
         c = unmix_shr 5 c a b;
         b = unmix_shl 16 b c a;
         a = unmix_shr 12 a b c;
         c = unmix_shr 13 c a b;
         b = unmix_shl 8 b c a;
         a = unmix_shr 13 a b c
     in (a, b, c))"

lemma mix_unmix [simp]:
  "unmix_shr k (mix_shr k x y z) y z = x" "unmix_shl k (mix_shl k x y z) y z = x"
  "mix_shr k (unmix_shr k x y z) y z = x" "mix_shl k (unmix_shl k x y z) y z = x"
  by (simp_all add: mix_shr_def unmix_shr_def mix_shl_def unmix_shl_def xor.assoc)

lemma hashunmix_hashmix:
  "pepdna_hashmix a b c = (a', b', c') \<Longrightarrow> pepdna_hashunmix a' b' c' = (a, b, c)"
  by (auto simp: pepdna_hashmix_def pepdna_hashunmix_def Let_def)

lemma hashmix_hashunmix:
  "pepdna_hashunmix a b c = (a', b', c') \<Longrightarrow> pepdna_hashmix a' b' c' = (a, b, c)"
  by (auto simp: pepdna_hashmix_def pepdna_hashunmix_def Let_def)

text \<open>
  The macro \<open>pepdna_hashmix\<close> is a bijection on the triples of 32-bit words: mixing
  never maps two different inputs to the same state.
\<close>

lemma pepdna_hashmix_bij: "bij (\<lambda>(a, b, c). pepdna_hashmix a b c)"
proof (rule o_bij [where g = "\<lambda>(a, b, c). pepdna_hashunmix a b c"])
  show "(\<lambda>(a, b, c). pepdna_hashunmix a b c) \<circ> (\<lambda>(a, b, c). pepdna_hashmix a b c) = Fun.id"
    by (auto simp: fun_eq_iff split: prod.splits dest: hashunmix_hashmix)
  show "(\<lambda>(a, b, c). pepdna_hashmix a b c) \<circ> (\<lambda>(a, b, c). pepdna_hashunmix a b c) = Fun.id"
    by (auto simp: fun_eq_iff split: prod.splits dest: hashmix_hashunmix)
qed

end
