(* ===== verification/Pep_Sock.thy ===== *)
theory Pep_Sock
  imports Pep_Conn Pep_Hash
begin

unbundle bit_operations_syntax

section \<open>Socket helpers (tcp_utils.h, tcp_utils.c)\<close>

text \<open>
  Writing a buffer to a TCP socket, the socket options, the conversions between addresses
  and strings, and the identification of an accepted client. The kernel's answers to
  \<open>kernel_sendmsg\<close> come as a list, one per call: the loop of \<open>pepdna_sock_write\<close> consumes
  it, and \<open>None\<close> is the result of a call that still waits when the list ends.
\<close>

subsection \<open>Writing to a socket\<close>

text \<open>
  One round of the wait loop observes whether the connection is still up and whether the
  socket became writeable; the loop ends on the first round that is down or writeable.
\<close>

fun pepdna_wait_to_send :: "(bool \<times> bool) list \<Rightarrow> unit option" where
  "pepdna_wait_to_send [] = None"
| "pepdna_wait_to_send ((rflag, writeable) # obs) =
    (if \<not> rflag then Some ()
     else if writeable then Some ()
     else pepdna_wait_to_send obs)"

text \<open>One call of \<open>kernel_sendmsg\<close>: its result and what the wait after \<open>-EAGAIN\<close> observes.\<close>

type_synonym send_result = "int \<times> (bool \<times> bool) list"

text \<open>
  The loop of \<open>pepdna_sock_write\<close> over the bytes left: the result (\<open>None\<close> while it waits),
  the bytes the socket took, and whether the wait dereferenced a null \<open>sk_user_data\<close>.
\<close>

fun sock_write_loop ::
    "bool \<Rightarrow> send_result list \<Rightarrow> bytes \<Rightarrow> nat \<Rightarrow> nat \<Rightarrow> int option \<times> bytes \<times> bool" where
  "sock_write_loop ud [] left sent count =
    (if left = [] then (Some (int sent), [], False) else (None, [], False))"
| "sock_write_loop ud ((rc, obs) # rs) left sent count =
    (if left = [] then (Some (int sent), [], False)
     else if rc = 0 then
       (if Suc count < 2 then sock_write_loop ud rs left sent (Suc count)
        else (Some (- EPIPE), [], False))
     else if 0 < rc then
       (case sock_write_loop ud rs (drop (nat rc) left) (sent + nat rc) count of
          (r, out, flt) \<Rightarrow> (r, take (nat rc) left @ out, flt))
     else if rc = - EAGAIN then
       (if \<not> ud then (None, [], True)
        else case pepdna_wait_to_send obs of
          None \<Rightarrow> (None, [], False)
        | Some _ \<Rightarrow> sock_write_loop ud rs left sent count)
     else (Some rc, [], False))"

definition pepdna_sock_write ::
    "send_result list \<Rightarrow> nat \<Rightarrow> bytes \<Rightarrow> world \<Rightarrow> int option \<times> world" where
  "pepdna_sock_write rs s buf w =
    (case g_socks w s of None \<Rightarrow> (None, add_fault (UseAfterFree s) w)
     | Some k \<Rightarrow>
        (case sock_write_loop (k_user_data k \<noteq> UD_null) rs buf 0 0 of
           (r, out, flt) \<Rightarrow>
             (r, log_event (Ev_sent s out) (if flt then add_fault NullDeref w else w))))"

subsection \<open>Socket options\<close>

definition pepdna_tcp_nodelayedack :: "nat \<Rightarrow> world \<Rightarrow> world" where
  "pepdna_tcp_nodelayedack s w = upd_sock s (\<lambda>k. k\<lparr>k_quickack := True\<rparr>) w"

definition pepdna_tcp_nonagle :: "nat \<Rightarrow> world \<Rightarrow> world" where
  "pepdna_tcp_nonagle s w = upd_sock s (\<lambda>k. k\<lparr>k_nodelay := True\<rparr>) w"

definition pepdna_ip_transparent :: "kenv \<Rightarrow> nat \<Rightarrow> world \<Rightarrow> world" where
  "pepdna_ip_transparent E s w =
     upd_sock s (\<lambda>k. if ip_setsockopt E < 0 then k else k\<lparr>k_transparent := True\<rparr>) w"

definition pepdna_set_mark :: "nat \<Rightarrow> u32 \<Rightarrow> world \<Rightarrow> world" where
  "pepdna_set_mark s val w = upd_sock s (\<lambda>k. k\<lparr>k_mark := val\<rparr>) w"

text \<open>The sizes come from the second entry of the two sysctl arrays.\<close>

definition pepdna_set_bufsize :: "nat \<Rightarrow> world \<Rightarrow> world" where
  "pepdna_set_bufsize s w =
    (let snd_size = g_wmem w ! 1; rcv_size = g_rmem w ! 1
     in upd_sock s (\<lambda>k.
          let k = (if snd_size \<noteq> 0 then k\<lparr>k_snd_locked := True, k_sndbuf := snd_size\<rparr> else k)
          in if rcv_size \<noteq> 0 then k\<lparr>k_rcv_locked := True, k_rcvbuf := rcv_size\<rparr> else k) w)"

subsection \<open>Addresses as strings\<close>

text \<open>\<open>sprintf\<close> with \<open>%d\<close> of a non-negative number, and \<open>sscanf\<close> with \<open>%d\<close>.\<close>

fun show_nat :: "nat \<Rightarrow> string" where
  "show_nat n =
    (if n < 10 then [char_of (48 + n)] else show_nat (n div 10) @ [char_of (48 + n mod 10)])"

declare show_nat.simps [simp del]

definition is_digit :: "char \<Rightarrow> bool" where
  "is_digit c \<longleftrightarrow> 48 \<le> (of_char c :: nat) \<and> (of_char c :: nat) \<le> 57"

definition digits_val :: "string \<Rightarrow> int" where
  "digits_val ds = foldl (\<lambda>v c. 10 * v + (int (of_char c) - 48)) 0 ds"

definition scan_int :: "string \<Rightarrow> (int \<times> string) option" where
  "scan_int s0 =
    (let s = dropWhile (\<lambda>c. c = CHR '' '') s0;
         neg = (case s of [] \<Rightarrow> False | c # _ \<Rightarrow> c = CHR ''-'');
         t = (if neg then tl s else s);
         ds = takeWhile is_digit t
     in if ds = [] then None
        else Some (if neg then - digits_val ds else digits_val ds, dropWhile is_digit t))"

definition scan_dot :: "string \<Rightarrow> string option" where
  "scan_dot s = (case s of [] \<Rightarrow> None | c # cs \<Rightarrow> if c = CHR ''.'' then Some cs else None)"

definition inet_ntoa :: "bool \<Rightarrow> u32 \<Rightarrow> string option" where
  "inet_ntoa ok int_ip =
    (if \<not> ok then None
     else Some (show_nat (unat (int_ip AND 0xFF)) @ ''.''
            @ show_nat (unat (drop_bit 8 int_ip AND 0xFF)) @ ''.''
            @ show_nat (unat (drop_bit 16 int_ip AND 0xFF)) @ ''.''
            @ show_nat (unat (drop_bit 24 int_ip AND 0xFF))))"

text \<open>
  \<open>inet_addr\<close> ignores how many numbers \<open>sscanf\<close> could read; where a number is missing it
  returns uninitialised memory, here \<open>None\<close>.
\<close>

definition inet_addr :: "string \<Rightarrow> u32 option" where
  "inet_addr ip =
    (case scan_int ip of None \<Rightarrow> None | Some (a, s) \<Rightarrow>
      (case scan_dot s of None \<Rightarrow> None | Some s \<Rightarrow>
      (case scan_int s of None \<Rightarrow> None | Some (b, s) \<Rightarrow>
      (case scan_dot s of None \<Rightarrow> None | Some s \<Rightarrow>
      (case scan_int s of None \<Rightarrow> None | Some (c, s) \<Rightarrow>
      (case scan_dot s of None \<Rightarrow> None | Some s \<Rightarrow>
      (case scan_int s of None \<Rightarrow> None | Some (d, s) \<Rightarrow>
         Some (mk32 (word_of_int a) (word_of_int b) (word_of_int c) (word_of_int d)))))))))"

text \<open>The dotted form and port that \<open>print_syn\<close> logs.\<close>

definition print_syn :: "u32 \<Rightarrow> u16 \<Rightarrow> string" where
  "print_syn daddr dest =
    (let ip = ntohl daddr; port = ntohs dest
     in show_nat (unat (drop_bit 24 ip AND 0xFF)) @ ''.''
        @ show_nat (unat (drop_bit 16 ip AND 0xFF)) @ ''.''
        @ show_nat (unat (drop_bit 8 ip AND 0xFF)) @ ''.''
        @ show_nat (unat (ip AND 0xFF)) @ '':'' @ show_nat (unat port))"

subsection \<open>Identifying an accepted client\<close>

text \<open>
  The identifier is the hash of the peer address; the error codes are returned through the
  same unsigned result, and the failure of \<open>getname\<close> releases the socket.
\<close>

definition identify_client :: "kenv \<Rightarrow> nat \<Rightarrow> world \<Rightarrow> u32 \<times> world" where
  "identify_client E s w =
    (if \<not> kzalloc E A_addr then (word_of_int (- ENOMEM), w)
     else if kernel_getname E s < 0 then (word_of_int (kernel_getname E s), sock_release s w)
     else case g_socks w s of
            None \<Rightarrow> (0, add_fault (UseAfterFree s) w)
          | Some k \<Rightarrow>
             (case k_peer k of None \<Rightarrow> (pepdna_hash32_rjenkins1_2 0 0, w)
              | Some (ip, port) \<Rightarrow> (pepdna_hash32_rjenkins1_2 ip port, w)))"

subsection \<open>Correctness of the write loop\<close>

text \<open>
  The contract of \<open>kernel_sendmsg\<close>: it never takes more bytes than it was offered.
\<close>

fun sendmsg_law :: "send_result list \<Rightarrow> nat \<Rightarrow> bool" where
  "sendmsg_law [] n = True"
| "sendmsg_law ((rc, obs) # rs) n =
    (n = 0 \<or> ((0 < rc \<longrightarrow> nat rc \<le> n) \<and> sendmsg_law rs (n - nat rc)))"

lemma sock_write_loop_prefix:
  "sock_write_loop ud rs left sent count = (r, out, flt) \<Longrightarrow> prefix out left"
proof (induction ud rs left sent count arbitrary: r out flt rule: sock_write_loop.induct)
  case (2 ud rc obs rs left sent count)
  show ?case
  proof (cases "left \<noteq> [] \<and> 0 < rc")
    case True
    obtain r' out' flt' where rec:
      "sock_write_loop ud rs (drop (nat rc) left) (sent + nat rc) count = (r', out', flt')"
      by (metis prod_cases3)
    with True 2 have "prefix out' (drop (nat rc) left)" by auto
    then have "prefix (take (nat rc) left @ out') (take (nat rc) left @ drop (nat rc) left)"
      by (simp only: same_prefix_prefix)
    with True rec 2 show ?thesis by (simp add: append_take_drop_id)
  next
    case False
    with 2 show ?thesis by (auto split: if_splits option.splits)
  qed
qed (auto split: if_splits)

lemma sock_write_loop_complete:
  "sock_write_loop ud rs left sent count = (Some v, out, flt) \<Longrightarrow> sendmsg_law rs (length left) \<Longrightarrow>
     0 \<le> v \<Longrightarrow> v = int (sent + length left) \<and> out = left"
proof (induction ud rs left sent count arbitrary: v out flt rule: sock_write_loop.induct)
  case (2 ud rc obs rs left sent count)
  show ?case
  proof (cases "left \<noteq> [] \<and> 0 < rc")
    case True
    obtain r' out' flt' where rec:
      "sock_write_loop ud rs (drop (nat rc) left) (sent + nat rc) count = (r', out', flt')"
      by (metis prod_cases3)
    with True 2 show ?thesis by (auto simp: min_def)
  next
    case False
    with 2 show ?thesis by (auto split: if_splits option.splits)
  qed
qed (auto split: if_splits)

definition not_eagain :: "send_result \<Rightarrow> bool" where
  "not_eagain r \<longleftrightarrow> fst r \<noteq> - EAGAIN"

lemma sock_write_loop_returns:
  "\<forall>r\<in>set rs. fst r = - EAGAIN \<longrightarrow> pepdna_wait_to_send (snd r) \<noteq> None \<Longrightarrow>
   length left + 1 \<le> length (filter not_eagain rs) + count \<Longrightarrow> count \<le> 1 \<Longrightarrow>
     \<exists>v out. sock_write_loop True rs left sent count = (Some v, out, False)"
proof (induction rs arbitrary: left sent count)
  case (Cons x rs)
  obtain rc obs where x: "x = (rc, obs)" by force
  consider "left = []" | "left \<noteq> []" "rc = 0" | "left \<noteq> []" "0 < rc" | "left \<noteq> []" "rc = - EAGAIN"
    | "left \<noteq> []" "rc < 0" "rc \<noteq> - EAGAIN" by linarith
  then show ?case
  proof cases
    case 2
    with Cons.prems Cons.IH [of left 1 sent] x show ?thesis
      by (auto simp: not_eagain_def)
  next
    case 3
    then have "not_eagain x" "1 \<le> nat rc" "1 \<le> length left"
      using x by (auto simp: not_eagain_def Suc_le_eq)
    then have "length (drop (nat rc) left) + 1 \<le> length (filter not_eagain rs) + count"
      using Cons.prems by simp
    with 3 Cons.prems Cons.IH [of "drop (nat rc) left" count "sent + nat rc"] x show ?thesis by fastforce
  next
    case 4
    with Cons.prems Cons.IH [of left count sent] x show ?thesis by (auto simp: not_eagain_def)
  qed (use x in simp_all)
qed (auto dest: order_trans)

text \<open>
  Whatever the socket answers, the bytes it took are a prefix of the buffer, and
  when \<open>pepdna_sock_write\<close> returns without an error it returns the length of the buffer and the
  socket took all of it, in order.
\<close>

lemma sock_write_in_order:
  assumes "g_socks w s = Some k" "sendmsg_law rs (length buf)"
    and "pepdna_sock_write rs s buf w = (Some v, w')"
  shows "\<exists>out. g_log w' = g_log w @ [Ev_sent s out] \<and> prefix out buf
           \<and> (0 \<le> v \<longrightarrow> v = int (length buf) \<and> out = buf)"
proof -
  obtain out flt where loop: "sock_write_loop (k_user_data k \<noteq> UD_null) rs buf 0 0 = (Some v, out, flt)"
    and w': "w' = log_event (Ev_sent s out) (if flt then add_fault NullDeref w else w)"
    using assms(1,3) by (auto simp: pepdna_sock_write_def split: prod.splits)
  have "prefix out buf" using loop by (rule sock_write_loop_prefix)
  moreover have "0 \<le> v \<Longrightarrow> v = int (length buf) \<and> out = buf"
    using sock_write_loop_complete [OF loop assms(2)] by simp
  moreover have "g_log w' = g_log w @ [Ev_sent s out]"
    using w' by (simp add: log_event_def add_fault_def)
  ultimately show ?thesis by blast
qed

definition sock_sample :: world where
  "sock_sample = (sample_world TCP2TCP)\<lparr>g_socks := [7 \<mapsto> new_sock\<lparr>k_user_data := UD_con 0\<rparr>]\<rparr>"

text \<open>
  The write loop returns: on a socket with a connection attached, once the kernel
  has answered more than \<open>length buf\<close> calls with something other than \<open>-EAGAIN\<close> (and every wait
  after \<open>-EAGAIN\<close> ended), the call has a result and no fault occurred.
\<close>

lemma sock_write_returns:
  assumes "g_socks w s = Some k" "k_user_data k \<noteq> UD_null"
    and "\<forall>r\<in>set rs. fst r = - EAGAIN \<longrightarrow> pepdna_wait_to_send (snd r) \<noteq> None"
    and "length buf < length (filter not_eagain rs)"
  shows "\<exists>v w'. pepdna_sock_write rs s buf w = (Some v, w') \<and> g_faults w' = g_faults w"
proof -
  obtain v out where "sock_write_loop True rs buf 0 0 = (Some v, out, False)"
    using sock_write_loop_returns [OF assms(3), of buf 0 0] assms(4) by auto
  then show ?thesis
    using assms(1,2) by (simp add: pepdna_sock_write_def log_event_def)
qed

subsection \<open>Correctness of the address conversions\<close>

lemma show_nat_digits: "set (show_nat n) \<subseteq> Collect is_digit"
proof (induction n rule: show_nat.induct)
  case (1 n)
  have "n < 10 \<Longrightarrow> is_digit (char_of (48 + n))" "is_digit (char_of (48 + n mod 10))"
    by (simp_all add: is_digit_def)
  with 1 show ?case by (subst show_nat.simps) auto
qed

lemma digits_val_snoc: "digits_val (ds @ [c]) = 10 * digits_val ds + (int (of_char c) - 48)"
  by (simp add: digits_val_def)

lemma digits_val_show_nat: "digits_val (show_nat n) = int n"
proof (induction n rule: show_nat.induct)
  case (1 n)
  show ?case
  proof (cases "n < 10")
    case True
    then show ?thesis by (subst show_nat.simps) (simp add: digits_val_def)
  next
    case False
    have "10 * int (n div 10) + int (n mod 10) = int n" by presburger
    with False 1 show ?thesis
      by (subst show_nat.simps) (simp add: digits_val_snoc)
  qed
qed

lemma show_nat_nonempty: "show_nat n \<noteq> []"
  by (subst show_nat.simps) simp

lemma scan_int_show_nat:
  assumes "rest = [] \<or> \<not> is_digit (hd rest)"
  shows "scan_int (show_nat n @ rest) = Some (int n, rest)"
proof -
  obtain c cs where sh: "show_nat n = c # cs" using show_nat_nonempty by (cases "show_nat n") auto
  have dig: "is_digit c" "\<forall>x\<in>set cs. is_digit x" using show_nat_digits [of n] sh by auto
  then have c: "c \<noteq> CHR '' ''" "c \<noteq> CHR ''-''" by (auto simp: is_digit_def)
  have "takeWhile is_digit (show_nat n @ rest) = show_nat n"
    "dropWhile is_digit (show_nat n @ rest) = rest"
    using assms dig sh by (auto simp: takeWhile_append dropWhile_append) (cases rest; simp)+
  then show ?thesis
    using c sh digits_val_show_nat [of n] by (simp add: scan_int_def Let_def)
qed

lemma ucast_low_byte: "(ucast (v AND 0xFF) :: u8) = ucast v" for v :: u32
proof -
  have "(0xFF :: u32) = mask 8" by (simp add: mask_eq_exp_minus_1)
  then have "v AND 0xFF = take_bit 8 v" by (simp add: take_bit_eq_mask)
  then show ?thesis by (auto intro!: bit_word_eqI simp: bit_simps)
qed

lemma scan_dot_dot [simp]: "scan_dot (CHR ''.'' # s) = Some s"
  by (simp add: scan_dot_def)

text \<open>
  Printing an IPv4 address and scanning it back gives the address.
\<close>

lemma inet_addr_inet_ntoa: "\<exists>s. inet_ntoa True ip = Some s \<and> inet_addr s = Some ip"
proof -
  have nodot: "\<not> is_digit (CHR ''.'')" by (simp add: is_digit_def)
  have b: "mk32 (ucast ip) (ucast (drop_bit 8 ip)) (ucast (drop_bit 16 ip)) (ucast (drop_bit 24 ip)) = ip"
    using mk32_byte32 [of ip] by (simp add: byte32_def)
  then show ?thesis
    using scan_int_show_nat [of "[]"] nodot
    by (simp add: inet_ntoa_def inet_addr_def scan_int_show_nat ucast_low_byte)
qed

end
