(* ===== verification/Pep_Ready.thy ===== *)
theory Pep_Ready
  imports Pep_Sock
begin

section \<open>Socket callbacks (server.c, tcp_listen.c, ccn.c)\<close>

text \<open>
  The kernel calls \<open>sk_data_ready\<close> of a socket when data arrives; PEP-DNA installs its own
  callbacks there and also calls them itself to wake a side up. A callback finds its
  connection in \<open>sk_user_data\<close>, takes a reference for the forwarding work and queues the work;
  if the work is already pending the reference is dropped again.
\<close>

definition con_get_and_queue :: "nat \<Rightarrow> work_slot \<Rightarrow> world \<Rightarrow> world" where
  "con_get_and_queue a slot w =
    (case queue_work a slot (pepdna_con_get a w) of
       (queued, w) \<Rightarrow> if queued then w else pepdna_con_put a w)"

definition pepdna_l2r_conn_data_ready :: "nat \<Rightarrow> world \<Rightarrow> world" where
  "pepdna_l2r_conn_data_ready s w =
    (case g_socks w s of None \<Rightarrow> add_fault (UseAfterFree s) w
     | Some k \<Rightarrow>
        (case k_user_data k of
           UD_con a \<Rightarrow>
             (if g_cons w a = None then add_fault (UseAfterFree a) w
              else if lconnected (Some a) w then con_get_and_queue a L2R w else w)
         | _ \<Rightarrow> w))"

definition pepdna_r2l_conn_data_ready :: "nat \<Rightarrow> world \<Rightarrow> world" where
  "pepdna_r2l_conn_data_ready s w =
    (case g_socks w s of None \<Rightarrow> add_fault (UseAfterFree s) w
     | Some k \<Rightarrow>
        (case k_user_data k of
           UD_con a \<Rightarrow>
             (if g_cons w a = None then add_fault (UseAfterFree a) w
              else if rconnected (Some a) w then con_get_and_queue a R2L w else w)
         | _ \<Rightarrow> w))"

text \<open>The callback of the UDP socket towards a CCN relay does not test the connection flags.\<close>

definition pepdna_udp_data_ready :: "nat \<Rightarrow> world \<Rightarrow> world" where
  "pepdna_udp_data_ready s w =
    (case g_socks w s of None \<Rightarrow> add_fault (UseAfterFree s) w
     | Some k \<Rightarrow>
        (case k_user_data k of
           UD_con a \<Rightarrow>
             (if g_cons w a = None then add_fault (UseAfterFree a) w
              else con_get_and_queue a R2L w)
         | _ \<Rightarrow> w))"

text \<open>
  The listener's callback queues the accept work while the listener is registered, that is,
  while its saved callback is still in \<open>sk_user_data\<close>; \<open>listening\<close> is \<open>sk_state = TCP_LISTEN\<close>.
  The saved callback, the kernel's own, is called in both cases and changes nothing here.
\<close>

definition pepdna_tcp_listen_data_ready :: "bool \<Rightarrow> nat \<Rightarrow> world \<Rightarrow> world" where
  "pepdna_tcp_listen_data_ready listening s w =
    (case g_socks w s of None \<Rightarrow> add_fault (UseAfterFree s) w
     | Some k \<Rightarrow>
        (if k_user_data k = UD_null then w
         else if listening then w\<lparr>g_accept_pending := True\<rparr> else w))"

definition sk_data_ready :: "nat \<Rightarrow> world \<Rightarrow> world" where
  "sk_data_ready s w =
    (case g_socks w s of None \<Rightarrow> add_fault (UseAfterFree s) w
     | Some k \<Rightarrow>
        (case k_data_ready k of
           DR_default \<Rightarrow> w
         | DR_listen \<Rightarrow> pepdna_tcp_listen_data_ready True s w
         | DR_l2r \<Rightarrow> pepdna_l2r_conn_data_ready s w
         | DR_r2l \<Rightarrow> pepdna_r2l_conn_data_ready s w
         | DR_udp \<Rightarrow> pepdna_udp_data_ready s w))"

subsection \<open>References of pending work\<close>

text \<open>The forwarding works of a connection that are pending.\<close>

definition pending_fwd :: "nat \<Rightarrow> world \<Rightarrow> nat" where
  "pending_fwd a w = length (filter (\<lambda>x. x = (a, L2R) \<or> x = (a, R2L)) (g_pending w))"

definition kref_of :: "nat \<Rightarrow> world \<Rightarrow> nat" where
  "kref_of a w = (case g_cons w a of None \<Rightarrow> 0 | Some c \<Rightarrow> c_kref c)"

lemma con_get_and_queue_live:
  assumes "g_cons w a = Some c" "0 < c_kref c"
  shows "con_get_and_queue a slot w =
    (if (a, slot) \<in> set (g_pending w) then w
     else w\<lparr>g_cons := (g_cons w)(a \<mapsto> c\<lparr>c_kref := c_kref c + 1\<rparr>),
            g_pending := g_pending w @ [(a, slot)]\<rparr>)"
  using assms
  by (auto simp: con_get_and_queue_def pepdna_con_get_def pepdna_con_put_def upd_con_def
      queue_work_def fun_upd_idem)

lemma wf_con_get_and_queue: "wf_known I E w \<Longrightarrow> wf_known I E (con_get_and_queue a slot w)"
  by (auto simp: con_get_and_queue_def queue_work_def intro!: wf_con_put wf_con_get)

lemma wf_data_ready:
  assumes "wf_known I E w"
  shows "wf_known I E (sk_data_ready s w)"
  using assms
  by (simp add: sk_data_ready_def pepdna_tcp_listen_data_ready_def pepdna_l2r_conn_data_ready_def
      pepdna_r2l_conn_data_ready_def pepdna_udp_data_ready_def wf_con_get_and_queue
      split: option.splits data_ready.splits user_data.splits)

lemma get_and_queue_balance:
  assumes "wf_world E w" "g_cons w a \<noteq> None" "slot = L2R \<or> slot = R2L"
  shows "kref_of b (con_get_and_queue a slot w) + pending_fwd b w
       = kref_of b w + pending_fwd b (con_get_and_queue a slot w)"
proof -
  obtain c where c: "g_cons w a = Some c" using assms(2) by blast
  show ?thesis
    using assms(3) unfolding con_get_and_queue_live [OF c wf_world_kref [OF assms(1) c]]
    by (auto simp: kref_of_def pending_fwd_def c)
qed

text \<open>
  A data-ready callback keeps the balance between the references of a connection
  and its pending forwarding works: a reference is added exactly when a work is newly queued. The
  table of connections stays well formed.
\<close>

lemma data_ready_balance:
  assumes "wf_world E w"
  shows "kref_of b (sk_data_ready s w) + pending_fwd b w
       = kref_of b w + pending_fwd b (sk_data_ready s w)
     \<and> wf_world E (sk_data_ready s w)"
proof -
  have same: "kref_of b (add_fault f w) = kref_of b w" "pending_fwd b (add_fault f w) = pending_fwd b w"
    "kref_of b (w\<lparr>g_accept_pending := v\<rparr>) = kref_of b w"
    "pending_fwd b (w\<lparr>g_accept_pending := v\<rparr>) = pending_fwd b w" for f v
    by (simp_all add: kref_of_def pending_fwd_def add_fault_def)
  show ?thesis
    using assms get_and_queue_balance [OF assms, of _ L2R b] get_and_queue_balance [OF assms, of _ R2L b]
      wf_data_ready [OF assms, of s]
    by (simp add: same sk_data_ready_def pepdna_tcp_listen_data_ready_def
        pepdna_l2r_conn_data_ready_def pepdna_r2l_conn_data_ready_def pepdna_udp_data_ready_def
        split: option.splits data_ready.splits user_data.splits)
qed

text \<open>A connected pair of sockets in a TCP-to-TCP proxy.\<close>

definition pair_con :: pepdna_con where
  "pair_con = zero_con\<lparr>c_kref := 1, c_lsock := Some 1, c_rsock := Some 2, c_lflag := True,
     c_rflag := True, c_id := 42, c_l2r_work := Some W_l2r_fwd, c_r2l_work := Some W_r2l_fwd\<rparr>"

definition pair_world :: "kenv \<Rightarrow> server_mode \<Rightarrow> pepdna_con \<Rightarrow> world" where
  "pair_world E m con = (sample_world m)\<lparr>g_cons := [0 \<mapsto> con], g_next := 1,
     g_srv := Live (hash_add E 0 (c_id con) ((sample_srv m)\<lparr>s_conns := 1\<rparr>)),
     g_socks := [1 \<mapsto> new_sock\<lparr>k_user_data := UD_con 0, k_data_ready := DR_l2r\<rparr>,
                 2 \<mapsto> new_sock\<lparr>k_user_data := UD_con 0, k_data_ready := DR_r2l\<rparr>],
     g_next_sock := 3\<rparr>"

lemma sample_works: "con_works sample_env 0 \<noteq> None" "con_works sample_env 3 \<noteq> None" "con_works sample_env 5 \<noteq> None"
  by (simp_all add: con_works_def mode_of_def sample_env_def)

lemma wf_pair_world:
  "0 < c_kref con \<Longrightarrow> con_works E (mode_code m) \<noteq> None \<Longrightarrow> wf_world E (pair_world E m con)"
  by (auto simp: wf_known_def pair_world_def hash_add_def sample_srv_def split: if_splits)

end
