(* ===== verification/Pep_Netlink.thy ===== *)
theory Pep_Netlink
  imports Pep_Ready
begin

section \<open>Netlink messages (netlink.h, netlink.c)\<close>

text \<open>
  The message exchanged with the flow allocator in user space and the sending side of the
  Netlink socket; the receiving side calls the RINA callbacks and is in \<open>Pep_Rina\<close>. The
  results of \<open>netlink_unicast\<close> are the argument \<open>uni\<close>, by the number of the attempt.
\<close>

definition NETLINK_MSS :: nat where "NETLINK_MSS = 21"
definition NL_SEND_RETRIES :: nat where "NL_SEND_RETRIES = 3"

text \<open>The packed structure in memory.\<close>

definition nl_bytes :: "nl_msg \<Rightarrow> bytes" where
  "nl_bytes m = le32 (n_saddr m) @ le16 (n_source m) @ le32 (n_daddr m) @ le16 (n_dest m)
     @ le32 (n_id m) @ le32 (word_of_int (n_port_id m)) @ [if n_alloc m then 1 else 0]"

fun nl_of_bytes :: "bytes \<Rightarrow> nl_msg option" where
  "nl_of_bytes (a0 # a1 # a2 # a3 # p0 # p1 # b0 # b1 # b2 # b3 # q0 # q1
      # i0 # i1 # i2 # i3 # f0 # f1 # f2 # f3 # al # _) =
     Some \<lparr>n_saddr = mk32 a0 a1 a2 a3, n_source = mk16 p0 p1, n_daddr = mk32 b0 b1 b2 b3,
           n_dest = mk16 q0 q1, n_id = mk32 i0 i1 i2 i3, n_port_id = sint (mk32 f0 f1 f2 f3),
           n_alloc = (al \<noteq> 0)\<rparr>"
| "nl_of_bytes _ = None"

text \<open>
  The loop over the attempts. The socket buffer has room for the header and the message, so
  \<open>nlmsg_put\<close> does not fail.
\<close>

function nl_send_loop :: "kenv \<Rightarrow> (nat \<Rightarrow> int) \<Rightarrow> nl_msg \<Rightarrow> nat \<Rightarrow> world \<Rightarrow> int \<times> world" where
  "nl_send_loop E uni msg attempts w =
    (if \<not> kzalloc E (A_nl_skb attempts) then (- ENOMEM, w)
     else if \<not> g_nl_sock w then (-1, add_fault NullDeref w)
     else
       (let rc = uni attempts
        in if rc < 0 then
             (if rc = - ECONNREFUSED \<and> attempts < NL_SEND_RETRIES
              then nl_send_loop E uni msg (Suc attempts) w else (rc, w))
           else (rc, log_event (Ev_netlink msg) w)))"
  by pat_completeness auto
termination
  by (relation "measure (\<lambda>(E, uni, msg, attempts, w). NL_SEND_RETRIES - attempts)") auto

declare nl_send_loop.simps [simp del]

definition nl_request :: "syn_tuple \<Rightarrow> u32 \<Rightarrow> int \<Rightarrow> bool \<Rightarrow> nl_msg" where
  "nl_request t cid port_id alloc =
     \<lparr>n_saddr = be32_to_cpu (t_saddr t), n_source = be16_to_cpu (t_source t),
      n_daddr = be32_to_cpu (t_daddr t), n_dest = be16_to_cpu (t_dest t),
      n_id = cid, n_port_id = port_id, n_alloc = alloc\<rparr>"

definition pepdna_nl_sendmsg ::
    "kenv \<Rightarrow> (nat \<Rightarrow> int) \<Rightarrow> syn_tuple \<Rightarrow> u32 \<Rightarrow> int \<Rightarrow> bool \<Rightarrow> world \<Rightarrow> int \<times> world" where
  "pepdna_nl_sendmsg E uni t cid port_id alloc w =
     nl_send_loop E uni (nl_request t cid port_id alloc) 0 w"

definition pepdna_netlink_init :: "kenv \<Rightarrow> world \<Rightarrow> int \<times> world" where
  "pepdna_netlink_init E w =
    (let w = w\<lparr>g_nl_mode := g_mode w, g_nl_sock := netlink_kernel_create E\<rparr>
     in if netlink_kernel_create E then (0, w) else (- ENOMEM, w))"

definition pepdna_netlink_stop :: "world \<Rightarrow> world" where
  "pepdna_netlink_stop w = (if g_nl_sock w then w\<lparr>g_nl_sock := False\<rparr> else w)"

subsection \<open>Properties\<close>

text \<open>
  A Netlink message read back from the bytes of the packed structure is the message
  that was written, for every port number in the range of a C \<open>int\<close>; and the structure takes
  exactly the \<open>NETLINK_MSS\<close> bytes reserved for it.
\<close>

lemma nl_msg_roundtrip:
  assumes "- (2 ^ 31) \<le> n_port_id m" "n_port_id m < 2 ^ 31"
  shows "nl_of_bytes (nl_bytes m) = Some m \<and> length (nl_bytes m) = NETLINK_MSS"
proof -
  have "sint (word_of_int (n_port_id m) :: u32) = n_port_id m"
    using assms by (simp add: sint_sbintrunc' signed_take_bit_int_eq_self)
  then show ?thesis
    by (cases m) (simp add: nl_bytes_def le16_def le32_def NETLINK_MSS_def)
qed

text \<open>
  The attempts made: up to four, the later ones only after a refused connection.
\<close>

definition nl_tries :: "(nat \<Rightarrow> int) \<Rightarrow> nat" where
  "nl_tries uni = length (takeWhile (\<lambda>k. uni k = - ECONNREFUSED) [0..<NL_SEND_RETRIES])"

text \<open>
  Sending a Netlink message tries again only while the peer refuses, at most
  \<open>NL_SEND_RETRIES\<close> times; the result is that of the last attempt, and the message goes out
  exactly once if that attempt succeeds and not at all otherwise.
\<close>

lemma nl_sendmsg_retries:
  assumes "\<And>k. kzalloc E (A_nl_skb k)" "g_nl_sock w"
  shows "pepdna_nl_sendmsg E uni t cid port_id alloc w =
      (uni (nl_tries uni),
       if uni (nl_tries uni) < 0 then w else log_event (Ev_netlink (nl_request t cid port_id alloc)) w)
    \<and> nl_tries uni \<le> NL_SEND_RETRIES"
proof -
  have up: "[0..<NL_SEND_RETRIES] = [0, 1, 2]" by (simp add: NL_SEND_RETRIES_def upt_rec)
  have loop: "nl_send_loop E uni msg 0 w =
      (uni (nl_tries uni), if uni (nl_tries uni) < 0 then w else log_event (Ev_netlink msg) w)" for msg
    unfolding nl_tries_def up using assms
    by (simp add: nl_send_loop.simps [of _ _ _ 0] nl_send_loop.simps [of _ _ _ "Suc 0"]
        nl_send_loop.simps [of _ _ _ "Suc (Suc 0)"] nl_send_loop.simps [of _ _ _ "Suc (Suc (Suc 0))"]
        NL_SEND_RETRIES_def Let_def numeral_2_eq_2 numeral_3_eq_3)
  have "nl_tries uni \<le> NL_SEND_RETRIES"
    using length_takeWhile_le [of _ "[0..<NL_SEND_RETRIES]"] by (simp add: nl_tries_def)
  then show ?thesis unfolding pepdna_nl_sendmsg_def loop by simp
qed

lemma wf_nl_sendmsg:
  assumes "wf_known I E w"
  shows "wf_known I E (snd (pepdna_nl_sendmsg E' uni t cid pid al w))"
proof -
  have "wf_known I E w \<Longrightarrow> wf_known I E (snd (nl_send_loop E' uni msg n w))" for msg n w
  proof (induction E' uni msg n w rule: nl_send_loop.induct)
    case (1 E' uni msg n w)
    then show ?case by (subst nl_send_loop.simps) (simp add: Let_def)
  qed
  then show ?thesis using assms by (simp add: pepdna_nl_sendmsg_def)
qed

end
