(* ===== verification/Pep_Minip.thy ===== *)
theory Pep_Minip
  imports Pep_Ready
begin

unbundle bit_operations_syntax

section \<open>MINIP: sending, timers and acknowledgements (minip.c)\<close>

text \<open>
  The sending side of MINIP for one connection. The operations of this theory are the code
  after the connection was found: they take the connection and its retransmission queue (the
  object that \<open>con->rtxq\<close> points to) and return both, with the packets handed to the device.
  The handlers of \<open>Pep_Minip_Recv\<close> look the connection up, run them on the stored object and
  perform the teardown.
\<close>

subsection \<open>Control packets\<close>

text \<open>
  A new packet's header holds whatever the allocator returned (\<open>skb_junk\<close>): the functions
  fill in only the fields they name.
\<close>

definition new_frame :: "kenv \<Rightarrow> bytes \<Rightarrow> (minip_hdr \<Rightarrow> minip_hdr) \<Rightarrow> bytes \<Rightarrow> sk_buff" where
  "new_frame E mac fill payload = \<lparr>f_mac = mac, f_hdr = fill (skb_junk E), f_data = payload\<rparr>"

definition pepdna_minip_conn_delete :: "kenv \<Rightarrow> u32 \<Rightarrow> bytes \<Rightarrow> world \<Rightarrow> int \<times> world" where
  "pepdna_minip_conn_delete E cid to_mac w =
    (if \<not> kzalloc E (A_skb MINIP_CONN_DELETE 0) then (-1, w)
     else if dev_hard_header E < 0 then (-1, w)
     else xmit_frame E (new_frame E to_mac
            (\<lambda>h. h\<lparr>h_pkt_type := pkt_code MINIP_CONN_DELETE, h_sdu_len := 0, h_id := htonl cid\<rparr>)
            []) w)"

definition pepdna_minip_conn_finished :: "kenv \<Rightarrow> u32 \<Rightarrow> bytes \<Rightarrow> world \<Rightarrow> int \<times> world" where
  "pepdna_minip_conn_finished E cid to_mac w =
    (if \<not> kzalloc E (A_skb MINIP_CONN_FINISHED 0) then (-1, w)
     else if dev_hard_header E < 0 then (-1, w)
     else xmit_frame E (new_frame E to_mac
            (\<lambda>h. h\<lparr>h_pkt_type := pkt_code MINIP_CONN_FINISHED, h_sdu_len := 0, h_id := htonl cid\<rparr>)
            []) w)"

definition pepdna_minip_send_response :: "kenv \<Rightarrow> u32 \<Rightarrow> bytes \<Rightarrow> world \<Rightarrow> int \<times> world" where
  "pepdna_minip_send_response E cid to_mac w =
    (if \<not> kzalloc E (A_skb MINIP_CONN_RESPONSE 0) then (-1, w)
     else if dev_hard_header E < 0 then (-1, w)
     else xmit_frame E (new_frame E to_mac
            (\<lambda>h. h\<lparr>h_pkt_type := pkt_code MINIP_CONN_RESPONSE, h_sdu_len := 0, h_id := htonl cid,
                    h_seq := htonl MINIP_FIRST_SEQ, h_ack := htonl (MINIP_FIRST_SEQ + 1)\<rparr>) []) w)"

definition pepdna_minip_send_ack :: "kenv \<Rightarrow> u32 \<Rightarrow> u32 \<Rightarrow> bytes \<Rightarrow> u32 \<Rightarrow> world \<Rightarrow> int \<times> world" where
  "pepdna_minip_send_ack E cid ack to_mac ts w =
    (if \<not> kzalloc E (A_skb MINIP_CONN_ACK ack) then (-1, w)
     else if dev_hard_header E < 0 then (-1, w)
     else xmit_frame E (new_frame E to_mac
            (\<lambda>h. h\<lparr>h_pkt_type := pkt_code MINIP_CONN_ACK, h_sdu_len := 0, h_id := htonl cid,
                    h_ack := htonl ack, h_ts := ts\<rparr>) []) w)"

text \<open>
  The payload of a connection request is \<open>struct syn_tuple\<close> in memory: it is not packed, so
  two bytes of padding follow each port.
\<close>

definition syn_bytes :: "bytes \<Rightarrow> syn_tuple \<Rightarrow> bytes" where
  "syn_bytes pad syn = le32 (t_saddr syn) @ le16 (t_source syn) @ take 2 pad
     @ le32 (t_daddr syn) @ le16 (t_dest syn) @ take 2 (drop 2 pad)"

fun syn_of_bytes :: "bytes \<Rightarrow> syn_tuple option" where
  "syn_of_bytes (a0 # a1 # a2 # a3 # p0 # p1 # _ # _ # b0 # b1 # b2 # b3 # q0 # q1 # _ # _ # _) =
     Some \<lparr>t_saddr = mk32 a0 a1 a2 a3, t_source = mk16 p0 p1,
           t_daddr = mk32 b0 b1 b2 b3, t_dest = mk16 q0 q1\<rparr>"
| "syn_of_bytes _ = None"

definition pepdna_minip_conn_request ::
    "kenv \<Rightarrow> bytes \<Rightarrow> syn_tuple \<Rightarrow> u32 \<Rightarrow> bytes \<Rightarrow> world \<Rightarrow> int \<times> world" where
  "pepdna_minip_conn_request E pad syn cid to_mac w =
    (if \<not> kzalloc E (A_skb MINIP_CONN_REQUEST 0) then (- ENOMEM, w)
     else if dev_hard_header E < 0 then (-1, w)
     else xmit_frame E (new_frame E to_mac
            (\<lambda>h. h\<lparr>h_pkt_type := pkt_code MINIP_CONN_REQUEST, h_sdu_len := 16, h_id := htonl cid,
                    h_seq := htonl MINIP_FIRST_SEQ, h_ack := htonl MINIP_FIRST_SEQ,
                    h_ts := htonl (now_ms E)\<rparr>) (syn_bytes pad syn)) w)"

subsection \<open>Data packets\<close>

definition data_frame :: "kenv \<Rightarrow> pepdna_con \<Rightarrow> bytes \<Rightarrow> bytes \<Rightarrow> sk_buff" where
  "data_frame E con to_mac buf = new_frame E to_mac
     (\<lambda>h. h\<lparr>h_pkt_type := pkt_code MINIP_CONN_DATA, h_sdu_len := word_of_nat (length buf),
            h_id := htonl (c_id con), h_seq := htonl (c_next_seq con),
            h_ts := htonl (now_ms E)\<rparr>) buf"

text \<open>A copy of the packet enters the retransmission queue before it is handed to the device.\<close>

definition pepdna_minip_skb_send ::
    "kenv \<Rightarrow> bytes \<Rightarrow> pepdna_con \<Rightarrow> rtxq \<Rightarrow> bytes \<Rightarrow> int \<times> rtxq \<times> sk_buff list" where
  "pepdna_minip_skb_send E to_mac con q buf =
    (if \<not> kzalloc E (A_skb MINIP_CONN_DATA (c_next_seq con)) then (- ENOMEM, q, [])
     else if dev_hard_header E < 0 then (-1, q, [])
     else if \<not> kzalloc E (A_clone (c_next_seq con)) then (-1, q, [])
     else
       (let skb = data_frame E con to_mac buf
        in case rtxq_push (kzalloc E (A_entry (c_next_seq con))) q skb of
             (res, q) \<Rightarrow>
               if res \<noteq> 0 then (-1, q, []) else (dev_queue_xmit E skb, q, [skb])))"

text \<open>
  The loop of \<open>pepdna_minip_conn_snd_data\<close> over the bytes left: segments of at most
  \<open>MINIP_MSS\<close> bytes, each with its own sequence number. It stops at the first segment that
  cannot be sent; the result holds the bytes sent and the last code.
\<close>

definition next_segment :: "pepdna_con \<Rightarrow> pepdna_con" where
  "next_segment con =
    (let con = con\<lparr>c_next_seq := c_next_seq con + 1\<rparr>
     in if 0 < c_window con then con\<lparr>c_window := c_window con - 1\<rparr> else con)"

function snd_data_loop ::
    "kenv \<Rightarrow> bytes \<Rightarrow> pepdna_con \<Rightarrow> rtxq \<Rightarrow> bytes \<Rightarrow> nat \<Rightarrow>
       (nat \<times> int) \<times> pepdna_con \<times> rtxq \<times> sk_buff list" where
  "snd_data_loop E to_mac con q left sent =
    (if left = [] then ((sent, 0), con, q, [])
     else
       (let copylen = min (length left) MINIP_MSS
        in case pepdna_minip_skb_send E to_mac con q (take copylen left) of
             (rc, q, out) \<Rightarrow>
               if rc < 0 then ((sent, - EIO), con, q, out)
               else
                 (case snd_data_loop E to_mac (next_segment con) q (drop copylen left)
                         (sent + copylen) of
                    (res, con, q, out') \<Rightarrow> (res, con, q, out @ out'))))"
  by pat_completeness auto
termination
  by (relation "measure (\<lambda>(E, m, con, q, left, sent). length left)")
    (auto simp: MINIP_MSS_def)

declare snd_data_loop.simps [simp del]

definition pepdna_minip_conn_snd_data ::
    "kenv \<Rightarrow> bytes \<Rightarrow> pepdna_con \<Rightarrow> rtxq \<Rightarrow> bytes \<Rightarrow> int \<times> pepdna_con \<times> rtxq \<times> sk_buff list" where
  "pepdna_minip_conn_snd_data E to_mac con q buf =
    (case snd_data_loop E to_mac con q buf 0 of
       ((sent, rc), con, q, out) \<Rightarrow> (if sent \<noteq> 0 then int sent else rc, con, q, out))"

definition can_send :: "pepdna_con \<Rightarrow> bool" where
  "can_send con \<longleftrightarrow> \<not> (\<not> c_sending con \<or> c_window con = 0)"

text \<open>
  Forwarding from the TCP socket. \<open>recv\<close> is the result of \<open>kernel_recvmsg\<close> for a request of
  the given size: the return code and, when it is positive, that many bytes.
\<close>

type_synonym recv_result = "int \<times> bytes"

definition recv_law :: "nat \<Rightarrow> recv_result \<Rightarrow> bool" where
  "recv_law n r \<longleftrightarrow> (0 < fst r \<longrightarrow> fst r = int (length (snd r)) \<and> length (snd r) \<le> n)"

definition pepdna_con_i2minip_fwd ::
    "kenv \<Rightarrow> bytes \<Rightarrow> (nat \<Rightarrow> recv_result) \<Rightarrow> pepdna_con \<Rightarrow> rtxq \<Rightarrow>
       int \<times> pepdna_con \<times> rtxq \<times> sk_buff list" where
  "pepdna_con_i2minip_fwd E to_mac recv con q =
    (if \<not> can_send con then (- EAGAIN, con, q, [])
     else
       (let how_much = MINIP_MSS * unat (c_window con)
        in if \<not> kzalloc E A_buffer then (- ENOMEM, con, q, [])
           else
             (let (read, buff) = recv how_much
              in if 0 < read then
                   (case pepdna_minip_conn_snd_data E to_mac con q buff of
                      (sent, con, q, out) \<Rightarrow> (if sent < 0 then -1 else read, con, q, out))
                 else (read, con, q, []))))"

subsection \<open>Round-trip time, window and timer\<close>

text \<open>
  The estimator works in the signed type \<open>long\<close>, wide enough for every value here, and
  stores its results back into 32 bits.
\<close>

definition minip_update_rto :: "pepdna_con \<Rightarrow> u32 \<Rightarrow> pepdna_con" where
  "minip_update_rto con new_rtt =
    (let m = uint new_rtt;
         con = (if c_srtt con \<noteq> 0 then
                  (let m = m - uint (drop_bit 3 (c_srtt con));
                       srtt = word_of_int (uint (c_srtt con) + m);
                       m = (if m < 0 then - m else m);
                       m = m - uint (drop_bit 2 (c_rttvar con));
                       rttvar = word_of_int (uint (c_rttvar con) + m)
                   in con\<lparr>c_srtt := srtt, c_rttvar := rttvar\<rparr>)
                else con\<lparr>c_srtt := word_of_int (m * 8), c_rttvar := word_of_int (m * 2)\<rparr>)
     in con\<lparr>c_rto := drop_bit 3 (c_srtt con) + c_rttvar con\<rparr>)"

definition minip_update_cwnd :: "pepdna_con \<Rightarrow> pepdna_con" where
  "minip_update_cwnd con =
    (let flight = c_next_seq con - c_last_acked con;
         con = (if flight \<le> ucast WINDOW_SIZE then con\<lparr>c_window := c_window con + 1\<rparr>
                else if 0 < c_window con then con\<lparr>c_window := c_window con - 1\<rparr> else con)
     in if WINDOW_SIZE < c_window con then con\<lparr>c_window := WINDOW_SIZE\<rparr> else con)"

definition arm_timer :: "kenv \<Rightarrow> pepdna_con \<Rightarrow> pepdna_con" where
  "arm_timer E con = con\<lparr>c_timer := Some (jiffies E + msecs_to_jiffies E (c_rto con))\<rparr>"

text \<open>
  The retransmission timer. The flag of the result says that the retransmission failed and
  the connection is to be deleted.
\<close>

definition sender_timeout_con ::
    "kenv \<Rightarrow> pepdna_con \<Rightarrow> rtxq \<Rightarrow> bool \<times> pepdna_con \<times> rtxq \<times> sk_buff list" where
  "sender_timeout_con E con q =
    (if rtxq_size q \<noteq> 0 then
       (let con = con\<lparr>c_sending := False, c_state := RECOVERY\<rparr>
        in case rtxq_full_rtx (now_ms E) (dev_queue_xmit E) (Some q) (c_last_acked con + 1) of
             (rc, q', out) \<Rightarrow>
               (let q = (case q' of None \<Rightarrow> q | Some q \<Rightarrow> q)
                in if rc < 0 then (True, con, q, out) else (False, arm_timer E con, q, out)))
     else (False, arm_timer E con, q, []))"

subsection \<open>Acknowledgements\<close>

datatype ack_outcome = Ack_old | Ack_new | Ack_dup | Ack_failed | Ack_other

text \<open>The round-trip sample of an acknowledgement, and the restart of the timer.\<close>

definition ack_base :: "kenv \<Rightarrow> minip_hdr \<Rightarrow> pepdna_con \<Rightarrow> pepdna_con" where
  "ack_base E hdr con =
    (let rtt = now_ms E - ntohl (h_ts hdr);
         con = (if h_ts hdr \<noteq> 0 \<and> rtt \<noteq> 0 then minip_update_rto con rtt else con)
     in arm_timer E con)"

definition recv_ack_con ::
    "kenv \<Rightarrow> minip_hdr \<Rightarrow> pepdna_con \<Rightarrow> rtxq \<Rightarrow> ack_outcome \<times> pepdna_con \<times> rtxq \<times> sk_buff list"
where
  "recv_ack_con E hdr con q =
    (let ack = ntohl (h_ack hdr)
     in if ack < c_last_acked con then (Ack_old, con, q, [])
        else
          (let con = ack_base E hdr con
           in if c_last_acked con < ack then
                (let con = con\<lparr>c_dup_acks := 0, c_last_acked := ack - 1\<rparr>;
                     (credit, q') = rtxq_ack (Some q) ack;
                     q = (case q' of None \<Rightarrow> q | Some q \<Rightarrow> q);
                     con = (if c_state con = RECOVERY
                            then con\<lparr>c_sending := True, c_state := ESTABLISHED\<rparr> else con);
                     con = con\<lparr>c_window := c_window con + word_of_int credit\<rparr>;
                     con = (if rtxq_size q < ucast (drop_bit 1 WINDOW_SIZE)
                            then minip_update_cwnd con else con)
                 in (Ack_new, con, q, []))
              else if c_last_acked con = ack then
                (let con = con\<lparr>c_dup_acks := c_dup_acks con + 1, c_state := RECOVERY,
                               c_sending := False\<rparr>
                 in if c_dup_acks con \<noteq> 1 then (Ack_dup, con, q, [])
                    else
                      (case rtxq_full_rtx (now_ms E) (dev_queue_xmit E) (Some q) ack of
                         (rc, q', out) \<Rightarrow>
                           (let q = (case q' of None \<Rightarrow> q | Some q \<Rightarrow> q)
                            in (if rc < 0 then Ack_failed else Ack_dup, con, q, out))))
              else (Ack_other, con, q, [])))"

end
