(* ===== verification/Pep_Minip_Flow.thy ===== *)
theory Pep_Minip_Flow
  imports Pep_Minip
begin

unbundle bit_operations_syntax

section \<open>MINIP: what the sender guarantees\<close>

text \<open>
  Correctness of the sending side of one connection: how a buffer read from the socket is cut
  into packets, how the window and the number of unacknowledged packets are bounded, the
  range of the retransmission timeout, and how duplicate acknowledgements are (not) noticed.
\<close>

subsection \<open>What a forwarded buffer becomes\<close>

text \<open>Kernel services that do not fail.\<close>

definition healthy :: "kenv \<Rightarrow> bool" where
  "healthy E \<longleftrightarrow> (\<forall>x. kzalloc E x) \<and> 0 \<le> dev_hard_header E \<and> (\<forall>s. 0 \<le> dev_queue_xmit E s)"

text \<open>The segments of a buffer, and the packets they travel in.\<close>

function segs :: "bytes \<Rightarrow> bytes list" where
  "segs b = (if b = [] then [] else take MINIP_MSS b # segs (drop MINIP_MSS b))"
  by pat_completeness auto
termination
  by (relation "measure length") (auto simp: MINIP_MSS_def)

declare segs.simps [simp del]

fun seg_frames :: "kenv \<Rightarrow> pepdna_con \<Rightarrow> bytes \<Rightarrow> u32 \<Rightarrow> bytes list \<Rightarrow> sk_buff list" where
  "seg_frames E con mac seq [] = []"
| "seg_frames E con mac seq (b # bs) =
     data_frame E (con\<lparr>c_next_seq := seq\<rparr>) mac b # seg_frames E con mac (seq + 1) bs"

definition push_all :: "rtxq \<Rightarrow> sk_buff list \<Rightarrow> rtxq" where
  "push_all q fs = q\<lparr>rq_queue := (rq_queue q)\<lparr>
     q_head := q_head (rq_queue q) @ map (\<lambda>s. \<lparr>e_skb = s, e_retries = 0\<rparr>) fs,
     q_len := q_len (rq_queue q) + int (length fs)\<rparr>\<rparr>"

lemma segs_Nil [simp]: "segs [] = []"
  by (subst segs.simps) simp

lemma segs_Cons: "b \<noteq> [] \<Longrightarrow> segs b = take MINIP_MSS b # segs (drop MINIP_MSS b)"
  by (subst segs.simps) simp

lemma concat_segs: "concat (segs b) = b"
proof (induction b rule: segs.induct)
  case (1 b)
  then show ?case by (cases "b = []") (simp_all add: segs_Cons)
qed

lemma segs_short: "\<forall>s\<in>set (segs b). length s \<le> MINIP_MSS \<and> s \<noteq> []"
proof (induction b rule: segs.induct)
  case (1 b)
  show ?case
  proof (cases "b = []")
    case False
    with 1 show ?thesis by (auto simp: segs_Cons [OF False] MINIP_MSS_def)
  qed simp
qed

lemma length_segs: "length b \<le> MINIP_MSS * n \<Longrightarrow> length (segs b) \<le> n"
proof (induction n arbitrary: b)
  case (Suc n)
  show ?case
  proof (cases "b = []")
    case False
    have "length (drop MINIP_MSS b) \<le> MINIP_MSS * n" using Suc.prems by simp
    then have "length (segs (drop MINIP_MSS b)) \<le> n" by (rule Suc.IH)
    with False show ?thesis by (simp add: segs_Cons [OF False])
  qed simp
qed simp

lemma seg_frames_length [simp]: "length (seg_frames E con mac seq bs) = length bs"
  by (induction bs arbitrary: seq) auto

lemma push_all_Nil [simp]: "push_all q [] = q"
  by (simp add: push_all_def)

lemma push_all_append: "push_all (push_all q xs) ys = push_all q (xs @ ys)"
  by (simp add: push_all_def)

lemma skb_send_healthy:
  "healthy E \<Longrightarrow> pepdna_minip_skb_send E mac con q b =
     (dev_queue_xmit E (data_frame E con mac b), push_all q [data_frame E con mac b],
      [data_frame E con mac b])"
  by (simp add: pepdna_minip_skb_send_def healthy_def rtxq_push_def push_all_def Let_def)

definition after_send :: "pepdna_con \<Rightarrow> nat \<Rightarrow> pepdna_con" where
  "after_send con n = con\<lparr>c_next_seq := c_next_seq con + of_nat n,
     c_window := of_nat (unat (c_window con) - n)\<rparr>"

lemma data_frame_cong:
  "c_id con = c_id con' \<Longrightarrow> c_next_seq con = c_next_seq con' \<Longrightarrow>
     data_frame E con mac b = data_frame E con' mac b"
  by (simp add: data_frame_def)

lemma seg_frames_cong:
  "c_id con = c_id con' \<Longrightarrow> seg_frames E con mac seq bs = seg_frames E con' mac seq bs"
  by (induction bs arbitrary: seq) (auto intro!: data_frame_cong)

lemma after_send_Suc: "after_send (next_segment con) n = after_send con (Suc n)"
proof (cases "c_window con = 0")
  case True
  then show ?thesis by (simp add: after_send_def next_segment_def algebra_simps)
next
  case False
  then have "unat (c_window con - 1) = unat (c_window con) - 1"
    by (simp add: unat_minus_one)
  with False show ?thesis by (simp add: after_send_def next_segment_def word_gt_0 algebra_simps)
qed

lemma next_segment_simps [simp]:
  "c_id (next_segment con) = c_id con" "c_next_seq (next_segment con) = c_next_seq con + 1"
  by (simp_all add: next_segment_def Let_def)

lemma snd_data_loop_healthy:
  assumes "healthy E"
  shows "snd_data_loop E mac con q left sent =
    ((sent + length left, 0), after_send con (length (segs left)),
     push_all q (seg_frames E con mac (c_next_seq con) (segs left)),
     seg_frames E con mac (c_next_seq con) (segs left))"
proof (induction left arbitrary: con q sent rule: segs.induct)
  case (1 left)
  show ?case
  proof (cases "left = []")
    case True
    then show ?thesis by (subst snd_data_loop.simps) (simp add: after_send_def)
  next
    case False
    have cut: "take (min (length left) MINIP_MSS) left = take MINIP_MSS left"
      "drop (min (length left) MINIP_MSS) left = drop MINIP_MSS left"
      by (simp_all add: min_def)
    have len: "sent + min (length left) MINIP_MSS + length (drop MINIP_MSS left) = sent + length left"
      by simp
    have fr: "data_frame E (con\<lparr>c_next_seq := c_next_seq con\<rparr>) mac b = data_frame E con mac b" for b
      by (rule data_frame_cong) simp_all
    show ?thesis
      using False assms
      by (subst snd_data_loop.simps)
        (simp add: cut len skb_send_healthy after_send_Suc fr push_all_append segs_Cons [OF False] 1
          seg_frames_cong [of "next_segment con" con] healthy_def not_less [symmetric])
  qed
qed

lemma data_frame_simps [simp]:
  "f_data (data_frame E con mac b) = b" "f_mac (data_frame E con mac b) = mac"
  "skb_seq_get (data_frame E con mac b) = c_next_seq con"
  "h_pkt_type (f_hdr (data_frame E con mac b)) = pkt_code MINIP_CONN_DATA"
  "h_sdu_len (f_hdr (data_frame E con mac b)) = word_of_nat (length b)"
  "h_id (f_hdr (data_frame E con mac b)) = htonl (c_id con)"
  by (simp_all add: data_frame_def new_frame_def skb_seq_get_def)

lemma seg_frames_nth:
  "i < length bs \<Longrightarrow> seg_frames E con mac seq bs ! i =
     data_frame E (con\<lparr>c_next_seq := seq + of_nat i\<rparr>) mac (bs ! i)"
  by (induction bs arbitrary: seq i) (auto simp: nth_Cons algebra_simps split: nat.splits)

lemma seg_frames_data: "map f_data (seg_frames E con mac seq bs) = bs"
  by (induction bs arbitrary: seq) auto

lemma i2minip_fwd_healthy:
  assumes "healthy E" "can_send con" "recv (MINIP_MSS * unat (c_window con)) = (read, buff)"
    and "0 < read" "read = int (length buff)"
  shows "pepdna_con_i2minip_fwd E mac recv con q =
    (read, after_send con (length (segs buff)),
     push_all q (seg_frames E con mac (c_next_seq con) (segs buff)),
     seg_frames E con mac (c_next_seq con) (segs buff))"
proof -
  have "kzalloc E A_buffer" using assms(1) by (simp add: healthy_def)
  then show ?thesis
    using assms
    by (simp add: pepdna_con_i2minip_fwd_def pepdna_minip_conn_snd_data_def Let_def
        snd_data_loop_healthy)
qed

definition win_ok :: "pepdna_con \<Rightarrow> rtxq \<Rightarrow> bool" where
  "win_ok con q \<longleftrightarrow>
     q_len (rq_queue q) = int (length (q_head (rq_queue q)))
     \<and> c_window con \<le> WINDOW_SIZE
     \<and> unat (c_window con) + length (q_head (rq_queue q)) \<le> 17"

lemma win_ok_size:
  "win_ok con q \<Longrightarrow> unat (rtxq_size q) = length (q_head (rq_queue q))"
  by (simp add: win_ok_def rtxq_size_def unat_of_nat)

text \<open>
  One segment adds at most one entry to the queue, and exactly one when it counts as sent, as long
  as the device takes the frame.
\<close>

lemma skb_send_queue:
  assumes "\<forall>s. 0 \<le> dev_queue_xmit E s" "pepdna_minip_skb_send E mac con q b = (rc, q', out)"
  shows "if rc < 0 then q' = q
    else length (q_head (rq_queue q')) = Suc (length (q_head (rq_queue q))) \<and> q_len (rq_queue q') = q_len (rq_queue q) + 1"
proof -
  have "\<not> dev_queue_xmit E f < 0" for f using assms(1) by (simp add: not_less)
  with assms(2) show ?thesis
    by (auto simp: pepdna_minip_skb_send_def rtxq_push_def rtxqueue_push_def Let_def
        split: if_splits option.splits)
qed

lemma win_ok_loop:
  assumes "\<forall>s. 0 \<le> dev_queue_xmit E s" "win_ok con q" "length left \<le> MINIP_MSS * unat (c_window con)"
    and "snd_data_loop E mac con q left sent = (r, con', q', out)"
  shows "win_ok con' q'"
  using assms
proof (induction E mac con q left sent arbitrary: r con' q' out rule: snd_data_loop.induct)
  case (1 E mac con q left sent)
  let ?n = "min (length left) MINIP_MSS"
  obtain rc q1 out1 where send: "pepdna_minip_skb_send E mac con q (take ?n left) = (rc, q1, out1)" by (rule prod_cases3)
  note queue = skb_send_queue [OF "1.prems"(1) send]
  show ?case
  proof (cases "left = [] \<or> rc < 0")
    case True
    then show ?thesis
      using "1.prems"(2,4) send queue by (auto simp: snd_data_loop.simps [of _ _ _ _ left] Let_def split: if_splits)
  next
    case False
    then have "c_window con \<noteq> 0" using "1.prems"(3) by auto
    then have w: "c_window (next_segment con) = c_window con - 1" and u: "unat (c_window con - 1) = unat (c_window con) - 1"
        "0 < unat (c_window con)"
      by (simp_all add: next_segment_def word_gt_0 unat_minus_one unat_gt_0)
    have ok: "win_ok (next_segment con) q1"
      using "1.prems"(2) queue False w u by (auto simp: win_ok_def word_le_nat_alt)
    obtain r2 con2 q2 out2 where
      rec: "snd_data_loop E mac (next_segment con) q1 (drop ?n left) (sent + ?n) = (r2, con2, q2, out2)"
      by (rule prod_cases4)
    have "length (drop ?n left) \<le> MINIP_MSS * (unat (c_window con) - 1)"
      using "1.prems"(3) by (simp add: diff_mult_distrib2 min_def diff_le_mono)
    then have short: "length (drop ?n left) \<le> MINIP_MSS * unat (c_window (next_segment con))" unfolding w u .
    have "win_ok con2 q2"
      using "1.IH" [OF _ refl send [symmetric] refl _ "1.prems"(1) ok short rec] False by simp
    then show ?thesis
      using "1.prems"(4) send rec False by (simp add: snd_data_loop.simps [of _ _ _ _ left] Let_def)
  qed
qed

lemma win_ok_send:
  assumes "\<forall>s. 0 \<le> dev_queue_xmit E s" "win_ok con q"
    and "recv_law (MINIP_MSS * unat (c_window con)) (recv (MINIP_MSS * unat (c_window con)))"
    and "pepdna_con_i2minip_fwd E mac recv con q = (rc, con', q', out)"
  shows "win_ok con' q'"
proof (cases "can_send con \<and> kzalloc E A_buffer \<and> 0 < fst (recv (MINIP_MSS * unat (c_window con)))")
  case True
  obtain read buff where r: "recv (MINIP_MSS * unat (c_window con)) = (read, buff)" by force
  obtain rs con1 q1 out1 where l: "snd_data_loop E mac con q buff 0 = (rs, con1, q1, out1)" by (rule prod_cases4)
  have "length buff \<le> MINIP_MSS * unat (c_window con)" using assms(3) True r by (simp add: recv_law_def)
  note ok = win_ok_loop [OF assms(1,2) this l]
  have "con' = con1" "q' = q1"
    using assms(4) True r l
    by (auto simp: pepdna_con_i2minip_fwd_def pepdna_minip_conn_snd_data_def Let_def split: prod.splits)
  with ok show ?thesis by simp
next
  case False
  then have "con' = con \<and> q' = q"
    using assms(4) by (auto simp: pepdna_con_i2minip_fwd_def Let_def split: if_splits prod.splits)
  with assms(2) show ?thesis by simp
qed

text \<open>
  A frame that the device refuses has its copy in the queue, but neither the sequence number nor the
  window moves: the next packet takes the same number, and the credit for the entry raises the window.
\<close>

lemma refused_frame_stays:
  assumes "kzalloc E (A_skb MINIP_CONN_DATA (c_next_seq con))" "0 \<le> dev_hard_header E"
    and "kzalloc E (A_clone (c_next_seq con))" "kzalloc E (A_entry (c_next_seq con))"
    and "dev_queue_xmit E (data_frame E con mac b) < 0" "b \<noteq> []" "length b \<le> MINIP_MSS"
  shows "\<exists>q' out. pepdna_minip_conn_snd_data E mac con q b = (- EIO, con, q', out)
    \<and> map e_skb (q_head (rq_queue q')) = map e_skb (q_head (rq_queue q)) @ [data_frame E con mac b]"
  using assms
  by (simp add: pepdna_minip_conn_snd_data_def snd_data_loop.simps [of _ _ _ _ b] pepdna_minip_skb_send_def
      rtxq_push_def rtxqueue_push_def rtxq_entry_create_def Let_def)

lemma minip_update_cwnd_window: "c_window (minip_update_cwnd con) \<le> WINDOW_SIZE"
  by (auto simp: minip_update_cwnd_def Let_def not_less)

lemma update_rto_window [simp]:
  "c_window (minip_update_rto con r) = c_window con"
  "c_last_acked (minip_update_rto con r) = c_last_acked con"
  "c_next_seq (minip_update_rto con r) = c_next_seq con"
  "c_next_recv (minip_update_rto con r) = c_next_recv con"
  "c_id (minip_update_rto con r) = c_id con" "c_kref (minip_update_rto con r) = c_kref con"
  "c_state (minip_update_rto con r) = c_state con"
  "c_sending (minip_update_rto con r) = c_sending con"
  "c_dup_acks (minip_update_rto con r) = c_dup_acks con"
  by (simp_all add: minip_update_rto_def Let_def)

lemma arm_timer_simps [simp]:
  "c_window (arm_timer E con) = c_window con" "c_last_acked (arm_timer E con) = c_last_acked con"
  "c_next_seq (arm_timer E con) = c_next_seq con" "c_next_recv (arm_timer E con) = c_next_recv con"
  "c_id (arm_timer E con) = c_id con" "c_kref (arm_timer E con) = c_kref con"
  "c_state (arm_timer E con) = c_state con" "c_sending (arm_timer E con) = c_sending con"
  "c_dup_acks (arm_timer E con) = c_dup_acks con"
  by (simp_all add: arm_timer_def)

lemma win_ok_rtx:
  assumes "win_ok con q" "rtxq_full_rtx n xmit (Some q) ack = (rc, Some q', out)"
    "c_window con' = c_window con"
  shows "win_ok con' q'"
proof -
  obtain qu where qu: "rtxqueue_entries_rtx n xmit (rq_queue q) ack = (fst (rtxqueue_entries_rtx n xmit (rq_queue q) ack), qu, out)"
    "q' = q\<lparr>rq_queue := qu\<rparr>"
    using assms(2) by (auto simp: rtxq_full_rtx_def split: prod.splits)
  have "q_len qu = q_len (rq_queue q)" "length (q_head qu) = length (q_head (rq_queue q))"
    using rtxqueue_entries_rtx_head [OF qu(1)] map_eq_imp_length_eq by blast+
  then show ?thesis using assms(1,3) qu(2) by (simp add: win_ok_def)
qed

lemma rtxq_full_rtx_Some: "\<exists>rc q' out. rtxq_full_rtx n xmit (Some q) ack = (rc, Some q', out)"
  by (auto simp: rtxq_full_rtx_def split: prod.splits)

lemma win_ok_timeout:
  assumes "win_ok con q" "sender_timeout_con E con q = (fl, con', q', out)"
  shows "win_ok con' q'"
proof (cases "rtxq_size q = 0")
  case True
  then show ?thesis using assms by (auto simp: sender_timeout_con_def win_ok_def)
next
  case False
  obtain rc q1 out1 where r: "rtxq_full_rtx (now_ms E) (dev_queue_xmit E) (Some q) (c_last_acked con + 1) = (rc, Some q1, out1)"
    using rtxq_full_rtx_Some by blast
  then have "q' = q1" "c_window con' = c_window con"
    using assms(2) False by (auto simp: sender_timeout_con_def Let_def split: if_splits)
  with win_ok_rtx [OF assms(1) r] show ?thesis by simp
qed

lemma length_take_drop_While: "length (takeWhile P xs) + length (dropWhile P xs) = length xs"
  by (metis length_append takeWhile_dropWhile_id)

text \<open>What an acknowledgement does, by the case of its number.\<close>

lemma ack_base_simps [simp]:
  "c_window (ack_base E hdr con) = c_window con" "c_last_acked (ack_base E hdr con) = c_last_acked con"
  "c_next_seq (ack_base E hdr con) = c_next_seq con" "c_next_recv (ack_base E hdr con) = c_next_recv con"
  "c_id (ack_base E hdr con) = c_id con" "c_kref (ack_base E hdr con) = c_kref con"
  "c_state (ack_base E hdr con) = c_state con" "c_sending (ack_base E hdr con) = c_sending con"
  "c_dup_acks (ack_base E hdr con) = c_dup_acks con"
  by (simp_all add: ack_base_def Let_def)

definition acked_queue :: "u32 \<Rightarrow> rtxq \<Rightarrow> rtxq" where
  "acked_queue ack q = q\<lparr>rq_queue := (rq_queue q)\<lparr>
     q_head := dropWhile (\<lambda>e. e_seq e < ack) (q_head (rq_queue q)),
     q_len := q_len (rq_queue q) - int (length (takeWhile (\<lambda>e. e_seq e < ack) (q_head (rq_queue q))))\<rparr>\<rparr>"

definition ack_credit :: "u32 \<Rightarrow> rtxq \<Rightarrow> nat" where
  "ack_credit ack q = length (takeWhile (\<lambda>e. e_seq e < ack) (q_head (rq_queue q)))"

lemma rtxq_ack_Some: "rtxq_ack (Some q) ack = (int (ack_credit ack q), Some (acked_queue ack q))"
  by (simp add: rtxq_ack_def rtxqueue_entries_ack_def entries_ack_loop_eq acked_queue_def ack_credit_def)

text \<open>The connection after an acknowledgement of new data.\<close>

definition ack_advance :: "u32 \<Rightarrow> nat \<Rightarrow> bool \<Rightarrow> pepdna_con \<Rightarrow> pepdna_con" where
  "ack_advance ack credit nearly_empty con =
    (let con = con\<lparr>c_dup_acks := 0, c_last_acked := ack - 1\<rparr>;
         con = (if c_state con = RECOVERY then con\<lparr>c_sending := True, c_state := ESTABLISHED\<rparr> else con);
         con = con\<lparr>c_window := c_window con + word_of_nat credit\<rparr>
     in if nearly_empty then minip_update_cwnd con else con)"

definition nearly_empty :: "rtxq \<Rightarrow> bool" where
  "nearly_empty q \<longleftrightarrow> rtxq_size q < ucast (drop_bit 1 WINDOW_SIZE)"

lemma recv_ack_con_new:
  assumes "c_last_acked con < ntohl (h_ack hdr)"
  shows "recv_ack_con E hdr con q =
    (Ack_new, ack_advance (ntohl (h_ack hdr)) (ack_credit (ntohl (h_ack hdr)) q)
        (nearly_empty (acked_queue (ntohl (h_ack hdr)) q)) (ack_base E hdr con),
     acked_queue (ntohl (h_ack hdr)) q, [])"
proof -
  have "\<not> ntohl (h_ack hdr) < c_last_acked con" using assms by simp
  then show ?thesis
    using assms by (simp add: recv_ack_con_def ack_advance_def nearly_empty_def Let_def rtxq_ack_Some)
qed

lemma recv_ack_con_old:
  "ntohl (h_ack hdr) < c_last_acked con \<Longrightarrow> recv_ack_con E hdr con q = (Ack_old, con, q, [])"
  by (simp add: recv_ack_con_def)

lemma recv_ack_con_dup:
  assumes "ntohl (h_ack hdr) = c_last_acked con"
  shows "recv_ack_con E hdr con q =
    (let con = (ack_base E hdr con)\<lparr>c_dup_acks := c_dup_acks con + 1, c_state := RECOVERY, c_sending := False\<rparr>;
         rtx = rtxq_full_rtx (now_ms E) (dev_queue_xmit E) (Some q) (ntohl (h_ack hdr))
     in if c_dup_acks con \<noteq> 1 then (Ack_dup, con, q, [])
        else (if fst rtx < 0 then Ack_failed else Ack_dup, con,
              (case fst (snd rtx) of None \<Rightarrow> q | Some q \<Rightarrow> q), snd (snd rtx)))"
  using assms
  by (simp add: recv_ack_con_def Let_def split_beta)

lemma recv_ack_new:
  assumes "recv_ack_con E hdr con q = (Ack_new, con', q', out)"
  shows "c_last_acked con < ntohl (h_ack hdr)"
    and "con' = ack_advance (ntohl (h_ack hdr)) (ack_credit (ntohl (h_ack hdr)) q) (nearly_empty q')
                  (ack_base E hdr con)"
    and "q' = acked_queue (ntohl (h_ack hdr)) q" and "out = []"
proof -
  show "c_last_acked con < ntohl (h_ack hdr)"
    using assms recv_ack_con_old [of hdr con E q] recv_ack_con_dup [of hdr con E q]
    by (cases "ntohl (h_ack hdr)" "c_last_acked con" rule: linorder_cases)
      (auto simp: Let_def split: if_splits)
  from recv_ack_con_new [OF this, of E q] assms show
    "con' = ack_advance (ntohl (h_ack hdr)) (ack_credit (ntohl (h_ack hdr)) q) (nearly_empty q')
                  (ack_base E hdr con)" "q' = acked_queue (ntohl (h_ack hdr)) q" "out = []"
    by auto
qed

lemma ack_advance_simps [simp]:
  "c_last_acked (ack_advance ack n b con) = ack - 1" "c_next_seq (ack_advance ack n b con) = c_next_seq con"
  "c_id (ack_advance ack n b con) = c_id con" "c_kref (ack_advance ack n b con) = c_kref con"
  "c_dup_acks (ack_advance ack n b con) = 0" "c_next_recv (ack_advance ack n b con) = c_next_recv con"
  by (simp_all add: ack_advance_def minip_update_cwnd_def Let_def)

lemma ack_advance_window:
  "c_window (ack_advance ack n True con) \<le> WINDOW_SIZE"
  "c_window (ack_advance ack n False con) = c_window con + word_of_nat n"
  by (auto simp: ack_advance_def Let_def intro: minip_update_cwnd_window)

lemma recv_ack_cases:
  assumes "recv_ack_con E hdr con q = (r, con', q', out)"
  shows "r = Ack_new \<or> c_window con' = c_window con
     \<and> (q' = q \<and> out = [] \<or> (\<exists>rc. rtxq_full_rtx (now_ms E) (dev_queue_xmit E) (Some q) (c_last_acked con) = (rc, Some q', out)))"
proof (cases "ntohl (h_ack hdr)" "c_last_acked con" rule: linorder_cases)
  case equal
  obtain rc q1 out1 where rtx:
    "rtxq_full_rtx (now_ms E) (dev_queue_xmit E) (Some q) (c_last_acked con) = (rc, Some q1, out1)"
    using rtxq_full_rtx_Some by blast
  show ?thesis
    using assms rtx equal unfolding recv_ack_con_dup [OF equal] Let_def by (auto split: if_splits)
qed (use assms in \<open>simp_all add: recv_ack_con_old recv_ack_con_new\<close>)

lemma unat_word_of_nat_8: "n < 256 \<Longrightarrow> unat (word_of_nat n :: u8) = n"
  by (simp add: unat_of_nat)

lemma win_ok_ack:
  assumes ok: "win_ok con q" and r: "recv_ack_con E hdr con q = (r, con', q', out)"
  shows "win_ok con' q'"
proof (cases "r = Ack_new")
  case False
  then show ?thesis
    using recv_ack_cases [OF r] ok win_ok_rtx [OF ok] by (auto simp: win_ok_def)
next
  case True
  let ?n = "ack_credit (ntohl (h_ack hdr)) q" and ?len = "\<lambda>q. length (q_head (rq_queue q))"
  note new = recv_ack_new [OF r [unfolded True]]
  have len: "?n + ?len q' = ?len q"
    using length_take_drop_While [of "\<lambda>e. e_seq e < ntohl (h_ack hdr)" "q_head (rq_queue q)"]
    by (simp add: new(3) acked_queue_def ack_credit_def)
  have qlen: "q_len (rq_queue q') = int (?len q')"
    using ok len by (simp add: new(3) acked_queue_def win_ok_def ack_credit_def)
  have sum: "unat (c_window con) + ?len q \<le> 17" using ok by (simp add: win_ok_def)
  have half: "nearly_empty q' \<longleftrightarrow> ?len q' < 6"
    using qlen sum len
    by (simp add: nearly_empty_def rtxq_size_def unat_of_nat WINDOW_SIZE_def word_less_nat_alt)
  show ?thesis
  proof (cases "nearly_empty q'")
    case True
    then have "c_window con' \<le> WINDOW_SIZE" unfolding new(2) by (simp add: ack_advance_window)
    with True half qlen show ?thesis by (simp add: win_ok_def WINDOW_SIZE_def word_le_nat_alt)
  next
    case False
    then have "c_window con' = c_window con + word_of_nat ?n"
      unfolding new(2) by (simp add: ack_advance_window)
    then have "unat (c_window con') = unat (c_window con) + ?n"
      using sum len by (simp add: unat_word_ariths unat_word_of_nat_8)
    with False half qlen len sum show ?thesis
      by (simp add: win_ok_def WINDOW_SIZE_def word_le_nat_alt)
  qed
qed

text \<open>
  A run of the sender: data read from the socket, acknowledgements (any header at all) and
  timeouts, in any order, each with the kernel services of its moment. Memory may run out at any
  point; only the device takes every data frame it is given.
\<close>

inductive sender_step :: "pepdna_con \<times> rtxq \<Rightarrow> pepdna_con \<times> rtxq \<Rightarrow> bool" where
  send: "\<forall>s. 0 \<le> dev_queue_xmit E s \<Longrightarrow> recv_law (MINIP_MSS * unat (c_window con)) (recv (MINIP_MSS * unat (c_window con))) \<Longrightarrow>
     pepdna_con_i2minip_fwd E mac recv con q = (rc, con', q', out) \<Longrightarrow> sender_step (con, q) (con', q')"
| ack: "recv_ack_con E hdr con q = (r, con', q', out) \<Longrightarrow> sender_step (con, q) (con', q')"
| timeout: "sender_timeout_con E con q = (fl, con', q', out) \<Longrightarrow> sender_step (con, q) (con', q')"

lemma sender_step_win_ok: "sender_step s t \<Longrightarrow> win_ok (fst s) (snd s) \<Longrightarrow> win_ok (fst t) (snd t)"
  by (induction rule: sender_step.induct) (auto intro: win_ok_send win_ok_ack win_ok_timeout)

lemma sender_steps_win_ok: "sender_step\<^sup>*\<^sup>* s t \<Longrightarrow> win_ok (fst s) (snd s) \<Longrightarrow> win_ok (fst t) (snd t)"
  by (induction rule: rtranclp_induct) (auto intro: sender_step_win_ok)

lemma after_send_window: "unat (c_window (after_send con n)) = unat (c_window con) - n"
proof -
  define v :: u8 where "v = word_of_nat (unat (c_window con) - n)"
  have "unat (c_window con) - n < 256"
    using unsigned_less [of "c_window con", where ?'a = nat] by simp
  then have "unat v = unat (c_window con) - n" unfolding v_def by (rule unat_word_of_nat_8)
  then show ?thesis by (simp add: after_send_def v_def [symmetric])
qed

lemma after_send_simps [simp]:
  "c_next_seq (after_send con n) = c_next_seq con + of_nat n" "c_id (after_send con n) = c_id con"
  "c_timer (after_send con n) = c_timer con" "c_last_acked (after_send con n) = c_last_acked con"
  "c_dup_acks (after_send con n) = c_dup_acks con" "c_sending (after_send con n) = c_sending con"
  "c_state (after_send con n) = c_state con" "c_next_recv (after_send con n) = c_next_recv con"
  by (simp_all add: after_send_def)

subsection \<open>Segmentation\<close>

text \<open>
  C19. When the kernel services succeed, forwarding bytes read from the socket over MINIP
  cuts them into packets of at most \<open>MINIP_MSS\<close> bytes whose payloads concatenate to
  exactly those bytes; packet number i carries the sequence number \<open>next_seq + i\<close> and the
  identifier of the connection, a copy of each packet enters the retransmission queue in
  order, the window shrinks by the number of packets and never needs more than it had.
\<close>

theorem i2minip_fwd_segments:
  assumes "healthy E" "can_send con" "0 < read"
    and "recv (MINIP_MSS * unat (c_window con)) = (read, buff)"
    and "recv_law (MINIP_MSS * unat (c_window con)) (read, buff)"
  shows "\<exists>con' q' out. pepdna_con_i2minip_fwd E mac recv con q = (read, con', q', out)
     \<and> concat (map f_data out) = buff
     \<and> (\<forall>i < length out. skb_seq_get (out ! i) = c_next_seq con + of_nat i
          \<and> ntohl (h_id (f_hdr (out ! i))) = c_id con
          \<and> unat (h_sdu_len (f_hdr (out ! i))) = length (f_data (out ! i))
          \<and> 0 < length (f_data (out ! i)) \<and> length (f_data (out ! i)) \<le> MINIP_MSS)
     \<and> map e_skb (q_head (rq_queue q')) = map e_skb (q_head (rq_queue q)) @ out
     \<and> c_next_seq con' = c_next_seq con + of_nat (length out)
     \<and> unat (c_window con') + length out = unat (c_window con)"
proof -
  let ?bs = "segs buff"
  let ?out = "seg_frames E con mac (c_next_seq con) ?bs"
  have law: "read = int (length buff)" "length ?bs \<le> unat (c_window con)"
    using assms(3,5) by (auto simp: recv_law_def intro: length_segs)
  have run: "pepdna_con_i2minip_fwd E mac recv con q =
      (read, after_send con (length ?bs), push_all q ?out, ?out)"
    using i2minip_fwd_healthy assms law(1) by blast
  have win: "unat (c_window (after_send con (length ?bs))) + length ?out = unat (c_window con)"
    using law(2) by (simp add: after_send_window)
  have seg: "length (?bs ! i) \<le> MINIP_MSS \<and> ?bs ! i \<noteq> []" if "i < length ?bs" for i
    using segs_short [of buff] that by auto
  have frame: "skb_seq_get (?out ! i) = c_next_seq con + of_nat i
      \<and> ntohl (h_id (f_hdr (?out ! i))) = c_id con
      \<and> unat (h_sdu_len (f_hdr (?out ! i))) = length (f_data (?out ! i))
      \<and> 0 < length (f_data (?out ! i)) \<and> length (f_data (?out ! i)) \<le> MINIP_MSS"
    if "i < length ?out" for i
    using that seg [of i] by (simp add: seg_frames_nth unat_of_nat MINIP_MSS_def)
  have "concat (map f_data ?out) = buff" by (simp add: seg_frames_data concat_segs)
  moreover have "map e_skb (q_head (rq_queue (push_all q ?out))) = map e_skb (q_head (rq_queue q)) @ ?out"
    by (simp add: push_all_def comp_def)
  ultimately show ?thesis
    using run win frame by simp
qed

text \<open>The connection after a completed handshake, with an empty queue.\<close>

definition est_con :: pepdna_con where
  "est_con = zero_con\<lparr>c_kref := 1, c_id := 42, c_next_seq := 10, c_last_acked := 10,
     c_next_recv := 10, c_window := 12, c_sending := True, c_state := ESTABLISHED,
     c_rto := 3000, c_lflag := True, c_rflag := True, c_lsock := Some 1\<rparr>"

definition empty_rtxq :: rtxq where
  "empty_rtxq = \<lparr>rq_queue = \<lparr>q_len = 0, q_head = []\<rparr>\<rparr>"

lemma healthy_sample: "healthy sample_env"
  by (simp add: healthy_def sample_env_def)

lemma est_con_simps [simp]:
  "c_next_seq est_con = 10" "c_last_acked est_con = 10" "c_window est_con = 12"
  "c_sending est_con" "c_id est_con = 42" "c_state est_con = ESTABLISHED" "c_next_recv est_con = 10"
  "c_timer est_con = None" "c_dup_acks est_con = 0" "c_lsock est_con = Some 1"
  by (simp_all add: est_con_def zero_con_def)

theorem i2minip_fwd_segments_witness:
  "\<exists>con' q' out. pepdna_con_i2minip_fwd sample_env [1] (\<lambda>_. (3, [7, 8, 9])) est_con empty_rtxq
      = (3, con', q', out) \<and> concat (map f_data out) = [7, 8, 9]"
proof -
  have "can_send est_con" by (simp add: can_send_def)
  then show ?thesis
    using i2minip_fwd_segments [OF healthy_sample, of est_con 3 "\<lambda>_. (3, [7, 8, 9])" "[7, 8, 9]" "[1]"
        empty_rtxq]
    by (auto simp: recv_law_def MINIP_MSS_def)
qed

subsection \<open>The window\<close>

text \<open>
  C20. As long as the device takes the data frames it is given, and whatever the socket, the memory
  allocator, the network and the clock do, a connection that starts with an empty queue never has a
  window above \<open>WINDOW_SIZE\<close>, and the window together with the number of unacknowledged packets
  never exceeds 17. (A refused frame stays in the queue without having cost a place in the window.)
\<close>

theorem sender_window_bounded:
  assumes "sender_step\<^sup>*\<^sup>* (con, q) (con', q')"
    and "q_head (rq_queue q) = []" "q_len (rq_queue q) = 0" "c_window con \<le> WINDOW_SIZE"
  shows "c_window con' \<le> WINDOW_SIZE
     \<and> unat (c_window con') + length (q_head (rq_queue q')) \<le> 17
     \<and> unat (rtxq_size q') = length (q_head (rq_queue q'))"
proof -
  have "win_ok con q"
    using assms(2-4) by (simp add: win_ok_def WINDOW_SIZE_def word_le_nat_alt)
  then have "win_ok con' q'" using sender_steps_win_ok [OF assms(1)] by simp
  then show ?thesis using win_ok_size by (simp add: win_ok_def)
qed

theorem sender_window_bounded_witness:
  "\<exists>con' q'. sender_step (est_con, empty_rtxq) (con', q')
     \<and> length (q_head (rq_queue q')) = 1 \<and> c_window con' \<le> WINDOW_SIZE"
proof -
  have can: "can_send est_con" by (simp add: can_send_def)
  let ?recv = "\<lambda>_. (3, [7, 8, 9])"
  have segs: "segs [7, 8, 9 :: u8] = [[7, 8, 9]]" by (simp add: segs_Cons MINIP_MSS_def)
  let ?con = "after_send est_con 1"
  let ?q = "push_all empty_rtxq (seg_frames sample_env est_con [1] 10 [[7, 8, 9]])"
  have run: "pepdna_con_i2minip_fwd sample_env [1] ?recv est_con empty_rtxq
      = (3, ?con, ?q, seg_frames sample_env est_con [1] 10 [[7, 8, 9]])"
    by (subst i2minip_fwd_healthy [OF healthy_sample can, of ?recv 3 "[7, 8, 9]"])
      (simp_all only: segs est_con_simps, simp_all)
  have len: "length (q_head (rq_queue ?q)) = 1"
    by (simp only: push_all_def empty_rtxq_def) simp
  have step: "sender_step (est_con, empty_rtxq) (?con, ?q)"
    by (rule sender_step.send [OF _ _ run]) (simp_all add: recv_law_def MINIP_MSS_def sample_env_def)
  then have "sender_step\<^sup>*\<^sup>* (est_con, empty_rtxq) (?con, ?q)" by (rule r_into_rtranclp)
  then have "c_window ?con \<le> WINDOW_SIZE"
    by (rule sender_window_bounded [THEN conjunct1]) (simp_all add: empty_rtxq_def WINDOW_SIZE_def)
  with step len show ?thesis by blast
qed

subsection \<open>The retransmission timeout\<close>

text \<open>
  The estimator keeps eight times the smoothed round-trip time and four times its deviation.
  While every sample is at most B milliseconds, both stay in range.
\<close>

definition rtt_ok :: "int \<Rightarrow> pepdna_con \<Rightarrow> bool" where
  "rtt_ok B con \<longleftrightarrow> uint (c_srtt con) \<le> 8 * B \<and> uint (c_rttvar con) \<le> 4 * B"

lemma uint_word_of_int_32: "0 \<le> i \<Longrightarrow> i < 2 ^ 32 \<Longrightarrow> uint (word_of_int i :: u32) = i"
  by (simp add: uint_word_of_int)

lemma div_le_dividend_8: "s \<le> 8 * B \<Longrightarrow> s div 8 \<le> B" for s B :: int
  by presburger

lemma srtt_step:
  fixes s m B :: int
  assumes "0 \<le> m" "m \<le> B" "0 \<le> s" "s \<le> 8 * B"
  shows "0 \<le> s + (m - s div 8)" "s + (m - s div 8) \<le> 8 * B"
  using assms by presburger+

lemma rttvar_step:
  fixes v d B :: int
  assumes "0 \<le> d" "d \<le> B" "0 \<le> v" "v \<le> 4 * B"
  shows "0 \<le> v + (d - v div 4)" "v + (d - v div 4) \<le> 4 * B"
  using assms by presburger+

lemma minip_update_rto_eq:
  assumes ok: "rtt_ok B con" and B: "uint r \<le> B" "B \<le> 2 ^ 28"
  defines "con' \<equiv> minip_update_rto con r"
  defines "e \<equiv> uint r - uint (c_srtt con) div 8"
  shows "c_srtt con \<noteq> 0 \<Longrightarrow> uint (c_srtt con') = uint (c_srtt con) + e"
    and "c_srtt con \<noteq> 0 \<Longrightarrow> uint (c_rttvar con') = uint (c_rttvar con) + (\<bar>e\<bar> - uint (c_rttvar con) div 4)"
    and "c_srtt con = 0 \<Longrightarrow> uint (c_srtt con') = 8 * uint r"
    and "c_srtt con = 0 \<Longrightarrow> uint (c_rttvar con') = 2 * uint r"
    and "c_rto con' = drop_bit 3 (c_srtt con') + c_rttvar con'"
proof -
  have "0 \<le> uint (c_srtt con) div 8" "uint (c_srtt con) div 8 \<le> B" "0 \<le> uint r"
    using ok div_le_dividend_8 [of "uint (c_srtt con)" B] unfolding rtt_ok_def
    by (simp_all add: pos_imp_zdiv_nonneg_iff)
  then have e: "0 \<le> \<bar>e\<bar>" "\<bar>e\<bar> \<le> B"
    using B unfolding e_def by linarith+
  have s: "0 \<le> uint (c_srtt con) + e" "uint (c_srtt con) + e < 2 ^ 32"
    using srtt_step [of "uint r" B "uint (c_srtt con)"] ok B by (auto simp: e_def rtt_ok_def)
  have v: "0 \<le> uint (c_rttvar con) + (\<bar>e\<bar> - uint (c_rttvar con) div 4)"
    "uint (c_rttvar con) + (\<bar>e\<bar> - uint (c_rttvar con) div 4) < 2 ^ 32"
    using rttvar_step [OF e, of "uint (c_rttvar con)"] ok B by (auto simp: rtt_ok_def)
  have div: "uint (drop_bit 3 (c_srtt con)) = uint (c_srtt con) div 8"
    "uint (drop_bit 2 (c_rttvar con)) = uint (c_rttvar con) div 4"
    by (simp_all add: drop_bit_eq_div uint_div)
  have abs: "(if e < 0 then - e else e) = \<bar>e\<bar>" by simp
  show "c_srtt con \<noteq> 0 \<Longrightarrow> uint (c_srtt con') = uint (c_srtt con) + e"
    using uint_word_of_int_32 [OF s] unfolding con'_def minip_update_rto_def
    by (simp only: Let_def div e_def [symmetric]) simp
  show "c_srtt con \<noteq> 0 \<Longrightarrow> uint (c_rttvar con') = uint (c_rttvar con) + (\<bar>e\<bar> - uint (c_rttvar con) div 4)"
    using uint_word_of_int_32 [OF v] unfolding con'_def minip_update_rto_def
    by (simp only: Let_def div e_def [symmetric] abs) simp
  show "c_srtt con = 0 \<Longrightarrow> uint (c_srtt con') = 8 * uint r"
    using uint_word_of_int_32 [of "uint r * 8"] B by (simp add: con'_def minip_update_rto_def Let_def)
  show "c_srtt con = 0 \<Longrightarrow> uint (c_rttvar con') = 2 * uint r"
    using uint_word_of_int_32 [of "uint r * 2"] B by (simp add: con'_def minip_update_rto_def Let_def)
  show "c_rto con' = drop_bit 3 (c_srtt con') + c_rttvar con'"
    by (simp add: con'_def minip_update_rto_def Let_def)
qed

text \<open>
  C32. The round-trip estimator has no overflow: as long as every sample is at most B
  milliseconds (B up to 2 to the 28, more than three days), the scaled mean stays below
  8 B, the scaled deviation below 4 B and the timeout below 5 B, all without wrapping; and the
  timeout is the smoothed mean plus the scaled deviation.
\<close>

theorem minip_update_rto_bounded:
  assumes "uint (c_srtt con) \<le> 8 * B" "uint (c_rttvar con) \<le> 4 * B"
    and "uint rtt \<le> B" "B \<le> 2 ^ 28"
  shows "uint (c_srtt (minip_update_rto con rtt)) \<le> 8 * B
     \<and> uint (c_rttvar (minip_update_rto con rtt)) \<le> 4 * B
     \<and> uint (c_rto (minip_update_rto con rtt)) \<le> 5 * B
     \<and> uint (c_rto (minip_update_rto con rtt)) =
         uint (c_srtt (minip_update_rto con rtt)) div 8 + uint (c_rttvar (minip_update_rto con rtt))"
proof -
  let ?c = "minip_update_rto con rtt"
  have ok: "rtt_ok B con" using assms by (simp add: rtt_ok_def)
  note eq = minip_update_rto_eq [OF ok assms(3,4)]
  have srtt: "uint (c_srtt ?c) \<le> 8 * B"
    using eq(1,3) srtt_step [of "uint rtt" B "uint (c_srtt con)"] assms
    by (cases "c_srtt con = 0") auto
  have "0 \<le> uint (c_srtt con) div 8" "uint (c_srtt con) div 8 \<le> B" "0 \<le> uint rtt"
    using assms(1) div_le_dividend_8 by (simp_all add: pos_imp_zdiv_nonneg_iff)
  then have e: "0 \<le> \<bar>uint rtt - uint (c_srtt con) div 8\<bar>" "\<bar>uint rtt - uint (c_srtt con) div 8\<bar> \<le> B"
    using assms(3) by linarith+
  have var: "uint (c_rttvar ?c) \<le> 4 * B"
    using eq(2,4) rttvar_step(2) [OF e uint_ge_0 assms(2)] assms(3) \<open>0 \<le> uint rtt\<close>
    by (cases "c_srtt con = 0") linarith+
  have "uint (drop_bit 3 (c_srtt ?c)) = uint (c_srtt ?c) div 8"
    by (simp add: drop_bit_eq_div uint_div)
  moreover have "0 \<le> uint (c_srtt ?c) div 8 + uint (c_rttvar ?c)"
    by (simp add: pos_imp_zdiv_nonneg_iff)
  moreover have sum: "uint (c_srtt ?c) div 8 + uint (c_rttvar ?c) \<le> 5 * B"
    using div_le_dividend_8 [OF srtt] var by linarith
  ultimately have "uint (c_rto ?c) = uint (c_srtt ?c) div 8 + uint (c_rttvar ?c)"
    using eq(5) assms(4) by (simp add: uint_word_ariths)
  with sum have "uint (c_rto ?c) = uint (c_srtt ?c) div 8 + uint (c_rttvar ?c)"
    "uint (c_rto ?c) \<le> 5 * B" by simp_all
  with srtt var show ?thesis by blast
qed

theorem minip_update_rto_bounded_witness:
  "uint (c_rto (minip_update_rto (est_con\<lparr>c_srtt := 800, c_rttvar := 200\<rparr>) 200)) \<le> 1000
   \<and> c_rto (minip_update_rto (est_con\<lparr>c_srtt := 800, c_rttvar := 200\<rparr>) 200) = 362"
proof -
  let ?con = "est_con\<lparr>c_srtt := 800, c_rttvar := 200\<rparr>"
  have "uint (c_rto (minip_update_rto ?con 200)) \<le> 5 * 200"
    using minip_update_rto_bounded [of ?con 200 200] by simp
  then show ?thesis by (simp add: minip_update_rto_def Let_def drop_bit_eq_div)
qed

subsection \<open>Duplicate acknowledgements\<close>

text \<open>
  Once an acknowledgement of new data was processed, the same acknowledgement arriving
  again (with any time stamp, at any time) counts as one of new data again: nothing is sent
  again, and the duplicate counter stays 0. So a duplicate acknowledgement never
  triggers the retransmission that the code has for it.
\<close>

lemma duplicate_ack_unnoticed:
  assumes "recv_ack_con E hdr con q = (Ack_new, con', q', out)"
    and "h_ack hdr' = h_ack hdr"
  shows "\<exists>con'' q''. recv_ack_con E' hdr' con' q' = (Ack_new, con'', q'', [])
     \<and> c_dup_acks con'' = 0 \<and> c_last_acked con'' = c_last_acked con'"
proof -
  have new: "c_last_acked con' = ntohl (h_ack hdr) - 1" "c_last_acked con < ntohl (h_ack hdr)"
    using recv_ack_new [OF assms(1)] by simp_all
  then have "ntohl (h_ack hdr) \<noteq> 0" by auto
  then have "c_last_acked con' < ntohl (h_ack hdr')"
    using new assms(2) by (simp add: word_less_nat_alt unat_minus_one unat_gt_0)
  then show ?thesis
    using new assms(2) recv_ack_con_new [of con' hdr' E' q'] by simp
qed

definition ack_hdr :: "u32 \<Rightarrow> minip_hdr" where
  "ack_hdr a = \<lparr>h_pkt_type = 6, h_sdu_len = 0, h_id = htonl 42, h_seq = 0, h_ack = htonl a, h_ts = 0\<rparr>"

lemma ack_hdr_simps [simp]: "h_ack (ack_hdr a) = htonl a" "h_ts (ack_hdr a) = 0"
  by (simp_all add: ack_hdr_def)

subsection \<open>The first packet\<close>

lemma snd_data_loop_timer:
  "snd_data_loop E mac con q left sent = (r, con', q', out) \<Longrightarrow> c_timer con' = c_timer con"
proof (induction E mac con q left sent arbitrary: r con' q' out rule: snd_data_loop.induct)
  case (1 E mac con q left sent)
  have timer: "c_timer (next_segment con) = c_timer con" by (simp add: next_segment_def Let_def)
  let ?n = "min (length left) MINIP_MSS"
  obtain rc q1 out1 where send: "pepdna_minip_skb_send E mac con q (take ?n left) = (rc, q1, out1)"
    by (rule prod_cases3)
  obtain r2 con2 q2 out2 where
    rec: "snd_data_loop E mac (next_segment con) q1 (drop ?n left) (sent + ?n) = (r2, con2, q2, out2)"
    by (rule prod_cases4)
  show ?case
  proof (cases "left = [] \<or> rc < 0")
    case True
    then show ?thesis
      using 1(2) send by (auto simp: snd_data_loop.simps [of _ _ _ _ left] Let_def split: if_splits)
  next
    case False
    then have "con' = con2"
      using 1(2) send rec by (simp add: snd_data_loop.simps [of _ _ _ _ left] Let_def)
    moreover have "c_timer con2 = c_timer (next_segment con)"
      using 1(1) [OF _ refl send [symmetric] refl _ rec] False by simp
    ultimately show ?thesis using timer by simp
  qed
qed

text \<open>
  The handshake leaves \<open>last_acked\<close> at the sequence number of the first data packet.
  From there, a timeout retransmits from the second data packet on, never the first; and no
  transmission arms the timer, only an acknowledgement or a timeout does. So a first packet that
  is lost together with all that follow it is never sent again.
\<close>

lemma first_packet_not_retransmitted:
  assumes "c_last_acked con = MINIP_FIRST_SEQ + 1"
  shows "(\<forall>skb\<in>set (snd (snd (snd (sender_timeout_con E con q)))). skb_seq_get skb \<noteq> MINIP_FIRST_SEQ + 1)
     \<and> c_timer (fst (snd (pepdna_con_i2minip_fwd E' mac recv con q'))) = c_timer con"
proof -
  have loop: "entries_rtx_loop n xmit a es = (rc, es', out) \<Longrightarrow> \<forall>skb\<in>set out. a \<le> skb_seq_get skb"
    for n xmit a es rc es' out
    by (induction es arbitrary: rc es' out)
      (auto simp: rtxq_entry_rtx_eq split: if_splits prod.splits)
  have "c_last_acked con + 1 = 11" using assms by (simp add: MINIP_FIRST_SEQ_def)
  then have "\<forall>skb\<in>set (snd (snd (snd (sender_timeout_con E con q)))). 11 \<le> skb_seq_get skb"
    using loop [of "now_ms E" "dev_queue_xmit E" 11 "q_head (rq_queue q)"]
    by (auto simp: sender_timeout_con_def rtxq_full_rtx_def rtxqueue_entries_rtx_def Let_def
        split: prod.splits)
  moreover have "\<not> (11::u32) \<le> 10" by simp
  ultimately have "\<forall>skb\<in>set (snd (snd (snd (sender_timeout_con E con q)))). skb_seq_get skb \<noteq> 10"
    by metis
  moreover have "c_timer (fst (snd (pepdna_con_i2minip_fwd E' mac recv con q'))) = c_timer con"
    by (auto simp: pepdna_con_i2minip_fwd_def pepdna_minip_conn_snd_data_def Let_def
        split: prod.splits dest: snd_data_loop_timer)
  ultimately show ?thesis by (simp add: MINIP_FIRST_SEQ_def)
qed

end
