(* ===== verification/Pep_Minip_Recv.thy ===== *)
theory Pep_Minip_Recv
  imports Pep_Minip_Flow
begin

section \<open>MINIP: handlers (minip.c, server.c)\<close>

text \<open>
  The operations of MINIP on the whole state: the timer function, the handshake, one
  handler per packet type, the dispatcher, and the work items that forward data. They find the
  connection by the identifier of the packet, run the operations of \<open>Pep_Minip\<close> on it and
  carry out the teardown. The socket's answers to writes are the argument \<open>rs\<close>; a handler
  whose write still waits has the result \<open>None\<close>.
\<close>

subsection \<open>Access to the connection\<close>

text \<open>\<open>con->server->to_mac\<close>, and the fault of a retransmission queue that is not there.\<close>

definition to_mac :: "world \<Rightarrow> bytes" where
  "to_mac w = (case g_srv w of Live srv \<Rightarrow> s_to_mac srv | _ \<Rightarrow> [])"

definition rtxq_fault :: "nat \<Rightarrow> 'a ptr \<Rightarrow> fault" where
  "rtxq_fault a p = (case p of Null \<Rightarrow> NullDeref | _ \<Rightarrow> UseAfterFree a)"

definition emit :: "sk_buff list \<Rightarrow> world \<Rightarrow> world" where
  "emit out w = w\<lparr>g_out := g_out w @ out\<rparr>"

text \<open>A flow that cannot go on: a \<open>MINIP_CONN_DELETE\<close> is sent and the connection closed.\<close>

definition delete_and_close :: "kenv \<Rightarrow> nat \<Rightarrow> u32 \<Rightarrow> world \<Rightarrow> world" where
  "delete_and_close E a cid w =
     pepdna_con_close E (Some a) (snd (pepdna_minip_conn_delete E cid (to_mac w) w))"

subsection \<open>Timer and handshake\<close>

definition minip_sender_timeout :: "kenv \<Rightarrow> nat \<Rightarrow> world \<Rightarrow> world" where
  "minip_sender_timeout E a w =
    (case g_cons w a of None \<Rightarrow> add_fault (UseAfterFree a) w
     | Some con \<Rightarrow>
        (case c_rtxq con of
           Live q \<Rightarrow>
             (case sender_timeout_con E con q of
                (failed, con', q', out) \<Rightarrow>
                  (let w = emit out (upd_con a (\<lambda>_. con'\<lparr>c_rtxq := Live q'\<rparr>) w)
                   in if failed then delete_and_close E a (c_id con') w else w))
         | p \<Rightarrow> add_fault (rtxq_fault a p) w))"

text \<open>
  After a failed request the connection is closed, and the code then goes on to write
  into it.
\<close>

definition pepdna_minip_handshake :: "kenv \<Rightarrow> bytes \<Rightarrow> nat \<Rightarrow> world \<Rightarrow> world" where
  "pepdna_minip_handshake E pad a w =
    (case g_cons w a of None \<Rightarrow> add_fault (UseAfterFree a) w
     | Some con \<Rightarrow>
        (let (rc, w) = pepdna_minip_conn_request E pad (c_tuple con) (c_id con) (to_mac w) w;
             w = (if rc < 0 then pepdna_con_close E (Some a) w else w)
         in upd_con a (\<lambda>c. c\<lparr>c_state := REQUEST_SENT, c_next_seq := c_next_seq c + 1\<rparr>) w))"

subsection \<open>Packet handlers\<close>

definition pepdna_minip_recv_finished :: "kenv \<Rightarrow> minip_hdr \<Rightarrow> world \<Rightarrow> int \<times> world" where
  "pepdna_minip_recv_finished E hdr w =
    (case pepdna_con_find E (ntohl (h_id hdr)) w of None \<Rightarrow> (-1, w)
     | Some a \<Rightarrow> (0, pepdna_con_close E (Some a) (upd_con a (\<lambda>c. c\<lparr>c_rflag := False\<rparr>) w)))"

definition pepdna_minip_recv_delete :: "kenv \<Rightarrow> minip_hdr \<Rightarrow> world \<Rightarrow> int \<times> world" where
  "pepdna_minip_recv_delete E hdr w =
    (case pepdna_con_find E (ntohl (h_id hdr)) w of None \<Rightarrow> (-1, w)
     | Some a \<Rightarrow>
        (let cid = (case g_cons w a of None \<Rightarrow> 0 | Some con \<Rightarrow> c_id con);
             w = snd (pepdna_minip_conn_finished E cid (to_mac w) w)
         in (0, pepdna_con_close E (Some a) (upd_con a (\<lambda>c. c\<lparr>c_rflag := False\<rparr>) w))))"

text \<open>Which acknowledgements touch the retransmission queue.\<close>

definition ack_uses_rtxq :: "pepdna_con \<Rightarrow> minip_hdr \<Rightarrow> bool" where
  "ack_uses_rtxq con hdr \<longleftrightarrow>
     c_last_acked con < ntohl (h_ack hdr)
     \<or> c_last_acked con = ntohl (h_ack hdr) \<and> c_dup_acks con + 1 = 1"

text \<open>
  After new data was acknowledged the socket is woken up to send more; a failed
  retransmission ends the connection.
\<close>

definition after_ack :: "kenv \<Rightarrow> nat \<Rightarrow> ack_outcome \<Rightarrow> pepdna_con \<Rightarrow> world \<Rightarrow> world" where
  "after_ack E a r con w =
    (case r of
       Ack_new \<Rightarrow>
         (case c_lsock con of None \<Rightarrow> add_fault NullDeref w | Some s \<Rightarrow> sk_data_ready s w)
     | Ack_failed \<Rightarrow> delete_and_close E a (c_id con) w
     | _ \<Rightarrow> w)"

definition pepdna_minip_recv_ack :: "kenv \<Rightarrow> minip_hdr \<Rightarrow> world \<Rightarrow> int \<times> world" where
  "pepdna_minip_recv_ack E hdr w =
    (case pepdna_con_find E (ntohl (h_id hdr)) w of None \<Rightarrow> (-1, w)
     | Some a \<Rightarrow>
       (case g_cons w a of None \<Rightarrow> (0, add_fault (UseAfterFree a) w)
        | Some con \<Rightarrow>
          (let q = (case c_rtxq con of Live q \<Rightarrow> q | _ \<Rightarrow> empty_rtxq);
               live = (case c_rtxq con of Live _ \<Rightarrow> True | _ \<Rightarrow> False)
           in if \<not> live \<and> ack_uses_rtxq con hdr then (0, add_fault (rtxq_fault a (c_rtxq con)) w)
              else
                (case recv_ack_con E hdr con q of
                   (r, con', q', out) \<Rightarrow>
                     (let con' = (if live then con'\<lparr>c_rtxq := Live q'\<rparr> else con');
                          w = emit out (upd_con a (\<lambda>_. con') w)
                      in (0, after_ack E a r con' w))))))"

text \<open>
  Forwarding one packet to the socket. The length comes from the header and is not compared
  with the size of the packet. An acknowledgement of the next expected packet is sent in
  every case.
\<close>

definition pepdna_con_minip2i_fwd ::
    "kenv \<Rightarrow> send_result list \<Rightarrow> nat \<Rightarrow> sk_buff \<Rightarrow> world \<Rightarrow> int option \<times> world" where
  "pepdna_con_minip2i_fwd E rs a skb w =
    (case g_cons w a of None \<Rightarrow> (None, add_fault (UseAfterFree a) w)
     | Some con \<Rightarrow>
        (let hdr = f_hdr skb;
             read = unat (h_sdu_len hdr);
             send_ack = (\<lambda>next w. snd (pepdna_minip_send_ack E (c_id con) next (to_mac w) (h_ts hdr) w))
         in if ntohl (h_seq hdr) = c_next_recv con then
              (case c_lsock con of None \<Rightarrow> (None, add_fault NullDeref w)
               | Some s \<Rightarrow>
                  (let w = (if length (f_data skb) < read then add_fault OverRead w else w)
                   in case pepdna_sock_write rs s (take read (f_data skb)) w of
                        (None, w) \<Rightarrow> (None, w)
                      | (Some sent, w) \<Rightarrow>
                          (if sent < 0 then (Some (-1), send_ack (c_next_recv con) w)
                           else (Some (int read),
                                 send_ack (c_next_recv con + 1)
                                   (upd_con a (\<lambda>c. c\<lparr>c_next_recv := c_next_recv c + 1\<rparr>) w)))))
            else (Some (- EAGAIN), send_ack (c_next_recv con) w)))"

definition pepdna_minip_recv_data ::
    "kenv \<Rightarrow> send_result list \<Rightarrow> minip_hdr \<Rightarrow> sk_buff \<Rightarrow> world \<Rightarrow> int option \<times> world" where
  "pepdna_minip_recv_data E rs hdr skb w =
    (case pepdna_con_find E (ntohl (h_id hdr)) w of None \<Rightarrow> (Some (-1), w)
     | Some a \<Rightarrow>
        (case pepdna_con_minip2i_fwd E rs a skb w of
           (None, w) \<Rightarrow> (None, w)
         | (Some rc, w) \<Rightarrow>
             (if rc \<le> 0 \<and> rc \<noteq> - EAGAIN then
                (case g_cons w a of None \<Rightarrow> (Some 0, add_fault (UseAfterFree a) w)
                 | Some con \<Rightarrow> (Some 0, delete_and_close E a (c_id con) w))
              else (Some 0, w))))"

definition pepdna_minip_recv_response :: "kenv \<Rightarrow> minip_hdr \<Rightarrow> world \<Rightarrow> int \<times> world" where
  "pepdna_minip_recv_response E hdr w =
    (case pepdna_con_find E (ntohl (h_id hdr)) w of None \<Rightarrow> (-1, w)
     | Some a \<Rightarrow>
        (0, reinject_syn E a
              (upd_con a (\<lambda>c. c\<lparr>c_rflag := True, c_last_acked := c_last_acked c + 1,
                               c_state := ESTABLISHED, c_next_recv := c_next_recv c + 1\<rparr>) w)))"

text \<open>A request shorter than the tuple is read past its end.\<close>

definition pepdna_minip_recv_request :: "kenv \<Rightarrow> sk_buff \<Rightarrow> world \<Rightarrow> int \<times> world" where
  "pepdna_minip_recv_request E skb w =
    (case syn_of_bytes (f_data skb) of None \<Rightarrow> (-1, add_fault OverRead w)
     | Some syn \<Rightarrow>
        (case pepdna_con_alloc E syn None
                (pepdna_hash32_rjenkins1_2 (t_saddr syn) (t_source syn)) 0 0 w of
           (None, w) \<Rightarrow> (-1, w)
         | (Some _, w) \<Rightarrow> (0, w)))"

definition pepdna_minip_recv_packet ::
    "kenv \<Rightarrow> send_result list \<Rightarrow> nat \<Rightarrow> world \<Rightarrow> int option \<times> world" where
  "pepdna_minip_recv_packet E rs p w =
    (case g_skbs w p of None \<Rightarrow> (None, add_fault (UseAfterFree p) w)
     | Some skb \<Rightarrow>
        (let hdr = f_hdr skb
         in case (case pkt_of (h_pkt_type hdr) of
                    Some MINIP_CONN_REQUEST \<Rightarrow> map_prod Some id (pepdna_minip_recv_request E skb w)
                  | Some MINIP_CONN_RESPONSE \<Rightarrow> map_prod Some id (pepdna_minip_recv_response E hdr w)
                  | Some MINIP_CONN_DATA \<Rightarrow> pepdna_minip_recv_data E rs hdr skb w
                  | Some MINIP_CONN_ACK \<Rightarrow> map_prod Some id (pepdna_minip_recv_ack E hdr w)
                  | Some MINIP_CONN_DELETE \<Rightarrow> map_prod Some id (pepdna_minip_recv_delete E hdr w)
                  | Some MINIP_CONN_FINISHED \<Rightarrow> map_prod Some id (pepdna_minip_recv_finished E hdr w)
                  | None \<Rightarrow> (Some 0, w)) of
             (None, w) \<Rightarrow> (None, w)
           | (Some ret, w) \<Rightarrow> (Some ret, kfree_skb p w)))"

text \<open>The receive function registered for the MINIP protocol; the flag says \<open>NET_RX_DROP\<close>.\<close>

definition pepdna_minip_skb_recv ::
    "kenv \<Rightarrow> send_result list \<Rightarrow> nat option \<Rightarrow> world \<Rightarrow> bool option \<times> world" where
  "pepdna_minip_skb_recv E rs skb w =
    (case skb of None \<Rightarrow> (Some True, w)
     | Some p \<Rightarrow>
        (case pepdna_minip_recv_packet E rs p w of
           (None, w) \<Rightarrow> (None, w)
         | (Some ret, w) \<Rightarrow>
             (if ret \<noteq> 0 then (Some True, kfree_skb p w) else (Some False, w))))"

subsection \<open>Work items\<close>

text \<open>
  The forwarding work towards MINIP. One element of the list answers one round of the loop
  (the kernel services and the data read in it); \<open>None\<close> says that the loop still runs when
  the list ends. A round runs on the connection as it is stored, and a connection freed in
  the meantime is an access after free.
\<close>

type_synonym round = "kenv \<times> (nat \<Rightarrow> recv_result)"

definition i2minip_round :: "kenv \<Rightarrow> (nat \<Rightarrow> recv_result) \<Rightarrow> nat \<Rightarrow> pepdna_con \<Rightarrow> world \<Rightarrow> int \<times> world" where
  "i2minip_round E recv a con w =
    (case c_rtxq con of
       Live q \<Rightarrow>
         (case pepdna_con_i2minip_fwd E (to_mac w) recv con q of
            (rc, con', q', out) \<Rightarrow> (rc, emit out (upd_con a (\<lambda>_. con'\<lparr>c_rtxq := Live q'\<rparr>) w)))
     | p \<Rightarrow>
         (case pepdna_con_i2minip_fwd E (to_mac w) recv con empty_rtxq of
            (rc, con', q', out) \<Rightarrow>
              (rc, if out = [] then w else add_fault (rtxq_fault a p) w)))"

fun i2m_loop :: "round list \<Rightarrow> nat \<Rightarrow> world \<Rightarrow> world option" where
  "i2m_loop rounds a w =
    (case g_cons w a of None \<Rightarrow> Some (add_fault (UseAfterFree a) w)
     | Some con \<Rightarrow>
        (if \<not> c_lflag con then Some w
         else case rounds of [] \<Rightarrow> None
              | (E, recv) # rounds' \<Rightarrow>
                 (case i2minip_round E recv a con w of
                    (rc, w) \<Rightarrow>
                      (if rc \<le> 0 then
                         (if rc = - EAGAIN then Some w
                          else i2m_loop rounds' a (delete_and_close E a (c_id con) w))
                       else i2m_loop rounds' a w))))"

declare i2m_loop.simps [simp del]

definition pepdna_con_i2m_work :: "round list \<Rightarrow> nat \<Rightarrow> world \<Rightarrow> world option" where
  "pepdna_con_i2m_work rounds a w = map_option (pepdna_con_put a) (i2m_loop rounds a w)"

text \<open>The work in the other direction is empty: packets are forwarded as they arrive.\<close>

definition pepdna_con_m2i_work :: "nat \<Rightarrow> world \<Rightarrow> world" where
  "pepdna_con_m2i_work a w = w"

subsection \<open>What the sender operations leave alone\<close>

definition same_core :: "pepdna_con \<Rightarrow> pepdna_con \<Rightarrow> bool" where
  "same_core con con' \<longleftrightarrow>
     c_id con' = c_id con \<and> c_tuple con' = c_tuple con \<and> c_kref con' = c_kref con \<and> c_lsock con' = c_lsock con
     \<and> c_rsock con' = c_rsock con \<and> c_lflag con' = c_lflag con \<and> c_rflag con' = c_rflag con
     \<and> c_next_recv con' = c_next_recv con \<and> c_rtxq con' = c_rtxq con \<and> c_skb con' = c_skb con"

lemma same_core_refl [simp]: "same_core con con"
  by (simp add: same_core_def)

lemma same_core_trans: "same_core a b \<Longrightarrow> same_core b c \<Longrightarrow> same_core a c"
  by (simp add: same_core_def)

lemma snd_data_loop_core:
  "snd_data_loop E mac con q left sent = (r, con', q', out) \<Longrightarrow> same_core con con'"
proof (induction E mac con q left sent arbitrary: r con' q' out rule: snd_data_loop.induct)
  case (1 E mac con q left sent)
  have seg: "same_core con (next_segment con)" by (simp add: next_segment_def Let_def same_core_def)
  let ?n = "min (length left) MINIP_MSS"
  obtain rc q1 out1 where send: "pepdna_minip_skb_send E mac con q (take ?n left) = (rc, q1, out1)"
    by (rule prod_cases3)
  obtain r2 con2 q2 out2 where
    rec: "snd_data_loop E mac (next_segment con) q1 (drop ?n left) (sent + ?n) = (r2, con2, q2, out2)"
    by (rule prod_cases4)
  show ?case
  proof (cases "left = [] \<or> rc < 0")
    case True
    then show ?thesis
      using 1(2) send by (auto simp: snd_data_loop.simps [of _ _ _ _ left] Let_def split: if_splits)
  next
    case False
    then have "con' = con2"
      using 1(2) send rec by (simp add: snd_data_loop.simps [of _ _ _ _ left] Let_def)
    moreover have "same_core (next_segment con) con2"
      using 1(1) [OF _ refl send [symmetric] refl _ rec] False by simp
    ultimately show ?thesis using seg same_core_trans by blast
  qed
qed

lemma i2minip_fwd_core:
  "pepdna_con_i2minip_fwd E mac recv con q = (rc, con', q', out) \<Longrightarrow> same_core con con'"
  by (auto simp: pepdna_con_i2minip_fwd_def pepdna_minip_conn_snd_data_def Let_def
      split: prod.splits if_splits dest: snd_data_loop_core)

lemma ack_base_core [simp]: "same_core con (ack_base E hdr con)"
  by (simp add: ack_base_def arm_timer_def minip_update_rto_def Let_def same_core_def)

lemma ack_advance_core [simp]: "same_core con (ack_advance ack n b con)"
  by (simp add: ack_advance_def minip_update_cwnd_def Let_def same_core_def)

lemma recv_ack_core:
  assumes "recv_ack_con E hdr con q = (r, con', q', out)"
  shows "same_core con con'"
proof (cases "ntohl (h_ack hdr)" "c_last_acked con" rule: linorder_cases)
  case less
  then show ?thesis using assms by (simp add: recv_ack_con_old)
next
  case equal
  have "same_core (ack_base E hdr con) con'"
    using assms unfolding recv_ack_con_dup [OF equal]
    by (auto simp: Let_def same_core_def split: if_splits)
  then show ?thesis using same_core_trans ack_base_core by blast
next
  case greater
  then show ?thesis
    using assms same_core_trans [OF ack_base_core ack_advance_core]
    by (auto simp: recv_ack_con_new)
qed

lemma sender_timeout_core:
  "sender_timeout_con E con q = (fl, con', q', out) \<Longrightarrow> same_core con con'"
  by (auto simp: sender_timeout_con_def arm_timer_def Let_def same_core_def split: if_splits prod.splits)

subsection \<open>The connection table stays well formed\<close>

lemma wf_emit [simp]: "wf_known I E (emit out w) = wf_known I E w"
  by (simp add: emit_def)

lemma wf_xmit:
  assumes "wf_known I E w"
  shows "wf_known I E (snd (pepdna_minip_conn_delete E' i m w))"
    "wf_known I E (snd (pepdna_minip_conn_finished E' i m w))"
    "wf_known I E (snd (pepdna_minip_send_response E' i m w))"
    "wf_known I E (snd (pepdna_minip_send_ack E' i ack m ts w))"
    "wf_known I E (snd (pepdna_minip_conn_request E' pad syn i m w))"
  using assms
  by (simp_all add: pepdna_minip_conn_delete_def pepdna_minip_conn_finished_def
      pepdna_minip_send_response_def pepdna_minip_send_ack_def pepdna_minip_conn_request_def
      xmit_frame_def)

lemma wf_con_close': "wf_known I E w \<Longrightarrow> wf_known I E (pepdna_con_close E' p w)"
proof (cases p)
  case (Some a)
  assume "wf_known I E w"
  then show ?thesis
    using Some
    by (simp add: pepdna_con_close_def Let_def wf_con_put wf_con_rtxq_destroy wf_upd_con keeps_id_def
        wf_close_parts split: option.splits ptr.splits)
qed (simp add: pepdna_con_close_def)

lemma wf_delete_and_close: "wf_known I E w \<Longrightarrow> wf_known I E (delete_and_close E' a cid w)"
  by (simp add: delete_and_close_def wf_con_close' wf_xmit)

lemma wf_upd_core:
  assumes "wf_known I E w" "g_cons w a = Some con" "same_core con con'"
  shows "wf_known I E (upd_con a (\<lambda>_. con'\<lparr>c_rtxq := p\<rparr>) w)" "wf_known I E (upd_con a (\<lambda>_. con') w)"
  using assms wf_world_kref [OF assms(1,2)]
  by (auto intro!: wf_upd_con_at simp: same_core_def)

lemma wf_sender_timeout:
  assumes "wf_known I E w"
  shows "wf_known I E (minip_sender_timeout E' a w)"
proof (cases "g_cons w a")
  case (Some con)
  have "wf_known I E (upd_con a (\<lambda>_. con'\<lparr>c_rtxq := Live q'\<rparr>) w)"
    if "sender_timeout_con E' con q = (f, con', q', out)" for q f con' q' out
    using wf_upd_core(1) [OF assms Some sender_timeout_core [OF that]] .
  then show ?thesis
    using assms Some
    by (auto simp: minip_sender_timeout_def Let_def intro!: wf_delete_and_close split: ptr.splits prod.splits)
qed (use assms in \<open>simp add: minip_sender_timeout_def\<close>)

lemma wf_handshake: "wf_known I E w \<Longrightarrow> wf_known I E (pepdna_minip_handshake E' pad a w)"
  using wf_xmit(5)
  by (auto simp: pepdna_minip_handshake_def Let_def keeps_id_def split: option.splits prod.splits
      intro!: wf_upd_con wf_con_close') (metis snd_conv)+

lemma wf_recv_finished: "wf_known I E w \<Longrightarrow> wf_known I E (snd (pepdna_minip_recv_finished E' hdr w))"
  by (auto simp: pepdna_minip_recv_finished_def keeps_id_def split: option.splits
      intro!: wf_con_close' wf_upd_con)

lemma wf_recv_delete: "wf_known I E w \<Longrightarrow> wf_known I E (snd (pepdna_minip_recv_delete E' hdr w))"
  by (auto simp: pepdna_minip_recv_delete_def Let_def keeps_id_def split: option.splits
      intro!: wf_con_close' wf_upd_con wf_xmit)

lemma wf_recv_response: "wf_known I E w \<Longrightarrow> wf_known I E (snd (pepdna_minip_recv_response E hdr w))"
  by (auto simp: pepdna_minip_recv_response_def keeps_id_def split: option.splits
      intro!: wf_reinject_syn wf_upd_con)

lemma wf_after_ack: "wf_known I E w \<Longrightarrow> wf_known I E (after_ack E' a r con w)"
  by (auto simp: after_ack_def intro: wf_delete_and_close wf_data_ready split: ack_outcome.splits option.splits)

lemma wf_recv_ack:
  assumes "wf_known I E w"
  shows "wf_known I E (snd (pepdna_minip_recv_ack E' hdr w))"
proof (cases "pepdna_con_find E' (ntohl (h_id hdr)) w")
  case (Some a)
  show ?thesis
  proof (cases "g_cons w a")
    case con: (Some con)
    obtain r con' q' out where
      run: "recv_ack_con E' hdr con (case c_rtxq con of Live q \<Rightarrow> q | _ \<Rightarrow> empty_rtxq) = (r, con', q', out)"
      by (rule prod_cases4)
    note upd = wf_upd_core [OF assms con recv_ack_core [OF run]]
    show ?thesis
      using assms Some con run upd wf_after_ack
      by (simp add: pepdna_minip_recv_ack_def Let_def)
  qed (use assms Some in \<open>simp add: pepdna_minip_recv_ack_def\<close>)
qed (use assms in \<open>simp add: pepdna_minip_recv_ack_def\<close>)

lemma wf_sock_write: "wf_known I E w \<Longrightarrow> wf_known I E (snd (pepdna_sock_write rs s buf w))"
  by (simp add: pepdna_sock_write_def split: option.splits prod.splits)

lemma wf_minip2i_fwd:
  assumes "wf_known I E w"
  shows "wf_known I E (snd (pepdna_con_minip2i_fwd E' rs a skb w))"
proof -
  have wr: "wf_known I E w2" if "pepdna_sock_write rs s b w1 = (x, w2)" "wf_known I E w1" for x w1 w2 s b
    using wf_sock_write [OF that(2), of rs s b] that(1) by simp
  show ?thesis
    using assms
    by (auto simp: pepdna_con_minip2i_fwd_def Let_def keeps_id_def split: option.splits prod.splits
        intro!: wf_xmit wf_upd_con dest!: wr)
qed

lemma wf_recv_data:
  assumes "wf_known I E w"
  shows "wf_known I E (snd (pepdna_minip_recv_data E' rs hdr skb w))"
proof -
  have fwd: "wf_known I E w'" if "pepdna_con_minip2i_fwd E' rs a skb w = (x, w')" for a x w'
    using wf_minip2i_fwd [OF assms, of E' rs a skb] that by simp
  show ?thesis
    using assms fwd
    by (auto simp: pepdna_minip_recv_data_def split: option.splits prod.splits
        intro: wf_delete_and_close)
qed

lemma wf_recv_request:
  assumes "wf_known I E w"
  shows "wf_known I E (snd (pepdna_minip_recv_request E skb w))"
proof -
  have "wf_known I E w'" if "pepdna_con_alloc E syn None h 0 0 w = (x, w')" for syn h x w'
    using wf_con_alloc [OF assms, of syn None h 0 0] that by simp
  then show ?thesis
    using assms
    by (auto simp: pepdna_minip_recv_request_def split: option.splits prod.splits)
qed

lemma wf_i2minip_round:
  assumes "wf_known I E w" "g_cons w a = Some con"
  shows "wf_known I E (snd (i2minip_round E' recv a con w))"
  using assms wf_upd_core(1) [OF assms i2minip_fwd_core]
  by (auto simp: i2minip_round_def split: ptr.splits prod.splits)

lemma wf_i2m_loop: "wf_known I E w \<Longrightarrow> i2m_loop rounds a w = Some w' \<Longrightarrow> wf_known I E w'"
proof (induction rounds arbitrary: w)
  case Nil
  then show ?case by (subst (asm) i2m_loop.simps) (auto split: option.splits if_splits)
next
  case (Cons x rounds)
  obtain E' recv where x: "x = (E', recv)" by force
  show ?case
  proof (cases "g_cons w a")
    case (Some con)
    obtain rc w1 where rd: "i2minip_round E' recv a con w = (rc, w1)" by force
    have "wf_known I E w1" using wf_i2minip_round [OF Cons.prems(1) Some, of E' recv] rd by simp
    with Cons.IH Cons.prems wf_delete_and_close [OF this] show ?thesis
      by (auto simp: i2m_loop.simps [of "(E', recv) # rounds" a w] Some rd x split: if_splits)
  qed (use Cons.prems in \<open>subst (asm) i2m_loop.simps, auto\<close>)
qed

lemma wf_minip_recv_packet:
  assumes wf: "wf_known I E w"
  shows "wf_known I E (snd (pepdna_minip_recv_packet E rs p w))"
proof (cases "g_skbs w p")
  case None
  then show ?thesis using wf by (simp add: pepdna_minip_recv_packet_def)
next
  case (Some k)
  define res where "res = (case pkt_of (h_pkt_type (f_hdr k)) of
      Some MINIP_CONN_REQUEST \<Rightarrow> map_prod Some id (pepdna_minip_recv_request E k w)
    | Some MINIP_CONN_RESPONSE \<Rightarrow> map_prod Some id (pepdna_minip_recv_response E (f_hdr k) w)
    | Some MINIP_CONN_DATA \<Rightarrow> pepdna_minip_recv_data E rs (f_hdr k) k w
    | Some MINIP_CONN_ACK \<Rightarrow> map_prod Some id (pepdna_minip_recv_ack E (f_hdr k) w)
    | Some MINIP_CONN_DELETE \<Rightarrow> map_prod Some id (pepdna_minip_recv_delete E (f_hdr k) w)
    | Some MINIP_CONN_FINISHED \<Rightarrow> map_prod Some id (pepdna_minip_recv_finished E (f_hdr k) w)
    | None \<Rightarrow> (Some 0, w))"
  have "wf_known I E (snd res)"
    using wf wf_recv_request [OF wf, of k] wf_recv_response [OF wf] wf_recv_data [OF wf]
      wf_recv_ack [OF wf] wf_recv_delete [OF wf] wf_recv_finished [OF wf]
    unfolding res_def by (simp split: option.splits minip_packet_type.splits)
  moreover have "pepdna_minip_recv_packet E rs p w =
      (case res of (None, w) \<Rightarrow> (None, w) | (Some ret, w) \<Rightarrow> (Some ret, kfree_skb p w))"
    by (simp add: pepdna_minip_recv_packet_def Some res_def Let_def)
  ultimately show ?thesis by (auto split: option.splits prod.splits)
qed

lemma wf_minip_skb_recv: "wf_known I E w \<Longrightarrow> wf_known I E (snd (pepdna_minip_skb_recv E rs skb w))"
proof -
  assume wf: "wf_known I E w"
  have "wf_known I E w'" if "pepdna_minip_recv_packet E rs p w = (x, w')" for p x w'
    using wf_minip_recv_packet [OF wf, of rs p] that by simp
  with wf show ?thesis
    by (auto simp: pepdna_minip_skb_recv_def split: option.splits prod.splits)
qed

lemma wf_i2m_work: "wf_known I E w \<Longrightarrow> pepdna_con_i2m_work rounds a w = Some w' \<Longrightarrow> wf_known I E w'"
  by (auto simp: pepdna_con_i2m_work_def intro: wf_con_put dest: wf_i2m_loop)

text \<open>A world with one established MINIP connection over the socket 1.\<close>

definition minip_world :: "pepdna_con \<Rightarrow> world" where
  "minip_world con = (pair_world sample_env TCP2MINIP con)\<lparr>g_skbs :=
     [5 \<mapsto> \<lparr>f_mac = [], f_hdr = (ack_hdr 11)\<lparr>h_pkt_type := 5, h_seq := htonl 10, h_sdu_len := 2\<rparr>,
             f_data = [7, 8]\<rparr>,
      6 \<mapsto> \<lparr>f_mac = [], f_hdr = (ack_hdr 11)\<lparr>h_id := htonl 7\<rparr>, f_data = []\<rparr>]\<rparr>"

definition minip_con :: pepdna_con where
  "minip_con = est_con\<lparr>c_rtxq := Live empty_rtxq\<rparr>"

lemma wf_minip_world: "0 < c_kref con \<Longrightarrow> wf_world sample_env (minip_world con)"
  by (simp add: minip_world_def wf_pair_world sample_works)

subsection \<open>Receiving data\<close>

lemma minip2i_fwd_in_order:
  assumes "g_cons w a = Some con" "c_lsock con = Some s" "g_socks w s = Some k"
    and "ntohl (h_seq (f_hdr skb)) = c_next_recv con" "unat (h_sdu_len (f_hdr skb)) = length (f_data skb)"
    and "sendmsg_law rs (length (f_data skb))"
    and "pepdna_con_minip2i_fwd E rs a skb w = (Some r, w')" "0 \<le> r"
  shows "r = int (length (f_data skb))"
    and "g_cons w' = (g_cons w)(a \<mapsto> con\<lparr>c_next_recv := c_next_recv con + 1\<rparr>)"
    and "g_log w' = g_log w @ [Ev_sent s (f_data skb)]"
    and "g_out w' = g_out (snd (pepdna_minip_send_ack E (c_id con) (c_next_recv con + 1) (to_mac w)
           (h_ts (f_hdr skb)) w))"
    and "g_srv w' = g_srv w" and "g_socks w' = g_socks w"
proof -
  obtain sent out flt where loop: "sock_write_loop (k_user_data k \<noteq> UD_null) rs (f_data skb) 0 0 = (Some sent, out, flt)"
    and sent: "0 \<le> sent"
    using assms by (auto simp: pepdna_con_minip2i_fwd_def Let_def pepdna_sock_write_def split: prod.splits option.splits if_splits)
  have out: "out = f_data skb"
    using sock_write_loop_complete [OF loop assms(6) sent] by blast
  let ?w = "log_event (Ev_sent s (f_data skb)) (if flt then add_fault NullDeref w else w)"
  have mac: "to_mac (upd_con a f ?w) = to_mac w" for f
    using assms(1) by (simp add: to_mac_def upd_con_def log_event_def add_fault_def)
  have w': "w' = snd (pepdna_minip_send_ack E (c_id con) (c_next_recv con + 1) (to_mac w) (h_ts (f_hdr skb))
      (upd_con a (\<lambda>c. c\<lparr>c_next_recv := c_next_recv c + 1\<rparr>) ?w))"
    and r: "r = int (length (f_data skb))"
    using assms loop sent out mac
    by (auto simp: pepdna_con_minip2i_fwd_def Let_def pepdna_sock_write_def)
  show "r = int (length (f_data skb))" by (rule r)
  show "g_cons w' = (g_cons w)(a \<mapsto> con\<lparr>c_next_recv := c_next_recv con + 1\<rparr>)"
    "g_log w' = g_log w @ [Ev_sent s (f_data skb)]" "g_srv w' = g_srv w" "g_socks w' = g_socks w"
    "g_out w' = g_out (snd (pepdna_minip_send_ack E (c_id con) (c_next_recv con + 1) (to_mac w)
           (h_ts (f_hdr skb)) w))"
    unfolding w' using assms(1)
    by (simp_all add: pepdna_minip_send_ack_def xmit_frame_def upd_con_def log_event_def add_fault_def)
qed

lemma minip2i_fwd_out_of_order:
  assumes "g_cons w a = Some con" "ntohl (h_seq (f_hdr skb)) \<noteq> c_next_recv con"
  shows "pepdna_con_minip2i_fwd E rs a skb w = (Some (- EAGAIN),
     snd (pepdna_minip_send_ack E (c_id con) (c_next_recv con) (to_mac w) (h_ts (f_hdr skb)) w))"
  using assms by (simp add: pepdna_con_minip2i_fwd_def)

lemma send_ack_frame [simp]:
  "g_cons (snd (pepdna_minip_send_ack E i ack m ts w)) = g_cons w"
  "g_log (snd (pepdna_minip_send_ack E i ack m ts w)) = g_log w"
  "g_srv (snd (pepdna_minip_send_ack E i ack m ts w)) = g_srv w"
  "g_socks (snd (pepdna_minip_send_ack E i ack m ts w)) = g_socks w"
  "g_faults (snd (pepdna_minip_send_ack E i ack m ts w)) = g_faults w"
  by (simp_all add: pepdna_minip_send_ack_def xmit_frame_def)

lemma recv_data_hit:
  assumes "pepdna_con_find E (ntohl (h_id (f_hdr skb))) w = Some a" "g_cons w a = Some con"
    and "c_lsock con = Some s" "g_socks w s = Some k"
    and "unat (h_sdu_len (f_hdr skb)) = length (f_data skb)" "f_data skb \<noteq> []"
    and "sendmsg_law rs (length (f_data skb))"
    and "fst (pepdna_sock_write rs s (f_data skb) w) = Some sent" "0 \<le> sent"
    and "skb_seq_get skb = c_next_recv con"
  shows "\<exists>w'. pepdna_minip_recv_data E rs (f_hdr skb) skb w = (Some 0, w')
     \<and> g_log w' = g_log w @ [Ev_sent s (f_data skb)]
     \<and> g_cons w' = (g_cons w)(a \<mapsto> con\<lparr>c_next_recv := c_next_recv con + 1\<rparr>)
     \<and> g_out w' = g_out (snd (pepdna_minip_send_ack E (c_id con) (c_next_recv con + 1) (to_mac w)
                          (h_ts (f_hdr skb)) w))
     \<and> g_srv w' = g_srv w \<and> g_socks w' = g_socks w"
proof -
  have seq: "ntohl (h_seq (f_hdr skb)) = c_next_recv con" using assms(10) by (simp add: skb_seq_get_def)
  obtain w1 where "pepdna_sock_write rs s (f_data skb) w = (Some sent, w1)"
    using assms(8) by (metis prod.collapse)
  then obtain r w' where run: "pepdna_con_minip2i_fwd E rs a skb w = (Some r, w')" and r: "0 \<le> r"
    using assms seq by (simp add: pepdna_con_minip2i_fwd_def Let_def)
  note ok = minip2i_fwd_in_order [OF assms(2-4) seq assms(5,7) run r]
  have "0 < r" using ok(1) assms(6) by simp
  then have "pepdna_minip_recv_data E rs (f_hdr skb) skb w = (Some 0, w')"
    using assms(1) run by (simp add: pepdna_minip_recv_data_def)
  with ok show ?thesis by simp
qed

lemma recv_data_miss:
  assumes "pepdna_con_find E (ntohl (h_id (f_hdr skb))) w = Some a" "g_cons w a = Some con"
    and "skb_seq_get skb \<noteq> c_next_recv con"
  shows "pepdna_minip_recv_data E rs (f_hdr skb) skb w = (Some 0,
     snd (pepdna_minip_send_ack E (c_id con) (c_next_recv con) (to_mac w) (h_ts (f_hdr skb)) w))"
  using assms minip2i_fwd_out_of_order [OF assms(2), of skb E rs]
  by (simp add: pepdna_minip_recv_data_def skb_seq_get_def)

text \<open>
  C16. A data packet for a known connection reaches the socket only if it is the one
  expected next. When the socket takes it, exactly its payload is written, the next packet
  is expected and acknowledged; any other packet changes neither the connection nor what
  was written, and is answered with an acknowledgement of the packet expected.
\<close>

theorem recv_data_spec:
  assumes "pepdna_con_find E (ntohl (h_id (f_hdr skb))) w = Some a" "g_cons w a = Some con"
    and "c_lsock con = Some s" "g_socks w s = Some k"
    and "unat (h_sdu_len (f_hdr skb)) = length (f_data skb)" "f_data skb \<noteq> []"
    and "sendmsg_law rs (length (f_data skb))"
    and "fst (pepdna_sock_write rs s (f_data skb) w) = Some sent" "0 \<le> sent"
  shows "\<exists>w'. pepdna_minip_recv_data E rs (f_hdr skb) skb w = (Some 0, w')
     \<and> (if skb_seq_get skb = c_next_recv con then
          g_log w' = g_log w @ [Ev_sent s (f_data skb)]
          \<and> g_cons w' = (g_cons w)(a \<mapsto> con\<lparr>c_next_recv := c_next_recv con + 1\<rparr>)
          \<and> g_out w' = g_out (snd (pepdna_minip_send_ack E (c_id con) (c_next_recv con + 1) (to_mac w)
                               (h_ts (f_hdr skb)) w))
        else
          g_log w' = g_log w \<and> g_cons w' = g_cons w
          \<and> g_out w' = g_out (snd (pepdna_minip_send_ack E (c_id con) (c_next_recv con) (to_mac w)
                               (h_ts (f_hdr skb)) w)))"
  using assms recv_data_miss [OF assms(1,2), of rs] recv_data_hit [OF assms]
  by (cases "skb_seq_get skb = c_next_recv con") auto

definition data_skb :: "u32 \<Rightarrow> bytes \<Rightarrow> sk_buff" where
  "data_skb seq b = \<lparr>f_mac = [], f_hdr = \<lparr>h_pkt_type = 5, h_sdu_len = word_of_nat (length b),
     h_id = htonl 42, h_seq = htonl seq, h_ack = 0, h_ts = 0\<rparr>, f_data = b\<rparr>"

lemma minip_world_find: "c_id con = 42 \<Longrightarrow> pepdna_con_find sample_env 42 (minip_world con) = Some 0"
  by (simp add: pepdna_con_find_def minip_world_def pair_world_def hash_add_def sample_srv_def has_id_def)

theorem recv_data_spec_witness:
  "g_log (snd (pepdna_minip_recv_data sample_env [(2, [])] (f_hdr (data_skb 10 [7, 8])) (data_skb 10 [7, 8])
      (minip_world minip_con))) = [Ev_sent 1 [7, 8]]
   \<and> g_log (snd (pepdna_minip_recv_data sample_env [(2, [])] (f_hdr (data_skb 11 [7, 8])) (data_skb 11 [7, 8])
      (minip_world minip_con))) = []"
proof -
  let ?w = "minip_world minip_con"
  have find: "pepdna_con_find sample_env (ntohl (h_id (f_hdr (data_skb n [7, 8])))) ?w = Some 0" for n
    by (simp add: data_skb_def minip_world_find minip_con_def)
  have con: "g_cons ?w 0 = Some minip_con" "c_lsock minip_con = Some 1"
    and sock: "g_socks ?w 1 = Some (new_sock\<lparr>k_user_data := UD_con 0, k_data_ready := DR_l2r\<rparr>)"
    by (simp_all add: minip_world_def pair_world_def minip_con_def)
  have len: "unat (h_sdu_len (f_hdr (data_skb n [7, 8]))) = length (f_data (data_skb n [7, 8]))"
    "f_data (data_skb n [7, 8]) = [7, 8]" "skb_seq_get (data_skb n [7, 8]) = n" for n
    by (simp_all add: data_skb_def skb_seq_get_def)
  have sent: "fst (pepdna_sock_write [(2, [])] 1 [7, 8] ?w) = Some 2"
    using sock by (simp add: pepdna_sock_write_def)
  have log: "g_log ?w = []" by (simp add: minip_world_def pair_world_def sample_world_def)
  show ?thesis
    using recv_data_spec [OF find con sock len(1), of 10 "[(2, [])]" 2]
      recv_data_spec [OF find con sock len(1), of 11 "[(2, [])]" 2] sent log
    by (auto simp: len minip_con_def)
qed

subsection \<open>Packets for no connection\<close>

text \<open>
  C36. A MINIP packet, other than a request, that belongs to no connection is
  freed twice: by the dispatcher and again by the receive function that sees its error code.
\<close>

theorem unknown_packet_double_free:
  assumes "g_skbs w p = Some skb" "pkt_of (h_pkt_type (f_hdr skb)) = Some t" "t \<noteq> MINIP_CONN_REQUEST"
    and "pepdna_con_find E (ntohl (h_id (f_hdr skb))) w = None"
  shows "pepdna_minip_skb_recv E rs (Some p) w =
    (Some True, add_fault DoubleFree (w\<lparr>g_skbs := (g_skbs w)(p := None)\<rparr>))"
  using assms
  by (cases t)
    (simp_all add: pepdna_minip_skb_recv_def pepdna_minip_recv_packet_def pepdna_minip_recv_response_def
      pepdna_minip_recv_delete_def pepdna_minip_recv_finished_def pepdna_minip_recv_data_def
      pepdna_minip_recv_ack_def kfree_skb_def add_fault_def)

theorem unknown_packet_double_free_witness:
  "g_faults (snd (pepdna_minip_skb_recv sample_env [] (Some 6) (minip_world minip_con))) = [DoubleFree]"
proof -
  let ?w = "minip_world minip_con"
  have skb: "g_skbs ?w 6 = Some \<lparr>f_mac = [], f_hdr = (ack_hdr 11)\<lparr>h_id := htonl 7\<rparr>, f_data = []\<rparr>"
    by (simp add: minip_world_def)
  have "pkt_of 6 = Some MINIP_CONN_ACK" by (simp add: pkt_of_def)
  moreover have "pepdna_con_find sample_env 7 ?w = None"
    by (simp add: pepdna_con_find_def minip_world_def pair_world_def hash_add_def sample_srv_def has_id_def
        minip_con_def)
  moreover have "g_faults ?w = []" by (simp add: minip_world_def pair_world_def sample_world_def)
  ultimately show ?thesis
    using unknown_packet_double_free [OF skb, of MINIP_CONN_ACK sample_env "[]"]
    by (simp add: ack_hdr_def add_fault_def)
qed

subsection \<open>The handshake\<close>

text \<open>
  When the connection request cannot be sent, the only reference to a fresh
  connection is dropped, which frees it, and the handshake then writes into the freed object.
\<close>

lemma handshake_failure_use_after_free:
  assumes "wf_world E w" "g_cons w a = Some con" "c_kref con = 1" "c_lsock con = None" "c_rsock con = None"
    and "\<not> kzalloc E (A_skb MINIP_CONN_REQUEST 0)"
  shows "g_cons (pepdna_minip_handshake E pad a w) a = None
     \<and> g_faults (pepdna_minip_handshake E pad a w) = UseAfterFree a # g_faults w"
proof -
  obtain srv where srv: "g_srv w = Live srv" using wf_world_live [OF assms(1)] by blast
  have close: "pepdna_con_close E (Some a) w = pepdna_con_kref_release a w"
    using assms by (simp add: pepdna_con_close_def pepdna_con_put_def)
  have "g_cons (pepdna_con_kref_release a w) a = None"
    using g_cons_release [OF assms(2)] by simp
  moreover have "g_faults (pepdna_con_kref_release a w) = g_faults w"
    using assms srv by (simp add: pepdna_con_kref_release_def upd_srv_def Let_def)
  ultimately show ?thesis
    using assms(2,6)
    by (simp add: pepdna_minip_handshake_def pepdna_minip_conn_request_def close upd_con_def add_fault_def)
qed

lemma con_find_upd_con:
  assumes "keeps_id f"
  shows "pepdna_con_find E k (upd_con a f w) = pepdna_con_find E k w"
proof -
  have "has_id (upd_con a f w) k = has_id w k"
    using assms by (auto simp: fun_eq_iff has_id_def upd_con_def add_fault_def keeps_id_def split: option.splits)
  moreover have "g_srv (upd_con a f w) = g_srv w"
    by (auto simp: upd_con_def add_fault_def split: option.splits)
  ultimately show ?thesis by (cases "g_srv w") (simp_all add: pepdna_con_find_def)
qed

lemma con_find_log [simp]: "pepdna_con_find E k (log_event e w) = pepdna_con_find E k w"
proof -
  have "has_id (log_event e w) k = has_id w k" by (simp add: fun_eq_iff has_id_def log_event_def)
  then show ?thesis by (cases "g_srv w") (simp_all add: pepdna_con_find_def log_event_def)
qed

text \<open>
  The response that completes the handshake establishes the connection, advances
  \<open>last_acked\<close> and \<open>next_recv\<close> past the first sequence number and hands the stored SYN back to
  the stack. A second response for the same connection advances both counters again, so that
  the receiver waits for a packet that is not the first one, and hands over the SYN that the
  stack already owns.
\<close>

lemma recv_response_repeated:
  assumes "pepdna_con_find E (ntohl (h_id hdr)) w = Some a" "g_cons w a = Some con"
    and "c_skb con = Live syn" "\<not> CONFIG_LOCAL_SENDER E"
    and "w1 = snd (pepdna_minip_recv_response E hdr w)" "w2 = snd (pepdna_minip_recv_response E hdr w1)"
  shows "(\<exists>c. g_cons w1 a = Some c \<and> c_rflag c \<and> c_state c = ESTABLISHED
            \<and> c_last_acked c = c_last_acked con + 1 \<and> c_next_recv c = c_next_recv con + 1)
     \<and> g_log w1 = g_log w @ [Ev_reinject syn] \<and> g_faults w1 = g_faults w
     \<and> (\<exists>c. g_cons w2 a = Some c \<and> c_last_acked c = c_last_acked con + 2 \<and> c_next_recv c = c_next_recv con + 2)
     \<and> g_faults w2 = UseAfterFree a # g_faults w"
proof -
  let ?f = "\<lambda>c. c\<lparr>c_rflag := True, c_last_acked := c_last_acked c + 1, c_state := ESTABLISHED,
     c_next_recv := c_next_recv c + 1\<rparr>"
  have w1: "w1 = upd_con a (\<lambda>c. c\<lparr>c_skb := Freed\<rparr>) (log_event (Ev_reinject syn) (upd_con a ?f w))"
    using assms by (simp add: pepdna_minip_recv_response_def reinject_syn_def upd_con_def log_event_def)
  have keeps: "keeps_id ?f" "keeps_id (\<lambda>c. c\<lparr>c_skb := Freed\<rparr>)" by (simp_all add: keeps_id_def)
  have "pepdna_con_find E (ntohl (h_id hdr)) w1 = Some a"
    unfolding w1 using assms(1) by (simp add: con_find_upd_con [OF keeps(1)] con_find_upd_con [OF keeps(2)])
  moreover have c1: "g_cons w1 a = Some ((?f con)\<lparr>c_skb := Freed\<rparr>)"
    using assms(2) unfolding w1 by (simp add: upd_con_def log_event_def)
  ultimately have "w2 = add_fault (UseAfterFree a) (upd_con a ?f w1)"
    using assms(4,6) by (simp add: pepdna_minip_recv_response_def reinject_syn_def upd_con_def)
  moreover have "g_log w1 = g_log w @ [Ev_reinject syn]" "g_faults w1 = g_faults w"
    using assms(2) unfolding w1 by (simp_all add: upd_con_def log_event_def)
  ultimately show ?thesis
    using c1 by (simp add: upd_con_def add_fault_def)
qed

definition ex_syn :: tcp_skb where
  "ex_syn = \<lparr>p_protocol = 6, p_saddr = 1, p_daddr = 2, p_source = 3, p_dest = 4, p_syn = True, p_ack = False,
     p_rst = False, p_mark = 0, p_tstamp = 99\<rparr>"

subsection \<open>The forwarding work returns\<close>

definition left_down :: "nat \<Rightarrow> world \<Rightarrow> bool" where
  "left_down a w \<longleftrightarrow> (case g_cons w a of None \<Rightarrow> True | Some c \<Rightarrow> \<not> c_lflag c)"

lemma left_down_upd:
  assumes "\<And>c. c_lflag (f c) = c_lflag c"
  shows "left_down a (upd_con b f w) = left_down a w"
  using assms by (auto simp: left_down_def upd_con_def add_fault_def split: option.splits)

lemma left_down_frame [simp]:
  "left_down a (add_fault f w) = left_down a w" "left_down a (log_event e w) = left_down a w"
  "left_down a (upd_sock s g w) = left_down a w" "left_down a (sock_release s w) = left_down a w"
  "left_down a (kernel_sock_shutdown s w) = left_down a w" "left_down a (upd_srv h w) = left_down a w"
  "left_down a (w\<lparr>g_pending := x\<rparr>) = left_down a w"
  by (simp_all add: left_down_def store_defs split: option.splits ptr.splits)

lemma left_down_put: "left_down a w \<Longrightarrow> left_down a (pepdna_con_put b w)"
  by (cases "g_cons w b")
    (auto simp: pepdna_con_put_def left_down_def add_fault_def upd_con_def g_cons_release)

lemma left_down_rtxq: "left_down a w \<Longrightarrow> left_down a (con_rtxq_destroy b w)"
  by (simp add: con_rtxq_destroy_def left_down_upd split: option.splits ptr.splits)

lemma left_down_close_left:
  "g_cons w a \<noteq> None \<Longrightarrow> left_down a (close_left a s b w)"
proof -
  assume "g_cons w a \<noteq> None"
  then have "left_down a (upd_con a (\<lambda>c. c\<lparr>c_lflag := False\<rparr>) w)"
    by (auto simp: left_down_def upd_con_def)
  then show ?thesis by (simp add: close_left_def Let_def)
qed

lemma left_down_close_right:
  assumes "left_down a w"
  shows "left_down a (close_right_tcp b s x w)" "left_down a (close_right_rina b con x w)"
  using assms
  by (simp_all add: close_right_tcp_def close_right_rina_def Let_def left_down_upd split: option.splits)

lemma con_close_left_down:
  assumes "g_cons w a = Some con" "c_lsock con = Some s"
  shows "left_down a (pepdna_con_close E (Some a) w)"
proof -
  have "left_down a (close_left a s (c_lflag con) w)"
    using left_down_close_left assms(1) by simp
  then show ?thesis
    using assms
    by (simp add: pepdna_con_close_def Let_def left_down_put left_down_rtxq left_down_close_right
        left_down_upd split: option.splits ptr.splits)
qed

lemma conn_delete_cons [simp]: "g_cons (snd (pepdna_minip_conn_delete E i m w)) = g_cons w"
  by (simp add: pepdna_minip_conn_delete_def xmit_frame_def)

lemma delete_and_close_left_down:
  "g_cons w a = Some con \<Longrightarrow> c_lsock con = Some s \<Longrightarrow> left_down a (delete_and_close E a cid w)"
  by (auto simp: delete_and_close_def intro: con_close_left_down)

lemma i2m_loop_left_down: "left_down a w \<Longrightarrow> i2m_loop rounds a w \<noteq> None"
  by (auto simp: left_down_def i2m_loop.simps [of rounds] split: option.splits)

definition good_round :: "round \<Rightarrow> bool" where
  "good_round r \<longleftrightarrow> healthy (fst r) \<and> (\<forall>n. recv_law n (snd r n))"

lemma i2minip_fwd_window:
  assumes "good_round (E, recv)" "pepdna_con_i2minip_fwd E mac recv con q = (rc, con', q', out)" "0 < rc"
  shows "unat (c_window con') < unat (c_window con)"
proof -
  let ?n = "MINIP_MSS * unat (c_window con)"
  obtain read buff where r: "recv ?n = (read, buff)" by force
  have can: "can_send con" using assms(2,3) by (auto simp: pepdna_con_i2minip_fwd_def split: if_splits)
  have buf: "kzalloc E A_buffer" using assms(1) by (simp add: good_round_def healthy_def)
  have read: "0 < read" using assms(2,3) can buf r
    by (auto simp: pepdna_con_i2minip_fwd_def Let_def split: if_splits)
  have "recv_law ?n (recv ?n)" using assms(1) by (simp add: good_round_def)
  then have law: "read = int (length buff)" "buff \<noteq> []"
    using read r by (auto simp: recv_law_def)
  have "con' = after_send con (length (segs buff))"
    using i2minip_fwd_healthy [of E con recv read buff mac q] assms(1,2) can r read law
    by (simp add: good_round_def)
  moreover have "0 < length (segs buff)" using law(2) by (simp add: segs_Cons)
  moreover have "0 < unat (c_window con)" using can by (simp add: can_send_def unat_gt_0)
  ultimately show ?thesis by (simp add: after_send_window)
qed

lemma i2m_loop_returns:
  assumes "g_cons w a = Some con" "c_lsock con = Some s" "c_rtxq con = Live q"
    and "\<forall>r\<in>set rounds. good_round r" "unat (c_window con) < length rounds"
  shows "i2m_loop rounds a w \<noteq> None"
  using assms
proof (induction rounds arbitrary: w con q)
  case (Cons r rounds)
  obtain E recv where r: "r = (E, recv)" by force
  obtain rc con' q' out where fwd: "pepdna_con_i2minip_fwd E (to_mac w) recv con q = (rc, con', q', out)"
    by (rule prod_cases4)
  let ?w = "emit out (upd_con a (\<lambda>_. con'\<lparr>c_rtxq := Live q'\<rparr>) w)"
  have core: "same_core con con'" by (rule i2minip_fwd_core [OF fwd])
  have con': "g_cons ?w a = Some (con'\<lparr>c_rtxq := Live q'\<rparr>)" "c_lsock (con'\<lparr>c_rtxq := Live q'\<rparr>) = Some s"
    using Cons.prems(1,2) core by (simp_all add: emit_def upd_con_def same_core_def)
  have step: "i2m_loop (r # rounds) a w =
      (if \<not> c_lflag con then Some w
       else if rc \<le> 0 then (if rc = - EAGAIN then Some ?w
                             else i2m_loop rounds a (delete_and_close E a (c_id con) ?w))
       else i2m_loop rounds a ?w)"
    using Cons.prems(1,3) fwd r
    by (simp add: i2m_loop.simps [of "(E, recv) # rounds"] i2minip_round_def)
  have "i2m_loop rounds a ?w \<noteq> None" if "0 < rc"
    using Cons.IH [OF con'] Cons.prems(4,5) i2minip_fwd_window [OF _ fwd that] r by simp
  moreover have "i2m_loop rounds a (delete_and_close E a (c_id con) ?w) \<noteq> None"
    by (rule i2m_loop_left_down [OF delete_and_close_left_down [OF con']])
  ultimately show ?case unfolding step by simp
qed simp

text \<open>
  The work that forwards from TCP to MINIP returns: while the kernel services work, it
  needs at most one round more than the window has packets.
\<close>

lemma i2m_work_returns:
  assumes "g_cons w a = Some con" "c_lsock con = Some s" "c_rtxq con = Live q"
    and "\<forall>r\<in>set rounds. good_round r" "unat (c_window con) < length rounds"
  shows "\<exists>w'. pepdna_con_i2m_work rounds a w = Some w'"
  using i2m_loop_returns [OF assms] by (auto simp: pepdna_con_i2m_work_def)

end
