(* ===== verification/Pep_Minip_Net.thy ===== *)
theory Pep_Minip_Net
  imports Pep_Minip_Recv
begin

section \<open>MINIP: two proxies over a lossy network\<close>

text \<open>
  The sending operations of one proxy and the receiving handler of the other, joined by a
  network that may lose, duplicate and reorder packets: every data packet ever handed to the
  device may reach the receiver at any later time, any number of times or never, and so may
  every acknowledgement the receiver sent. The state keeps the bytes read from the left socket
  as a ghost component; what the right socket got is read off the event log of the receiver.

  The packets of one connection are fewer than 2 to the 32, which the sending step requires: the
  sequence numbers are compared as they are. The steps that send and deliver data are those in which
  the kernel services succeed: memory is allocated, the device takes the frame, the socket takes the
  payload. What a failure in the middle of a send does is shown apart (\<open>partial_send_loses\<close>, and
  \<open>refused_frame_stays\<close> in the theory of the sender).
\<close>

record net =
  n_con :: pepdna_con
  n_q :: rtxq
  n_frames :: "sk_buff list"
  n_read :: bytes
  n_rcv :: world

text \<open>The bytes a socket has taken, in order.\<close>

fun taken :: "nat \<Rightarrow> event list \<Rightarrow> bytes" where
  "taken s [] = []"
| "taken s (Ev_sent t b # es) = (if t = s then b else []) @ taken s es"
| "taken s (_ # es) = taken s es"

definition delivered :: "nat \<Rightarrow> net \<Rightarrow> bytes" where
  "delivered s n = taken s (g_log (n_rcv n))"

inductive net_step :: "(u32 \<Rightarrow> nat \<Rightarrow> nat) \<Rightarrow> nat \<Rightarrow> nat \<Rightarrow> net \<Rightarrow> net \<Rightarrow> bool" for H a s where
  send: "healthy E \<Longrightarrow> recv (MINIP_MSS * unat (c_window (n_con n))) = r \<Longrightarrow>
      recv_law (MINIP_MSS * unat (c_window (n_con n))) r \<Longrightarrow>
      unat (c_next_seq (n_con n)) + unat (c_window (n_con n)) < 2 ^ 32 \<Longrightarrow>
      pepdna_con_i2minip_fwd E mac recv (n_con n) (n_q n) = (rc, con', q', out) \<Longrightarrow>
      net_step H a s n (n\<lparr>n_con := con', n_q := q', n_frames := n_frames n @ out,
                        n_read := n_read n @ (if 0 < rc then snd r else [])\<rparr>)"
| ack: "f \<in> set (g_out (n_rcv n)) \<Longrightarrow> h_pkt_type (f_hdr f) = pkt_code MINIP_CONN_ACK \<Longrightarrow>
      recv_ack_con E (f_hdr f) (n_con n) (n_q n) = (res, con', q', out) \<Longrightarrow>
      net_step H a s n (n\<lparr>n_con := con', n_q := q', n_frames := n_frames n @ out\<rparr>)"
| timeout: "c_timer (n_con n) \<noteq> None \<Longrightarrow>
      sender_timeout_con E (n_con n) (n_q n) = (failed, con', q', out) \<Longrightarrow>
      net_step H a s n (n\<lparr>n_con := con', n_q := q', n_frames := n_frames n @ out\<rparr>)"
| deliver: "healthy E \<Longrightarrow> skb \<in> set (n_frames n) \<Longrightarrow> hash_min E = H \<Longrightarrow>
      sendmsg_law rs (length (f_data skb)) \<Longrightarrow>
      fst (pepdna_sock_write rs s (f_data skb) (n_rcv n)) = Some sent \<Longrightarrow> 0 \<le> sent \<Longrightarrow>
      pepdna_minip_recv_data E rs (f_hdr skb) skb (n_rcv n) = (Some 0, w') \<Longrightarrow>
      net_step H a s n (n\<lparr>n_rcv := w'\<rparr>)"

subsection \<open>The invariant\<close>

text \<open>
  Packet number i of the connection carries the i-th chunk of the stream under the sequence
  number 10 + i. The queue holds the packets from some number b on; the receiver expects packet
  r, and b is at most r: what was acknowledged was delivered.
\<close>

definition pkt_at :: "u32 \<Rightarrow> bytes list \<Rightarrow> nat \<Rightarrow> sk_buff \<Rightarrow> bool" where
  "pkt_at cid cs i skb \<longleftrightarrow> i < length cs \<and> skb_seq_get skb = of_nat (10 + i) \<and> f_data skb = cs ! i
     \<and> h_sdu_len (f_hdr skb) = of_nat (length (cs ! i)) \<and> h_id (f_hdr skb) = htonl cid"

definition chunks_ok :: "bytes list \<Rightarrow> bool" where
  "chunks_ok cs \<longleftrightarrow> (\<forall>c\<in>set cs. c \<noteq> [] \<and> length c \<le> MINIP_MSS) \<and> 10 + length cs < 2 ^ 32"

fun queue_at :: "u32 \<Rightarrow> bytes list \<Rightarrow> nat \<Rightarrow> sk_buff list \<Rightarrow> bool" where
  "queue_at cid cs b [] \<longleftrightarrow> b = length cs"
| "queue_at cid cs b (e # es) \<longleftrightarrow> pkt_at cid cs b e \<and> queue_at cid cs (Suc b) es"

abbreviation q_skbs :: "rtxq \<Rightarrow> sk_buff list" where
  "q_skbs q \<equiv> map e_skb (q_head (rq_queue q))"

definition snd_at :: "u32 \<Rightarrow> bytes list \<Rightarrow> nat \<Rightarrow> net \<Rightarrow> bool" where
  "snd_at cid cs b n \<longleftrightarrow>
     n_read n = concat cs \<and> chunks_ok cs \<and> c_id (n_con n) = cid
     \<and> c_next_seq (n_con n) = of_nat (10 + length cs) \<and> queue_at cid cs b (q_skbs (n_q n))
     \<and> q_len (rq_queue (n_q n)) = int (length (q_head (rq_queue (n_q n))))
     \<and> (\<forall>f\<in>set (n_frames n). \<exists>i. pkt_at cid cs i f)"

definition rcv_at :: "u32 \<Rightarrow> (u32 \<Rightarrow> nat \<Rightarrow> nat) \<Rightarrow> nat \<Rightarrow> nat \<Rightarrow> nat \<Rightarrow> world \<Rightarrow> bool" where
  "rcv_at cid H a s r w \<longleftrightarrow>
     (\<forall>E. hash_min E = H \<longrightarrow> pepdna_con_find E cid w = Some a)
     \<and> (\<exists>con. g_cons w a = Some con \<and> c_id con = cid \<and> c_next_recv con = of_nat (10 + r) \<and> c_lsock con = Some s)
     \<and> g_socks w s \<noteq> None
     \<and> (\<forall>f\<in>set (g_out w). h_pkt_type (f_hdr f) = pkt_code MINIP_CONN_ACK \<longrightarrow>
           (\<exists>i\<le>r. ntohl (h_ack (f_hdr f)) = of_nat (10 + i)))"

definition acked_at :: "nat \<Rightarrow> pepdna_con \<Rightarrow> bool" where
  "acked_at r con \<longleftrightarrow> (\<exists>i\<le>max 1 r. c_last_acked con = of_nat (9 + i))"

definition net_at :: "u32 \<Rightarrow> (u32 \<Rightarrow> nat \<Rightarrow> nat) \<Rightarrow> nat \<Rightarrow> nat \<Rightarrow> bytes list \<Rightarrow> nat \<Rightarrow> nat \<Rightarrow> net \<Rightarrow> bool" where
  "net_at cid H a s cs b r n \<longleftrightarrow>
     snd_at cid cs b n \<and> rcv_at cid H a s r (n_rcv n) \<and> b \<le> r \<and> r \<le> length cs
     \<and> acked_at r (n_con n) \<and> delivered s n = concat (take r cs)"

lemma pkt_at_untimed: "untimed x = untimed y \<Longrightarrow> pkt_at cid cs i x = pkt_at cid cs i y"
  by (simp add: pkt_at_def untimed_eqD [of x y])

lemma pkt_at_append: "pkt_at cid cs i x \<Longrightarrow> pkt_at cid (cs @ ds) i x"
  by (simp add: pkt_at_def nth_append)

lemma queue_at_length: "queue_at cid cs b es \<Longrightarrow> b + length es = length cs"
  by (induction es arbitrary: b) fastforce+

lemma queue_at_nth: "queue_at cid cs b es \<Longrightarrow> j < length es \<Longrightarrow> pkt_at cid cs (b + j) (es ! j)"
  by (induction es arbitrary: b j) (auto simp: nth_Cons split: nat.splits, fastforce)

lemma queue_at_drop: "queue_at cid cs b es \<Longrightarrow> j \<le> length es \<Longrightarrow> queue_at cid cs (b + j) (drop j es)"
proof (induction es arbitrary: b j)
  case (Cons e es)
  show ?case
  proof (cases j)
    case 0
    with Cons.prems show ?thesis by simp
  next
    case (Suc j')
    with Cons.IH [of "Suc b" j'] Cons.prems show ?thesis by simp
  qed
qed simp

lemma queue_at_untimed:
  "map untimed es = map untimed es' \<Longrightarrow> queue_at cid cs b es = queue_at cid cs b es'"
proof (induction es arbitrary: b es')
  case (Cons e es)
  then obtain e' es'' where es': "es' = e' # es''" by (cases es') auto
  with Cons.prems have "untimed e = untimed e'" "map untimed es = map untimed es''" by simp_all
  then show ?case
    using pkt_at_untimed [of e e' cid cs b] Cons.IH [of es'' "Suc b"] unfolding es' by simp
qed simp

lemma queue_at_append:
  assumes "queue_at cid cs b es" "queue_at cid (cs @ ds) (length cs) fs"
  shows "queue_at cid (cs @ ds) b (es @ fs)"
  using assms by (induction es arbitrary: b) (auto intro: pkt_at_append)

lemma queue_at_data:
  "queue_at cid cs b es \<Longrightarrow> map f_data es = drop b cs"
proof (induction es arbitrary: b)
  case (Cons e es)
  then have "f_data e = cs ! b" "b < length cs" "map f_data es = drop (Suc b) cs"
    by (simp_all add: pkt_at_def)
  then show ?case using Cons_nth_drop_Suc [of b cs] by simp
qed simp

lemma unat_of_nat_u32: "i < 2 ^ 32 \<Longrightarrow> unat (of_nat i :: u32) = i"
  by (simp add: unat_of_nat)

lemma of_nat_u32_less:
  "i < 2 ^ 32 \<Longrightarrow> j < 2 ^ 32 \<Longrightarrow> (of_nat i :: u32) < of_nat j \<longleftrightarrow> i < j"
  by (simp add: word_less_nat_alt unat_of_nat)

lemma of_nat_u32_eq:
  "i < 2 ^ 32 \<Longrightarrow> j < 2 ^ 32 \<Longrightarrow> (of_nat i :: u32) = of_nat j \<longleftrightarrow> i = j"
  by (metis linorder_neq_iff of_nat_u32_less)

lemma queue_at_ack:
  assumes "queue_at cid cs b (map e_skb es)" "chunks_ok cs" "i \<le> length cs"
  shows "\<exists>b'. b' \<le> max b i \<and> queue_at cid cs b' (map e_skb (dropWhile (\<lambda>e. e_seq e < of_nat (10 + i)) es))"
  using assms(1)
proof (induction es arbitrary: b)
  case (Cons e es)
  then have pkt: "pkt_at cid cs b (e_skb e)" and rest: "queue_at cid cs (Suc b) (map e_skb es)" by simp_all
  have "e_seq e < of_nat (10 + i) \<longleftrightarrow> b < i"
    using pkt assms(2,3) unfolding pkt_at_def chunks_ok_def by (simp add: of_nat_u32_less del: of_nat_add)
  with Cons.IH [OF rest] Cons.prems show ?case
    by (cases "b < i") (auto simp: max_def)
qed auto

subsection \<open>The sender keeps the invariant\<close>

lemma queue_at_member: "queue_at cid cs b es \<Longrightarrow> x \<in> set es \<Longrightarrow> \<exists>i. pkt_at cid cs i x"
  by (induction es arbitrary: b) auto

lemma queue_at_seg_frames:
  assumes "c_id con = cid"
  shows "queue_at cid (cs @ ds) (length cs) (seg_frames E con mac (of_nat (10 + length cs)) ds)"
proof (induction ds arbitrary: cs)
  case (Cons d ds)
  have "pkt_at cid (cs @ d # ds) (length cs)
      (data_frame E (con\<lparr>c_next_seq := of_nat (10 + length cs)\<rparr>) mac d)"
    using assms by (simp add: pkt_at_def)
  moreover have "queue_at cid ((cs @ [d]) @ ds) (length (cs @ [d]))
      (seg_frames E con mac (of_nat (10 + length (cs @ [d]))) ds)"
    by (rule Cons.IH)
  ultimately show ?case by (simp add: algebra_simps)
qed simp

lemma i2minip_fwd_idle:
  assumes "healthy E" "\<not> (can_send con \<and> 0 < fst (recv (MINIP_MSS * unat (c_window con))))"
    and "pepdna_con_i2minip_fwd E mac recv con q = (rc, con', q', out)"
  shows "con' = con" "q' = q" "out = []" "rc \<le> 0"
  using assms
  by (auto simp: pepdna_con_i2minip_fwd_def Let_def healthy_def split: if_splits prod.splits)

lemma snd_at_send:
  assumes inv: "snd_at cid cs b n" and E: "healthy E"
    and recv: "recv (MINIP_MSS * unat (c_window (n_con n))) = r"
    and law: "recv_law (MINIP_MSS * unat (c_window (n_con n))) r"
    and nowrap: "unat (c_next_seq (n_con n)) + unat (c_window (n_con n)) < 2 ^ 32"
    and run: "pepdna_con_i2minip_fwd E mac recv (n_con n) (n_q n) = (rc, con', q', out)"
  shows "\<exists>ds. snd_at cid (cs @ ds) b (n\<lparr>n_con := con', n_q := q', n_frames := n_frames n @ out,
                        n_read := n_read n @ (if 0 < rc then snd r else [])\<rparr>)"
proof (cases "can_send (n_con n) \<and> 0 < fst r")
  case False
  then have idle: "con' = n_con n" "q' = n_q n" "out = []" "rc \<le> 0"
    using i2minip_fwd_idle [OF E _ run] recv by blast+
  have "snd_at cid (cs @ []) b (n\<lparr>n_con := con', n_q := q', n_frames := n_frames n @ out,
      n_read := n_read n @ (if 0 < rc then snd r else [])\<rparr>)"
    using inv idle by (simp add: snd_at_def)
  then show ?thesis by blast
next
  case True
  obtain read buff where r: "r = (read, buff)" by force
  let ?c = "n_con n" and ?ds = "segs buff"
  let ?fs = "seg_frames E ?c mac (c_next_seq ?c) ?ds"
  have read: "0 < read" "read = int (length buff)" "length ?ds \<le> unat (c_window ?c)"
    using True law r by (auto simp: recv_law_def intro: length_segs)
  have res: "rc = read" "con' = after_send ?c (length ?ds)" "q' = push_all (n_q n) ?fs" "out = ?fs"
    using i2minip_fwd_healthy [OF E, of ?c recv read buff mac "n_q n"] True recv r read run by auto
  have inv': "n_read n = concat cs" "chunks_ok cs" "c_id ?c = cid" "c_next_seq ?c = of_nat (10 + length cs)"
    "queue_at cid cs b (q_skbs (n_q n))" "\<forall>f\<in>set (n_frames n). \<exists>i. pkt_at cid cs i f"
    "q_len (rq_queue (n_q n)) = int (length (q_head (rq_queue (n_q n))))"
    using inv by (auto simp: snd_at_def)
  have small: "10 + length cs < 2 ^ 32" using inv'(2) by (simp add: chunks_ok_def)
  then have "unat (c_next_seq ?c) = 10 + length cs" unfolding inv'(4) by (rule unat_of_nat_u32)
  then have chunks: "chunks_ok (cs @ ?ds)"
    using inv'(2) nowrap read(3) segs_short [of buff] by (auto simp: chunks_ok_def)
  have fs: "queue_at cid (cs @ ?ds) (length cs) ?fs"
    unfolding inv'(4) using inv'(3) by (rule queue_at_seg_frames)
  have frames: "\<exists>i. pkt_at cid (cs @ ?ds) i f" if "f \<in> set (n_frames n @ ?fs)" for f
    using that inv'(6) queue_at_member [OF fs] pkt_at_append by (auto, blast)
  have "q_skbs q' = q_skbs (n_q n) @ ?fs" by (simp add: res push_all_def comp_def)
  then have q: "queue_at cid (cs @ ?ds) b (q_skbs q')"
    using queue_at_append [OF inv'(5) fs] by simp
  have "snd_at cid (cs @ ?ds) b (n\<lparr>n_con := con', n_q := q', n_frames := n_frames n @ out,
      n_read := n_read n @ (if 0 < rc then snd r else [])\<rparr>)"
    using inv'(1,3,4,7) chunks q frames read(1) unfolding snd_at_def
    by (simp add: res r concat_segs push_all_def)
  then show ?thesis by blast
qed

lemma rtxq_full_rtx_queue:
  assumes "rtxq_full_rtx n xmit (Some q) ack = (rc, Some q', out)"
  shows "map untimed (q_skbs q') = map untimed (q_skbs q)"
    and "set (map untimed out) \<subseteq> set (map untimed (q_skbs q))"
    and "q_len (rq_queue q') = q_len (rq_queue q)"
proof -
  obtain qu rc' where qu: "rtxqueue_entries_rtx n xmit (rq_queue q) ack = (rc', qu, out)"
    and q': "q' = q\<lparr>rq_queue := qu\<rparr>"
    using assms by (auto simp: rtxq_full_rtx_def split: prod.splits)
  show "map untimed (q_skbs q') = map untimed (q_skbs q)"
    "set (map untimed out) \<subseteq> set (map untimed (q_skbs q))" "q_len (rq_queue q') = q_len (rq_queue q)"
    using rtxqueue_entries_rtx_head [OF qu] by (simp_all add: q')
qed

lemma snd_at_rtx:
  assumes inv: "snd_at cid cs b n" and rtx: "rtxq_full_rtx m xmit (Some (n_q n)) ack = (rc, Some q', out)"
    and con': "c_id con' = c_id (n_con n)" "c_next_seq con' = c_next_seq (n_con n)"
  shows "snd_at cid cs b (n\<lparr>n_con := con', n_q := q', n_frames := n_frames n @ out\<rparr>)"
proof -
  have q: "queue_at cid cs b (q_skbs (n_q n))" using inv by (simp add: snd_at_def)
  have "queue_at cid cs b (q_skbs q')"
    using queue_at_untimed [OF rtxq_full_rtx_queue(1) [OF rtx]] q by blast
  moreover have "\<exists>i. pkt_at cid cs i f" if "f \<in> set out" for f
  proof -
    have "untimed f \<in> set (map untimed (q_skbs (n_q n)))"
      using rtxq_full_rtx_queue(2) [OF rtx] that by auto
    then obtain x where x: "untimed f = untimed x" "x \<in> set (q_skbs (n_q n))" by auto
    from queue_at_member [OF q x(2)] show ?thesis using pkt_at_untimed [OF x(1)] by simp
  qed
  moreover have "length (q_head (rq_queue q')) = length (q_head (rq_queue (n_q n)))"
    using map_eq_imp_length_eq [OF rtxq_full_rtx_queue(1) [OF rtx]] by simp
  ultimately show ?thesis
    using inv con' rtxq_full_rtx_queue(3) [OF rtx] by (auto simp: snd_at_def)
qed

lemma recv_ack_next_seq:
  assumes "recv_ack_con E hdr con q = (r, con', q', out)"
  shows "c_next_seq con' = c_next_seq con"
proof (cases "ntohl (h_ack hdr)" "c_last_acked con" rule: linorder_cases)
  case equal
  show ?thesis
    using assms unfolding recv_ack_con_dup [OF equal] by (auto simp: Let_def split: if_splits)
qed (use assms in \<open>auto simp: recv_ack_con_old recv_ack_con_new\<close>)

lemma snd_at_same:
  "snd_at cid cs b n \<Longrightarrow> c_id con' = c_id (n_con n) \<Longrightarrow> c_next_seq con' = c_next_seq (n_con n) \<Longrightarrow>
     snd_at cid cs b (n\<lparr>n_con := con', n_q := n_q n, n_frames := n_frames n @ []\<rparr>)"
  by (simp add: snd_at_def)

lemma snd_at_ack:
  assumes inv: "snd_at cid cs b n" and i: "ntohl (h_ack hdr) = of_nat (10 + i)" "i \<le> length cs"
    and run: "recv_ack_con E hdr (n_con n) (n_q n) = (res, con', q', out)"
  shows "\<exists>b'\<le>max b i. snd_at cid cs b' (n\<lparr>n_con := con', n_q := q', n_frames := n_frames n @ out\<rparr>)"
proof (cases "res = Ack_new")
  case True
  note new = recv_ack_new [OF run [unfolded True]]
  have "queue_at cid cs b (map e_skb (q_head (rq_queue (n_q n))))" "chunks_ok cs"
    using inv by (simp_all add: snd_at_def)
  from queue_at_ack [OF this i(2)] obtain b' where b': "b' \<le> max b i"
    and q: "queue_at cid cs b' (q_skbs q')"
    unfolding new(3) acked_queue_def i(1) by auto
  have "c_next_seq con' = c_next_seq (n_con n)" "c_id con' = c_id (n_con n)"
    unfolding new(2) by simp_all
  moreover have "q_len (rq_queue q') = int (length (q_head (rq_queue q')))"
    using inv length_take_drop_While [of "\<lambda>e. e_seq e < ntohl (h_ack hdr)" "q_head (rq_queue (n_q n))"]
    unfolding new(3) by (simp add: acked_queue_def snd_at_def)
  ultimately have "snd_at cid cs b' (n\<lparr>n_con := con', n_q := q', n_frames := n_frames n @ out\<rparr>)"
    using inv q new(4) by (simp add: snd_at_def)
  with b' show ?thesis by blast
next
  case False
  have con': "c_id con' = c_id (n_con n)" "c_next_seq con' = c_next_seq (n_con n)"
    using recv_ack_core [OF run] recv_ack_next_seq [OF run] by (simp_all add: same_core_def)
  have "snd_at cid cs b (n\<lparr>n_con := con', n_q := q', n_frames := n_frames n @ out\<rparr>)"
    using recv_ack_cases [OF run] False snd_at_rtx [OF inv _ con'] snd_at_same [OF inv con'] by auto
  then show ?thesis by (meson le_max_iff_disj order_refl)
qed

lemma snd_at_timeout:
  assumes inv: "snd_at cid cs b n"
    and run: "sender_timeout_con E (n_con n) (n_q n) = (failed, con', q', out)"
  shows "snd_at cid cs b (n\<lparr>n_con := con', n_q := q', n_frames := n_frames n @ out\<rparr>)"
proof (cases "rtxq_size (n_q n) = 0")
  case True
  then show ?thesis
    using run snd_at_same [OF inv, of con'] by (auto simp: sender_timeout_con_def)
next
  case False
  obtain rc q1 out1 where rtx: "rtxq_full_rtx (now_ms E) (dev_queue_xmit E) (Some (n_q n))
      (c_last_acked (n_con n) + 1) = (rc, Some q1, out1)"
    using rtxq_full_rtx_Some by blast
  then have "q' = q1" "out = out1" "c_id con' = c_id (n_con n)" "c_next_seq con' = c_next_seq (n_con n)"
    using run False by (auto simp: sender_timeout_con_def Let_def split: if_splits)
  with snd_at_rtx [OF inv rtx] show ?thesis by simp
qed

subsection \<open>The receiver keeps the invariant\<close>

lemma con_find_same_ids:
  assumes "g_srv w' = g_srv w" "\<And>b. map_option c_id (g_cons w' b) = map_option c_id (g_cons w b)"
  shows "pepdna_con_find E k w' = pepdna_con_find E k w"
proof -
  have "has_id w' k b = has_id w k b" for b
    using assms(2) [of b] by (auto simp: has_id_def split: option.splits)
  then have "has_id w' k = has_id w k" by blast
  then show ?thesis using assms(1) by (cases "g_srv w") (simp_all add: pepdna_con_find_def)
qed

lemma taken_append: "taken s (es @ fs) = taken s es @ taken s fs"
  by (induction es rule: taken.induct) auto

lemma send_ack_out:
  "healthy E \<Longrightarrow> g_out (snd (pepdna_minip_send_ack E i ack m ts w)) = g_out w @
     [new_frame E m (\<lambda>h. h\<lparr>h_pkt_type := pkt_code MINIP_CONN_ACK, h_sdu_len := 0, h_id := htonl i,
        h_ack := htonl ack, h_ts := ts\<rparr>) []]"
  by (simp add: pepdna_minip_send_ack_def xmit_frame_def healthy_def)

lemma pkt_at_len:
  assumes "pkt_at cid cs i skb" "chunks_ok cs"
  shows "unat (h_sdu_len (f_hdr skb)) = length (f_data skb)" "f_data skb \<noteq> []"
proof -
  have len: "length (f_data skb) \<le> MINIP_MSS" "f_data skb \<noteq> []"
    using assms by (auto simp: pkt_at_def chunks_ok_def)
  then show "f_data skb \<noteq> []" by blast
  have "length (f_data skb) < 2 ^ 16" using len by (simp add: MINIP_MSS_def)
  then show "unat (h_sdu_len (f_hdr skb)) = length (f_data skb)"
    using assms(1) by (simp add: pkt_at_def unat_of_nat)
qed

text \<open>The last frame the receiver sent acknowledges everything before packet \<open>r\<close>.\<close>

definition acks :: "nat \<Rightarrow> world \<Rightarrow> bool" where
  "acks r w \<longleftrightarrow> g_out w \<noteq> [] \<and> h_pkt_type (f_hdr (last (g_out w))) = pkt_code MINIP_CONN_ACK
     \<and> ntohl (h_ack (f_hdr (last (g_out w)))) = of_nat (10 + r)"

lemma rcv_at_miss:
  assumes inv: "rcv_at cid H a s r w" and E: "healthy E" "hash_min E = H"
    and pkt: "pkt_at cid cs i skb" "i \<noteq> r" "chunks_ok cs" "r \<le> length cs"
    and run: "pepdna_minip_recv_data E rs (f_hdr skb) skb w = (Some 0, w')"
  shows "rcv_at cid H a s r w' \<and> g_log w' = g_log w \<and> acks r w'"
proof -
  obtain con where con: "g_cons w a = Some con" "c_id con = cid" "c_next_recv con = of_nat (10 + r)"
    "c_lsock con = Some s" using inv by (auto simp: rcv_at_def)
  have find: "pepdna_con_find E (ntohl (h_id (f_hdr skb))) w = Some a"
    using inv E(2) pkt(1) by (simp add: rcv_at_def pkt_at_def)
  have "skb_seq_get skb \<noteq> c_next_recv con"
    using pkt con(3) of_nat_u32_eq [of "10 + i" "10 + r"] by (simp add: pkt_at_def chunks_ok_def)
  from recv_data_miss [OF find con(1) this, of rs] run
  have w': "w' = snd (pepdna_minip_send_ack E (c_id con) (c_next_recv con) (to_mac w) (h_ts (f_hdr skb)) w)"
    by simp
  have "pepdna_con_find E' cid w' = pepdna_con_find E' cid w" for E'
    unfolding w' by (rule con_find_same_ids) simp_all
  moreover have "\<exists>i\<le>r. ntohl (h_ack (f_hdr f)) = of_nat (10 + i)"
    if "f \<in> set (g_out w')" "h_pkt_type (f_hdr f) = pkt_code MINIP_CONN_ACK" for f
    using that inv con(3) unfolding w' send_ack_out [OF E(1)]
    by (auto simp: rcv_at_def new_frame_def)
  moreover have "acks r w'"
    unfolding acks_def w' send_ack_out [OF E(1)] by (simp add: new_frame_def con(3))
  ultimately show ?thesis
    using inv con unfolding rcv_at_def by (simp add: w')
qed

lemma rcv_at_hit:
  assumes inv: "rcv_at cid H a s r w" and E: "healthy E" "hash_min E = H"
    and pkt: "pkt_at cid cs r skb" "chunks_ok cs"
    and law: "sendmsg_law rs (length (f_data skb))"
    and sent: "fst (pepdna_sock_write rs s (f_data skb) w) = Some sent" "0 \<le> sent"
  shows "\<exists>w'. pepdna_minip_recv_data E rs (f_hdr skb) skb w = (Some 0, w')
     \<and> rcv_at cid H a s (Suc r) w' \<and> g_log w' = g_log w @ [Ev_sent s (cs ! r)] \<and> acks (Suc r) w'"
proof -
  obtain con where con: "g_cons w a = Some con" "c_id con = cid" "c_next_recv con = of_nat (10 + r)"
    "c_lsock con = Some s" using inv by (auto simp: rcv_at_def)
  obtain k where k: "g_socks w s = Some k" using inv by (auto simp: rcv_at_def)
  have find: "pepdna_con_find E (ntohl (h_id (f_hdr skb))) w = Some a"
    using inv E(2) pkt(1) by (simp add: rcv_at_def pkt_at_def)
  have seq: "skb_seq_get skb = c_next_recv con" using pkt(1) con(3) by (simp add: pkt_at_def)
  obtain w' where w': "pepdna_minip_recv_data E rs (f_hdr skb) skb w = (Some 0, w')"
    "g_log w' = g_log w @ [Ev_sent s (f_data skb)]"
    "g_cons w' = (g_cons w)(a \<mapsto> con\<lparr>c_next_recv := c_next_recv con + 1\<rparr>)"
    "g_out w' = g_out (snd (pepdna_minip_send_ack E (c_id con) (c_next_recv con + 1) (to_mac w)
                          (h_ts (f_hdr skb)) w))"
    "g_srv w' = g_srv w" "g_socks w' = g_socks w"
    using recv_data_hit [OF find con(1,4) k pkt_at_len [OF pkt] law sent seq] by blast
  have nxt: "c_next_recv con + 1 = of_nat (10 + Suc r)" using con(3) by simp
  have "pepdna_con_find E' cid w' = pepdna_con_find E' cid w" for E'
    by (rule con_find_same_ids) (use w'(3,5) con in auto)
  moreover have "\<exists>i\<le>Suc r. ntohl (h_ack (f_hdr f)) = of_nat (10 + i)"
    if "f \<in> set (g_out w')" "h_pkt_type (f_hdr f) = pkt_code MINIP_CONN_ACK" for f
    using that inv unfolding w'(4) send_ack_out [OF E(1)] nxt
    by (auto simp: rcv_at_def new_frame_def) (metis le_SucI)+
  ultimately have "rcv_at cid H a s (Suc r) w'"
    using inv con w'(3,6) nxt unfolding rcv_at_def by simp
  moreover have "acks (Suc r) w'"
    unfolding acks_def w'(4) send_ack_out [OF E(1)] nxt by (simp add: new_frame_def)
  ultimately show ?thesis using w' pkt(1) by (simp add: pkt_at_def)
qed

subsection \<open>Every step keeps the invariant\<close>

lemma snd_data_loop_last_acked:
  "snd_data_loop E mac con q left sent = (r, con', q', out) \<Longrightarrow> c_last_acked con' = c_last_acked con"
proof (induction E mac con q left sent arbitrary: r con' q' out rule: snd_data_loop.induct)
  case (1 E mac con q left sent)
  have seg: "c_last_acked (next_segment con) = c_last_acked con" by (simp add: next_segment_def Let_def)
  let ?n = "min (length left) MINIP_MSS"
  obtain rc q1 out1 where send: "pepdna_minip_skb_send E mac con q (take ?n left) = (rc, q1, out1)"
    by (rule prod_cases3)
  obtain r2 con2 q2 out2 where
    rec: "snd_data_loop E mac (next_segment con) q1 (drop ?n left) (sent + ?n) = (r2, con2, q2, out2)"
    by (rule prod_cases4)
  show ?case
  proof (cases "left = [] \<or> rc < 0")
    case True
    then show ?thesis
      using 1(2) send by (auto simp: snd_data_loop.simps [of _ _ _ _ left] Let_def split: if_splits)
  next
    case False
    then have "con' = con2"
      using 1(2) send rec by (simp add: snd_data_loop.simps [of _ _ _ _ left] Let_def)
    moreover have "c_last_acked con2 = c_last_acked (next_segment con)"
      using 1(1) [OF _ refl send [symmetric] refl _ rec] False by simp
    ultimately show ?thesis using seg by simp
  qed
qed

lemma i2minip_fwd_last_acked:
  "pepdna_con_i2minip_fwd E mac recv con q = (rc, con', q', out) \<Longrightarrow> c_last_acked con' = c_last_acked con"
  by (auto simp: pepdna_con_i2minip_fwd_def pepdna_minip_conn_snd_data_def Let_def
      split: prod.splits if_splits dest: snd_data_loop_last_acked)

lemma acked_at_Suc: "acked_at r con \<Longrightarrow> acked_at (Suc r) con"
  unfolding acked_at_def by (meson le_SucI max.mono order_refl order_trans)

lemma acked_at_ack:
  assumes "acked_at r con" "i \<le> r" "ntohl (h_ack hdr) = of_nat (10 + i)"
    and run: "recv_ack_con E hdr con q = (res, con', q', out)"
  shows "acked_at r con'"
proof (cases "ntohl (h_ack hdr)" "c_last_acked con" rule: linorder_cases)
  case greater
  then have "c_last_acked con' = ntohl (h_ack hdr) - 1"
    using run by (auto simp: recv_ack_con_new)
  then have "c_last_acked con' = of_nat (9 + i)" using assms(3) by simp
  then show ?thesis using assms(2) unfolding acked_at_def by (metis max.coboundedI2)
next
  case equal
  have "c_last_acked con' = c_last_acked con"
    using run unfolding recv_ack_con_dup [OF equal] by (auto simp: Let_def split: if_splits)
  then show ?thesis using assms(1) by (simp add: acked_at_def)
qed (use run assms(1) in \<open>auto simp: recv_ack_con_old\<close>)

definition net_inv :: "u32 \<Rightarrow> (u32 \<Rightarrow> nat \<Rightarrow> nat) \<Rightarrow> nat \<Rightarrow> nat \<Rightarrow> net \<Rightarrow> bool" where
  "net_inv cid H a s n \<longleftrightarrow> (\<exists>cs b r. net_at cid H a s cs b r n)"

lemma net_at_step:
  assumes "net_step H a s n n'" "net_at cid H a s cs b r n"
  shows "\<exists>ds b' r'. net_at cid H a s (cs @ ds) b' r' n' \<and> r \<le> r' \<and> (ds = [] \<or> r' = r)"
  using assms
proof cases
  case (send E recv r0 mac rc con' q' out)
  have "snd_at cid cs b n" using assms(2) by (simp add: net_at_def)
  from snd_at_send [OF this send(2-6)] obtain ds where ds: "snd_at cid (cs @ ds) b n'"
    unfolding send(1) by blast
  have "c_last_acked con' = c_last_acked (n_con n)" by (rule i2minip_fwd_last_acked [OF send(6)])
  then have "net_at cid H a s (cs @ ds) b r n'"
    using ds assms(2) send(1) by (simp add: net_at_def delivered_def acked_at_def)
  then show ?thesis by blast
next
  case (ack f E res con' q' out)
  obtain i where i: "i \<le> r" "ntohl (h_ack (f_hdr f)) = of_nat (10 + i)"
    using assms(2) ack(2,3) by (auto simp: net_at_def rcv_at_def)
  have "snd_at cid cs b n" "i \<le> length cs" using assms(2) i(1) by (simp_all add: net_at_def)
  from snd_at_ack [OF this(1) i(2) this(2) ack(4)] obtain b' where "b' \<le> max b i" "snd_at cid cs b' n'"
    unfolding ack(1) by blast
  moreover have "acked_at r con'"
    using acked_at_ack [OF _ i ack(4)] assms(2) by (simp add: net_at_def)
  ultimately have "net_at cid H a s (cs @ []) b' r n'"
    using assms(2) i(1) ack(1) by (auto simp: net_at_def delivered_def)
  then show ?thesis by blast
next
  case (timeout E failed con' q' out)
  have "c_last_acked con' = c_last_acked (n_con n)"
    using timeout(3) by (auto simp: sender_timeout_con_def Let_def split: if_splits prod.splits)
  then have "net_at cid H a s (cs @ []) b r n'"
    using snd_at_timeout [OF _ timeout(3)] assms(2) timeout(1)
    by (simp add: net_at_def delivered_def acked_at_def)
  then show ?thesis by blast
next
  case (deliver E skb rs sent w')
  obtain i where i: "pkt_at cid cs i skb" using assms(2) deliver(3) by (auto simp: net_at_def snd_at_def)
  have inv: "rcv_at cid H a s r (n_rcv n)" "chunks_ok cs" "r \<le> length cs" "i < length cs"
    using assms(2) i by (auto simp: net_at_def snd_at_def pkt_at_def)
  show ?thesis
  proof (cases "i = r")
    case True
    have "rcv_at cid H a s (Suc r) w'" "g_log w' = g_log (n_rcv n) @ [Ev_sent s (cs ! r)]"
      using rcv_at_hit [OF inv(1) deliver(2,4) i [unfolded True] inv(2) deliver(5-7)] deliver(8) by auto
    then have "net_at cid H a s (cs @ []) b (Suc r) n'"
      using assms(2) deliver(1) inv(4) True
      by (auto simp: net_at_def snd_at_def delivered_def taken_append take_Suc_conv_app_nth acked_at_Suc)
    then show ?thesis by (metis le_SucI order_refl)
  next
    case False
    have "rcv_at cid H a s r w'" "g_log w' = g_log (n_rcv n)"
      using rcv_at_miss [OF inv(1) deliver(2,4) i False inv(2,3) deliver(8)] by auto
    then have "net_at cid H a s (cs @ []) b r n'"
      using assms(2) deliver(1) by (simp add: net_at_def snd_at_def delivered_def)
    then show ?thesis by blast
  qed
qed

subsection \<open>The stream arrives in order\<close>

text \<open>
  The start: the handshake is over, both sides agree on the first sequence number, and
  nothing was sent.
\<close>

definition net_init :: "u32 \<Rightarrow> (u32 \<Rightarrow> nat \<Rightarrow> nat) \<Rightarrow> nat \<Rightarrow> nat \<Rightarrow> net \<Rightarrow> bool" where
  "net_init cid H a s n \<longleftrightarrow>
     c_id (n_con n) = cid \<and> c_next_seq (n_con n) = MINIP_FIRST_SEQ + 1
     \<and> c_last_acked (n_con n) = MINIP_FIRST_SEQ + 1 \<and> rq_queue (n_q n) = \<lparr>q_len = 0, q_head = []\<rparr>
     \<and> n_frames n = [] \<and> n_read n = [] \<and> delivered s n = []
     \<and> (\<forall>E. hash_min E = H \<longrightarrow> pepdna_con_find E cid (n_rcv n) = Some a)
     \<and> (\<exists>con. g_cons (n_rcv n) a = Some con \<and> c_id con = cid \<and> c_next_recv con = MINIP_FIRST_SEQ + 1
            \<and> c_lsock con = Some s)
     \<and> g_socks (n_rcv n) s \<noteq> None
     \<and> (\<forall>f\<in>set (g_out (n_rcv n)). h_pkt_type (f_hdr f) \<noteq> pkt_code MINIP_CONN_ACK)"

lemma net_init_inv: "net_init cid H a s n \<Longrightarrow> net_at cid H a s [] 0 0 n"
proof -
  assume init: "net_init cid H a s n"
  have "(10::u32) = of_nat (9 + 1)" by simp
  then have "acked_at 0 (n_con n)"
    using init unfolding net_init_def acked_at_def MINIP_FIRST_SEQ_def by (auto intro!: exI [of _ 1])
  with init show ?thesis
    by (auto simp: net_init_def net_at_def snd_at_def rcv_at_def chunks_ok_def MINIP_FIRST_SEQ_def)
qed

lemma net_reach_inv:
  "(net_step H a s)\<^sup>*\<^sup>* m n \<Longrightarrow> net_at cid H a s cs b r m \<Longrightarrow> \<exists>cs b r. net_at cid H a s cs b r n"
proof (induction rule: rtranclp_induct)
  case (step y z)
  then show ?case using net_at_step by meson
qed blast

text \<open>
  What the two proxies promise to their sockets: a byte stream. It takes in bytes on one
  side and gives out, in order, bytes it took in and has not given out yet.
\<close>

inductive stream_step :: "bytes \<times> bytes \<Rightarrow> bytes \<times> bytes \<Rightarrow> bool" where
  stream_in: "stream_step (i, d) (i @ bs, d)"
| stream_out: "prefix (d @ bs) i \<Longrightarrow> stream_step (i, d) (i, d @ bs)"

lemma stream_prefix: "stream_step\<^sup>*\<^sup>* x y \<Longrightarrow> prefix (snd x) (fst x) \<Longrightarrow> prefix (snd y) (fst y)"
proof (induction rule: rtranclp_induct)
  case (step y z)
  from step(2,3,4) show ?case by (auto elim!: stream_step.cases)
qed

lemma net_step_stream:
  assumes "net_step H a s n n'" "net_at cid H a s cs b r n"
  shows "stream_step (n_read n, delivered s n) (n_read n', delivered s n')"
proof -
  obtain ds b' r' where at: "net_at cid H a s (cs @ ds) b' r' n'" "r \<le> r'" "ds = [] \<or> r' = r"
    using net_at_step [OF assms] by blast
  have old: "n_read n = concat cs" "delivered s n = concat (take r cs)" "r \<le> length cs"
    using assms(2) by (simp_all add: net_at_def snd_at_def)
  have new: "n_read n' = concat (cs @ ds)" "delivered s n' = concat (take r' (cs @ ds))"
    using at(1) by (simp_all add: net_at_def snd_at_def)
  show ?thesis
  proof (cases "ds = []")
    case True
    have "take r' cs = take r cs @ take (r' - r) (drop r cs)"
      using at(2) by (metis le_add_diff_inverse take_add)
    moreover have "cs = take r cs @ take (r' - r) (drop r cs) @ drop (r' - r) (drop r cs)"
      by (metis append_take_drop_id)
    then have "prefix (concat (take r cs) @ concat (take (r' - r) (drop r cs))) (concat cs)"
      by (metis concat_append append_assoc prefixI)
    ultimately show ?thesis using old new True by (simp add: stream_out)
  next
    case False
    then show ?thesis using at(3) old new by (simp add: stream_in)
  qed
qed

text \<open>
  C1. The two proxies implement a byte stream, as long as the kernel services succeed when data is
  sent, the receiver's socket takes what it is given and the sequence numbers do not wrap. Over a
  network that loses, duplicates and reorders packets and acknowledgements, every step of sender or
  receiver is a step of the stream, so at any time the bytes written to the right socket are a prefix of the bytes
  read from the left one: nothing is lost in the middle, duplicated or reordered.
\<close>

theorem minip_refines_stream:
  assumes "net_init cid H a s m" "(net_step H a s)\<^sup>*\<^sup>* m n"
  shows "stream_step\<^sup>*\<^sup>* ([], []) (n_read n, delivered s n) \<and> prefix (delivered s n) (n_read n)"
proof -
  have start: "(n_read m, delivered s m) = ([], [])" using assms(1) by (simp add: net_init_def)
  have "stream_step\<^sup>*\<^sup>* (n_read m, delivered s m) (n_read n, delivered s n)"
    using assms(2)
  proof (induction rule: rtranclp_induct)
    case (step y z)
    obtain cs b r where "net_at cid H a s cs b r y"
      using net_reach_inv [OF step(1) net_init_inv [OF assms(1)]] by blast
    from net_step_stream [OF step(2) this] step(3) show ?case by (meson rtranclp.rtrancl_into_rtrancl)
  qed simp
  then have "stream_step\<^sup>*\<^sup>* ([], []) (n_read n, delivered s n)" by (simp add: start)
  with stream_prefix [OF this] show ?thesis by simp
qed

text \<open>
  C2. As long as the kernel services succeed when data is sent (memory is allocated and the device
  takes the frames), the receiver's socket takes what it is given and the sequence numbers do not
  wrap, nothing is forgotten while it can still be needed, whatever the network loses, duplicates and
  reorders: the bytes read from the left socket are the bytes written to the right one followed by
  the payloads of the last packets of the sender's retransmission queue. When a service fails in the
  middle of a send this does not hold: see \<open>partial_send_loses\<close> below.
\<close>

theorem minip_no_loss:
  assumes "net_init cid H a s m" "(net_step H a s)\<^sup>*\<^sup>* m n"
  shows "\<exists>k. n_read n = delivered s n @ concat (map (f_data \<circ> e_skb) (drop k (q_head (rq_queue (n_q n)))))"
proof -
  obtain cs b r where at: "net_at cid H a s cs b r n"
    using net_reach_inv [OF assms(2) net_init_inv [OF assms(1)]] by blast
  then have "queue_at cid cs b (q_skbs (n_q n))" by (simp add: net_at_def snd_at_def)
  then have q: "map f_data (q_skbs (n_q n)) = drop b cs" by (rule queue_at_data)
  have "map (f_data \<circ> e_skb) (drop (r - b) (q_head (rq_queue (n_q n)))) = drop (r - b) (map f_data (q_skbs (n_q n)))"
    by (simp add: drop_map)
  also have "\<dots> = drop r cs" unfolding q using at by (simp add: net_at_def)
  finally have "map (f_data \<circ> e_skb) (drop (r - b) (q_head (rq_queue (n_q n)))) = drop r cs" .
  moreover have "concat cs = concat (take r cs) @ concat (drop r cs)"
    by (metis append_take_drop_id concat_append)
  ultimately show ?thesis using at by (metis net_at_def snd_at_def)
qed

text \<open>
  Bytes are lost when memory runs out between two segments: only the first segment is queued, yet the
  call reports all bytes it read as forwarded, and its caller does not look at what was sent.
\<close>

lemma partial_send_loses:
  assumes "can_send con" "kzalloc E A_buffer" "recv (MINIP_MSS * unat (c_window con)) = (read, buff)"
    and "read = int (length buff)" "MINIP_MSS < length buff" "\<And>s. 0 \<le> dev_queue_xmit E s" "0 \<le> dev_hard_header E"
    and "kzalloc E (A_skb MINIP_CONN_DATA (c_next_seq con))" "kzalloc E (A_clone (c_next_seq con))"
    and "kzalloc E (A_entry (c_next_seq con))" "\<not> kzalloc E (A_skb MINIP_CONN_DATA (c_next_seq con + 1))"
  shows "\<exists>con' q' out. pepdna_con_i2minip_fwd E mac recv con q = (read, con', q', out)
    \<and> q_skbs q' = q_skbs q @ [data_frame E con mac (take MINIP_MSS buff)]"
proof -
  let ?f = "data_frame E con mac (take MINIP_MSS buff)"
  define q1 where "q1 = snd (rtxq_push True q ?f)"
  have q1: "q_skbs q1 = q_skbs q @ [?f]" by (simp add: q1_def rtxq_push_def rtxqueue_push_def rtxq_entry_create_def Let_def)
  have n: "min (length buff) MINIP_MSS = MINIP_MSS" "buff \<noteq> []" "drop MINIP_MSS buff \<noteq> []"
    using assms(5) by auto
  have "\<not> dev_queue_xmit E ?f < 0" using assms(6) by (simp add: not_less)
  then have first: "pepdna_minip_skb_send E mac con q (take MINIP_MSS buff) = (dev_queue_xmit E ?f, q1, [?f])"
    using assms(7-10) by (simp add: pepdna_minip_skb_send_def q1_def rtxq_push_def rtxqueue_push_def rtxq_entry_create_def Let_def)
  have "c_next_seq (next_segment con) = c_next_seq con + 1" by (simp add: next_segment_def Let_def)
  then have "pepdna_minip_skb_send E mac (next_segment con) q1 b = (- ENOMEM, q1, [])" for b
    using assms(11) by (simp add: pepdna_minip_skb_send_def)
  then have rest: "snd_data_loop E mac (next_segment con) q1 (drop MINIP_MSS buff) k = ((k, - EIO), next_segment con, q1, [])" for k
    using n(3) by (subst snd_data_loop.simps) (simp add: Let_def)
  have "snd_data_loop E mac con q buff 0 = ((MINIP_MSS, - EIO), next_segment con, q1, [?f])"
    using n first rest [of MINIP_MSS] \<open>\<not> dev_queue_xmit E ?f < 0\<close> by (subst snd_data_loop.simps) (simp add: Let_def)
  then have "pepdna_minip_conn_snd_data E mac con q buff = (int MINIP_MSS, next_segment con, q1, [?f])"
    by (simp add: pepdna_minip_conn_snd_data_def MINIP_MSS_def)
  then have "pepdna_con_i2minip_fwd E mac recv con q = (read, next_segment con, q1, [?f])"
    using assms(1-4) n(2) by (simp add: pepdna_con_i2minip_fwd_def Let_def)
  with q1 show ?thesis by blast
qed

subsection \<open>Recovery from loss\<close>

text \<open>The receiver handling a list of packets in order, each write accepted in one call.\<close>

fun recv_frames :: "kenv \<Rightarrow> sk_buff list \<Rightarrow> world \<Rightarrow> world" where
  "recv_frames E [] w = w"
| "recv_frames E (f # fs) w =
     recv_frames E fs (snd (pepdna_minip_recv_data E [(int (length (f_data f)), [])] (f_hdr f) f w))"

lemma sock_write_whole:
  "g_socks w s \<noteq> None \<Longrightarrow> b \<noteq> [] \<Longrightarrow> fst (pepdna_sock_write [(int (length b), [])] s b w) = Some (int (length b))"
  by (auto simp: pepdna_sock_write_def)

lemma recv_frames_at:
  assumes "queue_at cid cs m fs" "m \<le> r" "r \<le> length cs" "rcv_at cid H a s r w" "chunks_ok cs"
    and "healthy E" "hash_min E = H"
  shows "taken s (g_log (recv_frames E fs w)) = taken s (g_log w) @ concat (drop r cs)
    \<and> (fs \<noteq> [] \<longrightarrow> acks (length cs) (recv_frames E fs w))"
  using assms(1-4)
proof (induction fs arbitrary: m r w)
  case (Cons f fs)
  let ?rs = "[(int (length (f_data f)), [])]"
  have pkt: "pkt_at cid cs m f" and rest: "queue_at cid cs (Suc m) fs" using Cons.prems(1) by simp_all
  have ne: "f_data f \<noteq> []" by (rule pkt_at_len(2) [OF pkt assms(5)])
  have law: "sendmsg_law ?rs (length (f_data f))" by simp
  have sock: "fst (pepdna_sock_write ?rs s (f_data f) w) = Some (int (length (f_data f)))"
    using Cons.prems(4) ne sock_write_whole by (auto simp: rcv_at_def)
  show ?case
  proof (cases "m = r")
    case True
    have "r < length cs" using pkt True by (simp add: pkt_at_def)
    then have drop: "drop r cs = cs ! r # drop (Suc r) cs" by (rule Cons_nth_drop_Suc [symmetric])
    obtain w' where w': "pepdna_minip_recv_data E ?rs (f_hdr f) f w = (Some 0, w')"
      "rcv_at cid H a s (Suc r) w'" "g_log w' = g_log w @ [Ev_sent s (cs ! r)]" "acks (Suc r) w'"
      using rcv_at_hit [OF Cons.prems(4) assms(6,7) pkt [unfolded True] assms(5) law sock] by auto
    have "acks (length cs) w'" if "fs = []" using rest that True w'(4) by simp
    then show ?thesis
      using Cons.IH [OF rest _ _ w'(2)] True \<open>r < length cs\<close> w' drop by (cases "fs = []") (simp_all add: taken_append)
  next
    case False
    have "pepdna_con_find E (ntohl (h_id (f_hdr f))) w = Some a"
      using Cons.prems(4) assms(7) pkt by (simp add: rcv_at_def pkt_at_def)
    moreover obtain con where con: "g_cons w a = Some con" "c_next_recv con = of_nat (10 + r)"
      using Cons.prems(4) by (auto simp: rcv_at_def)
    moreover have "skb_seq_get f \<noteq> c_next_recv con"
      using pkt con(2) False Cons.prems(3) assms(5) of_nat_u32_eq [of "10 + m" "10 + r"]
      by (simp add: pkt_at_def chunks_ok_def)
    ultimately obtain w' where run: "pepdna_minip_recv_data E ?rs (f_hdr f) f w = (Some 0, w')"
      using recv_data_miss by blast
    note miss = rcv_at_miss [OF Cons.prems(4) assms(6,7) pkt False assms(5) Cons.prems(3) run]
    have "r = length cs" if "fs = []" using rest that False Cons.prems(2,3) by simp
    then have "acks (length cs) w'" if "fs = []" using that miss by simp
    then show ?thesis
      using Cons.IH [OF rest _ Cons.prems(3) conjunct1 [OF miss]] False Cons.prems(2) miss run by (cases "fs = []") simp_all
  qed
qed simp

lemma queue_at_from:
  assumes "queue_at cid cs b (map e_skb es)" "chunks_ok cs" "i \<le> length cs"
  shows "\<exists>m\<le>max b i. queue_at cid cs m (map e_skb (filter (\<lambda>e. of_nat (10 + i) \<le> e_seq e) es))"
  using assms(1)
proof (induction es arbitrary: b)
  case (Cons e es)
  then have pkt: "pkt_at cid cs b (e_skb e)" and rest: "queue_at cid cs (Suc b) (map e_skb es)" by simp_all
  have less: "pkt_at cid cs j (e_skb x) \<Longrightarrow> of_nat (10 + i) \<le> e_seq x \<longleftrightarrow> i \<le> j" for j x
    using assms(2,3) of_nat_u32_less [of "10 + j" "10 + i"]
    unfolding pkt_at_def chunks_ok_def by (auto simp: not_less [symmetric])
  show ?case
  proof (cases "i \<le> b")
    case True
    have "of_nat (10 + i) \<le> e_seq x" if x: "x \<in> set (e # es)" for x
    proof -
      obtain j where "j < length (e # es)" "(e # es) ! j = x" using x by (metis in_set_conv_nth)
      then have "pkt_at cid cs (b + j) (e_skb x)"
        using queue_at_nth [OF Cons.prems, of j] by (metis length_map nth_map)
      from less [OF this] True show ?thesis by simp
    qed
    then have "filter (\<lambda>e. of_nat (10 + i) \<le> e_seq e) (e # es) = e # es" by (intro filter_True) blast
    with Cons.prems show ?thesis by (metis max.cobounded1)
  next
    case False
    with Cons.IH [OF rest] less [OF pkt] show ?thesis by (auto simp: max_def)
  qed
qed auto

text \<open>An acknowledgement of every packet sent empties the retransmission queue.\<close>

lemma ack_all_empties:
  assumes "queue_at cid cs b (q_skbs q)" "chunks_ok cs"
    and "c_last_acked con < of_nat (10 + length cs)" "ntohl (h_ack hdr) = of_nat (10 + length cs)"
  shows "\<exists>con' q'. recv_ack_con E hdr con q = (Ack_new, con', q', []) \<and> q_head (rq_queue q') = []
    \<and> c_last_acked con' = of_nat (9 + length cs)"
proof -
  have "e_seq e < of_nat (10 + length cs)" if e: "e \<in> set (q_head (rq_queue q))" for e
  proof -
    obtain j where "pkt_at cid cs j (e_skb e)" using queue_at_member [OF assms(1), of "e_skb e"] e by auto
    then show ?thesis
      using assms(2) of_nat_u32_less [of "10 + j" "10 + length cs"] by (simp add: pkt_at_def chunks_ok_def)
  qed
  then have "q_head (rq_queue (acked_queue (of_nat (10 + length cs)) q)) = []"
    by (simp add: acked_queue_def del: of_nat_add)
  moreover have "(of_nat (10 + length cs) :: u32) - 1 = of_nat (9 + length cs)" by simp
  ultimately show ?thesis using recv_ack_con_new [of con hdr E q] assms(3,4) by simp
qed

text \<open>What the timer function does with a queue that is not empty: it sends the packets after the last one acknowledged.\<close>

lemma timeout_run:
  assumes "queue_at cid cs b (q_skbs q)" "chunks_ok cs" "q_len (rq_queue q) = int (length (q_head (rq_queue q)))"
    and "c_last_acked con = of_nat (9 + i)" "i \<le> length cs" "q_head (rq_queue q) \<noteq> []"
    and "\<forall>e\<in>set (q_head (rq_queue q)). e_retries e < MAX_MINIP_RETRY" "healthy E"
  shows "\<exists>q' out k. sender_timeout_con E con q = (False, arm_timer E (con\<lparr>c_sending := False, c_state := RECOVERY\<rparr>), q', out)
    \<and> queue_at cid cs b (q_skbs q') \<and> k \<le> max b i \<and> queue_at cid cs k out"
proof -
  let ?es = "filter (\<lambda>e. c_last_acked con + 1 \<le> e_seq e) (q_head (rq_queue q))"
  let ?out = "map (restamp (now_ms E) \<circ> e_skb) ?es"
  have "length (q_head (rq_queue q)) < 2 ^ 32"
    using queue_at_length [OF assms(1)] assms(2) by (simp add: chunks_ok_def)
  then have size: "rtxq_size q \<noteq> 0"
    using assms(3,6) of_nat_u32_eq [of "length (q_head (rq_queue q))" 0] by (simp add: rtxq_size_def)
  have can: "\<forall>e\<in>set (q_head (rq_queue q)). can_rtx (now_ms E) (dev_queue_xmit E) (c_last_acked con + 1) e"
    using assms(7,8) by (simp add: can_rtx_def healthy_def)
  obtain q' where rtx: "rtxq_full_rtx (now_ms E) (dev_queue_xmit E) (Some q) (c_last_acked con + 1) = (0, Some q', ?out)"
    by (simp add: rtxq_full_rtx_def rtxqueue_entries_rtx_def entries_rtx_loop_ok [OF can])
  have ack: "c_last_acked con + 1 = of_nat (10 + i)" unfolding assms(4) by simp
  from queue_at_from [OF assms(1,2,5)] obtain k where k: "k \<le> max b i" "queue_at cid cs k (map e_skb ?es)"
    unfolding ack by blast
  have "queue_at cid cs k ?out = queue_at cid cs k (map e_skb ?es)" by (rule queue_at_untimed) simp
  moreover have "queue_at cid cs b (q_skbs q')"
    using queue_at_untimed [OF rtxq_full_rtx_queue(1) [OF rtx]] assms(1) by blast
  moreover have "sender_timeout_con E con q = (False, arm_timer E (con\<lparr>c_sending := False, c_state := RECOVERY\<rparr>), q', ?out)"
    using size rtx by (simp add: sender_timeout_con_def Let_def arm_timer_def)
  ultimately show ?thesis using k by blast
qed

text \<open>
  C18. A timeout repairs any loss. In a state reached as above, let the receiver be past the packet
  last acknowledged (before the first packet has arrived that number is already counted as
  acknowledged, and the timeout does not send it again), let no packet have used up its attempts and
  let the kernel services succeed. Then the timer function does not give up, arms the timer again,
  and the packets it sends, delivered once and in order, bring to the right socket exactly all bytes
  read so far. If it sent any, the receiver's last answer acknowledges them all: when it arrives it
  empties the retransmission queue.
\<close>

theorem timeout_recovers:
  assumes "net_init cid H a s m" "(net_step H a s)\<^sup>*\<^sup>* m n"
    and "g_cons (n_rcv n) a = Some rcv" "c_last_acked (n_con n) < c_next_recv rcv"
    and "\<forall>e\<in>set (q_head (rq_queue (n_q n))). e_retries e < MAX_MINIP_RETRY"
    and "healthy E" "hash_min E = H"
  shows "\<exists>con' q' out w'. sender_timeout_con E (n_con n) (n_q n) = (False, con', q', out) \<and> c_timer con' \<noteq> None
     \<and> w' = recv_frames E out (n_rcv n) \<and> taken s (g_log w') = n_read n
     \<and> (out \<noteq> [] \<longrightarrow> g_out w' \<noteq> [] \<and> h_pkt_type (f_hdr (last (g_out w'))) = pkt_code MINIP_CONN_ACK
          \<and> (\<exists>con'' q''. recv_ack_con E' (f_hdr (last (g_out w'))) con' q' = (Ack_new, con'', q'', [])
               \<and> q_head (rq_queue q'') = [] \<and> c_last_acked con'' = c_next_seq (n_con n) - 1))"
proof -
  let ?q = "n_q n" and ?con = "n_con n"
  obtain cs b r where at: "net_at cid H a s cs b r n"
    using net_reach_inv [OF assms(2) net_init_inv [OF assms(1)]] by blast
  then have inv: "queue_at cid cs b (q_skbs ?q)" "chunks_ok cs" "rcv_at cid H a s r (n_rcv n)" "b \<le> r" "r \<le> length cs"
    "n_read n = concat cs" "taken s (g_log (n_rcv n)) = concat (take r cs)"
    "q_len (rq_queue ?q) = int (length (q_head (rq_queue ?q)))" "c_next_seq ?con = of_nat (10 + length cs)"
    by (simp_all add: net_at_def snd_at_def delivered_def)
  obtain i where i: "i \<le> max 1 r" "c_last_acked ?con = of_nat (9 + i)"
    using at by (auto simp: net_at_def acked_at_def)
  have "c_next_recv rcv = of_nat (10 + r)" using inv(3) assms(3) by (simp add: rcv_at_def)
  then have "(of_nat (9 + i) :: u32) < of_nat (10 + r)" using assms(4) i(2) by simp
  moreover have small: "9 + i < 2 ^ 32" "10 + r < 2 ^ 32" using i(1) inv(2,5) by (auto simp: chunks_ok_def)
  ultimately have "i \<le> r" using of_nat_u32_less [of "9 + i" "10 + r"] by simp
  have last: "c_last_acked ?con < of_nat (10 + length cs)"
    unfolding i(2) using \<open>i \<le> r\<close> inv(2,5) small of_nat_u32_less [of "9 + i" "10 + length cs"] by (simp add: chunks_ok_def)
  have nxt: "c_next_seq ?con - 1 = of_nat (9 + length cs)" unfolding inv(9) by simp
  have all: "concat (take r cs) @ concat (drop r cs) = concat cs"
    by (metis append_take_drop_id concat_append)
  show ?thesis
  proof (cases "q_head (rq_queue ?q) = []")
    case True
    then have "rtxq_size ?q = 0" "b = length cs" using inv(1,8) by (simp_all add: rtxq_size_def)
    then show ?thesis
      using inv all by (simp add: sender_timeout_con_def arm_timer_def)
  next
    case False
    let ?con' = "arm_timer E (?con\<lparr>c_sending := False, c_state := RECOVERY\<rparr>)"
    have "i \<le> length cs" using \<open>i \<le> r\<close> inv(5) by simp
    from timeout_run [OF inv(1,2,8) i(2) this False assms(5,6)] obtain q' out k where
      run: "sender_timeout_con E ?con ?q = (False, ?con', q', out)" "queue_at cid cs b (q_skbs q')" "k \<le> max b i" "queue_at cid cs k out"
      by blast
    define w' where "w' = recv_frames E out (n_rcv n)"
    have rcv: "taken s (g_log w') = n_read n" "out \<noteq> [] \<Longrightarrow> acks (length cs) w'"
      using recv_frames_at [OF run(4) _ inv(5,3,2) assms(6,7)] run(3) \<open>i \<le> r\<close> inv(4,6,7) all by (simp_all add: w'_def)
    have "c_last_acked ?con' = c_last_acked ?con" by (simp add: arm_timer_def)
    with ack_all_empties [OF run(2) inv(2), of ?con' "f_hdr (last (g_out w'))" E'] rcv(2) last
    have acked: "out \<noteq> [] \<longrightarrow> g_out w' \<noteq> [] \<and> h_pkt_type (f_hdr (last (g_out w'))) = pkt_code MINIP_CONN_ACK
        \<and> (\<exists>con'' q''. recv_ack_con E' (f_hdr (last (g_out w'))) ?con' q' = (Ack_new, con'', q'', [])
             \<and> q_head (rq_queue q'') = [] \<and> c_last_acked con'' = c_next_seq ?con - 1)"
      unfolding nxt by (simp add: acks_def)
    have armed: "c_timer ?con' \<noteq> None" by (simp add: arm_timer_def)
    show ?thesis
      by (intro exI [of _ ?con'] exI [of _ q'] exI [of _ out] exI [of _ w'] conjI)
        (rule run(1), rule armed, rule w'_def, rule rcv(1), rule acked)
  qed
qed

subsection \<open>An example run\<close>

definition ex_net :: net where
  "ex_net = \<lparr>n_con = est_con, n_q = empty_rtxq, n_frames = [], n_read = [], n_rcv = minip_world minip_con\<rparr>"

abbreviation ex_hash :: "u32 \<Rightarrow> nat \<Rightarrow> nat" where "ex_hash \<equiv> hash_min sample_env"

lemma con_find_hash: "hash_min E = hash_min E' \<Longrightarrow> pepdna_con_find E k w = pepdna_con_find E' k w"
  by (cases "g_srv w") (simp_all add: pepdna_con_find_def pepdna_hash_def)

lemma ex_net_init: "net_init 42 ex_hash 0 1 ex_net"
proof -
  have "pepdna_con_find E 42 (minip_world minip_con) = Some 0" if "hash_min E = ex_hash" for E
  proof -
    have "pepdna_con_find E 42 (minip_world minip_con) = pepdna_con_find sample_env 42 (minip_world minip_con)"
      by (rule con_find_hash [OF that])
    then show ?thesis by (simp add: minip_world_find minip_con_def)
  qed
  moreover have "g_cons (minip_world minip_con) 0 = Some minip_con" "g_out (minip_world minip_con) = []"
    "g_log (minip_world minip_con) = []" "g_socks (minip_world minip_con) 1 \<noteq> None"
    by (simp_all add: minip_world_def pair_world_def sample_world_def)
  ultimately show ?thesis
    unfolding net_init_def ex_net_def delivered_def
    by (simp add: MINIP_FIRST_SEQ_def empty_rtxq_def) (simp add: minip_con_def)
qed

definition ex_sent :: net where
  "ex_sent = ex_net\<lparr>n_con := after_send est_con 1,
     n_q := push_all empty_rtxq (seg_frames sample_env est_con [1] 10 [[7, 8, 9]]),
     n_frames := seg_frames sample_env est_con [1] 10 [[7, 8, 9]], n_read := [7, 8, 9]\<rparr>"

text \<open>Reading a few bytes sends them in one packet.\<close>

lemma send_few:
  assumes "can_send (n_con n)" "bs \<noteq> []" "length bs \<le> MINIP_MSS"
    and "unat (c_next_seq (n_con n)) + unat (c_window (n_con n)) < 2 ^ 32"
    and "fs = seg_frames sample_env (n_con n) [1] (c_next_seq (n_con n)) [bs]"
  shows "net_step ex_hash 0 1 n (n\<lparr>n_con := after_send (n_con n) 1, n_q := push_all (n_q n) fs,
    n_frames := n_frames n @ fs, n_read := n_read n @ bs\<rparr>)"
proof -
  let ?recv = "\<lambda>_. (int (length bs), bs)"
  have segs: "segs bs = [bs]" using assms(2,3) by (subst segs.simps) (simp add: segs.simps)
  have run: "pepdna_con_i2minip_fwd sample_env [1] ?recv (n_con n) (n_q n)
      = (int (length bs), after_send (n_con n) 1, push_all (n_q n) fs, fs)"
    using i2minip_fwd_healthy [OF healthy_sample assms(1), of ?recv "int (length bs)" bs "[1]" "n_q n"] assms(2,5)
    by (simp add: segs)
  have "0 < unat (c_window (n_con n))" using assms(1) by (simp add: can_send_def unat_gt_0)
  then have "length bs \<le> MINIP_MSS * unat (c_window (n_con n))" using assms(3) by (metis One_nat_def Suc_leI mult_le_mono2 mult.right_neutral le_trans)
  then have law: "recv_law (MINIP_MSS * unat (c_window (n_con n))) (int (length bs), bs)" by (simp add: recv_law_def)
  from net_step.send [OF healthy_sample refl law assms(4) run] assms(2) show ?thesis by simp
qed

lemma ex_send: "net_step ex_hash 0 1 ex_net ex_sent"
proof -
  have "can_send (n_con ex_net)" by (simp add: can_send_def ex_net_def)
  from send_few [OF this, of "[7, 8, 9]"] show ?thesis
    unfolding ex_sent_def by (simp add: ex_net_def MINIP_MSS_def)
qed

theorem minip_refines_stream_witness:
  "(net_step ex_hash 0 1)\<^sup>*\<^sup>* ex_net ex_sent
   \<and> stream_step\<^sup>*\<^sup>* ([], []) ([7, 8, 9], delivered 1 ex_sent) \<and> prefix (delivered 1 ex_sent) [7, 8, 9]"
proof -
  have "n_read ex_sent = [7, 8, 9]" by (simp add: ex_sent_def)
  then show ?thesis
    using minip_refines_stream [OF ex_net_init r_into_rtranclp [of "net_step ex_hash 0 1", OF ex_send]] ex_send by auto
qed

theorem minip_no_loss_witness:
  "\<exists>k. [7, 8, 9] = delivered 1 ex_sent @ concat (map (f_data \<circ> e_skb) (drop k (q_head (rq_queue (n_q ex_sent)))))"
proof -
  have "n_read ex_sent = [7, 8, 9]" by (simp add: ex_sent_def)
  then show ?thesis
    using minip_no_loss [OF ex_net_init r_into_rtranclp [of "net_step ex_hash 0 1", OF ex_send]] by simp
qed

text \<open>The first packet arrives, and a second one is sent.\<close>

lemma ex_second:
  "\<exists>n rcv. (net_step ex_hash 0 1)\<^sup>*\<^sup>* ex_net n \<and> n_read n = [7, 8, 9, 4] \<and> delivered 1 n = [7, 8, 9]
     \<and> g_cons (n_rcv n) 0 = Some rcv \<and> c_last_acked (n_con n) < c_next_recv rcv
     \<and> (\<forall>e\<in>set (q_head (rq_queue (n_q n))). e_retries e < MAX_MINIP_RETRY)"
proof -
  let ?cs = "[[7, 8, 9 :: u8]]"
  let ?f = "data_frame sample_env (est_con\<lparr>c_next_seq := 10\<rparr>) [1] [7, 8, 9]"
  have frames: "n_frames ex_sent = [?f]" and rcv: "n_rcv ex_sent = n_rcv ex_net"
    by (simp_all add: ex_sent_def)
  have pkt: "pkt_at 42 ?cs 0 ?f" by (simp add: pkt_at_def)
  have chunks: "chunks_ok ?cs" by (simp add: chunks_ok_def MINIP_MSS_def)
  have at: "rcv_at 42 ex_hash 0 1 0 (n_rcv ex_sent)" "delivered 1 ex_net = []"
    using net_init_inv [OF ex_net_init] rcv by (simp_all add: net_at_def)
  have "g_socks (n_rcv ex_sent) 1 \<noteq> None" using at by (simp add: rcv_at_def)
  then have sent: "fst (pepdna_sock_write [(3, [])] 1 (f_data ?f) (n_rcv ex_sent)) = Some 3"
    using sock_write_whole [of "n_rcv ex_sent" 1 "[7, 8, 9]"] by simp
  have law: "sendmsg_law [(3, [])] (length (f_data ?f))" by simp
  obtain w' where w': "pepdna_minip_recv_data sample_env [(3, [])] (f_hdr ?f) ?f (n_rcv ex_sent) = (Some 0, w')"
    "rcv_at 42 ex_hash 0 1 (Suc 0) w'" "g_log w' = g_log (n_rcv ex_sent) @ [Ev_sent 1 [7, 8, 9]]"
    using rcv_at_hit [OF at(1) healthy_sample refl pkt chunks law sent] by auto
  define n1 where "n1 = ex_sent\<lparr>n_rcv := w'\<rparr>"
  have "net_step ex_hash 0 1 ex_sent n1" unfolding n1_def
    by (rule net_step.deliver [OF healthy_sample _ refl law sent _ w'(1)]) (simp_all add: frames)
  then have n1: "(net_step ex_hash 0 1)\<^sup>*\<^sup>* ex_net n1"
    using ex_send by (meson converse_rtranclp_into_rtranclp r_into_rtranclp)
  let ?c1 = "after_send est_con 1"
  have c1: "n_con n1 = ?c1" by (simp add: n1_def ex_sent_def)
  define fs where "fs = seg_frames sample_env ?c1 [1] (c_next_seq ?c1) [[4 :: u8]]"
  define n2 where "n2 = n1\<lparr>n_con := after_send ?c1 1, n_q := push_all (n_q n1) fs, n_frames := n_frames n1 @ fs, n_read := n_read n1 @ [4]\<rparr>"
  have "can_send ?c1" "unat (c_next_seq ?c1) + unat (c_window ?c1) < 2 ^ 32" by (simp_all add: can_send_def after_send_def)
  then have "net_step ex_hash 0 1 n1 n2"
    using send_few [of n1 "[4]" fs] unfolding c1 n2_def fs_def by (simp add: MINIP_MSS_def)
  then have n2: "(net_step ex_hash 0 1)\<^sup>*\<^sup>* ex_net n2" by (rule rtranclp.rtrancl_into_rtrancl [OF n1])
  have got: "n_read n2 = [7, 8, 9, 4]" "delivered 1 n2 = [7, 8, 9]"
    using w'(3) at(2) rcv by (simp_all add: n2_def n1_def ex_sent_def delivered_def taken_append)
  obtain rcv where rcv: "g_cons (n_rcv n2) 0 = Some rcv" "c_last_acked (n_con n2) < c_next_recv rcv"
    using w'(2) by (auto simp: rcv_at_def n2_def n1_def after_send_def)
  have "\<forall>e\<in>set (q_head (rq_queue (n_q n2))). e_retries e < MAX_MINIP_RETRY"
    by (simp add: n2_def n1_def fs_def ex_sent_def push_all_def empty_rtxq_def MAX_MINIP_RETRY_def)
  with n2 got rcv show ?thesis by blast
qed

theorem timeout_recovers_witness:
  "\<exists>n con' q' out w' con'' q''. (net_step ex_hash 0 1)\<^sup>*\<^sup>* ex_net n \<and> delivered 1 n = [7, 8, 9]
     \<and> sender_timeout_con sample_env (n_con n) (n_q n) = (False, con', q', out)
     \<and> w' = recv_frames sample_env out (n_rcv n) \<and> taken 1 (g_log w') = [7, 8, 9, 4]
     \<and> recv_ack_con sample_env (f_hdr (last (g_out w'))) con' q' = (Ack_new, con'', q'', []) \<and> q_head (rq_queue q'') = []"
proof -
  obtain n rcv where n: "(net_step ex_hash 0 1)\<^sup>*\<^sup>* ex_net n" "n_read n = [7, 8, 9, 4]" "delivered 1 n = [7, 8, 9]"
      "g_cons (n_rcv n) 0 = Some rcv" "c_last_acked (n_con n) < c_next_recv rcv"
      "\<forall>e\<in>set (q_head (rq_queue (n_q n))). e_retries e < MAX_MINIP_RETRY"
    using ex_second by blast
  from timeout_recovers [OF ex_net_init n(1,4-6) healthy_sample refl, of sample_env] obtain con' q' out w' where
    t: "sender_timeout_con sample_env (n_con n) (n_q n) = (False, con', q', out)" "w' = recv_frames sample_env out (n_rcv n)"
      "taken 1 (g_log w') = n_read n"
      "out \<noteq> [] \<longrightarrow> (\<exists>con'' q''. recv_ack_con sample_env (f_hdr (last (g_out w'))) con' q' = (Ack_new, con'', q'', [])
         \<and> q_head (rq_queue q'') = [])"
    by blast
  have "out \<noteq> []" using t(2,3) n(2,3) by (auto simp: delivered_def)
  with t n(1-3) show ?thesis by (metis (no_types))
qed

end
