(* ===== verification/Pep_Tcp.thy ===== *)
theory Pep_Tcp
  imports Pep_Netlink Pep_Minip_Net
begin

section \<open>TCP: forwarding, connecting and listening (tcp.c, tcp_connect.c, tcp_listen.c)\<close>

text \<open>
  Forwarding between two sockets, the work that opens the far side of a connection, and the
  listening socket whose accepted clients are matched with the connections that wait for
  them. A socket pointer is an optional address; the address of a released socket is one that
  the store no longer holds.
\<close>

definition MAX_BUF_SIZE :: nat where "MAX_BUF_SIZE = 1448 * 10"
definition PEPDNA_SOCK_MARK :: u32 where "PEPDNA_SOCK_MARK = 333"

subsection \<open>Forwarding\<close>

definition pepdna_con_i2i_fwd ::
    "kenv \<Rightarrow> (nat \<Rightarrow> recv_result) \<Rightarrow> send_result list \<Rightarrow> nat option \<Rightarrow> nat option \<Rightarrow> world \<Rightarrow>
       int option \<times> world" where
  "pepdna_con_i2i_fwd E recv rs from to w =
    (if \<not> kzalloc E A_buffer then (Some (- ENOMEM), w)
     else case from of None \<Rightarrow> (None, add_fault NullDeref w)
     | Some f \<Rightarrow>
       (if g_socks w f = None then (None, add_fault (UseAfterFree f) w)
        else
          (let (read, buffer) = recv MAX_BUF_SIZE
           in if 0 < read then
                (case to of None \<Rightarrow> (None, add_fault NullDeref w)
                 | Some t \<Rightarrow>
                    (case pepdna_sock_write rs t buffer w of
                       (None, w) \<Rightarrow> (None, w)
                     | (Some sent, w) \<Rightarrow> if sent < 0 then (Some (-1), w) else (Some read, w)))
              else (Some read, w))))"

text \<open>
  The loop of the two forwarding works: \<open>up\<close> is the flag it tests, and one element of the
  list answers one round. \<open>None\<close> says that the work has not returned.
\<close>

type_synonym fwd_round = "kenv \<times> (nat \<Rightarrow> recv_result) \<times> send_result list"

fun i2i_loop ::
    "(pepdna_con \<Rightarrow> bool) \<Rightarrow> (pepdna_con \<Rightarrow> nat option) \<Rightarrow> (pepdna_con \<Rightarrow> nat option) \<Rightarrow>
       fwd_round list \<Rightarrow> nat \<Rightarrow> world \<Rightarrow> world option" where
  "i2i_loop up from to rounds a w =
    (case g_cons w a of None \<Rightarrow> Some (add_fault (UseAfterFree a) w)
     | Some con \<Rightarrow>
        (if \<not> up con then Some w
         else case rounds of [] \<Rightarrow> None
              | (E, recv, rs) # rounds' \<Rightarrow>
                 (case pepdna_con_i2i_fwd E recv rs (from con) (to con) w of
                    (None, w) \<Rightarrow> None
                  | (Some rc, w) \<Rightarrow>
                      (if rc \<le> 0 then
                         (if rc = - EAGAIN then Some w
                          else i2i_loop up from to rounds' a (pepdna_con_close E (Some a) w))
                       else i2i_loop up from to rounds' a w))))"

declare i2i_loop.simps [simp del]

definition pepdna_con_r2l_fwd :: "fwd_round list \<Rightarrow> nat \<Rightarrow> world \<Rightarrow> world option" where
  "pepdna_con_r2l_fwd rounds a w =
     map_option (pepdna_con_put a) (i2i_loop c_rflag c_rsock c_lsock rounds a w)"

definition pepdna_con_l2r_fwd :: "fwd_round list \<Rightarrow> nat \<Rightarrow> world \<Rightarrow> world option" where
  "pepdna_con_l2r_fwd rounds a w =
     map_option (pepdna_con_put a) (i2i_loop c_lflag c_lsock c_rsock rounds a w)"

subsection \<open>Connecting\<close>

text \<open>A new socket, the options every socket gets, and the callbacks of a connected one.\<close>

definition new_socket :: "sock \<Rightarrow> world \<Rightarrow> nat \<times> world" where
  "new_socket k w =
    (g_next_sock w, w\<lparr>g_next_sock := g_next_sock w + 1, g_socks := (g_socks w)(g_next_sock w \<mapsto> k)\<rparr>)"

definition tune_socket :: "nat \<Rightarrow> world \<Rightarrow> world" where
  "tune_socket s w =
     pepdna_tcp_nodelayedack s (pepdna_tcp_nonagle s (pepdna_set_bufsize s
       (upd_sock s (\<lambda>k. k\<lparr>k_reuse := True\<rparr>) w)))"

definition set_callback :: "nat \<Rightarrow> data_ready \<Rightarrow> user_data \<Rightarrow> world \<Rightarrow> world" where
  "set_callback s dr ud w = upd_sock s (\<lambda>k. k\<lparr>k_data_ready := dr, k_user_data := ud\<rparr>) w"

definition INADDR_LOOPBACK :: u32 where "INADDR_LOOPBACK = 0x7f000001"

text \<open>Creation, options, binding and connecting of the socket towards the target.\<close>

definition connect_socket :: "kenv \<Rightarrow> syn_tuple \<Rightarrow> world \<Rightarrow> nat option \<times> world" where
  "connect_socket E t w =
    (if sock_create_kern E < 0 then (None, w)
     else
       (let (s, w) = new_socket new_sock w;
            daddr = (if CONFIG_LOCAL_RECEIVER E then htonl INADDR_LOOPBACK else t_daddr t);
            w = tune_socket s w;
            w = (if CONFIG_LOCAL_SENDER E then w else pepdna_ip_transparent E s w);
            w = (if CONFIG_LOCAL_SENDER E \<or> CONFIG_LOCAL_RECEIVER E
                 then pepdna_set_mark s PEPDNA_SOCK_MARK w else w)
        in if \<not> CONFIG_LOCAL_SENDER E \<and> kernel_bind E < 0 then (None, sock_release s w)
           else
             (let w = (if CONFIG_LOCAL_SENDER E then w
                       else upd_sock s (\<lambda>k. k\<lparr>k_local := Some (t_saddr t, t_source t)\<rparr>) w);
                  rc = kernel_connect E
              in if rc < 0 \<and> rc \<noteq> - EINPROGRESS
                 then (None, sock_release s (kernel_sock_shutdown s w))
                 else (Some s, upd_sock s (\<lambda>k. k\<lparr>k_peer := Some (daddr, t_dest t)\<rparr>) w))))"

definition pepdna_tcp_connect :: "kenv \<Rightarrow> (nat \<Rightarrow> int) \<Rightarrow> nat \<Rightarrow> world \<Rightarrow> world" where
  "pepdna_tcp_connect E uni a w =
    (case g_cons w a of None \<Rightarrow> add_fault (UseAfterFree a) w
     | Some con \<Rightarrow>
       (case connect_socket E (c_tuple con) w of
          (None, w) \<Rightarrow> pepdna_con_close E (Some a) w
        | (Some s, w) \<Rightarrow>
          (case g_srv w of
             Null \<Rightarrow> add_fault NullDeref w
           | Freed \<Rightarrow> add_fault (UseAfterFree 0) w
           | Live srv \<Rightarrow>
             (if mode_of (s_mode srv) = Some TCP2TCP then
                reinject_syn E a (set_callback s DR_r2l (UD_con a)
                  (upd_con a (\<lambda>c. c\<lparr>c_rsock := Some s\<rparr>) w))
              else if CONFIG_RINA E \<and> mode_of (s_mode srv) = Some RINA2TCP then
                (case pepdna_nl_sendmsg E uni (c_tuple con) (c_id con) (c_port_id con) True w of
                   (rc, w) \<Rightarrow>
                     if rc < 0 then pepdna_con_close E (Some a) w
                     else set_callback s DR_l2r (UD_con a) (upd_con a (\<lambda>c. c\<lparr>c_lsock := Some s\<rparr>) w))
              else if CONFIG_MINIP E \<and> mode_of (s_mode srv) = Some MINIP2TCP then
                (case pepdna_minip_send_response E (c_id con) (to_mac w) w of
                   (rc, w) \<Rightarrow>
                     if rc < 0 then pepdna_con_close E (Some a) w
                     else
                       (let w = upd_con a (\<lambda>c. c\<lparr>c_state := ESTABLISHED, c_next_seq := c_next_seq c + 1,
                                  c_last_acked := c_last_acked c + 1, c_next_recv := c_next_recv c + 1,
                                  c_lsock := Some s\<rparr>) w;
                            w = set_callback s DR_l2r (UD_con a) w;
                            w = upd_con a (\<lambda>c. c\<lparr>c_lflag := True\<rparr>) w
                        in sk_data_ready s w))
              else w))))"

subsection \<open>Listening\<close>

text \<open>A failed \<open>bind\<close> or \<open>listen\<close> releases the socket but leaves \<open>srv->listener\<close> set.\<close>

definition pepdna_tcp_listen_init :: "kenv \<Rightarrow> world \<Rightarrow> int \<times> world" where
  "pepdna_tcp_listen_init E w =
    (case g_srv w of
       Null \<Rightarrow> (-1, add_fault NullDeref w)
     | Freed \<Rightarrow> (-1, add_fault (UseAfterFree 0) w)
     | Live srv \<Rightarrow>
       (if sock_create_kern E < 0 then (sock_create_kern E, w)
        else
          (let (s, w) = new_socket new_sock w;
               w = upd_srv (\<lambda>srv. srv\<lparr>s_listener := Some s\<rparr>) w;
               w = pepdna_ip_transparent E s (tune_socket s w);
               w = set_callback s DR_listen UD_ready w
           in if kernel_bind E < 0 then (- EINVAL, sock_release s w)
              else
                (let w = upd_sock s (\<lambda>k. k\<lparr>k_local := Some (0, htons (word_of_int (s_port srv)))\<rparr>) w
                 in if kernel_listen E < 0 then (- EINVAL, sock_release s w) else (0, w)))))"

text \<open>
  Accepting: one element of the list is the answer of one \<open>kernel_accept\<close>, an error code or
  the address of the client. The result is the code that ended the loop; \<open>None\<close> if it goes on.
\<close>

type_synonym accept_result = "kenv \<times> (int + u32 \<times> u16)"

definition attach_left :: "nat \<Rightarrow> nat \<Rightarrow> world \<Rightarrow> world" where
  "attach_left a s w =
     upd_con a (\<lambda>c. c\<lparr>c_lflag := True, c_rflag := True\<rparr>)
       (set_callback s DR_l2r (UD_con a) (upd_con a (\<lambda>c. c\<lparr>c_lsock := Some s\<rparr>) w))"

definition wake_both :: "nat \<Rightarrow> nat \<Rightarrow> world \<Rightarrow> world" where
  "wake_both a s w =
    (let w = sk_data_ready s w
     in case g_cons w a of None \<Rightarrow> add_fault (UseAfterFree a) w
        | Some con \<Rightarrow> (case c_rsock con of None \<Rightarrow> w | Some r \<Rightarrow> sk_data_ready r w))"

text \<open>One accepted client: the return code that ends the loop, or none to go on.\<close>

definition accept_client :: "kenv \<Rightarrow> u32 \<times> u16 \<Rightarrow> world \<Rightarrow> int option \<times> world" where
  "accept_client E peer w =
    (let (s, w) = new_socket (new_sock\<lparr>k_peer := Some peer\<rparr>) w;
         (hash_id, w) = identify_client E s w
     in case pepdna_con_find E hash_id w of
          None \<Rightarrow> (Some (-1), sock_release s w)
        | Some a \<Rightarrow>
            (let w = attach_left a s w
             in if (case g_srv w of Live srv \<Rightarrow> mode_of (s_mode srv) = Some TCP2RINA | _ \<Rightarrow> False) then
                  (case queue_work a R2L (pepdna_con_get a w) of
                     (queued, w) \<Rightarrow>
                       if queued then (None, wake_both a s w) else (Some (-1), pepdna_con_put a w))
                else (None, wake_both a s w)))"

fun pepdna_tcp_accept :: "accept_result list \<Rightarrow> world \<Rightarrow> int option \<times> world" where
  "pepdna_tcp_accept [] w = (None, w)"
| "pepdna_tcp_accept ((E, Inl rc) # rest) w = (Some rc, w)"
| "pepdna_tcp_accept ((E, Inr peer) # rest) w =
    (case accept_client E peer w of
       (Some rc, w) \<Rightarrow> (Some rc, w)
     | (None, w) \<Rightarrow> pepdna_tcp_accept rest w)"

definition pepdna_acceptor_work :: "accept_result list \<Rightarrow> world \<Rightarrow> world" where
  "pepdna_acceptor_work rest w = snd (pepdna_tcp_accept rest w)"

text \<open>
  Stopping restores the saved callback and waits for a pending accept work before the socket is
  released.
\<close>

definition pepdna_tcp_listen_stop :: "accept_result list \<Rightarrow> nat option \<Rightarrow> world \<Rightarrow> world" where
  "pepdna_tcp_listen_stop pend sock w =
    (case sock of None \<Rightarrow> w
     | Some s \<Rightarrow>
       (case g_srv w of
          Null \<Rightarrow> add_fault NullDeref w
        | Freed \<Rightarrow> add_fault (UseAfterFree 0) w
        | Live srv \<Rightarrow>
          (if mode_of (s_mode srv) = Some RINA2TCP \<or> mode_of (s_mode srv) = Some RINA2RINA then w
           else
             (let w = upd_sock s (\<lambda>k. if k_user_data k \<noteq> UD_null
                         then k\<lparr>k_data_ready := DR_default, k_user_data := UD_null\<rparr> else k) w;
                  w = (if g_accept_pending w
                       then pepdna_acceptor_work pend (w\<lparr>g_accept_pending := False\<rparr>) else w)
              in sock_release s w))))"

subsection \<open>The connection table stays well formed\<close>

lemma wf_srv_listener: "wf_known I E w \<Longrightarrow> wf_known I E (upd_srv (\<lambda>srv. srv\<lparr>s_listener := l\<rparr>) w)"
  by (rule wf_upd_srv) simp_all

lemma wf_tune:
  "wf_known I E (tune_socket s w) = wf_known I E w" "wf_known I E (pepdna_ip_transparent E' s w) = wf_known I E w"
  "wf_known I E (pepdna_set_mark s v w) = wf_known I E w" "wf_known I E (set_callback s dr ud w) = wf_known I E w"
  "wf_known I E (snd (new_socket k w)) = wf_known I E w"
  by (simp_all add: tune_socket_def pepdna_tcp_nodelayedack_def pepdna_tcp_nonagle_def
      pepdna_set_bufsize_def pepdna_ip_transparent_def pepdna_set_mark_def set_callback_def new_socket_def Let_def)

lemma wf_new_socket: "new_socket k w = (s, w') \<Longrightarrow> wf_known I E w' = wf_known I E w"
  using wf_tune(5) by (metis snd_conv)

lemma wf_i2i_fwd: "wf_known I E w \<Longrightarrow> wf_known I E (snd (pepdna_con_i2i_fwd E' recv rs f t w))"
proof -
  assume wf: "wf_known I E w"
  have "wf_known I E w'" if "pepdna_sock_write rs s b w = (x, w')" for s b x w'
    using wf_sock_write [OF wf, of rs s b] that by simp
  with wf show ?thesis
    by (auto simp: pepdna_con_i2i_fwd_def Let_def split: option.splits prod.splits)
qed

lemma wf_i2i_loop: "wf_known I E w \<Longrightarrow> i2i_loop up from to rounds a w = Some w' \<Longrightarrow> wf_known I E w'"
proof (induction rounds arbitrary: w)
  case Nil
  then show ?case by (subst (asm) i2i_loop.simps) (auto split: option.splits if_splits)
next
  case (Cons x rounds)
  obtain E' recv rs where x: "x = (E', recv, rs)" by (rule prod_cases3)
  show ?case
  proof (cases "g_cons w a")
    case (Some con)
    obtain rc w1 where rd: "pepdna_con_i2i_fwd E' recv rs (from con) (to con) w = (rc, w1)" by force
    have "wf_known I E w1" using wf_i2i_fwd [OF Cons.prems(1), of E' recv rs "from con" "to con"] rd by simp
    with Cons.IH Cons.prems wf_con_close' [OF this] show ?thesis
      by (auto simp: i2i_loop.simps [of up "from" "to" "(E', recv, rs) # rounds" a w] Some rd x
          split: if_splits option.splits)
  qed (use Cons.prems in \<open>subst (asm) i2i_loop.simps, auto\<close>)
qed

lemma wf_connect_socket: "wf_known I E w \<Longrightarrow> wf_known I E (snd (connect_socket E' t w))"
  by (auto simp: connect_socket_def Let_def wf_tune wf_new_socket split: prod.splits)

lemma wf_tcp_connect:
  assumes "wf_known I E w"
  shows "wf_known I E (pepdna_tcp_connect E uni a w)"
proof (cases "g_cons w a")
  case (Some con)
  obtain so w1 where cs: "connect_socket E (c_tuple con) w = (so, w1)" by force
  have wf1: "wf_known I E w1" using wf_connect_socket [OF assms, of E "c_tuple con"] cs by simp
  obtain rc2 w2 where nl: "pepdna_nl_sendmsg E uni (c_tuple con) (c_id con) (c_port_id con) True w1 = (rc2, w2)" by force
  have wf2: "wf_known I E w2"
    using wf_nl_sendmsg [OF wf1, of E uni "c_tuple con" "c_id con" "c_port_id con" True] nl by simp
  obtain rc3 w3 where rs: "pepdna_minip_send_response E (c_id con) (to_mac w1) w1 = (rc3, w3)" by force
  have wf3: "wf_known I E w3" using wf_xmit(3) [OF wf1, of E "c_id con" "to_mac w1"] rs by simp
  show ?thesis
    using Some cs nl rs wf1 wf2 wf3
    by (auto simp: pepdna_tcp_connect_def Let_def wf_tune keeps_id_def
        intro!: wf_con_close' wf_reinject_syn wf_upd_con wf_data_ready split: option.splits ptr.splits)
qed (use assms in \<open>simp add: pepdna_tcp_connect_def\<close>)

lemma wf_listen_init: "wf_known I E w \<Longrightarrow> wf_known I E (snd (pepdna_tcp_listen_init E' w))"
  by (auto simp: pepdna_tcp_listen_init_def Let_def wf_tune wf_new_socket wf_srv_listener
      split: prod.splits ptr.splits)

lemma wf_attach_left: "wf_known I E w \<Longrightarrow> wf_known I E (attach_left a s w)"
  by (auto simp: attach_left_def wf_tune keeps_id_def intro!: wf_upd_con)

lemma wf_wake_both: "wf_known I E w \<Longrightarrow> wf_known I E (wake_both a s w)"
  by (auto simp: wake_both_def Let_def intro!: wf_data_ready split: option.splits)

lemma wf_identify: "wf_known I E (snd (identify_client E' s w)) = wf_known I E w"
  by (auto simp: identify_client_def split: option.splits)

lemma wf_accept_client:
  assumes "wf_known I E w"
  shows "wf_known I E (snd (accept_client E' peer w))"
proof -
  obtain s w1 where ns: "new_socket (new_sock\<lparr>k_peer := Some peer\<rparr>) w = (s, w1)" by force
  obtain h w2 where ic: "identify_client E' s w1 = (h, w2)" by force
  have wf: "wf_known I E w2"
    using assms wf_new_socket [OF ns] wf_identify [of I E E' s w1] ic by simp
  have q: "wf_known I E w4" if "queue_work a R2L (pepdna_con_get a w3) = (b, w4)" "wf_known I E w3" for a b w3 w4
    using that wf_con_get [of I E w3 a] by (auto simp: queue_work_def split: if_splits)
  show ?thesis
    using wf ns ic wf_attach_left [OF wf]
    by (auto simp: accept_client_def Let_def split: option.splits prod.splits
        intro!: wf_wake_both wf_con_put dest: q)
qed

lemma wf_tcp_accept: "wf_known I E w \<Longrightarrow> wf_known I E (snd (pepdna_tcp_accept rest w))"
proof (induction rest w rule: pepdna_tcp_accept.induct)
  case (3 E' peer rest w)
  obtain r w1 where ac: "accept_client E' peer w = (r, w1)" by force
  have "wf_known I E w1" using wf_accept_client [OF 3(2), of E' peer] ac by simp
  with 3(1) [OF ac [symmetric]] ac show ?case by (auto split: option.splits)
qed auto

subsection \<open>What reaches the other socket\<close>

lemma taken_frame:
  "taken t (g_log (add_fault f w)) = taken t (g_log w)" "taken t (g_log (upd_con a g w)) = taken t (g_log w)"
  "taken t (g_log (upd_sock s h w)) = taken t (g_log w)" "taken t (g_log (upd_srv k w)) = taken t (g_log w)"
  "taken t (g_log (sock_release s w)) = taken t (g_log w)"
  "taken t (g_log (kernel_sock_shutdown s w)) = taken t (g_log w)"
  by (simp_all add: store_defs taken_append split: option.splits ptr.splits)

lemma taken_put: "taken t (g_log (pepdna_con_put a w)) = taken t (g_log w)"
  by (simp add: pepdna_con_put_def pepdna_con_kref_release_def Let_def taken_frame split: option.splits)

lemma taken_parts:
  "taken t (g_log (close_left a s b w)) = taken t (g_log w)"
  "taken t (g_log (close_right_tcp a s b w)) = taken t (g_log w)"
  "taken t (g_log (con_rtxq_destroy a w)) = taken t (g_log w)"
  by (simp_all add: close_left_def close_right_tcp_def con_rtxq_destroy_def Let_def taken_frame
      split: option.splits ptr.splits)

lemma taken_close_rina: "taken t (g_log (close_right_rina a con b w)) = taken t (g_log w)"
  by (simp add: close_right_rina_def Let_def taken_frame log_event_def taken_append split: option.splits)

lemma taken_close: "taken t (g_log (pepdna_con_close E p w)) = taken t (g_log w)"
  unfolding pepdna_con_close_def Let_def
  by (simp add: taken_put taken_frame taken_parts taken_close_rina split: option.split ptr.split)

text \<open>The bytes that the rounds of a forwarding work read.\<close>

definition round_bytes :: "fwd_round \<Rightarrow> bytes" where
  "round_bytes r = (case fst (snd r) MAX_BUF_SIZE of (n, b) \<Rightarrow> if 0 < n then b else [])"

definition lawful_round :: "fwd_round \<Rightarrow> bool" where
  "lawful_round r \<longleftrightarrow> recv_law MAX_BUF_SIZE (fst (snd r) MAX_BUF_SIZE)
     \<and> sendmsg_law (snd (snd r)) (length (round_bytes r))"

lemma i2i_fwd_cases:
  assumes "lawful_round (E, recv, rs)" "pepdna_con_i2i_fwd E recv rs (Some f) (Some t) w = (Some rc, w')"
  shows "g_cons w' = g_cons w
     \<and> (\<exists>out. taken t (g_log w') = taken t (g_log w) @ out \<and> prefix out (round_bytes (E, recv, rs))
            \<and> (0 < rc \<longrightarrow> out = round_bytes (E, recv, rs)))"
proof (cases "kzalloc E A_buffer \<and> 0 < fst (recv MAX_BUF_SIZE)")
  case False
  then have "w' = w \<and> (0 < rc \<longrightarrow> round_bytes (E, recv, rs) = [])"
    using assms(2) by (auto simp: pepdna_con_i2i_fwd_def round_bytes_def Let_def split: if_splits prod.splits)
  then show ?thesis by auto
next
  case True
  obtain read buf where r: "recv MAX_BUF_SIZE = (read, buf)" by force
  have rb: "round_bytes (E, recv, rs) = buf" using True r by (simp add: round_bytes_def)
  obtain k where k: "g_socks w t = Some k"
    using assms(2) True r by (cases "g_socks w t")
      (auto simp: pepdna_con_i2i_fwd_def pepdna_sock_write_def Let_def split: if_splits)
  obtain v out flt where loop: "sock_write_loop (k_user_data k \<noteq> UD_null) rs buf 0 0 = (v, out, flt)"
    by (rule prod_cases3)
  obtain sent where v: "v = Some sent" and
    w': "w' = log_event (Ev_sent t out) (if flt then add_fault NullDeref w else w)"
    and rc: "rc = (if sent < 0 then -1 else read)"
    using assms(2) True r k loop
    by (auto simp: pepdna_con_i2i_fwd_def pepdna_sock_write_def Let_def split: if_splits option.splits)
  have law: "sendmsg_law rs (length buf)" using assms(1) rb by (simp add: lawful_round_def)
  have "prefix out buf" using sock_write_loop_prefix loop by blast
  moreover have "out = buf" if "0 < rc"
    using sock_write_loop_complete [OF loop [unfolded v] law] rc that by (auto split: if_splits)
  moreover have "taken t (g_log w') = taken t (g_log w) @ out" "g_cons w' = g_cons w"
    using w' by (simp_all add: log_event_def add_fault_def taken_append)
  ultimately show ?thesis using rb by blast
qed

lemma i2i_loop_down:
  "left_down a w \<Longrightarrow> i2i_loop c_lflag from to rounds a w = Some w' \<Longrightarrow> taken t (g_log w') = taken t (g_log w)"
  by (subst (asm) i2i_loop.simps) (auto simp: left_down_def taken_frame split: option.splits)

text \<open>
  C30. Forwarding from the left to the right socket keeps the stream: whatever the two
  sockets answer, when the work returns the right socket got a prefix of the bytes that were
  read from the left one, in order, without gaps or duplicates.
\<close>

theorem l2r_fwd_in_order:
  assumes "g_cons w a = Some con" "c_lsock con = Some f" "c_rsock con = Some t"
    and "\<forall>r\<in>set rounds. lawful_round r" "pepdna_con_l2r_fwd rounds a w = Some w'"
  shows "\<exists>out. taken t (g_log w') = taken t (g_log w) @ out \<and> prefix out (concat (map round_bytes rounds))"
proof -
  have "\<exists>out. taken t (g_log w') = taken t (g_log w) @ out \<and> prefix out (concat (map round_bytes rounds))"
    if "i2i_loop c_lflag c_lsock c_rsock rounds a w = Some w'" "g_cons w a = Some con"
      "\<forall>r\<in>set rounds. lawful_round r" for rounds w w'
    using that
  proof (induction rounds arbitrary: w)
    case Nil
    then show ?case by (subst (asm) i2i_loop.simps) (auto split: if_splits)
  next
    case (Cons r rounds)
    obtain E recv rs where r: "r = (E, recv, rs)" by (rule prod_cases3)
    obtain v w1 where fwd: "pepdna_con_i2i_fwd E recv rs (Some f) (Some t) w = (v, w1)" by force
    note step = i2i_loop.simps [of c_lflag c_lsock c_rsock "(E, recv, rs) # rounds" a w]
    show ?case
    proof (cases "c_lflag con \<and> v \<noteq> None")
      case False
      then show ?thesis
        using Cons.prems fwd r assms(2,3) by (auto simp: step split: if_splits option.splits)
    next
      case True
      then obtain rc where v: "v = Some rc" by blast
      have law: "lawful_round (E, recv, rs)" using Cons.prems(3) r by simp
      obtain out where g: "g_cons w1 = g_cons w" and out: "taken t (g_log w1) = taken t (g_log w) @ out"
        "prefix out (round_bytes r)" "0 < rc \<longrightarrow> out = round_bytes r"
        using i2i_fwd_cases [OF law fwd [unfolded v]] r by blast
      have cont: "(if rc \<le> 0 then if rc = - EAGAIN then Some w1
          else i2i_loop c_lflag c_lsock c_rsock rounds a (pepdna_con_close E (Some a) w1)
          else i2i_loop c_lflag c_lsock c_rsock rounds a w1) = Some w'"
        using Cons.prems(1,2) True fwd v r assms(2,3) by (simp add: step)
      show ?thesis
      proof (cases "0 < rc")
        case True
        obtain out' where "taken t (g_log w') = taken t (g_log w1) @ out'"
          "prefix out' (concat (map round_bytes rounds))"
          using Cons.IH [of w1] cont True Cons.prems(2,3) g by auto
        with out True show ?thesis by (intro exI [of _ "out @ out'"]) simp
      next
        case False
        have "left_down a (pepdna_con_close E (Some a) w1)"
          using con_close_left_down Cons.prems(2) g assms(2) by simp
        then have "taken t (g_log w') = taken t (g_log w1)"
          using cont False i2i_loop_down taken_close by (auto split: if_splits)
        with out show ?thesis by (auto intro: prefix_prefix)
      qed
    qed
  qed
  with assms show ?thesis by (auto simp: pepdna_con_l2r_fwd_def taken_put)
qed

theorem l2r_fwd_in_order_witness:
  "\<exists>w'. pepdna_con_l2r_fwd [(sample_env, \<lambda>_. (2, [5, 6]), [(2, [])]), (sample_env, \<lambda>_. (- EAGAIN, []), [])] 0
       (pair_world sample_env TCP2TCP pair_con) = Some w'
     \<and> taken 2 (g_log w') = [5, 6] \<and> prefix (taken 2 (g_log w')) [5, 6]"
proof -
  let ?w = "pair_world sample_env TCP2TCP pair_con"
  let ?rounds = "[(sample_env, \<lambda>_. (2, [5, 6]), [(2, [])]), (sample_env, \<lambda>_. (- EAGAIN, []), [])] :: fwd_round list"
  have con: "g_cons ?w 0 = Some pair_con" "c_lsock pair_con = Some 1" "c_rsock pair_con = Some 2"
    by (simp_all add: pair_world_def pair_con_def)
  have law: "\<forall>r\<in>set ?rounds. lawful_round r"
    by (simp add: lawful_round_def recv_law_def round_bytes_def MAX_BUF_SIZE_def)
  have socks: "g_socks ?w 1 \<noteq> None" "g_socks ?w 2 = Some (new_sock\<lparr>k_user_data := UD_con 0, k_data_ready := DR_r2l\<rparr>)"
    by (simp_all add: pair_world_def)
  have buf: "kzalloc sample_env A_buffer" by (simp add: sample_env_def)
  let ?w1 = "log_event (Ev_sent 2 [5, 6]) ?w"
  have r1: "pepdna_con_i2i_fwd sample_env (\<lambda>_. (2, [5, 6])) [(2, [])] (Some 1) (Some 2) ?w = (Some 2, ?w1)"
    using socks buf by (simp add: pepdna_con_i2i_fwd_def pepdna_sock_write_def)
  have r2: "pepdna_con_i2i_fwd sample_env (\<lambda>_. (- EAGAIN, [])) [] (Some 1) (Some 2) ?w1 = (Some (- EAGAIN), ?w1)"
    using socks buf by (simp add: pepdna_con_i2i_fwd_def log_event_def)
  have g1: "g_cons ?w1 0 = Some pair_con" using con by (simp add: log_event_def)
  have up: "c_lflag pair_con" by (simp add: pair_con_def)
  have loop: "i2i_loop c_lflag c_lsock c_rsock ?rounds 0 ?w = Some ?w1"
    using con up g1 r1 r2 by (simp add: i2i_loop.simps)
  then have run: "pepdna_con_l2r_fwd ?rounds 0 ?w = Some (pepdna_con_put 0 ?w1)"
    by (simp add: pepdna_con_l2r_fwd_def)
  have log: "taken 2 (g_log ?w) = []" by (simp add: pair_world_def sample_world_def)
  have "\<exists>out. taken 2 (g_log (pepdna_con_put 0 ?w1)) = taken 2 (g_log ?w) @ out
      \<and> prefix out (concat (map round_bytes ?rounds))"
    by (rule l2r_fwd_in_order [OF con law run])
  moreover have "taken 2 (g_log (pepdna_con_put 0 ?w1)) = [5, 6]"
    using log by (simp only: taken_put) (simp add: log_event_def taken_append)
  ultimately show ?thesis using run by auto
qed

subsection \<open>The MINIP handshake\<close>

lemma syn_of_bytes_syn_bytes: "4 \<le> length pad \<Longrightarrow> syn_of_bytes (syn_bytes pad syn) = Some syn"
proof -
  assume "4 \<le> length pad"
  then obtain a b c d r where "pad = a # b # c # d # r"
    by (auto simp: numeral_eq_Suc Suc_le_length_iff)
  then show ?thesis by (simp add: syn_bytes_def le32_def le16_def)
qed

text \<open>What opening the socket leaves alone.\<close>

definition sock_ok :: "kenv \<Rightarrow> bool" where
  "sock_ok E \<longleftrightarrow> 0 \<le> sock_create_kern E \<and> 0 \<le> kernel_bind E \<and> 0 \<le> kernel_connect E"

definition socks_only :: "nat \<Rightarrow> world \<Rightarrow> world \<Rightarrow> bool" where
  "socks_only s w w' \<longleftrightarrow> g_socks w' s \<noteq> None \<and> (\<exists>n F. w' = w\<lparr>g_next_sock := n, g_socks := F\<rparr>)"

lemma socks_only_upd: "socks_only s w w' \<Longrightarrow> socks_only s w (upd_sock s f w')"
  by (auto simp: socks_only_def upd_sock_def) blast

lemma socks_only_ops:
  assumes "socks_only s w w'"
  shows "socks_only s w (tune_socket s w')" "socks_only s w (pepdna_ip_transparent E s w')"
    "socks_only s w (pepdna_set_mark s v w')" "socks_only s w (set_callback s dr ud w')"
  using assms
  by (auto simp: tune_socket_def pepdna_tcp_nodelayedack_def pepdna_tcp_nonagle_def
      pepdna_set_bufsize_def pepdna_ip_transparent_def pepdna_set_mark_def set_callback_def Let_def
      intro!: socks_only_upd)

lemma connect_socket_ok:
  assumes "sock_ok E"
  shows "\<exists>w'. connect_socket E t w = (Some (g_next_sock w), w') \<and> socks_only (g_next_sock w) w w'"
proof -
  have new: "socks_only (g_next_sock w) w
      (w\<lparr>g_next_sock := g_next_sock w + 1, g_socks := (g_socks w)(g_next_sock w \<mapsto> new_sock)\<rparr>)"
    by (auto simp: socks_only_def)
  show ?thesis
    using assms new
    by (auto simp: connect_socket_def new_socket_def sock_ok_def Let_def
        intro!: socks_only_upd socks_only_ops)
qed

lemma socks_only_simps:
  assumes "socks_only s w w'"
  shows "g_cons w' = g_cons w" "g_srv w' = g_srv w" "g_out w' = g_out w" "g_pending w' = g_pending w"
    "g_faults w' = g_faults w" "g_log w' = g_log w" "to_mac w' = to_mac w" "g_socks w' s \<noteq> None"
  using assms by (auto simp: socks_only_def to_mac_def)

definition response_frame :: "kenv \<Rightarrow> u32 \<Rightarrow> bytes \<Rightarrow> sk_buff" where
  "response_frame E cid mac = new_frame E mac
     (\<lambda>h. h\<lparr>h_pkt_type := pkt_code MINIP_CONN_RESPONSE, h_sdu_len := 0, h_id := htonl cid,
            h_seq := htonl MINIP_FIRST_SEQ, h_ack := htonl (MINIP_FIRST_SEQ + 1)\<rparr>) []"

lemma send_response_ok:
  "healthy E \<Longrightarrow> pepdna_minip_send_response E cid mac w =
     (dev_queue_xmit E (response_frame E cid mac), w\<lparr>g_out := g_out w @ [response_frame E cid mac]\<rparr>)"
  by (simp add: pepdna_minip_send_response_def xmit_frame_def healthy_def response_frame_def)

definition synced :: "pepdna_con \<Rightarrow> bool" where
  "synced con \<longleftrightarrow> c_state con = ESTABLISHED \<and> c_next_seq con = MINIP_FIRST_SEQ + 1
     \<and> c_last_acked con = MINIP_FIRST_SEQ + 1 \<and> c_next_recv con = MINIP_FIRST_SEQ + 1"

definition fresh_seqs :: "pepdna_con \<Rightarrow> bool" where
  "fresh_seqs con \<longleftrightarrow> c_next_seq con = MINIP_FIRST_SEQ \<and> c_last_acked con = MINIP_FIRST_SEQ
     \<and> c_next_recv con = MINIP_FIRST_SEQ"

lemma out_put [simp]: "g_out (pepdna_con_put a w) = g_out w"
  by (simp add: pepdna_con_put_def pepdna_con_kref_release_def Let_def store_defs
      split: option.splits ptr.splits)

lemma out_get_and_queue [simp]: "g_out (con_get_and_queue a slot w) = g_out w"
  by (auto simp: con_get_and_queue_def queue_work_def pepdna_con_get_def upd_con_def add_fault_def
      split: option.splits)

lemma data_ready_out: "g_out (sk_data_ready s w) = g_out w"
  by (simp add: sk_data_ready_def pepdna_tcp_listen_data_ready_def pepdna_l2r_conn_data_ready_def
      pepdna_r2l_conn_data_ready_def pepdna_udp_data_ready_def add_fault_def
      split: option.split data_ready.split user_data.split)

lemma con_get_and_queue_con:
  assumes "g_cons w a = Some c" "0 < c_kref c"
  shows "\<exists>n. g_cons (con_get_and_queue a slot w) a = Some (c\<lparr>c_kref := n\<rparr>)"
  using con_get_and_queue_live [OF assms, of slot] assms(1)
  by (auto intro: exI [of _ "c_kref c"])

lemma m2i_connect_ok:
  assumes "healthy E" "sock_ok E" "CONFIG_MINIP E" "g_cons w b = Some con" "0 < c_kref con"
    and "g_srv w = Live srv" "mode_of (s_mode srv) = Some MINIP2TCP"
  shows "\<exists>con'. g_cons (pepdna_tcp_connect E uni b w) b = Some con'
      \<and> g_out (pepdna_tcp_connect E uni b w) = g_out w @ [response_frame E (c_id con) (to_mac w)]
      \<and> c_state con' = ESTABLISHED \<and> c_next_seq con' = c_next_seq con + 1
      \<and> c_last_acked con' = c_last_acked con + 1 \<and> c_next_recv con' = c_next_recv con + 1
      \<and> c_lsock con' = Some (g_next_sock w) \<and> c_lflag con' \<and> c_id con' = c_id con \<and> c_tuple con' = c_tuple con"
proof -
  let ?s = "g_next_sock w"
  obtain w1 where w1: "connect_socket E (c_tuple con) w = (Some ?s, w1)" and so: "socks_only ?s w w1"
    using connect_socket_ok [OF assms(2)] by blast
  note eqs = socks_only_simps [OF so]
  let ?fr = "response_frame E (c_id con) (to_mac w)"
  let ?f = "\<lambda>c. c\<lparr>c_state := ESTABLISHED, c_next_seq := c_next_seq c + 1, c_last_acked := c_last_acked c + 1,
     c_next_recv := c_next_recv c + 1, c_lsock := Some ?s\<rparr>"
  let ?w2 = "set_callback ?s DR_l2r (UD_con b) (upd_con b ?f (w1\<lparr>g_out := g_out w @ [?fr]\<rparr>))"
  let ?w3 = "upd_con b (\<lambda>c. c\<lparr>c_lflag := True\<rparr>) ?w2"
  have xm: "\<not> dev_queue_xmit E ?fr < 0" using assms(1) by (simp add: healthy_def not_less)
  have run: "pepdna_tcp_connect E uni b w = sk_data_ready ?s ?w3"
    using assms(1,3,4,6,7) w1 eqs(1-3,7) xm
    by (simp add: pepdna_tcp_connect_def send_response_ok Let_def)
  obtain k where k: "g_socks w1 ?s = Some k" using eqs(8) by blast
  have g3: "g_cons ?w3 b = Some ((?f con)\<lparr>c_lflag := True\<rparr>)" "g_out ?w3 = g_out w @ [?fr]"
    "\<exists>k'. g_socks ?w3 ?s = Some k' \<and> k_data_ready k' = DR_l2r \<and> k_user_data k' = UD_con b"
    using assms(4) eqs(1) k by (simp_all add: set_callback_def upd_sock_def upd_con_def)
  have "sk_data_ready ?s ?w3 = con_get_and_queue b L2R ?w3"
    using g3 by (auto simp: sk_data_ready_def pepdna_l2r_conn_data_ready_def lconnected_def)
  then obtain n where "g_cons (sk_data_ready ?s ?w3) b = Some ((?f con)\<lparr>c_lflag := True\<rparr>\<lparr>c_kref := n\<rparr>)"
    using con_get_and_queue_con [OF g3(1)] assms(5) by auto
  then show ?thesis unfolding run using g3(2) data_ready_out by simp
qed

definition request_frame :: "kenv \<Rightarrow> bytes \<Rightarrow> pepdna_con \<Rightarrow> bytes \<Rightarrow> sk_buff" where
  "request_frame E pad con mac = new_frame E mac
     (\<lambda>h. h\<lparr>h_pkt_type := pkt_code MINIP_CONN_REQUEST, h_sdu_len := 16, h_id := htonl (c_id con),
            h_seq := htonl MINIP_FIRST_SEQ, h_ack := htonl MINIP_FIRST_SEQ, h_ts := htonl (now_ms E)\<rparr>)
     (syn_bytes pad (c_tuple con))"

lemma handshake_ok:
  assumes "healthy E" "g_cons w a = Some con"
  shows "pepdna_minip_handshake E pad a w =
    upd_con a (\<lambda>c. c\<lparr>c_state := REQUEST_SENT, c_next_seq := c_next_seq c + 1\<rparr>)
      (w\<lparr>g_out := g_out w @ [request_frame E pad con (to_mac w)]\<rparr>)"
proof -
  have "\<not> dev_queue_xmit E f < 0" for f using assms(1) by (simp add: healthy_def not_less)
  moreover have "pepdna_minip_conn_request E pad (c_tuple con) (c_id con) (to_mac w) w =
      (dev_queue_xmit E (request_frame E pad con (to_mac w)),
       w\<lparr>g_out := g_out w @ [request_frame E pad con (to_mac w)]\<rparr>)"
    using assms(1) by (simp add: pepdna_minip_conn_request_def xmit_frame_def healthy_def request_frame_def)
  ultimately show ?thesis using assms(2) by (simp add: pepdna_minip_handshake_def Let_def)
qed

lemma new_con_fresh:
  assumes "CONFIG_MINIP E" "con_works E mode \<noteq> None"
  shows "fresh_seqs (new_con E mode syn skb h ts pid)"
  using assms by (auto simp: new_con_def init_con_def fresh_seqs_def Let_def)

lemma recv_request_ok:
  assumes "healthy F" "CONFIG_MINIP F" "g_srv v = Live srv" "mode_of (s_mode srv) = Some MINIP2TCP"
    and "(g_next v, TCFA) \<notin> set (g_pending v)" "syn_of_bytes (f_data skb) = Some syn"
  shows "\<exists>v1 con. pepdna_minip_recv_request F skb v = (0, v1) \<and> g_cons v1 (g_next v) = Some con
     \<and> fresh_seqs con \<and> 0 < c_kref con \<and> c_tuple con = syn
     \<and> c_id con = pepdna_hash32_rjenkins1_2 (t_saddr syn) (t_source syn)
     \<and> (\<exists>srv'. g_srv v1 = Live srv' \<and> s_mode srv' = s_mode srv) \<and> g_out v1 = g_out v"
proof -
  let ?h = "pepdna_hash32_rjenkins1_2 (t_saddr syn) (t_source syn)"
  have works: "con_works F (s_mode srv) \<noteq> None" using assms(2,4) by (simp add: con_works_def)
  have alloc: "\<And>x. kzalloc F x" using assms(1) by (simp add: healthy_def)
  note ok = con_alloc_ok [OF assms(3) alloc works _ assms(5), of syn None ?h 0 0]
  show ?thesis
    using ok alloc assms(6) new_con_fresh [OF assms(2) works] new_con_simps [OF works]
    by (simp add: pepdna_minip_recv_request_def hash_add_def)
qed

text \<open>
  C17. The handshake synchronises the two proxies. The request that the initiator sends
  carries the addresses of the client; the responder allocates a connection for them under the
  same identifier, connects to the target and answers; after the answer the
  initiator hands the client's SYN back to the stack. Both ends are then established and
  agree on every sequence number: each will send the packet the other expects.
\<close>

theorem handshake_synchronises:
  assumes "healthy E" "healthy F" "sock_ok F" "CONFIG_MINIP F" "\<not> CONFIG_LOCAL_SENDER E" "4 \<le> length pad"
    and "pepdna_con_find E (c_id con) w = Some a" "g_cons w a = Some con" "fresh_seqs con" "c_skb con = Live syn"
    and "c_id con = pepdna_hash32_rjenkins1_2 (t_saddr (c_tuple con)) (t_source (c_tuple con))"
    and "g_srv v = Live srv" "mode_of (s_mode srv) = Some MINIP2TCP" "(g_next v, TCFA) \<notin> set (g_pending v)"
    and "w1 = pepdna_minip_handshake E pad a w"
  shows "\<exists>req resp v1 v2 w2 ca cb.
     g_out w1 = g_out w @ [req] \<and> pepdna_minip_recv_request F req v = (0, v1)
     \<and> v2 = pepdna_tcp_connect F uni (g_next v) v1 \<and> g_out v2 = g_out v @ [resp]
     \<and> pepdna_minip_recv_response E (f_hdr resp) w1 = (0, w2)
     \<and> g_cons w2 a = Some ca \<and> g_cons v2 (g_next v) = Some cb \<and> synced ca \<and> synced cb
     \<and> c_id cb = c_id ca \<and> c_tuple cb = c_tuple con \<and> c_rflag ca \<and> c_lflag cb
     \<and> g_log w2 = g_log w @ [Ev_reinject syn]"
proof -
  let ?req = "request_frame E pad con (to_mac w)"
  let ?g = "\<lambda>c. c\<lparr>c_state := REQUEST_SENT, c_next_seq := c_next_seq c + 1\<rparr>"
  have w1: "w1 = upd_con a ?g (w\<lparr>g_out := g_out w @ [?req]\<rparr>)"
    unfolding assms(15) using handshake_ok [OF assms(1,8)] by simp
  have con1: "g_cons w1 a = Some (?g con)" "g_out w1 = g_out w @ [?req]" "g_log w1 = g_log w"
    using assms(8) unfolding w1 by (simp_all add: upd_con_def)
  have "pepdna_con_find E (c_id con) w1 = pepdna_con_find E (c_id con) w"
    by (rule con_find_same_ids) (use assms(8) in \<open>auto simp: w1 upd_con_def\<close>)
  then have find1: "pepdna_con_find E (c_id con) w1 = Some a" using assms(7) by simp
  have "syn_of_bytes (f_data ?req) = Some (c_tuple con)"
    using assms(6) by (simp add: request_frame_def new_frame_def syn_of_bytes_syn_bytes)
  then obtain v1 cb0 srv' where v1: "pepdna_minip_recv_request F ?req v = (0, v1)"
    "g_cons v1 (g_next v) = Some cb0" "fresh_seqs cb0" "0 < c_kref cb0" "c_tuple cb0 = c_tuple con"
    "c_id cb0 = c_id con" "g_srv v1 = Live srv'" "s_mode srv' = s_mode srv" "g_out v1 = g_out v"
    using recv_request_ok [OF assms(2,4,12-14)] assms(11) by metis
  let ?resp = "response_frame F (c_id con) (to_mac v1)"
  let ?v2 = "pepdna_tcp_connect F uni (g_next v) v1"
  obtain cb where cb: "g_cons ?v2 (g_next v) = Some cb" "g_out ?v2 = g_out v @ [?resp]" "synced cb" "c_lflag cb"
    "c_id cb = c_id con" "c_tuple cb = c_tuple con"
    using m2i_connect_ok [OF assms(2,3,4) v1(2,4,7), of uni] assms(13) v1
    by (auto simp: synced_def fresh_seqs_def)
  let ?f = "\<lambda>c. c\<lparr>c_rflag := True, c_last_acked := c_last_acked c + 1, c_state := ESTABLISHED,
     c_next_recv := c_next_recv c + 1\<rparr>"
  let ?ca = "(?f (?g con))\<lparr>c_skb := Freed\<rparr>"
  let ?w2 = "upd_con a (\<lambda>c. c\<lparr>c_skb := Freed\<rparr>) (log_event (Ev_reinject syn) (upd_con a ?f w1))"
  have "ntohl (h_id (f_hdr ?resp)) = c_id con" by (simp add: response_frame_def new_frame_def)
  then have w2: "pepdna_minip_recv_response E (f_hdr ?resp) w1 = (0, ?w2)"
    using find1 con1 assms(5,10) by (simp add: pepdna_minip_recv_response_def reinject_syn_def upd_con_def log_event_def)
  have ca: "g_cons ?w2 a = Some ?ca" "g_log ?w2 = g_log w @ [Ev_reinject syn]"
    using con1 by (simp_all add: upd_con_def log_event_def)
  have "synced ?ca" using assms(9) by (simp add: synced_def fresh_seqs_def)
  moreover have "c_id cb = c_id ?ca" "c_rflag ?ca" using cb(5) by simp_all
  ultimately show ?thesis using con1(2) v1(1) cb w2 ca by blast
qed

theorem handshake_synchronises_witness:
  "\<exists>req (resp :: sk_buff) v1 w2 ca cb.
     pepdna_minip_recv_request sample_env req (sample_world MINIP2TCP) = (0, v1)
     \<and> pepdna_minip_recv_response sample_env (f_hdr resp)
         (pepdna_minip_handshake sample_env [0, 0, 0, 0] 0
           (minip_world (minip_con\<lparr>c_next_seq := 9, c_last_acked := 9, c_next_recv := 9, c_skb := Live ex_syn,
              c_id := pepdna_hash32_rjenkins1_2 0 0\<rparr>))) = (0, w2)
     \<and> g_cons w2 0 = Some ca \<and> g_cons (pepdna_tcp_connect sample_env (\<lambda>_. 0) 0 v1) 0 = Some cb
     \<and> synced ca \<and> synced cb"
proof -
  let ?h = "pepdna_hash32_rjenkins1_2 0 0"
  let ?con = "minip_con\<lparr>c_next_seq := 9, c_last_acked := 9, c_next_recv := 9, c_skb := Live ex_syn, c_id := ?h\<rparr>"
  let ?w = "minip_world ?con"
  have env: "sock_ok sample_env" "CONFIG_MINIP sample_env" "\<not> CONFIG_LOCAL_SENDER sample_env"
    by (simp_all add: sock_ok_def sample_env_def)
  have g: "g_cons ?w 0 = Some ?con" by (simp add: minip_world_def pair_world_def)
  have find: "pepdna_con_find sample_env (c_id ?con) ?w = Some 0"
    by (simp add: pepdna_con_find_def minip_world_def pair_world_def hash_add_def sample_srv_def has_id_def)
  have con: "fresh_seqs ?con" "c_skb ?con = Live ex_syn"
    "c_id ?con = pepdna_hash32_rjenkins1_2 (t_saddr (c_tuple ?con)) (t_source (c_tuple ?con))"
    by (simp_all add: fresh_seqs_def MINIP_FIRST_SEQ_def minip_con_def est_con_def zero_con_def)
  have v: "g_srv (sample_world MINIP2TCP) = Live (sample_srv MINIP2TCP)"
    "mode_of (s_mode (sample_srv MINIP2TCP)) = Some MINIP2TCP" "g_next (sample_world MINIP2TCP) = 0"
    "(g_next (sample_world MINIP2TCP), TCFA) \<notin> set (g_pending (sample_world MINIP2TCP))"
    unfolding sample_srv_def pepdna_server.select_convs mode_of_code by (simp_all add: sample_world_def sample_srv_def)
  have pad: "4 \<le> length [0, 0, 0, 0 :: u8]" by simp
  let ?w1 = "pepdna_minip_handshake sample_env [0, 0, 0, 0] 0 ?w"
  from handshake_synchronises [OF healthy_sample healthy_sample env pad find g con v(1,2,4) refl, of "\<lambda>_. 0"]
  obtain req and resp :: sk_buff and v1 w2 ca cb where
    "pepdna_minip_recv_request sample_env req (sample_world MINIP2TCP) = (0, v1)"
    "pepdna_minip_recv_response sample_env (f_hdr resp) ?w1 = (0, w2)" "g_cons w2 0 = Some ca"
    "g_cons (pepdna_tcp_connect sample_env (\<lambda>_. 0) 0 v1) 0 = Some cb" "synced ca" "synced cb"
    unfolding v(3) by (elim exE conjE) blast
  then show ?thesis by blast
qed


end
