(* ===== verification/Pep_Rina.thy ===== *)
theory Pep_Rina
  imports Pep_Tcp
begin

section \<open>RINA flows (rina.c, netlink.c)\<close>

text \<open>
  The side of a proxy that faces the IRATI RINA stack. A flow is the part of the stack's
  structure that this code reads; the stack's own services (finding a flow by its port, the
  size of its data units, reading and writing them) are arguments, and so are the states of
  the flow that a waiting loop observes, because the stack changes them concurrently.
\<close>

subsection \<open>The state of a flow\<close>

definition flow_is_ok :: "ipcp_flow option \<Rightarrow> bool" where
  "flow_is_ok flow =
    (case flow of None \<Rightarrow> False
     | Some fl \<Rightarrow> fl_wqs fl \<and> (fl_state fl = PORT_STATE_ALLOCATED \<or> fl_state fl = PORT_STATE_DISABLED))"

definition sdu_empty :: "ipcp_flow option \<Rightarrow> bool" where
  "sdu_empty flow = (case flow of None \<Rightarrow> True | Some fl \<Rightarrow> fl_sdu_ready fl = [])"

definition queue_is_ready :: "ipcp_flow option \<Rightarrow> bool" where
  "queue_is_ready flow = (\<not> flow_is_ok flow \<or> \<not> sdu_empty flow)"

text \<open>
  One round of the waiting loop: the flow at its start, the result of \<open>schedule_timeout\<close>, the
  flow afterwards, and whether a signal is pending. \<open>None\<close> is a loop that still waits.
\<close>

type_synonym wait_obs = "ipcp_flow option \<times> int \<times> ipcp_flow option \<times> bool"

definition finish_wait :: "ipcp_flow option \<Rightarrow> int \<Rightarrow> int" where
  "finish_wait flow timeo = (if flow_is_ok flow then timeo else - ESHUTDOWN)"

fun pepdna_wait_for_sdu :: "int \<Rightarrow> wait_obs list \<Rightarrow> int option" where
  "pepdna_wait_for_sdu timeo [] = None"
| "pepdna_wait_for_sdu timeo ((before, sched, after, sig) # obs) =
    (if \<not> flow_is_ok before then Some (- ESHUTDOWN)
     else
       (let timeo = (if timeo \<noteq> 0 \<and> sdu_empty before then sched else timeo)
        in if timeo = 0 \<or> queue_is_ready after then Some (finish_wait after timeo)
           else if sig then Some (finish_wait after (- ERESTARTSYS))
           else pepdna_wait_for_sdu timeo obs))"

subsection \<open>Writing\<close>

text \<open>
  The loop that cuts a buffer into data units. \<open>du_write\<close> is the result of the stack for the
  n-th unit. With a unit size of 0 the loop never ends: the result is then \<open>None\<close>. Besides
  the code it returns the units written.
\<close>

function flow_write_loop ::
    "kenv \<Rightarrow> (nat \<Rightarrow> int) \<Rightarrow> nat \<Rightarrow> nat \<Rightarrow> bytes \<Rightarrow> nat \<Rightarrow> (int \<times> bytes list) option" where
  "flow_write_loop E du_write max_du_size n left sent =
    (if left = [] then Some (int sent, [])
     else if max_du_size = 0 then None
     else
       (let copylen = min (length left) max_du_size;
            stop = (\<lambda>rc. Some (if sent \<noteq> 0 then int sent else rc, []))
        in if \<not> kzalloc E (A_du n) then stop (- ENOMEM)
           else if du_write n \<noteq> 0 then stop (- EIO)
           else map_option (\<lambda>(rc, out). (rc, take copylen left # out))
                  (flow_write_loop E du_write max_du_size (Suc n) (drop copylen left) (sent + copylen))))"
  by pat_completeness auto
termination
  by (relation "measure (\<lambda>(E, d, m, n, left, sent). length left)") auto

declare flow_write_loop.simps [simp del]

text \<open>The test for a negative state never holds: the states of the stack are positive.\<close>

definition pepdna_flow_write ::
    "kenv \<Rightarrow> (nat \<Rightarrow> int) \<Rightarrow> nat \<Rightarrow> ipcp_flow option \<Rightarrow> bytes \<Rightarrow> (int \<times> bytes list) option" where
  "pepdna_flow_write E du_write max_du_size flow buf =
    (case flow of None \<Rightarrow> Some (- EBADF, [])
     | Some _ \<Rightarrow> flow_write_loop E du_write max_du_size 0 buf 0)"

subsection \<open>Allocating a flow\<close>

definition pepdna_rina_flow_alloc :: "kenv \<Rightarrow> (nat \<Rightarrow> int) \<Rightarrow> nat \<Rightarrow> world \<Rightarrow> world" where
  "pepdna_rina_flow_alloc E uni a w =
    (case g_cons w a of None \<Rightarrow> add_fault (UseAfterFree a) w
     | Some con \<Rightarrow>
        (case pepdna_nl_sendmsg E uni (c_tuple con) (c_id con) (c_port_id con) True w of
           (rc, w) \<Rightarrow> if rc < 0 then pepdna_con_close E (Some a) w else w))"

text \<open>\<open>kfa\<close> is the stack's lookup of a flow by its port.\<close>

definition flow_is_ready :: "(int \<Rightarrow> ipcp_flow option) \<Rightarrow> nat \<Rightarrow> world \<Rightarrow> bool \<times> world" where
  "flow_is_ready kfa a w =
    (case g_cons w a of None \<Rightarrow> (False, add_fault (UseAfterFree a) w)
     | Some con \<Rightarrow>
        (case kfa (c_port_id con) of None \<Rightarrow> (False, w)
         | Some fl \<Rightarrow>
            (c_port_id con \<noteq> 0,
             upd_con a (\<lambda>c. c\<lparr>c_flow := Some (fl\<lparr>fl_state := PORT_STATE_ALLOCATED\<rparr>)\<rparr>) w)))"

definition pepdna_flow_set_iowqs :: "kenv \<Rightarrow> ipcp_flow \<Rightarrow> int \<times> ipcp_flow" where
  "pepdna_flow_set_iowqs E flow =
    (if \<not> kzalloc E A_iowqs then (- ENOMEM, flow) else (0, flow\<lparr>fl_wqs := True\<rparr>))"

text \<open>The call of it on the flow of a connection that has no wait queues yet.\<close>

definition con_set_iowqs :: "kenv \<Rightarrow> nat \<Rightarrow> world \<Rightarrow> world" where
  "con_set_iowqs E a w =
     upd_con a (\<lambda>c. case c_flow c of None \<Rightarrow> c
                     | Some fl \<Rightarrow> if fl_wqs fl then c
                                   else c\<lparr>c_flow := Some (snd (pepdna_flow_set_iowqs E fl))\<rparr>) w"

subsection \<open>Forwarding\<close>

text \<open>
  Waiting for data: one element of the list is what one round sees, the flag of the
  connection and the observations of the wait. \<open>Some True\<close> goes on to read, \<open>Some False\<close> is
  the early return.
\<close>

fun rina_wait_loop :: "int \<Rightarrow> (bool \<times> wait_obs list) list \<Rightarrow> bool option" where
  "rina_wait_loop timeo [] = None"
| "rina_wait_loop timeo ((rflag, obs) # rest) =
    (if \<not> rflag then Some True
     else case pepdna_wait_for_sdu timeo obs of None \<Rightarrow> None
          | Some t \<Rightarrow>
             (if 0 < t then Some True
              else if t = - ERESTARTSYS \<or> t = - ESHUTDOWN \<or> t = - EINTR then Some False
              else rina_wait_loop timeo rest))"

text \<open>
  The result of \<open>kfa_flow_du_read\<close> is \<open>rd\<close>: the code, whether the data unit is well formed,
  and its bytes.
\<close>

definition pepdna_con_rina2i_fwd ::
    "int \<Rightarrow> (bool \<times> wait_obs list) list \<Rightarrow> int \<times> bool \<times> bytes \<Rightarrow> send_result list \<Rightarrow> nat \<Rightarrow> world \<Rightarrow>
       int option \<times> world" where
  "pepdna_con_rina2i_fwd timeo waits rd rs a w =
    (case g_cons w a of None \<Rightarrow> (None, add_fault (UseAfterFree a) w)
     | Some con \<Rightarrow>
       (case rina_wait_loop timeo waits of
          None \<Rightarrow> (None, w)
        | Some False \<Rightarrow> (Some (-1), w)
        | Some True \<Rightarrow>
          (let (read, ok, buf) = rd
           in if read \<le> 0 then (Some read, w)
              else if \<not> ok then (Some (- EIO), w)
              else case c_lsock con of None \<Rightarrow> (None, add_fault NullDeref w)
                   | Some s \<Rightarrow>
                      (case pepdna_sock_write rs s buf w of
                         (None, w) \<Rightarrow> (None, w)
                       | (Some sent, w) \<Rightarrow> (if sent < 0 then (Some (-1), w) else (Some read, w))))))"

definition pepdna_con_i2rina_fwd ::
    "kenv \<Rightarrow> (nat \<Rightarrow> recv_result) \<Rightarrow> (nat \<Rightarrow> int) \<Rightarrow> nat \<Rightarrow> nat \<Rightarrow> world \<Rightarrow> int option \<times> world" where
  "pepdna_con_i2rina_fwd E recv du_write max_du_size a w =
    (case g_cons w a of None \<Rightarrow> (None, add_fault (UseAfterFree a) w)
     | Some con \<Rightarrow>
       (if \<not> kzalloc E A_buffer then (Some (- ENOMEM), w)
        else case c_lsock con of None \<Rightarrow> (None, add_fault NullDeref w)
        | Some s \<Rightarrow>
          (if g_socks w s = None then (None, add_fault (UseAfterFree s) w)
           else
             (let (read, buffer) = recv MAX_BUF_SIZE
              in if 0 < read then
                   (case pepdna_flow_write E du_write max_du_size (c_flow con) buffer of
                      None \<Rightarrow> (None, w)
                    | Some (sent, out) \<Rightarrow>
                        (let w = foldl (\<lambda>w b. log_event (Ev_flow_write b) w) w out
                         in if sent < 0 then (Some (-1), w) else (Some read, w)))
                 else (Some read, w)))))"

subsection \<open>Netlink callbacks\<close>

text \<open>The test for an error pointer does not catch a failed allocation, which is null.\<close>

definition nl_r2i_callback :: "kenv \<Rightarrow> (int \<Rightarrow> ipcp_flow option) \<Rightarrow> nl_msg \<Rightarrow> world \<Rightarrow> world" where
  "nl_r2i_callback E kfa nlmsg w =
    (if n_alloc nlmsg then
       (if \<not> kzalloc E A_syn then add_fault NullDeref w
        else
          (let syn = \<lparr>t_saddr = cpu_to_be32 (n_saddr nlmsg), t_source = cpu_to_be16 (n_source nlmsg),
                      t_daddr = cpu_to_be32 (n_daddr nlmsg), t_dest = cpu_to_be16 (n_dest nlmsg)\<rparr>;
               hash_id = pepdna_hash32_rjenkins1_2 (t_saddr syn) (t_source syn)
           in snd (pepdna_con_alloc E syn None hash_id 0 (n_port_id nlmsg) w)))
     else
       (case pepdna_con_find E (n_id nlmsg) w of None \<Rightarrow> w
        | Some a \<Rightarrow>
          (case flow_is_ready kfa a w of (ready, w) \<Rightarrow>
             if \<not> ready then w
             else
               (let w = con_set_iowqs E a w;
                    w = upd_con a (\<lambda>c. c\<lparr>c_rflag := True, c_lflag := True\<rparr>) w
                in case queue_work a R2L (pepdna_con_get a w) of
                     (queued, w) \<Rightarrow>
                       if \<not> queued then pepdna_con_put a w
                       else
                         (case g_cons w a of None \<Rightarrow> add_fault (UseAfterFree a) w
                          | Some con \<Rightarrow>
                             (case c_lsock con of None \<Rightarrow> add_fault NullDeref w
                              | Some s \<Rightarrow> sk_data_ready s w))))))"

definition nl_i2r_callback :: "kenv \<Rightarrow> (int \<Rightarrow> ipcp_flow option) \<Rightarrow> nl_msg \<Rightarrow> world \<Rightarrow> world" where
  "nl_i2r_callback E kfa nlmsg w =
    (case pepdna_con_find E (n_id nlmsg) w of None \<Rightarrow> w
     | Some a \<Rightarrow>
       (let w = upd_con a (\<lambda>c. c\<lparr>c_port_id := n_port_id nlmsg\<rparr>) w
        in case flow_is_ready kfa a w of (ready, w) \<Rightarrow>
             if \<not> ready then w
             else
               reinject_syn E a
                 (con_set_iowqs E a (upd_con a (\<lambda>c. c\<lparr>c_rflag := True\<rparr>) w))))"

text \<open>
  A received message: its length and sender and the bytes after the header. The first one
  only announces the port of the peer. The payload is not checked to be complete.
\<close>

definition pepdna_nl_recv_msg ::
    "kenv \<Rightarrow> (int \<Rightarrow> ipcp_flow option) \<Rightarrow> nat \<Rightarrow> int \<Rightarrow> bytes \<Rightarrow> world \<Rightarrow> world" where
  "pepdna_nl_recv_msg E kfa len pid payload w =
    (if len < 16 then w
     else if CONFIG_RINA E \<and> (mode_of (g_nl_mode w) = Some TCP2RINA \<or> mode_of (g_nl_mode w) = Some RINA2TCP) then
       (if g_nl_port_id w = -1 then w\<lparr>g_nl_port_id := pid\<rparr>
        else case nl_of_bytes payload of None \<Rightarrow> add_fault OverRead w
             | Some m \<Rightarrow>
                (if mode_of (g_nl_mode w) = Some TCP2RINA then nl_i2r_callback E kfa m w
                 else nl_r2i_callback E kfa m w))
     else w)"

subsection \<open>Work items\<close>

type_synonym i2r_round = "kenv \<times> (nat \<Rightarrow> recv_result) \<times> (nat \<Rightarrow> int) \<times> nat \<times> (nat \<Rightarrow> int)"

fun i2r_loop :: "i2r_round list \<Rightarrow> nat \<Rightarrow> world \<Rightarrow> world option" where
  "i2r_loop rounds a w =
    (case g_cons w a of None \<Rightarrow> Some (add_fault (UseAfterFree a) w)
     | Some con \<Rightarrow>
        (if \<not> c_lflag con then Some w
         else case rounds of [] \<Rightarrow> None
              | (E, recv, du_write, max_du_size, uni) # rounds' \<Rightarrow>
                 (case pepdna_con_i2rina_fwd E recv du_write max_du_size a w of
                    (None, w) \<Rightarrow> None
                  | (Some rc, w) \<Rightarrow>
                      (if rc \<le> 0 then
                         (if rc = - EAGAIN then Some w
                          else
                            (let w = snd (pepdna_nl_sendmsg E uni
                                  \<lparr>t_saddr = 0, t_source = 0, t_daddr = 0, t_dest = 0\<rparr> (c_id con)
                                  (c_port_id con) False w)
                             in i2r_loop rounds' a (pepdna_con_close E (Some a) w)))
                       else i2r_loop rounds' a w))))"

declare i2r_loop.simps [simp del]

definition pepdna_con_i2r_work :: "i2r_round list \<Rightarrow> nat \<Rightarrow> world \<Rightarrow> world option" where
  "pepdna_con_i2r_work rounds a w = map_option (pepdna_con_put a) (i2r_loop rounds a w)"

type_synonym r2i_round =
  "kenv \<times> int \<times> (bool \<times> wait_obs list) list \<times> (int \<times> bool \<times> bytes) \<times> send_result list"

text \<open>An empty flow is polled again at once; every other failure closes the connection.\<close>

fun r2i_loop :: "r2i_round list \<Rightarrow> nat \<Rightarrow> world \<Rightarrow> world option" where
  "r2i_loop rounds a w =
    (case g_cons w a of None \<Rightarrow> Some (add_fault (UseAfterFree a) w)
     | Some con \<Rightarrow>
        (if \<not> c_rflag con then Some w
         else case rounds of [] \<Rightarrow> None
              | (E, timeo, waits, rd, rs) # rounds' \<Rightarrow>
                 (case pepdna_con_rina2i_fwd timeo waits rd rs a w of
                    (None, w) \<Rightarrow> None
                  | (Some rc, w) \<Rightarrow>
                      (if rc \<le> 0 \<and> rc \<noteq> - EAGAIN then
                         r2i_loop rounds' a (pepdna_con_close E (Some a)
                           (upd_con a (\<lambda>c. c\<lparr>c_rflag := False\<rparr>) w))
                       else r2i_loop rounds' a w))))"

declare r2i_loop.simps [simp del]

definition pepdna_con_r2i_work :: "r2i_round list \<Rightarrow> nat \<Rightarrow> world \<Rightarrow> world option" where
  "pepdna_con_r2i_work rounds a w = map_option (pepdna_con_put a) (r2i_loop rounds a w)"

subsection \<open>The connection table stays well formed\<close>

lemma wf_log_all: "wf_known I E (foldl (\<lambda>w b. log_event (f b) w) w out) = wf_known I E w"
  by (induction out arbitrary: w) simp_all

lemma wf_rina_flow_alloc: "wf_known I E w \<Longrightarrow> wf_known I E (pepdna_rina_flow_alloc E' uni a w)"
proof (cases "g_cons w a")
  case (Some con)
  assume wf: "wf_known I E w"
  obtain rc w1 where nl: "pepdna_nl_sendmsg E' uni (c_tuple con) (c_id con) (c_port_id con) True w = (rc, w1)" by force
  have "wf_known I E w1"
    using wf_nl_sendmsg [OF wf, of E' uni "c_tuple con" "c_id con" "c_port_id con" True] nl by simp
  with Some nl show ?thesis by (simp add: pepdna_rina_flow_alloc_def wf_con_close')
qed (simp add: pepdna_rina_flow_alloc_def)

lemma wf_flow_is_ready: "wf_known I E w \<Longrightarrow> wf_known I E (snd (flow_is_ready kfa a w))"
  by (simp add: flow_is_ready_def wf_upd_con keeps_id_def split: option.splits)

lemma wf_con_set_iowqs: "wf_known I E w \<Longrightarrow> wf_known I E (con_set_iowqs E' a w)"
  unfolding con_set_iowqs_def by (rule wf_upd_con) (auto simp: keeps_id_def split: option.splits)

lemma wf_i2rina_fwd: "wf_known I E w \<Longrightarrow> wf_known I E (snd (pepdna_con_i2rina_fwd E' recv dw m a w))"
  by (auto simp: pepdna_con_i2rina_fwd_def Let_def wf_log_all split: option.splits prod.splits)

lemma wf_rina2i_fwd: "wf_known I E w \<Longrightarrow> wf_known I E (snd (pepdna_con_rina2i_fwd t waits rd rs a w))"
proof -
  assume wf: "wf_known I E w"
  have "wf_known I E w'" if "pepdna_sock_write rs s b w = (x, w')" for s b x w'
    using wf_sock_write [OF wf, of rs s b] that by simp
  with wf show ?thesis
    by (auto simp: pepdna_con_rina2i_fwd_def Let_def split: option.splits prod.splits bool.splits)
qed

lemma wf_queue: "wf_known I E w \<Longrightarrow> queue_work a sl w = (q, w') \<Longrightarrow> wf_known I E w'"
  using wf_world_store(7) [of I E a sl w] by simp

lemma wf_r2i_callback:
  assumes "wf_known I E w"
  shows "wf_known I E (nl_r2i_callback E kfa m w)"
proof (cases "n_alloc m")
  case True
  then show ?thesis using assms by (simp add: nl_r2i_callback_def Let_def wf_con_alloc)
next
  case False
  show ?thesis
  proof (cases "pepdna_con_find E (n_id m) w")
    case (Some a)
    obtain ready w1 where fr: "flow_is_ready kfa a w = (ready, w1)" by force
    have wf1: "wf_known I E w1" using wf_flow_is_ready [OF assms, of kfa a] fr by simp
    define w2 where "w2 = upd_con a (\<lambda>c. c\<lparr>c_rflag := True, c_lflag := True\<rparr>) (con_set_iowqs E a w1)"
    have wf2: "wf_known I E (pepdna_con_get a w2)"
      unfolding w2_def by (intro wf_con_get wf_upd_con wf_con_set_iowqs wf1) (simp add: keeps_id_def)
    obtain q w3 where qw: "queue_work a R2L (pepdna_con_get a w2) = (q, w3)" by force
    have wf3: "wf_known I E w3" by (rule wf_queue [OF wf2 qw])
    show ?thesis
      using Some False fr qw wf1 wf3
      by (auto simp: nl_r2i_callback_def Let_def w2_def [symmetric] intro!: wf_con_put wf_data_ready split: option.splits)
  qed (use False assms in \<open>simp add: nl_r2i_callback_def\<close>)
qed

lemma wf_i2r_callback:
  assumes "wf_known I E w"
  shows "wf_known I E (nl_i2r_callback E kfa m w)"
proof (cases "pepdna_con_find E (n_id m) w")
  case (Some a)
  let ?w0 = "upd_con a (\<lambda>c. c\<lparr>c_port_id := n_port_id m\<rparr>) w"
  obtain ready w1 where fr: "flow_is_ready kfa a ?w0 = (ready, w1)" by force
  have "wf_known I E ?w0" using assms by (simp add: wf_upd_con keeps_id_def)
  then have "wf_known I E w1" using wf_flow_is_ready [of I E ?w0 kfa a] fr by simp
  with Some fr show ?thesis
    by (simp add: nl_i2r_callback_def Let_def wf_reinject_syn wf_con_set_iowqs wf_upd_con keeps_id_def)
qed (use assms in \<open>simp add: nl_i2r_callback_def\<close>)

lemma wf_nl_recv_msg: "wf_known I E w \<Longrightarrow> wf_known I E (pepdna_nl_recv_msg E kfa len pid payload w)"
  by (simp add: pepdna_nl_recv_msg_def wf_r2i_callback wf_i2r_callback split: option.splits)

lemma wf_i2r_loop: "wf_known I E w \<Longrightarrow> i2r_loop rounds a w = Some w' \<Longrightarrow> wf_known I E w'"
proof (induction rounds arbitrary: w)
  case Nil
  then show ?case by (subst (asm) i2r_loop.simps) (auto split: option.splits if_splits)
next
  case (Cons x rounds)
  obtain E' recv dw m uni where x: "x = (E', recv, dw, m, uni)" by (rule prod_cases5)
  show ?case
  proof (cases "g_cons w a")
    case (Some con)
    obtain rc w1 where rd: "pepdna_con_i2rina_fwd E' recv dw m a w = (rc, w1)" by force
    have wf1: "wf_known I E w1" using wf_i2rina_fwd [OF Cons.prems(1), of E' recv dw m a] rd by simp
    let ?t = "\<lparr>t_saddr = 0, t_source = 0, t_daddr = 0, t_dest = 0\<rparr>"
    have "wf_known I E (pepdna_con_close E' (Some a)
        (snd (pepdna_nl_sendmsg E' uni ?t (c_id con) (c_port_id con) False w1)))"
      by (intro wf_con_close' wf_nl_sendmsg wf1)
    with Cons.IH Cons.prems wf1 show ?thesis
      by (auto simp: i2r_loop.simps [of "(E', recv, dw, m, uni) # rounds" a w] Some rd x
          split: if_splits option.splits)
  qed (use Cons.prems in \<open>subst (asm) i2r_loop.simps, auto\<close>)
qed

lemma wf_r2i_loop: "wf_known I E w \<Longrightarrow> r2i_loop rounds a w = Some w' \<Longrightarrow> wf_known I E w'"
proof (induction rounds arbitrary: w)
  case Nil
  then show ?case by (subst (asm) r2i_loop.simps) (auto split: option.splits if_splits)
next
  case (Cons x rounds)
  obtain E' t waits rd rs where x: "x = (E', t, waits, rd, rs)" by (rule prod_cases5)
  show ?case
  proof (cases "g_cons w a")
    case (Some con)
    obtain rc w1 where rd: "pepdna_con_rina2i_fwd t waits rd rs a w = (rc, w1)" by force
    have wf1: "wf_known I E w1" using wf_rina2i_fwd [OF Cons.prems(1), of t waits _ rs a] rd by (metis snd_conv)
    have "wf_known I E (pepdna_con_close E' (Some a) (upd_con a (\<lambda>c. c\<lparr>c_rflag := False\<rparr>) w1))"
      by (intro wf_con_close' wf_upd_con wf1) (simp add: keeps_id_def)
    with Cons.IH Cons.prems wf1 show ?thesis
      by (auto simp: r2i_loop.simps [of "(E', t, waits, rd, rs) # rounds" a w] Some rd x
          split: if_splits option.splits)
  qed (use Cons.prems in \<open>subst (asm) r2i_loop.simps, auto\<close>)
qed

subsection \<open>Properties of flows\<close>

lemma flow_write_loop_spec:
  assumes "0 < m"
  shows "\<exists>rc out. flow_write_loop E dw m n left sent = Some (rc, out)
     \<and> (\<forall>u\<in>set out. u \<noteq> [] \<and> length u \<le> m)
     \<and> prefix (concat out) left
     \<and> (if 0 < sent + length (concat out) then rc = int (sent + length (concat out))
        else left = [] \<and> rc = 0 \<or> rc = - ENOMEM \<or> rc = - EIO)
     \<and> (concat out = left \<or> (\<exists>i. n \<le> i \<and> (\<not> kzalloc E (A_du i) \<or> dw i \<noteq> 0)))"
  using assms
proof (induction E dw m n left sent rule: flow_write_loop.induct)
  case (1 E dw m n left sent)
  show ?case
  proof (cases "left = [] \<or> \<not> kzalloc E (A_du n) \<or> dw n \<noteq> 0")
    case True
    with "1.prems" show ?thesis
      by (subst flow_write_loop.simps) (auto simp: Let_def)
  next
    case False
    let ?k = "min (length left) m"
    obtain rc out where ih: "flow_write_loop E dw m (Suc n) (drop ?k left) (sent + ?k) = Some (rc, out)"
      "\<forall>u\<in>set out. u \<noteq> [] \<and> length u \<le> m" "prefix (concat out) (drop ?k left)"
      "if 0 < sent + ?k + length (concat out) then rc = int (sent + ?k + length (concat out))
        else drop ?k left = [] \<and> rc = 0 \<or> rc = - ENOMEM \<or> rc = - EIO"
      "concat out = drop ?k left \<or> (\<exists>i. Suc n \<le> i \<and> (\<not> kzalloc E (A_du i) \<or> dw i \<noteq> 0))"
      using "1.IH" [of ?k "\<lambda>rc. Some (if sent \<noteq> 0 then int sent else rc, [])"] "1.prems" False by auto
    have run: "flow_write_loop E dw m n left sent = Some (rc, take ?k left # out)"
      using False ih(1) "1.prems" by (subst flow_write_loop.simps) (simp add: Let_def)
    have k: "0 < ?k" "length (take ?k left) = ?k" using False "1.prems" by auto
    have "prefix (take ?k left @ concat out) left"
      using ih(3) by (metis append_take_drop_id same_prefix_prefix)
    moreover have "take ?k left @ concat out = left \<or> (\<exists>i. n \<le> i \<and> (\<not> kzalloc E (A_du i) \<or> dw i \<noteq> 0))"
      using ih(5) by (metis Suc_leD append_take_drop_id)
    ultimately show ?thesis
      using ih(2,4) k run False "1.prems" by (auto simp: add.assoc)
  qed
qed

text \<open>
  Writing a buffer to a RINA flow whose data units have a positive size returns. The
  units it wrote are non-empty, no larger than the maximum, and together a prefix of the buffer; a
  non-negative result is the length of that prefix, a negative one says that nothing was written;
  and if no unit fails the whole buffer was written.
\<close>

lemma flow_write_units:
  assumes "0 < m"
  shows "\<exists>rc out. pepdna_flow_write E du_write m (Some fl) buf = Some (rc, out)
     \<and> (\<forall>u\<in>set out. u \<noteq> [] \<and> length u \<le> m)
     \<and> (if rc < 0 then out = [] \<and> rc \<in> {- ENOMEM, - EIO} else concat out = take (nat rc) buf)
     \<and> ((\<forall>i. kzalloc E (A_du i) \<and> du_write i = 0) \<longrightarrow> rc = int (length buf) \<and> concat out = buf)"
proof -
  obtain rc out where out: "flow_write_loop E du_write m 0 buf 0 = Some (rc, out)"
    "\<forall>u\<in>set out. u \<noteq> [] \<and> length u \<le> m" "prefix (concat out) buf"
    "if 0 < length (concat out) then rc = int (length (concat out))
     else buf = [] \<and> rc = 0 \<or> rc = - ENOMEM \<or> rc = - EIO"
    "concat out = buf \<or> (\<exists>i. \<not> kzalloc E (A_du i) \<or> du_write i \<noteq> 0)"
    using flow_write_loop_spec [OF assms, of E du_write 0 buf 0] unfolding add_0 by blast
  have pre: "concat out = take (length (concat out)) buf" using out(3) by (auto simp: prefix_def)
  have units: "concat out = [] \<longleftrightarrow> out = []" using out(2) by (cases out) auto
  have "buf = [] \<Longrightarrow> out = []" using out(3) units by simp
  then have "if rc < 0 then out = [] \<and> rc \<in> {- ENOMEM, - EIO} else concat out = take (nat rc) buf"
    using out(4) pre units by (auto split: if_splits)
  moreover have "rc = int (length buf)" if "concat out = buf" "\<forall>i. kzalloc E (A_du i) \<and> du_write i = 0"
  proof (cases "buf = []")
    case True
    then show ?thesis using out(1) by (simp add: flow_write_loop.simps)
  next
    case False
    then show ?thesis using out(4) that by auto
  qed
  moreover have "pepdna_flow_write E du_write m (Some fl) buf = Some (rc, out)"
    using out(1) by (simp add: pepdna_flow_write_def)
  ultimately show ?thesis using out(2,5) by blast
qed

definition ex_flow :: ipcp_flow where
  "ex_flow = \<lparr>fl_state = PORT_STATE_ALLOCATED, fl_wqs = True, fl_sdu_ready = []\<rparr>"

text \<open>
  Part of a buffer that a flow did not take is lost without notice: if the first unit is
  written and the second fails, forwarding reports that everything read was forwarded, so the
  connection goes on with the remaining bytes missing from the stream.
\<close>

lemma i2rina_partial_loss:
  assumes "g_cons w a = Some con" "c_lsock con = Some s" "g_socks w s = Some k" "c_flow con = Some fl"
    and "kzalloc E A_buffer" "recv MAX_BUF_SIZE = (int (length buf), buf)" "0 < m" "m < length buf"
    and "kzalloc E (A_du 0)" "du_write 0 = 0" "du_write 1 \<noteq> 0"
  shows "pepdna_con_i2rina_fwd E recv du_write m a w =
     (Some (int (length buf)), log_event (Ev_flow_write (take m buf)) w)"
proof -
  have two: "flow_write_loop E du_write m 1 (drop m buf) m = Some (int m, [])"
    using assms by (subst flow_write_loop.simps) (simp add: Let_def)
  have "buf \<noteq> []" "min (length buf) m = m" using assms by auto
  then have "flow_write_loop E du_write m 0 buf 0 = Some (int m, [take m buf])"
    using assms two by (subst flow_write_loop.simps) (simp add: Let_def)
  then show ?thesis
    using assms \<open>buf \<noteq> []\<close> by (simp add: pepdna_con_i2rina_fwd_def pepdna_flow_write_def)
qed

definition ex_rina_world :: world where
  "ex_rina_world = pair_world sample_env TCP2RINA (pair_con\<lparr>c_flow := Some ex_flow\<rparr>)"

text \<open>
  Waiting for data on a flow ends with a positive time only if data is there: the flow was
  then allocated, had its wait queues and a data unit in its queue. A signal and a flow that went
  away are reported by their codes, and a time of 0 is the only other result.
\<close>

lemma wait_for_sdu_sound:
  assumes "pepdna_wait_for_sdu timeo obs = Some t" "0 \<le> timeo"
    and "\<forall>(before, sched, after, sig) \<in> set obs. 0 \<le> sched"
  shows "t \<in> {0, - ESHUTDOWN, - ERESTARTSYS}
     \<or> 0 < t \<and> (\<exists>(before, sched, after, sig) \<in> set obs. flow_is_ok after \<and> \<not> sdu_empty after)"
  using assms
proof (induction timeo obs rule: pepdna_wait_for_sdu.induct)
  case (2 timeo before sched after sig obs)
  let ?t = "if timeo \<noteq> 0 \<and> sdu_empty before then sched else timeo"
  have t: "0 \<le> ?t" using "2.prems" by auto
  show ?case
  proof (cases "\<not> flow_is_ok before \<or> ?t = 0 \<or> queue_is_ready after \<or> sig")
    case True
    then show ?thesis
      using "2.prems"(1) t
      by (auto simp: Let_def finish_wait_def queue_is_ready_def split: if_splits)
  next
    case False
    then have "pepdna_wait_for_sdu ?t obs = Some t" using "2.prems"(1) by (simp add: Let_def)
    with "2.IH" [of ?t] "2.prems"(3) t False show ?thesis by (auto simp: Let_def)
  qed
qed simp

end
