(* ===== verification/Ccn_Prefix.thy ===== *)
theory Ccn_Prefix
  imports Pep_Prelude
begin

section \<open>Names of CCN-lite (ccnl-prefix.c)\<close>

text \<open>
  The module includes \<open>ccn-lite/src/ccnl-core/src/ccnl-prefix.c\<close>, which turns a URI into a
  name: a list of components, each a byte string. The relays the module talks to use the rest
  of the file: comparing, copying, extending and printing names. A C string is the list of
  its bytes before the terminating zero. Allocations succeed or fail as the argument \<open>al\<close> says
  for the place they are made at. \<open>CCNL_MAX_NAME_COMP\<close> and the sizes have the values of a build
  for Linux, in the kernel or outside it.
\<close>

definition CCNL_MAX_NAME_COMP :: nat where "CCNL_MAX_NAME_COMP = 64"
definition CCNL_MAX_PREFIX_SIZE :: nat where "CCNL_MAX_PREFIX_SIZE = 2048"
definition CCNL_SUITE_NDNTLV :: int where "CCNL_SUITE_NDNTLV = 6"

datatype ccn_site = C_prefix | C_comp | C_complen | C_bytes | C_chunknum | C_tmp | C_buf
  | C_pkt | C_nonce

type_synonym ccn_mem = "ccn_site \<Rightarrow> bool"

text \<open>
  \<open>px_comp\<close> stands for the arrays \<open>comp\<close> and \<open>complen\<close>, of which \<open>px_compcnt\<close> entries are in
  use; an entry that was allocated and not written is the empty component. \<open>px_bytes\<close> is the
  memory the components of a constructed name point into, null for a name that points into a
  packet. \<open>px_name\<close> is the position and length of the name in its packet.
\<close>

record ccnl_prefix_s =
  px_comp :: "bytes list"
  px_compcnt :: nat
  px_suite :: int
  px_name :: "(nat \<times> nat) option"
  px_bytes :: "bytes option"
  px_chunknum :: "u32 option"

definition comps :: "ccnl_prefix_s \<Rightarrow> bytes list" where
  "comps p = take (px_compcnt p) (px_comp p)"

definition ccnl_prefix_new :: "ccn_mem \<Rightarrow> int \<Rightarrow> nat \<Rightarrow> ccnl_prefix_s option" where
  "ccnl_prefix_new al suite cnt =
    (if al C_prefix \<and> al C_comp \<and> al C_complen
     then Some \<lparr>px_comp = replicate cnt [], px_compcnt = cnt, px_suite = suite, px_name = None,
                px_bytes = None, px_chunknum = None\<rparr>
     else None)"

text \<open>
  Copying a name. The copy shares the chunk number of the original until its own is allocated,
  so the error path that frees the copy frees the chunk number of the original.
\<close>

datatype ccn_fault = ChunkFreed | NullWrite | NullRead | ReadPast

definition ccnl_prefix_dup :: "ccn_mem \<Rightarrow> ccnl_prefix_s \<Rightarrow> ccnl_prefix_s option \<times> ccn_fault list" where
  "ccnl_prefix_dup al p =
    (case ccnl_prefix_new al (px_suite p) (px_compcnt p) of None \<Rightarrow> (None, [])
     | Some q \<Rightarrow>
        (if \<not> al C_bytes then (None, if px_chunknum p = None then [] else [ChunkFreed])
         else
           (let q = q\<lparr>px_comp := comps p, px_bytes := Some (concat (comps p))\<rparr>
            in case px_chunknum p of None \<Rightarrow> (Some q, [])
               | Some n \<Rightarrow> if al C_chunknum then (Some (q\<lparr>px_chunknum := Some n\<rparr>), [])
                           else (None, [NullWrite]))))"

text \<open>
  Appending a component. The components of the longer name are the pieces of the new memory
  block, into which the old block was copied. The counter is incremented before the allocations
  and not restored when they fail.
\<close>

fun pieces :: "nat list \<Rightarrow> bytes \<Rightarrow> bytes list" where
  "pieces [] bs = []"
| "pieces (n # ns) bs = take n bs # pieces ns (drop n bs)"

definition ccnl_prefix_appendCmp ::
    "ccn_mem \<Rightarrow> ccnl_prefix_s \<Rightarrow> bytes \<Rightarrow> int \<times> ccnl_prefix_s \<times> ccn_fault list" where
  "ccnl_prefix_appendCmp al p cmp =
    (if CCNL_MAX_NAME_COMP \<le> px_compcnt p then (-1, p, [])
     else
       (let lens = map length (comps p); q = p\<lparr>px_compcnt := px_compcnt p + 1\<rparr>
        in if \<not> al C_comp \<or> \<not> al C_complen \<or> \<not> al C_bytes then (-1, q, [])
           else case px_bytes p of
                  None \<Rightarrow> (0, q\<lparr>px_bytes := Some (replicate (sum_list lens) 0 @ cmp),
                               px_comp := pieces (lens @ [length cmp]) (replicate (sum_list lens) 0 @ cmp)\<rparr>,
                           if sum_list lens = 0 then [] else [NullRead])
                | Some old \<Rightarrow>
                    (let bs = take (sum_list lens) old @ cmp
                     in (0, q\<lparr>px_bytes := Some bs, px_comp := pieces (lens @ [length cmp]) bs\<rparr>, []))))"

definition NDN_Marker_SegmentNumber :: u8 where "NDN_Marker_SegmentNumber = 0"

definition ccnl_prefix_addChunkNum ::
    "ccn_mem \<Rightarrow> ccnl_prefix_s \<Rightarrow> u32 \<Rightarrow> int \<times> ccnl_prefix_s \<times> ccn_fault list" where
  "ccnl_prefix_addChunkNum al p n =
    (if 0xff \<le> n then (-1, p, [])
     else if px_suite p = CCNL_SUITE_NDNTLV then
       (case ccnl_prefix_appendCmp al p [NDN_Marker_SegmentNumber, ucast n] of
          (rc, p, fs) \<Rightarrow>
            if rc < 0 then (-1, p, fs)
            else if al C_chunknum then (0, p\<lparr>px_chunknum := Some n\<rparr>, fs) else (-1, p, fs))
     else (-1, p, []))"

subsection \<open>From a URI to a name\<close>

definition tolower :: "u8 \<Rightarrow> u8" where
  "tolower c = (if 0x41 \<le> c \<and> c \<le> 0x5a then c + 0x20 else c)"

definition hex2int :: "u8 \<Rightarrow> u8" where
  "hex2int c =
    (if 0x30 \<le> c \<and> c \<le> 0x39 then c - 0x30
     else let c = tolower c in if 0x61 \<le> c \<and> c \<le> 0x66 then c - 0x61 + 0x0a else 0)"

text \<open>An escape needs two characters after the percent sign; which characters they are is not
  checked.\<close>

fun unescape_component :: "bytes \<Rightarrow> bytes" where
  "unescape_component [] = []"
| "unescape_component [c] = [c]"
| "unescape_component [c, a] = [c, a]"
| "unescape_component (c # a # b # r) =
    (if c \<noteq> 0x25 then c # unescape_component (a # b # r)
     else (hex2int a * 16 + hex2int b) # unescape_component r)"

fun uri_components :: "nat \<Rightarrow> bytes \<Rightarrow> bytes list" where
  "uri_components 0 uri = []"
| "uri_components (Suc i) uri =
    (if uri = [] then []
     else unescape_component (takeWhile (\<lambda>c. c \<noteq> 0x2f) uri)
          # uri_components i (drop 1 (dropWhile (\<lambda>c. c \<noteq> 0x2f) uri)))"

definition ccnl_URItoComponentsK :: "bytes \<Rightarrow> bytes list" where
  "ccnl_URItoComponentsK uri =
    uri_components (CCNL_MAX_NAME_COMP - 1)
      (case uri of [] \<Rightarrow> [] | c # cs \<Rightarrow> if c = 0x2f then cs else uri)"

text \<open>The module is built for the packet format NDNTLV only, where a component is copied.\<close>

definition ccnl_pkt_mkComponentK :: "int \<Rightarrow> bytes \<Rightarrow> bytes" where
  "ccnl_pkt_mkComponentK suite src = src"

definition ccnl_URItoPrefixK :: "ccn_mem \<Rightarrow> bytes \<Rightarrow> int \<Rightarrow> u32 option \<Rightarrow> ccnl_prefix_s option" where
  "ccnl_URItoPrefixK al uri suite chunknum =
    (let cs = (if uri = [] then [] else ccnl_URItoComponentsK uri)
     in case ccnl_prefix_new al suite (length cs) of None \<Rightarrow> None
        | Some p \<Rightarrow>
           (if \<not> al C_bytes then None
            else
              (let cs = map (ccnl_pkt_mkComponentK suite) cs;
                   p = p\<lparr>px_comp := cs, px_bytes := Some (concat cs)\<rparr>
               in case chunknum of None \<Rightarrow> Some p
                  | Some n \<Rightarrow> if al C_chunknum then Some (p\<lparr>px_chunknum := Some n\<rparr>) else None)))"

subsection \<open>Comparing names\<close>

datatype cmp_mode = CMP_EXACT | CMP_MATCH | CMP_LONGEST

text \<open>The loop returns the index it stopped at and whether it stopped at a difference.\<close>

fun cmp_loop :: "nat \<Rightarrow> bytes list \<Rightarrow> bytes list \<Rightarrow> nat \<times> bool" where
  "cmp_loop i (x # xs) (y # ys) =
    (if length x \<noteq> length y \<or> x \<noteq> y then (i, True) else cmp_loop (Suc i) xs ys)"
| "cmp_loop i xs ys = (i, False)"

definition ccnl_prefix_cmp :: "ccnl_prefix_s \<Rightarrow> bytes option \<Rightarrow> ccnl_prefix_s \<Rightarrow> cmp_mode \<Rightarrow> int" where
  "ccnl_prefix_cmp pfx md nam mode =
    (let plen = px_compcnt pfx + (if md = None then 0 else 1)
     in if mode = CMP_EXACT \<and>
           (plen \<noteq> px_compcnt nam
            \<or> (px_chunknum pfx \<noteq> None \<or> px_chunknum nam \<noteq> None)
              \<and> (px_chunknum pfx = None \<or> px_chunknum nam = None
                 \<or> the (px_chunknum pfx) \<noteq> the (px_chunknum nam)))
        then -1
        else case cmp_loop 0 (comps pfx @ (case md of None \<Rightarrow> [] | Some d \<Rightarrow> [d])) (comps nam) of
               (i, True) \<Rightarrow> if mode = CMP_EXACT then -1 else int i
             | (i, False) \<Rightarrow> if mode = CMP_EXACT then 0 else int i)"

text \<open>
  Whether a content answers an interest. \<open>digest\<close> is the result of \<open>compute_ccnx_digest\<close> on the
  content's packet; the sums are those of the source, on 64 bits.
\<close>

definition ccnl_i_prefixof_c :: "ccnl_prefix_s \<Rightarrow> u64 \<Rightarrow> u64 \<Rightarrow> ccnl_prefix_s \<Rightarrow> bytes option \<Rightarrow> int" where
  "ccnl_i_prefixof_c pfx minsuffix maxsuffix p digest =
    (let pc = of_nat (px_compcnt pfx) :: u64; cc = of_nat (px_compcnt p) :: u64
     in if cc + 1 < pc + minsuffix \<or> pc + maxsuffix < cc + 1 then -2
        else if (of_nat (px_compcnt pfx) - of_nat (px_compcnt p) :: u32) = 1 then
          (case digest of None \<Rightarrow> -3 | Some md \<Rightarrow> ccnl_prefix_cmp p (Some md) pfx CMP_EXACT)
        else ccnl_prefix_cmp p None pfx CMP_EXACT)"

subsection \<open>Printing names\<close>

definition hexdigit :: "u8 \<Rightarrow> u8" where
  "hexdigit d = (if d < 10 then 0x30 + d else 0x61 + (d - 10))"

text \<open>
  One character of a component, as \<open>snprintf\<close> prints it with the format \<open>%c\<close> or \<open>%%%02x\<close>. The
  type \<open>char\<close> is signed, so a byte from 0x80 on is below 0x20, and it is printed as the
  negative integer it is promoted to.
\<close>

definition fmt_char :: "bool \<Rightarrow> u8 \<Rightarrow> bytes" where
  "fmt_char escape c =
    (if c < 0x20 \<or> 0x80 \<le> c \<or> c = 0x7f \<or> escape \<and> c = 0x2f
     then 0x25 # (if 0x80 \<le> c then replicate 6 0x66 else []) @ [hexdigit (c div 16), hexdigit (c mod 16)]
     else [c])"

text \<open>
  \<open>put_str buflen out s\<close> is one call of \<open>snprintf\<close>: it fails when the string and its terminating
  zero do not fit behind what was printed.
\<close>

definition put_str :: "nat \<Rightarrow> bytes \<Rightarrow> bytes \<Rightarrow> bytes option" where
  "put_str buflen out s = (if length s < buflen - length out then Some (out @ s) else None)"

fun print_comp :: "bool \<Rightarrow> nat \<Rightarrow> bytes \<Rightarrow> bytes \<Rightarrow> bytes option" where
  "print_comp escape buflen [] out = Some out"
| "print_comp escape buflen (c # cs) out =
    (case put_str buflen out (fmt_char escape c) of None \<Rightarrow> None
     | Some out \<Rightarrow> if CCNL_MAX_PREFIX_SIZE < length out then Some out
                   else print_comp escape buflen cs out)"

fun print_comps :: "bool \<Rightarrow> nat \<Rightarrow> bytes list \<Rightarrow> bytes \<Rightarrow> bytes option" where
  "print_comps escape buflen [] out = Some out"
| "print_comps escape buflen (c # cs) out =
    (case put_str buflen out [0x2f] of None \<Rightarrow> None
     | Some out \<Rightarrow> (case print_comp escape buflen c out of None \<Rightarrow> None
                    | Some out \<Rightarrow> print_comps escape buflen cs out))"

text \<open>Printing into a buffer filled with zeros, for a name in the format NDNTLV.\<close>

definition ccnl_prefix_to_str_detailed :: "ccnl_prefix_s \<Rightarrow> bool \<Rightarrow> nat \<Rightarrow> bytes option" where
  "ccnl_prefix_to_str_detailed pr escape buflen = print_comps escape buflen (comps pr) []"

subsection \<open>Well-formed names\<close>

text \<open>
  A name is well formed when its arrays hold as many components as it counts; a constructed
  name moreover keeps its components one after the other in its own memory.
\<close>

definition wf_prefix :: "ccnl_prefix_s \<Rightarrow> bool" where
  "wf_prefix p \<longleftrightarrow> px_compcnt p \<le> length (px_comp p)"

definition own_prefix :: "ccnl_prefix_s \<Rightarrow> bool" where
  "own_prefix p \<longleftrightarrow> wf_prefix p \<and> px_bytes p = Some (concat (comps p))"

lemma length_comps [simp]: "wf_prefix p \<Longrightarrow> length (comps p) = px_compcnt p"
  by (simp add: wf_prefix_def comps_def)

lemma pieces_concat: "pieces (map length cs) (concat cs) = cs"
  by (induction cs) simp_all

lemma mkComponentK_id [simp]: "ccnl_pkt_mkComponentK suite = id"
  by (simp add: fun_eq_iff ccnl_pkt_mkComponentK_def)

lemma own_URItoPrefixK:
  assumes "ccnl_URItoPrefixK al uri suite ch = Some p"
  shows "own_prefix p" "px_suite p = suite" "px_chunknum p = ch"
    "comps p = (if uri = [] then [] else ccnl_URItoComponentsK uri)"
  using assms
  by (auto simp: ccnl_URItoPrefixK_def ccnl_prefix_new_def own_prefix_def
      wf_prefix_def comps_def Let_def split: option.splits if_splits)

lemma own_prefix_dup:
  assumes "ccnl_prefix_dup al p = (Some q, fs)" "wf_prefix p"
  shows "own_prefix q" "comps q = comps p" "px_chunknum q = px_chunknum p" "px_suite q = px_suite p" "fs = []"
  using assms
  by (auto simp: ccnl_prefix_dup_def ccnl_prefix_new_def own_prefix_def wf_prefix_def comps_def Let_def
      split: option.splits if_splits)

lemma appendCmp_ok:
  assumes "own_prefix p" "px_compcnt p < CCNL_MAX_NAME_COMP" "al C_comp" "al C_complen" "al C_bytes"
  shows "ccnl_prefix_appendCmp al p cmp =
    (0, p\<lparr>px_compcnt := px_compcnt p + 1, px_bytes := Some (concat (comps p @ [cmp])), px_comp := comps p @ [cmp]\<rparr>, [])"
proof -
  have "sum_list (map length (comps p)) = length (concat (comps p))" by (simp add: length_concat)
  moreover have "pieces (map length (comps p) @ [length cmp]) (concat (comps p) @ cmp) = comps p @ [cmp]"
    using pieces_concat [of "comps p @ [cmp]"] by simp
  ultimately show ?thesis using assms by (auto simp: ccnl_prefix_appendCmp_def own_prefix_def Let_def)
qed

lemma own_append:
  assumes "own_prefix p"
  shows "own_prefix (p\<lparr>px_compcnt := px_compcnt p + 1, px_bytes := Some (concat (comps p @ [cmp])), px_comp := comps p @ [cmp]\<rparr>)"
    and "comps (p\<lparr>px_compcnt := px_compcnt p + 1, px_bytes := Some (concat (comps p @ [cmp])), px_comp := comps p @ [cmp]\<rparr>) = comps p @ [cmp]"
  using assms by (auto simp: own_prefix_def wf_prefix_def comps_def)

subsection \<open>Comparison\<close>

lemma cmp_loop_lcp: "fst (cmp_loop i xs ys) = i + length (longest_common_prefix xs ys)"
  by (induction i xs ys rule: cmp_loop.induct) auto

lemma cmp_loop_diff: "length xs = length ys \<Longrightarrow> snd (cmp_loop i xs ys) \<longleftrightarrow> xs \<noteq> ys"
  by (induction i xs ys rule: cmp_loop.induct) auto

lemma prefix_cmp_exact:
  assumes "wf_prefix p" "wf_prefix q"
  shows "ccnl_prefix_cmp p md q CMP_EXACT =
    (if comps p @ (case md of None \<Rightarrow> [] | Some d \<Rightarrow> [d]) = comps q \<and> px_chunknum p = px_chunknum q then 0 else -1)"
proof -
  let ?l = "comps p @ (case md of None \<Rightarrow> [] | Some d \<Rightarrow> [d])"
  have len: "length ?l = px_compcnt p + (if md = None then 0 else 1)" using assms by (cases md) simp_all
  show ?thesis
  proof (cases "length ?l = px_compcnt q")
    case False
    then have "?l \<noteq> comps q" using assms by (metis length_comps)
    then show ?thesis using False len by (auto simp: ccnl_prefix_cmp_def Let_def)
  next
    case True
    then have "snd (cmp_loop 0 ?l (comps q)) \<longleftrightarrow> ?l \<noteq> comps q" using assms by (intro cmp_loop_diff) simp
    with True len show ?thesis
      by (cases "px_chunknum p"; cases "px_chunknum q"; cases "cmp_loop 0 ?l (comps q)")
        (auto simp: ccnl_prefix_cmp_def Let_def split: bool.splits)
  qed
qed

lemma prefix_cmp_longest:
  "ccnl_prefix_cmp p None q CMP_LONGEST = int (length (longest_common_prefix (comps p) (comps q)))"
  using cmp_loop_lcp [of 0 "comps p" "comps q"]
  by (auto simp: ccnl_prefix_cmp_def Let_def split: prod.splits bool.splits)

lemma lcp_whole: "length xs \<le> length (longest_common_prefix xs ys) \<longleftrightarrow> prefix xs ys"
  by (induction xs ys rule: longest_common_prefix.induct) auto

text \<open>
  Comparing two names exactly succeeds if and only if they have the same components and the
  same chunk number; the other mode counts the components of their longest common prefix, so a
  forwarding entry matches an interest exactly when its name is a prefix of the interest's name.
\<close>

lemma prefix_cmp_spec:
  assumes "wf_prefix p" "wf_prefix q"
  shows "(ccnl_prefix_cmp p None q CMP_EXACT = 0 \<longleftrightarrow> comps p = comps q \<and> px_chunknum p = px_chunknum q)
    \<and> ccnl_prefix_cmp p None q CMP_LONGEST = int (length (longest_common_prefix (comps p) (comps q)))
    \<and> (int (px_compcnt p) \<le> ccnl_prefix_cmp p None q CMP_LONGEST \<longleftrightarrow> prefix (comps p) (comps q))"
proof (intro conjI)
  show "ccnl_prefix_cmp p None q CMP_EXACT = 0 \<longleftrightarrow> comps p = comps q \<and> px_chunknum p = px_chunknum q"
    by (simp add: prefix_cmp_exact assms)
  show "ccnl_prefix_cmp p None q CMP_LONGEST = int (length (longest_common_prefix (comps p) (comps q)))"
    by (rule prefix_cmp_longest)
  have "length (comps p) \<le> length (longest_common_prefix (comps p) (comps q)) \<longleftrightarrow> prefix (comps p) (comps q)"
    using lcp_whole by blast
  then show "int (px_compcnt p) \<le> ccnl_prefix_cmp p None q CMP_LONGEST \<longleftrightarrow> prefix (comps p) (comps q)"
    by (simp add: prefix_cmp_longest assms)
qed

definition ex_prefix :: "bytes list \<Rightarrow> ccnl_prefix_s" where
  "ex_prefix cs = \<lparr>px_comp = cs, px_compcnt = length cs, px_suite = CCNL_SUITE_NDNTLV, px_name = None,
     px_bytes = Some (concat cs), px_chunknum = None\<rparr>"

lemma ex_prefix_simps [simp]:
  "wf_prefix (ex_prefix cs)" "own_prefix (ex_prefix cs)" "comps (ex_prefix cs) = cs" "px_compcnt (ex_prefix cs) = length cs"
  "px_chunknum (ex_prefix cs) = None" "px_suite (ex_prefix cs) = CCNL_SUITE_NDNTLV"
  by (simp_all add: wf_prefix_def own_prefix_def comps_def ex_prefix_def)

text \<open>
  An interest is answered only by a content whose name it spells out completely, with or
  without the digest of the content as its last component: the test the comments call a prefix
  match never accepts a content with a longer name, whatever number of further components the
  interest allows.
\<close>

lemma interest_matches_exactly:
  assumes "wf_prefix i" "wf_prefix c" "px_compcnt i < 2 ^ 32" "px_compcnt c < 2 ^ 32"
    and "ccnl_i_prefixof_c i minsuffix maxsuffix c digest \<ge> 0"
  shows "px_chunknum i = px_chunknum c
    \<and> (comps i = comps c \<or> (\<exists>md. digest = Some md \<and> comps i = comps c @ [md]))"
proof -
  have "\<exists>md. ccnl_prefix_cmp c md i CMP_EXACT \<ge> 0 \<and> (md = None \<or> md = digest)"
    using assms(5) by (auto simp: ccnl_i_prefixof_c_def Let_def split: if_splits option.splits)
  then show ?thesis
    using assms(1,2) by (auto simp: prefix_cmp_exact split: if_splits option.splits)
qed

subsection \<open>Printing and reading back\<close>

lemma all_below:
  assumes "list_all (\<lambda>n. P (of_nat n)) [0..<k]" "unat (w :: 'a :: len word) < k"
  shows "P w"
proof -
  have "\<forall>n\<in>set [0..<k]. P (of_nat n)" using assms(1) by (simp only: list_all_iff)
  then have "P (of_nat (unat w))" by (rule bspec) (simp add: assms(2))
  then show ?thesis by simp
qed

lemma hex2int_hexdigit: "d < 16 \<Longrightarrow> hex2int (hexdigit d) = d"
  by (rule all_below [of "\<lambda>d. hex2int (hexdigit d) = d" 16], code_simp) (simp add: word_less_nat_alt)

lemma hexdigit_no_slash: "d < 16 \<Longrightarrow> hexdigit d \<noteq> 0x2f"
  by (rule all_below [of "\<lambda>d. hexdigit d \<noteq> 0x2f" 16], code_simp) (simp add: word_less_nat_alt)

definition plain_byte :: "u8 \<Rightarrow> bool" where
  "plain_byte c \<longleftrightarrow> c < 0x80 \<and> c \<noteq> 0x25"

lemma nibbles: "(c::u8) div 16 < 16" "c mod 16 < 16"
  using unsigned_less [of c, where ?'a = nat] by (simp_all add: word_less_nat_alt unat_div unat_mod)

lemma unescape_hex: "unescape_component (0x25 # hexdigit (c div 16) # hexdigit (c mod 16) # r) = c # unescape_component r"
  by (simp add: hex2int_hexdigit nibbles div_mult_mod_eq)

lemma unescape_other: "c \<noteq> 0x25 \<Longrightarrow> unescape_component (c # r) = c # unescape_component r"
  by (cases r rule: list.exhaust [case_product list.exhaust]; cases "tl r") auto

lemma unescape_fmt: "plain_byte c \<Longrightarrow> unescape_component (fmt_char e c @ r) = c # unescape_component r"
  unfolding fmt_char_def plain_byte_def by (cases "c < 0x80") (simp_all add: not_le [symmetric] del: unescape_component.simps add: unescape_other unescape_hex)

lemma unescape_fmts: "\<forall>c\<in>set cs. plain_byte c \<Longrightarrow> unescape_component (concat (map (fmt_char e) cs)) = cs"
  by (induction cs) (simp_all add: unescape_fmt)

lemma fmt_no_slash: "0x2f \<notin> set (fmt_char True c)"
  using hexdigit_no_slash [OF nibbles(1)] hexdigit_no_slash [OF nibbles(2)] by (auto simp: fmt_char_def dest: sym)

lemma fmt_not_empty: "fmt_char e c \<noteq> []"
  by (simp add: fmt_char_def)

lemma print_comp_out:
  assumes "print_comp e n cs out = Some s" "n \<le> CCNL_MAX_PREFIX_SIZE" "length out \<le> CCNL_MAX_PREFIX_SIZE"
  shows "s = out @ concat (map (fmt_char e) cs) \<and> length s \<le> CCNL_MAX_PREFIX_SIZE"
  using assms by (induction e n cs out rule: print_comp.induct) (auto simp: put_str_def split: if_splits)

lemma print_comps_out:
  assumes "print_comps e n cs out = Some s" "n \<le> CCNL_MAX_PREFIX_SIZE" "length out \<le> CCNL_MAX_PREFIX_SIZE"
  shows "s = out @ concat (map (\<lambda>c. 0x2f # concat (map (fmt_char e) c)) cs)"
  using assms
proof (induction e n cs out rule: print_comps.induct)
  case (2 e n c cs out)
  obtain o' where o': "put_str n out [0x2f] = Some (out @ [0x2f])" "print_comp e n c (out @ [0x2f]) = Some o'"
    "print_comps e n cs o' = Some s" "length (out @ [0x2f]) \<le> n"
    using "2.prems"(1) by (auto simp: put_str_def split: if_splits option.splits)
  note c = print_comp_out [OF o'(2) "2.prems"(2)]
  have "length (out @ [0x2f]) \<le> CCNL_MAX_PREFIX_SIZE" using o'(4) "2.prems"(2) by simp
  note c = c [OF this]
  from c have "length o' \<le> CCNL_MAX_PREFIX_SIZE" by blast
  from "2.IH" [OF o'(1,2,3) "2.prems"(2) this] c show ?case by simp
qed simp

lemma uri_components_concat:
  assumes "\<forall>x\<in>set xs. 0x2f \<notin> set x" "xs = [] \<or> last xs \<noteq> []" "length xs \<le> n"
  shows "uri_components n (drop 1 (concat (map (\<lambda>x. 0x2f # x) xs))) = map unescape_component xs"
  using assms
proof (induction xs arbitrary: n)
  case (Cons x xs)
  let ?r = "concat (map (\<lambda>x. 0x2f # x) xs)"
  obtain m where m: "n = Suc m" using Cons.prems(3) by (cases n) auto
  have r: "takeWhile (\<lambda>c. c \<noteq> 0x2f) ?r = []" "dropWhile (\<lambda>c. c \<noteq> 0x2f) ?r = ?r" "xs \<noteq> [] \<Longrightarrow> ?r \<noteq> []"
    by (cases xs; simp)+
  have "\<And>c. c \<in> set x \<Longrightarrow> c \<noteq> 0x2f" "xs = [] \<Longrightarrow> x \<noteq> []" using Cons.prems(1,2) by auto
  then have x: "takeWhile (\<lambda>c. c \<noteq> 0x2f) (x @ ?r) = x" "dropWhile (\<lambda>c. c \<noteq> 0x2f) (x @ ?r) = ?r" "x @ ?r \<noteq> []"
    using r(3) by (auto simp: takeWhile_append2 dropWhile_append2 r(1,2))
  have "uri_components m (drop 1 ?r) = map unescape_component xs"
    using Cons.IH [of m] Cons.prems m by (auto split: if_splits)
  with x show ?case by (simp add: m)
next
  case Nil
  then show ?case by (cases n) simp_all
qed

lemma URItoComponents_concat:
  assumes "\<forall>x\<in>set xs. 0x2f \<notin> set x" "xs = [] \<or> last xs \<noteq> []" "length xs < CCNL_MAX_NAME_COMP"
  shows "ccnl_URItoComponentsK (concat (map (\<lambda>x. 0x2f # x) xs)) = map unescape_component xs"
  using uri_components_concat [OF assms(1,2), of "CCNL_MAX_NAME_COMP - 1"] assms(3)
  by (cases xs) (auto simp: ccnl_URItoComponentsK_def)

lemma unescape_plain: "0x25 \<notin> set c \<Longrightarrow> unescape_component c = c"
  by (induction c) (auto simp: unescape_other simp del: unescape_component.simps(2-))

text \<open>
  C33. A name of fewer than 64 components, each of them not empty and of bytes below 0x80 other than
  the percent sign, is read back as the same name after it has been printed with its slashes escaped,
  when the printed name fits into the buffer and memory can be allocated. The other names do not survive:
  a percent sign is not escaped, a byte from 0x80 on is printed with eight digits, an empty component at
  the end is not read, and neither is what follows the 63rd component.
\<close>

theorem prefix_print_read:
  assumes "ccnl_prefix_to_str_detailed p True buflen = Some s" "buflen \<le> CCNL_MAX_PREFIX_SIZE"
    and "\<forall>x. al x"
    and "\<forall>c\<in>set (comps p). c \<noteq> [] \<and> (\<forall>b\<in>set c. plain_byte b)" "length (comps p) < CCNL_MAX_NAME_COMP"
  shows "\<exists>q. ccnl_URItoPrefixK al s suite None = Some q \<and> comps q = comps p \<and> px_suite q = suite"
proof -
  let ?str = "map (\<lambda>c. concat (map (fmt_char True) c)) (comps p)"
  have s: "s = concat (map (\<lambda>x. 0x2f # x) ?str)"
    using assms(1,2) print_comps_out [of True buflen "comps p" "[]" s]
    by (simp add: ccnl_prefix_to_str_detailed_def comp_def)
  have str: "\<forall>x\<in>set ?str. x \<noteq> [] \<and> 0x2f \<notin> set x"
  proof
    fix x assume "x \<in> set ?str"
    then obtain c where c: "x = concat (map (fmt_char True) c)" "c \<in> set (comps p)" by auto
    then have "c \<noteq> []" using assms(4) by blast
    then show "x \<noteq> [] \<and> 0x2f \<notin> set x" using c(1) fmt_no_slash by (auto simp: fmt_not_empty)
  qed
  have unesc: "map unescape_component ?str = comps p"
    using assms(4) by (simp add: comp_def map_idI unescape_fmts)
  have "xs = [] \<or> last xs \<noteq> []" if "\<forall>x\<in>set xs. x \<noteq> []" for xs :: "bytes list" using that by (cases xs rule: rev_cases) auto
  then have "?str = [] \<or> last ?str \<noteq> []" using str by blast
  moreover have "\<forall>x\<in>set ?str. 0x2f \<notin> set x" using str by blast
  ultimately have "ccnl_URItoComponentsK s = comps p"
    using URItoComponents_concat [of ?str] assms(5) unfolding s unesc by simp
  moreover have "s = [] \<Longrightarrow> comps p = []" using s by (cases "comps p") simp_all
  moreover obtain q where q: "ccnl_URItoPrefixK al s suite None = Some q"
    using assms(3) by (simp add: ccnl_URItoPrefixK_def ccnl_prefix_new_def Let_def)
  ultimately show ?thesis using own_URItoPrefixK [OF q] by auto
qed

theorem prefix_print_read_witness:
  "\<exists>s q. ccnl_prefix_to_str_detailed (ex_prefix [[110, 100], [47, 10]]) True 2048 = Some s
    \<and> ccnl_URItoPrefixK (\<lambda>_. True) s CCNL_SUITE_NDNTLV None = Some q
    \<and> comps q = [[110, 100], [47, 10]] \<and> px_suite q = CCNL_SUITE_NDNTLV"
proof -
  let ?p = "ex_prefix [[110, 100], [47, 10]]" and ?s = "[47, 110, 100, 47, 37, 50, 102, 37, 48, 97]"
  have s: "ccnl_prefix_to_str_detailed ?p True 2048 = Some ?s" by code_simp
  have "comps ?p = [[110, 100], [47, 10]]" by code_simp
  then show ?thesis
    using prefix_print_read [OF s, of "\<lambda>_. True" CCNL_SUITE_NDNTLV] s
    by (simp add: CCNL_MAX_PREFIX_SIZE_def CCNL_MAX_NAME_COMP_def plain_byte_def)
qed

end
