(* ===== verification/Ccn_Ndntlv.thy ===== *)
theory Ccn_Ndntlv
  imports Ccn_Prefix
begin

section \<open>The packet format NDNTLV (ccnl-pkt-ndntlv.c)\<close>

text \<open>
  Packets are trees of type-length-value blocks. The composer writes a packet backwards, from
  the end of a buffer towards its beginning: each function prepends a block at an offset that it
  moves. The module builds its interests with it; the relay parses them with the other half of the
  file. The state of the composer is the pair of the offset and the buffer; a function that fails
  returns \<open>Inl\<close> of its return code, and every caller then fails too, so the buffer is not looked at.
\<close>

definition NDN_TLV_Interest :: u64 where "NDN_TLV_Interest = 0x05"
definition NDN_TLV_Data :: u64 where "NDN_TLV_Data = 0x06"
definition NDN_TLV_Name :: u64 where "NDN_TLV_Name = 0x07"
definition NDN_TLV_NameComponent :: u64 where "NDN_TLV_NameComponent = 0x08"
definition NDN_TLV_Selectors :: u64 where "NDN_TLV_Selectors = 0x09"
definition NDN_TLV_Nonce :: u64 where "NDN_TLV_Nonce = 0x0a"
definition NDN_TLV_Scope :: u64 where "NDN_TLV_Scope = 0x0b"
definition NDN_TLV_InterestLifetime :: u64 where "NDN_TLV_InterestLifetime = 0x0c"
definition NDN_TLV_MinSuffixComponents :: u64 where "NDN_TLV_MinSuffixComponents = 0x0d"
definition NDN_TLV_MaxSuffixComponents :: u64 where "NDN_TLV_MaxSuffixComponents = 0x0e"
definition NDN_TLV_MustBeFresh :: u64 where "NDN_TLV_MustBeFresh = 0x12"
definition NDN_TLV_MetaInfo :: u64 where "NDN_TLV_MetaInfo = 0x14"
definition NDN_TLV_Content :: u64 where "NDN_TLV_Content = 0x15"
definition NDN_TLV_SignatureInfo :: u64 where "NDN_TLV_SignatureInfo = 0x16"
definition NDN_TLV_SignatureValue :: u64 where "NDN_TLV_SignatureValue = 0x17"
definition NDN_TLV_FreshnessPeriod :: u64 where "NDN_TLV_FreshnessPeriod = 0x19"
definition NDN_TLV_FinalBlockId :: u64 where "NDN_TLV_FinalBlockId = 0x1a"
definition NDN_TLV_SignatureType :: u64 where "NDN_TLV_SignatureType = 0x1b"
definition NDN_TLV_NdnlpFragment :: u64 where "NDN_TLV_NdnlpFragment = 0x52"
definition NDN_TLV_Frag_BeginEndFields :: u64 where "NDN_TLV_Frag_BeginEndFields = 0x5c"
definition NDN_VAL_SIGTYPE_DIGESTSHA256 :: u8 where "NDN_VAL_SIGTYPE_DIGESTSHA256 = 0"
definition NDN_VAL_SIGTYPE_HMAC256 :: u8 where "NDN_VAL_SIGTYPE_HMAC256 = 4"

lemmas ndn_types = NDN_TLV_Interest_def NDN_TLV_Data_def NDN_TLV_Name_def NDN_TLV_NameComponent_def
  NDN_TLV_Selectors_def NDN_TLV_Nonce_def NDN_TLV_Scope_def NDN_TLV_InterestLifetime_def
  NDN_TLV_MinSuffixComponents_def NDN_TLV_MaxSuffixComponents_def NDN_TLV_MustBeFresh_def NDN_TLV_MetaInfo_def
  NDN_TLV_Content_def NDN_TLV_SignatureInfo_def NDN_TLV_SignatureValue_def NDN_TLV_FreshnessPeriod_def
  NDN_TLV_FinalBlockId_def NDN_TLV_SignatureType_def NDN_TLV_NdnlpFragment_def NDN_TLV_Frag_BeginEndFields_def

subsection \<open>Composing\<close>

type_synonym wbuf = "nat \<times> bytes"

definition or_fail :: "int + 'a \<Rightarrow> ('a \<Rightarrow> int + 'b) \<Rightarrow> int + 'b" where
  "or_fail r k = (case r of Inl _ \<Rightarrow> Inl (-1) | Inr st \<Rightarrow> k st)"

text \<open>\<open>buf[--(*offset)] = b\<close>\<close>

definition push_byte :: "u8 \<Rightarrow> wbuf \<Rightarrow> wbuf" where
  "push_byte b st = (fst st - 1, (snd st)[fst st - 1 := b])"

fun tlval_loop :: "nat \<Rightarrow> u64 \<Rightarrow> wbuf \<Rightarrow> wbuf" where
  "tlval_loop 0 val st = st"
| "tlval_loop (Suc i) val st = tlval_loop i (drop_bit 8 val) (push_byte (ucast val) st)"

definition ccnl_ndntlv_prependTLval :: "u64 \<Rightarrow> wbuf \<Rightarrow> int + wbuf" where
  "ccnl_ndntlv_prependTLval val st =
    (let (len, t) = (if val < 253 then (0, ucast val)
                     else if val \<le> 0xffff then (2, 253)
                     else if val \<le> 0xffffffff then (4, 254)
                     else (8, 255))
     in if fst st < len + 1 then Inl (-1) else Inr (push_byte t (tlval_loop len val st)))"

definition ccnl_ndntlv_prependTL :: "u64 \<Rightarrow> u64 \<Rightarrow> wbuf \<Rightarrow> int + wbuf" where
  "ccnl_ndntlv_prependTL type len st =
    or_fail (ccnl_ndntlv_prependTLval len st) (ccnl_ndntlv_prependTLval type)"

lemma drop_byte_less: "val \<noteq> 0 \<Longrightarrow> unat (drop_bit 8 val :: u64) < unat val"
  by (simp add: drop_bit_eq_div unat_div unat_gt_0)

function nonneg_loop :: "nat \<Rightarrow> u64 \<Rightarrow> wbuf \<Rightarrow> int + nat \<times> wbuf" where
  "nonneg_loop len val st =
    (if val = 0 then Inr (len, st)
     else if fst st < 1 then Inl (-1)
     else nonneg_loop (len + 1) (drop_bit 8 val) (push_byte (ucast val) st))"
  by pat_completeness auto
termination by (relation "measure (\<lambda>(len, val, st). unat val)") (simp_all add: drop_byte_less)

declare nonneg_loop.simps [simp del]

fun fill_loop :: "nat \<Rightarrow> wbuf \<Rightarrow> int + wbuf" where
  "fill_loop 0 st = Inr st"
| "fill_loop (Suc i) st = (if fst st < 1 then Inl (-1) else fill_loop i (push_byte 0 st))"

definition ccnl_ndntlv_prependNonNegIntVal :: "u64 \<Rightarrow> wbuf \<Rightarrow> int + wbuf" where
  "ccnl_ndntlv_prependNonNegIntVal val st =
    or_fail (nonneg_loop 0 val st) (\<lambda>(len, st). fill_loop ([1, 0, 0, 1, 0, 3, 2, 1, 0] ! len) st)"

definition ccnl_ndntlv_prependNonNegInt :: "u64 \<Rightarrow> u64 \<Rightarrow> wbuf \<Rightarrow> int + wbuf" where
  "ccnl_ndntlv_prependNonNegInt type val st =
    or_fail (ccnl_ndntlv_prependNonNegIntVal val st)
      (\<lambda>st'. ccnl_ndntlv_prependTL type (of_nat (fst st - fst st')) st')"

definition ccnl_ndntlv_prependIncludedNonNegInt :: "u64 \<Rightarrow> u64 \<Rightarrow> u8 \<Rightarrow> wbuf \<Rightarrow> int + wbuf" where
  "ccnl_ndntlv_prependIncludedNonNegInt type val marker st =
    or_fail (ccnl_ndntlv_prependNonNegIntVal val st)
      (\<lambda>st'. if fst st' < 1 then Inl (-1)
             else let st' = push_byte marker st'
                  in ccnl_ndntlv_prependTL type (of_nat (fst st - fst st')) st')"

definition ccnl_ndntlv_prependBlob :: "u64 \<Rightarrow> bytes \<Rightarrow> wbuf \<Rightarrow> int + wbuf" where
  "ccnl_ndntlv_prependBlob type blob st =
    (if fst st < length blob then Inl (-1)
     else let off = fst st - length blob
          in ccnl_ndntlv_prependTL type (of_nat (length blob))
               (off, take off (snd st) @ blob @ drop (fst st) (snd st)))"

text \<open>The components are prepended from the last one on.\<close>

fun comps_loop :: "bytes list \<Rightarrow> wbuf \<Rightarrow> int + wbuf" where
  "comps_loop [] st = Inr st"
| "comps_loop (c # cs) st = or_fail (ccnl_ndntlv_prependBlob NDN_TLV_NameComponent c st) (comps_loop cs)"

definition ccnl_ndntlv_prependName :: "ccnl_prefix_s \<Rightarrow> wbuf \<Rightarrow> int + wbuf" where
  "ccnl_ndntlv_prependName name st =
    or_fail
      (or_fail
        (case px_chunknum name of None \<Rightarrow> Inr st
         | Some n \<Rightarrow> ccnl_ndntlv_prependIncludedNonNegInt NDN_TLV_NameComponent (ucast n)
                       NDN_Marker_SegmentNumber st)
        (comps_loop (rev (comps name))))
      (\<lambda>st'. ccnl_ndntlv_prependTL NDN_TLV_Name (of_nat (fst st - fst st')) st')"

record ccnl_ndntlv_interest_opts_s =
  io_nonce :: u32
  io_mustbefresh :: u8
  io_interestlifetime :: u32

definition nonce_bytes :: "u32 \<Rightarrow> bytes" where
  "nonce_bytes n = [byte32 0 n, byte32 1 n, byte32 2 n, byte32 3 n]"

text \<open>The result also holds the length of the packet.\<close>

definition ccnl_ndntlv_prependInterestK ::
    "ccnl_prefix_s \<Rightarrow> int \<Rightarrow> ccnl_ndntlv_interest_opts_s \<Rightarrow> wbuf \<Rightarrow> int + wbuf \<times> nat" where
  "ccnl_ndntlv_prependInterestK name scope opts st =
    or_fail
      (if 0 \<le> scope then
         (if 2 < scope then Inl (-1)
          else ccnl_ndntlv_prependNonNegInt NDN_TLV_Scope (of_int scope) st)
       else Inr st)
      (\<lambda>st1. or_fail
        (if io_interestlifetime opts \<noteq> 0
         then ccnl_ndntlv_prependNonNegInt NDN_TLV_InterestLifetime (ucast (io_interestlifetime opts)) st1
         else Inr st1)
      (\<lambda>st2. or_fail (ccnl_ndntlv_prependBlob NDN_TLV_Nonce (nonce_bytes (io_nonce opts)) st2)
      (\<lambda>st3. or_fail
        (if io_mustbefresh opts \<noteq> 0 then
           or_fail (ccnl_ndntlv_prependTL NDN_TLV_MustBeFresh 0 st3)
             (\<lambda>st'. ccnl_ndntlv_prependTL NDN_TLV_Selectors (of_nat (fst st3 - fst st')) st')
         else Inr st3)
      (\<lambda>st4. or_fail (ccnl_ndntlv_prependName name st4)
      (\<lambda>st5. or_fail (ccnl_ndntlv_prependTL NDN_TLV_Interest (of_nat (fst st - fst st5)) st5)
      (\<lambda>st6. Inr (st6, fst st - fst st6)))))))"

record ccnl_ndntlv_data_opts_s =
  do_freshnessperiod :: u32
  do_finalblockid :: u32

text \<open>
  A data packet. \<open>contentpos\<close>, the position of the payload in the packet, is computed from the
  offset before the signature was prepended. One failure returns 1.
\<close>

definition ccnl_ndntlv_prependContent ::
    "ccnl_prefix_s \<Rightarrow> bytes \<Rightarrow> ccnl_ndntlv_data_opts_s option \<Rightarrow> wbuf \<Rightarrow> int + wbuf \<times> nat \<times> u64" where
  "ccnl_ndntlv_prependContent name payload opts st =
    or_fail (ccnl_ndntlv_prependTL NDN_TLV_SignatureValue 0 st)
      (\<lambda>st1. case ccnl_ndntlv_prependBlob NDN_TLV_SignatureType [NDN_VAL_SIGTYPE_DIGESTSHA256] st1 of
                Inl _ \<Rightarrow> Inl 1
              | Inr st2 \<Rightarrow>
      or_fail (ccnl_ndntlv_prependTL NDN_TLV_SignatureInfo (of_nat (fst st1 - fst st2)) st2)
      (\<lambda>st3. or_fail (ccnl_ndntlv_prependBlob NDN_TLV_Content payload st3)
      (\<lambda>st4. or_fail
        (case opts of None \<Rightarrow> Inr st4
         | Some opts \<Rightarrow>
             or_fail
               (if do_finalblockid opts \<noteq> 0xffffffff then
                  or_fail (ccnl_ndntlv_prependIncludedNonNegInt NDN_TLV_NameComponent
                             (ucast (do_finalblockid opts)) NDN_Marker_SegmentNumber st4)
                    (\<lambda>st'. ccnl_ndntlv_prependTL NDN_TLV_FinalBlockId (of_nat (fst st4 - fst st')) st')
                else Inr st4)
               (\<lambda>st'. if do_freshnessperiod opts \<noteq> 0
                      then ccnl_ndntlv_prependNonNegInt NDN_TLV_FreshnessPeriod
                             (ucast (do_freshnessperiod opts)) st'
                      else Inr st'))
      (\<lambda>st5. or_fail (ccnl_ndntlv_prependTL NDN_TLV_MetaInfo (of_nat (fst st4 - fst st5)) st5)
      (\<lambda>st6. or_fail (ccnl_ndntlv_prependName name st6)
      (\<lambda>st7. or_fail (ccnl_ndntlv_prependTL NDN_TLV_Data (of_nat (fst st - fst st7)) st7)
      (\<lambda>st8. Inr (st8, fst st - fst st8,
                  of_nat (fst st) - of_nat (length payload) - of_nat (fst st8)))))))))"

subsection \<open>What the composer writes\<close>

text \<open>
  \<open>put e\<close> is the abstract operation behind every function of the composer: it writes the bytes
  \<open>e\<close> directly before the offset, when there is room for them, and fails otherwise.
\<close>

definition put :: "bytes \<Rightarrow> wbuf \<Rightarrow> int + wbuf" where
  "put e st =
    (if length e \<le> fst st
     then Inr (fst st - length e, take (fst st - length e) (snd st) @ e @ drop (fst st) (snd st))
     else Inl (-1))"

definition valid_wbuf :: "wbuf \<Rightarrow> bool" where
  "valid_wbuf st \<longleftrightarrow> fst st \<le> length (snd st) \<and> length (snd st) < 2 ^ 64"

lemma or_fail_simps [simp]: "or_fail (Inl e) k = Inl (-1)" "or_fail (Inr st) k = k st"
  by (simp_all add: or_fail_def)

lemma put_Nil [simp]: "put [] st = Inr st"
  by (simp add: put_def)

lemma valid_put: "\<lbrakk>put e st = Inr st'; valid_wbuf st\<rbrakk> \<Longrightarrow> valid_wbuf st' \<and> fst st' + length e = fst st"
  by (auto simp: put_def valid_wbuf_def split: if_splits)

lemma put_put: "valid_wbuf st \<Longrightarrow> or_fail (put e st) (put d) = put (d @ e) st"
  by (auto simp: put_def valid_wbuf_def min_def add.commute)

text \<open>
  The contract of a function that prepends: in a valid state it does what \<open>put\<close> does for the
  encoding of its argument. What follows for every such function: it keeps the state valid, it
  changes only the bytes it moves the offset over, it fails exactly when there is no room, and
  two of them in a row prepend one encoding before the other.
\<close>

locale prepender =
  fixes prepend :: "'a \<Rightarrow> wbuf \<Rightarrow> int + wbuf" and enc :: "'a \<Rightarrow> bytes"
  assumes prepend_put: "valid_wbuf st \<Longrightarrow> prepend x st = put (enc x) st"
begin

lemma fails_iff: "valid_wbuf st \<Longrightarrow> prepend x st = Inl rc \<longleftrightarrow> fst st < length (enc x) \<and> rc = -1"
  by (auto simp: prepend_put put_def)

lemma completes:
  assumes "valid_wbuf st" "prepend x st = Inr st'"
  shows "valid_wbuf st'" "fst st - fst st' = length (enc x)"
    "drop (fst st') (snd st') = enc x @ drop (fst st) (snd st)" "take (fst st') (snd st') = take (fst st') (snd st)"
  using assms by (auto simp: prepend_put put_def valid_wbuf_def min_def split: if_splits)

lemma after:
  assumes "valid_wbuf st"
  shows "or_fail (put e st) (prepend x) = put (enc x @ e) st"
proof (cases "put e st")
  case (Inr st')
  then have "valid_wbuf st'" using valid_put assms by blast
  then show ?thesis using Inr put_put [OF assms, of e "enc x"] by (simp add: prepend_put)
next
  case (Inl r)
  then show ?thesis using put_put [OF assms, of e "enc x"] by simp
qed

text \<open>The length of what was prepended since the state \<open>st\<close> is known where it is written.\<close>

lemma after_length:
  assumes "valid_wbuf st" "\<And>n. f n = prepend (g n)"
  shows "or_fail (put e st) (\<lambda>st'. f (fst st - fst st') st') = put (enc (g (length e)) @ e) st"
proof (cases "put e st")
  case (Inr st')
  then have "valid_wbuf st'" "fst st - fst st' = length e" using valid_put assms(1) by fastforce+
  then show ?thesis using Inr put_put [OF assms(1), of e "enc (g (length e))"] by (simp add: assms(2) prepend_put)
next
  case (Inl r)
  then show ?thesis using put_put [OF assms(1), of e "enc (g (length e))"] by simp
qed

end

subsection \<open>Encodings\<close>

fun be_bytes :: "nat \<Rightarrow> u64 \<Rightarrow> bytes" where
  "be_bytes 0 v = []"
| "be_bytes (Suc n) v = be_bytes n (drop_bit 8 v) @ [ucast v]"

definition enc_tlval :: "u64 \<Rightarrow> bytes" where
  "enc_tlval v = (if v < 253 then [ucast v] else if v \<le> 0xffff then 253 # be_bytes 2 v
     else if v \<le> 0xffffffff then 254 # be_bytes 4 v else 255 # be_bytes 8 v)"

definition enc_tl :: "u64 \<times> u64 \<Rightarrow> bytes" where
  "enc_tl x = enc_tlval (fst x) @ enc_tlval (snd x)"

definition nonneg_width :: "u64 \<Rightarrow> nat" where
  "nonneg_width v = (if v < 2 ^ 8 then 1 else if v < 2 ^ 16 then 2 else if v < 2 ^ 32 then 4 else 8)"

definition enc_nonneg :: "u64 \<Rightarrow> bytes" where
  "enc_nonneg v = be_bytes (nonneg_width v) v"

definition enc_block :: "u64 \<times> bytes \<Rightarrow> bytes" where
  "enc_block tv = enc_tl (fst tv, of_nat (length (snd tv))) @ snd tv"

lemma length_be_bytes [simp]: "length (be_bytes n v) = n"
  by (induction n arbitrary: v) simp_all

lemma push_byte_put: "\<lbrakk>valid_wbuf st; 0 < fst st\<rbrakk> \<Longrightarrow> Inr (push_byte b st) = put [b] st"
  by (auto simp: push_byte_def put_def valid_wbuf_def upd_conv_take_nth_drop Suc_le_eq)

lemma tlval_loop_put:
  "\<lbrakk>valid_wbuf st; n \<le> fst st\<rbrakk> \<Longrightarrow> Inr (tlval_loop n v st) = put (be_bytes n v) st"
proof (induction n arbitrary: v st)
  case (Suc n)
  then have p: "put [ucast v] st = Inr (push_byte (ucast v) st)" by (simp add: push_byte_put)
  with Suc.prems have "valid_wbuf (push_byte (ucast v) st)" "n \<le> fst (push_byte (ucast v) st)"
    using valid_put [OF p] by simp_all
  from Suc.IH [OF this, of "drop_bit 8 v"] show ?case
    using put_put [OF Suc.prems(1), of "[ucast v]" "be_bytes n (drop_bit 8 v)"] p by simp
qed simp

interpretation tlval: prepender ccnl_ndntlv_prependTLval enc_tlval
proof
  fix st v assume st: "valid_wbuf st"
  have step: "Inr (push_byte t (tlval_loop n v st)) = put (t # be_bytes n v) st" if "n + 1 \<le> fst st" for n t
  proof -
    have p: "put (be_bytes n v) st = Inr (tlval_loop n v st)" using that st by (simp add: tlval_loop_put)
    with valid_put [OF p st] that have "Inr (push_byte t (tlval_loop n v st)) = put [t] (tlval_loop n v st)"
      by (intro push_byte_put) simp_all
    with put_put [OF st, of "be_bytes n v" "[t]"] p show ?thesis by simp
  qed
  show "ccnl_ndntlv_prependTLval v st = put (enc_tlval v) st"
    using step [of 0] step [of 2] step [of 4] step [of 8]
    by (auto simp: ccnl_ndntlv_prependTLval_def enc_tlval_def not_le put_def [of "_ # _"] split: if_splits)
qed

interpretation tlhd: prepender "\<lambda>x. ccnl_ndntlv_prependTL (fst x) (snd x)" enc_tl
  by unfold_locales
    (simp add: ccnl_ndntlv_prependTL_def tlval.prepend_put tlval.after enc_tl_def)

text \<open>The number of bytes the loop over a value writes, before padding.\<close>

function bytelen :: "u64 \<Rightarrow> nat" where
  "bytelen v = (if v = 0 then 0 else Suc (bytelen (drop_bit 8 v)))"
  by pat_completeness auto
termination by (relation "measure unat") (simp_all add: drop_byte_less)

declare bytelen.simps [simp del]

lemma bytelen_0: "bytelen v = 0 \<longleftrightarrow> v = 0"
  by (subst bytelen.simps) simp

lemma drop_bit_zero_iff: "drop_bit n (v :: u64) = 0 \<longleftrightarrow> unat v < 2 ^ n"
proof -
  have "drop_bit n v = 0 \<longleftrightarrow> unat v div 2 ^ n = 0"
    by (metis unat_drop_bit_eq drop_bit_eq_div unat_eq_0)
  then show ?thesis by (simp add: div_eq_0_iff)
qed

lemma bytelen_le: "bytelen v \<le> n \<longleftrightarrow> unat v < 2 ^ (8 * n)"
proof (induction n arbitrary: v)
  case 0
  show ?case by (subst bytelen.simps) (simp add: unat_eq_0)
next
  case (Suc n)
  have "unat (drop_bit 8 v) < 2 ^ (8 * n) \<longleftrightarrow> unat v < 2 ^ (8 * Suc n)"
    using drop_bit_zero_iff [of "8 * n" "drop_bit 8 v"] drop_bit_zero_iff [of "8 * Suc n" v]
    by (simp add: add.commute)
  then show ?case using Suc.IH [of "drop_bit 8 v"] by (subst bytelen.simps) simp
qed

lemma be_bytes_pad: "unat v < 2 ^ (8 * k) \<Longrightarrow> be_bytes (z + k) v = replicate z 0 @ be_bytes k v"
proof (induction k arbitrary: v)
  case 0
  then have "v = 0" by (simp add: unat_eq_0)
  moreover have "be_bytes z 0 = replicate z 0" by (induction z) (simp_all add: replicate_append_same)
  ultimately show ?case by simp
next
  case (Suc k)
  have "unat (drop_bit 8 v) < 2 ^ (8 * k)"
    using Suc.prems drop_bit_zero_iff [of "8 * k" "drop_bit 8 v"] drop_bit_zero_iff [of "8 * Suc k" v]
    by (simp add: add.commute)
  with Suc.IH show ?case by simp
qed

lemma nonneg_loop_put:
  "valid_wbuf st \<Longrightarrow> nonneg_loop len v st =
    or_fail (put (be_bytes (bytelen v) v) st) (\<lambda>st'. Inr (len + bytelen v, st'))"
proof (induction len v st rule: nonneg_loop.induct)
  case (1 len v st)
  show ?case
  proof (cases "v = 0 \<or> fst st = 0")
    case True
    then show ?thesis by (auto simp: nonneg_loop.simps [of len v] put_def bytelen_0 bytelen.simps [of 0])
  next
    case False
    then have p: "put [ucast v] st = Inr (push_byte (ucast v) st)" using "1.prems" by (simp add: push_byte_put)
    with "1.prems" have "valid_wbuf (push_byte (ucast v) st)" using valid_put [OF p] by blast
    with False "1.IH" have "nonneg_loop len v st =
        or_fail (put (be_bytes (bytelen (drop_bit 8 v)) (drop_bit 8 v)) (push_byte (ucast v) st))
          (\<lambda>st'. Inr (Suc len + bytelen (drop_bit 8 v), st'))"
      by (subst nonneg_loop.simps) simp
    moreover have "bytelen v = Suc (bytelen (drop_bit 8 v))" using False by (subst bytelen.simps) simp
    ultimately show ?thesis
      using put_put [OF "1.prems", of "[ucast v]" "be_bytes (bytelen (drop_bit 8 v)) (drop_bit 8 v)"] p by simp
  qed
qed

lemma fill_loop_put: "valid_wbuf st \<Longrightarrow> fill_loop n st = put (replicate n 0) st"
proof (induction n arbitrary: st)
  case (Suc n)
  show ?case
  proof (cases "fst st = 0")
    case False
    then have p: "put [0] st = Inr (push_byte 0 st)" using Suc.prems by (simp add: push_byte_put)
    with Suc.prems have "valid_wbuf (push_byte 0 st)" using valid_put [OF p] by blast
    with Suc.IH put_put [OF Suc.prems, of "[0]" "replicate n 0"] p False show ?thesis
      by (simp add: replicate_append_same)
  qed (simp add: put_def)
qed simp

lemma fill_width: "[1, 0, 0, 1, 0, 3, 2, 1, 0] ! bytelen v + bytelen v = nonneg_width v"
proof -
  have "bytelen v \<le> 8" using unsigned_less [of v, where ?'a = nat] by (simp add: bytelen_le)
  moreover have "nonneg_width v = (if bytelen v \<le> 1 then 1 else if bytelen v \<le> 2 then 2 else if bytelen v \<le> 4 then 4 else 8)"
    by (simp add: bytelen_le nonneg_width_def word_less_nat_alt)
  moreover have "bytelen v \<in> {0, 1, 2, 3, 4, 5, 6, 7, 8}" using calculation(1) by auto
  ultimately show ?thesis by auto
qed

interpretation nonneg_val: prepender ccnl_ndntlv_prependNonNegIntVal enc_nonneg
proof
  fix st v assume st: "valid_wbuf st"
  let ?z = "[1, 0, 0, 1, 0, 3, 2, 1, 0] ! bytelen v"
  have "enc_nonneg v = replicate ?z 0 @ be_bytes (bytelen v) v"
    unfolding enc_nonneg_def fill_width [symmetric] using bytelen_le [of v "bytelen v"] by (intro be_bytes_pad) blast
  moreover have "ccnl_ndntlv_prependNonNegIntVal v st = or_fail (put (be_bytes (bytelen v) v) st) (put (replicate ?z 0))"
    using st valid_put
    by (cases "put (be_bytes (bytelen v) v) st")
      (auto simp: ccnl_ndntlv_prependNonNegIntVal_def nonneg_loop_put fill_loop_put)
  ultimately show "ccnl_ndntlv_prependNonNegIntVal v st = put (enc_nonneg v) st"
    by (simp add: put_put st)
qed

text \<open>A header whose length field is computed from the offset.\<close>

lemma close_block:
  assumes "valid_wbuf st"
  shows "or_fail (put e st) (\<lambda>st'. ccnl_ndntlv_prependTL t (of_nat (fst st - fst st')) st') = put (enc_block (t, e)) st"
  using tlhd.after_length [OF assms, where f = "\<lambda>n. ccnl_ndntlv_prependTL t (of_nat n)" and g = "\<lambda>n. (t, of_nat n)"]
  by (simp add: enc_block_def)

interpretation nonneg: prepender "\<lambda>x. ccnl_ndntlv_prependNonNegInt (fst x) (snd x)" "\<lambda>x. enc_block (fst x, enc_nonneg (snd x))"
  by unfold_locales (simp add: ccnl_ndntlv_prependNonNegInt_def nonneg_val.prepend_put close_block)

interpretation included: prepender "\<lambda>(t, v, m). ccnl_ndntlv_prependIncludedNonNegInt t v m"
  "\<lambda>(t, v, m). enc_block (t, m # enc_nonneg v)"
proof (unfold_locales, clarsimp)
  fix st t v m assume st: "valid_wbuf st"
  have "or_fail (put (enc_nonneg v) st) (\<lambda>st'. if fst st' < 1 then Inl (-1) else Inr (push_byte m st'))
      = put (m # enc_nonneg v) st"
    using put_put [OF st, of "enc_nonneg v" "[m]"] valid_put [OF _ st, of "enc_nonneg v"]
    by (cases "put (enc_nonneg v) st") (auto simp: push_byte_put put_def [of "[m]"])
  then have "ccnl_ndntlv_prependIncludedNonNegInt t v m st
      = or_fail (put (m # enc_nonneg v) st) (\<lambda>st'. ccnl_ndntlv_prependTL t (of_nat (fst st - fst st')) st')"
    using st by (cases "put (enc_nonneg v) st")
      (auto simp: ccnl_ndntlv_prependIncludedNonNegInt_def nonneg_val.prepend_put Let_def dest: sym)
  then show "ccnl_ndntlv_prependIncludedNonNegInt t v m st = put (enc_block (t, m # enc_nonneg v)) st"
    by (simp add: close_block st)
qed

interpretation blob: prepender "\<lambda>x. ccnl_ndntlv_prependBlob (fst x) (snd x)" enc_block
proof
  fix st :: wbuf and x assume st: "valid_wbuf st"
  have "ccnl_ndntlv_prependBlob (fst x) (snd x) st = or_fail (put (snd x) st) (ccnl_ndntlv_prependTL (fst x) (of_nat (length (snd x))))"
    by (auto simp: ccnl_ndntlv_prependBlob_def put_def Let_def)
  also have "\<dots> = put (enc_block x) st"
    using tlhd.after [OF st, of "snd x" "(fst x, of_nat (length (snd x)))"] by (simp add: enc_block_def)
  finally show "ccnl_ndntlv_prependBlob (fst x) (snd x) st = put (enc_block x) st" .
qed

lemma then_put:
  assumes "valid_wbuf st" "\<And>s. valid_wbuf s \<Longrightarrow> f s = put d s"
  shows "or_fail (put e st) f = put (d @ e) st"
proof (cases "put e st")
  case (Inl r)
  then show ?thesis using put_put [OF assms(1), of e d] by simp
next
  case (Inr st')
  then have "f st' = put d st'" using assms valid_put by blast
  with Inr put_put [OF assms(1), of e d] show ?thesis by simp
qed

lemma or_fail_assoc: "or_fail r (\<lambda>s. or_fail (f s) k) = or_fail (or_fail r f) k"
  by (simp add: or_fail_def split: sum.splits)

lemma collapse:
  assumes "valid_wbuf st" "\<And>s. valid_wbuf s \<Longrightarrow> f s = put d s"
  shows "or_fail (put e st) (\<lambda>s. or_fail (f s) k) = or_fail (put (d @ e) st) k"
  using then_put [OF assms, of e] by (simp add: or_fail_assoc)

definition enc_comps :: "bytes list \<Rightarrow> bytes" where
  "enc_comps cs = concat (map (\<lambda>c. enc_block (NDN_TLV_NameComponent, c)) cs)"

definition enc_chunk :: "u32 option \<Rightarrow> bytes" where
  "enc_chunk ch = (case ch of None \<Rightarrow> []
     | Some n \<Rightarrow> enc_block (NDN_TLV_NameComponent, NDN_Marker_SegmentNumber # enc_nonneg (ucast n)))"

definition enc_name :: "ccnl_prefix_s \<Rightarrow> bytes" where
  "enc_name p = enc_block (NDN_TLV_Name, enc_comps (comps p) @ enc_chunk (px_chunknum p))"

definition enc_interest :: "ccnl_prefix_s \<Rightarrow> int \<Rightarrow> ccnl_ndntlv_interest_opts_s \<Rightarrow> bytes" where
  "enc_interest p scope opts =
    enc_block (NDN_TLV_Interest,
      enc_name p
      @ (if io_mustbefresh opts \<noteq> 0 then enc_block (NDN_TLV_Selectors, enc_block (NDN_TLV_MustBeFresh, [])) else [])
      @ enc_block (NDN_TLV_Nonce, nonce_bytes (io_nonce opts))
      @ (if io_interestlifetime opts \<noteq> 0
         then enc_block (NDN_TLV_InterestLifetime, enc_nonneg (ucast (io_interestlifetime opts))) else [])
      @ (if 0 \<le> scope then enc_block (NDN_TLV_Scope, enc_nonneg (of_int scope)) else []))"

lemma comps_loop_put: "valid_wbuf st \<Longrightarrow> comps_loop cs st = put (enc_comps (rev cs)) st"
proof (induction cs arbitrary: st)
  case (Cons c cs)
  then have "comps_loop (c # cs) st = or_fail (put (enc_block (NDN_TLV_NameComponent, c)) st) (comps_loop cs)"
    using blob.prepend_put [OF Cons.prems, of "(NDN_TLV_NameComponent, c)"] by simp
  also have "\<dots> = put (enc_comps (rev cs) @ enc_block (NDN_TLV_NameComponent, c)) st"
    by (intro then_put Cons)
  finally show ?case by (simp add: enc_comps_def)
qed (simp add: enc_comps_def)

interpretation name: prepender ccnl_ndntlv_prependName enc_name
proof
  fix st and p :: ccnl_prefix_s assume st: "valid_wbuf st"
  have "(case px_chunknum p of None \<Rightarrow> Inr st
         | Some n \<Rightarrow> ccnl_ndntlv_prependIncludedNonNegInt NDN_TLV_NameComponent (ucast n)
                       NDN_Marker_SegmentNumber st) = put (enc_chunk (px_chunknum p)) st"
    using included.prepend_put [OF st, of "(NDN_TLV_NameComponent, ucast (the (px_chunknum p)), NDN_Marker_SegmentNumber)"]
    by (cases "px_chunknum p") (simp_all add: enc_chunk_def)
  moreover have "or_fail (put (enc_chunk (px_chunknum p)) st) (comps_loop (rev (comps p)))
      = put (enc_comps (comps p) @ enc_chunk (px_chunknum p)) st"
    using comps_loop_put [where cs = "rev (comps p)"] by (intro then_put st) simp
  ultimately show "ccnl_ndntlv_prependName p st = put (enc_name p) st"
    by (simp add: ccnl_ndntlv_prependName_def close_block st enc_name_def)
qed

lemma put_if: "(if b then put e st else Inr st) = put (if b then e else []) st"
  by simp

lemma interestK_put:
  assumes "valid_wbuf st" "scope \<le> 2"
  shows "ccnl_ndntlv_prependInterestK p scope opts st =
    or_fail (put (enc_interest p scope opts) st) (\<lambda>s. Inr (s, fst st - fst s))"
proof -
  let ?sel = "if io_mustbefresh opts \<noteq> 0 then enc_block (NDN_TLV_Selectors, enc_block (NDN_TLV_MustBeFresh, [])) else []"
  let ?life = "if io_interestlifetime opts \<noteq> 0
    then enc_block (NDN_TLV_InterestLifetime, enc_nonneg (ucast (io_interestlifetime opts))) else []"
  let ?scope = "if 0 \<le> scope then enc_block (NDN_TLV_Scope, enc_nonneg (of_int scope)) else []"
  let ?nonce = "enc_block (NDN_TLV_Nonce, nonce_bytes (io_nonce opts))"
  have fresh: "or_fail (ccnl_ndntlv_prependTL NDN_TLV_MustBeFresh 0 s)
      (\<lambda>s'. ccnl_ndntlv_prependTL NDN_TLV_Selectors (of_nat (fst s - fst s')) s')
      = put (enc_block (NDN_TLV_Selectors, enc_block (NDN_TLV_MustBeFresh, []))) s" if "valid_wbuf s" for s
    using tlhd.prepend_put [OF that, of "(NDN_TLV_MustBeFresh, 0)"] close_block [OF that]
    by (simp add: enc_block_def)
  have scope: "(if 0 \<le> scope then if 2 < scope then Inl (- 1) else ccnl_ndntlv_prependNonNegInt NDN_TLV_Scope (of_int scope) st
      else Inr st) = put ?scope st"
    using nonneg.prepend_put [OF assms(1), of "(NDN_TLV_Scope, of_int scope)"] assms(2) by simp
  have life: "(if io_interestlifetime opts \<noteq> 0
      then ccnl_ndntlv_prependNonNegInt NDN_TLV_InterestLifetime (ucast (io_interestlifetime opts)) s else Inr s) = put ?life s"
    if "valid_wbuf s" for s
    using nonneg.prepend_put [OF that, of "(NDN_TLV_InterestLifetime, ucast (io_interestlifetime opts))"] by simp
  have sel: "(if io_mustbefresh opts \<noteq> 0 then or_fail (ccnl_ndntlv_prependTL NDN_TLV_MustBeFresh 0 s)
      (\<lambda>s'. ccnl_ndntlv_prependTL NDN_TLV_Selectors (of_nat (fst s - fst s')) s') else Inr s) = put ?sel s"
    if "valid_wbuf s" for s
    using fresh [OF that] by simp
  have nonce: "ccnl_ndntlv_prependBlob NDN_TLV_Nonce (nonce_bytes (io_nonce opts)) s = put ?nonce s" if "valid_wbuf s" for s
    using blob.prepend_put [OF that, of "(NDN_TLV_Nonce, nonce_bytes (io_nonce opts))"] by simp
  show ?thesis
    unfolding ccnl_ndntlv_prependInterestK_def scope
    apply (subst collapse [OF assms(1) life], assumption)
    apply (subst collapse [OF assms(1) nonce], assumption)
    apply (subst collapse [OF assms(1) sel], assumption)
    apply (subst collapse [OF assms(1) name.prepend_put], assumption)
    unfolding or_fail_assoc close_block [OF assms(1)] enc_interest_def by simp
qed

definition enc_metainfo :: "ccnl_ndntlv_data_opts_s option \<Rightarrow> bytes" where
  "enc_metainfo opts = (case opts of None \<Rightarrow> []
     | Some opts \<Rightarrow>
        (if do_freshnessperiod opts \<noteq> 0
         then enc_block (NDN_TLV_FreshnessPeriod, enc_nonneg (ucast (do_freshnessperiod opts))) else [])
        @ (if do_finalblockid opts \<noteq> 0xffffffff
           then enc_block (NDN_TLV_FinalBlockId,
                  enc_block (NDN_TLV_NameComponent, NDN_Marker_SegmentNumber # enc_nonneg (ucast (do_finalblockid opts))))
           else []))"

definition enc_signature :: bytes where
  "enc_signature = enc_block (NDN_TLV_SignatureInfo, enc_block (NDN_TLV_SignatureType, [NDN_VAL_SIGTYPE_DIGESTSHA256]))
     @ enc_block (NDN_TLV_SignatureValue, [])"

definition enc_data :: "ccnl_prefix_s \<Rightarrow> bytes \<Rightarrow> ccnl_ndntlv_data_opts_s option \<Rightarrow> bytes" where
  "enc_data p payload opts =
    enc_block (NDN_TLV_Data,
      enc_name p @ enc_block (NDN_TLV_MetaInfo, enc_metainfo opts) @ enc_block (NDN_TLV_Content, payload) @ enc_signature)"

lemma length_enc_signature: "length enc_signature = 7"
  by code_simp

lemma put_room:
  assumes "valid_wbuf st" "length e \<le> fst st"
  obtains s where "put e st = Inr s" "valid_wbuf s" "fst s + length e = fst st"
  using assms by (auto simp: put_def valid_wbuf_def)

lemma then_put_k:
  assumes "valid_wbuf st" "\<And>s. valid_wbuf s \<Longrightarrow> g s = or_fail (put d s) k"
  shows "or_fail (put e st) g = or_fail (put (d @ e) st) k"
proof (cases "put e st")
  case (Inl r)
  then show ?thesis using put_put [OF assms(1), of e d, symmetric] by simp
next
  case (Inr st')
  then have "g st' = or_fail (put d st') k" using assms valid_put by blast
  with Inr put_put [OF assms(1), of e d] show ?thesis by simp
qed

lemma metainfo_put:
  assumes "valid_wbuf st"
  shows "(case opts of None \<Rightarrow> Inr st
         | Some opts \<Rightarrow>
             or_fail
               (if do_finalblockid opts \<noteq> 0xffffffff then
                  or_fail (ccnl_ndntlv_prependIncludedNonNegInt NDN_TLV_NameComponent
                             (ucast (do_finalblockid opts)) NDN_Marker_SegmentNumber st)
                    (\<lambda>st'. ccnl_ndntlv_prependTL NDN_TLV_FinalBlockId (of_nat (fst st - fst st')) st')
                else Inr st)
               (\<lambda>st'. if do_freshnessperiod opts \<noteq> 0
                      then ccnl_ndntlv_prependNonNegInt NDN_TLV_FreshnessPeriod
                             (ucast (do_freshnessperiod opts)) st'
                      else Inr st')) = put (enc_metainfo opts) st"
proof (cases opts)
  case (Some o')
  have final: "(if do_finalblockid o' \<noteq> 0xffffffff then
        or_fail (ccnl_ndntlv_prependIncludedNonNegInt NDN_TLV_NameComponent (ucast (do_finalblockid o')) NDN_Marker_SegmentNumber st)
          (\<lambda>st'. ccnl_ndntlv_prependTL NDN_TLV_FinalBlockId (of_nat (fst st - fst st')) st') else Inr st)
      = put (if do_finalblockid o' \<noteq> 0xffffffff
           then enc_block (NDN_TLV_FinalBlockId,
                  enc_block (NDN_TLV_NameComponent, NDN_Marker_SegmentNumber # enc_nonneg (ucast (do_finalblockid o'))))
           else []) st"
    using included.prepend_put [OF assms, of "(NDN_TLV_NameComponent, ucast (do_finalblockid o'), NDN_Marker_SegmentNumber)"]
      close_block [OF assms] by simp
  have fresh: "(if do_freshnessperiod o' \<noteq> 0
        then ccnl_ndntlv_prependNonNegInt NDN_TLV_FreshnessPeriod (ucast (do_freshnessperiod o')) s else Inr s)
      = put (if do_freshnessperiod o' \<noteq> 0
         then enc_block (NDN_TLV_FreshnessPeriod, enc_nonneg (ucast (do_freshnessperiod o'))) else []) s"
    if "valid_wbuf s" for s
    using nonneg.prepend_put [OF that, of "(NDN_TLV_FreshnessPeriod, ucast (do_freshnessperiod o'))"] by simp
  show ?thesis
    unfolding Some option.case enc_metainfo_def final by (rule then_put [OF assms fresh])
qed (simp add: enc_metainfo_def)

lemma content_put:
  assumes "valid_wbuf st" "length (enc_data p payload opts) \<le> fst st"
  shows "\<exists>s. put (enc_data p payload opts) st = Inr s
     \<and> ccnl_ndntlv_prependContent p payload opts st =
        Inr (s, length (enc_data p payload opts), of_nat (length (enc_data p payload opts) - length payload))"
proof -
  let ?body = "enc_name p @ enc_block (NDN_TLV_MetaInfo, enc_metainfo opts) @ enc_block (NDN_TLV_Content, payload) @ enc_signature"
  let ?sv = "enc_block (NDN_TLV_SignatureValue, [])" and ?st = "enc_block (NDN_TLV_SignatureType, [NDN_VAL_SIGTYPE_DIGESTSHA256])"
  have sv: "ccnl_ndntlv_prependTL NDN_TLV_SignatureValue 0 st = put ?sv st"
    using tlhd.prepend_put [OF assms(1), of "(NDN_TLV_SignatureValue, 0)"] by (simp add: enc_block_def)
  have room: "length ?sv + length ?st \<le> fst st"
    using assms(2) by (simp add: enc_data_def enc_signature_def enc_block_def)
  have "length ?sv \<le> fst st" using room by simp
  then obtain s1 where s1: "put ?sv st = Inr s1" "valid_wbuf s1" "fst s1 + length ?sv = fst st"
    by (rule put_room [OF assms(1)])
  have sty: "ccnl_ndntlv_prependBlob NDN_TLV_SignatureType [NDN_VAL_SIGTYPE_DIGESTSHA256] s1 = put ?st s1"
    using blob.prepend_put [OF s1(2), of "(NDN_TLV_SignatureType, [NDN_VAL_SIGTYPE_DIGESTSHA256])"] by simp
  have "length ?st \<le> fst s1" using room s1(3) by simp
  then obtain s2 where s2: "put ?st s1 = Inr s2" by (rule put_room [OF s1(2)])
  have info: "ccnl_ndntlv_prependTL NDN_TLV_SignatureInfo (of_nat (fst s1 - fst s2)) s2 = put enc_signature st"
    using close_block [OF s1(2), of ?st NDN_TLV_SignatureInfo] s2
      put_put [OF assms(1), of ?sv "enc_block (NDN_TLV_SignatureInfo, ?st)"] s1(1)
    by (simp add: enc_signature_def)
  have cont: "ccnl_ndntlv_prependBlob NDN_TLV_Content payload s = put (enc_block (NDN_TLV_Content, payload)) s"
    if "valid_wbuf s" for s
    using blob.prepend_put [OF that, of "(NDN_TLV_Content, payload)"] by simp
  let ?k = "\<lambda>s. Inr (s, fst st - fst s, of_nat (fst st) - of_nat (length payload) - of_nat (fst s)) :: int + wbuf \<times> nat \<times> u64"
  have "ccnl_ndntlv_prependContent p payload opts st = or_fail (put (enc_data p payload opts) st) ?k"
    unfolding ccnl_ndntlv_prependContent_def sv s1(1) or_fail_simps sty s2 sum.case info enc_data_def
    apply (rule then_put_k [OF assms(1), THEN trans])
     apply (subst cont, assumption, rule refl)
    apply (rule then_put_k [OF assms(1), THEN trans])
     apply (subst metainfo_put, assumption, subst or_fail_assoc, subst close_block, assumption, rule refl)
    apply (rule then_put_k [OF assms(1), THEN trans])
     apply (subst name.prepend_put, assumption, rule refl)
    apply (subst or_fail_assoc, subst close_block [OF assms(1)])
    apply simp
    done
  moreover obtain s where s: "put (enc_data p payload opts) st = Inr s" "fst s + length (enc_data p payload opts) = fst st"
    using put_room [OF assms] by blast
  moreover have "length payload \<le> length (enc_data p payload opts)" by (simp add: enc_data_def enc_block_def)
  then have "of_nat (fst st) - of_nat (length payload) - of_nat (fst s)
      = (of_nat (length (enc_data p payload opts) - length payload) :: u64)"
    unfolding s(2) [symmetric] by (simp only: of_nat_diff of_nat_add) (simp only: algebra_simps)
  moreover have "fst st - fst s = length (enc_data p payload opts)" using s(2) by linarith
  ultimately show ?thesis by simp
qed

text \<open>
  A data packet is composed completely or not at all, but the position the composer reports
  for the payload is the one it would have without the signature behind it: the payload begins
  seven bytes earlier.
\<close>

lemma content_position_wrong:
  assumes "valid_wbuf (off, buf)" "length (enc_data p payload opts) \<le> off"
  shows "\<exists>off' buf' pos. ccnl_ndntlv_prependContent p payload opts (off, buf)
        = Inr ((off', buf'), length (enc_data p payload opts), of_nat pos)
     \<and> drop off' buf' = enc_data p payload opts @ drop off buf
     \<and> 7 \<le> pos \<and> take (length payload) (drop (pos - 7) (drop off' buf')) = payload"
proof -
  let ?D = "enc_data p payload opts"
  obtain s where s: "put ?D (off, buf) = Inr s"
    "ccnl_ndntlv_prependContent p payload opts (off, buf) = Inr (s, length ?D, of_nat (length ?D - length payload))"
    using content_put assms by fastforce
  have d: "drop (fst s) (snd s) = ?D @ drop off buf"
    using s(1) assms by (auto simp: put_def valid_wbuf_def split: if_splits)
  obtain h where h: "?D = h @ payload @ enc_signature"
    by (simp add: enc_data_def enc_block_def)
  have "length ?D - length payload = length h + 7" using h by (simp add: length_enc_signature)
  moreover have "take (length payload) (drop (length h + 7 - 7) (drop (fst s) (snd s))) = payload"
    unfolding d h by simp
  ultimately show ?thesis using s(2) d by (intro exI [of _ "fst s"] exI [of _ "snd s"] exI [of _ "length h + 7"]) simp
qed

subsection \<open>Building an interest (ccnl-pkt-builder.c)\<close>

definition CCNL_MAX_PACKET_SIZE :: nat where "CCNL_MAX_PACKET_SIZE = 8096"

text \<open>
  \<open>random\<close> is what \<open>prandom_u32\<close> returns. For a name of another packet format nothing is written
  and the length stays 0.
\<close>

definition ccnl_mkInterestK ::
    "u32 \<Rightarrow> ccnl_prefix_s \<Rightarrow> ccnl_ndntlv_interest_opts_s option \<Rightarrow> wbuf \<Rightarrow> int + wbuf \<times> nat" where
  "ccnl_mkInterestK random name opts st =
    (if px_suite name = CCNL_SUITE_NDNTLV then
       (let opts = (case opts of None \<Rightarrow> \<lparr>io_nonce = 0, io_mustbefresh = 0, io_interestlifetime = 0\<rparr> | Some opts \<Rightarrow> opts);
            opts = (if io_nonce opts = 0 then opts\<lparr>io_nonce := random\<rparr> else opts)
        in ccnl_ndntlv_prependInterestK name (-1) opts st)
     else Inr (st, 0))"

text \<open>
  The packet, copied out of a temporary buffer whose first contents do not matter. The second result
  says whether the temporary buffer was leaked.
\<close>

definition ccnl_mkSimpleInterestK ::
    "ccn_mem \<Rightarrow> u32 \<Rightarrow> ccnl_prefix_s \<Rightarrow> ccnl_ndntlv_interest_opts_s option \<Rightarrow> bytes option \<times> bool" where
  "ccnl_mkSimpleInterestK al random name opts =
    (if \<not> al C_tmp then (None, False)
     else case ccnl_mkInterestK random name opts (CCNL_MAX_PACKET_SIZE, replicate CCNL_MAX_PACKET_SIZE 0) of
            Inl _ \<Rightarrow> (None, False)
          | Inr ((offs, tmp), len) \<Rightarrow>
              if 0 < len then
                (if \<not> al C_buf then (None, True) else (Some (take len (drop offs tmp)), False))
              else (None, False))"

lemma enc_tlval_not_empty: "enc_tlval v \<noteq> []"
  by (simp add: enc_tlval_def)

lemma enc_block_not_empty: "enc_block x \<noteq> []"
  by (simp add: enc_block_def enc_tl_def enc_tlval_not_empty)

lemma mkSimpleInterestK_eq:
  assumes "px_suite name = CCNL_SUITE_NDNTLV" "io_nonce opts \<noteq> 0" "al C_tmp" "al C_buf"
  shows "ccnl_mkSimpleInterestK al random name (Some opts) =
    (if length (enc_interest name (-1) opts) \<le> CCNL_MAX_PACKET_SIZE then Some (enc_interest name (-1) opts) else None, False)"
proof -
  let ?st = "(CCNL_MAX_PACKET_SIZE, replicate CCNL_MAX_PACKET_SIZE 0)" and ?e = "enc_interest name (-1) opts"
  have "valid_wbuf ?st" by (simp add: valid_wbuf_def CCNL_MAX_PACKET_SIZE_def)
  then have "ccnl_mkInterestK random name (Some opts) ?st = or_fail (put ?e ?st) (\<lambda>s. Inr (s, fst ?st - fst s))"
    using assms(1,2) interestK_put by (simp add: ccnl_mkInterestK_def)
  moreover have "?e \<noteq> []" by (simp add: enc_interest_def enc_block_not_empty)
  ultimately show ?thesis
    using assms(3,4) by (auto simp: ccnl_mkSimpleInterestK_def put_def)
qed

end
