(* ===== verification/Pep_Ccn.thy ===== *)
theory Pep_Ccn
  imports Pep_Tcp Ccn_Ndntlv
begin

section \<open>CCN relays (ccn.c)\<close>

text \<open>
  The side of a proxy that turns the HTTP request of a client into an interest for a CCN relay,
  reached over UDP. The interest is built by the parts of ccn-lite the source file includes.
  Strings hold the characters before the terminating zero.
\<close>

subsection \<open>Parsing the request\<close>

definition is_space :: "char \<Rightarrow> bool" where
  "is_space c \<longleftrightarrow> (let n = of_char c :: nat in n = 32 \<or> (9 \<le> n \<and> n \<le> 13))"

text \<open>\<open>strstr\<close> for a non-empty needle, and one \<open>%s\<close> of \<open>sscanf\<close>: the word and the rest.\<close>

fun strstr :: "string \<Rightarrow> string \<Rightarrow> string option" where
  "strstr [] needle = None"
| "strstr (c # cs) needle = (if prefix needle (c # cs) then Some (c # cs) else strstr cs needle)"

definition scan_word :: "string \<Rightarrow> (string \<times> string) option" where
  "scan_word s =
    (let t = dropWhile is_space s; v = takeWhile (\<lambda>c. \<not> is_space c) t
     in if v = [] then None else Some (v, dropWhile (\<lambda>c. \<not> is_space c) t))"

text \<open>
  The result: \<open>content\<close>, \<open>url\<close> and whether a buffer was written past its end. Both are local
  arrays of 32 bytes of the caller.
\<close>

definition parse_request :: "string \<Rightarrow> string \<times> string \<times> bool" where
  "parse_request request =
    (let content = (case strstr request ''GET'' of None \<Rightarrow> ''''
                    | Some pos \<Rightarrow>
                       (case scan_word pos of None \<Rightarrow> ''''
                        | Some (_, rest) \<Rightarrow>
                           (case scan_word rest of None \<Rightarrow> '''' | Some (v, _) \<Rightarrow> v)));
         url = ''/ndn/test/'' @ content
     in (content, url, 32 \<le> length content \<or> 32 \<le> length url))"

subsection \<open>Forwarding the request\<close>

text \<open>
  What one request takes from outside: which allocations of ccn-lite succeed, the two random
  numbers, and the fields of the local variable \<open>int_opts\<close> that are never set and keep what the
  stack held. \<open>sent\<close> is the result of \<open>kernel_sendmsg\<close> for the interest.
\<close>

record ccn_call =
  cc_mem :: ccn_mem
  cc_nonce :: u32
  cc_random :: u32
  cc_mustbefresh :: u8
  cc_interestlifetime :: u32

definition uri_bytes :: "string \<Rightarrow> bytes" where
  "uri_bytes s = map of_char s"

definition pepdna_send_to_ccn_relay ::
    "ccn_call \<Rightarrow> (bytes \<Rightarrow> int) \<Rightarrow> nat \<Rightarrow> string \<Rightarrow> world \<Rightarrow> int \<times> world" where
  "pepdna_send_to_ccn_relay C sent s content w =
    (case ccnl_URItoPrefixK (cc_mem C) (uri_bytes content) CCNL_SUITE_NDNTLV None of
       None \<Rightarrow> (-1, if cc_mem C C_tmp then add_fault NullDeref w else w)
     | Some name \<Rightarrow>
        (case ccnl_mkSimpleInterestK (cc_mem C) (cc_random C) name
                (Some \<lparr>io_nonce = cc_nonce C, io_mustbefresh = cc_mustbefresh C,
                       io_interestlifetime = cc_interestlifetime C\<rparr>) of
           (None, _) \<Rightarrow> (-1, w)
         | (Some buf, _) \<Rightarrow> (sent buf, if 0 < sent buf then log_event (Ev_sent s buf) w else w)))"

definition pepdna_fwd_request ::
    "kenv \<Rightarrow> (nat \<Rightarrow> recv_result) \<Rightarrow> ccn_call \<Rightarrow> (bytes \<Rightarrow> int) \<Rightarrow> nat \<Rightarrow> nat \<Rightarrow> world \<Rightarrow>
       int \<times> world" where
  "pepdna_fwd_request E recv C sent from to w =
    (if \<not> kzalloc E A_buffer then (- ENOMEM, w)
     else
       (let (rc, buffer) = recv MAX_BUF_SIZE
        in if 0 < rc then
             (let w = (if int MAX_BUF_SIZE \<le> rc then add_fault Overflow w else w);
                  text = takeWhile (\<lambda>c. c \<noteq> CHR 0x00) (map (\<lambda>b. char_of (unat b)) buffer);
                  (content, url, over) = parse_request text;
                  w = (if over then add_fault Overflow w else w);
                  (rc, w) = pepdna_send_to_ccn_relay C sent to url w
              in (rc, w\<lparr>g_request_done := True\<rparr>))
           else (rc, w)))"

subsection \<open>Opening the UDP socket\<close>

definition pepdna_udp_open :: "kenv \<Rightarrow> nat \<Rightarrow> world \<Rightarrow> world" where
  "pepdna_udp_open E a w =
    (case g_cons w a of None \<Rightarrow> add_fault (UseAfterFree a) w
     | Some con \<Rightarrow>
       (if sock_create_kern E < 0 then w
        else
          (let (s, w) = new_socket new_sock w;
               daddr = (if CONFIG_LOCALHOST E then htonl INADDR_LOOPBACK else t_daddr (c_tuple con));
               w = pepdna_set_bufsize s (upd_sock s (\<lambda>k. k\<lparr>k_reuse := True\<rparr>) w);
               w = (if CONFIG_LOCALHOST E then pepdna_set_mark s PEPDNA_SOCK_MARK w else w)
           in if kernel_connect E < 0 then pepdna_con_put a (sock_release s w)
              else
                (let w = upd_sock s (\<lambda>k. k\<lparr>k_peer := Some (daddr, t_dest (c_tuple con))\<rparr>) w;
                     w = upd_con a (\<lambda>c. c\<lparr>c_rsock := Some s\<rparr>) w
                 in reinject_syn (E\<lparr>CONFIG_LOCAL_SENDER := False\<rparr>) a
                      (set_callback s DR_udp (UD_con a) w)))))"

subsection \<open>Work items\<close>

text \<open>The loop from the relay to the client ends after closing the connection.\<close>

fun c2i_loop :: "fwd_round list \<Rightarrow> nat \<Rightarrow> world \<Rightarrow> world option" where
  "c2i_loop rounds a w =
    (case g_cons w a of None \<Rightarrow> Some (add_fault (UseAfterFree a) w)
     | Some con \<Rightarrow>
        (if \<not> c_lflag con then Some w
         else case rounds of [] \<Rightarrow> None
              | (E, recv, rs) # rounds' \<Rightarrow>
                 (case pepdna_con_i2i_fwd E recv rs (c_rsock con) (c_lsock con) w of
                    (None, w) \<Rightarrow> None
                  | (Some rc, w) \<Rightarrow>
                      (if rc \<le> 0 then
                         (if rc = - EAGAIN then Some w else Some (pepdna_con_close E (Some a) w))
                       else c2i_loop rounds' a w))))"

declare c2i_loop.simps [simp del]

definition pepdna_con_c2i_work :: "fwd_round list \<Rightarrow> nat \<Rightarrow> world \<Rightarrow> world option" where
  "pepdna_con_c2i_work rounds a w = map_option (pepdna_con_put a) (c2i_loop rounds a w)"

text \<open>
  Towards the relay, the first data of the module's life is a request; whether it was
  forwarded is a global flag, shared by all connections.
\<close>

type_synonym i2c_round =
  "kenv \<times> (nat \<Rightarrow> recv_result) \<times> send_result list \<times> ccn_call \<times> (bytes \<Rightarrow> int)"

fun i2c_loop :: "i2c_round list \<Rightarrow> nat \<Rightarrow> world \<Rightarrow> world option" where
  "i2c_loop rounds a w =
    (case g_cons w a of None \<Rightarrow> Some (add_fault (UseAfterFree a) w)
     | Some con \<Rightarrow>
        (if \<not> c_lflag con then Some w
         else case rounds of [] \<Rightarrow> None
              | (E, recv, rs, C, sent) # rounds' \<Rightarrow>
                 (if \<not> g_request_done w then
                    (case (c_lsock con, c_rsock con) of
                       (Some f, Some t) \<Rightarrow>
                         (case pepdna_fwd_request E recv C sent f t w of
                            (rc, w) \<Rightarrow>
                              if rc \<le> 0 then Some (pepdna_con_close E (Some a) w)
                              else i2c_loop rounds' a w)
                     | _ \<Rightarrow> Some (add_fault NullDeref w))
                  else
                    (case pepdna_con_i2i_fwd E recv rs (c_lsock con) (c_rsock con) w of
                       (None, w) \<Rightarrow> None
                     | (Some rc, w) \<Rightarrow>
                         (if rc \<le> 0 then
                            (if rc = - EAGAIN then Some w else Some (pepdna_con_close E (Some a) w))
                          else i2c_loop rounds' a w)))))"

declare i2c_loop.simps [simp del]

definition pepdna_con_i2c_work :: "i2c_round list \<Rightarrow> nat \<Rightarrow> world \<Rightarrow> world option" where
  "pepdna_con_i2c_work rounds a w = map_option (pepdna_con_put a) (i2c_loop rounds a w)"

subsection \<open>The connection table stays well formed\<close>

lemma wf_send_to_relay: "wf_known I E (snd (pepdna_send_to_ccn_relay mk sent s c w)) = wf_known I E w"
  by (simp add: pepdna_send_to_ccn_relay_def split: option.splits prod.splits)

lemma wf_fwd_request:
  assumes "wf_known I E w"
  shows "wf_known I E (snd (pepdna_fwd_request E' recv mk sent f t w))"
proof -
  have "wf_known I E w2" if "pepdna_send_to_ccn_relay mk sent s c w1 = (x, w2)" "wf_known I E w1" for s c w1 x w2
    using that wf_send_to_relay [of I E mk sent s c w1] by simp
  with assms show ?thesis
    by (auto simp: pepdna_fwd_request_def Let_def split: prod.splits)
qed

lemma wf_udp_open: "wf_known I E w \<Longrightarrow> wf_known I E (pepdna_udp_open E' a w)"
  by (auto simp: pepdna_udp_open_def Let_def wf_tune wf_new_socket keeps_id_def pepdna_set_bufsize_def
      intro!: wf_con_put wf_reinject_syn wf_upd_con split: option.splits prod.splits)

lemma wf_c2i_loop: "wf_known I E w \<Longrightarrow> c2i_loop rounds a w = Some w' \<Longrightarrow> wf_known I E w'"
proof (induction rounds arbitrary: w)
  case Nil
  then show ?case by (subst (asm) c2i_loop.simps) (auto split: option.splits if_splits)
next
  case (Cons x rounds)
  obtain E' recv rs where x: "x = (E', recv, rs)" by (rule prod_cases3)
  show ?case
  proof (cases "g_cons w a")
    case (Some con)
    obtain rc w1 where rd: "pepdna_con_i2i_fwd E' recv rs (c_rsock con) (c_lsock con) w = (rc, w1)" by force
    have "wf_known I E w1" using wf_i2i_fwd [OF Cons.prems(1), of E' recv rs "c_rsock con" "c_lsock con"] rd by simp
    with Cons.IH Cons.prems wf_con_close' [OF this] show ?thesis
      by (auto simp: c2i_loop.simps [of "(E', recv, rs) # rounds" a w] Some rd x split: if_splits option.splits)
  qed (use Cons.prems in \<open>subst (asm) c2i_loop.simps, auto\<close>)
qed

lemma wf_i2c_loop: "wf_known I E w \<Longrightarrow> i2c_loop rounds a w = Some w' \<Longrightarrow> wf_known I E w'"
proof (induction rounds arbitrary: w)
  case Nil
  then show ?case by (subst (asm) i2c_loop.simps) (auto split: option.splits if_splits)
next
  case (Cons x rounds)
  obtain E' recv rs mk sent where x: "x = (E', recv, rs, mk, sent)" by (rule prod_cases5)
  show ?case
  proof (cases "g_cons w a")
    case (Some con)
    obtain rc w1 where rd: "pepdna_con_i2i_fwd E' recv rs (c_lsock con) (c_rsock con) w = (rc, w1)" by force
    have wf1: "wf_known I E w1" using wf_i2i_fwd [OF Cons.prems(1), of E' recv rs "c_lsock con" "c_rsock con"] rd by simp
    have wf2: "wf_known I E w2" if "pepdna_fwd_request E' recv mk sent f t w = (rc2, w2)" for f t rc2 w2
      using wf_fwd_request [OF Cons.prems(1), of E' recv mk sent f t] that by simp
    show ?thesis
      using Cons.IH Cons.prems wf1 wf2 wf_con_close'
      by (auto simp: i2c_loop.simps [of "(E', recv, rs, mk, sent) # rounds" a w] Some rd x
          split: if_splits option.splits prod.splits) blast+
  qed (use Cons.prems in \<open>subst (asm) i2c_loop.simps, auto\<close>)
qed

end
