(* ===== verification/Pep_Server.thy ===== *)
theory Pep_Server
  imports Pep_Rina Pep_Ccn
begin

section \<open>The server and the module (server.c, core.c, sysctl.c)\<close>

text \<open>
  Work queues, the netfilter hook that intercepts the SYN of a client, starting and stopping in
  each mode, and loading and unloading the module. Flushing a work queue runs what is pending
  on it: the argument \<open>flush\<close> is the effect of that, by the name of the queue.
\<close>

subsection \<open>Work queues\<close>

text \<open>The mode is compared as the unsigned integer that represents the enumeration.\<close>

definition enum_val :: "int \<Rightarrow> int" where "enum_val m = m mod 2 ^ 32"

definition destroy_wq :: "(pepdna_server \<Rightarrow> pepdna_server) \<Rightarrow> world \<Rightarrow> world" where
  "destroy_wq clear w = (upd_srv clear w)\<lparr>g_wqs := g_wqs w - 1\<rparr>"

definition add_wq :: "(pepdna_server \<Rightarrow> pepdna_server) \<Rightarrow> world \<Rightarrow> world" where
  "add_wq f w = (upd_srv f w)\<lparr>g_wqs := g_wqs w + 1\<rparr>"

abbreviation clear_l2r :: "pepdna_server \<Rightarrow> pepdna_server" where "clear_l2r \<equiv> s_l2r_wq_update (\<lambda>_. False)"
abbreviation clear_r2l :: "pepdna_server \<Rightarrow> pepdna_server" where "clear_r2l \<equiv> s_r2l_wq_update (\<lambda>_. False)"
abbreviation clear_accept :: "pepdna_server \<Rightarrow> pepdna_server" where
  "clear_accept \<equiv> s_accept_wq_update (\<lambda>_. False)"
abbreviation clear_tcfa :: "pepdna_server \<Rightarrow> pepdna_server" where "clear_tcfa \<equiv> s_tcfa_wq_update (\<lambda>_. False)"

definition pepdna_work_init :: "kenv \<Rightarrow> world \<Rightarrow> int \<times> world" where
  "pepdna_work_init E w =
    (case g_srv w of
       Null \<Rightarrow> (- ENOMEM, add_fault NullDeref w)
     | Freed \<Rightarrow> (- ENOMEM, add_fault (UseAfterFree 0) w)
     | Live srv \<Rightarrow>
       (if \<not> alloc_workqueue E ''l2r_wq'' then (- ENOMEM, w)
        else
          (let w = add_wq (s_l2r_wq_update (\<lambda>_. True)) w
           in if \<not> alloc_workqueue E ''r2l_wq'' then (- ENOMEM, destroy_wq clear_l2r w)
              else
                (let w = add_wq (s_r2l_wq_update (\<lambda>_. True)) w
                 in if \<not> alloc_workqueue E ''accept_wq''
                    then (- ENOMEM, destroy_wq clear_l2r (destroy_wq clear_r2l w))
                    else
                      (let w = add_wq (s_accept_wq_update (\<lambda>_. True)) w
                       in if enum_val (s_mode srv) < 6 then
                            (if \<not> alloc_workqueue E ''connect_alloc_wq''
                             then (- ENOMEM, destroy_wq clear_l2r (destroy_wq clear_r2l
                                               (destroy_wq clear_accept w)))
                             else (0, add_wq (s_tcfa_wq_update (\<lambda>_. True)) w))
                          else (0, w))))))"

definition stop_wq ::
    "(string \<Rightarrow> world \<Rightarrow> world) \<Rightarrow> string \<Rightarrow> (pepdna_server \<Rightarrow> bool) \<Rightarrow> (pepdna_server \<Rightarrow> pepdna_server) \<Rightarrow>
       world \<Rightarrow> world" where
  "stop_wq flush name present clear w =
    (case g_srv w of
       Null \<Rightarrow> add_fault NullDeref w
     | Freed \<Rightarrow> add_fault (UseAfterFree 0) w
     | Live srv \<Rightarrow> if present srv then destroy_wq clear (flush name w) else w)"

definition pepdna_work_stop :: "(string \<Rightarrow> world \<Rightarrow> world) \<Rightarrow> world \<Rightarrow> world" where
  "pepdna_work_stop flush w =
     stop_wq flush ''l2r_wq'' s_l2r_wq clear_l2r
       (stop_wq flush ''accept_wq'' s_accept_wq clear_accept
         (stop_wq flush ''connect_alloc_wq'' s_tcfa_wq clear_tcfa
           (stop_wq flush ''r2l_wq'' s_r2l_wq clear_r2l w)))"

subsection \<open>The netfilter hook\<close>

datatype verdict = NF_DROP | NF_ACCEPT | NF_STOLEN

definition IPPROTO_TCP :: u8 where "IPPROTO_TCP = 6"
definition SSH_PORT :: u16 where "SSH_PORT = 22"

text \<open>\<open>ts\<close> is the time that \<open>ktime_get_real_fast_ns\<close> returns.\<close>

definition pepdna_pre_hook :: "kenv \<Rightarrow> u64 \<Rightarrow> tcp_skb option \<Rightarrow> world \<Rightarrow> verdict \<times> world" where
  "pepdna_pre_hook E ts skb w =
    (case skb of None \<Rightarrow> (NF_ACCEPT, w)
     | Some p \<Rightarrow>
       (if p_protocol p = IPPROTO_TCP \<and> p_syn p \<and> \<not> p_ack p \<and> \<not> p_rst p then
          (if (CONFIG_LOCAL_SENDER E \<or> CONFIG_LOCAL_RECEIVER E) \<and> p_mark p = PEPDNA_SOCK_MARK
           then (NF_ACCEPT, w)
           else if ntohs (p_dest p) = SSH_PORT then (NF_ACCEPT, w)
           else
             (let hash_id = pepdna_hash32_rjenkins1_2 (p_saddr p) (p_source p)
              in case pepdna_con_find E hash_id w of
                   None \<Rightarrow>
                     (if \<not> kzalloc E A_syn then (NF_DROP, w)
                      else
                        (let syn = \<lparr>t_saddr = p_saddr p, t_source = p_source p,
                                    t_daddr = p_daddr p, t_dest = p_dest p\<rparr>;
                             p = p\<lparr>p_tstamp := ts\<rparr>
                         in case pepdna_con_alloc E syn (Some p) hash_id ts 0 w of
                              (None, w) \<Rightarrow> (NF_DROP, w)
                            | (Some _, w) \<Rightarrow> (NF_STOLEN, w)))
                 | Some a \<Rightarrow>
                     (case g_cons w a of None \<Rightarrow> (NF_DROP, add_fault (UseAfterFree a) w)
                      | Some con \<Rightarrow>
                          if p_tstamp p \<noteq> c_ts con then (NF_DROP, w) else (NF_ACCEPT, w))))
        else (NF_ACCEPT, w)))"

subsection \<open>Starting in each mode\<close>

definition init_accept_work :: "world \<Rightarrow> world" where
  "init_accept_work w = upd_srv (\<lambda>srv. srv\<lparr>s_accept_work := True\<rparr>) w"

definition register_hooks :: "world \<Rightarrow> world" where
  "register_hooks w = w\<lparr>g_hooks := g_hooks w + 1\<rparr>"

definition dev_add_pack :: "world \<Rightarrow> world" where
  "dev_add_pack w = w\<lparr>g_pack := True\<rparr>"

definition pepdna_i2i_start :: "kenv \<Rightarrow> (string \<Rightarrow> world \<Rightarrow> world) \<Rightarrow> world \<Rightarrow> int \<times> world" where
  "pepdna_i2i_start E flush w =
    (case pepdna_work_init E (init_accept_work w) of (rc, w) \<Rightarrow>
       if rc < 0 then (rc, w)
       else case pepdna_tcp_listen_init E w of (rc, w) \<Rightarrow>
              if rc < 0 then (rc, pepdna_work_stop flush w)
              else (0, register_hooks w))"

definition pepdna_r2i_start :: "kenv \<Rightarrow> world \<Rightarrow> int \<times> world" where
  "pepdna_r2i_start E w =
    (case pepdna_netlink_init E w of (rc, w) \<Rightarrow>
       if rc < 0 then (rc, w)
       else case pepdna_work_init E w of (rc, w) \<Rightarrow>
              if rc < 0 then (rc, pepdna_netlink_stop w) else (0, w))"

definition pepdna_i2r_start :: "kenv \<Rightarrow> (string \<Rightarrow> world \<Rightarrow> world) \<Rightarrow> world \<Rightarrow> int \<times> world" where
  "pepdna_i2r_start E flush w =
    (case pepdna_netlink_init E (init_accept_work w) of (rc, w) \<Rightarrow>
       if rc < 0 then (rc, w)
       else case pepdna_work_init E w of (rc, w) \<Rightarrow>
         if rc < 0 then (rc, pepdna_netlink_stop w)
         else case pepdna_tcp_listen_init E w of (rc, w) \<Rightarrow>
                if rc < 0 then (rc, pepdna_work_stop flush (pepdna_netlink_stop w))
                else (0, register_hooks w))"

definition pepdna_r2r_start :: "world \<Rightarrow> int \<times> world" where
  "pepdna_r2r_start w = (0, w)"

definition pepdna_m2i_start :: "kenv \<Rightarrow> world \<Rightarrow> int \<times> world" where
  "pepdna_m2i_start E w =
    (case pepdna_work_init E w of (rc, w) \<Rightarrow>
       if rc < 0 then (rc, w) else (0, dev_add_pack w))"

definition pepdna_i2m_start :: "kenv \<Rightarrow> (string \<Rightarrow> world \<Rightarrow> world) \<Rightarrow> world \<Rightarrow> int \<times> world" where
  "pepdna_i2m_start E flush w =
    (case pepdna_work_init E (init_accept_work w) of (rc, w) \<Rightarrow>
       if rc < 0 then (rc, pepdna_netlink_stop w)
       else case pepdna_tcp_listen_init E w of (rc, w) \<Rightarrow>
              if rc < 0 then (rc, pepdna_work_stop flush w)
              else (0, dev_add_pack (register_hooks w)))"

definition pepdna_i2c_start :: "kenv \<Rightarrow> (string \<Rightarrow> world \<Rightarrow> world) \<Rightarrow> world \<Rightarrow> int \<times> world" where
  "pepdna_i2c_start E flush w =
    (case pepdna_work_init E (init_accept_work w) of (rc, w) \<Rightarrow>
       if rc < 0 then (rc, w)
       else case pepdna_tcp_listen_init E w of (rc, w) \<Rightarrow>
              if rc < 0 then (rc, pepdna_work_stop flush w)
              else (0, register_hooks w))"

definition pepdna_c2i_start :: "world \<Rightarrow> int \<times> world" where
  "pepdna_c2i_start w = (0, w)"

definition pepdna_c2c_start :: "world \<Rightarrow> int \<times> world" where
  "pepdna_c2c_start w = (0, w)"

subsection \<open>Server start and stop\<close>

text \<open>
  \<open>mac_pton\<close>: six pairs of hexadecimal digits separated by colons; what follows is ignored,
  and on a malformed string the destination keeps its zeros.
\<close>

definition hex_digit :: "char \<Rightarrow> nat option" where
  "hex_digit c =
    (let n = of_char c :: nat
     in if 48 \<le> n \<and> n \<le> 57 then Some (n - 48)
        else if 97 \<le> n \<and> n \<le> 102 then Some (n - 87)
        else if 65 \<le> n \<and> n \<le> 70 then Some (n - 55) else None)"

fun mac_groups :: "nat \<Rightarrow> string \<Rightarrow> bytes option" where
  "mac_groups 0 s = Some []"
| "mac_groups (Suc n) (a # b # rest) =
    (case (hex_digit a, hex_digit b) of
       (Some x, Some y) \<Rightarrow>
         (if n = 0 then Some [word_of_nat (16 * x + y)]
          else case rest of
                 [] \<Rightarrow> None
               | c # rest' \<Rightarrow>
                  (if c = CHR '':'' then map_option ((#) (word_of_nat (16 * x + y))) (mac_groups n rest')
                   else None))
     | _ \<Rightarrow> None)"
| "mac_groups (Suc n) _ = None"

definition mac_pton :: "string \<Rightarrow> bytes option" where
  "mac_pton s = mac_groups 6 s"

definition init_pepdna_server :: "kenv \<Rightarrow> string option \<Rightarrow> world \<Rightarrow> world" where
  "init_pepdna_server E macstr w =
     w\<lparr>g_srv := Live
       \<lparr>s_mode = g_mode w, s_l2r_wq = False, s_r2l_wq = False, s_tcfa_wq = False, s_accept_wq = False,
        s_accept_work = False, s_listener = None, s_port = g_port w,
        s_to_mac = (if CONFIG_MINIP E then
                      (case macstr of None \<Rightarrow> replicate 6 0
                       | Some m \<Rightarrow> (case mac_pton m of None \<Rightarrow> replicate 6 0 | Some b \<Rightarrow> b))
                    else []),
        s_htable = (\<lambda>_. []), s_conns = 0\<rparr>\<rparr>"

text \<open>The start function of a mode; \<open>None\<close> is the default case of the switch.\<close>

definition start_mode ::
    "kenv \<Rightarrow> (string \<Rightarrow> world \<Rightarrow> world) \<Rightarrow> int \<Rightarrow> world \<Rightarrow> (int \<times> world) option" where
  "start_mode E flush mode w =
    (case mode_of mode of
       Some TCP2TCP \<Rightarrow> Some (pepdna_i2i_start E flush w)
     | Some TCP2RINA \<Rightarrow> if CONFIG_RINA E then Some (pepdna_i2r_start E flush w) else None
     | Some RINA2TCP \<Rightarrow> if CONFIG_RINA E then Some (pepdna_r2i_start E w) else None
     | Some RINA2RINA \<Rightarrow> if CONFIG_RINA E then Some (pepdna_r2r_start w) else None
     | Some TCP2CCN \<Rightarrow> if CONFIG_CCN E then Some (pepdna_i2c_start E flush w) else None
     | Some CCN2TCP \<Rightarrow> if CONFIG_CCN E then Some (pepdna_c2i_start w) else None
     | Some CCN2CCN \<Rightarrow> if CONFIG_CCN E then Some (pepdna_c2c_start w) else None
     | Some TCP2MINIP \<Rightarrow> if CONFIG_MINIP E then Some (pepdna_i2m_start E flush w) else None
     | Some MINIP2TCP \<Rightarrow> if CONFIG_MINIP E then Some (pepdna_m2i_start E w) else None
     | None \<Rightarrow> None)"

text \<open>On failure the server is freed, while the global pointer to it stays.\<close>

definition pepdna_server_start ::
    "kenv \<Rightarrow> (string \<Rightarrow> world \<Rightarrow> world) \<Rightarrow> string option \<Rightarrow> world \<Rightarrow> int \<times> world" where
  "pepdna_server_start E flush macstr w =
    (if \<not> kzalloc E A_server then (- ENOMEM, w)
     else
       (let w = init_pepdna_server E macstr w
        in case start_mode E flush (g_mode w) w of
             None \<Rightarrow> (-1, w\<lparr>g_srv := Freed\<rparr>)
           | Some (rc, w) \<Rightarrow> if rc < 0 then (-1, w\<lparr>g_srv := Freed\<rparr>) else (0, w)))"

text \<open>
  Stopping: the loop over the connections walks the chain that the array \<open>htable\<close>, used as a
  pointer, refers to, which is its first bucket.
\<close>

definition close_bucket :: "kenv \<Rightarrow> nat list \<Rightarrow> world \<Rightarrow> world" where
  "close_bucket E chain w = foldl (\<lambda>w a. pepdna_con_close E (Some a) w) w chain"

definition pepdna_server_stop ::
    "kenv \<Rightarrow> (string \<Rightarrow> world \<Rightarrow> world) \<Rightarrow> accept_result list \<Rightarrow> world \<Rightarrow> world" where
  "pepdna_server_stop E flush pend w =
    (case g_srv w of
       Null \<Rightarrow> add_fault NullDeref w
     | Freed \<Rightarrow> add_fault (UseAfterFree 0) w
     | Live srv \<Rightarrow>
       (let w = (if enum_val (s_mode srv) < 4 then w\<lparr>g_hooks := g_hooks w - 1\<rparr> else w);
            w = (if s_conns srv \<noteq> 0 then close_bucket E (s_htable srv 0) w else w);
            w = pepdna_netlink_stop w;
            w = upd_srv (\<lambda>srv. srv\<lparr>s_listener := None\<rparr>) w;
            w = pepdna_tcp_listen_stop pend (s_listener srv) w;
            w = pepdna_work_stop flush w;
            w = (if CONFIG_MINIP E then w\<lparr>g_pack := False\<rparr> else w)
        in w\<lparr>g_srv := Null\<rparr>))"

subsection \<open>Loading and unloading\<close>

definition RCVBUF_DEF :: int where "RCVBUF_DEF = 8 * 1024 * 1024"
definition SNDBUF_DEF :: int where "SNDBUF_DEF = 8 * 1024 * 1024"

definition pepdna_register_sysctl :: "kenv \<Rightarrow> world \<Rightarrow> int \<times> world" where
  "pepdna_register_sysctl E w =
    (if \<not> register_net_sysctl E then (- ENOMEM, w) else (0, w\<lparr>g_sysctl := True\<rparr>))"

definition pepdna_unregister_sysctl :: "world \<Rightarrow> world" where
  "pepdna_unregister_sysctl w = w\<lparr>g_sysctl := False\<rparr>"

definition get_mode_name :: "int \<Rightarrow> string" where
  "get_mode_name mode =
    (if mode = 0 then ''TCP2TCP'' else if mode = 1 then ''TCP2RINA''
     else if mode = 2 then ''TCP2CCN'' else if mode = 3 then ''TCP2MINIP''
     else if mode = 4 then ''RINA2TCP'' else if mode = 5 then ''MINIP2TCP''
     else if mode = 6 then ''CCN2TCP'' else if mode = 7 then ''RINA2RINA''
     else if mode = 8 then ''CCN2CCN'' else ''ERROR'')"

definition pepdna_init ::
    "kenv \<Rightarrow> (string \<Rightarrow> world \<Rightarrow> world) \<Rightarrow> string option \<Rightarrow> world \<Rightarrow> int \<times> world" where
  "pepdna_init E flush macstr w =
    (let w = w\<lparr>g_rmem := [RCVBUF_DEF, RCVBUF_DEF, RCVBUF_DEF],
               g_wmem := [SNDBUF_DEF, SNDBUF_DEF, SNDBUF_DEF]\<rparr>
     in case pepdna_register_sysctl E w of (rc, w) \<Rightarrow>
          if rc \<noteq> 0 then (rc, w)
          else case pepdna_server_start E flush macstr w of (rc, w) \<Rightarrow>
                 if rc < 0 then (rc, pepdna_unregister_sysctl w) else (0, w))"

definition pepdna_exit ::
    "kenv \<Rightarrow> (string \<Rightarrow> world \<Rightarrow> world) \<Rightarrow> accept_result list \<Rightarrow> world \<Rightarrow> world" where
  "pepdna_exit E flush pend w = pepdna_unregister_sysctl (pepdna_server_stop E flush pend w)"

subsection \<open>Work queues are allocated all or none\<close>

definition wq_flags :: "pepdna_server \<Rightarrow> bool list" where
  "wq_flags srv = [s_l2r_wq srv, s_r2l_wq srv, s_accept_wq srv, s_tcfa_wq srv]"

text \<open>
  Creating the work queues of a server is all or nothing: either it returns 0 with the
  queues of its mode in place (the fourth one for the six modes below 6), or it returns
  \<open>-ENOMEM\<close> and every queue allocated on the way was destroyed and its pointer cleared.
\<close>

lemma work_init_all_or_nothing:
  assumes "g_srv w = Live srv" "wq_flags srv = [False, False, False, False]"
    and "pepdna_work_init E w = (rc, w')"
  shows "\<exists>srv'. g_srv w' = Live srv'
     \<and> (if rc = 0 then wq_flags srv' = [True, True, True, enum_val (s_mode srv) < 6]
          \<and> g_wqs w' = g_wqs w + (if enum_val (s_mode srv) < 6 then 4 else 3)
        else rc = - ENOMEM \<and> wq_flags srv' = [False, False, False, False] \<and> g_wqs w' = g_wqs w)"
  using assms
  by (auto simp: pepdna_work_init_def add_wq_def destroy_wq_def upd_srv_def Let_def wq_flags_def
      split: if_splits)

subsection \<open>Intercepting clients\<close>

definition plain_syn :: "tcp_skb \<Rightarrow> bool" where
  "plain_syn p \<longleftrightarrow> p_protocol p = IPPROTO_TCP \<and> p_syn p \<and> \<not> p_ack p \<and> \<not> p_rst p"

definition own_syn :: "kenv \<Rightarrow> tcp_skb \<Rightarrow> bool" where
  "own_syn E p \<longleftrightarrow> (CONFIG_LOCAL_SENDER E \<or> CONFIG_LOCAL_RECEIVER E) \<and> p_mark p = PEPDNA_SOCK_MARK"

definition client_hash :: "tcp_skb \<Rightarrow> u32" where
  "client_hash p = pepdna_hash32_rjenkins1_2 (p_saddr p) (p_source p)"

text \<open>
  C26. The hook touches only the SYN packets of clients. Any other packet, a SYN of
  the proxy itself and a SYN to port 22 pass unchanged. A client's SYN is stolen if it is the
  first of its address and port, passes if it is the stored packet that was given back (it
  carries the time stamp of the connection), and is dropped as a duplicate otherwise.
\<close>

theorem pre_hook_verdict:
  assumes "wf_world E w" "healthy E" "(g_next w, TCFA) \<notin> set (g_pending w)"
  shows "fst (pepdna_pre_hook E ts (Some p) w) =
     (if \<not> plain_syn p \<or> own_syn E p \<or> ntohs (p_dest p) = SSH_PORT then NF_ACCEPT
      else case pepdna_con_find E (client_hash p) w of
             None \<Rightarrow> NF_STOLEN
           | Some a \<Rightarrow> (case g_cons w a of None \<Rightarrow> NF_DROP
                        | Some con \<Rightarrow> if p_tstamp p = c_ts con then NF_ACCEPT else NF_DROP))
   \<and> (fst (pepdna_pre_hook E ts (Some p) w) \<noteq> NF_STOLEN \<longrightarrow>
        snd (pepdna_pre_hook E ts (Some p) w) = w)"
proof -
  have alloc: "kzalloc E x" for x using assms(2) by (simp add: healthy_def)
  obtain srv where srv: "g_srv w = Live srv" using wf_world_live [OF assms(1)] by blast
  note ok = con_alloc_ok [OF srv alloc wf_world_mode [OF assms(1) srv] _ assms(3)]
  have live: "g_cons w a \<noteq> None" if "pepdna_con_find E k w = Some a" for k a
    using con_find_sound [OF assms(1) that] by auto
  show ?thesis
  proof (cases "\<not> plain_syn p \<or> own_syn E p \<or> ntohs (p_dest p) = SSH_PORT")
    case True
    then show ?thesis
      by (auto simp: pepdna_pre_hook_def plain_syn_def own_syn_def)
  next
    case False
    then show ?thesis
      using ok alloc live
      by (auto simp: pepdna_pre_hook_def plain_syn_def own_syn_def client_hash_def Let_def
          split: option.splits) (metis live option.distinct(1))+
  qed
qed

text \<open>A SYN that was stolen has a connection of its own, known by the address and port of the client.\<close>

definition syn_of :: "tcp_skb \<Rightarrow> syn_tuple" where
  "syn_of p = \<lparr>t_saddr = p_saddr p, t_source = p_source p, t_daddr = p_daddr p, t_dest = p_dest p\<rparr>"

lemma pre_hook_stolen:
  assumes "wf_world E w" "pepdna_pre_hook E ts (Some p) w = (NF_STOLEN, w')"
  shows "wf_known [g_next w \<mapsto> (client_hash p, syn_of p)] E w'"
proof -
  obtain skb a where "pepdna_con_alloc E (syn_of p) skb (client_hash p) ts 0 w = (Some a, w')"
    using assms(2) by (auto simp: pepdna_pre_hook_def client_hash_def syn_of_def Let_def split: if_splits option.splits prod.splits)
  from con_alloc_known [OF assms(1) this] show ?thesis by blast
qed

definition ex_client :: tcp_skb where
  "ex_client = ex_syn\<lparr>p_dest := htons 80\<rparr>"

lemma ex_client_simps: "plain_syn ex_client" "\<not> own_syn sample_env ex_client" "ntohs (p_dest ex_client) \<noteq> SSH_PORT"
  by (simp_all add: plain_syn_def own_syn_def ex_client_def ex_syn_def IPPROTO_TCP_def SSH_PORT_def sample_env_def)

lemma wf_sample_world: "con_works E (mode_code m) \<noteq> None \<Longrightarrow> wf_world E (sample_world m)"
  by (simp add: wf_known_def sample_world_def sample_srv_def)

lemma sample_modes:
  "g_srv (sample_world m) = Live (sample_srv m)" "s_mode (sample_srv m) = mode_code m"
  "con_works sample_env (s_mode (sample_srv TCP2TCP)) \<noteq> None"
  "(g_next (sample_world m), TCFA) \<notin> set (g_pending (sample_world m))"
  unfolding sample_srv_def pepdna_server.select_convs con_works_def mode_of_code
  by (simp_all add: sample_world_def sample_srv_def)

theorem pre_hook_verdict_witness:
  "fst (pepdna_pre_hook sample_env 5 (Some ex_client) (sample_world TCP2TCP)) = NF_STOLEN
   \<and> fst (pepdna_pre_hook sample_env 5 (Some (ex_client\<lparr>p_ack := True\<rparr>)) (sample_world TCP2TCP)) = NF_ACCEPT"
proof -
  have "pepdna_con_find sample_env k (sample_world TCP2TCP) = None" for k
    by (simp add: pepdna_con_find_def sample_world_def sample_srv_def)
  moreover have "\<not> plain_syn (ex_client\<lparr>p_ack := True\<rparr>)" by (simp add: plain_syn_def)
  moreover have wf: "wf_world sample_env (sample_world TCP2TCP)" by (rule wf_sample_world) (simp add: sample_works)
  ultimately show ?thesis
    using pre_hook_verdict [OF wf healthy_sample sample_modes(4), of 5 ex_client]
      pre_hook_verdict [OF wf healthy_sample sample_modes(4), of 5 "ex_client\<lparr>p_ack := True\<rparr>"]
      ex_client_simps by simp
qed

lemma identify_ok:
  assumes "kzalloc E A_addr" "0 \<le> kernel_getname E s" "g_socks w s = Some k" "k_peer k = Some (ip, port)"
  shows "identify_client E s w = (pepdna_hash32_rjenkins1_2 ip port, w)"
  using assms by (simp add: identify_client_def)

text \<open>
  A data-ready callback of any socket changes nothing of a connection but its count, and what was
  pending stays pending.
\<close>

lemma con_get_and_queue_frame:
  assumes "wf_world E w" "g_cons w b \<noteq> None" "g_cons w a = Some c"
  shows "(\<exists>n. g_cons (con_get_and_queue b slot w) a = Some (c\<lparr>c_kref := n\<rparr>))
    \<and> set (g_pending w) \<subseteq> set (g_pending (con_get_and_queue b slot w))"
proof -
  obtain d where d: "g_cons w b = Some d" using assms(2) by blast
  have same: "\<exists>n. c = c\<lparr>c_kref := n\<rparr>" by (rule exI [of _ "c_kref c"]) simp
  show ?thesis
    unfolding con_get_and_queue_live [OF d wf_world_kref [OF assms(1) d]]
    using d assms(3) same by auto
qed

lemma data_ready_frame:
  assumes "wf_world E w" "g_cons w a = Some c"
  shows "(\<exists>n. g_cons (sk_data_ready s w) a = Some (c\<lparr>c_kref := n\<rparr>))
    \<and> set (g_pending w) \<subseteq> set (g_pending (sk_data_ready s w))"
proof -
  have same: "\<exists>n. g_cons v a = Some (c\<lparr>c_kref := n\<rparr>)" if "g_cons v a = Some c" for v
    using that by (intro exI [of _ "c_kref c"]) simp
  have faulty: "g_cons (add_fault f w) = g_cons w" "g_pending (add_fault f w) = g_pending w" for f
    by (simp_all add: add_fault_def)
  show ?thesis
    using same [OF assms(2)] same [of "w\<lparr>g_accept_pending := True\<rparr>"] assms(2)
      con_get_and_queue_frame [OF assms(1) _ assms(2)]
    by (simp add: faulty sk_data_ready_def pepdna_tcp_listen_data_ready_def pepdna_l2r_conn_data_ready_def
        pepdna_r2l_conn_data_ready_def pepdna_udp_data_ready_def
        split: option.split data_ready.split user_data.split)
qed

lemma wake_both_ok:
  assumes "wf_world E w" "g_cons w a = Some c" "c_lflag c" "0 < c_kref c"
    and "g_socks w s = Some k" "k_data_ready k = DR_l2r" "k_user_data k = UD_con a"
  shows "(\<exists>n. g_cons (wake_both a s w) a = Some (c\<lparr>c_kref := n\<rparr>))
    \<and> insert (a, L2R) (set (g_pending w)) \<subseteq> set (g_pending (wake_both a s w))"
proof -
  let ?w = "con_get_and_queue a L2R w"
  have ready: "sk_data_ready s w = ?w"
    using assms by (simp add: sk_data_ready_def pepdna_l2r_conn_data_ready_def lconnected_def)
  obtain n where n: "g_cons ?w a = Some (c\<lparr>c_kref := n\<rparr>)"
    using con_get_and_queue_con [OF assms(2,4)] by blast
  have pend: "insert (a, L2R) (set (g_pending w)) \<subseteq> set (g_pending ?w)"
    unfolding con_get_and_queue_live [OF assms(2,4)] by auto
  have wf: "wf_world E ?w" using wf_con_get_and_queue [OF assms(1)] .
  show ?thesis
  proof (cases "c_rsock c")
    case None
    then show ?thesis using ready n pend by (auto simp: wake_both_def)
  next
    case (Some r)
    then have "wake_both a s w = sk_data_ready r ?w" using ready n by (simp add: wake_both_def)
    then show ?thesis using data_ready_frame [OF wf n, of r] pend by auto
  qed
qed

text \<open>
  Accepting a client whose connection is found: its socket becomes the left side of the connection,
  both sides count as connected, and forwarding of what the client sends is queued (in the mode
  TCP2RINA the other direction too, if it was not pending; else the accept fails).
\<close>

definition attached :: "nat \<Rightarrow> nat \<Rightarrow> pepdna_con \<Rightarrow> world \<Rightarrow> bool" where
  "attached a s con w \<longleftrightarrow>
     (case g_cons w a of None \<Rightarrow> False
      | Some c \<Rightarrow> c = con\<lparr>c_lsock := Some s, c_lflag := True, c_rflag := True, c_kref := c_kref c\<rparr>)"

lemma accept_client_ok:
  assumes "wf_world E w" "g_srv w = Live srv" "kzalloc E' A_addr" "0 \<le> kernel_getname E' (g_next_sock w)"
    and "mode_of (s_mode srv) = Some TCP2RINA \<Longrightarrow> (a, R2L) \<notin> set (g_pending w)"
    and "pepdna_con_find E' (pepdna_hash32_rjenkins1_2 ip port) w = Some a" "g_cons w a = Some con"
  shows "\<exists>w2. accept_client E' (ip, port) w = (None, w2) \<and> attached a (g_next_sock w) con w2
     \<and> (a, L2R) \<in> set (g_pending w2)
     \<and> (mode_of (s_mode srv) = Some TCP2RINA \<longrightarrow> (a, R2L) \<in> set (g_pending w2))"
proof -
  let ?s = "g_next_sock w" and ?k = "new_sock\<lparr>k_peer := Some (ip, port)\<rparr>"
  let ?w1 = "w\<lparr>g_next_sock := ?s + 1, g_socks := (g_socks w)(?s \<mapsto> ?k)\<rparr>"
  have ic: "identify_client E' ?s ?w1 = (pepdna_hash32_rjenkins1_2 ip port, ?w1)"
    by (rule identify_ok [OF assms(3,4), of _ ?k]) simp_all
  have "pepdna_con_find E' (pepdna_hash32_rjenkins1_2 ip port) ?w1 = pepdna_con_find E' (pepdna_hash32_rjenkins1_2 ip port) w"
    by (rule con_find_same_ids) simp_all
  then have find: "pepdna_con_find E' (pepdna_hash32_rjenkins1_2 ip port) ?w1 = Some a" using assms(6) by simp
  let ?c = "con\<lparr>c_lsock := Some ?s, c_lflag := True, c_rflag := True\<rparr>"
  let ?w2 = "attach_left a ?s ?w1"
  have w2: "g_cons ?w2 a = Some ?c" "g_srv ?w2 = Live srv" "g_pending ?w2 = g_pending w"
    "g_socks ?w2 ?s = Some (?k\<lparr>k_data_ready := DR_l2r, k_user_data := UD_con a\<rparr>)"
    using assms(2,7) by (simp_all add: attach_left_def set_callback_def upd_con_def upd_sock_def)
  have wf2: "wf_world E ?w2" using wf_attach_left [of Map.empty E ?w1 a ?s] assms(1) by simp
  have done_wake: "attached a ?s con v" if "g_cons v a = Some (?c\<lparr>c_kref := n\<rparr>)" for v n
    using that by (simp add: attached_def)
  show ?thesis
  proof (cases "mode_of (s_mode srv) = Some TCP2RINA")
    case False
    then have "accept_client E' (ip, port) w = (None, wake_both a ?s ?w2)"
      using ic find w2(2) by (simp add: accept_client_def new_socket_def Let_def)
    with wake_both_ok [OF wf2 w2(1) _ wf_world_kref [OF wf2 w2(1)] w2(4)] done_wake False show ?thesis by auto
  next
    case True
    let ?w3 = "(pepdna_con_get a ?w2)\<lparr>g_pending := g_pending w @ [(a, R2L)]\<rparr>"
    have get: "g_pending (pepdna_con_get a ?w2) = g_pending w" "g_socks (pepdna_con_get a ?w2) = g_socks ?w2"
      "g_cons (pepdna_con_get a ?w2) a = Some (?c\<lparr>c_kref := c_kref con + 1\<rparr>)"
      using w2 by (simp_all add: pepdna_con_get_def upd_con_def)
    have acc: "accept_client E' (ip, port) w = (None, wake_both a ?s ?w3)"
      using ic find w2(2) True assms(5) get(1) by (simp add: accept_client_def new_socket_def queue_work_def Let_def)
    have wf3: "wf_world E ?w3" using wf_con_get [OF wf2] by simp
    have c3: "g_cons ?w3 a = Some (?c\<lparr>c_kref := c_kref con + 1\<rparr>)" using get(3) by simp
    from wake_both_ok [OF wf3 c3 _ _ , of ?s] w2(4) get(2) obtain n where
      n: "g_cons (wake_both a ?s ?w3) a = Some (?c\<lparr>c_kref := n\<rparr>)"
        "insert (a, L2R) (set (g_pending ?w3)) \<subseteq> set (g_pending (wake_both a ?s ?w3))" by auto
    then show ?thesis using acc done_wake [OF n(1)] by auto
  qed
qed

subsection \<open>Stopping leaves connections behind\<close>

definition untouched :: "nat \<Rightarrow> world \<Rightarrow> world \<Rightarrow> bool" where
  "untouched a w w' \<longleftrightarrow> g_cons w' a = g_cons w a \<and> g_accept_pending w' = g_accept_pending w
     \<and> ((\<exists>srv. g_srv w = Live srv) \<longrightarrow> (\<exists>srv. g_srv w' = Live srv))"

lemma untouched_refl: "untouched a w w"
  by (simp add: untouched_def)

lemma untouched_trans: "untouched a w v \<Longrightarrow> untouched a v u \<Longrightarrow> untouched a w u"
  by (auto simp: untouched_def)

lemma untouched_prims:
  "untouched a w (upd_sock s h w)" "untouched a w (kernel_sock_shutdown s w)" "untouched a w (add_fault f w)"
  "untouched a w (log_event e w)" "untouched a w (upd_srv k w)" "untouched a w (sock_release s w)"
  "untouched a w (w\<lparr>g_pending := q\<rparr>)" "untouched a w (w\<lparr>g_hooks := i\<rparr>)" "untouched a w (pepdna_netlink_stop w)"
  "a \<noteq> b \<Longrightarrow> untouched a w (upd_con b g w)"
  by (auto simp: untouched_def store_defs pepdna_netlink_stop_def split: option.splits ptr.splits)

lemma untouched_release: "a \<noteq> b \<Longrightarrow> untouched a w (pepdna_con_kref_release b w)"
  by (auto simp: untouched_def pepdna_con_kref_release_def store_defs Let_def
      split: option.split ptr.split)

lemma untouched_put: "a \<noteq> b \<Longrightarrow> untouched a w (pepdna_con_put b w)"
  by (auto simp: pepdna_con_put_def untouched_release untouched_prims untouched_refl split: option.split)

lemma untouched_parts:
  assumes "a \<noteq> b"
  shows "untouched a w (con_rtxq_destroy b w)" "untouched a w (close_left b s lc w)"
    "untouched a w (close_right_tcp b s rc w)" "untouched a w (close_right_rina b con rc w)"
  using assms unfolding con_rtxq_destroy_def close_left_def close_right_tcp_def close_right_rina_def Let_def
  by (auto split: option.split ptr.split intro: untouched_prims untouched_refl
      intro!: untouched_prims(1,2,4,7) [THEN untouched_trans [rotated]])

lemma untouched_close:
  assumes "a \<noteq> b"
  shows "untouched a w (pepdna_con_close E (Some b) w)"
proof -
  note put = untouched_trans [OF _ untouched_put [OF assms]]
  note parts = untouched_parts [OF assms] untouched_prims(10) [OF assms] untouched_put [OF assms] untouched_prims(3)
  note thens = parts(1,3,4,5,7) [THEN untouched_trans [rotated]]
  show ?thesis
    unfolding pepdna_con_close_def Let_def
    by (auto split: option.split ptr.split intro!: parts put thens untouched_refl)
qed

lemma untouched_bucket: "a \<notin> set chain \<Longrightarrow> untouched a w (close_bucket E chain w)"
proof (induction chain arbitrary: w)
  case (Cons b chain)
  then show ?case using untouched_close [of a b w E] untouched_trans by (fastforce simp: close_bucket_def)
qed (simp add: close_bucket_def untouched_refl)

lemma work_stop_cons:
  assumes "\<And>name v. g_cons (flush name v) = g_cons v"
  shows "g_cons (pepdna_work_stop flush w) = g_cons w"
proof -
  have "g_cons (stop_wq flush name pr cl v) = g_cons v" for name pr cl v
    using assms [of name v] by (simp add: stop_wq_def destroy_wq_def upd_srv_def add_fault_def split: ptr.splits)
  then show ?thesis by (simp add: pepdna_work_stop_def)
qed

lemma listen_stop_cons: "\<not> g_accept_pending w \<Longrightarrow> g_cons (pepdna_tcp_listen_stop pend l w) = g_cons w"
  by (auto simp: pepdna_tcp_listen_stop_def Let_def store_defs split: option.splits ptr.splits)

text \<open>
  C35. Unloading the module does not close every connection: the loop walks the first
  bucket of the table only, so a connection whose identifier hashes to another bucket is still
  allocated after the server is gone, even when no work is pending anywhere.
\<close>

theorem server_stop_leaks:
  assumes "wf_world E w" "g_cons w a = Some con" "pepdna_hash E (c_id con) \<noteq> 0"
    and "\<And>name v. g_cons (flush name v) = g_cons v" "\<not> g_accept_pending w"
  shows "g_cons (pepdna_server_stop E flush pend w) a = Some con
     \<and> g_srv (pepdna_server_stop E flush pend w) = Null"
proof -
  obtain srv where srv: "g_srv w = Live srv" using wf_world_live [OF assms(1)] by blast
  have out: "a \<notin> set (s_htable srv 0)" using assms(1-3) srv by (auto simp: wf_known_def)
  define w1 where "w1 = (if enum_val (s_mode srv) < 4 then w\<lparr>g_hooks := g_hooks w - 1\<rparr> else w)"
  define w2 where "w2 = (if s_conns srv \<noteq> 0 then close_bucket E (s_htable srv 0) w1 else w1)"
  define w3 where "w3 = upd_srv (\<lambda>srv. srv\<lparr>s_listener := None\<rparr>) (pepdna_netlink_stop w2)"
  have "untouched a w w1" by (auto simp: w1_def intro: untouched_prims untouched_refl)
  moreover have "untouched a w1 w2" by (auto simp: w2_def intro: untouched_bucket [OF out] untouched_refl)
  moreover have "untouched a w2 w3" unfolding w3_def by (rule untouched_trans) (rule untouched_prims)+
  ultimately have "untouched a w w3" by (blast intro: untouched_trans)
  then have w3: "g_cons w3 a = Some con" "\<not> g_accept_pending w3"
    using assms(2,5) by (simp_all add: untouched_def)
  have "g_cons (pepdna_work_stop flush (pepdna_tcp_listen_stop pend (s_listener srv) w3)) a = Some con"
    unfolding work_stop_cons [OF assms(4)] listen_stop_cons [OF w3(2)] by (rule w3(1))
  then show ?thesis
    unfolding w3_def w2_def w1_def using srv by (simp add: pepdna_server_stop_def Let_def)
qed

definition leak_world :: world where
  "leak_world = (sample_world MINIP2TCP)\<lparr>g_next := 1, g_cons := [0 \<mapsto> zero_con\<lparr>c_id := 1, c_kref := 1\<rparr>],
     g_srv := Live (hash_add sample_env 0 1 ((sample_srv MINIP2TCP)\<lparr>s_conns := 1\<rparr>))\<rparr>"

theorem server_stop_leaks_witness:
  "g_cons (pepdna_server_stop sample_env (\<lambda>_ v. v) [] leak_world) 0 \<noteq> None"
proof -
  have "wf_world sample_env leak_world"
    using wf_add_con [OF wf_sample_world sample_modes(1), of sample_env MINIP2TCP "zero_con\<lparr>c_id := 1, c_kref := 1\<rparr>" 1]
    by (simp add: sample_works leak_world_def sample_world_def sample_srv_def)
  moreover have "g_cons leak_world 0 = Some (zero_con\<lparr>c_id := 1, c_kref := 1\<rparr>)" "\<not> g_accept_pending leak_world"
    by (simp_all add: leak_world_def sample_world_def)
  moreover have "pepdna_hash sample_env (c_id (zero_con\<lparr>c_id := 1, c_kref := 1\<rparr>)) \<noteq> 0"
    by (simp add: pepdna_hash_def PEPDNA_HASH_BITS_def ilog2_9 sample_env_def)
  ultimately show ?thesis
    using server_stop_leaks [of sample_env leak_world 0 _ "\<lambda>_ v. v" "[]"] by blast
qed

end
