(* ===== verification/Pep_Lifecycle.thy ===== *)
theory Pep_Lifecycle
  imports Pep_Server
begin

section \<open>Loading and unloading the module\<close>

text \<open>
  What the module holds of the kernel while it starts, runs without clients and stops, and the
  theorem that loading and unloading balance in every mode and for every failure on the way.
\<close>

subsection \<open>The books of a server\<close>

text \<open>
  The books of a server that has no connection: the work queues it points to are the ones
  created since \<open>w0\<close>, and the only new socket is the listener, present while \<open>up\<close>.
\<close>

definition the_srv :: "world \<Rightarrow> pepdna_server" where
  "the_srv w = (case g_srv w of Live srv \<Rightarrow> srv | _ \<Rightarrow> sample_srv TCP2TCP)"

definition live_srv :: "world \<Rightarrow> bool" where
  "live_srv w \<longleftrightarrow> g_srv w = Live (the_srv w)"

definition wq_count :: "pepdna_server \<Rightarrow> int" where
  "wq_count srv = sum_list (map of_bool (wq_flags srv))"

definition books :: "world \<Rightarrow> (nat \<times> sock) option \<Rightarrow> world \<Rightarrow> bool" where
  "books w0 l w \<longleftrightarrow> live_srv w \<and> s_mode (the_srv w) = g_mode w0 \<and> s_conns (the_srv w) = 0
     \<and> g_wqs w = g_wqs w0 + wq_count (the_srv w) \<and> g_next_sock w0 \<le> g_next_sock w
     \<and> (case l of None \<Rightarrow> g_socks w = g_socks w0
        | Some (s, k) \<Rightarrow> s_listener (the_srv w) = Some s \<and> g_next_sock w0 \<le> s \<and> g_socks w = (g_socks w0)(s \<mapsto> k))
     \<and> g_cons w = g_cons w0 \<and> g_faults w = g_faults w0 \<and> g_accept_pending w = g_accept_pending w0
     \<and> g_mode w = g_mode w0 \<and> s_htable (the_srv w) = (\<lambda>_. []) \<and> g_pending w = g_pending w0 \<and> g_next w = g_next w0"

definition regs :: "world \<Rightarrow> int \<times> bool \<times> bool \<times> bool" where
  "regs w = (g_hooks w, g_nl_sock w, g_pack w, g_sysctl w)"

abbreviation no_wqs :: "world \<Rightarrow> bool" where
  "no_wqs w \<equiv> wq_flags (the_srv w) = [False, False, False, False]"

lemma books_init:
  "books w None (init_pepdna_server E mac w)" "no_wqs (init_pepdna_server E mac w)"
  "s_listener (the_srv (init_pepdna_server E mac w)) = None" "regs (init_pepdna_server E mac w) = regs w"
  by (simp_all add: books_def init_pepdna_server_def wq_count_def wq_flags_def regs_def the_srv_def live_srv_def)

lemma wq_srv [simp]:
  "live_srv w \<Longrightarrow> the_srv (add_wq f w) = f (the_srv w)" "live_srv w \<Longrightarrow> the_srv (destroy_wq f w) = f (the_srv w)"
  "live_srv w \<Longrightarrow> live_srv (add_wq f w)" "live_srv w \<Longrightarrow> live_srv (destroy_wq f w)"
  "regs (add_wq f w) = regs w" "regs (destroy_wq f w) = regs w"
  by (simp_all add: live_srv_def the_srv_def add_wq_def destroy_wq_def upd_srv_def regs_def add_fault_def split: ptr.splits)

lemma books_live: "books w0 l w \<Longrightarrow> live_srv w"
  by (simp add: books_def)

text \<open>A change of the pointers to work queues, and of their number by the same amount.\<close>

definition wq_only :: "(pepdna_server \<Rightarrow> pepdna_server) \<Rightarrow> bool" where
  "wq_only f \<longleftrightarrow> (\<forall>srv. s_mode (f srv) = s_mode srv \<and> s_conns (f srv) = s_conns srv 
     \<and> s_listener (f srv) = s_listener srv \<and> s_htable (f srv) = s_htable srv)"

lemma books_wq:
  assumes "books w0 l w" "wq_only f"
  shows "wq_count (f (the_srv w)) = wq_count (the_srv w) + 1 \<Longrightarrow> books w0 l (add_wq f w)"
    "wq_count (f (the_srv w)) = wq_count (the_srv w) - 1 \<Longrightarrow> books w0 l (destroy_wq f w)"
  using assms
  by (cases l; auto simp: books_def wq_only_def; simp add: add_wq_def destroy_wq_def upd_srv_def live_srv_def)+

lemma wq_only_updates [simp]:
  "wq_only (s_l2r_wq_update (\<lambda>_. b))" "wq_only (s_r2l_wq_update (\<lambda>_. b))"
  "wq_only (s_accept_wq_update (\<lambda>_. b))" "wq_only (s_tcfa_wq_update (\<lambda>_. b))"
  by (simp_all add: wq_only_def)

lemma books_work_init:
  assumes "books w0 l w" "no_wqs w"
  shows "books w0 l (snd (pepdna_work_init E w))" "regs (snd (pepdna_work_init E w)) = regs w"
    "s_listener (the_srv (snd (pepdna_work_init E w))) = s_listener (the_srv w)"
    "fst (pepdna_work_init E w) < 0 \<Longrightarrow> no_wqs (snd (pepdna_work_init E w))"
proof -
  have live: "live_srv w" using assms(1) by (rule books_live)
  then obtain srv where srv: "g_srv w = Live srv" by (simp add: live_srv_def)
  show "books w0 l (snd (pepdna_work_init E w))" "regs (snd (pepdna_work_init E w)) = regs w"
    "s_listener (the_srv (snd (pepdna_work_init E w))) = s_listener (the_srv w)"
    using assms live
    by (simp_all add: pepdna_work_init_def srv Let_def wq_flags_def wq_count_def books_wq)
  show "fst (pepdna_work_init E w) < 0 \<Longrightarrow> no_wqs (snd (pepdna_work_init E w))"
    using assms live
    by (simp add: pepdna_work_init_def srv Let_def wq_flags_def split: if_splits)
qed

lemma books_stop_wq:
  assumes "books w0 l w" "wq_only f" "p (the_srv w) \<Longrightarrow> wq_count (f (the_srv w)) = wq_count (the_srv w) - 1"
  shows "books w0 l (stop_wq (\<lambda>_ v. v) n p f w)"
    "the_srv (stop_wq (\<lambda>_ v. v) n p f w) = (if p (the_srv w) then f (the_srv w) else the_srv w)"
    "regs (stop_wq (\<lambda>_ v. v) n p f w) = regs w"
proof -
  have live: "live_srv w" using assms(1) by (rule books_live)
  then have stop: "stop_wq (\<lambda>_ v. v) n p f w = (if p (the_srv w) then destroy_wq f w else w)"
    unfolding stop_wq_def live_srv_def by simp
  show "books w0 l (stop_wq (\<lambda>_ v. v) n p f w)"
    "the_srv (stop_wq (\<lambda>_ v. v) n p f w) = (if p (the_srv w) then f (the_srv w) else the_srv w)"
    "regs (stop_wq (\<lambda>_ v. v) n p f w) = regs w"
    unfolding stop using assms live by (simp_all add: books_wq)
qed

lemma books_work_stop:
  assumes "books w0 l w"
  shows "books w0 l (pepdna_work_stop (\<lambda>_ v. v) w)" "no_wqs (pepdna_work_stop (\<lambda>_ v. v) w)"
    "regs (pepdna_work_stop (\<lambda>_ v. v) w) = regs w"
    "s_listener (the_srv (pepdna_work_stop (\<lambda>_ v. v) w)) = s_listener (the_srv w)"
proof -
  note cnt = wq_count_def wq_flags_def
  let ?w1 = "stop_wq (\<lambda>_ v. v) ''r2l_wq'' s_r2l_wq clear_r2l w"
  let ?w2 = "stop_wq (\<lambda>_ v. v) ''connect_alloc_wq'' s_tcfa_wq clear_tcfa ?w1"
  let ?w3 = "stop_wq (\<lambda>_ v. v) ''accept_wq'' s_accept_wq clear_accept ?w2"
  note s1 = books_stop_wq [OF assms, of clear_r2l s_r2l_wq "''r2l_wq''"]
  have b1: "books w0 l ?w1" by (rule s1) (simp_all add: cnt)
  note s2 = books_stop_wq [OF b1, of clear_tcfa s_tcfa_wq "''connect_alloc_wq''"]
  have b2: "books w0 l ?w2" by (rule s2) (simp_all add: cnt)
  note s3 = books_stop_wq [OF b2, of clear_accept s_accept_wq "''accept_wq''"]
  have b3: "books w0 l ?w3" by (rule s3) (simp_all add: cnt)
  note s4 = books_stop_wq [OF b3, of clear_l2r s_l2r_wq "''l2r_wq''"]
  have b4: "books w0 l (pepdna_work_stop (\<lambda>_ v. v) w)"
    unfolding pepdna_work_stop_def by (rule s4) (simp_all add: cnt)
  then show "books w0 l (pepdna_work_stop (\<lambda>_ v. v) w)" .
  show "no_wqs (pepdna_work_stop (\<lambda>_ v. v) w)" "regs (pepdna_work_stop (\<lambda>_ v. v) w) = regs w"
    "s_listener (the_srv (pepdna_work_stop (\<lambda>_ v. v) w)) = s_listener (the_srv w)"
    unfolding pepdna_work_stop_def using s1(2,3) s2(2,3) s3(2,3) s4(2,3) by (simp_all add: cnt)
qed

lemma upd_sock_new: "upd_sock s f (v\<lparr>g_socks := m(s \<mapsto> k)\<rparr>) = v\<lparr>g_socks := m(s \<mapsto> f k)\<rparr>"
  "sock_release s (v\<lparr>g_socks := m(s \<mapsto> k)\<rparr>) = v\<lparr>g_socks := m(s := None)\<rparr>"
  by (simp_all add: upd_sock_def sock_release_def)

lemma books_listen_init:
  assumes "books w0 None w" "g_socks w0 (g_next_sock w) = None"
  shows "\<exists>l. books w0 l (snd (pepdna_tcp_listen_init E w)) \<and> (l = None \<longleftrightarrow> fst (pepdna_tcp_listen_init E w) < 0)
     \<and> regs (snd (pepdna_tcp_listen_init E w)) = regs w"
proof -
  let ?s = "g_next_sock w"
  have un: "(g_socks w0)(?s := None) = g_socks w0" using assms(2) by (auto simp: fun_eq_iff)
  obtain srv where srv: "g_srv w = Live srv" using books_live [OF assms(1)] by (simp add: live_srv_def)
  define v where "v = w\<lparr>g_next_sock := Suc ?s, g_srv := Live (srv\<lparr>s_listener := Some ?s\<rparr>)\<rparr>"
  have v: "the_srv v = (the_srv w)\<lparr>s_listener := Some ?s\<rparr>" "live_srv v"
    using srv by (simp_all add: v_def the_srv_def live_srv_def)
  have none: "books w0 None v" "regs v = regs w"
    using assms(1) v by (simp_all add: books_def wq_count_def wq_flags_def regs_def v_def)
  have some: "books w0 (Some (?s, k)) (v\<lparr>g_socks := (g_socks w0)(?s \<mapsto> k)\<rparr>)" for k
    using assms(1) v by (simp add: books_def wq_count_def wq_flags_def regs_def v_def live_srv_def the_srv_def srv)
  have socks: "g_socks w = g_socks w0" using assms(1) by (simp add: books_def)
  have v': "v\<lparr>g_socks := g_socks w0\<rparr> = v" by (simp add: v_def socks [symmetric])
  have new: "upd_srv (\<lambda>srv. srv\<lparr>s_listener := Some ?s\<rparr>)
      (w\<lparr>g_next_sock := ?s + 1, g_socks := (g_socks w)(?s \<mapsto> new_sock)\<rparr>) = v\<lparr>g_socks := (g_socks w0)(?s \<mapsto> new_sock)\<rparr>"
    by (simp add: upd_srv_def srv v_def socks)
  note ops = tune_socket_def pepdna_tcp_nodelayedack_def pepdna_tcp_nonagle_def pepdna_set_bufsize_def
    pepdna_ip_transparent_def set_callback_def upd_sock_new un v'
  have "\<exists>k. set_callback ?s DR_listen UD_ready (pepdna_ip_transparent E ?s (tune_socket ?s
      (v\<lparr>g_socks := (g_socks w0)(?s \<mapsto> new_sock)\<rparr>))) = v\<lparr>g_socks := (g_socks w0)(?s \<mapsto> k)\<rparr>"
    unfolding ops Let_def by (intro exI) (rule refl)
  then obtain k where prep: "set_callback ?s DR_listen UD_ready (pepdna_ip_transparent E ?s (tune_socket ?s
      (v\<lparr>g_socks := (g_socks w0)(?s \<mapsto> new_sock)\<rparr>))) = v\<lparr>g_socks := (g_socks w0)(?s \<mapsto> k)\<rparr>" by blast
  let ?k = "k\<lparr>k_local := Some (0, htons (word_of_int (s_port srv)))\<rparr>"
  have run: "pepdna_tcp_listen_init E w =
      (if sock_create_kern E < 0 then (sock_create_kern E, w)
       else if kernel_bind E < 0 then (- EINVAL, v)
       else if kernel_listen E < 0 then (- EINVAL, v) else (0, v\<lparr>g_socks := (g_socks w0)(?s \<mapsto> ?k)\<rparr>))"
    unfolding pepdna_tcp_listen_init_def srv new_socket_def Let_def ptr.case prod.case new prep upd_sock_new un v' ..
  have regs: "regs (v\<lparr>g_socks := m\<rparr>) = regs w" for m using none(2) by (simp add: regs_def)
  show ?thesis
  proof (cases "sock_create_kern E < 0 \<or> kernel_bind E < 0 \<or> kernel_listen E < 0")
    case True
    with assms(1) none show ?thesis unfolding run by (intro exI [of _ None]) auto
  next
    case False
    with some [of ?k] regs show ?thesis unfolding run by (intro exI [of _ "Some (?s, ?k)"]) auto
  qed
qed

text \<open>One start function: it succeeds with the books in order, or fails with nothing kept.\<close>

definition start_ok :: "world \<Rightarrow> bool \<Rightarrow> bool \<Rightarrow> bool \<Rightarrow> int \<times> world \<Rightarrow> bool" where
  "start_ok w0 hook nl pack r \<longleftrightarrow>
     (if fst r < 0 then books w0 None (snd r) \<and> no_wqs (snd r) \<and> g_hooks (snd r) = g_hooks w0 \<and> \<not> g_nl_sock (snd r)
        \<and> g_pack (snd r) = g_pack w0 \<and> g_sysctl (snd r) = g_sysctl w0
      else (\<exists>l. books w0 l (snd r) \<and> (if hook then l \<noteq> None else l = None \<and> s_listener (the_srv (snd r)) = None))
        \<and> g_hooks (snd r) = g_hooks w0 + of_bool hook
        \<and> g_nl_sock (snd r) = nl \<and> g_pack (snd r) = (g_pack w0 \<or> pack) \<and> g_sysctl (snd r) = g_sysctl w0)"

lemma books_flags [simp]:
  "books w0 l (w\<lparr>g_nl_sock := b\<rparr>) = books w0 l w" "books w0 l (w\<lparr>g_nl_mode := m\<rparr>) = books w0 l w"
  "books w0 l (w\<lparr>g_hooks := i\<rparr>) = books w0 l w" "books w0 l (w\<lparr>g_pack := b\<rparr>) = books w0 l w"
  "books w0 l (w\<lparr>g_sysctl := b\<rparr>) = books w0 l w"
  "the_srv (w\<lparr>g_nl_sock := b\<rparr>) = the_srv w" "the_srv (w\<lparr>g_nl_mode := m\<rparr>) = the_srv w"
  "the_srv (w\<lparr>g_hooks := i\<rparr>) = the_srv w" "the_srv (w\<lparr>g_pack := b\<rparr>) = the_srv w"
  by (auto simp: books_def live_srv_def the_srv_def split: option.splits)

lemma books_accept_work:
  "books w0 l w \<Longrightarrow> books w0 l (init_accept_work w)" "wq_flags (the_srv (init_accept_work w)) = wq_flags (the_srv w)"
  "s_listener (the_srv (init_accept_work w)) = s_listener (the_srv w)" "regs (init_accept_work w) = regs w"
  by (auto simp: init_accept_work_def books_def live_srv_def the_srv_def upd_srv_def wq_count_def wq_flags_def regs_def add_fault_def
      split: option.splits ptr.splits)

text \<open>The tail shared by the modes that listen: a failed listener stops the work queues.\<close>

lemma start_listen:
  assumes "books w0 None w" "regs w = (h, nl, pk, sy)" "\<And>s. g_next_sock w0 \<le> s \<Longrightarrow> g_socks w0 s = None"
    and "pepdna_tcp_listen_init E w = (rc, w1)"
  shows "if rc < 0 then books w0 None (pepdna_work_stop (\<lambda>_ v. v) w1) \<and> no_wqs (pepdna_work_stop (\<lambda>_ v. v) w1)
            \<and> regs (pepdna_work_stop (\<lambda>_ v. v) w1) = (h, nl, pk, sy)
         else (\<exists>l. books w0 l w1 \<and> l \<noteq> None) \<and> regs w1 = (h, nl, pk, sy)"
proof -
  have "g_socks w0 (g_next_sock w) = None" using assms(1) by (intro assms(3)) (simp add: books_def)
  from books_listen_init [OF assms(1) this, of E] obtain l where
    l: "books w0 l w1" "(l = None) = (rc < 0)" "regs w1 = (h, nl, pk, sy)"
    using assms(2,4) by auto
  then show ?thesis using books_work_stop [OF l(1)] by auto
qed

lemma start_works:
  assumes "books w0 None w" "no_wqs w" "pepdna_work_init E (init_accept_work w) = (rc, w1) \<or> pepdna_work_init E w = (rc, w1)"
  shows "books w0 None w1 \<and> regs w1 = regs w \<and> s_listener (the_srv w1) = s_listener (the_srv w)
     \<and> (rc < 0 \<longrightarrow> no_wqs w1)"
proof -
  have "no_wqs (init_accept_work w)" using assms(2) by (simp only: books_accept_work)
  with books_work_init [OF books_accept_work(1) [OF assms(1)], of E] books_work_init [OF assms(1,2), of E]
    assms(3) books_accept_work show ?thesis by auto
qed

lemma netlink_init_ok:
  assumes "pepdna_netlink_init E w = (rc, w1)" "books w0 l w" "regs w = (h, nl, pk, sy)"
  shows "books w0 l w1 \<and> the_srv w1 = the_srv w \<and> regs w1 = (h, \<not> rc < 0, pk, sy)"
  using assms by (auto simp: pepdna_netlink_init_def Let_def regs_def split: if_splits)

lemmas start_defs = start_ok_def pepdna_netlink_stop_def register_hooks_def dev_add_pack_def regs_def

lemma start_modes:
  assumes "books w0 None w" "no_wqs w" "s_listener (the_srv w) = None"
    and regs: "regs w = (g_hooks w0, False, g_pack w0, g_sysctl w0)"
    and fresh: "\<And>s. g_next_sock w0 \<le> s \<Longrightarrow> g_socks w0 s = None"
  shows "start_ok w0 True False False (pepdna_i2i_start E (\<lambda>_ v. v) w)"
    "start_ok w0 True False False (pepdna_i2c_start E (\<lambda>_ v. v) w)"
    "start_ok w0 True False True (pepdna_i2m_start E (\<lambda>_ v. v) w)"
    "start_ok w0 False False True (pepdna_m2i_start E w)"
    "start_ok w0 False False False (0, w)"
proof -
  obtain rc1 w1 where wi: "pepdna_work_init E (init_accept_work w) = (rc1, w1)" by force
  note w1 = start_works [OF assms(1,2) disjI1 [OF wi]]
  obtain rc2 w2 where li: "pepdna_tcp_listen_init E w1 = (rc2, w2)" by force
  have w2: "if rc2 < 0 then books w0 None (pepdna_work_stop (\<lambda>_ v. v) w2) \<and> no_wqs (pepdna_work_stop (\<lambda>_ v. v) w2)
            \<and> regs (pepdna_work_stop (\<lambda>_ v. v) w2) = (g_hooks w0, False, g_pack w0, g_sysctl w0)
         else (\<exists>l. books w0 l w2 \<and> l \<noteq> None) \<and> regs w2 = (g_hooks w0, False, g_pack w0, g_sysctl w0)"
    by (rule start_listen [OF _ _ fresh li]) (use w1 regs in simp_all)
  show "start_ok w0 True False False (pepdna_i2i_start E (\<lambda>_ v. v) w)"
    "start_ok w0 True False False (pepdna_i2c_start E (\<lambda>_ v. v) w)"
    "start_ok w0 True False True (pepdna_i2m_start E (\<lambda>_ v. v) w)"
    using w1 w2 regs wi li
    by (auto simp: pepdna_i2i_start_def pepdna_i2c_start_def pepdna_i2m_start_def start_defs split: if_splits)
  show "start_ok w0 False False False (0, w)"
    using assms by (auto simp: start_ok_def regs_def)
  obtain rc3 w3 where "pepdna_work_init E w = (rc3, w3)" by force
  with start_works [OF assms(1,2), of E rc3 w3] regs assms(3) show "start_ok w0 False False True (pepdna_m2i_start E w)"
    by (auto simp: pepdna_m2i_start_def start_defs split: if_splits)
qed

lemma start_rina:
  assumes "books w0 None w" "no_wqs w" "s_listener (the_srv w) = None"
    and regs: "regs w = (g_hooks w0, False, g_pack w0, g_sysctl w0)"
    and fresh: "\<And>s. g_next_sock w0 \<le> s \<Longrightarrow> g_socks w0 s = None"
  shows "start_ok w0 True True False (pepdna_i2r_start E (\<lambda>_ v. v) w)"
    "start_ok w0 False True False (pepdna_r2i_start E w)"
proof -
  obtain rc1 w1 where ni: "pepdna_netlink_init E w = (rc1, w1)" by force
  note w1 = netlink_init_ok [OF ni assms(1) regs]
  obtain rc2 w2 where wi: "pepdna_work_init E w1 = (rc2, w2)" by force
  have w2: "books w0 None w2 \<and> regs w2 = regs w1 \<and> s_listener (the_srv w2) = s_listener (the_srv w1)
     \<and> (rc2 < 0 \<longrightarrow> no_wqs w2)" by (rule start_works [OF _ _ disjI2 [OF wi]]) (use w1 assms(2) in simp_all)
  show "start_ok w0 False True False (pepdna_r2i_start E w)"
  proof (cases "rc1 < 0")
    case True
    with w1 assms(2) ni show ?thesis by (simp add: pepdna_r2i_start_def start_defs)
  next
    case False
    with w1 w2 assms(3) ni wi show ?thesis by (simp add: pepdna_r2i_start_def start_defs)
  qed
  let ?a = "init_accept_work w"
  have acc: "books w0 None ?a" "no_wqs ?a" "regs ?a = (g_hooks w0, False, g_pack w0, g_sysctl w0)"
    using books_accept_work(1) [of w0 None w] books_accept_work(2-4) [of w] assms(1,2) regs by simp_all
  obtain rc3 w3 where ni3: "pepdna_netlink_init E ?a = (rc3, w3)" by force
  note w3 = netlink_init_ok [OF ni3 acc(1,3)]
  obtain rc4 w4 where wi4: "pepdna_work_init E w3 = (rc4, w4)" by force
  have w4: "books w0 None w4 \<and> regs w4 = regs w3 \<and> s_listener (the_srv w4) = s_listener (the_srv w3)
     \<and> (rc4 < 0 \<longrightarrow> no_wqs w4)" by (rule start_works [OF _ _ disjI2 [OF wi4]]) (use w3 acc(2) in simp_all)
  obtain rc5 w5 where li: "pepdna_tcp_listen_init E w4 = (rc5, w5)" by force
  have "g_socks w0 (g_next_sock w4) = None" using w4 by (intro fresh) (simp add: books_def)
  from books_listen_init [OF _ this, of E] w4 li obtain l where
    w5: "books w0 l w5" "(l = None) = (rc5 < 0)" "regs w5 = regs w4" by auto
  have st: "books w0 l (pepdna_work_stop (\<lambda>_ v. v) (w5\<lparr>g_nl_sock := False\<rparr>))"
    "no_wqs (pepdna_work_stop (\<lambda>_ v. v) (w5\<lparr>g_nl_sock := False\<rparr>))"
    "regs (pepdna_work_stop (\<lambda>_ v. v) (w5\<lparr>g_nl_sock := False\<rparr>)) = regs (w5\<lparr>g_nl_sock := False\<rparr>)"
    using books_work_stop [of w0 l "w5\<lparr>g_nl_sock := False\<rparr>"] w5(1) by simp_all
  show "start_ok w0 True True False (pepdna_i2r_start E (\<lambda>_ v. v) w)"
  proof (cases "rc3 < 0 \<or> rc4 < 0")
    case True
    then show ?thesis
      using w3 w4 acc(2) ni3 wi4 by (auto simp: pepdna_i2r_start_def start_defs)
  next
    case False
    then have r5: "regs w5 = (g_hooks w0, True, g_pack w0, g_sysctl w0)" using w3 w4 w5(3) by simp
    show ?thesis
    proof (cases "rc5 < 0")
      case True
      with r5 w5 st False ni3 wi4 li show ?thesis by (simp add: pepdna_i2r_start_def start_defs)
    next
      case r: False
      with r5 w5 False ni3 wi4 li show ?thesis by (simp add: pepdna_i2r_start_def start_defs) blast
    qed
  qed
qed

lemma stop_books:
  assumes b: "books w0 l w" and l: "if hook then l \<noteq> None else l = None \<and> s_listener (the_srv w) = None"
    and fresh: "\<And>s. g_next_sock w0 \<le> s \<Longrightarrow> g_socks w0 s = None" and idle: "\<not> g_accept_pending w0"
    and hooks: "g_hooks w = g_hooks w0 + of_bool hook" "hook \<longleftrightarrow> enum_val (g_mode w0) < 4"
    and mode: "hook \<Longrightarrow> mode_of (g_mode w0) \<noteq> Some RINA2TCP \<and> mode_of (g_mode w0) \<noteq> Some RINA2RINA"
    and v: "v = pepdna_server_stop E (\<lambda>_ v. v) pend w"
  shows "g_wqs v = g_wqs w0" "g_hooks v = g_hooks w0" "g_socks v = g_socks w0" "g_cons v = g_cons w0"
    "g_faults v = g_faults w0" "\<not> g_nl_sock v" "g_pack v = (g_pack w \<and> \<not> CONFIG_MINIP E)" "g_sysctl v = g_sysctl w"
    "g_srv v = Null"
proof -
  let ?srv = "the_srv w"
  have srv: "g_srv w = Live ?srv" "s_mode ?srv = g_mode w0" "s_conns ?srv = 0"
    using b by (simp_all add: books_def live_srv_def)
  define w1 where "w1 = w\<lparr>g_hooks := g_hooks w0\<rparr>"
  have h1: "(if enum_val (g_mode w0) < 4 then w\<lparr>g_hooks := g_hooks w - 1\<rparr> else w) = w1"
    using hooks by (cases hook) (auto simp: w1_def)
  define w2 where "w2 = upd_srv (\<lambda>srv. srv\<lparr>s_listener := None\<rparr>) (pepdna_netlink_stop w1)"
  define w3 where "w3 = pepdna_tcp_listen_stop pend (s_listener ?srv) w2"
  have w2: "w2 = w\<lparr>g_hooks := g_hooks w0, g_nl_sock := False, g_srv := Live (?srv\<lparr>s_listener := None\<rparr>)\<rparr>"
    using srv(1) by (simp add: w2_def w1_def pepdna_netlink_stop_def upd_srv_def)
  have w3: "w3 = w2\<lparr>g_socks := g_socks w0\<rparr>"
  proof (cases l)
    case None
    with l b srv show ?thesis
      by (auto simp: w3_def pepdna_tcp_listen_stop_def w2 books_def split: if_splits)
  next
    case (Some sk)
    obtain s k where sk: "sk = (s, k)" by force
    have s: "s_listener ?srv = Some s" "g_socks w = (g_socks w0)(s \<mapsto> k)" "g_socks w0 s = None" "\<not> g_accept_pending w"
      using b fresh Some sk idle by (auto simp: books_def)
    have "(g_socks w0)(s := None) = g_socks w0" using s(3) by (auto simp: fun_eq_iff)
    moreover have hook using l Some by (simp split: if_splits)
    ultimately show ?thesis
      using s srv mode by (simp add: w3_def pepdna_tcp_listen_stop_def w2 Let_def upd_sock_def sock_release_def)
  qed
  have s3: "the_srv w3 = ?srv\<lparr>s_listener := None\<rparr>" unfolding the_srv_def [of w3] by (simp add: w3 w2)
  have "live_srv w3" unfolding live_srv_def s3 by (simp add: w3 w2)
  then have "books w0 None w3"
    using b by (simp add: books_def s3 wq_count_def wq_flags_def) (simp add: w3 w2)
  note b4 = books_work_stop [OF this]
  have "v = (let w = pepdna_work_stop (\<lambda>_ v. v) w3; w = (if CONFIG_MINIP E then w\<lparr>g_pack := False\<rparr> else w)
      in w\<lparr>g_srv := Null\<rparr>)"
    unfolding v pepdna_server_stop_def Let_def srv(1) ptr.case srv(2,3) h1 w3_def w2_def by simp
  moreover have "wq_count (the_srv (pepdna_work_stop (\<lambda>_ v. v) w3)) = 0" using b4(2) by (simp add: wq_count_def)
  ultimately show "g_wqs v = g_wqs w0" "g_hooks v = g_hooks w0" "g_socks v = g_socks w0" "g_cons v = g_cons w0"
    "g_faults v = g_faults w0" "\<not> g_nl_sock v" "g_pack v = (g_pack w \<and> \<not> CONFIG_MINIP E)" "g_sysctl v = g_sysctl w"
    "g_srv v = Null"
    using b4(1,3) by (auto simp: Let_def books_def regs_def w3 w2)
qed

lemma start_mode_ok:
  assumes "books w0 None w" "no_wqs w" "s_listener (the_srv w) = None"
    and "regs w = (g_hooks w0, False, g_pack w0, g_sysctl w0)"
    and "\<And>s. g_next_sock w0 \<le> s \<Longrightarrow> g_socks w0 s = None"
    and "start_mode E (\<lambda>_ v. v) (g_mode w0) w = Some r"
  shows "\<exists>nl pack. start_ok w0 (enum_val (g_mode w0) < 4) nl pack r \<and> (pack \<longrightarrow> CONFIG_MINIP E)"
    "enum_val (g_mode w0) < 4 \<Longrightarrow> mode_of (g_mode w0) \<noteq> Some RINA2TCP \<and> mode_of (g_mode w0) \<noteq> Some RINA2RINA"
proof -
  obtain m where m: "mode_of (g_mode w0) = Some m"
    using assms(6) by (cases "mode_of (g_mode w0)") (auto simp: start_mode_def)
  then have code: "g_mode w0 = mode_code m" by (simp add: mode_of_Some)
  note ok = start_modes [OF assms(1-5)] start_rina [OF assms(1-5)]
  have r: "start_mode E (\<lambda>_ v. v) (mode_code m) w = Some r" using assms(6) code by simp
  note r = r [unfolded start_mode_def mode_of_code option.case]
  show "\<exists>nl pack. start_ok w0 (enum_val (g_mode w0) < 4) nl pack r \<and> (pack \<longrightarrow> CONFIG_MINIP E)"
    unfolding code using r
    by (cases m; simp add: enum_val_def pepdna_r2r_start_def pepdna_c2i_start_def pepdna_c2c_start_def
        split: if_splits; use ok in blast)
  show "enum_val (g_mode w0) < 4 \<Longrightarrow> mode_of (g_mode w0) \<noteq> Some RINA2TCP \<and> mode_of (g_mode w0) \<noteq> Some RINA2RINA"
    unfolding m by (cases m) (simp_all add: code enum_val_def)
qed

text \<open>Loading once the sysctl table is registered and the server allocated.\<close>

definition with_sysctl :: "world \<Rightarrow> world" where
  "with_sysctl w = w\<lparr>g_rmem := [RCVBUF_DEF, RCVBUF_DEF, RCVBUF_DEF],
    g_wmem := [SNDBUF_DEF, SNDBUF_DEF, SNDBUF_DEF], g_sysctl := True\<rparr>"

lemma init_eq:
  assumes "register_net_sysctl E \<and> kzalloc E A_server"
  shows "pepdna_init E flush macstr w =
     (case start_mode E flush (g_mode w) (init_pepdna_server E macstr (with_sysctl w)) of
        None \<Rightarrow> (-1, pepdna_unregister_sysctl (init_pepdna_server E macstr (with_sysctl w)\<lparr>g_srv := Freed\<rparr>))
      | Some (rc, u) \<Rightarrow> if rc < 0 then (-1, pepdna_unregister_sysctl (u\<lparr>g_srv := Freed\<rparr>)) else (0, u))"
  using assms
  by (auto simp: pepdna_init_def pepdna_register_sysctl_def pepdna_server_start_def Let_def with_sysctl_def
      init_pepdna_server_def split: option.split)

lemma init_started:
  assumes "\<not> g_nl_sock w" "\<And>s. g_next_sock w \<le> s \<Longrightarrow> g_socks w s = None"
    and "start_mode E (\<lambda>_ v. v) (g_mode w) (init_pepdna_server E macstr (with_sysctl w)) = Some r"
  shows "\<exists>nl pack. start_ok (with_sysctl w) (enum_val (g_mode w) < 4) nl pack r \<and> (pack \<longrightarrow> CONFIG_MINIP E)"
    "enum_val (g_mode w) < 4 \<Longrightarrow> mode_of (g_mode w) \<noteq> Some RINA2TCP \<and> mode_of (g_mode w) \<noteq> Some RINA2RINA"
proof -
  let ?v = "init_pepdna_server E macstr (with_sysctl w)" and ?wS = "with_sysctl w"
  have regs: "regs ?v = (g_hooks ?wS, False, g_pack ?wS, g_sysctl ?wS)"
    using books_init(4) [of E macstr ?wS] assms(1) by (simp add: regs_def with_sysctl_def)
  have mode: "g_mode ?wS = g_mode w" by (simp add: with_sysctl_def)
  have fresh: "\<And>s. g_next_sock ?wS \<le> s \<Longrightarrow> g_socks ?wS s = None" using assms(2) by (simp add: with_sysctl_def)
  note ok = start_mode_ok [OF books_init(1-3) regs fresh, unfolded mode, OF _ assms(3)]
  show "\<exists>nl pack. start_ok ?wS (enum_val (g_mode w) < 4) nl pack r \<and> (pack \<longrightarrow> CONFIG_MINIP E)"
    "enum_val (g_mode w) < 4 \<Longrightarrow> mode_of (g_mode w) \<noteq> Some RINA2TCP \<and> mode_of (g_mode w) \<noteq> Some RINA2RINA"
    by (rule ok; simp)+
qed

text \<open>
  C31. Loading and unloading the module balance. From a state without the module's resources,
  whatever services the kernel refuses: if loading fails, or if it succeeds and the module is
  unloaded before any client came, then the work queues, the hooks, the sockets, the Netlink
  socket, the protocol handler and the sysctl table are as before, and no fault happened on the way.
\<close>

theorem load_unload_balanced:
  assumes "\<not> g_nl_sock w" "\<not> g_pack w" "\<not> g_sysctl w" "\<not> g_accept_pending w"
    and "\<And>s. g_next_sock w \<le> s \<Longrightarrow> g_socks w s = None"
    and "pepdna_init E (\<lambda>_ v. v) macstr w = (rc, w1)"
    and "w2 = (if rc = 0 then pepdna_exit E (\<lambda>_ v. v) pend w1 else w1)"
  shows "g_wqs w2 = g_wqs w \<and> g_hooks w2 = g_hooks w \<and> g_socks w2 = g_socks w \<and> g_cons w2 = g_cons w
     \<and> g_faults w2 = g_faults w \<and> \<not> g_nl_sock w2 \<and> \<not> g_pack w2 \<and> \<not> g_sysctl w2"
proof (cases "register_net_sysctl E \<and> kzalloc E A_server")
  case False
  then have "rc \<noteq> 0 \<and> (\<exists>r m. w1 = w\<lparr>g_rmem := r, g_wmem := m\<rparr> \<or> w1 = w\<lparr>g_rmem := r, g_wmem := m, g_sysctl := False\<rparr>)"
    using assms(3,6) by (auto simp: pepdna_init_def pepdna_register_sysctl_def pepdna_server_start_def
        pepdna_unregister_sysctl_def Let_def split: if_splits)
  then show ?thesis using assms(1-4,7) by auto
next
  case True
  let ?wS = "with_sysctl w" and ?v = "init_pepdna_server E macstr (with_sysctl w)"
  note init = assms(6) [unfolded init_eq [OF True]]
  have same: "g_wqs ?wS = g_wqs w" "g_hooks ?wS = g_hooks w" "g_socks ?wS = g_socks w" "g_cons ?wS = g_cons w"
    "g_faults ?wS = g_faults w" "\<not> g_pack ?wS" "\<not> g_accept_pending ?wS" "g_mode ?wS = g_mode w"
    using assms(2,4) by (simp_all add: with_sysctl_def)
  have fresh: "\<And>s. g_next_sock ?wS \<le> s \<Longrightarrow> g_socks ?wS s = None" using assms(5) by (simp add: with_sysctl_def)
  show ?thesis
  proof (cases "start_mode E (\<lambda>_ v. v) (g_mode w) ?v")
    case None
    then have "w2 = pepdna_unregister_sysctl (?v\<lparr>g_srv := Freed\<rparr>)" using init assms(7) by simp
    with books_init(1) [of ?wS E macstr] books_init(2,4) [of E macstr ?wS] same assms(1) show ?thesis
      by (auto simp: books_def wq_count_def regs_def pepdna_unregister_sysctl_def with_sysctl_def)
  next
    case (Some r)
    obtain rc' u where r: "r = (rc', u)" by force
    note ok = init_started [OF assms(1,5) Some]
    obtain nl pack where st: "start_ok ?wS (enum_val (g_mode w) < 4) nl pack (rc', u)" "pack \<longrightarrow> CONFIG_MINIP E"
      using ok(1) r by blast
    show ?thesis
    proof (cases "rc' < 0")
      case True
      then have "w2 = pepdna_unregister_sysctl (u\<lparr>g_srv := Freed\<rparr>)" using init assms(7) Some r by auto
      with True st(1) same show ?thesis
        by (auto simp: start_ok_def books_def wq_count_def pepdna_unregister_sysctl_def)
    next
      case False
      then have w1: "rc = 0" "w1 = u" using init Some r by simp_all
      let ?hook = "enum_val (g_mode w) < 4"
      obtain l where l: "books ?wS l u" "if ?hook then l \<noteq> None else l = None \<and> s_listener (the_srv u) = None"
        "g_hooks u = g_hooks ?wS + of_bool ?hook" "g_pack u = (g_pack ?wS \<or> pack)"
        using st(1) False unfolding start_ok_def fst_conv snd_conv by (simp only: if_False) blast
      note stop = stop_books [OF l(1,2) fresh same(7) l(3), unfolded same(8), OF _ refl ok(2), 
          of "pepdna_server_stop E (\<lambda>_ v. v) pend u" E pend]
      have "w2 = pepdna_unregister_sysctl (pepdna_server_stop E (\<lambda>_ v. v) pend u)"
        using w1 assms(7) by (simp add: pepdna_exit_def)
      with stop l(4) same st(2) show ?thesis by (auto simp: pepdna_unregister_sysctl_def)
    qed
  qed
qed

definition unloaded :: world where
  "unloaded = (sample_world TCP2MINIP)\<lparr>g_srv := Null, g_hooks := 0, g_pack := False, g_sysctl := False, g_wqs := 0\<rparr>"

theorem load_unload_balanced_witness:
  "case pepdna_init sample_env (\<lambda>_ v. v) None unloaded of (rc, w1) \<Rightarrow>
     (case (if rc = 0 then pepdna_exit sample_env (\<lambda>_ v. v) [] w1 else w1) of w2 \<Rightarrow>
        g_wqs w2 = 0 \<and> g_hooks w2 = 0 \<and> g_socks w2 = Map.empty \<and> g_faults w2 = [])"
proof -
  have idle: "\<not> g_nl_sock unloaded" "\<not> g_pack unloaded" "\<not> g_sysctl unloaded" "\<not> g_accept_pending unloaded"
    "g_socks unloaded s = None" "g_wqs unloaded = 0" "g_hooks unloaded = 0" "g_socks unloaded = Map.empty"
    "g_faults unloaded = []" for s
    by (simp_all add: unloaded_def sample_world_def)
  obtain rc w1 where run: "pepdna_init sample_env (\<lambda>_ v. v) None unloaded = (rc, w1)" by force
  show ?thesis
    using load_unload_balanced [OF idle(1-4) idle(5) run refl, of "[]"] idle(6-9) run by simp
qed

end
