(* ===== verification/Pep_Global.thy ===== *)
theory Pep_Global
  imports Pep_Lifecycle
begin

section \<open>The module as a transition system\<close>

text \<open>
  Everything that can happen to a loaded module as one step relation: the netfilter hook, the
  work items of every mode, accepted clients, socket callbacks, MINIP frames, Netlink messages
  and timers. The connection table is consistent in every reachable state.
\<close>

subsection \<open>Steps\<close>

text \<open>A work item leaves the queue before its function runs.\<close>

definition dequeue :: "nat \<Rightarrow> work_slot \<Rightarrow> world \<Rightarrow> world" where
  "dequeue a slot w = w\<lparr>g_pending := filter (\<lambda>x. x \<noteq> (a, slot)) (g_pending w)\<rparr>"

text \<open>
  The function of a slot, as \<open>INIT_WORK\<close> stored it in the connection.
\<close>

definition slot_fn :: "work_slot \<Rightarrow> pepdna_con \<Rightarrow> work_fn option" where
  "slot_fn slot con = (case slot of L2R \<Rightarrow> c_l2r_work con | R2L \<Rightarrow> c_r2l_work con | TCFA \<Rightarrow> c_tcfa_work con)"

text \<open>
  One run of a work function. The arguments of a rule that the state does not determine are the
  answers of the kernel, of the network and of user space, which may differ in every step; only
  the build and the kernel's hash stay.
\<close>

inductive run_work :: "kenv \<Rightarrow> work_fn \<Rightarrow> nat \<Rightarrow> world \<Rightarrow> world \<Rightarrow> bool" where
  Run_l2r: "pepdna_con_l2r_fwd rounds a w = Some w' \<Longrightarrow> run_work E W_l2r_fwd a w w'"
| Run_r2l: "pepdna_con_r2l_fwd rounds a w = Some w' \<Longrightarrow> run_work E W_r2l_fwd a w w'"
| Run_connect: "same_build E E' \<Longrightarrow> run_work E W_tcp_connect a w (pepdna_tcp_connect E' uni a w)"
| Run_i2r: "pepdna_con_i2r_work i2r_rounds a w = Some w' \<Longrightarrow> run_work E W_i2r_work a w w'"
| Run_r2i: "pepdna_con_r2i_work r2i_rounds a w = Some w' \<Longrightarrow> run_work E W_r2i_work a w w'"
| Run_alloc: "same_build E E' \<Longrightarrow> run_work E W_rina_flow_alloc a w (pepdna_rina_flow_alloc E' uni a w)"
| Run_i2m: "pepdna_con_i2m_work i2m_rounds a w = Some w' \<Longrightarrow> run_work E W_i2m_work a w w'"
| Run_m2i: "run_work E W_m2i_work a w (pepdna_con_m2i_work a w)"
| Run_handshake: "same_build E E' \<Longrightarrow> run_work E W_minip_handshake a w (pepdna_minip_handshake E' pad a w)"
| Run_i2c: "pepdna_con_i2c_work i2c_rounds a w = Some w' \<Longrightarrow> run_work E W_i2c_work a w w'"
| Run_c2i: "pepdna_con_c2i_work rounds a w = Some w' \<Longrightarrow> run_work E W_c2i_work a w w'"
| Run_udp: "same_build E E' \<Longrightarrow> run_work E W_udp_open a w (pepdna_udp_open E' a w)"

inductive pep_step :: "kenv \<Rightarrow> world \<Rightarrow> world \<Rightarrow> bool" where
  Step_hook: "same_build E E' \<Longrightarrow> pep_step E w (snd (pepdna_pre_hook E' ts skb w))"
| Step_work: "(a, slot) \<in> set (g_pending w) \<Longrightarrow> g_cons w a = Some con \<Longrightarrow> slot_fn slot con = Some f \<Longrightarrow>
    run_work E f a (dequeue a slot w) w' \<Longrightarrow> pep_step E w w'"
| Step_accept: "g_accept_pending w \<Longrightarrow>
    pep_step E w (pepdna_acceptor_work answers (w\<lparr>g_accept_pending := False\<rparr>))"
| Step_ready: "pep_step E w (sk_data_ready s w)"
| Step_frame: "same_build E E' \<Longrightarrow> g_skbs w p = None \<Longrightarrow>
    pepdna_minip_skb_recv E' rs (Some p) (w\<lparr>g_skbs := (g_skbs w)(p \<mapsto> skb)\<rparr>) = (r, w') \<Longrightarrow> pep_step E w w'"
| Step_netlink: "same_build E E' \<Longrightarrow> pep_step E w (pepdna_nl_recv_msg E' kfa len pid payload w)"
| Step_timer: "same_build E E' \<Longrightarrow> g_cons w a = Some con \<Longrightarrow> c_timer con \<noteq> None \<Longrightarrow>
    pep_step E w (minip_sender_timeout E' a w)"

inductive_cases run_workE: "run_work E f a w w'"

lemma wf_dequeue: "wf_known I E (dequeue a slot w) = wf_known I E w"
  by (simp add: dequeue_def)

lemma wf_run_work: "run_work E f a w w' \<Longrightarrow> wf_known I E w \<Longrightarrow> wf_known I E w'"
proof (induction rule: run_work.induct)
  case (Run_connect E E' a w uni)
  then show ?case using wf_tcp_connect [of I E' w uni a] by (simp add: wf_world_build)
qed (auto simp: pepdna_con_l2r_fwd_def pepdna_con_r2l_fwd_def pepdna_con_i2r_work_def pepdna_con_r2i_work_def
    pepdna_con_m2i_work_def pepdna_con_i2c_work_def pepdna_con_c2i_work_def
    intro: wf_con_put wf_handshake wf_rina_flow_alloc wf_udp_open wf_i2m_work
    dest: wf_i2i_loop wf_i2r_loop wf_r2i_loop wf_i2c_loop wf_c2i_loop)

lemma wf_pre_hook: "wf_known I E w \<Longrightarrow> wf_known I E (snd (pepdna_pre_hook E ts skb w))"
proof -
  assume wf: "wf_known I E w"
  have "wf_known I E w'" if "pepdna_con_alloc E syn skb h ts pid w = (x, w')" for syn skb h pid x w'
    using wf_con_alloc [OF wf, of syn skb h ts pid] that by simp
  with wf show ?thesis
    by (auto simp: pepdna_pre_hook_def Let_def split: option.splits prod.splits)
qed

lemma wf_pep_step:
  assumes "pep_step E w w'" "wf_known I E w"
  shows "wf_known I E w'"
  using assms
proof (induction rule: pep_step.induct)
  case (Step_hook E E' w ts skb)
  then show ?case using wf_pre_hook [of I E' w ts skb] by (simp add: wf_world_build)
next
  case (Step_work a slot w con f E w')
  then show ?case using wf_run_work by (simp add: wf_dequeue)
next
  case (Step_accept w E answers)
  then show ?case by (simp add: pepdna_acceptor_work_def wf_tcp_accept)
next
  case (Step_ready E w s)
  then show ?case by (simp add: wf_data_ready)
next
  case (Step_frame E E' w p rs skb r w')
  let ?w = "w\<lparr>g_skbs := (g_skbs w)(p \<mapsto> skb)\<rparr>"
  have "wf_known I E' ?w" using Step_frame by (simp add: wf_world_build)
  from wf_minip_skb_recv [OF this, of rs "Some p"] Step_frame show ?case by (simp add: wf_world_build)
next
  case (Step_netlink E E' w kfa len pid payload)
  then show ?case using wf_nl_recv_msg [of I E' w kfa len pid payload] by (simp add: wf_world_build)
next
  case (Step_timer E E' w a con)
  then show ?case by (simp add: wf_sender_timeout)
qed

lemma wf_reachable: "(pep_step E)\<^sup>*\<^sup>* w w' \<Longrightarrow> wf_known I E w \<Longrightarrow> wf_known I E w'"
  by (induction rule: rtranclp_induct) (auto intro: wf_pep_step)

lemma started_supported:
  "start_mode E flush m w = Some r \<Longrightarrow> con_works E m \<noteq> None"
  by (auto simp: start_mode_def con_works_def split: option.splits server_mode.splits if_splits)

lemma loaded_state:
  assumes "pepdna_init E (\<lambda>_ v. v) macstr w = (0, w1)" "g_cons w = Map.empty" "\<not> g_nl_sock w"
    and "\<And>s. g_next_sock w \<le> s \<Longrightarrow> g_socks w s = None"
  shows "\<exists>srv. g_srv w1 = Live srv \<and> s_mode srv = g_mode w \<and> s_conns srv = 0 \<and> s_htable srv = (\<lambda>_. [])
    \<and> con_works E (s_mode srv) \<noteq> None \<and> g_cons w1 = Map.empty \<and> g_pending w1 = g_pending w \<and> g_next w1 = g_next w"
proof -
  have ok: "register_net_sysctl E \<and> kzalloc E A_server"
    using assms(1) by (auto simp: pepdna_init_def pepdna_register_sysctl_def pepdna_server_start_def Let_def split: if_splits)
  let ?v = "init_pepdna_server E macstr (with_sysctl w)"
  obtain rc where r: "start_mode E (\<lambda>_ v. v) (g_mode w) ?v = Some (rc, w1)" "\<not> rc < 0"
    using assms(1) unfolding init_eq [OF ok] by (auto split: option.splits if_splits prod.splits)
  obtain nl pack where "start_ok (with_sysctl w) (enum_val (g_mode w) < 4) nl pack (rc, w1)"
    using init_started(1) [OF assms(3,4) r(1)] by blast
  then obtain l where "books (with_sysctl w) l w1" using r(2) by (auto simp: start_ok_def)
  then have "g_srv w1 = Live (the_srv w1)" "s_mode (the_srv w1) = g_mode w" "s_conns (the_srv w1) = 0"
    "s_htable (the_srv w1) = (\<lambda>_. [])" "g_cons w1 = Map.empty" "g_pending w1 = g_pending w" "g_next w1 = g_next w"
    using assms(2) by (simp_all add: books_def live_srv_def with_sysctl_def)
  with started_supported [OF r(1)] show ?thesis by auto
qed

lemma wf_loaded:
  assumes "pepdna_init E (\<lambda>_ v. v) macstr w = (0, w1)" "g_cons w = Map.empty" "\<not> g_nl_sock w"
    and "\<And>s. g_next_sock w \<le> s \<Longrightarrow> g_socks w s = None"
  shows "wf_world E w1"
  using loaded_state [OF assms] by (auto simp: wf_known_def)

text \<open>
  C4. From a freshly loaded module, no sequence of events can break the connection table:
  intercepted packets, work items of every mode, accepted clients, socket callbacks, MINIP
  frames, Netlink messages and timers, with any contents, in any order and with any answers of
  the kernel. Every bucket holds exactly the live connections that hash to it, every live
  connection has a positive count, the server's counter is the number of live connections, and
  a lookup finds a live connection with the wanted identifier whenever there is one.
\<close>

theorem connection_table_invariant:
  assumes "pepdna_init E (\<lambda>_ v. v) macstr w0 = (0, w)" "g_cons w0 = Map.empty" "\<not> g_nl_sock w0"
    and "\<And>s. g_next_sock w0 \<le> s \<Longrightarrow> g_socks w0 s = None"
    and "(pep_step E)\<^sup>*\<^sup>* w w'"
  shows "wf_world E w'
    \<and> (\<forall>k. (\<exists>a con. g_cons w' a = Some con \<and> c_id con = k) \<longleftrightarrow>
           (\<exists>b con. pepdna_con_find E k w' = Some b \<and> g_cons w' b = Some con \<and> c_id con = k))"
proof -
  have wf: "wf_world E w'" using wf_reachable [OF assms(5) wf_loaded [OF assms(1-4)]] .
  then show ?thesis using con_find_complete [OF wf] con_find_sound [OF wf] by fast
qed

lemma con_find_build: "same_build E E' \<Longrightarrow> pepdna_con_find E' k w = pepdna_con_find E k w"
  by (simp add: same_build_def pepdna_con_find_def pepdna_hash_def split: ptr.split)

text \<open>
  C3. A client whose SYN was intercepted is matched with its own connection. From a freshly loaded
  module, after any events, the hook steals a SYN; then any further events happen, among them the
  work that opens the other side. If the connection of that SYN is still there it has kept the
  client's addresses, and unless another connection has the same identifier, accepting a socket from
  the client's address and port attaches the socket to that connection and changes nothing else of
  it but the count, marks both sides as connected and queues the forwarding of the client's data, in
  every mode. The kernel must be able to tell the address of the accepted socket, and in the mode
  TCP2RINA the forwarding from the flow must not be pending already, else the accept gives up.
\<close>

theorem intercepted_client_matched:
  assumes "pepdna_init E (\<lambda>_ v. v) macstr w0 = (0, w)" "g_cons w0 = Map.empty" "\<not> g_nl_sock w0"
    and "\<And>s. g_next_sock w0 \<le> s \<Longrightarrow> g_socks w0 s = None"
    and "(pep_step E)\<^sup>*\<^sup>* w w1" "same_build E E1" "pepdna_pre_hook E1 ts (Some p) w1 = (NF_STOLEN, w2)"
    and "(pep_step E)\<^sup>*\<^sup>* w2 w3" "g_cons w3 (g_next w1) = Some con"
    and "\<And>b c. g_cons w3 b = Some c \<Longrightarrow> c_id c = client_hash p \<Longrightarrow> b = g_next w1"
    and "same_build E E2" "kzalloc E2 A_addr" "0 \<le> kernel_getname E2 (g_next_sock w3)"
    and "g_srv w3 = Live srv" "mode_of (s_mode srv) = Some TCP2RINA \<Longrightarrow> (g_next w1, R2L) \<notin> set (g_pending w3)"
  shows "c_tuple con = syn_of p
    \<and> (\<exists>w4. accept_client E2 (p_saddr p, p_source p) w3 = (None, w4) \<and> attached (g_next w1) (g_next_sock w3) con w4
         \<and> (g_next w1, L2R) \<in> set (g_pending w4)
         \<and> (mode_of (s_mode srv) = Some TCP2RINA \<longrightarrow> (g_next w1, R2L) \<in> set (g_pending w4)))"
proof -
  let ?I = "[g_next w1 \<mapsto> (client_hash p, syn_of p)]"
  have "wf_world E1 w1"
    using wf_reachable [OF assms(5) wf_loaded [OF assms(1-4)]] assms(6) by (simp add: wf_world_build)
  from pre_hook_stolen [OF this assms(7)] have "wf_known ?I E w2" using assms(6) by (simp add: wf_world_build)
  from wf_reachable [OF assms(8) this] have wf: "wf_known ?I E w3" .
  then have wf3: "wf_world E w3" and id: "c_id con = client_hash p" "c_tuple con = syn_of p"
    using wf_known_world wf_known_con [OF wf _ assms(9)] by auto
  obtain b where b: "pepdna_con_find E (client_hash p) w3 = Some b" using con_find_complete [OF wf3 assms(9)] id(1) by auto
  then have "b = g_next w1" using con_find_sound [OF wf3 b] assms(10) by blast
  then have "pepdna_con_find E2 (pepdna_hash32_rjenkins1_2 (p_saddr p) (p_source p)) w3 = Some (g_next w1)"
    using b con_find_build [OF assms(11)] by (simp add: client_hash_def)
  from accept_client_ok [OF wf3 assms(14,12,13,15) this assms(9)] id(2) show ?thesis by simp
qed

lemma start_steps_ok:
  "g_srv w = Live srv \<Longrightarrow> (\<And>n. alloc_workqueue E n) \<Longrightarrow> fst (pepdna_work_init E w) = 0"
  "g_srv w = Live srv \<Longrightarrow> 0 \<le> sock_create_kern E \<Longrightarrow> 0 \<le> kernel_bind E \<Longrightarrow> 0 \<le> kernel_listen E \<Longrightarrow>
    fst (pepdna_tcp_listen_init E w) = 0"
  by (simp_all add: pepdna_work_init_def pepdna_tcp_listen_init_def new_socket_def Let_def)

lemma sample_loads: "fst (pepdna_init sample_env (\<lambda>_ v. v) None unloaded) = 0"
proof -
  have ok: "register_net_sysctl sample_env \<and> kzalloc sample_env A_server" "\<And>n. alloc_workqueue sample_env n"
    "0 \<le> sock_create_kern sample_env" "0 \<le> kernel_bind sample_env" "0 \<le> kernel_listen sample_env"
    "CONFIG_MINIP sample_env" by (simp_all add: sample_env_def)
  let ?v = "init_accept_work (init_pepdna_server sample_env None (with_sysctl unloaded))"
  obtain srv where v: "g_srv ?v = Live srv" by (simp add: init_accept_work_def init_pepdna_server_def upd_srv_def)
  obtain rc w1 where wi: "pepdna_work_init sample_env ?v = (rc, w1)" by force
  have rc: "rc = 0" using start_steps_ok(1) [OF v, of sample_env] ok(2) wi by simp
  obtain srv1 where w1: "g_srv w1 = Live srv1"
    using wi v ok(2) by (auto simp: pepdna_work_init_def add_wq_def upd_srv_def Let_def split: if_splits)
  have li: "fst (pepdna_tcp_listen_init sample_env w1) = 0" by (rule start_steps_ok(2) [OF w1 ok(3-5)])
  have "start_mode sample_env (\<lambda>_ v. v) 3 w = Some (pepdna_i2m_start sample_env (\<lambda>_ v. v) w)" for w
    by (simp add: start_mode_def mode_of_def ok(6))
  moreover have "fst (pepdna_i2m_start sample_env (\<lambda>_ v. v)
      (init_pepdna_server sample_env None (with_sysctl unloaded))) = 0"
    using wi rc li by (auto simp: pepdna_i2m_start_def split: prod.splits)
  moreover have "g_mode unloaded = 3" by (simp add: unloaded_def sample_world_def)
  ultimately show ?thesis
    unfolding init_eq [OF ok(1)] by (auto split: prod.splits)
qed

definition sample_loaded :: world where
  "sample_loaded = snd (pepdna_init sample_env (\<lambda>_ v. v) None unloaded)"

lemma sample_init: "pepdna_init sample_env (\<lambda>_ v. v) None unloaded = (0, sample_loaded)"
  using sample_loads by (simp add: sample_loaded_def prod_eq_iff)

lemma unloaded_idle: "g_cons unloaded = Map.empty" "\<not> g_nl_sock unloaded" "g_socks unloaded s = None"
  by (simp_all add: unloaded_def sample_world_def)

lemma sample_loaded_state:
  "\<exists>srv. g_srv sample_loaded = Live srv \<and> s_mode srv = 3 \<and> con_works sample_env (s_mode srv) \<noteq> None
    \<and> s_htable srv = (\<lambda>_. []) \<and> g_cons sample_loaded = Map.empty \<and> g_pending sample_loaded = [] \<and> g_next sample_loaded = 0"
  using loaded_state [OF sample_init unloaded_idle] by (auto simp: unloaded_def sample_world_def)

text \<open>The hook steals the first client's SYN, and the work that was queued for it sends the MINIP request.\<close>

lemma sample_client:
  "\<exists>w2 w3 con srv. pepdna_pre_hook sample_env 5 (Some ex_client) sample_loaded = (NF_STOLEN, w2)
    \<and> pep_step sample_env w2 w3 \<and> g_srv w3 = Live srv \<and> s_mode srv = 3
    \<and> g_cons w3 = [0 \<mapsto> con] \<and> c_state con = REQUEST_SENT"
proof -
  obtain srv where srv: "g_srv sample_loaded = Live srv" "s_mode srv = 3" "con_works sample_env (s_mode srv) \<noteq> None"
      "s_htable srv = (\<lambda>_. [])" "g_cons sample_loaded = Map.empty" "g_pending sample_loaded = []" "g_next sample_loaded = 0"
    using sample_loaded_state by blast
  define con where "con = new_con sample_env 3 (syn_of ex_client) (Some (ex_client\<lparr>p_tstamp := 5\<rparr>)) (client_hash ex_client) 5 0"
  define w2 where "w2 = sample_loaded\<lparr>g_next := 1, g_cons := [0 \<mapsto> con],
    g_srv := Live (hash_add sample_env 0 (client_hash ex_client) (srv\<lparr>s_conns := s_conns srv + 1\<rparr>)), g_pending := [(0, TCFA)]\<rparr>"
  have alloc: "kzalloc sample_env x" for x by (simp add: sample_env_def)
  have "pepdna_con_find sample_env k sample_loaded = None" for k using srv by (simp add: pepdna_con_find_def)
  then have hook: "pepdna_pre_hook sample_env 5 (Some ex_client) sample_loaded = (NF_STOLEN, w2)"
    using ex_client_simps con_alloc_ok [OF srv(1) alloc srv(3), of "syn_of ex_client" "Some (ex_client\<lparr>p_tstamp := 5\<rparr>)" "client_hash ex_client" 5 0]
      srv(2,5-7) alloc
    by (simp add: pepdna_pre_hook_def plain_syn_def own_syn_def syn_of_def client_hash_def w2_def con_def Let_def)
  have fn: "slot_fn TCFA con = Some W_minip_handshake"
    by (simp add: con_def new_con_def init_con_def con_works_def mode_of_def slot_fn_def sample_env_def Let_def)
  let ?d = "dequeue 0 TCFA w2" and ?g = "\<lambda>c. c\<lparr>c_state := REQUEST_SENT, c_next_seq := c_next_seq c + 1\<rparr>"
  have d: "g_cons ?d = [0 \<mapsto> con]" "g_srv ?d = g_srv w2" by (simp_all add: dequeue_def w2_def)
  define w3 where "w3 = pepdna_minip_handshake sample_env [0, 0, 0, 0] 0 ?d"
  have w3: "w3 = upd_con 0 ?g (?d\<lparr>g_out := g_out ?d @ [request_frame sample_env [0, 0, 0, 0] con (to_mac ?d)]\<rparr>)"
    unfolding w3_def by (rule handshake_ok [OF healthy_sample]) (simp add: d)
  have "run_work sample_env W_minip_handshake 0 ?d w3"
    unfolding w3_def by (rule Run_handshake) (simp add: same_build_def)
  then have step: "pep_step sample_env w2 w3" by (rule Step_work [rotated 3]) (use fn in \<open>simp_all add: w2_def\<close>)
  have cons: "g_cons w3 = [0 \<mapsto> ?g con]" and "g_srv w3 = g_srv w2" using d unfolding w3 by (simp_all add: upd_con_def)
  then obtain srv' where srv': "g_srv w3 = Live srv'" "s_mode srv' = 3" using srv(2) by (simp add: w2_def hash_add_def)
  show ?thesis by (intro exI conjI) (rule hook, rule step, rule srv', rule srv', rule cons, simp)
qed

theorem intercepted_client_matched_witness:
  "\<exists>w2 w3 w4 con. pepdna_pre_hook sample_env 5 (Some ex_client) sample_loaded = (NF_STOLEN, w2)
    \<and> pep_step sample_env w2 w3 \<and> g_cons w3 0 = Some con \<and> c_state con = REQUEST_SENT \<and> c_tuple con = syn_of ex_client
    \<and> accept_client sample_env (1, 3) w3 = (None, w4) \<and> attached 0 (g_next_sock w3) con w4 \<and> (0, L2R) \<in> set (g_pending w4)"
proof -
  obtain w2 w3 con srv where c: "pepdna_pre_hook sample_env 5 (Some ex_client) sample_loaded = (NF_STOLEN, w2)"
      "pep_step sample_env w2 w3" "g_srv w3 = Live srv" "s_mode srv = 3" "g_cons w3 = [0 \<mapsto> con]" "c_state con = REQUEST_SENT"
    using sample_client by blast
  have build: "same_build sample_env sample_env" by (simp add: same_build_def)
  have steps: "(pep_step sample_env)\<^sup>*\<^sup>* w2 w3" using c(2) by (rule r_into_rtranclp)
  have zero: "g_next sample_loaded = 0" using sample_loaded_state by blast
  have live: "g_cons w3 (g_next sample_loaded) = Some con" using c(5) zero by simp
  have only: "b = g_next sample_loaded" if "g_cons w3 b = Some d" "c_id d = client_hash ex_client" for b d
    using that c(5) zero by (auto split: if_splits)
  have mode: "(g_next sample_loaded, R2L) \<notin> set (g_pending w3)" if "mode_of (s_mode srv) = Some TCP2RINA"
    using that c(4) by (simp add: mode_of_def)
  have env: "kzalloc sample_env A_addr" "0 \<le> kernel_getname sample_env (g_next_sock w3)" by (simp_all add: sample_env_def)
  have "p_saddr ex_client = 1" "p_source ex_client = 3" by (simp_all add: ex_client_def ex_syn_def)
  moreover have "c_tuple con = syn_of ex_client
    \<and> (\<exists>w4. accept_client sample_env (p_saddr ex_client, p_source ex_client) w3 = (None, w4)
         \<and> attached (g_next sample_loaded) (g_next_sock w3) con w4 \<and> (g_next sample_loaded, L2R) \<in> set (g_pending w4)
         \<and> (mode_of (s_mode srv) = Some TCP2RINA \<longrightarrow> (g_next sample_loaded, R2L) \<in> set (g_pending w4)))"
    by (rule intercepted_client_matched [OF sample_init unloaded_idle rtranclp.rtrancl_refl build c(1) steps live _ build env c(3)])
      (erule only mode, assumption?)+
  ultimately obtain w4 where w4: "c_tuple con = syn_of ex_client" "accept_client sample_env (1, 3) w3 = (None, w4)"
      "attached 0 (g_next_sock w3) con w4" "(0, L2R) \<in> set (g_pending w4)"
    unfolding zero by auto
  have "g_cons w3 0 = Some con" using c(5) by simp
  with c(1,2,6) w4 show ?thesis by blast
qed

theorem connection_table_invariant_witness:
  "wf_world sample_env (snd (pepdna_pre_hook sample_env 5 (Some ex_client)
     (snd (pepdna_init sample_env (\<lambda>_ v. v) None unloaded))))"
proof -
  have "pep_step sample_env sample_loaded (snd (pepdna_pre_hook sample_env 5 (Some ex_client) sample_loaded))"
    by (rule Step_hook) (simp add: same_build_def)
  then show ?thesis
    using connection_table_invariant [OF sample_init unloaded_idle r_into_rtranclp] by (simp add: sample_loaded_def)
qed

end
