(* ===== verification/Ccn_Parse.thy ===== *)
theory Ccn_Parse
  imports Ccn_Ndntlv
begin

section \<open>Parsing packets of the format NDNTLV (ccnl-pkt-ndntlv.c)\<close>

text \<open>
  The parser of the relay. A pointer into the receive buffer is the list of the bytes from there to
  the end of the memory block, which may be longer than the packet; a length is a \<open>size_t\<close> and
  wraps. A function has parsed its input, has rejected it, or has accessed memory outside the block
  (or has moved a pointer out of it). \<open>al\<close> says which allocations succeed.
\<close>

datatype 'a outcome = Parsed 'a | Rejected | BadAccess

fun if_parsed :: "'a outcome \<Rightarrow> ('a \<Rightarrow> 'b outcome) \<Rightarrow> 'b outcome" where
  "if_parsed (Parsed x) k = k x"
| "if_parsed Rejected k = Rejected"
| "if_parsed BadAccess k = BadAccess"

text \<open>
  A number, and the pointer and length behind it. On failure, and only then, they are unchanged. The
  first byte is read before the length is looked at.
\<close>

definition ccnl_ndntlv_varlenint :: "bytes \<Rightarrow> u64 \<Rightarrow> (u64 option \<times> bytes \<times> u64) outcome" where
  "ccnl_ndntlv_varlenint buf len =
    (case buf of [] \<Rightarrow> BadAccess
     | b # r \<Rightarrow>
        (if b < 253 \<and> 1 \<le> len then Parsed (Some (ucast b), r, len - 1)
         else if b = 253 \<and> 3 \<le> len then
           (case r of b1 # b2 # r \<Rightarrow> Parsed (Some (push_bit 8 (ucast b1) OR ucast b2), r, len - 3)
            | _ \<Rightarrow> BadAccess)
         else if b = 254 \<and> 5 \<le> len then
           (case r of b1 # b2 # b3 # b4 # r \<Rightarrow>
                Parsed (Some (push_bit 24 (ucast b1) OR push_bit 16 (ucast b2) OR push_bit 8 (ucast b3) OR ucast b4),
                        r, len - 5)
            | _ \<Rightarrow> BadAccess)
         else Parsed (None, buf, len)))"

fun nonneg_bytes :: "bytes \<Rightarrow> u64 \<Rightarrow> u64" where
  "nonneg_bytes [] val = val"
| "nonneg_bytes (b # bs) val = nonneg_bytes bs (push_bit 8 val OR ucast b)"

definition ccnl_ndntlv_nonNegInt :: "bytes \<Rightarrow> u64 \<Rightarrow> u64 outcome" where
  "ccnl_ndntlv_nonNegInt cp len =
    (if length cp < unat len then BadAccess else Parsed (nonneg_bytes (take (unat len) cp) 0))"

text \<open>
  A header: type and length. The length is compared with the number of bytes that were left before
  the header was read.
\<close>

definition ccnl_ndntlv_dehead :: "bytes \<Rightarrow> u64 \<Rightarrow> ((u64 \<times> u64) option \<times> bytes \<times> u64) outcome" where
  "ccnl_ndntlv_dehead buf len =
    if_parsed (ccnl_ndntlv_varlenint buf len)
      (\<lambda>(typ, buf', len').
         case typ of None \<Rightarrow> Parsed (None, buf', len')
         | Some typ \<Rightarrow>
             if_parsed (ccnl_ndntlv_varlenint buf' len')
               (\<lambda>(vallen, buf'', len'').
                  case vallen of None \<Rightarrow> Parsed (None, buf'', len'')
                  | Some vallen \<Rightarrow>
                      if len < vallen then Parsed (None, buf'', len'')
                      else Parsed (Some (typ, vallen), buf'', len'')))"

text \<open>Moving a pointer forward by a length taken from the packet.\<close>

definition advance :: "bytes \<Rightarrow> u64 \<Rightarrow> bytes outcome" where
  "advance cp i = (if length cp < unat i then BadAccess else Parsed (drop (unat i) cp))"

lemma varlenint_shorter:
  "ccnl_ndntlv_varlenint buf len = Parsed (Some v, buf', len') \<Longrightarrow> length buf' < length buf"
  by (auto simp: ccnl_ndntlv_varlenint_def split: list.splits if_splits)

lemma dehead_shorter:
  assumes "ccnl_ndntlv_dehead buf len = Parsed (Some tv, buf', len')"
  shows "length buf' < length buf"
proof -
  obtain t b1 l1 vl where "ccnl_ndntlv_varlenint buf len = Parsed (Some t, b1, l1)"
    "ccnl_ndntlv_varlenint b1 l1 = Parsed (Some vl, buf', len')"
    using assms
    by (cases "ccnl_ndntlv_varlenint buf len"; simp add: ccnl_ndntlv_dehead_def split: prod.splits option.splits)
      (auto elim!: if_parsed.elims split: option.splits if_splits)
  then show ?thesis by (blast dest: varlenint_shorter intro: less_trans)
qed

lemma advance_length: "advance cp i = Parsed cp' \<Longrightarrow> length cp' \<le> length cp"
  by (auto simp: advance_def split: if_splits)

lemma block_shorter:
  "\<lbrakk>ccnl_ndntlv_dehead cp len = Parsed (Some tv, cp1, len'); advance cp1 i = Parsed cp2\<rbrakk> \<Longrightarrow> length cp2 < length cp"
  using dehead_shorter advance_length by fastforce

lemma inner_block_shorter:
  "\<lbrakk>ccnl_ndntlv_dehead cp len = Parsed (Some tv, cp1, len'); ccnl_ndntlv_dehead cp1 l = Parsed (Some tv', cp2, l');
    advance cp2 i = Parsed cp3\<rbrakk> \<Longrightarrow> length cp3 < length cp"
  by (blast dest: dehead_shorter block_shorter intro: less_trans)

subsection \<open>The blocks of a packet\<close>

text \<open>
  One component of a name. A component that begins with the segment marker also sets the chunk
  number; the number is allocated without a check.
\<close>

definition add_component :: "ccn_mem \<Rightarrow> ccnl_prefix_s \<Rightarrow> bytes \<Rightarrow> u64 \<Rightarrow> ccnl_prefix_s outcome" where
  "add_component al p cp i =
    (case cp of [] \<Rightarrow> BadAccess
     | b # r \<Rightarrow>
        if_parsed
          (if b = NDN_Marker_SegmentNumber then
             if_parsed (ccnl_ndntlv_nonNegInt r (i - 1))
               (\<lambda>n. if 0xffffffff < n then Rejected
                    else if \<not> al C_chunknum then BadAccess
                    else Parsed (p\<lparr>px_chunknum := Some (ucast n)\<rparr>))
           else Parsed p)
          (\<lambda>p. Parsed (p\<lparr>px_comp := (px_comp p)[px_compcnt p := take (unat i) cp], px_compcnt := px_compcnt p + 1\<rparr>)))"

function name_block :: "ccn_mem \<Rightarrow> ccnl_prefix_s \<Rightarrow> bytes \<Rightarrow> u64 \<Rightarrow> ccnl_prefix_s outcome" where
  "name_block al p cp len2 =
    (if len2 = 0 then Parsed p
     else case ccnl_ndntlv_dehead cp len2 of
            Parsed (Some (typ, i), cp', len') \<Rightarrow>
              (case (if typ = NDN_TLV_NameComponent \<and> px_compcnt p < CCNL_MAX_NAME_COMP
                     then add_component al p cp' i else Parsed p) of
                 Parsed p' \<Rightarrow>
                   (case advance cp' i of Parsed cp'' \<Rightarrow> name_block al p' cp'' (len' - i)
                    | Rejected \<Rightarrow> Rejected | BadAccess \<Rightarrow> BadAccess)
               | Rejected \<Rightarrow> Rejected | BadAccess \<Rightarrow> BadAccess)
          | Parsed (None, _, _) \<Rightarrow> Rejected
          | Rejected \<Rightarrow> Rejected | BadAccess \<Rightarrow> BadAccess)"
  by pat_completeness auto
termination
  by (relation "measure (\<lambda>(al, p, cp, len2). length cp)")
    (auto dest: block_shorter)

declare name_block.simps [simp del]

record ccnl_pkt_s =
  pk_buf :: bytes
  pk_pfx :: "ccnl_prefix_s option"
  pk_content :: "bytes option"
  pk_type :: u64
  pk_val :: u64
  pk_minsuffix :: u64
  pk_maxsuffix :: u64
  pk_scope :: u64
  pk_mbf :: bool
  pk_nonce :: "bytes option"
  pk_interestlifetime :: u64
  pk_freshnessperiod :: u64
  pk_hmac :: "(nat \<times> bytes) option"
  pk_flags :: u32
  pk_suite :: int

text \<open>
  \<open>pk_val\<close> is the union of \<open>final_block_id\<close> and \<open>seqno\<close>; \<open>pk_hmac\<close> holds the length of the
  signed part and the signature.
\<close>

definition select_block :: "ccnl_pkt_s \<Rightarrow> u64 \<Rightarrow> bytes \<Rightarrow> u64 \<Rightarrow> ccnl_pkt_s outcome" where
  "select_block pkt typ cp i =
    (if typ = NDN_TLV_MinSuffixComponents
     then if_parsed (ccnl_ndntlv_nonNegInt cp i) (\<lambda>v. Parsed (pkt\<lparr>pk_minsuffix := v\<rparr>))
     else if typ = NDN_TLV_MaxSuffixComponents
     then if_parsed (ccnl_ndntlv_nonNegInt cp i) (\<lambda>v. Parsed (pkt\<lparr>pk_maxsuffix := v\<rparr>))
     else if typ = NDN_TLV_MustBeFresh then Parsed (pkt\<lparr>pk_mbf := True\<rparr>)
     else Parsed pkt)"

function selectors_block :: "ccnl_pkt_s \<Rightarrow> bytes \<Rightarrow> u64 \<Rightarrow> ccnl_pkt_s outcome" where
  "selectors_block pkt cp len2 =
    (if len2 = 0 then Parsed pkt
     else case ccnl_ndntlv_dehead cp len2 of
            Parsed (Some (typ, i), cp', len') \<Rightarrow>
              (case select_block pkt typ cp' i of
                 Parsed pkt' \<Rightarrow>
                   (case advance cp' i of Parsed cp'' \<Rightarrow> selectors_block pkt' cp'' (len' - i)
                    | Rejected \<Rightarrow> Rejected | BadAccess \<Rightarrow> BadAccess)
               | Rejected \<Rightarrow> Rejected | BadAccess \<Rightarrow> BadAccess)
          | Parsed (None, _, _) \<Rightarrow> Rejected
          | Rejected \<Rightarrow> Rejected | BadAccess \<Rightarrow> BadAccess)"
  by pat_completeness auto
termination
  by (relation "measure (\<lambda>(pkt, cp, len2). length cp)") (auto dest: block_shorter)

declare selectors_block.simps [simp del]

text \<open>
  Meta information. The final block identifier is a component inside a block; the loop goes on
  behind the inner one.
\<close>

function metainfo_block :: "ccnl_pkt_s \<Rightarrow> bytes \<Rightarrow> u64 \<Rightarrow> ccnl_pkt_s outcome" where
  "metainfo_block pkt cp len2 =
    (if len2 = 0 then Parsed pkt
     else case ccnl_ndntlv_dehead cp len2 of
            Parsed (Some (typ, i), cp1, len1) \<Rightarrow>
              (case (if typ = NDN_TLV_FreshnessPeriod
                     then if_parsed (ccnl_ndntlv_nonNegInt cp1 i) (\<lambda>v. Parsed (pkt\<lparr>pk_freshnessperiod := v\<rparr>))
                     else Parsed pkt) of
                 Parsed pkt1 \<Rightarrow>
                   (if typ = NDN_TLV_FinalBlockId then
                      (case ccnl_ndntlv_dehead cp1 len1 of
                         Parsed (Some (typ2, i2), cp2, len2') \<Rightarrow>
                           (case (if typ2 = NDN_TLV_NameComponent then
                                    (case cp2 of [] \<Rightarrow> BadAccess
                                     | _ # r \<Rightarrow> if_parsed (ccnl_ndntlv_nonNegInt r (i2 - 1))
                                                 (\<lambda>v. if v < 2 ^ 63 then Parsed (pkt1\<lparr>pk_val := v\<rparr>) else Rejected))
                                  else Parsed pkt1) of
                              Parsed pkt2 \<Rightarrow>
                                (case advance cp2 i2 of
                                   Parsed cp3 \<Rightarrow> metainfo_block pkt2 cp3 (len2' - i2)
                                 | Rejected \<Rightarrow> Rejected | BadAccess \<Rightarrow> BadAccess)
                            | Rejected \<Rightarrow> Rejected | BadAccess \<Rightarrow> BadAccess)
                       | Parsed (None, _, _) \<Rightarrow> Rejected
                       | Rejected \<Rightarrow> Rejected | BadAccess \<Rightarrow> BadAccess)
                    else
                      (case advance cp1 i of
                         Parsed cp2 \<Rightarrow> metainfo_block pkt1 cp2 (len1 - i)
                       | Rejected \<Rightarrow> Rejected | BadAccess \<Rightarrow> BadAccess))
               | Rejected \<Rightarrow> Rejected | BadAccess \<Rightarrow> BadAccess)
          | Parsed (None, _, _) \<Rightarrow> Rejected
          | Rejected \<Rightarrow> Rejected | BadAccess \<Rightarrow> BadAccess)"
  by pat_completeness auto
termination
  by (relation "measure (\<lambda>(pkt, cp, len2). length cp)") (auto dest: block_shorter inner_block_shorter)

declare metainfo_block.simps [simp del]

text \<open>Whether the signature is of the type HMAC.\<close>

function siginfo_block :: "bytes \<Rightarrow> u64 \<Rightarrow> bool \<Rightarrow> bool outcome" where
  "siginfo_block cp len2 hmac =
    (if len2 = 0 then Parsed hmac
     else case ccnl_ndntlv_dehead cp len2 of
            Parsed (Some (typ, i), cp', len') \<Rightarrow>
              (if typ = NDN_TLV_SignatureType \<and> i = 1 \<and> cp' = [] then BadAccess
               else if typ = NDN_TLV_SignatureType \<and> i = 1 \<and> hd cp' = NDN_VAL_SIGTYPE_HMAC256 then Parsed True
               else (case advance cp' i of Parsed cp'' \<Rightarrow> siginfo_block cp'' (len' - i) hmac
                     | Rejected \<Rightarrow> Rejected | BadAccess \<Rightarrow> BadAccess))
          | Parsed (None, _, _) \<Rightarrow> Rejected
          | Rejected \<Rightarrow> Rejected | BadAccess \<Rightarrow> BadAccess)"
  by pat_completeness auto
termination
  by (relation "measure (\<lambda>(cp, len2, hmac). length cp)") (auto dest: block_shorter)

declare siginfo_block.simps [simp del]

subsection \<open>A whole packet\<close>

definition CCNL_INTEREST_TIMEOUT :: u64 where "CCNL_INTEREST_TIMEOUT = 10"

text \<open>
  One block at the top level: its type, its position in the packet, the bytes from its value on and
  the length of the value. The position and length noted for a name cover the header of its block.
\<close>

definition packet_block ::
    "ccn_mem \<Rightarrow> ccnl_pkt_s \<Rightarrow> bool \<Rightarrow> u64 \<Rightarrow> nat \<Rightarrow> nat \<Rightarrow> bytes \<Rightarrow> u64 \<Rightarrow> (ccnl_pkt_s \<times> bool) outcome" where
  "packet_block al pkt hmac typ oldpos pos data len =
    (if typ = NDN_TLV_Name then
       (if pk_pfx pkt \<noteq> None then Rejected
        else case ccnl_prefix_new al CCNL_SUITE_NDNTLV CCNL_MAX_NAME_COMP of None \<Rightarrow> Rejected
        | Some p \<Rightarrow>
            if_parsed (name_block al (p\<lparr>px_compcnt := 0\<rparr>) data len)
              (\<lambda>p. Parsed (pkt\<lparr>pk_pfx := Some (p\<lparr>px_name := Some (oldpos, pos - oldpos)\<rparr>), pk_val := -1\<rparr>, hmac)))
     else if typ = NDN_TLV_Selectors then if_parsed (selectors_block pkt data len) (\<lambda>pkt. Parsed (pkt, hmac))
     else if typ = NDN_TLV_Nonce then
       (if length data < unat len then BadAccess
        else Parsed (pkt\<lparr>pk_nonce := (if al C_nonce then Some (take (unat len) data) else None)\<rparr>, hmac))
     else if typ = NDN_TLV_Scope then
       if_parsed (ccnl_ndntlv_nonNegInt data len) (\<lambda>v. Parsed (pkt\<lparr>pk_scope := v\<rparr>, hmac))
     else if typ = NDN_TLV_Content \<or> typ = NDN_TLV_NdnlpFragment then
       Parsed (pkt\<lparr>pk_content := Some (take (unat len) data)\<rparr>, hmac)
     else if typ = NDN_TLV_MetaInfo then if_parsed (metainfo_block pkt data len) (\<lambda>pkt. Parsed (pkt, hmac))
     else if typ = NDN_TLV_InterestLifetime then
       if_parsed (ccnl_ndntlv_nonNegInt data len) (\<lambda>v. Parsed (pkt\<lparr>pk_interestlifetime := v\<rparr>, hmac))
     else if typ = NDN_TLV_Frag_BeginEndFields then
       if_parsed (ccnl_ndntlv_nonNegInt data len)
         (\<lambda>v. Parsed (pkt\<lparr>pk_val := v AND 0x3fff,
                         pk_flags := pk_flags pkt OR (if v AND 0x4000 \<noteq> 0 then 4 else 0)
                                     OR (if v AND 0x8000 \<noteq> 0 then 8 else 0)\<rparr>, hmac))
     else if typ = NDN_TLV_SignatureInfo then
       if_parsed (siginfo_block data len hmac) (\<lambda>hmac. Parsed (pkt, hmac))
     else if typ = NDN_TLV_SignatureValue then
       Parsed (if hmac \<and> len = 32 then pkt\<lparr>pk_hmac := Some (oldpos, take 32 data)\<rparr> else pkt, hmac)
     else Parsed (pkt, hmac))"

function packet_loop ::
    "ccn_mem \<Rightarrow> bytes \<Rightarrow> ccnl_pkt_s \<Rightarrow> bool \<Rightarrow> bytes \<Rightarrow> u64 \<Rightarrow> (ccnl_pkt_s \<times> bytes \<times> u64) outcome" where
  "packet_loop al start pkt hmac data datalen =
    (case ccnl_ndntlv_dehead data datalen of
       Parsed (Some (typ, len), data', datalen') \<Rightarrow>
         (case packet_block al pkt hmac typ (length start - length data) (length start - length data') data' len of
            Parsed (pkt', hmac') \<Rightarrow>
              (case advance data' len of
                 Parsed data'' \<Rightarrow> packet_loop al start pkt' hmac' data'' (datalen' - len)
               | Rejected \<Rightarrow> Rejected | BadAccess \<Rightarrow> BadAccess)
          | Rejected \<Rightarrow> Rejected | BadAccess \<Rightarrow> BadAccess)
     | Parsed (None, data', datalen') \<Rightarrow> if 0 < datalen' then Rejected else Parsed (pkt, data', datalen')
     | Rejected \<Rightarrow> Rejected | BadAccess \<Rightarrow> BadAccess)"
  by pat_completeness auto
termination
  by (relation "measure (\<lambda>(al, start, pkt, hmac, data, datalen). length data)") (auto dest: block_shorter)

declare packet_loop.simps [simp del]

definition zero_pkt :: "u64 \<Rightarrow> u32 \<Rightarrow> ccnl_pkt_s" where
  "zero_pkt typ flags = \<lparr>pk_buf = [], pk_pfx = None, pk_content = None, pk_type = typ, pk_val = 0, pk_minsuffix = 0,
     pk_maxsuffix = of_nat CCNL_MAX_NAME_COMP, pk_scope = 3, pk_mbf = False, pk_nonce = None,
     pk_interestlifetime = CCNL_INTEREST_TIMEOUT * 1000, pk_freshnessperiod = 0, pk_hmac = None, pk_flags = flags,
     pk_suite = CCNL_SUITE_NDNTLV\<rparr>"

definition ccnl_ndntlv_bytes2pkt ::
    "ccn_mem \<Rightarrow> u64 \<Rightarrow> bytes \<Rightarrow> bytes \<Rightarrow> u64 \<Rightarrow> (ccnl_pkt_s \<times> bytes \<times> u64) outcome" where
  "ccnl_ndntlv_bytes2pkt al pkttype start data datalen =
    (if \<not> al C_pkt then Rejected
     else if pkttype \<noteq> NDN_TLV_Interest \<and> pkttype \<noteq> NDN_TLV_Data then Rejected
     else if_parsed
            (packet_loop al start (zero_pkt pkttype (if pkttype = NDN_TLV_Interest then 1 else 2)) False data datalen)
            (\<lambda>(pkt, data', datalen').
               if al C_buf then Parsed (pkt\<lparr>pk_buf := take (length start - length data') start\<rparr>, data', datalen')
               else Rejected))"

text \<open>What the relay does with a datagram first: strip the outer header, parse the rest.\<close>

definition ndntlv_datagram :: "ccn_mem \<Rightarrow> bytes \<Rightarrow> u64 \<Rightarrow> ccnl_pkt_s outcome" where
  "ndntlv_datagram al start datalen =
    if_parsed (ccnl_ndntlv_dehead start datalen)
      (\<lambda>(h, data, datalen).
         case h of None \<Rightarrow> Rejected
         | Some (typ, len) \<Rightarrow>
             if datalen < len then Rejected
             else if_parsed (ccnl_ndntlv_bytes2pkt al typ start data datalen) (\<lambda>(pkt, _). Parsed (pkt\<lparr>pk_type := typ\<rparr>)))"

subsection \<open>Reading back numbers and headers\<close>

lemma shift_or_byte: "push_bit 8 v OR ucast (b :: u8) = (v * 256 + ucast b :: u64)"
proof -
  have "push_bit 8 v OR ucast b = push_bit 8 v + (ucast b :: u64)"
    by (rule disjunctive_add [symmetric]) (auto simp: bit_simps dest: bit_imp_le_length)
  then show ?thesis by (simp add: push_bit_eq_mult)
qed

lemma nonneg_bytes_append: "nonneg_bytes (xs @ ys) v = nonneg_bytes ys (nonneg_bytes xs v)"
  by (induction xs arbitrary: v) simp_all

lemma byte_split: "drop_bit 8 v * 256 + ucast (ucast v :: u8) = (v :: u64)"
proof -
  have "drop_bit 8 v * 256 + ucast (ucast v :: u8) = push_bit 8 (drop_bit 8 v) OR ucast (ucast v :: u8)"
    by (simp add: shift_or_byte)
  also have "\<dots> = v" by (rule bit_eqI) (auto simp: bit_simps)
  finally show ?thesis .
qed

lemma nonneg_be_bytes: "unat v < 2 ^ (8 * n) \<Longrightarrow> nonneg_bytes (be_bytes n v) 0 = v"
proof (induction n arbitrary: v)
  case (Suc n)
  have "unat (drop_bit 8 v) < 2 ^ (8 * n)"
    using Suc.prems drop_bit_zero_iff [of "8 * n" "drop_bit 8 v"] drop_bit_zero_iff [of "8 * Suc n" v]
    by (simp add: add.commute)
  with Suc.IH show ?case by (simp add: nonneg_bytes_append shift_or_byte byte_split)
qed (simp add: unat_eq_0)

lemma unat_of_nat64: "n < 2 ^ 64 \<Longrightarrow> unat (of_nat n :: u64) = n"
  by (simp add: unat_of_nat take_bit_nat_eq_self)

lemma of_nat64_0: "n < 2 ^ 64 \<Longrightarrow> (of_nat n :: u64) = 0 \<longleftrightarrow> n = 0"
  using unat_of_nat64 [of n] by (auto simp: unat_eq_0 [symmetric])

lemma length_enc_tlval: "0 < length (enc_tlval v)" "length (enc_tlval v) \<le> 9"
  by (auto simp: enc_tlval_def)

lemma be_bytes_numeral: "be_bytes 2 v = [ucast (drop_bit 8 v), ucast v]"
  "be_bytes 4 v = [ucast (drop_bit 24 v), ucast (drop_bit 16 v), ucast (drop_bit 8 v), ucast v]"
  by (simp_all add: numeral_eq_Suc)

lemma varlenint_enc:
  assumes "v \<le> 0xffffffff" "length (enc_tlval v) \<le> n" "n < 2 ^ 64"
  shows "ccnl_ndntlv_varlenint (enc_tlval v @ r) (of_nat n) = Parsed (Some v, r, of_nat (n - length (enc_tlval v)))"
proof -
  have len: "of_nat k \<le> (of_nat n :: u64) \<longleftrightarrow> k \<le> n" if "k < 2 ^ 64" for k
    using assms(3) that by (simp add: word_le_nat_alt unat_of_nat64)
  have le: "1 \<le> (of_nat n :: u64) \<longleftrightarrow> 1 \<le> n" "3 \<le> (of_nat n :: u64) \<longleftrightarrow> 3 \<le> n" "5 \<le> (of_nat n :: u64) \<longleftrightarrow> 5 \<le> n"
    using len [of 1] len [of 3] len [of 5] by simp_all
  consider (b) "v < 253" | (w) "\<not> v < 253" "v \<le> 0xffff" | (l) "\<not> v < 253" "\<not> v \<le> 0xffff" by blast
  then show ?thesis
  proof cases
    case b
    then have "unat v < 253" by (simp add: word_less_nat_alt)
    then have "ucast (ucast v :: u8) = v" "(ucast v :: u8) < 253"
      using nonneg_be_bytes [of v 1] by (simp_all add: word_less_nat_alt unsigned_ucast_eq take_bit_nat_eq_self)
    with b le assms show ?thesis by (simp add: enc_tlval_def ccnl_ndntlv_varlenint_def of_nat_diff)
  next
    case w
    then have "push_bit 8 (ucast (ucast (drop_bit 8 v) :: u8)) OR ucast (ucast v :: u8) = v"
      using nonneg_be_bytes [of v 2] by (simp add: word_le_nat_alt be_bytes_numeral)
    with w le assms show ?thesis by (simp add: enc_tlval_def ccnl_ndntlv_varlenint_def be_bytes_numeral of_nat_diff)
  next
    case l
    then have "push_bit 24 (ucast (ucast (drop_bit 24 v) :: u8)) OR push_bit 16 (ucast (ucast (drop_bit 16 v) :: u8))
        OR push_bit 8 (ucast (ucast (drop_bit 8 v) :: u8)) OR ucast (ucast v :: u8) = v"
      using nonneg_be_bytes [of v 4] assms(1)
      by (simp add: word_le_nat_alt be_bytes_numeral push_bit_or or.assoc)
    with l le assms show ?thesis by (simp add: enc_tlval_def ccnl_ndntlv_varlenint_def be_bytes_numeral of_nat_diff)
  qed
qed

definition small_block :: "u64 \<times> bytes \<Rightarrow> bool" where
  "small_block tv \<longleftrightarrow> fst tv \<le> 0xffffffff \<and> length (snd tv) \<le> 0xffffffff"

lemma dehead_block:
  assumes "small_block (t, e)" "length (enc_block (t, e)) \<le> n" "n < 2 ^ 64"
  shows "\<exists>k. ccnl_ndntlv_dehead (enc_block (t, e) @ r) (of_nat n)
      = Parsed (Some (t, of_nat (length e)), e @ r, of_nat k) \<and> k + length (enc_block (t, e)) = n + length e"
proof -
  let ?l = "of_nat (length e) :: u64"
  let ?n1 = "n - length (enc_tlval t)"
  have l: "?l \<le> 0xffffffff" "\<not> of_nat n < ?l" and sz: "length (enc_block (t, e)) = length (enc_tlval t) + length (enc_tlval ?l) + length e"
    using assms
    by (simp_all add: small_block_def word_le_nat_alt word_less_nat_alt unat_of_nat64 enc_block_def enc_tl_def)
  have v1: "ccnl_ndntlv_varlenint (enc_block (t, e) @ r) (of_nat n) = Parsed (Some t, enc_tlval ?l @ e @ r, of_nat ?n1)"
    using varlenint_enc [of t n "enc_tlval ?l @ e @ r"] assms sz by (simp add: small_block_def enc_block_def enc_tl_def)
  have v2: "ccnl_ndntlv_varlenint (enc_tlval ?l @ e @ r) (of_nat ?n1)
      = Parsed (Some ?l, e @ r, of_nat (?n1 - length (enc_tlval ?l)))"
    using varlenint_enc [of ?l ?n1 "e @ r"] l(1) assms sz by simp
  have "?n1 - length (enc_tlval ?l) + length (enc_block (t, e)) = n + length e" using assms(2) sz by linarith
  then show ?thesis using v1 v2 l(2) by (intro exI) (simp add: ccnl_ndntlv_dehead_def)
qed

lemma advance_block: "length e < 2 ^ 64 \<Longrightarrow> advance (e @ r) (of_nat (length e)) = Parsed r"
  by (simp add: advance_def unat_of_nat64)

lemma small_block_length: "small_block (t, e) \<Longrightarrow> length e < 2 ^ 64"
  by (simp add: small_block_def)

subsection \<open>Reading back the blocks of an interest\<close>

lemma name_block_step:
  assumes "small_block (NDN_TLV_NameComponent, c)" "length (enc_block (NDN_TLV_NameComponent, c)) + m < 2 ^ 64"
    and "px_compcnt p < CCNL_MAX_NAME_COMP" "add_component al p (c @ r) (of_nat (length c)) = Parsed p'"
  shows "name_block al p (enc_block (NDN_TLV_NameComponent, c) @ r)
      (of_nat (length (enc_block (NDN_TLV_NameComponent, c)) + m)) = name_block al p' r (of_nat m)"
proof -
  let ?n = "length (enc_block (NDN_TLV_NameComponent, c)) + m"
  obtain k where k: "ccnl_ndntlv_dehead (enc_block (NDN_TLV_NameComponent, c) @ r) (of_nat ?n)
      = Parsed (Some (NDN_TLV_NameComponent, of_nat (length c)), c @ r, of_nat k)" "k = m + length c"
    using dehead_block [OF assms(1), of ?n r] assms(2) by auto
  have "(of_nat ?n :: u64) \<noteq> 0"
    using of_nat64_0 [OF assms(2)] enc_block_not_empty by auto
  then show ?thesis
    using k(1) advance_block [OF small_block_length [OF assms(1)], of r] assms(3,4)
    by (subst name_block.simps) (simp add: k(2))
qed

lemma packet_loop_step:
  assumes "small_block (t, e)" "length (enc_block (t, e)) + m < 2 ^ 64"
    and "\<And>x y. packet_block al pkt hmac t x y (e @ r) (of_nat (length e)) = Parsed (f x y, hmac')"
  shows "\<exists>x y. packet_loop al start pkt hmac (enc_block (t, e) @ r) (of_nat (length (enc_block (t, e)) + m))
      = packet_loop al start (f x y) hmac' r (of_nat m)"
proof -
  let ?n = "length (enc_block (t, e)) + m"
  obtain k where k: "ccnl_ndntlv_dehead (enc_block (t, e) @ r) (of_nat ?n)
      = Parsed (Some (t, of_nat (length e)), e @ r, of_nat k)" "k = m + length e"
    using dehead_block [OF assms(1), of ?n r] assms(2) by auto
  show ?thesis
    using k(1) advance_block [OF small_block_length [OF assms(1)], of r] assms(3)
    by (subst packet_loop.simps) (auto simp: k(2))
qed

lemma packet_loop_end: "slack \<noteq> [] \<Longrightarrow> packet_loop al start pkt hmac slack 0 = Parsed (pkt, slack, 0)"
  by (subst packet_loop.simps)
    (simp add: ccnl_ndntlv_dehead_def ccnl_ndntlv_varlenint_def split: list.splits)

lemma nonNegInt_enc: "ccnl_ndntlv_nonNegInt (enc_nonneg v @ r) (of_nat (length (enc_nonneg v))) = Parsed v"
proof -
  have "unat v < 2 ^ (8 * nonneg_width v)"
    using unsigned_less [of v, where ?'a = nat] by (simp add: nonneg_width_def word_less_nat_alt)
  then show ?thesis
    using unat_of_nat64 [of "nonneg_width v"]
    by (simp add: ccnl_ndntlv_nonNegInt_def enc_nonneg_def nonneg_be_bytes nonneg_width_def)
qed

lemma length_enc_nonneg: "length (enc_nonneg v) \<le> 8"
  by (simp add: enc_nonneg_def nonneg_width_def)

text \<open>
  A component the parser takes as it is: not marked as a segment number. For an empty component the
  parser looks at the byte behind it, which is the first one of the next block.
\<close>

definition plain_comp :: "bytes \<Rightarrow> bool" where
  "plain_comp c \<longleftrightarrow> (c \<noteq> [] \<longrightarrow> hd c \<noteq> NDN_Marker_SegmentNumber)"

definition unmarked :: "bytes \<Rightarrow> bool" where
  "unmarked r \<longleftrightarrow> r \<noteq> [] \<and> hd r \<noteq> NDN_Marker_SegmentNumber"

lemma unmarked_block: "0 < t \<Longrightarrow> t < 253 \<Longrightarrow> unmarked (enc_block (t, e) @ r)"
proof -
  assume t: "0 < t" "t < 253"
  then have "unat t \<noteq> 0" "unat t < 253" by (simp_all add: word_less_nat_alt)
  then have "unat (ucast t :: u8) \<noteq> 0" by (simp add: unsigned_ucast_eq take_bit_nat_eq_self)
  then have "(ucast t :: u8) \<noteq> 0" by auto
  then show ?thesis
    using t(2) by (simp add: unmarked_def enc_block_def enc_tl_def enc_tlval_def NDN_Marker_SegmentNumber_def)
qed

text \<open>The component that carries the chunk number of a name.\<close>

definition chunk_comp :: "u32 option \<Rightarrow> bytes list" where
  "chunk_comp ch = (case ch of None \<Rightarrow> [] | Some n \<Rightarrow> [NDN_Marker_SegmentNumber # enc_nonneg (ucast n)])"

definition room_for :: "ccnl_prefix_s \<Rightarrow> nat \<Rightarrow> bool" where
  "room_for p n \<longleftrightarrow> length (px_comp p) = CCNL_MAX_NAME_COMP \<and> px_compcnt p + n \<le> CCNL_MAX_NAME_COMP"

definition with_comp :: "ccnl_prefix_s \<Rightarrow> bytes \<Rightarrow> ccnl_prefix_s" where
  "with_comp p c = p\<lparr>px_comp := (px_comp p)[px_compcnt p := c], px_compcnt := px_compcnt p + 1\<rparr>"

lemma with_comp:
  assumes "room_for p (Suc n)"
  shows "comps (with_comp p c) = comps p @ [c]" "room_for (with_comp p c) n"
    "px_chunknum (with_comp p c) = px_chunknum p" "px_suite (with_comp p c) = px_suite p"
  using assms by (simp_all add: room_for_def with_comp_def comps_def take_Suc_conv_app_nth)

lemma add_plain:
  assumes "plain_comp c" "length c < 2 ^ 64" "unmarked r"
  shows "add_component al p (c @ r) (of_nat (length c)) = Parsed (with_comp p c)"
proof -
  obtain b x where "c @ r = b # x" "b \<noteq> NDN_Marker_SegmentNumber"
    using assms(1,3) by (cases c; cases r) (auto simp: plain_comp_def unmarked_def)
  then show ?thesis
    using unat_of_nat64 [OF assms(2)] append_eq_conv_conj [of c r "b # x"] by (simp add: add_component_def with_comp_def)
qed

lemma add_chunk:
  assumes "al C_chunknum"
  shows "add_component al p ((NDN_Marker_SegmentNumber # enc_nonneg (ucast n)) @ r)
      (of_nat (length (NDN_Marker_SegmentNumber # enc_nonneg (ucast n))))
    = Parsed (with_comp (p\<lparr>px_chunknum := Some n\<rparr>) (NDN_Marker_SegmentNumber # enc_nonneg (ucast n)))"
proof -
  let ?c = "NDN_Marker_SegmentNumber # enc_nonneg (ucast n)"
  have "\<not> 0xffffffff < (ucast n :: u64)" "(ucast (ucast n :: u64) :: u32) = n"
    using unsigned_less [of n, where ?'a = nat]
    by (auto simp: word_less_nat_alt unsigned_ucast_eq take_bit_nat_eq_self intro!: bit_eqI simp: bit_simps)
  moreover have "unat (of_nat (length ?c) :: u64) = length ?c"
    using length_enc_nonneg [of "ucast n"] by (intro unat_of_nat64) simp
  moreover have "of_nat (length ?c) - 1 = (of_nat (length (enc_nonneg (ucast n))) :: u64)" by simp
  ultimately show ?thesis
    using assms nonNegInt_enc [of "ucast n" r] by (simp add: add_component_def with_comp_def)
qed

lemma name_block_comps:
  assumes "\<forall>c\<in>set cs. plain_comp c \<and> length c \<le> 0xffffffff" "room_for p (length cs + k)" "length (enc_comps cs) + m < 2 ^ 64"
    and "unmarked r"
  shows "\<exists>q. name_block al p (enc_comps cs @ r) (of_nat (length (enc_comps cs) + m)) = name_block al q r (of_nat m)
     \<and> comps q = comps p @ cs \<and> room_for q k \<and> px_suite q = px_suite p \<and> px_chunknum q = px_chunknum p"
  using assms
proof (induction cs arbitrary: p)
  case (Cons c cs)
  let ?b = "enc_block (NDN_TLV_NameComponent, c)"
  have eq: "enc_comps (c # cs) = ?b @ enc_comps cs" by (simp add: enc_comps_def)
  have c: "small_block (NDN_TLV_NameComponent, c)" "plain_comp c" "length c < 2 ^ 64"
    using Cons.prems(1) by (simp_all add: small_block_def NDN_TLV_NameComponent_def)
  have r: "unmarked (enc_comps cs @ r)"
    using Cons.prems(4) unmarked_block [of NDN_TLV_NameComponent] by (cases cs) (simp_all add: enc_comps_def NDN_TLV_NameComponent_def)
  have "name_block al p (?b @ enc_comps cs @ r) (of_nat (length ?b + (length (enc_comps cs) + m)))
      = name_block al (with_comp p c) (enc_comps cs @ r) (of_nat (length (enc_comps cs) + m))"
    using Cons.prems(2,3) add_plain [OF c(2,3) r]
    by (intro name_block_step c(1)) (simp_all add: eq room_for_def)
  moreover have "room_for p (Suc (length cs + k))" using Cons.prems(2) by simp
  note w = with_comp [OF this, of c]
  moreover obtain q where "name_block al (with_comp p c) (enc_comps cs @ r) (of_nat (length (enc_comps cs) + m)) = name_block al q r (of_nat m)"
    "comps q = comps (with_comp p c) @ cs" "room_for q k" "px_suite q = px_suite (with_comp p c)" "px_chunknum q = px_chunknum (with_comp p c)"
    using Cons.IH [OF _ w(2)] Cons.prems(1,3,4) by (auto simp: eq)
  ultimately show ?case by (auto simp: eq add.assoc)
qed (auto simp: enc_comps_def)

lemma name_block_end: "name_block al p r 0 = Parsed p"
  by (simp add: name_block.simps)

lemma name_block_name:
  assumes "\<forall>c\<in>set cs. plain_comp c \<and> length c \<le> 0xffffffff" "length cs + length (chunk_comp ch) \<le> CCNL_MAX_NAME_COMP"
    and "length (enc_comps cs @ enc_chunk ch) < 2 ^ 64" "al C_chunknum"
    and "room_for p CCNL_MAX_NAME_COMP" "px_chunknum p = None" "unmarked r"
  shows "\<exists>q. name_block al p (enc_comps cs @ enc_chunk ch @ r) (of_nat (length (enc_comps cs @ enc_chunk ch))) = Parsed q
     \<and> comps q = cs @ chunk_comp ch \<and> px_suite q = px_suite p \<and> px_chunknum q = ch"
proof -
  have p: "comps p = []" "room_for p (length cs + length (chunk_comp ch))" using assms(2,5) by (auto simp: room_for_def comps_def)
  have r: "unmarked (enc_chunk ch @ r)"
    using assms(7) unmarked_block [of NDN_TLV_NameComponent] by (cases ch) (simp_all add: enc_chunk_def NDN_TLV_NameComponent_def)
  obtain q where q: "name_block al p (enc_comps cs @ enc_chunk ch @ r) (of_nat (length (enc_comps cs) + length (enc_chunk ch)))
        = name_block al q (enc_chunk ch @ r) (of_nat (length (enc_chunk ch)))"
      "comps q = cs" "room_for q (length (chunk_comp ch))" "px_suite q = px_suite p" "px_chunknum q = None"
    using name_block_comps [OF assms(1) p(2) _ r, of "length (enc_chunk ch)" al] assms(3,6) p(1) by auto
  show ?thesis
  proof (cases ch)
    case None
    then show ?thesis using q by (simp add: enc_chunk_def chunk_comp_def name_block_end)
  next
    case (Some n)
    let ?c = "NDN_Marker_SegmentNumber # enc_nonneg (ucast n)"
    let ?q = "with_comp (q\<lparr>px_chunknum := Some n\<rparr>) ?c"
    have small: "small_block (NDN_TLV_NameComponent, ?c)"
      using length_enc_nonneg [of "ucast n"] by (simp add: small_block_def NDN_TLV_NameComponent_def)
    have "name_block al q (enc_block (NDN_TLV_NameComponent, ?c) @ r) (of_nat (length (enc_block (NDN_TLV_NameComponent, ?c)) + 0))
        = name_block al ?q r (of_nat 0)"
      using assms(3) q(3) by (intro name_block_step small add_chunk assms(4)) (simp_all add: Some enc_chunk_def room_for_def chunk_comp_def)
    moreover have "room_for (q\<lparr>px_chunknum := Some n\<rparr>) (Suc 0)" using q(3) by (simp add: Some chunk_comp_def room_for_def)
    note w = with_comp [OF this, of ?c]
    ultimately show ?thesis using q w
      by (auto simp: Some enc_chunk_def chunk_comp_def name_block_end comps_def)
  qed
qed

lemma length_block_le: "length e \<le> length (enc_block (t, e))"
  by (simp add: enc_block_def)

lemma comp_le_comps: "c \<in> set cs \<Longrightarrow> length c \<le> length (enc_comps cs)"
  using length_block_le [of c NDN_TLV_NameComponent] by (induction cs) (auto simp: enc_comps_def)

lemma packet_name:
  assumes "\<forall>c\<in>set (comps p). plain_comp c" "length (comps p) + length (chunk_comp (px_chunknum p)) \<le> CCNL_MAX_NAME_COMP"
    and "length (enc_name p) \<le> 0xffffffff" "length (enc_name p) + m < 2 ^ 64" "\<forall>s. al s" "pk_pfx pkt = None" "unmarked r"
  shows "\<exists>q. packet_loop al start pkt hmac (enc_name p @ r) (of_nat (length (enc_name p) + m))
      = packet_loop al start (pkt\<lparr>pk_pfx := Some q, pk_val := -1\<rparr>) hmac r (of_nat m)
     \<and> comps q = comps p @ chunk_comp (px_chunknum p) \<and> px_chunknum q = px_chunknum p \<and> px_suite q = CCNL_SUITE_NDNTLV"
proof -
  let ?v = "enc_comps (comps p) @ enc_chunk (px_chunknum p)"
  have len: "length ?v \<le> 0xffffffff" using assms(3) length_block_le [of ?v NDN_TLV_Name] by (simp add: enc_name_def)
  have "length c \<le> length (enc_comps (comps p))" if "c \<in> set (comps p)" for c
    using that by (rule comp_le_comps)
  then have small: "\<forall>c\<in>set (comps p). plain_comp c \<and> length c \<le> 0xffffffff"
    using assms(1) len by fastforce
  obtain p0 where p0: "ccnl_prefix_new al CCNL_SUITE_NDNTLV CCNL_MAX_NAME_COMP = Some p0"
      "room_for (p0\<lparr>px_compcnt := 0\<rparr>) CCNL_MAX_NAME_COMP" "px_chunknum p0 = None" "px_suite p0 = CCNL_SUITE_NDNTLV"
    using assms(5) by (simp add: ccnl_prefix_new_def room_for_def)
  obtain q where q: "name_block al (p0\<lparr>px_compcnt := 0\<rparr>) (?v @ r) (of_nat (length ?v)) = Parsed q"
      "comps q = comps p @ chunk_comp (px_chunknum p)" "px_suite q = CCNL_SUITE_NDNTLV" "px_chunknum q = px_chunknum p"
    using name_block_name [OF small assms(2), of al "p0\<lparr>px_compcnt := 0\<rparr>" r] len p0 assms(5,7) by auto
  have "packet_block al pkt hmac NDN_TLV_Name x y (?v @ r) (of_nat (length ?v))
      = Parsed (pkt\<lparr>pk_pfx := Some (q\<lparr>px_name := Some (x, y - x)\<rparr>), pk_val := -1\<rparr>, hmac)" for x y
    using q(1) assms(6) by (simp add: packet_block_def p0(1))
  then obtain x y where "packet_loop al start pkt hmac (enc_name p @ r) (of_nat (length (enc_name p) + m))
      = packet_loop al start (pkt\<lparr>pk_pfx := Some (q\<lparr>px_name := Some (x, y - x)\<rparr>), pk_val := -1\<rparr>) hmac r (of_nat m)"
    using packet_loop_step [of NDN_TLV_Name ?v m al pkt hmac r _ hmac start] assms(4) len
    by (fastforce simp: enc_name_def small_block_def NDN_TLV_Name_def)
  moreover have "comps (q\<lparr>px_name := Some (x, y - x)\<rparr>) = comps q" by (simp add: comps_def)
  ultimately show ?thesis using q(2-4) by (intro exI [of _ "q\<lparr>px_name := Some (x, y - x)\<rparr>"]) simp
qed

lemma packet_step:
  assumes "small_block (t, e)" "length (enc_block (t, e)) + m < 2 ^ 64"
    and "\<And>x y. packet_block al pkt hmac t x y (e @ r) (of_nat (length e)) = Parsed (pkt', hmac')"
  shows "packet_loop al start pkt hmac (enc_block (t, e) @ r) (of_nat (length (enc_block (t, e)) + m))
      = packet_loop al start pkt' hmac' r (of_nat m)"
  using packet_loop_step [OF assms(1,2), where f = "\<lambda>_ _. pkt'"] assms(3) by blast

lemma packet_selectors:
  assumes "length (enc_block (NDN_TLV_Selectors, enc_block (NDN_TLV_MustBeFresh, []))) + m < 2 ^ 64"
  shows "packet_loop al start pkt hmac (enc_block (NDN_TLV_Selectors, enc_block (NDN_TLV_MustBeFresh, [])) @ r)
      (of_nat (length (enc_block (NDN_TLV_Selectors, enc_block (NDN_TLV_MustBeFresh, []))) + m))
    = packet_loop al start (pkt\<lparr>pk_mbf := True\<rparr>) hmac r (of_nat m)"
proof (rule packet_step [OF _ assms])
  let ?e = "enc_block (NDN_TLV_MustBeFresh, [])"
  have e: "?e = [0x12, 0]" by code_simp
  show "small_block (NDN_TLV_Selectors, ?e)" by (simp add: e small_block_def NDN_TLV_Selectors_def)
  have "small_block (NDN_TLV_MustBeFresh, [])" "length ?e < 2 ^ 64" and nz: "(of_nat (length ?e) :: u64) \<noteq> 0"
    unfolding e by (simp_all add: small_block_def NDN_TLV_MustBeFresh_def)
  then have "ccnl_ndntlv_dehead (?e @ r) (of_nat (length ?e)) = Parsed (Some (NDN_TLV_MustBeFresh, 0), r, 0)"
    using dehead_block [of NDN_TLV_MustBeFresh "[]" "length ?e" r] by auto
  then have "selectors_block pkt (?e @ r) (of_nat (length ?e)) = selectors_block (pkt\<lparr>pk_mbf := True\<rparr>) r 0"
    using nz by (subst selectors_block.simps) (simp add: select_block_def advance_def ndn_types)
  then have "selectors_block pkt (?e @ r) (of_nat (length ?e)) = Parsed (pkt\<lparr>pk_mbf := True\<rparr>)"
    by (simp add: selectors_block.simps [of _ r])
  then show "packet_block al pkt hmac NDN_TLV_Selectors x y (?e @ r) (of_nat (length ?e)) = Parsed (pkt\<lparr>pk_mbf := True\<rparr>, hmac)" for x y
    by (simp add: packet_block_def ndn_types)
qed

lemma packet_nonce:
  assumes "length (enc_block (NDN_TLV_Nonce, nonce_bytes n)) + m < 2 ^ 64" "al C_nonce"
  shows "packet_loop al start pkt hmac (enc_block (NDN_TLV_Nonce, nonce_bytes n) @ r)
      (of_nat (length (enc_block (NDN_TLV_Nonce, nonce_bytes n)) + m))
    = packet_loop al start (pkt\<lparr>pk_nonce := Some (nonce_bytes n)\<rparr>) hmac r (of_nat m)"
  using assms(2)
  by (intro packet_step [OF _ assms(1)]) (simp_all add: small_block_def packet_block_def ndn_types nonce_bytes_def)

lemma packet_lifetime:
  assumes "length (enc_block (NDN_TLV_InterestLifetime, enc_nonneg v)) + m < 2 ^ 64"
  shows "packet_loop al start pkt hmac (enc_block (NDN_TLV_InterestLifetime, enc_nonneg v) @ r)
      (of_nat (length (enc_block (NDN_TLV_InterestLifetime, enc_nonneg v)) + m))
    = packet_loop al start (pkt\<lparr>pk_interestlifetime := v\<rparr>) hmac r (of_nat m)"
  using length_enc_nonneg [of v] nonNegInt_enc [of v r]
  by (intro packet_step [OF _ assms]) (simp_all add: small_block_def packet_block_def ndn_types)

subsection \<open>The interest round trip\<close>

lemma datagram_header:
  assumes "small_block (t, e)" "t = NDN_TLV_Interest \<or> t = NDN_TLV_Data" "length (enc_block (t, e)) < 2 ^ 64" "\<forall>s. al s"
    and "packet_loop al (enc_block (t, e) @ slack) (zero_pkt t (if t = NDN_TLV_Interest then 1 else 2)) False (e @ slack)
           (of_nat (length e)) = Parsed (pkt, slack, 0)"
  shows "ndntlv_datagram al (enc_block (t, e) @ slack) (of_nat (length (enc_block (t, e))))
    = Parsed (pkt\<lparr>pk_buf := enc_block (t, e), pk_type := t\<rparr>)"
proof -
  have "ccnl_ndntlv_dehead (enc_block (t, e) @ slack) (of_nat (length (enc_block (t, e))))
      = Parsed (Some (t, of_nat (length e)), e @ slack, of_nat (length e))"
    using dehead_block [OF assms(1) _ assms(3), of slack] by auto
  then show ?thesis
    using assms(2,4,5) by (auto simp: ndntlv_datagram_def ccnl_ndntlv_bytes2pkt_def)
qed

text \<open>What the relay knows of an interest after parsing it.\<close>

definition interest_of :: "ccnl_prefix_s \<Rightarrow> ccnl_ndntlv_interest_opts_s \<Rightarrow> bytes \<Rightarrow> ccnl_pkt_s" where
  "interest_of q opts buf = (zero_pkt NDN_TLV_Interest 1)\<lparr>pk_pfx := Some q, pk_val := -1,
     pk_mbf := (io_mustbefresh opts \<noteq> 0), pk_nonce := Some (nonce_bytes (io_nonce opts)),
     pk_interestlifetime := (if io_interestlifetime opts = 0 then CCNL_INTEREST_TIMEOUT * 1000
                             else ucast (io_interestlifetime opts)),
     pk_buf := buf\<rparr>"

lemma packet_selectors_if:
  assumes "length (if b then enc_block (NDN_TLV_Selectors, enc_block (NDN_TLV_MustBeFresh, [])) else []) + m < 2 ^ 64"
  shows "packet_loop al start pkt hmac ((if b then enc_block (NDN_TLV_Selectors, enc_block (NDN_TLV_MustBeFresh, [])) else []) @ r)
      (of_nat (length (if b then enc_block (NDN_TLV_Selectors, enc_block (NDN_TLV_MustBeFresh, [])) else []) + m))
    = packet_loop al start (pkt\<lparr>pk_mbf := (pk_mbf pkt \<or> b)\<rparr>) hmac r (of_nat m)"
  using packet_selectors [of m al start pkt hmac r] assms by (cases b) simp_all

lemma packet_lifetime_if:
  assumes "length (if b then enc_block (NDN_TLV_InterestLifetime, enc_nonneg v) else []) + m < 2 ^ 64"
  shows "packet_loop al start pkt hmac ((if b then enc_block (NDN_TLV_InterestLifetime, enc_nonneg v) else []) @ r)
      (of_nat (length (if b then enc_block (NDN_TLV_InterestLifetime, enc_nonneg v) else []) + m))
    = packet_loop al start (if b then pkt\<lparr>pk_interestlifetime := v\<rparr> else pkt) hmac r (of_nat m)"
  using packet_lifetime [of v m al start pkt hmac r] assms by (cases b) simp_all

lemma lengths_fit:
  fixes a b c d :: nat
  assumes "a + (b + (c + d)) \<le> 0xffffffff"
  shows "b + (c + d) < 2 ^ 64" "c + d < 2 ^ 64" "d + 0 < 2 ^ 64"
  using assms by simp_all

lemma interest_parsed:
  assumes "\<forall>c\<in>set (comps p). plain_comp c" "length (comps p) + length (chunk_comp (px_chunknum p)) \<le> CCNL_MAX_NAME_COMP"
    and "length (enc_interest p (-1) opts) \<le> 0xffffffff" "\<forall>s. al s" "slack \<noteq> []"
  shows "\<exists>q. ndntlv_datagram al (enc_interest p (-1) opts @ slack) (of_nat (length (enc_interest p (-1) opts)))
      = Parsed (interest_of q opts (enc_interest p (-1) opts))
     \<and> comps q = comps p @ chunk_comp (px_chunknum p) \<and> px_chunknum q = px_chunknum p \<and> px_suite q = CCNL_SUITE_NDNTLV"
proof -
  let ?sel = "if io_mustbefresh opts \<noteq> 0 then enc_block (NDN_TLV_Selectors, enc_block (NDN_TLV_MustBeFresh, [])) else []"
  let ?life = "if io_interestlifetime opts \<noteq> 0
    then enc_block (NDN_TLV_InterestLifetime, enc_nonneg (ucast (io_interestlifetime opts))) else []"
  let ?nonce = "enc_block (NDN_TLV_Nonce, nonce_bytes (io_nonce opts))"
  let ?body = "enc_name p @ ?sel @ ?nonce @ ?life"
  have eq: "enc_interest p (-1) opts = enc_block (NDN_TLV_Interest, ?body)" by (simp add: enc_interest_def)
  have len: "length ?body \<le> 0xffffffff"
    using assms(3) length_block_le [of ?body NDN_TLV_Interest] unfolding eq by linarith
  note fit = lengths_fit [OF len [unfolded length_append]]
  let ?start = "enc_interest p (-1) opts @ slack" and ?pkt = "zero_pkt NDN_TLV_Interest 1"
  have first: "unmarked ((?sel @ ?nonce @ ?life) @ slack)"
    using unmarked_block [of NDN_TLV_Selectors] unmarked_block [of NDN_TLV_Nonce]
    by (simp add: NDN_TLV_Selectors_def NDN_TLV_Nonce_def)
  obtain q where q: "packet_loop al ?start ?pkt False (?body @ slack) (of_nat (length ?body))
      = packet_loop al ?start (?pkt\<lparr>pk_pfx := Some q, pk_val := -1\<rparr>) False ((?sel @ ?nonce @ ?life) @ slack)
          (of_nat (length (?sel @ ?nonce @ ?life)))"
    "comps q = comps p @ chunk_comp (px_chunknum p)" "px_chunknum q = px_chunknum p" "px_suite q = CCNL_SUITE_NDNTLV"
    using packet_name [OF assms(1,2), where m = "length (?sel @ ?nonce @ ?life)" and al = al and pkt = ?pkt and start = ?start
        and hmac = False and r = "(?sel @ ?nonce @ ?life) @ slack"]
      len assms(4) first by (auto simp: zero_pkt_def)
  have sel: "packet_loop al ?start pkt False ((?sel @ ?nonce @ ?life) @ slack) (of_nat (length (?sel @ ?nonce @ ?life)))
      = packet_loop al ?start (pkt\<lparr>pk_mbf := (pk_mbf pkt \<or> io_mustbefresh opts \<noteq> 0)\<rparr>) False (?nonce @ ?life @ slack)
          (of_nat (length ?nonce + length ?life))" for pkt
    unfolding append_assoc length_append by (rule packet_selectors_if [OF fit(1)])
  have nonce: "packet_loop al ?start pkt False (?nonce @ ?life @ slack) (of_nat (length ?nonce + length ?life))
      = packet_loop al ?start (pkt\<lparr>pk_nonce := Some (nonce_bytes (io_nonce opts))\<rparr>) False (?life @ slack) (of_nat (length ?life + 0))" for pkt
    unfolding add_0_right using assms(4) by (intro packet_nonce fit(2)) blast
  have life: "packet_loop al ?start pkt False (?life @ slack) (of_nat (length ?life + 0))
      = Parsed (if io_interestlifetime opts \<noteq> 0 then pkt\<lparr>pk_interestlifetime := ucast (io_interestlifetime opts)\<rparr> else pkt, slack, 0)" for pkt
  proof -
    have "packet_loop al ?start pkt False (?life @ slack) (of_nat (length ?life + 0))
        = packet_loop al ?start (if io_interestlifetime opts \<noteq> 0 then pkt\<lparr>pk_interestlifetime := ucast (io_interestlifetime opts)\<rparr> else pkt)
            False slack (of_nat 0)"
      by (rule packet_lifetime_if [OF fit(3)])
    also have "packet_loop al ?start x False slack (of_nat 0) = Parsed (x, slack, 0)" for x
      using packet_loop_end [OF assms(5)] by simp
    finally show ?thesis .
  qed
  have "small_block (NDN_TLV_Interest, ?body)" "length (enc_block (NDN_TLV_Interest, ?body)) < 2 ^ 64"
    using len assms(3) unfolding eq by (simp_all only: small_block_def fst_conv snd_conv) (simp_all add: NDN_TLV_Interest_def)
  moreover have "packet_loop al ?start ?pkt False (?body @ slack) (of_nat (length ?body)) = Parsed (interest_of q opts [], slack, 0)"
    unfolding q(1) sel nonce life by (simp add: interest_of_def zero_pkt_def)
  ultimately have "ndntlv_datagram al ?start (of_nat (length (enc_interest p (-1) opts)))
      = Parsed ((interest_of q opts [])\<lparr>pk_buf := enc_interest p (-1) opts, pk_type := NDN_TLV_Interest\<rparr>)"
    unfolding eq using assms(4) by (intro datagram_header) simp_all
  then show ?thesis using q(2-4) by (intro exI [of _ q]) (simp add: interest_of_def zero_pkt_def)
qed

text \<open>
  C15. The interest the module builds is parsed by the relay, and nothing is lost on the way: the
  relay finds the components of the name in their order, the chunk number (which it also keeps as
  a component of its own), the nonce, whether fresh content is asked for, the lifetime or its default,
  and a copy of the packet. The components must not begin with the byte that marks segment numbers, and the receive buffer must extend past the packet.
\<close>

theorem interest_roundtrip:
  assumes "ccnl_mkSimpleInterestK al random p (Some opts) = (Some buf, leaked)"
    and "px_suite p = CCNL_SUITE_NDNTLV" "io_nonce opts \<noteq> 0"
    and "\<forall>c\<in>set (comps p). c \<noteq> [] \<longrightarrow> hd c \<noteq> NDN_Marker_SegmentNumber"
    and "length (comps p) + length (chunk_comp (px_chunknum p)) \<le> CCNL_MAX_NAME_COMP"
    and "\<forall>s. al' s" "slack \<noteq> []"
  shows "\<exists>pkt q. ndntlv_datagram al' (buf @ slack) (of_nat (length buf)) = Parsed pkt
     \<and> pk_pfx pkt = Some q \<and> comps q = comps p @ chunk_comp (px_chunknum p) \<and> px_chunknum q = px_chunknum p
     \<and> px_suite q = CCNL_SUITE_NDNTLV \<and> pk_type pkt = NDN_TLV_Interest \<and> pk_buf pkt = buf
     \<and> pk_nonce pkt = Some (nonce_bytes (io_nonce opts)) \<and> pk_mbf pkt = (io_mustbefresh opts \<noteq> 0)
     \<and> pk_interestlifetime pkt = (if io_interestlifetime opts = 0 then 10000 else ucast (io_interestlifetime opts))
     \<and> pk_scope pkt = 3"
proof -
  have "al C_tmp" "al C_buf"
    using assms(1) by (auto simp: ccnl_mkSimpleInterestK_def split: if_splits sum.splits prod.splits)
  then have buf: "buf = enc_interest p (-1) opts" "length buf \<le> CCNL_MAX_PACKET_SIZE"
    using mkSimpleInterestK_eq [OF assms(2,3), of al random] assms(1) by (auto split: if_splits)
  have "\<forall>c\<in>set (comps p). plain_comp c" using assms(4) by (simp add: plain_comp_def)
  then obtain q where "ndntlv_datagram al' (buf @ slack) (of_nat (length buf)) = Parsed (interest_of q opts buf)"
    "comps q = comps p @ chunk_comp (px_chunknum p)" "px_chunknum q = px_chunknum p" "px_suite q = CCNL_SUITE_NDNTLV"
    using interest_parsed [of p opts al' slack] assms(5-7) buf by (auto simp: CCNL_MAX_PACKET_SIZE_def)
  then show ?thesis
    by (intro exI [of _ "interest_of q opts buf"] exI [of _ q])
      (simp add: interest_of_def zero_pkt_def CCNL_INTEREST_TIMEOUT_def)
qed

theorem interest_roundtrip_witness:
  "\<exists>pkt q. ndntlv_datagram (\<lambda>_. True) ([5, 21, 7, 9, 8, 3, 110, 100, 110, 8, 2, 47, 120, 9, 2, 18, 0, 10, 4, 1, 2, 0, 0] @ [0]) 23 = Parsed pkt
     \<and> pk_pfx pkt = Some q \<and> comps q = [[110, 100, 110], [47, 120]] \<and> pk_nonce pkt = Some [1, 2, 0, 0] \<and> pk_mbf pkt"
proof -
  let ?p = "ex_prefix [[110, 100, 110], [47, 120]]"
  let ?o = "\<lparr>io_nonce = 0x201, io_mustbefresh = 1, io_interestlifetime = 0\<rparr>"
  have e: "enc_interest ?p (-1) ?o = [5, 21, 7, 9, 8, 3, 110, 100, 110, 8, 2, 47, 120, 9, 2, 18, 0, 10, 4, 1, 2, 0, 0]"
    by code_simp
  let ?b = "[5, 21, 7, 9, 8, 3, 110, 100, 110, 8, 2, 47, 120, 9, 2, 18, 0, 10, 4, 1, 2, 0, 0]"
  have "ccnl_mkSimpleInterestK (\<lambda>_. True) 7 ?p (Some ?o) = (Some ?b, False)"
    by (subst mkSimpleInterestK_eq) (simp_all add: e CCNL_MAX_PACKET_SIZE_def)
  from interest_roundtrip [OF this, of "\<lambda>_. True" "[0]"] show ?thesis
    by (simp add: NDN_Marker_SegmentNumber_def chunk_comp_def CCNL_MAX_NAME_COMP_def
        nonce_bytes_def byte32_def) (auto simp: drop_bit_eq_div)
qed

lemma unat_of_nat8: "n < 2 ^ 8 \<Longrightarrow> unat (of_nat n :: u8) = n"
  by (simp add: unat_of_nat take_bit_nat_eq_self)

text \<open>
  C37. The length of a block is compared with the bytes left before its header was read: a datagram
  whose last block announces the two bytes of its header once more passes the test. The parser then
  takes the value of the block from outside the datagram, and the count of the bytes that are left
  wraps around, so it goes on parsing whatever memory follows; where the memory ends with the
  datagram, it reads outside it.
\<close>

theorem header_length_overread:
  assumes "length e < 250" "al C_nonce" "al C_pkt"
  defines "n \<equiv> of_nat (length e + 2)"
  shows "ndntlv_datagram al (5 # n # 10 # n # e) (of_nat (length e + 4)) = BadAccess
    \<and> packet_loop al start pkt hmac (10 # n # e @ [s0, s1] @ rest) (of_nat (length e + 2))
      = packet_loop al start (pkt\<lparr>pk_nonce := Some (e @ [s0, s1])\<rparr>) hmac rest (- 2)"
proof -
  let ?n = "length e + 2"
  have fit: "?n < 2 ^ 8" "?n < 2 ^ 64" "length e + 4 < 2 ^ 64" using assms(1) by simp_all
  have un: "unat n = ?n" unfolding n_def by (rule unat_of_nat8 [OF fit(1)])
  have n: "n < 253" "(ucast n :: u64) = of_nat ?n" "unat (of_nat ?n :: u64) = ?n"
    using un assms(1) unat_of_nat64 [OF fit(2)] of_nat_unat [of n, where 'a = "64 word", symmetric]
    by (simp_all add: word_less_nat_alt)
  have v: "ccnl_ndntlv_varlenint (b # r) (of_nat (Suc k)) = Parsed (Some (ucast b), r, of_nat k)"
    if "b < 253" "Suc k < 2 ^ 64" for b k r
    using that unat_of_nat64 [OF that(2)] by (simp add: ccnl_ndntlv_varlenint_def word_le_nat_alt)
  have h: "ccnl_ndntlv_dehead (b # n # r) (of_nat (Suc (Suc k))) = Parsed (Some (ucast b, of_nat ?n), r, of_nat k)"
    if "b < 253" "Suc (Suc k) < 2 ^ 64" "?n \<le> Suc (Suc k)" for b k r
    using that v [of b "Suc k" "n # r"] v [of n k r] n(1,2) unat_of_nat64 [OF that(2)] n(3)
    by (simp add: ccnl_ndntlv_dehead_def word_less_nat_alt del: of_nat_Suc)
  have h': "ccnl_ndntlv_dehead (b # n # r) (of_nat (k + 2)) = Parsed (Some (ucast b, of_nat ?n), r, of_nat k)"
    if "b < 253" "k + 2 < 2 ^ 64" "length e \<le> k" for b k r
    using h [of b k r] that by (simp only: add_2_eq_Suc' Suc_le_mono)
  have "ndntlv_datagram al (5 # n # 10 # n # e) (of_nat (length e + 4)) = BadAccess"
  proof -
    have four: "length e + 4 = ?n + 2" by simp
    have "ccnl_ndntlv_dehead (5 # n # 10 # n # e) (of_nat (length e + 4)) = Parsed (Some (ucast (5 :: u8), of_nat ?n), 10 # n # e, of_nat ?n)"
      unfolding four using fit(3) unfolding four by (intro h') simp_all
    moreover have "ccnl_ndntlv_dehead (10 # n # e) (of_nat ?n) = Parsed (Some (ucast (10 :: u8), of_nat ?n), e, of_nat (length e))"
      using fit(2) by (intro h') simp_all
    ultimately show ?thesis
      using n(3) assms(3)
      by (simp add: ndntlv_datagram_def ccnl_ndntlv_bytes2pkt_def NDN_TLV_Interest_def packet_loop.simps [of _ _ _ _ "10 # _"]
          packet_block_def ndn_types)
  qed
  moreover have "packet_loop al start pkt hmac (10 # n # e @ [s0, s1] @ rest) (of_nat ?n)
      = packet_loop al start (pkt\<lparr>pk_nonce := Some (e @ [s0, s1])\<rparr>) hmac rest (- 2)"
  proof -
    have "ccnl_ndntlv_dehead (10 # n # e @ [s0, s1] @ rest) (of_nat ?n)
        = Parsed (Some (ucast (10 :: u8), of_nat ?n), e @ [s0, s1] @ rest, of_nat (length e))"
      using fit(2) by (intro h') simp_all
    moreover have "(of_nat (length e) - of_nat ?n :: u64) = - 2" by simp
    ultimately show ?thesis
      using n(3) assms(2)
      by (subst packet_loop.simps) (simp add: packet_block_def ndn_types advance_def)
  qed
  ultimately show ?thesis by blast
qed

theorem header_length_overread_witness:
  "ndntlv_datagram (\<lambda>_. True) [5, 3, 10, 3, 77] 5 = BadAccess
    \<and> packet_loop (\<lambda>_. True) [] (zero_pkt NDN_TLV_Interest 1) False [10, 3, 77, 8, 9] 3
      = packet_loop (\<lambda>_. True) [] ((zero_pkt NDN_TLV_Interest 1)\<lparr>pk_nonce := Some [77, 8, 9]\<rparr>) False [] (- 2)"
  using header_length_overread [of "[77]" "\<lambda>_. True" "[]" "zero_pkt NDN_TLV_Interest 1" False 8 9 "[]"] by simp

end
