(* ===== verification/Ccn_Relay.thy ===== *)
theory Ccn_Relay
  imports Ccn_Parse
begin

section \<open>The tables of the CCN-lite relay (ccnl-relay.c, ccnl-interest.c, ccnl-content.c)\<close>

text \<open>
  The relay keeps its neighbours (faces), a forwarding table (FIB), the pending interests (PIT), a
  content store (CS), the nonces of recent interests and its interfaces. Its linked lists are HOL
  lists in the same order; an object that other objects point to carries its address, and a pointer
  is an address. An allocation gives a fresh address or fails, as \<open>re_alloc\<close> says for each allocation in
  turn. Frames given to the link layer are appended to \<open>rl_sent\<close>; a use of freed memory, a null
  dereference, an interface index outside the array and a lost object are recorded in \<open>rl_faults\<close>.

  The build is the one for Linux in user space with the packet format NDNTLV, without scheduler and
  fragmentation (the default configuration leaves both out), so a face has no scheduler and no
  fragmentation state. Functions that applications install (callbacks, cache strategies, taps, the
  local producer) and the management protocol, which is absent from a build without the format CCNB,
  are arguments.
\<close>

subsection \<open>State\<close>

definition CCNL_MAX_INTERFACES :: nat where "CCNL_MAX_INTERFACES = 10"
definition CCNL_MAX_IF_QLEN :: nat where "CCNL_MAX_IF_QLEN = 64"
definition CCNL_CONTENT_TIMEOUT :: u32 where "CCNL_CONTENT_TIMEOUT = 300"
definition CCNL_FACE_TIMEOUT :: u32 where "CCNL_FACE_TIMEOUT = 30"
definition CCNL_MAX_INTEREST_RETRANSMIT :: int where "CCNL_MAX_INTEREST_RETRANSMIT = 7"
definition CCNL_MAX_NONCES :: nat where "CCNL_MAX_NONCES = 256"
definition CCNL_FACE_FLAGS_STATIC :: u32 where "CCNL_FACE_FLAGS_STATIC = 1"
definition CCNL_FACE_FLAGS_REFLECT :: u32 where "CCNL_FACE_FLAGS_REFLECT = 2"
definition CCNL_FACE_FLAGS_SERVED :: u32 where "CCNL_FACE_FLAGS_SERVED = 4"
definition CCNL_FACE_FLAGS_FWDALLI :: u32 where "CCNL_FACE_FLAGS_FWDALLI = 8"
definition CCNL_CONTENT_FLAGS_STATIC :: u8 where "CCNL_CONTENT_FLAGS_STATIC = 1"
definition CCNL_CONTENT_FLAGS_STALE :: u8 where "CCNL_CONTENT_FLAGS_STALE = 2"

text \<open>
  A socket address: on the link layer its length and its bytes, an IPv4 or IPv6 address with its
  port, or a path. The address of a local client is all zero, of no known family.
\<close>

datatype sockunion = SU_link nat bytes | SU_ip4 u32 u16 | SU_ip6 bytes u16 | SU_unix bytes | SU_other

fun sa_family :: "sockunion \<Rightarrow> int" where
  "sa_family (SU_link _ _) = 17"
| "sa_family (SU_ip4 _ _) = 2"
| "sa_family (SU_ip6 _ _) = 10"
| "sa_family (SU_unix _) = 1"
| "sa_family SU_other = 0"

text \<open>Zero for equal addresses; every other result of the comparison is represented by \<open>-1\<close>.\<close>

fun ccnl_addr_cmp :: "sockunion \<Rightarrow> sockunion \<Rightarrow> int" where
  "ccnl_addr_cmp (SU_link n a) (SU_link m b) = (if take n a = take n b then 0 else -1)"
| "ccnl_addr_cmp (SU_ip4 a p) (SU_ip4 b q) = (if a = b \<and> p = q then 0 else -1)"
| "ccnl_addr_cmp (SU_ip6 a p) (SU_ip6 b q) = (if take 16 a = take 16 b \<and> p = q then 0 else -1)"
| "ccnl_addr_cmp (SU_unix a) (SU_unix b) = (if a = b then 0 else -1)"
| "ccnl_addr_cmp _ _ = -1"

record ccnl_face_s =
  fc_ptr :: nat
  fc_faceid :: int
  fc_ifndx :: int
  fc_peer :: sockunion
  fc_flags :: u32
  fc_last_used :: u32
  fc_outq :: "bytes list"

record ccnl_txrequest_s =
  tx_buf :: bytes
  tx_dst :: sockunion
  tx_face :: nat

record ccnl_if_s =
  if_addr :: sockunion
  if_reflect :: bool
  if_fwdalli :: bool
  if_qlen :: nat
  if_qfront :: nat
  if_queue :: "ccnl_txrequest_s list"
  if_rx_cnt :: u32
  if_tx_cnt :: u32

record ccnl_pendint_s =
  pi_face :: nat
  pi_last_used :: u32

record ccnl_interest_s =
  in_ptr :: nat
  in_pkt :: ccnl_pkt_s
  in_from :: "nat option"
  in_pending :: "ccnl_pendint_s list"
  in_lifetime :: u32
  in_last_used :: u32
  in_retries :: int

record ccnl_content_s =
  ct_ptr :: nat
  ct_pkt :: ccnl_pkt_s
  ct_flags :: u8
  ct_last_used :: u32
  ct_served_cnt :: int

record ccnl_forward_s =
  fw_prefix :: "ccnl_prefix_s option"
  fw_tap :: "nat option"
  fw_face :: "nat option"
  fw_suite :: int

datatype relay_fault = FreedAccess nat | FreedEntry | NullAccess | BadInterface int | BadRead | LostContent nat

record ccnl_relay_s =
  rl_faces :: "ccnl_face_s list"
  rl_fib :: "ccnl_forward_s list"
  rl_pit :: "ccnl_interest_s list"
  rl_contents :: "ccnl_content_s list"
  rl_nonces :: "bytes list"
  rl_contentcnt :: int
  rl_max_cache_entries :: int
  rl_pitcnt :: int
  rl_max_pit_entries :: int
  rl_ifs :: "ccnl_if_s list"
  rl_ifcount :: nat
  rl_seqno :: int
  rl_allocs :: nat
  rl_sent :: "(nat \<times> sockunion \<times> bytes) list"
  rl_faults :: "relay_fault list"

text \<open>
  What the relay does not determine itself: which allocations succeed, the time in seconds, the
  digest of a packet (from a cryptographic library), and the functions that are installed.
\<close>

record renv =
  re_alloc :: "nat \<Rightarrow> bool"
  re_mem :: ccn_mem
  re_now :: u32
  re_digest :: "bytes \<Rightarrow> bytes option"
  re_rx_on_data :: "(ccnl_relay_s \<Rightarrow> nat option \<Rightarrow> ccnl_pkt_s \<Rightarrow> ccnl_relay_s \<times> int) option"
  re_local_producer :: "(ccnl_relay_s \<Rightarrow> nat option \<Rightarrow> ccnl_pkt_s \<Rightarrow> ccnl_relay_s \<times> int) option"
  re_cs_remove :: "(ccnl_relay_s \<Rightarrow> ccnl_content_s \<Rightarrow> ccnl_relay_s \<times> int) option"
  re_cs_decision :: "(ccnl_relay_s \<Rightarrow> ccnl_content_s \<Rightarrow> ccnl_relay_s \<times> int) option"
  re_tap :: "nat \<Rightarrow> ccnl_relay_s \<Rightarrow> nat option \<Rightarrow> ccnl_prefix_s \<Rightarrow> bytes \<Rightarrow> ccnl_relay_s"
  re_mgmt :: "(ccnl_relay_s \<Rightarrow> bytes \<Rightarrow> ccnl_prefix_s \<Rightarrow> nat option \<Rightarrow> ccnl_relay_s) option"

definition ccnl_calloc :: "renv \<Rightarrow> ccnl_relay_s \<Rightarrow> nat option \<times> ccnl_relay_s" where
  "ccnl_calloc E r =
    (if re_alloc E (rl_allocs r) then Some (rl_allocs r) else None, r\<lparr>rl_allocs := Suc (rl_allocs r)\<rparr>)"

definition fault :: "relay_fault \<Rightarrow> ccnl_relay_s \<Rightarrow> ccnl_relay_s" where
  "fault e r = r\<lparr>rl_faults := rl_faults r @ [e]\<rparr>"

definition get_face :: "nat \<Rightarrow> ccnl_relay_s \<Rightarrow> ccnl_face_s option" where
  "get_face p r = find (\<lambda>f. fc_ptr f = p) (rl_faces r)"

definition upd_face :: "nat \<Rightarrow> (ccnl_face_s \<Rightarrow> ccnl_face_s) \<Rightarrow> ccnl_relay_s \<Rightarrow> ccnl_relay_s" where
  "upd_face p g r = r\<lparr>rl_faces := map (\<lambda>f. if fc_ptr f = p then g f else f) (rl_faces r)\<rparr>"

definition upd_interest :: "nat \<Rightarrow> (ccnl_interest_s \<Rightarrow> ccnl_interest_s) \<Rightarrow> ccnl_relay_s \<Rightarrow> ccnl_relay_s" where
  "upd_interest p g r = r\<lparr>rl_pit := map (\<lambda>i. if in_ptr i = p then g i else i) (rl_pit r)\<rparr>"

text \<open>
  The name of a packet, where the code reads it without a check. The callers below have checked that
  it is there, or the invariant of the tables says so.
\<close>

definition name_of :: "ccnl_pkt_s \<Rightarrow> ccnl_prefix_s" where
  "name_of pkt = (case pk_pfx pkt of Some p \<Rightarrow> p
     | None \<Rightarrow> \<lparr>px_comp = [], px_compcnt = 0, px_suite = 0, px_name = None, px_bytes = None, px_chunknum = None\<rparr>)"

subsection \<open>Faces\<close>

fun find_face :: "int \<Rightarrow> sockunion option \<Rightarrow> ccnl_face_s list \<Rightarrow> ccnl_face_s option" where
  "find_face ifndx sa [] = None"
| "find_face ifndx None (f # fs) = (if fc_ifndx f = -1 then Some f else find_face ifndx None fs)"
| "find_face ifndx (Some a) (f # fs) =
    (if ifndx \<noteq> -1 \<and> fc_ifndx f = ifndx \<and> ccnl_addr_cmp (fc_peer f) a = 0 then Some f
     else find_face ifndx (Some a) fs)"

fun find_if :: "int \<Rightarrow> nat \<Rightarrow> ccnl_if_s list \<Rightarrow> int" where
  "find_if fam n [] = -1"
| "find_if fam n (i # is) = (if sa_family (if_addr i) = fam then int n else find_if fam (Suc n) is)"

definition new_face :: "renv \<Rightarrow> ccnl_relay_s \<Rightarrow> int \<Rightarrow> sockunion option \<Rightarrow> nat option \<times> ccnl_relay_s" where
  "new_face E r ifndx sa =
    (case ccnl_calloc E r of (None, r) \<Rightarrow> (None, r)
     | (Some p, r) \<Rightarrow>
         (let n = nat ifndx;
              flags = (if 0 \<le> ifndx \<and> n < length (rl_ifs r)
                       then (if if_reflect (rl_ifs r ! n) then CCNL_FACE_FLAGS_REFLECT else 0)
                            OR (if if_fwdalli (rl_ifs r ! n) then CCNL_FACE_FLAGS_FWDALLI else 0)
                       else 0);
              r = (if 0 \<le> ifndx \<and> length (rl_ifs r) \<le> n then fault (BadInterface ifndx) r else r);
              f = \<lparr>fc_ptr = p, fc_faceid = rl_seqno r + 1, fc_ifndx = (if sa = None then -1 else ifndx),
                   fc_peer = (case sa of Some a \<Rightarrow> a | None \<Rightarrow> SU_other), fc_flags = flags,
                   fc_last_used = re_now E, fc_outq = []\<rparr>
          in (Some p, r\<lparr>rl_seqno := rl_seqno r + 1, rl_faces := f # rl_faces r\<rparr>)))"

definition ccnl_get_face_or_create ::
    "renv \<Rightarrow> ccnl_relay_s \<Rightarrow> int \<Rightarrow> sockunion option \<Rightarrow> nat option \<times> ccnl_relay_s" where
  "ccnl_get_face_or_create E r ifndx sa =
    (case find_face ifndx sa (rl_faces r) of
       Some f \<Rightarrow> (Some (fc_ptr f),
                  if sa = None then r else upd_face (fc_ptr f) (\<lambda>f. f\<lparr>fc_last_used := re_now E\<rparr>) r)
     | None \<Rightarrow>
         (let ifndx' = (case sa of Some a \<Rightarrow>
                          (if ifndx = -1 then find_if (sa_family a) 0 (take (rl_ifcount r) (rl_ifs r)) else ifndx)
                        | None \<Rightarrow> ifndx)
          in if sa \<noteq> None \<and> ifndx = -1 \<and> ifndx' = -1 then (None, r)
             else new_face E r ifndx' sa))"

subsection \<open>Interfaces and sending\<close>

definition upd_if :: "nat \<Rightarrow> (ccnl_if_s \<Rightarrow> ccnl_if_s) \<Rightarrow> ccnl_relay_s \<Rightarrow> ccnl_relay_s" where
  "upd_if n g r = r\<lparr>rl_ifs := (rl_ifs r)[n := g (rl_ifs r ! n)]\<rparr>"

definition ccnl_interface_CTS :: "ccnl_relay_s \<Rightarrow> nat \<Rightarrow> ccnl_relay_s" where
  "ccnl_interface_CTS r n =
    (let ifc = rl_ifs r ! n
     in if if_qlen ifc = 0 then r
        else
          (let req = if_queue ifc ! if_qfront ifc;
               r = upd_if n (\<lambda>c. c\<lparr>if_tx_cnt := if_tx_cnt c + 1,
                                   if_qfront := (if_qfront c + 1) mod CCNL_MAX_IF_QLEN,
                                   if_qlen := if_qlen c - 1\<rparr>) r
           in r\<lparr>rl_sent := rl_sent r @ [(n, tx_dst req, tx_buf req)]\<rparr>))"

definition ccnl_interface_enqueue :: "ccnl_relay_s \<Rightarrow> nat \<Rightarrow> nat \<Rightarrow> bytes \<Rightarrow> sockunion \<Rightarrow> ccnl_relay_s" where
  "ccnl_interface_enqueue r f n buf dest =
    (let ifc = rl_ifs r ! n
     in if CCNL_MAX_IF_QLEN \<le> if_qlen ifc then r
        else
          (let slot = (if_qfront ifc + if_qlen ifc) mod CCNL_MAX_IF_QLEN;
               req = \<lparr>tx_buf = buf, tx_dst = dest, tx_face = f\<rparr>
           in ccnl_interface_CTS
                (upd_if n (\<lambda>c. c\<lparr>if_queue := (if_queue c)[slot := req], if_qlen := if_qlen c + 1\<rparr>) r) n))"

definition ccnl_face_dequeue :: "ccnl_relay_s \<Rightarrow> ccnl_face_s \<Rightarrow> bytes option \<times> ccnl_relay_s" where
  "ccnl_face_dequeue r f =
    (case fc_outq f of [] \<Rightarrow> (None, r)
     | buf # q \<Rightarrow> (Some buf, upd_face (fc_ptr f) (\<lambda>f. f\<lparr>fc_outq := q\<rparr>) r))"

definition ccnl_face_CTS :: "ccnl_relay_s \<Rightarrow> nat \<Rightarrow> ccnl_relay_s" where
  "ccnl_face_CTS r p =
    (case get_face p r of None \<Rightarrow> fault (FreedAccess p) r
     | Some f \<Rightarrow>
         (case ccnl_face_dequeue r f of (None, r) \<Rightarrow> r
          | (Some buf, r) \<Rightarrow>
              if 0 \<le> fc_ifndx f \<and> nat (fc_ifndx f) < length (rl_ifs r)
              then ccnl_interface_enqueue r p (nat (fc_ifndx f)) buf (fc_peer f)
              else fault (BadInterface (fc_ifndx f)) r))"

definition ccnl_face_enqueue :: "ccnl_relay_s \<Rightarrow> nat \<Rightarrow> bytes option \<Rightarrow> int \<times> ccnl_relay_s" where
  "ccnl_face_enqueue r p buf =
    (case buf of None \<Rightarrow> (-1, r)
     | Some buf \<Rightarrow>
         (case get_face p r of None \<Rightarrow> (-1, fault (FreedAccess p) r)
          | Some f \<Rightarrow>
              if buf \<in> set (fc_outq f) then (-1, r)
              else (0, ccnl_face_CTS (upd_face p (\<lambda>f. f\<lparr>fc_outq := fc_outq f @ [buf]\<rparr>) r) p)))"

definition ccnl_send_pkt :: "renv \<Rightarrow> ccnl_relay_s \<Rightarrow> nat \<Rightarrow> ccnl_pkt_s \<Rightarrow> int \<times> ccnl_relay_s" where
  "ccnl_send_pkt E r p pkt =
    (case ccnl_calloc E r of (None, r) \<Rightarrow> ccnl_face_enqueue r p None
     | (Some _, r) \<Rightarrow> ccnl_face_enqueue r p (Some (pk_buf pkt)))"

subsection \<open>Pending interests\<close>

definition ccnl_pkt_interest_lifetime :: "ccnl_pkt_s \<Rightarrow> u64" where
  "ccnl_pkt_interest_lifetime pkt =
    (if pk_suite pkt = CCNL_SUITE_NDNTLV then pk_interestlifetime pkt div 1000 else CCNL_INTEREST_TIMEOUT)"

text \<open>A full table consumes the packet and gives no entry.\<close>

definition ccnl_interest_new ::
    "renv \<Rightarrow> ccnl_relay_s \<Rightarrow> nat option \<Rightarrow> ccnl_pkt_s \<Rightarrow> nat option \<times> ccnl_relay_s" where
  "ccnl_interest_new E r from pkt =
    (case ccnl_calloc E r of (None, r) \<Rightarrow> (None, r)
     | (Some p, r) \<Rightarrow>
         if rl_max_pit_entries r \<noteq> -1 \<and> rl_max_pit_entries r \<le> rl_pitcnt r then (None, r)
         else
           (let i = \<lparr>in_ptr = p, in_pkt = pkt, in_from = from, in_pending = [],
                     in_lifetime = ucast (ccnl_pkt_interest_lifetime pkt), in_last_used = re_now E, in_retries = 0\<rparr>
            in (Some p, r\<lparr>rl_pit := i # rl_pit r, rl_pitcnt := rl_pitcnt r + 1\<rparr>)))"

text \<open>Two interests are the same when names and selectors agree. The parser never sets a key locator.\<close>

definition ccnl_interest_isSame :: "ccnl_interest_s \<Rightarrow> ccnl_pkt_s \<Rightarrow> int" where
  "ccnl_interest_isSame i pkt =
    (let ip = in_pkt i
     in if px_suite (name_of ip) \<noteq> pk_suite pkt \<or> ccnl_prefix_cmp (name_of ip) None (name_of pkt) CMP_EXACT \<noteq> 0 then 0
        else if px_suite (name_of ip) = CCNL_SUITE_NDNTLV then
          (if pk_minsuffix ip = pk_minsuffix pkt \<and> pk_maxsuffix ip = pk_maxsuffix pkt then 1 else 0)
        else 1)"

definition ccnl_interest_append_pending ::
    "renv \<Rightarrow> ccnl_relay_s \<Rightarrow> nat \<Rightarrow> nat option \<Rightarrow> int \<times> ccnl_relay_s" where
  "ccnl_interest_append_pending E r p from =
    (case from of None \<Rightarrow> (-2, r)
     | Some f \<Rightarrow>
         (case find (\<lambda>i. in_ptr i = p) (rl_pit r) of None \<Rightarrow> (-1, fault (FreedAccess p) r)
          | Some i \<Rightarrow>
              if \<exists>pi\<in>set (in_pending i). pi_face pi = f then
                (0, upd_interest p (\<lambda>i. i\<lparr>in_pending := map (\<lambda>pi. if pi_face pi = f then pi\<lparr>pi_last_used := re_now E\<rparr> else pi)
                                                             (in_pending i)\<rparr>) r)
              else
                (case ccnl_calloc E r of (None, r) \<Rightarrow> (-1, r)
                 | (Some _, r) \<Rightarrow>
                     (0, upd_interest p (\<lambda>i. i\<lparr>in_pending := in_pending i @ [\<lparr>pi_face = f, pi_last_used = re_now E\<rparr>]\<rparr>) r))))"

text \<open>Removing a face from an interest compares the numbers of the faces, not their addresses.\<close>

definition ccnl_interest_remove_pending ::
    "ccnl_relay_s \<Rightarrow> ccnl_interest_s option \<Rightarrow> nat option \<Rightarrow> int \<times> ccnl_relay_s" where
  "ccnl_interest_remove_pending r i face =
    (case i of None \<Rightarrow> (-1, r)
     | Some i \<Rightarrow>
         (case face of None \<Rightarrow> (-2, r)
          | Some f \<Rightarrow>
              (case get_face f r of None \<Rightarrow> (-1, fault (FreedAccess f) r)
               | Some f \<Rightarrow>
                   (let same = (\<lambda>pi. \<exists>g\<in>set (rl_faces r). fc_ptr g = pi_face pi \<and> fc_faceid g = fc_faceid f)
                    in (int (length (filter same (in_pending i))),
                        upd_interest (in_ptr i) (\<lambda>i. i\<lparr>in_pending := filter (\<lambda>pi. \<not> same pi) (in_pending i)\<rparr>) r)))))"

definition ccnl_interest_remove :: "ccnl_relay_s \<Rightarrow> nat \<Rightarrow> ccnl_relay_s" where
  "ccnl_interest_remove r p =
    (if \<exists>i\<in>set (rl_pit r). in_ptr i = p
     then r\<lparr>rl_pitcnt := rl_pitcnt r - 1, rl_pit := filter (\<lambda>i. in_ptr i \<noteq> p) (rl_pit r)\<rparr>
     else fault (FreedAccess p) r)"

text \<open>
  Forwarding an interest to every entry of the forwarding table whose prefix covers its name, except
  back to where it came from unless that face reflects.
\<close>

definition fib_covers :: "ccnl_forward_s \<Rightarrow> ccnl_pkt_s \<Rightarrow> bool" where
  "fib_covers fwd pkt =
    (case fw_prefix fwd of None \<Rightarrow> False
     | Some p \<Rightarrow>
         (case pk_pfx pkt of None \<Rightarrow> False
          | Some nam \<Rightarrow> fw_suite fwd = px_suite nam \<and> int (px_compcnt p) \<le> ccnl_prefix_cmp p None nam CMP_LONGEST))"

definition may_send :: "ccnl_relay_s \<Rightarrow> ccnl_forward_s \<Rightarrow> nat option \<Rightarrow> bool" where
  "may_send r fwd from =
    (case from of None \<Rightarrow> True
     | Some f \<Rightarrow> fw_face fwd \<noteq> Some f
                 \<or> (case get_face f r of None \<Rightarrow> False | Some g \<Rightarrow> fc_flags g AND CCNL_FACE_FLAGS_REFLECT \<noteq> 0))"

fun propagate_loop :: "renv \<Rightarrow> ccnl_interest_s \<Rightarrow> ccnl_forward_s list \<Rightarrow> ccnl_relay_s \<Rightarrow> ccnl_relay_s" where
  "propagate_loop E i [] r = r"
| "propagate_loop E i (fwd # fs) r =
    (if fib_covers fwd (in_pkt i) \<and> may_send r fwd (in_from i)
     then
       (let r = (case fw_tap fwd of None \<Rightarrow> r
                 | Some t \<Rightarrow> re_tap E t r (in_from i) (name_of (in_pkt i)) (pk_buf (in_pkt i)));
            r = (case fw_face fwd of None \<Rightarrow> r | Some f \<Rightarrow> snd (ccnl_send_pkt E r f (in_pkt i)))
        in propagate_loop E i fs r)
     else propagate_loop E i fs r)"

definition ccnl_interest_propagate :: "renv \<Rightarrow> ccnl_relay_s \<Rightarrow> ccnl_interest_s \<Rightarrow> ccnl_relay_s" where
  "ccnl_interest_propagate E r i = propagate_loop E i (rl_fib r) r"

text \<open>
  Removing a face takes it out of every pending interest (an interest that nobody waits for any
  more goes with it) and out of the forwarding table. The first function gives the interests that
  stay and the number of those that go.
\<close>

fun clean_pit :: "nat \<Rightarrow> ccnl_interest_s list \<Rightarrow> ccnl_interest_s list \<times> int" where
  "clean_pit p [] = ([], 0)"
| "clean_pit p (i # is) =
    (let i' = i\<lparr>in_from := (if in_from i = Some p then None else in_from i),
                in_pending := filter (\<lambda>pi. pi_face pi \<noteq> p) (in_pending i)\<rparr>;
         (kept, n) = clean_pit p is
     in if in_pending i' \<noteq> [] then (i' # kept, n) else (kept, n + 1))"

definition ccnl_face_remove :: "ccnl_relay_s \<Rightarrow> nat \<Rightarrow> ccnl_relay_s" where
  "ccnl_face_remove r p =
    (if get_face p r = None then fault (FreedAccess p) r
     else
       (let (pit, n) = clean_pit p (rl_pit r)
        in r\<lparr>rl_pit := pit, rl_pitcnt := rl_pitcnt r - n, rl_fib := filter (\<lambda>fwd. fw_face fwd \<noteq> Some p) (rl_fib r),
             rl_faces := filter (\<lambda>f. fc_ptr f \<noteq> p) (rl_faces r)\<rparr>))"

subsection \<open>The content store\<close>

definition is_static :: "ccnl_content_s \<Rightarrow> bool" where
  "is_static c \<longleftrightarrow> ct_flags c AND CCNL_CONTENT_FLAGS_STATIC \<noteq> 0"

definition ccnl_content_new :: "renv \<Rightarrow> ccnl_relay_s \<Rightarrow> ccnl_pkt_s \<Rightarrow> ccnl_content_s option \<times> ccnl_relay_s" where
  "ccnl_content_new E r pkt =
    (case ccnl_calloc E r of (None, r) \<Rightarrow> (None, r)
     | (Some p, r) \<Rightarrow>
         (Some \<lparr>ct_ptr = p, ct_pkt = pkt, ct_flags = 0, ct_last_used = re_now E, ct_served_cnt = 0\<rparr>, r))"

definition ccnl_content_remove :: "ccnl_relay_s \<Rightarrow> nat \<Rightarrow> ccnl_relay_s" where
  "ccnl_content_remove r p =
    (if \<exists>c\<in>set (rl_contents r). ct_ptr c = p
     then r\<lparr>rl_contents := filter (\<lambda>c. ct_ptr c \<noteq> p) (rl_contents r), rl_contentcnt := rl_contentcnt r - 1\<rparr>
     else fault (FreedAccess p) r)"

definition cache_strategy_remove :: "renv \<Rightarrow> ccnl_relay_s \<Rightarrow> ccnl_content_s \<Rightarrow> int \<times> ccnl_relay_s" where
  "cache_strategy_remove E r c =
    (case re_cs_remove E of None \<Rightarrow> (0, r) | Some f \<Rightarrow> (let (r, rc) = f r c in (rc, r)))"

definition cache_strategy_cache :: "renv \<Rightarrow> ccnl_relay_s \<Rightarrow> ccnl_content_s \<Rightarrow> int \<times> ccnl_relay_s" where
  "cache_strategy_cache E r c =
    (case re_cs_decision E of None \<Rightarrow> (1, r) | Some f \<Rightarrow> (let (r, rc) = f r c in (rc, r)))"

text \<open>
  The entry to replace: the least recently used one that is not static. An age of zero stands for
  \<open>none found yet\<close>, also when it is the age of an entry.
\<close>

fun find_oldest :: "ccnl_content_s list \<Rightarrow> u32 \<Rightarrow> nat option \<Rightarrow> nat option" where
  "find_oldest [] age oldest = oldest"
| "find_oldest (c # cs) age oldest =
    (if \<not> is_static c \<and> (age = 0 \<or> ct_last_used c < age)
     then find_oldest cs (ct_last_used c) (Some (ct_ptr c))
     else find_oldest cs age oldest)"

definition same_name :: "ccnl_pkt_s \<Rightarrow> ccnl_pkt_s \<Rightarrow> bool" where
  "same_name p q \<longleftrightarrow> ccnl_prefix_cmp (name_of p) None (name_of q) CMP_EXACT = 0"

definition make_room :: "renv \<Rightarrow> ccnl_relay_s \<Rightarrow> ccnl_content_s \<Rightarrow> ccnl_relay_s" where
  "make_room E r c =
    (if 0 < rl_max_cache_entries r \<and> rl_max_cache_entries r \<le> rl_contentcnt r then
       (case cache_strategy_remove E r c of (rc, r) \<Rightarrow>
          if rc \<noteq> 0 then r
          else (case find_oldest (rl_contents r) 0 None of None \<Rightarrow> r | Some p \<Rightarrow> ccnl_content_remove r p))
     else r)"

definition ccnl_content_add2cache :: "renv \<Rightarrow> ccnl_relay_s \<Rightarrow> ccnl_content_s \<Rightarrow> ccnl_content_s option \<times> ccnl_relay_s" where
  "ccnl_content_add2cache E r c =
    (if \<exists>cit\<in>set (rl_contents r). same_name (ct_pkt c) (ct_pkt cit) then (None, r)
     else
       (let r = make_room E r c
        in (Some c,
            if rl_max_cache_entries r \<le> 0 \<or> rl_contentcnt r \<le> rl_max_cache_entries r
            then r\<lparr>rl_contents := c # rl_contents r, rl_contentcnt := rl_contentcnt r + 1\<rparr>
            else r)))"

text \<open>
  Serving the faces that wait for a content. A face is served once for a content, whatever the number
  of interests; an interest nobody waits for makes the content static. The result is \<open>None\<close> when
  the loop does not end: it does not move past an interest without a name.
\<close>

fun serve_faces :: "renv \<Rightarrow> ccnl_content_s \<Rightarrow> nat \<Rightarrow> ccnl_pendint_s list \<Rightarrow> ccnl_relay_s \<Rightarrow> ccnl_content_s \<times> nat \<times> ccnl_relay_s" where
  "serve_faces E c cnt [] r = (c, cnt, r)"
| "serve_faces E c cnt (pi # ps) r =
    (case get_face (pi_face pi) r of None \<Rightarrow> serve_faces E c cnt ps (fault (FreedAccess (pi_face pi)) r)
     | Some f \<Rightarrow>
         if fc_flags f AND CCNL_FACE_FLAGS_SERVED \<noteq> 0 then serve_faces E c cnt ps r
         else
           (let r = upd_face (pi_face pi) (\<lambda>f. f\<lparr>fc_flags := fc_flags f OR CCNL_FACE_FLAGS_SERVED\<rparr>) r;
                r = (if 0 \<le> fc_ifndx f then snd (ccnl_send_pkt E r (pi_face pi) (ct_pkt c)) else r)
            in serve_faces E (c\<lparr>ct_served_cnt := ct_served_cnt c + 1\<rparr>) (Suc cnt) ps r))"

definition answers :: "renv \<Rightarrow> ccnl_pkt_s \<Rightarrow> ccnl_pkt_s \<Rightarrow> bool" where
  "answers E dp ip \<longleftrightarrow> px_suite (name_of ip) = CCNL_SUITE_NDNTLV \<and>
     0 \<le> ccnl_i_prefixof_c (name_of ip) (pk_minsuffix ip) (pk_maxsuffix ip) (name_of dp) (re_digest E (pk_buf dp))"

fun serve_loop ::
    "renv \<Rightarrow> ccnl_content_s \<Rightarrow> nat \<Rightarrow> ccnl_interest_s list \<Rightarrow> ccnl_relay_s \<Rightarrow> (ccnl_content_s \<times> nat \<times> ccnl_relay_s) option" where
  "serve_loop E c cnt [] r = Some (c, cnt, r)"
| "serve_loop E c cnt (i # is) r =
    (if pk_pfx (in_pkt i) = None then None
     else if \<not> answers E (ct_pkt c) (in_pkt i) then serve_loop E c cnt is r
     else if in_pending i = [] then
       serve_loop E (c\<lparr>ct_flags := ct_flags c OR CCNL_CONTENT_FLAGS_STATIC, ct_served_cnt := ct_served_cnt c + 1\<rparr>)
         (Suc cnt) is (ccnl_interest_remove r (in_ptr i))
     else
       (case serve_faces E c cnt (in_pending i) r of (c, cnt, r) \<Rightarrow>
          serve_loop E c cnt is (ccnl_interest_remove r (in_ptr i))))"

definition ccnl_content_serve_pending ::
    "renv \<Rightarrow> ccnl_relay_s \<Rightarrow> ccnl_content_s \<Rightarrow> (ccnl_content_s \<times> nat \<times> ccnl_relay_s) option" where
  "ccnl_content_serve_pending E r c =
    (let r = r\<lparr>rl_faces := map (\<lambda>f. f\<lparr>fc_flags := fc_flags f AND NOT CCNL_FACE_FLAGS_SERVED\<rparr>) (rl_faces r)\<rparr>
     in serve_loop E c 0 (rl_pit r) r)"

text \<open>Adding to the store from outside. The counters of the entry in the store are updated.\<close>

definition ccnl_cs_add :: "renv \<Rightarrow> ccnl_relay_s \<Rightarrow> ccnl_content_s \<Rightarrow> (int \<times> ccnl_relay_s) option" where
  "ccnl_cs_add E r c =
    (case ccnl_content_add2cache E r c of (None, r) \<Rightarrow> Some (-1, r)
     | (Some c, r) \<Rightarrow>
         (case ccnl_content_serve_pending E r c of None \<Rightarrow> None
          | Some (c', _, r) \<Rightarrow>
              Some (0, r\<lparr>rl_contents := map (\<lambda>d. if ct_ptr d = ct_ptr c then c' else d) (rl_contents r)\<rparr>)))"

text \<open>
  Looking up and removing by a printed name. The name of an entry is printed into newly allocated
  memory and compared with as many bytes of the argument as it is long.
\<close>

definition ccnl_prefix_to_path :: "renv \<Rightarrow> ccnl_relay_s \<Rightarrow> ccnl_pkt_s \<Rightarrow> bytes option \<times> ccnl_relay_s" where
  "ccnl_prefix_to_path E r pkt =
    (case ccnl_calloc E r of (None, r) \<Rightarrow> (None, r)
     | (Some _, r) \<Rightarrow> (ccnl_prefix_to_str_detailed (name_of pkt) False CCNL_MAX_PREFIX_SIZE, r))"

fun cs_find :: "renv \<Rightarrow> bytes \<Rightarrow> ccnl_content_s list \<Rightarrow> ccnl_relay_s \<Rightarrow> (int + ccnl_content_s) \<times> ccnl_relay_s" where
  "cs_find E path [] r = (Inl (-3), r)"
| "cs_find E path (c # cs) r =
    (case ccnl_prefix_to_path E r (ct_pkt c) of (None, r) \<Rightarrow> (Inl (-2), r)
     | (Some spref, r) \<Rightarrow> if take (length spref) path = spref then (Inr c, r) else cs_find E path cs r)"

definition ccnl_cs_remove :: "renv \<Rightarrow> ccnl_relay_s \<Rightarrow> bytes option \<Rightarrow> int \<times> ccnl_relay_s" where
  "ccnl_cs_remove E r path =
    (case path of None \<Rightarrow> (-1, r)
     | Some path \<Rightarrow>
         (case cs_find E path (rl_contents r) r of
            (Inl rc, r) \<Rightarrow> (rc, r)
          | (Inr c, r) \<Rightarrow> (0, ccnl_content_remove r (ct_ptr c))))"

definition ccnl_cs_lookup :: "renv \<Rightarrow> ccnl_relay_s \<Rightarrow> bytes option \<Rightarrow> ccnl_content_s option \<times> ccnl_relay_s" where
  "ccnl_cs_lookup E r path =
    (case path of None \<Rightarrow> (None, r)
     | Some path \<Rightarrow>
         (case cs_find E path (rl_contents r) r of
            (Inl _, r) \<Rightarrow> (None, r)
          | (Inr c, r) \<Rightarrow> (Some c, r)))"

subsection \<open>Nonces\<close>

definition ccnl_nonce_find_or_append :: "renv \<Rightarrow> ccnl_relay_s \<Rightarrow> bytes \<Rightarrow> int \<times> ccnl_relay_s" where
  "ccnl_nonce_find_or_append E r nonce =
    (let ns = rl_nonces r
     in if nonce \<in> set ns then (-1, r)
        else
          (case ccnl_calloc E r of (None, r) \<Rightarrow> (0, r)
           | (Some _, r) \<Rightarrow>
               (0, r\<lparr>rl_nonces := nonce # (if CCNL_MAX_NONCES \<le> length ns \<and> 2 \<le> length ns then butlast ns else ns)\<rparr>)))"

definition ccnl_nonce_isDup :: "renv \<Rightarrow> ccnl_relay_s \<Rightarrow> ccnl_pkt_s \<Rightarrow> bool \<times> ccnl_relay_s" where
  "ccnl_nonce_isDup E r pkt =
    (if pk_suite pkt = CCNL_SUITE_NDNTLV then
       (case pk_nonce pkt of None \<Rightarrow> (False, r)
        | Some n \<Rightarrow> (case ccnl_nonce_find_or_append E r n of (rc, r) \<Rightarrow> (rc \<noteq> 0, r)))
     else (False, r))"

subsection \<open>The forwarding table\<close>

definition fib_same :: "ccnl_forward_s \<Rightarrow> ccnl_prefix_s \<Rightarrow> bool" where
  "fib_same fwd pfx \<longleftrightarrow> fw_suite fwd = px_suite pfx \<and>
     (case fw_prefix fwd of None \<Rightarrow> False | Some p \<Rightarrow> ccnl_prefix_cmp p None pfx CMP_EXACT = 0)"

fun fib_put :: "(ccnl_forward_s \<Rightarrow> ccnl_forward_s) \<Rightarrow> ccnl_prefix_s \<Rightarrow> ccnl_forward_s list \<Rightarrow> ccnl_forward_s list option" where
  "fib_put g pfx [] = None"
| "fib_put g pfx (fwd # fs) =
    (if fib_same fwd pfx then Some (g (fwd\<lparr>fw_prefix := Some pfx\<rparr>) # fs)
     else map_option ((#) fwd) (fib_put g pfx fs))"

text \<open>
  An entry for the same prefix is overwritten in its place, otherwise a new one is linked at the
  end. Setting a tap is the same with another field.
\<close>

definition fib_set :: "renv \<Rightarrow> ccnl_relay_s \<Rightarrow> (ccnl_forward_s \<Rightarrow> ccnl_forward_s) \<Rightarrow> ccnl_prefix_s \<Rightarrow> int \<times> ccnl_relay_s" where
  "fib_set E r g pfx =
    (case fib_put g pfx (rl_fib r) of
       Some fib \<Rightarrow> (0, r\<lparr>rl_fib := fib\<rparr>)
     | None \<Rightarrow>
         (case ccnl_calloc E r of (None, r) \<Rightarrow> (-1, r)
          | (Some _, r) \<Rightarrow>
              (0, r\<lparr>rl_fib := rl_fib r @ [g \<lparr>fw_prefix = Some pfx, fw_tap = None, fw_face = None, fw_suite = px_suite pfx\<rparr>]\<rparr>)))"

definition ccnl_fib_add_entry :: "renv \<Rightarrow> ccnl_relay_s \<Rightarrow> ccnl_prefix_s \<Rightarrow> nat \<Rightarrow> int \<times> ccnl_relay_s" where
  "ccnl_fib_add_entry E r pfx face = fib_set E r (\<lambda>fwd. fwd\<lparr>fw_face := Some face\<rparr>) pfx"

definition ccnl_set_tap :: "renv \<Rightarrow> ccnl_relay_s \<Rightarrow> ccnl_prefix_s \<Rightarrow> nat \<Rightarrow> int \<times> ccnl_relay_s" where
  "ccnl_set_tap E r pfx callback = fib_set E r (\<lambda>fwd. fwd\<lparr>fw_tap := Some callback\<rparr>) pfx"

definition fib_selected :: "ccnl_prefix_s option \<Rightarrow> nat option \<Rightarrow> ccnl_forward_s \<Rightarrow> bool" where
  "fib_selected pfx face fwd \<longleftrightarrow>
    (case pfx of None \<Rightarrow> True | Some p \<Rightarrow> fib_same fwd p) \<and> (face = None \<or> fw_face fwd = face)"

text \<open>The first entry selected is unlinked and freed; its face is read afterwards, for a message.\<close>

fun fib_del :: "(ccnl_forward_s \<Rightarrow> bool) \<Rightarrow> ccnl_forward_s list \<Rightarrow> ccnl_forward_s list option" where
  "fib_del P [] = None"
| "fib_del P (fwd # fs) = (if P fwd then Some fs else map_option ((#) fwd) (fib_del P fs))"

definition ccnl_fib_rem_entry :: "ccnl_relay_s \<Rightarrow> ccnl_prefix_s option \<Rightarrow> nat option \<Rightarrow> int \<times> ccnl_relay_s" where
  "ccnl_fib_rem_entry r pfx face =
    (case fib_del (fib_selected pfx face) (rl_fib r) of
       None \<Rightarrow> (-1, r)
     | Some fib \<Rightarrow> (0, fault FreedEntry (r\<lparr>rl_fib := fib\<rparr>)))"

subsection \<open>Ageing and cleaning up\<close>

definition age_content :: "renv \<Rightarrow> ccnl_content_s \<Rightarrow> ccnl_content_s" where
  "age_content E c =
    (if pk_suite (ct_pkt c) = CCNL_SUITE_NDNTLV
        \<and> ucast (ct_last_used c) + pk_freshnessperiod (ct_pkt c) div 1000 \<le> (ucast (re_now E) :: u64)
        \<and> \<not> is_static c
     then c\<lparr>ct_flags := ct_flags c OR CCNL_CONTENT_FLAGS_STALE\<rparr> else c)"

fun age_contents :: "renv \<Rightarrow> ccnl_content_s list \<Rightarrow> ccnl_relay_s \<Rightarrow> ccnl_relay_s" where
  "age_contents E [] r = r"
| "age_contents E (c # cs) r =
    (if ct_last_used c + CCNL_CONTENT_TIMEOUT \<le> re_now E \<and> \<not> is_static c
     then age_contents E cs (ccnl_content_remove r (ct_ptr c))
     else age_contents E cs
            (r\<lparr>rl_contents := map (\<lambda>d. if ct_ptr d = ct_ptr c then age_content E c else d) (rl_contents r)\<rparr>))"

fun age_interests :: "renv \<Rightarrow> ccnl_interest_s list \<Rightarrow> ccnl_relay_s \<Rightarrow> ccnl_relay_s" where
  "age_interests E [] r = r"
| "age_interests E (i # is) r =
    (if in_last_used i + in_lifetime i \<le> re_now E \<or> CCNL_MAX_INTEREST_RETRANSMIT \<le> in_retries i
     then age_interests E is (ccnl_interest_remove r (in_ptr i))
     else age_interests E is
            (upd_interest (in_ptr i) (\<lambda>i. i\<lparr>in_retries := in_retries i + 1\<rparr>) (ccnl_interest_propagate E r i)))"

fun age_faces :: "renv \<Rightarrow> ccnl_face_s list \<Rightarrow> ccnl_relay_s \<Rightarrow> ccnl_relay_s" where
  "age_faces E [] r = r"
| "age_faces E (f # fs) r =
    (if fc_flags f AND CCNL_FACE_FLAGS_STATIC = 0 \<and> fc_last_used f + CCNL_FACE_TIMEOUT \<le> re_now E
     then age_faces E fs (ccnl_face_remove r (fc_ptr f))
     else age_faces E fs r)"

definition ccnl_do_ageing :: "renv \<Rightarrow> ccnl_relay_s \<Rightarrow> ccnl_relay_s" where
  "ccnl_do_ageing E r =
    (let r1 = age_contents E (rl_contents r) r; r2 = age_interests E (rl_pit r) r1
     in age_faces E (rl_faces r) r2)"

text \<open>Releasing all tables. Closing the sockets of the interfaces is left out; their queues are empty.\<close>

definition ccnl_core_cleanup :: "ccnl_relay_s \<Rightarrow> ccnl_relay_s" where
  "ccnl_core_cleanup r =
    (let r1 = foldl ccnl_interest_remove r (map in_ptr (rl_pit r));
         r2 = foldl ccnl_face_remove r1 (map fc_ptr (rl_faces r1));
         r3 = r2\<lparr>rl_fib := []\<rparr>;
         r4 = foldl ccnl_content_remove r3 (map ct_ptr (rl_contents r3))
     in r4\<lparr>rl_nonces := []\<rparr>)"

end
