(* ===== verification/Ccn_Forward.thy ===== *)
theory Ccn_Forward
  imports Ccn_Relay
begin

section \<open>Handling received packets (ccnl-fwd.c, ccnl-dispatch.c)\<close>

text \<open>
  What the relay does with a datagram: find the face it came from, strip code switches, recognise
  the packet format, parse the packet, and handle it as an interest or as data. A handler that meets
  a null pointer stops with a fault. A result \<open>None\<close> is a call that does not return.
\<close>

subsection \<open>Data\<close>

text \<open>
  The comparisons with the stored contents and with the pending interests read the name of the
  packet, which is not checked.
\<close>

definition ccnl_fwd_handleContent :: "renv \<Rightarrow> ccnl_relay_s \<Rightarrow> nat option \<Rightarrow> ccnl_pkt_s \<Rightarrow> (int \<times> ccnl_relay_s) option" where
  "ccnl_fwd_handleContent E r from pkt =
    (case (case re_rx_on_data E of None \<Rightarrow> (r, 0) | Some f \<Rightarrow> f r from pkt) of (r, rc) \<Rightarrow>
       if rc \<noteq> 0 then Some (0, r)
       else if pk_pfx pkt = None \<and> (rl_contents r \<noteq> [] \<or> rl_pit r \<noteq> []) then Some (-1, fault NullAccess r)
       else if \<exists>c\<in>set (rl_contents r). same_name (ct_pkt c) pkt then Some (0, r)
       else
         (case ccnl_content_new E r pkt of (None, r) \<Rightarrow> Some (0, r)
          | (Some c, r) \<Rightarrow>
              (case ccnl_content_serve_pending E r c of None \<Rightarrow> None
               | Some (c, cnt, r) \<Rightarrow>
                   if cnt = 0 then Some (0, r)
                   else if rl_max_cache_entries r = 0 then Some (0, r)
                   else
                     (case cache_strategy_cache E r c of (rc, r) \<Rightarrow>
                        if rc = 0 then Some (0, r)
                        else
                          (case ccnl_content_add2cache E r c of (_, r) \<Rightarrow>
                             Some (0, if c \<in> set (rl_contents r) then r else fault (LostContent (ct_ptr c)) r))))))"

subsection \<open>Interests\<close>

definition ccnl_pkt_fwdOK :: "ccnl_pkt_s \<Rightarrow> bool" where
  "ccnl_pkt_fwdOK pkt \<longleftrightarrow> (if pk_suite pkt = CCNL_SUITE_NDNTLV then 2 < pk_scope pkt else True)"

text \<open>Whether a stored content matches an interest; stale content does not when the interest asks for fresh content.\<close>

definition ccnl_ndntlv_cMatch :: "renv \<Rightarrow> ccnl_pkt_s \<Rightarrow> ccnl_content_s \<Rightarrow> int" where
  "ccnl_ndntlv_cMatch E p c =
    (if ccnl_i_prefixof_c (name_of p) (pk_minsuffix p) (pk_maxsuffix p) (name_of (ct_pkt c))
          (re_digest E (pk_buf (ct_pkt c))) < 0 then -1
     else if pk_mbf p \<and> ct_flags c AND CCNL_CONTENT_FLAGS_STALE \<noteq> 0 then -1
     else 0)"

definition mgmt_name :: "ccnl_pkt_s \<Rightarrow> bool" where
  "mgmt_name pkt \<longleftrightarrow> pk_suite pkt = CCNL_SUITE_NDNTLV \<and> px_compcnt (name_of pkt) = 4
     \<and> take 4 (px_comp (name_of pkt) ! 0) = [0x63, 0x63, 0x6e, 0x78]"

definition cs_hit :: "renv \<Rightarrow> ccnl_pkt_s \<Rightarrow> ccnl_content_s \<Rightarrow> bool" where
  "cs_hit E pkt c \<longleftrightarrow> px_suite (name_of (ct_pkt c)) = px_suite (name_of pkt) \<and> ccnl_ndntlv_cMatch E pkt c = 0"

text \<open>
  The last part of the handler: storing the interest and passing it on. Log output is not modelled: the
  message that prints a new entry evaluates its arguments only at the debug level, and there it
  dereferences the null pointer that stands for an entry that was not created.
\<close>

definition pit_step :: "renv \<Rightarrow> ccnl_relay_s \<Rightarrow> nat option \<Rightarrow> ccnl_pkt_s \<Rightarrow> int \<times> ccnl_relay_s" where
  "pit_step E r from pkt =
    (let known = find (\<lambda>i. ccnl_interest_isSame i pkt \<noteq> 0) (rl_pit r)
     in if \<not> ccnl_pkt_fwdOK pkt then (-1, r)
        else
          (case (case known of Some i \<Rightarrow> (Some (in_ptr i), r) | None \<Rightarrow> ccnl_interest_new E r from pkt) of
             (None, r) \<Rightarrow> (0, r)
           | (Some p, r) \<Rightarrow>
               (let r = snd (ccnl_interest_append_pending E r p from)
                in (0, if known = None
                       then (case find (\<lambda>i. in_ptr i = p) (rl_pit r) of None \<Rightarrow> fault (FreedAccess p) r
                             | Some i \<Rightarrow> ccnl_interest_propagate E r i)
                       else r))))"

definition ccnl_fwd_handleInterest :: "renv \<Rightarrow> ccnl_relay_s \<Rightarrow> nat option \<Rightarrow> ccnl_pkt_s \<Rightarrow> int \<times> ccnl_relay_s" where
  "ccnl_fwd_handleInterest E r from pkt =
    (case ccnl_nonce_isDup E r pkt of (dup, r) \<Rightarrow>
       if dup then (0, r)
       else
         (case (case re_local_producer E of None \<Rightarrow> (r, 0) | Some f \<Rightarrow> f r from pkt) of (r, rc) \<Rightarrow>
            if rc \<noteq> 0 then (0, r)
            else if pk_pfx pkt = None then (-1, fault NullAccess r)
            else if mgmt_name pkt then
              (0, case re_mgmt E of None \<Rightarrow> r | Some f \<Rightarrow> f r (pk_buf pkt) (name_of pkt) from)
            else
              (case find (cs_hit E pkt) (rl_contents r) of
                 Some c \<Rightarrow>
                   (0, case from of None \<Rightarrow> r
                       | Some p \<Rightarrow>
                           (case get_face p r of None \<Rightarrow> fault (FreedAccess p) r
                            | Some f \<Rightarrow> if 0 \<le> fc_ifndx f then snd (ccnl_send_pkt E r p (ct_pkt c)) else r))
               | None \<Rightarrow> pit_step E r from pkt)))"

subsection \<open>Datagrams\<close>

definition ccnl_ndntlv_forwarder ::
    "renv \<Rightarrow> ccnl_relay_s \<Rightarrow> nat option \<Rightarrow> bytes \<Rightarrow> u64 \<Rightarrow> (int \<times> bytes \<times> u64 \<times> ccnl_relay_s) option" where
  "ccnl_ndntlv_forwarder E r from data datalen =
    (case ccnl_ndntlv_dehead data datalen of
       BadAccess \<Rightarrow> Some (-1, data, datalen, fault BadRead r)
     | Rejected \<Rightarrow> Some (-1, data, datalen, r)
     | Parsed (None, data', datalen') \<Rightarrow> Some (-1, data', datalen', r)
     | Parsed (Some (typ, len), data', datalen') \<Rightarrow>
         if datalen' < len then Some (-1, data', datalen', r)
         else
           (case ccnl_ndntlv_bytes2pkt (re_mem E) typ data data' datalen' of
              BadAccess \<Rightarrow> Some (-1, data', datalen', fault BadRead r)
            | Rejected \<Rightarrow> Some (-1, data', datalen', r)
            | Parsed (pkt, data2, datalen2) \<Rightarrow>
                (let pkt = pkt\<lparr>pk_type := typ\<rparr>
                 in if typ = NDN_TLV_Interest then
                      (case ccnl_fwd_handleInterest E r from pkt of (rc, r) \<Rightarrow>
                         Some (if rc \<noteq> 0 then -1 else 0, data2, datalen2, r))
                    else if typ = NDN_TLV_Data then
                      (case ccnl_fwd_handleContent E r from pkt of None \<Rightarrow> None
                       | Some (rc, r) \<Rightarrow> Some (if rc \<noteq> 0 then -1 else 0, data2, datalen2, r))
                    else Some (0, data2, datalen2, r))))"

text \<open>A code switch is the byte 0x80 and the code of an encoding; one encoding is built in.\<close>

fun ccnl_switch_dehead :: "bytes \<Rightarrow> u64 \<Rightarrow> (u8 \<times> bytes \<times> u64) option" where
  "ccnl_switch_dehead (b # code # data) len =
    (if len < 2 \<or> b \<noteq> 0x80 then None
     else if code < 253 then Some (code, data, len - 2)
     else None)"
| "ccnl_switch_dehead _ len = None"

definition ccnl_enc2suite :: "u8 \<Rightarrow> int" where
  "ccnl_enc2suite enc = (if enc = 1 then CCNL_SUITE_NDNTLV else -1)"

function switch_loop :: "int \<Rightarrow> bytes \<Rightarrow> u64 \<Rightarrow> int \<times> bytes \<times> u64" where
  "switch_loop suite data len =
    (case ccnl_switch_dehead data len of None \<Rightarrow> (suite, data, len)
     | Some (code, data', len') \<Rightarrow> switch_loop (ccnl_enc2suite code) data' len')"
  by pat_completeness auto
termination
  by (relation "measure (\<lambda>(suite, data, len). length data)") (auto elim!: ccnl_switch_dehead.elims split: if_splits)

declare switch_loop.simps [simp del]

definition ccnl_isSuite :: "int \<Rightarrow> bool" where
  "ccnl_isSuite suite \<longleftrightarrow> suite = CCNL_SUITE_NDNTLV"

text \<open>
  Recognising the format by the first byte, read without a look at the length that is left; \<open>None\<close>
  when that byte is outside the memory block.
\<close>

definition ccnl_pkt2suite :: "bytes \<Rightarrow> u64 \<Rightarrow> int option" where
  "ccnl_pkt2suite data len =
    (if len = 0 then Some (-1)
     else (case switch_loop (-1) data len of (suite, data, len) \<Rightarrow>
             if 0 \<le> suite then Some suite
             else (case data of [] \<Rightarrow> None
                   | b # _ \<Rightarrow> Some (if ucast b = NDN_TLV_Interest \<or> ucast b = NDN_TLV_Data \<or> b = 0x64
                                  then CCNL_SUITE_NDNTLV else -1))))"

text \<open>A packet is parsed to the end of its datagram.\<close>

lemma packet_loop_exhausts:
  "packet_loop al start pkt hmac data datalen = Parsed (pkt', data', datalen') \<Longrightarrow> datalen' = 0"
proof (induction al start pkt hmac data datalen rule: packet_loop.induct)
  case (1 al start pkt hmac data datalen)
  from "1.prems" show ?case
    by (subst (asm) packet_loop.simps)
      (fastforce split: outcome.splits option.splits if_splits prod.splits intro: "1.IH" simp: word_gt_0)
qed

lemma forwarder_exhausts:
  "\<lbrakk>ccnl_ndntlv_forwarder E r from data datalen = Some (rc, data', datalen', r'); 0 \<le> rc\<rbrakk> \<Longrightarrow> datalen' = 0"
  by (auto simp: ccnl_ndntlv_forwarder_def ccnl_ndntlv_bytes2pkt_def Let_def
      split: outcome.splits option.splits if_splits prod.splits dest!: packet_loop_exhausts elim!: if_parsed.elims)

function rx_loop :: "renv \<Rightarrow> nat \<Rightarrow> int \<Rightarrow> bytes \<Rightarrow> u64 \<Rightarrow> ccnl_relay_s \<Rightarrow> ccnl_relay_s option" where
  "rx_loop E from suite data datalen r =
    (if datalen = 0 then Some r
     else
       (case switch_loop suite data datalen of (suite, data, datalen) \<Rightarrow>
          (case (if suite = -1 then ccnl_pkt2suite data datalen else Some suite) of
             None \<Rightarrow> Some (fault BadRead r)
           | Some suite \<Rightarrow>
              if \<not> ccnl_isSuite suite then Some r
              else
                (case ccnl_ndntlv_forwarder E r (Some from) data datalen of None \<Rightarrow> None
                 | Some (rc, data', datalen', r') \<Rightarrow>
                     if rc < 0 then Some r' else rx_loop E from suite data' datalen' r'))))"
  by pat_completeness auto
termination
  by (relation "measure (\<lambda>(E, from, suite, data, datalen, r). unat datalen)")
    (auto dest!: forwarder_exhausts simp: unat_gt_0)

declare rx_loop.simps [simp del]

definition ccnl_core_RX :: "renv \<Rightarrow> ccnl_relay_s \<Rightarrow> int \<Rightarrow> bytes \<Rightarrow> u64 \<Rightarrow> sockunion option \<Rightarrow> ccnl_relay_s option" where
  "ccnl_core_RX E r ifndx data datalen sa =
    (let r = (if 0 \<le> ifndx \<and> nat ifndx < length (rl_ifs r)
              then upd_if (nat ifndx) (\<lambda>c. c\<lparr>if_rx_cnt := if_rx_cnt c + 1\<rparr>) r
              else if 0 \<le> ifndx then fault (BadInterface ifndx) r else r)
     in case ccnl_get_face_or_create E r ifndx sa of
          (None, r) \<Rightarrow> Some r
        | (Some from, r) \<Rightarrow> rx_loop E from (-1) data datalen r)"

end
