(* ===== verification/Ccn_Tables.thy ===== *)
theory Ccn_Tables
  imports Ccn_Forward
begin

section \<open>The tables of the relay stay consistent\<close>

text \<open>
  The invariant of the relay's tables, and that every operation keeps it: counters agree with the
  lists, no table points to a face that is gone, nothing waits in a queue between two events, the
  content store holds no name twice and the nonces none twice.
\<close>

subsection \<open>The invariant\<close>

definition face_ptrs :: "ccnl_relay_s \<Rightarrow> nat set" where
  "face_ptrs r = fc_ptr ` set (rl_faces r)"

definition net_ptrs :: "ccnl_relay_s \<Rightarrow> nat set" where
  "net_ptrs r = fc_ptr ` {f \<in> set (rl_faces r). 0 \<le> fc_ifndx f}"

definition faces_ok :: "ccnl_relay_s \<Rightarrow> bool" where
  "faces_ok r \<longleftrightarrow> distinct (map fc_ptr (rl_faces r)) \<and>
     (\<forall>f\<in>set (rl_faces r). fc_ptr f < rl_allocs r \<and> fc_ifndx f < int (length (rl_ifs r)) \<and> fc_outq f = [])"

definition ifs_ok :: "ccnl_relay_s \<Rightarrow> bool" where
  "ifs_ok r \<longleftrightarrow> rl_ifcount r \<le> length (rl_ifs r) \<and>
     (\<forall>c\<in>set (rl_ifs r). if_qlen c = 0 \<and> if_qfront c < CCNL_MAX_IF_QLEN \<and> length (if_queue c) = CCNL_MAX_IF_QLEN)"

definition interest_ok :: "nat set \<Rightarrow> nat \<Rightarrow> ccnl_interest_s \<Rightarrow> bool" where
  "interest_ok fs n i \<longleftrightarrow> in_ptr i < n \<and> pk_pfx (in_pkt i) \<noteq> None \<and> (\<forall>p. in_from i = Some p \<longrightarrow> p \<in> fs)
     \<and> pi_face ` set (in_pending i) \<subseteq> fs \<and> distinct (map pi_face (in_pending i))"

definition pit_ok :: "ccnl_relay_s \<Rightarrow> bool" where
  "pit_ok r \<longleftrightarrow> distinct (map in_ptr (rl_pit r)) \<and> rl_pitcnt r = int (length (rl_pit r)) \<and>
     (\<forall>i\<in>set (rl_pit r). interest_ok (face_ptrs r) (rl_allocs r) i) \<and>
     (0 \<le> rl_max_pit_entries r \<longrightarrow> rl_pitcnt r \<le> rl_max_pit_entries r)"

definition contents_ok :: "ccnl_relay_s \<Rightarrow> bool" where
  "contents_ok r \<longleftrightarrow> distinct (map ct_ptr (rl_contents r)) \<and> rl_contentcnt r = int (length (rl_contents r)) \<and>
     (\<forall>c\<in>set (rl_contents r). ct_ptr c < rl_allocs r) \<and>
     (\<forall>c\<in>set (rl_contents r). \<forall>d\<in>set (rl_contents r). ct_ptr c \<noteq> ct_ptr d \<longrightarrow> \<not> same_name (ct_pkt c) (ct_pkt d)) \<and>
     (0 < rl_max_cache_entries r \<longrightarrow> rl_contentcnt r \<le> rl_max_cache_entries r + 1)"

definition fib_ok :: "ccnl_relay_s \<Rightarrow> bool" where
  "fib_ok r \<longleftrightarrow> (\<forall>fwd\<in>set (rl_fib r). fw_prefix fwd \<noteq> None \<and> (\<forall>p. fw_face fwd = Some p \<longrightarrow> p \<in> net_ptrs r))"

definition nonces_ok :: "ccnl_relay_s \<Rightarrow> bool" where
  "nonces_ok r \<longleftrightarrow> distinct (rl_nonces r) \<and> length (rl_nonces r) \<le> CCNL_MAX_NONCES"

text \<open>
  Nothing was used after it was freed, no null pointer was followed and no interface was used that
  does not exist. Two faults leave the tables as they are and the relay running: a malformed datagram
  was read past its end, and a content that was not stored is kept allocated.
\<close>

fun benign :: "relay_fault \<Rightarrow> bool" where
  "benign (FreedAccess p) = False"
| "benign FreedEntry = False"
| "benign NullAccess = False"
| "benign (BadInterface n) = False"
| "benign BadRead = True"
| "benign (LostContent p) = True"

definition relay_ok :: "ccnl_relay_s \<Rightarrow> bool" where
  "relay_ok r \<longleftrightarrow> faces_ok r \<and> ifs_ok r \<and> pit_ok r \<and> contents_ok r \<and> fib_ok r \<and> nonces_ok r \<and> list_all benign (rl_faults r)"

lemmas relay_parts = faces_ok_def ifs_ok_def pit_ok_def contents_ok_def fib_ok_def nonces_ok_def face_ptrs_def net_ptrs_def

lemma relay_okI [intro]:
  "\<lbrakk>faces_ok r; ifs_ok r; pit_ok r; contents_ok r; fib_ok r; nonces_ok r; list_all benign (rl_faults r)\<rbrakk> \<Longrightarrow> relay_ok r"
  by (simp add: relay_ok_def)

lemma relay_okD:
  assumes "relay_ok r"
  shows "faces_ok r" "ifs_ok r" "pit_ok r" "contents_ok r" "fib_ok r" "nonces_ok r" "list_all benign (rl_faults r)"
  using assms by (simp_all add: relay_ok_def)

text \<open>
  \<open>grows r r'\<close>: from one state to the next no face went away or changed its interface, and the
  addresses in use grew. This is what the code relies on when it goes on with pointers it holds.
\<close>

definition grows :: "ccnl_relay_s \<Rightarrow> ccnl_relay_s \<Rightarrow> bool" where
  "grows r r' \<longleftrightarrow> face_ptrs r \<subseteq> face_ptrs r' \<and> net_ptrs r \<subseteq> net_ptrs r' \<and> rl_allocs r \<le> rl_allocs r'"

lemma grows_refl [simp]: "grows r r"
  by (simp add: grows_def)

lemma grows_trans: "\<lbrakk>grows r1 r2; grows r2 r3\<rbrakk> \<Longrightarrow> grows r1 r3"
  by (auto simp: grows_def)

lemma net_face_ptrs: "net_ptrs r \<subseteq> face_ptrs r"
  by (auto simp: net_ptrs_def face_ptrs_def)

lemma get_face_Some: "get_face p r = Some f \<Longrightarrow> f \<in> set (rl_faces r) \<and> fc_ptr f = p"
  by (auto simp: get_face_def find_Some_iff)

lemma get_face_None: "get_face p r = None \<longleftrightarrow> p \<notin> face_ptrs r"
  by (auto simp: get_face_def find_None_iff face_ptrs_def)

lemma get_faceE:
  assumes "p \<in> face_ptrs r"
  obtains f where "get_face p r = Some f" "f \<in> set (rl_faces r)" "fc_ptr f = p"
  using assms get_face_None [of p r] get_face_Some [of p r] by (cases "get_face p r") auto

lemma net_face_index:
  "\<lbrakk>faces_ok r; p \<in> net_ptrs r; get_face p r = Some f\<rbrakk> \<Longrightarrow> 0 \<le> fc_ifndx f"
  by (auto simp: faces_ok_def net_ptrs_def distinct_map inj_on_def dest!: get_face_Some)

subsection \<open>Sending\<close>

text \<open>Between two events all queues are empty, so a packet sent goes out at once.\<close>

definition transmit :: "nat \<Rightarrow> nat \<Rightarrow> sockunion \<Rightarrow> bytes \<Rightarrow> ccnl_relay_s \<Rightarrow> ccnl_relay_s" where
  "transmit p n dst buf r =
    (upd_if n (\<lambda>c. c\<lparr>if_queue := (if_queue c)[if_qfront c := \<lparr>tx_buf = buf, tx_dst = dst, tx_face = p\<rparr>],
                     if_qfront := (if_qfront c + 1) mod CCNL_MAX_IF_QLEN, if_tx_cnt := if_tx_cnt c + 1\<rparr>) r)
      \<lparr>rl_sent := rl_sent r @ [(n, dst, buf)]\<rparr>"

lemma interface_enqueue_eq:
  assumes "ifs_ok r" "n < length (rl_ifs r)"
  shows "ccnl_interface_enqueue r p n buf dst = transmit p n dst buf r"
proof -
  obtain c where c: "rl_ifs r ! n = c" "if_qlen c = 0" "if_qfront c < CCNL_MAX_IF_QLEN" "length (if_queue c) = CCNL_MAX_IF_QLEN"
    using assms by (auto simp: ifs_ok_def)
  with assms(2) show ?thesis
    by (simp add: ccnl_interface_enqueue_def ccnl_interface_CTS_def transmit_def upd_if_def Let_def)
      (cases c; simp add: CCNL_MAX_IF_QLEN_def)
qed

lemma upd_face_twice:
  assumes "\<forall>f\<in>set (rl_faces r). fc_outq f = []"
  shows "upd_face p (\<lambda>f. f\<lparr>fc_outq := []\<rparr>) (upd_face p (\<lambda>f. f\<lparr>fc_outq := fc_outq f @ [b]\<rparr>) r) = r"
proof -
  have "map (\<lambda>f. if fc_ptr f = p then f\<lparr>fc_outq := []\<rparr> else f)
      (map (\<lambda>f. if fc_ptr f = p then f\<lparr>fc_outq := fc_outq f @ [b]\<rparr> else f) (rl_faces r)) = rl_faces r"
    using assms by (auto intro!: map_idI)
  then show ?thesis by (simp add: upd_face_def)
qed

lemma get_face_upd:
  assumes "\<And>f. fc_ptr (g f) = fc_ptr f"
  shows "get_face p (upd_face p g r) = map_option g (get_face p r)"
proof -
  have "find (\<lambda>f. fc_ptr f = p) (map (\<lambda>f. if fc_ptr f = p then g f else f) fs) = map_option g (find (\<lambda>f. fc_ptr f = p) fs)" for fs
    using assms by (induction fs) auto
  then show ?thesis by (simp add: get_face_def upd_face_def)
qed

lemma face_enqueue_eq:
  assumes "faces_ok r" "ifs_ok r" "get_face p r = Some f" "0 \<le> fc_ifndx f"
  shows "ccnl_face_enqueue r p (Some buf) = (0, transmit p (nat (fc_ifndx f)) (fc_peer f) buf r)"
proof -
  have q: "\<forall>f\<in>set (rl_faces r). fc_outq f = []" and n: "nat (fc_ifndx f) < length (rl_ifs r)" and f: "fc_outq f = []" "fc_ptr f = p"
    using assms get_face_Some [OF assms(3)] by (auto simp: faces_ok_def)
  let ?r = "upd_face p (\<lambda>f. f\<lparr>fc_outq := fc_outq f @ [buf]\<rparr>) r"
  have g: "get_face p ?r = Some (f\<lparr>fc_outq := [buf]\<rparr>)"
    using assms(3) f by (subst get_face_upd) auto
  then show ?thesis
    using assms n f upd_face_twice [OF q, of p buf]
    by (simp add: ccnl_face_enqueue_def ccnl_face_CTS_def ccnl_face_dequeue_def interface_enqueue_eq)
qed

lemma send_pkt_eq:
  assumes "faces_ok r" "ifs_ok r" "get_face p r = Some f" "0 \<le> fc_ifndx f"
  shows "snd (ccnl_send_pkt E r p pkt) =
    (if re_alloc E (rl_allocs r) then transmit p (nat (fc_ifndx f)) (fc_peer f) (pk_buf pkt) r else r)
      \<lparr>rl_allocs := Suc (rl_allocs r)\<rparr>"
proof -
  let ?r = "r\<lparr>rl_allocs := Suc (rl_allocs r)\<rparr>"
  have ok: "faces_ok ?r" "ifs_ok ?r" and g: "get_face p ?r = Some f"
    using assms by (auto simp: faces_ok_def ifs_ok_def get_face_def)
  show ?thesis
    using face_enqueue_eq [OF ok g assms(4), of "pk_buf pkt"]
    by (auto simp: ccnl_send_pkt_def ccnl_calloc_def ccnl_face_enqueue_def transmit_def upd_if_def)
qed


text \<open>What a part of the code that only sends leaves as it is.\<close>

definition sends :: "ccnl_relay_s \<Rightarrow> ccnl_relay_s \<Rightarrow> bool" where
  "sends r r' \<longleftrightarrow> (\<exists>ifs allocs sent. r' = r\<lparr>rl_ifs := ifs, rl_allocs := allocs, rl_sent := rl_sent r @ sent\<rparr>
     \<and> length ifs = length (rl_ifs r) \<and> rl_allocs r \<le> allocs \<and> (ifs_ok r \<longrightarrow> ifs_ok r'))"

lemma sends_refl [simp]: "sends r r"
  unfolding sends_def
  by (rule exI [of _ "rl_ifs r"], rule exI [of _ "rl_allocs r"], rule exI [of _ "[]"]) simp

lemma sends_trans: "\<lbrakk>sends r1 r2; sends r2 r3\<rbrakk> \<Longrightarrow> sends r1 r3"
  unfolding sends_def by fastforce

lemma sends_fields:
  assumes "sends r r'"
  shows "rl_faces r' = rl_faces r" "rl_fib r' = rl_fib r" "rl_pit r' = rl_pit r" "rl_contents r' = rl_contents r"
    "rl_nonces r' = rl_nonces r" "rl_pitcnt r' = rl_pitcnt r" "rl_contentcnt r' = rl_contentcnt r"
    "rl_max_cache_entries r' = rl_max_cache_entries r" "rl_max_pit_entries r' = rl_max_pit_entries r"
    "rl_faults r' = rl_faults r" "get_face p r' = get_face p r"
  using assms by (auto simp: sends_def get_face_def)

lemma interest_ok_mono: "\<lbrakk>interest_ok fs n i; fs \<subseteq> fs'; n \<le> n'\<rbrakk> \<Longrightarrow> interest_ok fs' n' i"
  by (auto simp: interest_ok_def)

lemma sends_ok: "\<lbrakk>sends r r'; relay_ok r\<rbrakk> \<Longrightarrow> relay_ok r'"
  unfolding sends_def relay_ok_def
  by (elim exE conjE, intro conjI) (auto simp: relay_parts intro: interest_ok_mono)

lemma sends_grows: "sends r r' \<Longrightarrow> grows r r'"
  by (auto simp: sends_def grows_def face_ptrs_def net_ptrs_def)

lemma sends_allocs: "rl_allocs r \<le> n \<Longrightarrow> sends r (r\<lparr>rl_allocs := n\<rparr>)"
  unfolding sends_def
  by (rule exI [of _ "rl_ifs r"], rule exI [of _ n], rule exI [of _ "[]"]) (simp add: ifs_ok_def)

lemma sends_transmit:
  assumes "n < length (rl_ifs r)"
  shows "sends r (transmit p n dst buf r)"
proof -
  have "ifs_ok (transmit p n dst buf r)" if "ifs_ok r"
    using assms that by (auto simp: ifs_ok_def transmit_def upd_if_def CCNL_MAX_IF_QLEN_def dest!: set_update_subset_insert [THEN subsetD])
  then show ?thesis
    unfolding sends_def
    by (intro exI [of _ "rl_ifs (transmit p n dst buf r)"] exI [of _ "rl_allocs r"] exI [of _ "[(n, dst, buf)]"])
      (auto simp: transmit_def upd_if_def)
qed

lemma sends_send_pkt:
  assumes "relay_ok r" "p \<in> net_ptrs r"
  shows "sends r (snd (ccnl_send_pkt E r p pkt))"
proof -
  have ok: "faces_ok r" "ifs_ok r" using assms relay_okD by blast+
  obtain f where f: "get_face p r = Some f" "f \<in> set (rl_faces r)"
    using assms(2) net_face_ptrs by (blast elim: get_faceE)
  have i: "0 \<le> fc_ifndx f" using net_face_index [OF ok(1) assms(2) f(1)] .
  have n: "nat (fc_ifndx f) < length (rl_ifs r)" using ok f i by (auto simp: faces_ok_def)
  show ?thesis
    unfolding send_pkt_eq [OF ok f(1) i]
    using sends_transmit [OF n] sends_allocs [of r "Suc (rl_allocs r)"]
      sends_trans [OF sends_transmit [OF n] sends_allocs [of "transmit p (nat (fc_ifndx f)) (fc_peer f) (pk_buf pkt) r" "Suc (rl_allocs r)"]]
    by (auto simp: transmit_def upd_if_def)
qed

subsection \<open>Allocation and faces\<close>

lemma calloc_sends: "ccnl_calloc E r = (x, r') \<Longrightarrow> sends r r'"
  by (auto simp: ccnl_calloc_def sends_allocs)

lemma callocD: "ccnl_calloc E r = (Some p, r') \<Longrightarrow> p = rl_allocs r \<and> r' = r\<lparr>rl_allocs := Suc (rl_allocs r)\<rparr>"
  by (auto simp: ccnl_calloc_def split: if_splits)

text \<open>A change of a face that keeps its address, its interface and its empty queue.\<close>

lemma upd_faces_ok:
  assumes "relay_ok r" "\<And>f. fc_ptr (g f) = fc_ptr f" "\<And>f. fc_ifndx (g f) = fc_ifndx f" "\<And>f. fc_outq (g f) = fc_outq f"
  shows "relay_ok (r\<lparr>rl_faces := map g (rl_faces r)\<rparr>)" "grows r (r\<lparr>rl_faces := map g (rl_faces r)\<rparr>)"
proof -
  have p: "map fc_ptr (map g (rl_faces r)) = map fc_ptr (rl_faces r)" using assms(2) by simp
  have s: "face_ptrs (r\<lparr>rl_faces := map g (rl_faces r)\<rparr>) = face_ptrs r" "net_ptrs (r\<lparr>rl_faces := map g (rl_faces r)\<rparr>) = net_ptrs r"
    using assms(2,3) by (force simp: face_ptrs_def net_ptrs_def image_iff)+
  show "grows r (r\<lparr>rl_faces := map g (rl_faces r)\<rparr>)" by (simp add: grows_def s)
  have "faces_ok (r\<lparr>rl_faces := map g (rl_faces r)\<rparr>)"
    using relay_okD(1) [OF assms(1)] p assms(2-4) by (auto simp: faces_ok_def simp del: map_map)
  then show "relay_ok (r\<lparr>rl_faces := map g (rl_faces r)\<rparr>)"
    using assms(1) s by (auto simp: relay_ok_def pit_ok_def fib_ok_def ifs_ok_def contents_ok_def nonces_ok_def)
qed

lemma upd_face_ok:
  assumes "relay_ok r" "\<And>f. fc_ptr (g f) = fc_ptr f" "\<And>f. fc_ifndx (g f) = fc_ifndx f" "\<And>f. fc_outq (g f) = fc_outq f"
  shows "relay_ok (upd_face p g r)" "grows r (upd_face p g r)"
  using upd_faces_ok [OF assms(1), of "\<lambda>f. if fc_ptr f = p then g f else f"] assms(2-4)
  by (simp_all add: upd_face_def)

lemma new_face_ok:
  assumes "relay_ok r" "ifndx < int (length (rl_ifs r))" "new_face E r ifndx sa = (x, r')"
  shows "relay_ok r'" "grows r r'" "\<And>p. x = Some p \<Longrightarrow> p \<in> face_ptrs r'"
proof -
  consider (no) "x = None" "sends r r'"
    | (new) f where "x = Some (rl_allocs r)" "fc_ptr f = rl_allocs r" "fc_ifndx f < int (length (rl_ifs r))" "fc_outq f = []"
       "r' = r\<lparr>rl_allocs := Suc (rl_allocs r), rl_seqno := rl_seqno r + 1, rl_faces := f # rl_faces r\<rparr>"
  proof (cases "ccnl_calloc E r")
    case (Pair y r1)
    then show ?thesis
    proof (cases y)
      case None
      with Pair assms(3) show ?thesis by (intro no) (auto simp: new_face_def dest: calloc_sends)
    next
      case (Some q)
      with Pair have "q = rl_allocs r" "r1 = r\<lparr>rl_allocs := Suc (rl_allocs r)\<rparr>" by (auto dest: callocD)
      moreover have "\<not> (0 \<le> ifndx \<and> length (rl_ifs r) \<le> nat ifndx)" using assms(2) by linarith
      ultimately show ?thesis
        using Pair Some assms(2,3) by (intro new [of "hd (rl_faces r')"]) (auto simp: new_face_def Let_def)
    qed
  qed
  then have "relay_ok r' \<and> grows r r' \<and> (\<forall>p. x = Some p \<longrightarrow> p \<in> face_ptrs r')"
  proof cases
    case no
    with assms(1) show ?thesis by (auto intro: sends_ok sends_grows)
  next
    case new
    have ptrs: "face_ptrs r' = insert (rl_allocs r) (face_ptrs r)" "net_ptrs r \<subseteq> net_ptrs r'"
      using new by (auto simp: face_ptrs_def net_ptrs_def)
    have "faces_ok r'" using relay_okD(1) [OF assms(1)] new by (force simp: faces_ok_def)
    moreover have "pit_ok r'"
      using relay_okD(3) [OF assms(1)] ptrs new by (auto simp: pit_ok_def intro: interest_ok_mono)
    moreover have "fib_ok r'" using relay_okD(5) [OF assms(1)] ptrs new by (auto simp: fib_ok_def)
    ultimately have "relay_ok r'"
      using assms(1) new by (auto simp: relay_ok_def ifs_ok_def contents_ok_def nonces_ok_def)
    moreover have "grows r r'" using ptrs new by (auto simp: grows_def)
    ultimately show ?thesis using ptrs new by simp
  qed
  then show "relay_ok r'" "grows r r'" "\<And>p. x = Some p \<Longrightarrow> p \<in> face_ptrs r'" by blast+
qed

lemma find_face_Some: "find_face ifndx sa fs = Some f \<Longrightarrow> f \<in> set fs"
  by (induction ifndx sa fs rule: find_face.induct) (auto split: if_splits)

lemma find_if_less: "find_if fam n is < int (n + length is)"
proof (induction "is" arbitrary: n)
  case (Cons a "is")
  from Cons.IH [of "Suc n"] show ?case by simp
qed simp

lemma get_face_or_create_ok:
  assumes "relay_ok r" "ifndx < int (length (rl_ifs r))" "ccnl_get_face_or_create E r ifndx sa = (x, r')"
  shows "relay_ok r' \<and> grows r r' \<and> (\<forall>p. x = Some p \<longrightarrow> p \<in> face_ptrs r')"
proof (cases "find_face ifndx sa (rl_faces r)")
  case (Some f)
  let ?r = "upd_face (fc_ptr f) (\<lambda>f. f\<lparr>fc_last_used := re_now E\<rparr>) r"
  have f: "fc_ptr f \<in> face_ptrs r" using find_face_Some [OF Some] by (simp add: face_ptrs_def)
  have u: "relay_ok ?r" "grows r ?r" using assms(1) by (auto intro!: upd_face_ok)
  have "x = Some (fc_ptr f)" "r' = r \<or> r' = ?r"
    using Some assms(3) by (auto simp: ccnl_get_face_or_create_def split: if_splits)
  with f u assms(1) show ?thesis by (auto simp: grows_def)
next
  case None
  define k where "k = (case sa of Some a \<Rightarrow>
      (if ifndx = -1 then find_if (sa_family a) 0 (take (rl_ifcount r) (rl_ifs r)) else ifndx) | None \<Rightarrow> ifndx)"
  have "find_if fam 0 (take (rl_ifcount r) (rl_ifs r)) < int (length (rl_ifs r))" for fam
    using find_if_less [of fam 0 "take (rl_ifcount r) (rl_ifs r)"] by simp
  with assms(2) have k: "k < int (length (rl_ifs r))" by (auto simp: k_def split: option.splits)
  from None assms(3) have "x = None \<and> r' = r \<or> new_face E r k sa = (x, r')"
    by (auto simp: ccnl_get_face_or_create_def k_def [symmetric] Let_def split: if_splits)
  then show ?thesis using assms(1) new_face_ok [OF assms(1) k] by auto
qed


subsection \<open>Pending interests\<close>

lemma length_filter_key:
  assumes "distinct (map k xs)" "p \<in> k ` set xs"
  shows "Suc (length (filter (\<lambda>x. k x \<noteq> p) xs)) = length xs"
  using assms
proof (induction xs)
  case (Cons x xs)
  show ?case
  proof (cases "k x = p")
    case True
    with Cons.prems have "filter (\<lambda>x. k x \<noteq> p) xs = xs" by (simp add: filter_id_conv) (metis imageI)
    with True show ?thesis by simp
  qed (use Cons in auto)
qed simp

lemma image_key_map: "(\<And>x. k (g x) = k x) \<Longrightarrow> k ` set (map (\<lambda>x. if k x = p then g x else x) xs) = k ` set xs"
  by (induction xs) auto

lemma distinct_filter_key: "distinct (map k xs) \<Longrightarrow> distinct (map k (filter P xs))"
  by (induction xs) auto

text \<open>Replacing the pending interests by others that are consistent.\<close>

lemma set_pit_ok:
  assumes "relay_ok r" "distinct (map in_ptr pit)" "\<And>i. i \<in> set pit \<Longrightarrow> interest_ok (face_ptrs r) (rl_allocs r) i"
    "0 \<le> rl_max_pit_entries r \<Longrightarrow> int (length pit) \<le> rl_max_pit_entries r"
  shows "relay_ok (r\<lparr>rl_pit := pit, rl_pitcnt := int (length pit)\<rparr>)"
  using assms by (auto simp: relay_ok_def relay_parts)

lemma pit_count: "relay_ok r \<Longrightarrow> rl_pitcnt r = int (length (rl_pit r))"
  by (simp add: relay_ok_def pit_ok_def)

lemma interest_okD: "\<lbrakk>relay_ok r; i \<in> set (rl_pit r)\<rbrakk> \<Longrightarrow> interest_ok (face_ptrs r) (rl_allocs r) i"
  by (simp add: relay_ok_def pit_ok_def)

lemma interest_remove_ok:
  assumes "relay_ok r" "p \<in> in_ptr ` set (rl_pit r)"
  shows "relay_ok (ccnl_interest_remove r p)" "grows r (ccnl_interest_remove r p)"
    "rl_pit (ccnl_interest_remove r p) = filter (\<lambda>i. in_ptr i \<noteq> p) (rl_pit r)"
    "rl_contents (ccnl_interest_remove r p) = rl_contents r"
proof -
  let ?pit = "filter (\<lambda>i. in_ptr i \<noteq> p) (rl_pit r)"
  have d: "distinct (map in_ptr (rl_pit r))" using assms(1) by (simp add: relay_ok_def pit_ok_def)
  have len: "Suc (length ?pit) = length (rl_pit r)" using length_filter_key [OF d assms(2)] .
  have eq: "ccnl_interest_remove r p = r\<lparr>rl_pit := ?pit, rl_pitcnt := int (length ?pit)\<rparr>"
    using assms len pit_count [OF assms(1)] by (auto simp: ccnl_interest_remove_def)
  show "relay_ok (ccnl_interest_remove r p)"
    unfolding eq using assms(1) d len
    by (intro set_pit_ok) (auto intro: distinct_filter_key interest_okD simp: relay_ok_def pit_ok_def)
  show "grows r (ccnl_interest_remove r p)" by (simp add: eq grows_def face_ptrs_def net_ptrs_def)
  show "rl_pit (ccnl_interest_remove r p) = ?pit" "rl_contents (ccnl_interest_remove r p) = rl_contents r"
    by (simp_all add: eq)
qed

lemma upd_interest_ok:
  assumes "relay_ok r" "\<And>i. in_ptr (g i) = in_ptr i"
    "\<And>i. interest_ok (face_ptrs r) (rl_allocs r) i \<Longrightarrow> interest_ok (face_ptrs r) (rl_allocs r) (g i)"
  shows "relay_ok (upd_interest p g r)" "grows r (upd_interest p g r)"
    "in_ptr ` set (rl_pit (upd_interest p g r)) = in_ptr ` set (rl_pit r)"
proof -
  let ?pit = "map (\<lambda>i. if in_ptr i = p then g i else i) (rl_pit r)"
  have ptrs: "map in_ptr ?pit = map in_ptr (rl_pit r)" using assms(2) by simp
  have eq: "upd_interest p g r = r\<lparr>rl_pit := ?pit, rl_pitcnt := int (length ?pit)\<rparr>"
    using pit_count [OF assms(1)] by (simp add: upd_interest_def)
  show "relay_ok (upd_interest p g r)"
    unfolding eq using assms(1,3) ptrs
    by (intro set_pit_ok) (auto simp: relay_ok_def pit_ok_def simp del: map_map)
  show "grows r (upd_interest p g r)" by (simp add: eq grows_def face_ptrs_def net_ptrs_def)
  show "in_ptr ` set (rl_pit (upd_interest p g r)) = in_ptr ` set (rl_pit r)"
    using image_key_map [of in_ptr g p "rl_pit r"] assms(2) by (simp add: upd_interest_def del: set_map)
qed

lemma interest_new_ok:
  assumes "relay_ok r" "ccnl_interest_new E r from pkt = (x, r')" "pk_pfx pkt \<noteq> None" "\<And>p. from = Some p \<Longrightarrow> p \<in> face_ptrs r"
  shows "relay_ok r' \<and> grows r r' \<and> (\<forall>p. x = Some p \<longrightarrow> p \<in> in_ptr ` set (rl_pit r')) \<and> rl_fib r' = rl_fib r"
proof -
  obtain y r1 where c: "ccnl_calloc E r = (y, r1)" by fastforce
  note ok1 = sends_ok [OF calloc_sends [OF c] assms(1)] and g1 = sends_grows [OF calloc_sends [OF c]]
    and fib1 = sends_fields(2) [OF calloc_sends [OF c]]
  show ?thesis
  proof (cases "y = None \<or> rl_max_pit_entries r1 \<noteq> -1 \<and> rl_max_pit_entries r1 \<le> rl_pitcnt r1")
    case True
    with c assms(2) ok1 g1 fib1 show ?thesis by (auto simp: ccnl_interest_new_def split: option.splits)
  next
    case False
    then obtain p where y: "y = Some p" by auto
    define i where "i = \<lparr>in_ptr = p, in_pkt = pkt, in_from = from, in_pending = [],
        in_lifetime = ucast (ccnl_pkt_interest_lifetime pkt), in_last_used = re_now E, in_retries = 0\<rparr>"
    have r1: "p = rl_allocs r" "r1 = r\<lparr>rl_allocs := Suc (rl_allocs r)\<rparr>" using c y by (auto dest: callocD)
    have r': "x = Some p" "r' = r1\<lparr>rl_pit := i # rl_pit r1, rl_pitcnt := int (length (i # rl_pit r1))\<rparr>"
      using c y False assms(2) pit_count [OF ok1] by (auto simp: ccnl_interest_new_def i_def)
    have "relay_ok r'" unfolding r'(2)
    proof (rule set_pit_ok [OF ok1])
      show "distinct (map in_ptr (i # rl_pit r1))"
        using relay_okD(3) [OF assms(1)] r1 by (force simp: pit_ok_def interest_ok_def i_def)
      show "interest_ok (face_ptrs r1) (rl_allocs r1) j" if "j \<in> set (i # rl_pit r1)" for j
        using that interest_okD [OF ok1] assms(3,4) r1 by (auto simp: i_def interest_ok_def face_ptrs_def)
      show "int (length (i # rl_pit r1)) \<le> rl_max_pit_entries r1" if "0 \<le> rl_max_pit_entries r1"
        using that False y pit_count [OF ok1] by auto
    qed
    moreover have "grows r r'" using g1 unfolding r'(2) by (simp add: grows_def face_ptrs_def net_ptrs_def)
    ultimately show ?thesis using r' fib1 by (simp add: i_def)
  qed
qed

lemma append_pending_ok:
  assumes "relay_ok r" "p \<in> in_ptr ` set (rl_pit r)" "\<And>f. from = Some f \<Longrightarrow> f \<in> face_ptrs r"
  shows "relay_ok (snd (ccnl_interest_append_pending E r p from)) \<and> grows r (snd (ccnl_interest_append_pending E r p from))
    \<and> in_ptr ` set (rl_pit (snd (ccnl_interest_append_pending E r p from))) = in_ptr ` set (rl_pit r)"
proof (cases "from")
  case None
  with assms(1) show ?thesis by (simp add: ccnl_interest_append_pending_def)
next
  case (Some f)
  obtain i where i: "find (\<lambda>i. in_ptr i = p) (rl_pit r) = Some i"
    using assms(2) by (cases "find (\<lambda>i. in_ptr i = p) (rl_pit r)") (auto simp: find_None_iff)
  then have ii: "i \<in> set (rl_pit r)" "in_ptr i = p" by (auto simp: find_Some_iff)
  let ?g = "\<lambda>i. i\<lparr>in_pending := map (\<lambda>pi. if pi_face pi = f then pi\<lparr>pi_last_used := re_now E\<rparr> else pi) (in_pending i)\<rparr>"
  let ?h = "\<lambda>i. i\<lparr>in_pending := in_pending i @ [\<lparr>pi_face = f, pi_last_used = re_now E\<rparr>]\<rparr>"
  have same: "map pi_face (map (\<lambda>pi. if pi_face pi = f then pi\<lparr>pi_last_used := re_now E\<rparr> else pi) ps) = map pi_face ps" for ps
    by simp
  show ?thesis
  proof (cases "\<exists>pi\<in>set (in_pending i). pi_face pi = f")
    case True
    have "interest_ok (face_ptrs r) (rl_allocs r) (?g j)" if "interest_ok (face_ptrs r) (rl_allocs r) j" for j
      using that same [of "in_pending j"] by (auto simp: interest_ok_def simp del: map_map)
    with True Some i upd_interest_ok [OF assms(1), of ?g p] show ?thesis
      by (simp add: ccnl_interest_append_pending_def)
  next
    case False
    obtain y r1 where c: "ccnl_calloc E r = (y, r1)" by fastforce
    note s1 = calloc_sends [OF c]
    note ok1 = sends_ok [OF s1 assms(1)] and g1 = sends_grows [OF s1] and pit1 = sends_fields(3) [OF s1]
    show ?thesis
    proof (cases y)
      case None
      with Some False i c ok1 g1 pit1 show ?thesis by (simp add: ccnl_interest_append_pending_def)
    next
      case (Some q)
      let ?pit = "map (\<lambda>i. if in_ptr i = p then ?h i else i) (rl_pit r1)"
      have eq: "snd (ccnl_interest_append_pending E r p from) = r1\<lparr>rl_pit := ?pit, rl_pitcnt := int (length ?pit)\<rparr>"
        using Some \<open>from = Some f\<close> False i c pit_count [OF ok1] by (simp add: ccnl_interest_append_pending_def upd_interest_def)
      have d: "distinct (map in_ptr (rl_pit r1))" using ok1 by (simp add: relay_ok_def pit_ok_def)
      have uniq: "j = i" if "j \<in> set (rl_pit r1)" "in_ptr j = p" for j
        using d that ii pit1 by (auto simp: distinct_map inj_on_def)
      have f: "f \<in> face_ptrs r1" using assms(3) \<open>from = Some f\<close> g1 by (auto simp: grows_def)
      have ptrs: "map in_ptr ?pit = map in_ptr (rl_pit r1)" by simp
      have "relay_ok (r1\<lparr>rl_pit := ?pit, rl_pitcnt := int (length ?pit)\<rparr>)"
      proof (rule set_pit_ok [OF ok1])
        show "distinct (map in_ptr ?pit)" unfolding ptrs by (rule d)
        show "interest_ok (face_ptrs r1) (rl_allocs r1) j" if "j \<in> set ?pit" for j
          using that interest_okD [OF ok1] f False uniq by (fastforce simp: interest_ok_def)
        show "int (length ?pit) \<le> rl_max_pit_entries r1" if "0 \<le> rl_max_pit_entries r1"
          using that ok1 by (simp add: relay_ok_def pit_ok_def)
      qed
      moreover have "grows r (r1\<lparr>rl_pit := ?pit, rl_pitcnt := int (length ?pit)\<rparr>)"
        using g1 by (simp add: grows_def face_ptrs_def net_ptrs_def)
      moreover have "in_ptr ` set ?pit = in_ptr ` set (rl_pit r)"
        using image_key_map [of in_ptr ?h p "rl_pit r1"] pit1 by (simp del: set_map)
      ultimately show ?thesis unfolding eq by simp
    qed
  qed
qed

end
