(* ===== verification/Ccn_Invariant.thy ===== *)
theory Ccn_Invariant
  imports Ccn_Tables
begin

section \<open>Every event keeps the tables consistent\<close>

text \<open>
  The remaining operations keep the invariant of \<open>Ccn_Tables\<close>: removing a face, the content store,
  serving, nonces, the forwarding table, ageing, the handlers and the reception of a datagram. What the
  code relies on of the functions an application installs is the locale \<open>relay_functions\<close>; it is
  interpreted for the relay program, which installs none. The events of the relay then form a step
  relation whose reachable states are consistent.
\<close>

subsection \<open>Removing a face\<close>

definition drop_face :: "nat \<Rightarrow> ccnl_interest_s \<Rightarrow> ccnl_interest_s" where
  "drop_face p i = i\<lparr>in_from := (if in_from i = Some p then None else in_from i),
                     in_pending := filter (\<lambda>pi. pi_face pi \<noteq> p) (in_pending i)\<rparr>"

lemma clean_pit_eq:
  "clean_pit p is = (let kept = filter (\<lambda>i. in_pending i \<noteq> []) (map (drop_face p) is) in (kept, int (length is) - int (length kept)))"
  by (induction "is") (auto simp: Let_def drop_face_def split: prod.splits)

lemma drop_face_simps [simp]:
  "in_ptr (drop_face p i) = in_ptr i" "in_pkt (drop_face p i) = in_pkt i" "in_retries (drop_face p i) = in_retries i"
  by (simp_all add: drop_face_def)

lemma drop_face_ok: "interest_ok fs n i \<Longrightarrow> interest_ok (fs - {p}) n (drop_face p i)"
  by (auto simp: interest_ok_def drop_face_def distinct_filter_key)

lemma face_remove_eq:
  assumes "relay_ok r" "p \<in> face_ptrs r"
  defines "pit \<equiv> filter (\<lambda>i. in_pending i \<noteq> []) (map (drop_face p) (rl_pit r))"
  shows "ccnl_face_remove r p =
    r\<lparr>rl_pit := pit, rl_pitcnt := int (length pit), rl_fib := filter (\<lambda>fwd. fw_face fwd \<noteq> Some p) (rl_fib r),
      rl_faces := filter (\<lambda>f. fc_ptr f \<noteq> p) (rl_faces r)\<rparr>"
  using assms(2) get_face_None [of p r] pit_count [OF assms(1)]
  by (auto simp: ccnl_face_remove_def clean_pit_eq Let_def pit_def)

lemma face_remove_ok:
  assumes "relay_ok r" "p \<in> face_ptrs r"
  shows "relay_ok (ccnl_face_remove r p)" "face_ptrs (ccnl_face_remove r p) = face_ptrs r - {p}"
proof -
  let ?r = "ccnl_face_remove r p"
  define pit where "pit = filter (\<lambda>i. in_pending i \<noteq> []) (map (drop_face p) (rl_pit r))"
  note eq = face_remove_eq [OF assms, folded pit_def]
  show ptrs: "face_ptrs ?r = face_ptrs r - {p}" by (auto simp: eq face_ptrs_def)
  have net: "net_ptrs ?r = net_ptrs r - {p}" by (auto simp: eq net_ptrs_def)
  have "map in_ptr (map (drop_face p) (rl_pit r)) = map in_ptr (rl_pit r)" by simp
  then have d: "distinct (map in_ptr pit)"
    using relay_okD(3) [OF assms(1)] unfolding pit_def by (intro distinct_filter_key) (simp only: pit_ok_def)
  have "interest_ok (face_ptrs ?r) (rl_allocs ?r) i" if "i \<in> set pit" for i
    using that drop_face_ok [OF interest_okD [OF assms(1)], of _ p] unfolding ptrs by (auto simp: eq pit_def)
  moreover have "int (length pit) \<le> int (length (rl_pit r))"
    using length_filter_le [of _ "map (drop_face p) (rl_pit r)"] by (simp add: pit_def)
  ultimately have pit: "pit_ok ?r"
    using d relay_okD(3) [OF assms(1)] unfolding pit_ok_def by (auto simp: eq)
  have fib: "fib_ok ?r"
    using relay_okD(5) [OF assms(1)] unfolding fib_ok_def net by (auto simp: eq)
  have faces: "faces_ok ?r"
    using relay_okD(1) [OF assms(1)] by (auto simp: eq faces_ok_def distinct_filter_key)
  show "relay_ok ?r"
    using relay_okD(2,4,6,7) [OF assms(1)] pit fib faces
    by (intro relay_okI) (auto simp: eq ifs_ok_def contents_ok_def nonces_ok_def)
qed

subsection \<open>The content store\<close>

lemma cmp_loop_sym: "snd (cmp_loop i xs ys) = snd (cmp_loop i ys xs)"
  by (induction i xs ys rule: cmp_loop.induct) auto

lemma prefix_cmp_exact_iff:
  "ccnl_prefix_cmp p None q CMP_EXACT = 0 \<longleftrightarrow>
     px_compcnt p = px_compcnt q \<and> px_chunknum p = px_chunknum q \<and> \<not> snd (cmp_loop 0 (comps p) (comps q))"
  by (auto simp: ccnl_prefix_cmp_def Let_def split: prod.splits bool.splits)

lemma same_name_sym: "same_name p q \<longleftrightarrow> same_name q p"
  unfolding same_name_def prefix_cmp_exact_iff using cmp_loop_sym by fastforce

text \<open>Replacing the contents by some of them, possibly with other flags and counters.\<close>

lemma set_contents_ok:
  assumes "relay_ok r" "distinct (map ct_ptr cs)" "\<And>c. c \<in> set cs \<Longrightarrow> \<exists>d\<in>set (rl_contents r). ct_ptr d = ct_ptr c \<and> ct_pkt d = ct_pkt c"
    "length cs \<le> length (rl_contents r)"
  shows "relay_ok (r\<lparr>rl_contents := cs, rl_contentcnt := int (length cs)\<rparr>)"
proof -
  have "contents_ok (r\<lparr>rl_contents := cs, rl_contentcnt := int (length cs)\<rparr>)"
  proof -
    have ok: "contents_ok r" using relay_okD(4) [OF assms(1)] .
    have "ct_ptr c < rl_allocs r" if "c \<in> set cs" for c using assms(3) [OF that] ok by (auto simp: contents_ok_def)
    moreover have "\<not> same_name (ct_pkt c) (ct_pkt d)" if "c \<in> set cs" "d \<in> set cs" "ct_ptr c \<noteq> ct_ptr d" for c d
      using assms(3) [OF that(1)] assms(3) [OF that(2)] that(3) ok unfolding contents_ok_def by metis
    ultimately show ?thesis using ok assms(2,4) by (auto simp: contents_ok_def)
  qed
  then show ?thesis
    using assms(1) by (auto simp: relay_ok_def faces_ok_def ifs_ok_def pit_ok_def fib_ok_def nonces_ok_def face_ptrs_def net_ptrs_def)
qed

lemma content_count: "relay_ok r \<Longrightarrow> rl_contentcnt r = int (length (rl_contents r))"
  by (simp add: relay_ok_def contents_ok_def)

lemma content_remove_ok:
  assumes "relay_ok r" "p \<in> ct_ptr ` set (rl_contents r)"
  defines "cs \<equiv> filter (\<lambda>c. ct_ptr c \<noteq> p) (rl_contents r)"
  shows "relay_ok (ccnl_content_remove r p)"
    and "ccnl_content_remove r p = r\<lparr>rl_contents := cs, rl_contentcnt := int (length cs)\<rparr>"
    and "grows r (ccnl_content_remove r p)"
    and "Suc (length cs) = length (rl_contents r)"
proof -
  have d: "distinct (map ct_ptr (rl_contents r))" using assms(1) by (simp add: relay_ok_def contents_ok_def)
  show len: "Suc (length cs) = length (rl_contents r)" using length_filter_key [OF d assms(2)] by (simp add: cs_def)
  show eq: "ccnl_content_remove r p = r\<lparr>rl_contents := cs, rl_contentcnt := int (length cs)\<rparr>"
    using assms(2) len content_count [OF assms(1)] by (auto simp: ccnl_content_remove_def cs_def)
  show "relay_ok (ccnl_content_remove r p)"
    unfolding eq using assms(1) d len by (intro set_contents_ok) (auto simp: cs_def distinct_filter_key)
  show "grows r (ccnl_content_remove r p)" by (simp add: eq grows_def face_ptrs_def net_ptrs_def)
qed

lemma find_oldest_in: "find_oldest cs age oldest = Some p \<Longrightarrow> oldest = Some p \<or> p \<in> ct_ptr ` set cs"
  by (induction cs age oldest rule: find_oldest.induct) (auto split: if_splits)


subsection \<open>Functions an application installs\<close>

text \<open>
  What the relay relies on when it calls an installed function: the tables stay consistent and
  no face goes away; a cache strategy adds nothing to the store; a tap only sends. A management
  request is the last thing a handler does.
\<close>

definition keeps :: "ccnl_relay_s \<Rightarrow> ccnl_relay_s \<Rightarrow> bool" where
  "keeps r r' \<longleftrightarrow> relay_ok r' \<and> grows r r'"

definition shrinks :: "ccnl_relay_s \<Rightarrow> ccnl_relay_s \<Rightarrow> bool" where
  "shrinks r r' \<longleftrightarrow> keeps r r' \<and> set (rl_contents r') \<subseteq> set (rl_contents r)"

lemma keepsD: "keeps r r' \<Longrightarrow> relay_ok r'" "keeps r r' \<Longrightarrow> grows r r'"
  by (simp_all add: keeps_def)

lemma keeps_refl: "relay_ok r \<Longrightarrow> keeps r r"
  by (simp add: keeps_def)

lemma keeps_trans: "\<lbrakk>keeps r1 r2; keeps r2 r3\<rbrakk> \<Longrightarrow> keeps r1 r3"
  by (auto simp: keeps_def intro: grows_trans)

lemma sends_keeps: "\<lbrakk>sends r r'; relay_ok r\<rbrakk> \<Longrightarrow> keeps r r'"
  by (simp add: keeps_def sends_ok sends_grows)

lemma shrinks_refl: "relay_ok r \<Longrightarrow> shrinks r r"
  by (simp add: shrinks_def keeps_refl)

locale relay_functions =
  fixes E :: renv
  assumes rx_on_data: "\<lbrakk>re_rx_on_data E = Some f; relay_ok r\<rbrakk> \<Longrightarrow> keeps r (fst (f r from pkt))"
    and local_producer: "\<lbrakk>re_local_producer E = Some f; relay_ok r\<rbrakk> \<Longrightarrow> keeps r (fst (f r from pkt))"
    and cs_remove: "\<lbrakk>re_cs_remove E = Some g; relay_ok r\<rbrakk> \<Longrightarrow> shrinks r (fst (g r c))"
    and cs_decision: "\<lbrakk>re_cs_decision E = Some g; relay_ok r\<rbrakk> \<Longrightarrow> shrinks r (fst (g r c))"
    and tap: "relay_ok r \<Longrightarrow> sends r (re_tap E t r from pfx buf)"
    and mgmt: "\<lbrakk>re_mgmt E = Some h; relay_ok r\<rbrakk> \<Longrightarrow> relay_ok (h r buf pfx from)"
begin

lemma make_room_ok:
  assumes "relay_ok r"
  shows "shrinks r (make_room E r c)"
proof -
  obtain rc r1 where st: "cache_strategy_remove E r c = (rc, r1)" by fastforce
  have s1: "shrinks r r1"
    using st assms cs_remove [of _ r c] by (cases "re_cs_remove E") (auto simp: cache_strategy_remove_def shrinks_refl split: prod.splits)
  show ?thesis
  proof (cases "find_oldest (rl_contents r1) 0 None")
    case None
    with st s1 assms show ?thesis by (auto simp: make_room_def shrinks_refl)
  next
    case (Some p)
    then have p: "p \<in> ct_ptr ` set (rl_contents r1)" by (auto dest: find_oldest_in)
    have "relay_ok r1" using s1 by (simp add: shrinks_def keeps_def)
    note rem = content_remove_ok [OF this p]
    have "shrinks r (ccnl_content_remove r1 p)"
      using s1 rem(1,3) unfolding shrinks_def keeps_def
      by (auto simp: rem(2) intro: grows_trans)
    with st s1 Some assms show ?thesis by (auto simp: make_room_def shrinks_refl)
  qed
qed

lemma add2cache_ok:
  assumes "relay_ok r" "ct_ptr c < rl_allocs r" "ct_ptr c \<notin> ct_ptr ` set (rl_contents r)"
  shows "keeps r (snd (ccnl_content_add2cache E r c))"
proof (cases "\<exists>cit\<in>set (rl_contents r). same_name (ct_pkt c) (ct_pkt cit)")
  case True
  with assms(1) show ?thesis by (simp add: ccnl_content_add2cache_def keeps_refl)
next
  case False
  define r1 where "r1 = make_room E r c"
  have s: "shrinks r r1" using make_room_ok [OF assms(1)] by (simp add: r1_def)
  then have ok: "relay_ok r1" and g: "grows r r1" and sub: "set (rl_contents r1) \<subseteq> set (rl_contents r)"
    by (auto simp: shrinks_def keeps_def)
  show ?thesis
  proof (cases "rl_max_cache_entries r1 \<le> 0 \<or> rl_contentcnt r1 \<le> rl_max_cache_entries r1")
    case True
    let ?r = "r1\<lparr>rl_contents := c # rl_contents r1, rl_contentcnt := rl_contentcnt r1 + 1\<rparr>"
    have "\<not> same_name (ct_pkt c) (ct_pkt d) \<and> \<not> same_name (ct_pkt d) (ct_pkt c)" if "d \<in> set (rl_contents r1)" for d
      using that False sub same_name_sym by blast
    moreover have "ct_ptr c \<notin> ct_ptr ` set (rl_contents r1)" "ct_ptr c < rl_allocs r1"
      using assms(2,3) sub g by (auto simp: grows_def)
    ultimately have "contents_ok ?r"
      using relay_okD(4) [OF ok] True by (auto simp: contents_ok_def)
    then have "relay_ok ?r"
      using ok by (auto simp: relay_ok_def faces_ok_def ifs_ok_def pit_ok_def fib_ok_def nonces_ok_def face_ptrs_def net_ptrs_def)
    moreover have "grows r ?r" using g by (simp add: grows_def face_ptrs_def net_ptrs_def)
    ultimately show ?thesis
      using False True by (auto simp: ccnl_content_add2cache_def keeps_def r1_def Let_def)
  next
    case False2: False
    with False ok g show ?thesis by (auto simp: ccnl_content_add2cache_def keeps_def r1_def Let_def)
  qed
qed

end


subsection \<open>Serving\<close>

text \<open>
  What serving a content leaves alone: the pending interests but those it removes, and the store.
\<close>

lemma served_flag_keeps:
  assumes "relay_ok r"
  shows "keeps r (upd_face p (\<lambda>f. f\<lparr>fc_flags := h f\<rparr>) r)"
  using upd_face_ok [OF assms, of "\<lambda>f. f\<lparr>fc_flags := h f\<rparr>"] by (simp add: keeps_def)

lemma serve_faces_keeps:
  assumes "relay_ok r" "pi_face ` set ps \<subseteq> face_ptrs r" "serve_faces E c cnt ps r = (c', cnt', r')"
  shows "keeps r r' \<and> rl_pit r' = rl_pit r \<and> rl_contents r' = rl_contents r \<and> ct_ptr c' = ct_ptr c \<and> ct_pkt c' = ct_pkt c \<and> cnt \<le> cnt'"
  using assms
proof (induction E c cnt ps r arbitrary: c' cnt' r' rule: serve_faces.induct)
  case (1 E c cnt r)
  then show ?case by (auto simp: keeps_refl)
next
  case (2 E c cnt pi ps r)
  obtain f where f: "get_face (pi_face pi) r = Some f" "f \<in> set (rl_faces r)" "fc_ptr f = pi_face pi"
    using "2.prems"(2) by (auto elim: get_faceE)
  show ?case
  proof (cases "fc_flags f AND CCNL_FACE_FLAGS_SERVED \<noteq> 0")
    case True
    with f "2.prems" show ?thesis by (intro "2.IH"(2) [OF f(1)]) auto
  next
    case False
    define r1 where "r1 = upd_face (pi_face pi) (\<lambda>f. f\<lparr>fc_flags := fc_flags f OR CCNL_FACE_FLAGS_SERVED\<rparr>) r"
    define r2 where "r2 = (if 0 \<le> fc_ifndx f then snd (ccnl_send_pkt E r1 (pi_face pi) (ct_pkt c)) else r1)"
    have k1: "keeps r r1" unfolding r1_def using served_flag_keeps [OF "2.prems"(1)] .
    have "pi_face pi \<in> net_ptrs r1" if "0 \<le> fc_ifndx f"
    proof -
      have "pi_face pi \<in> net_ptrs r" using f that by (force simp: net_ptrs_def)
      then show ?thesis using keepsD(2) [OF k1] by (auto simp: grows_def)
    qed
    then have s: "sends r1 r2" using sends_send_pkt keepsD(1) [OF k1] by (auto simp: r2_def)
    then have k2: "keeps r r2" using sends_keeps k1 keeps_trans keepsD(1) by blast
    have pit: "rl_pit r2 = rl_pit r" "rl_contents r2 = rl_contents r"
      using sends_fields [OF s] by (simp_all add: r1_def upd_face_def)
    have eq: "serve_faces E (c\<lparr>ct_served_cnt := ct_served_cnt c + 1\<rparr>) (Suc cnt) ps r2 = (c', cnt', r')"
      using "2.prems"(3) f False by (auto simp: r1_def r2_def Let_def)
    have sub: "pi_face ` set ps \<subseteq> face_ptrs r2" using "2.prems"(2) keepsD(2) [OF k2] by (auto simp: grows_def)
    from "2.IH"(3) [OF f(1) False r1_def r2_def keepsD(1) [OF k2] sub eq] show ?thesis
      using k2 pit by (auto intro: keeps_trans)
  qed
qed

lemma serve_loop_keeps:
  assumes "relay_ok r" "distinct (map in_ptr is)" "set is \<subseteq> set (rl_pit r)"
  shows "\<exists>c' cnt' r'. serve_loop E c cnt is r = Some (c', cnt', r') \<and> keeps r r' \<and> rl_contents r' = rl_contents r
    \<and> ct_ptr c' = ct_ptr c \<and> ct_pkt c' = ct_pkt c \<and> cnt \<le> cnt'"
  using assms
proof (induction "is" arbitrary: c cnt r)
  case Nil
  then show ?case by (simp add: keeps_refl)
next
  case (Cons i "is")
  have i: "interest_ok (face_ptrs r) (rl_allocs r) i" using Cons.prems by (auto intro: interest_okD)
  show ?case
  proof (cases "answers E (ct_pkt c) (in_pkt i)")
    case False
    with i Cons show ?thesis by (auto simp: interest_ok_def)
  next
    case True
    obtain c1 cnt1 r1 where sv: "serve_faces E c cnt (in_pending i) r = (c1, cnt1, r1)" by (metis prod_cases3)
    have "pi_face ` set (in_pending i) \<subseteq> face_ptrs r" using i by (simp add: interest_ok_def)
    note k1 = serve_faces_keeps [OF Cons.prems(1) this sv]
    define c2 cnt2 where "c2 = (if in_pending i = [] then c\<lparr>ct_flags := ct_flags c OR CCNL_CONTENT_FLAGS_STATIC,
        ct_served_cnt := ct_served_cnt c + 1\<rparr> else c1)" and "cnt2 = (if in_pending i = [] then Suc cnt else cnt1)"
    have r1: "r1 = r" if "in_pending i = []" using sv that by simp
    have step: "serve_loop E c cnt (i # is) r = serve_loop E c2 cnt2 is (ccnl_interest_remove r1 (in_ptr i))"
      using i True sv r1 by (auto simp: interest_ok_def c2_def cnt2_def)
    have ok1: "relay_ok r1" and pit1: "rl_pit r1 = rl_pit r" using k1 by (auto simp: keeps_def)
    have "in_ptr i \<in> in_ptr ` set (rl_pit r1)" using Cons.prems(3) pit1 by auto
    note rem = interest_remove_ok [OF ok1 this]
    have "set is \<subseteq> set (rl_pit (ccnl_interest_remove r1 (in_ptr i)))"
      using Cons.prems(2,3) rem(3) pit1 by (force simp: image_iff)
    with Cons.IH [OF rem(1), of c2 cnt2] Cons.prems(2) obtain c' cnt' r' where
      IH: "serve_loop E c2 cnt2 is (ccnl_interest_remove r1 (in_ptr i)) = Some (c', cnt', r')"
        "keeps (ccnl_interest_remove r1 (in_ptr i)) r'" "rl_contents r' = rl_contents r1"
        "ct_ptr c' = ct_ptr c2" "ct_pkt c' = ct_pkt c2" "cnt2 \<le> cnt'"
      using rem(4) by auto
    have "keeps r (ccnl_interest_remove r1 (in_ptr i))" using k1 rem(1,2) by (auto simp: keeps_def intro: grows_trans)
    then have "keeps r r'" using IH(2) keeps_trans by blast
    moreover have "ct_ptr c2 = ct_ptr c" "ct_pkt c2 = ct_pkt c" "cnt \<le> cnt2" using k1 by (auto simp: c2_def cnt2_def)
    ultimately show ?thesis using IH k1 step by auto
  qed
qed

lemma serve_pending_keeps:
  assumes "relay_ok r"
  shows "\<exists>c' cnt r'. ccnl_content_serve_pending E r c = Some (c', cnt, r') \<and> keeps r r' \<and> rl_contents r' = rl_contents r
    \<and> ct_ptr c' = ct_ptr c \<and> ct_pkt c' = ct_pkt c"
proof -
  let ?g = "\<lambda>f. f\<lparr>fc_flags := fc_flags f AND NOT CCNL_FACE_FLAGS_SERVED\<rparr>"
  let ?r = "r\<lparr>rl_faces := map ?g (rl_faces r)\<rparr>"
  have k: "keeps r ?r" using upd_faces_ok [OF assms, of ?g] by (simp add: keeps_def)
  have "distinct (map in_ptr (rl_pit ?r))" using relay_okD(3) [OF assms] by (simp add: pit_ok_def)
  from serve_loop_keeps [OF keepsD(1) [OF k] this order_refl, of E c 0] k show ?thesis
    by (auto simp: ccnl_content_serve_pending_def intro: keeps_trans)
qed

subsection \<open>Nonces and the forwarding table\<close>

lemma nonce_isDup_keeps:
  assumes "relay_ok r" "ccnl_nonce_isDup E r pkt = (dup, r')"
  shows "keeps r r'"
proof -
  have *: "keeps r (snd (ccnl_nonce_find_or_append E r n))" for n
  proof -
    obtain y r1 where c: "ccnl_calloc E r = (y, r1)" by fastforce
    have k1: "keeps r r1" using sends_keeps [OF calloc_sends [OF c] assms(1)] .
    let ?ns = "n # (if CCNL_MAX_NONCES \<le> length (rl_nonces r) \<and> 2 \<le> length (rl_nonces r) then butlast (rl_nonces r) else rl_nonces r)"
    have "keeps r (r1\<lparr>rl_nonces := ?ns\<rparr>)" if "n \<notin> set (rl_nonces r)"
    proof -
      have "nonces_ok (r1\<lparr>rl_nonces := ?ns\<rparr>)"
        using that relay_okD(6) [OF assms(1)]
        by (auto simp: nonces_ok_def CCNL_MAX_NONCES_def distinct_butlast dest: in_set_butlastD)
      then show ?thesis
        using k1 by (auto simp: keeps_def grows_def relay_ok_def faces_ok_def ifs_ok_def pit_ok_def contents_ok_def fib_ok_def
            face_ptrs_def net_ptrs_def)
    qed
    then show ?thesis using assms(1) k1 c
      by (auto simp: ccnl_nonce_find_or_append_def keeps_refl Let_def split: option.splits)
  qed
  show ?thesis
    using assms * by (auto simp: ccnl_nonce_isDup_def keeps_refl split: if_splits option.splits prod.splits)
      (metis snd_conv)+
qed

lemma fib_put_in:
  "\<lbrakk>fib_put g pfx fs = Some fs'; fwd \<in> set fs'\<rbrakk> \<Longrightarrow> fwd \<in> set fs \<or> (\<exists>old\<in>set fs. fwd = g (old\<lparr>fw_prefix := Some pfx\<rparr>))"
  by (induction fs arbitrary: fs') (auto split: if_splits)

lemma set_fib_ok:
  assumes "relay_ok r" "\<And>fwd. fwd \<in> set fib \<Longrightarrow> fw_prefix fwd \<noteq> None \<and> (\<forall>p. fw_face fwd = Some p \<longrightarrow> p \<in> net_ptrs r)"
  shows "keeps r (r\<lparr>rl_fib := fib\<rparr>)"
  using assms by (auto simp: keeps_def grows_def relay_ok_def faces_ok_def ifs_ok_def pit_ok_def contents_ok_def fib_ok_def nonces_ok_def
            face_ptrs_def net_ptrs_def)

lemma fib_add_entry_ok:
  assumes "relay_ok r" "p \<in> net_ptrs r"
  shows "keeps r (snd (ccnl_fib_add_entry E r pfx p))"
proof (cases "fib_put (\<lambda>fwd. fwd\<lparr>fw_face := Some p\<rparr>) pfx (rl_fib r)")
  case (Some fib)
  have "keeps r (r\<lparr>rl_fib := fib\<rparr>)"
    using relay_okD(5) [OF assms(1)] assms(2)
    by (intro set_fib_ok [OF assms(1)]) (auto simp: fib_ok_def dest!: fib_put_in [OF Some])
  with Some show ?thesis by (simp add: ccnl_fib_add_entry_def fib_set_def)
next
  case None
  obtain y r1 where c: "ccnl_calloc E r = (y, r1)" by fastforce
  have s: "sends r r1" using calloc_sends [OF c] .
  have k1: "keeps r r1" using sends_keeps [OF s assms(1)] .
  have "keeps r1 (r1\<lparr>rl_fib := rl_fib r1 @ [\<lparr>fw_prefix = Some pfx, fw_tap = None, fw_face = Some p, fw_suite = px_suite pfx\<rparr>]\<rparr>)"
    using relay_okD(5) [OF keepsD(1) [OF k1]] assms(2) keepsD(2) [OF k1]
    by (intro set_fib_ok [OF keepsD(1) [OF k1]]) (auto simp: fib_ok_def grows_def)
  with None c k1 show ?thesis
    by (auto simp: ccnl_fib_add_entry_def fib_set_def split: option.splits intro: keeps_trans)
qed

lemma fib_del_sub: "fib_del P fs = Some fs' \<Longrightarrow> set fs' \<subseteq> set fs"
  by (induction fs arbitrary: fs') (auto split: if_splits)

lemma benign_fault_keeps: "\<lbrakk>relay_ok r; benign e\<rbrakk> \<Longrightarrow> keeps r (fault e r)"
  by (auto simp: fault_def keeps_def grows_def relay_ok_def relay_parts)

text \<open>
  Removing a route leaves consistent tables, but when an entry was removed the function reads it once
  more after it was freed (ccnl-relay.c:914). No code of the repository calls this function.
\<close>

lemma fib_rem_entry_ok:
  assumes "relay_ok r"
  shows "ccnl_fib_rem_entry r pfx face = (-1, r)
    \<or> (\<exists>fib. keeps r (r\<lparr>rl_fib := fib\<rparr>) \<and> ccnl_fib_rem_entry r pfx face = (0, fault FreedEntry (r\<lparr>rl_fib := fib\<rparr>)))"
proof (cases "fib_del (fib_selected pfx face) (rl_fib r)")
  case (Some fib)
  have "keeps r (r\<lparr>rl_fib := fib\<rparr>)"
    using relay_okD(5) [OF assms] fib_del_sub [OF Some] by (intro set_fib_ok [OF assms]) (auto simp: fib_ok_def)
  with Some show ?thesis by (auto simp: ccnl_fib_rem_entry_def)
qed (simp add: ccnl_fib_rem_entry_def)

text \<open>A relay that followed a null pointer: its tables were consistent when it crashed.\<close>

definition crashed :: "ccnl_relay_s \<Rightarrow> bool" where
  "crashed r \<longleftrightarrow> rl_faults r \<noteq> [] \<and> last (rl_faults r) = NullAccess \<and> relay_ok (r\<lparr>rl_faults := butlast (rl_faults r)\<rparr>)"

lemma fault_crashed: "relay_ok r \<Longrightarrow> crashed (fault NullAccess r)"
  by (simp add: crashed_def fault_def)

lemma crashed_not_ok: "crashed r \<Longrightarrow> \<not> relay_ok r"
  by (cases "rl_faults r" rule: rev_cases) (auto simp: crashed_def relay_ok_def)


text \<open>The bytes are a packet without a name.\<close>

definition nameless_pkt :: "renv \<Rightarrow> bytes \<Rightarrow> u64 \<Rightarrow> bool" where
  "nameless_pkt E data datalen =
    (case ccnl_ndntlv_dehead data datalen of
       Parsed (Some (typ, len), data', datalen') \<Rightarrow>
         (case ccnl_ndntlv_bytes2pkt (re_mem E) typ data data' datalen' of
            Parsed (pkt, _, _) \<Rightarrow> pk_pfx pkt = None | _ \<Rightarrow> False)
     | _ \<Rightarrow> False)"

subsection \<open>Propagation, ageing and the handlers\<close>

lemma find_interest:
  assumes "p \<in> in_ptr ` set (rl_pit r)"
  obtains i where "find (\<lambda>i. in_ptr i = p) (rl_pit r) = Some i" "i \<in> set (rl_pit r)" "in_ptr i = p"
  using assms by (cases "find (\<lambda>i. in_ptr i = p) (rl_pit r)") (auto simp: find_None_iff find_Some_iff)

lemma subset_minus: "\<lbrakk>x \<notin> A; A \<subseteq> B\<rbrakk> \<Longrightarrow> A \<subseteq> B - {x}"
  by blast

lemma age_contents_keeps:
  assumes "relay_ok r" "distinct (map ct_ptr cs)" "set cs \<subseteq> set (rl_contents r)"
  shows "keeps r (age_contents E cs r) \<and> rl_pit (age_contents E cs r) = rl_pit r \<and> rl_faces (age_contents E cs r) = rl_faces r"
  using assms
proof (induction cs arbitrary: r)
  case (Cons c cs)
  have p: "ct_ptr c \<in> ct_ptr ` set (rl_contents r)" using Cons.prems(3) by auto
  have d: "distinct (map ct_ptr (rl_contents r))" using relay_okD(4) [OF Cons.prems(1)] by (simp add: contents_ok_def)
  have sep: "ct_ptr x \<noteq> ct_ptr c" if "x \<in> set cs" for x using Cons.prems(2) imageI [OF that, of ct_ptr] by auto
  show ?case
  proof (cases "ct_last_used c + CCNL_CONTENT_TIMEOUT \<le> re_now E \<and> \<not> is_static c")
    case True
    note rem = content_remove_ok [OF Cons.prems(1) p]
    have "set cs \<subseteq> set (rl_contents (ccnl_content_remove r (ct_ptr c)))"
      using Cons.prems(3) sep by (auto simp: rem(2))
    then have IH: "keeps (ccnl_content_remove r (ct_ptr c)) (age_contents E cs (ccnl_content_remove r (ct_ptr c)))"
        "rl_pit (age_contents E cs (ccnl_content_remove r (ct_ptr c))) = rl_pit r"
        "rl_faces (age_contents E cs (ccnl_content_remove r (ct_ptr c))) = rl_faces r"
      using Cons.IH [OF rem(1)] Cons.prems(2) rem(2) by simp_all
    have "keeps r (ccnl_content_remove r (ct_ptr c))" using rem(1,3) by (simp add: keeps_def)
    from keeps_trans [OF this IH(1)] True IH(2,3) show ?thesis by simp
  next
    case False
    let ?cs = "map (\<lambda>d. if ct_ptr d = ct_ptr c then age_content E c else d) (rl_contents r)"
    have k: "ct_ptr (age_content E c) = ct_ptr c" "ct_pkt (age_content E c) = ct_pkt c" by (simp_all add: age_content_def)
    have eq: "r\<lparr>rl_contents := ?cs\<rparr> = r\<lparr>rl_contents := ?cs, rl_contentcnt := int (length ?cs)\<rparr>"
      using content_count [OF Cons.prems(1)] by simp
    have m: "map ct_ptr ?cs = map ct_ptr (rl_contents r)" using k by simp
    have ok: "relay_ok (r\<lparr>rl_contents := ?cs, rl_contentcnt := int (length ?cs)\<rparr>)"
    proof (rule set_contents_ok [OF Cons.prems(1)])
      show "distinct (map ct_ptr ?cs)" unfolding m by (rule d)
      show "\<exists>d\<in>set (rl_contents r). ct_ptr d = ct_ptr x \<and> ct_pkt d = ct_pkt x" if "x \<in> set ?cs" for x
        using that k Cons.prems(3) by (auto split: if_splits)
    qed simp
    note ok = ok [folded eq]
    have "x \<in> set ?cs" if "x \<in> set cs" for x
      using Cons.prems(3) that sep [OF that]
        imageI [of x "set (rl_contents r)" "\<lambda>d. if ct_ptr d = ct_ptr c then age_content E c else d"] by auto
    then have "set cs \<subseteq> set (rl_contents (r\<lparr>rl_contents := ?cs\<rparr>))" by auto
    then have IH: "keeps (r\<lparr>rl_contents := ?cs\<rparr>) (age_contents E cs (r\<lparr>rl_contents := ?cs\<rparr>))"
        "rl_pit (age_contents E cs (r\<lparr>rl_contents := ?cs\<rparr>)) = rl_pit r"
        "rl_faces (age_contents E cs (r\<lparr>rl_contents := ?cs\<rparr>)) = rl_faces r"
      using Cons.IH [OF ok] Cons.prems(2) by simp_all
    have "keeps r (r\<lparr>rl_contents := ?cs\<rparr>)" using ok by (simp add: keeps_def grows_def face_ptrs_def net_ptrs_def)
    from keeps_trans [OF this IH(1)] False IH(2,3) show ?thesis by auto
  qed
qed (simp add: keeps_refl)

lemma age_faces_ok:
  "\<lbrakk>relay_ok r; distinct (map fc_ptr fs); fc_ptr ` set fs \<subseteq> face_ptrs r\<rbrakk> \<Longrightarrow> relay_ok (age_faces E fs r)"
proof (induction fs arbitrary: r)
  case (Cons f fs)
  have f: "fc_ptr f \<in> face_ptrs r" using Cons.prems(3) by simp
  have "fc_ptr ` set fs \<subseteq> face_ptrs r - {fc_ptr f}" using Cons.prems(2,3) by (intro subset_minus) simp_all
  with Cons face_remove_ok [OF Cons.prems(1) f] show ?case by simp
qed simp

context relay_functions
begin

lemma propagate_loop_sends:
  assumes "relay_ok r" "\<And>fwd p. \<lbrakk>fwd \<in> set fs; fw_face fwd = Some p\<rbrakk> \<Longrightarrow> p \<in> net_ptrs r"
  shows "sends r (propagate_loop E i fs r)"
  using assms
proof (induction fs arbitrary: r)
  case (Cons fwd fs)
  show ?case
  proof (cases "fib_covers fwd (in_pkt i) \<and> may_send r fwd (in_from i)")
    case False
    with Cons show ?thesis by auto
  next
    case True
    define r1 where "r1 = (case fw_tap fwd of None \<Rightarrow> r | Some t \<Rightarrow> re_tap E t r (in_from i) (name_of (in_pkt i)) (pk_buf (in_pkt i)))"
    define r2 where "r2 = (case fw_face fwd of None \<Rightarrow> r1 | Some f \<Rightarrow> snd (ccnl_send_pkt E r1 f (in_pkt i)))"
    have s1: "sends r r1" using tap [OF Cons.prems(1)] by (auto simp: r1_def split: option.splits)
    have ok1: "relay_ok r1" using sends_ok [OF s1 Cons.prems(1)] .
    have n1: "net_ptrs r1 = net_ptrs r" using sends_fields(1) [OF s1] by (simp add: net_ptrs_def)
    have "sends r1 r2"
      using Cons.prems(2) [of fwd] n1 sends_send_pkt [OF ok1] by (cases "fw_face fwd") (simp_all add: r2_def)
    then have s2: "sends r r2" using s1 sends_trans by blast
    have ok2: "relay_ok r2" using sends_ok [OF s2 Cons.prems(1)] .
    have "net_ptrs r2 = net_ptrs r" using sends_fields(1) [OF s2] by (simp add: net_ptrs_def)
    then have "sends r2 (propagate_loop E i fs r2)" using Cons.prems(2) by (intro Cons.IH [OF ok2]) auto
    from sends_trans [OF s2 this] True show ?thesis unfolding r2_def r1_def by (simp add: Let_def)
  qed
qed simp

lemma propagate_sends: "relay_ok r \<Longrightarrow> sends r (ccnl_interest_propagate E r i)"
  unfolding ccnl_interest_propagate_def
  by (rule propagate_loop_sends) (auto simp: relay_ok_def fib_ok_def)

lemma age_interests_keeps:
  assumes "relay_ok r" "distinct (map in_ptr is)" "in_ptr ` set is \<subseteq> in_ptr ` set (rl_pit r)"
  shows "keeps r (age_interests E is r)"
  using assms
proof (induction "is" arbitrary: r)
  case (Cons i "is")
  have p: "in_ptr i \<in> in_ptr ` set (rl_pit r)" using Cons.prems(3) by simp
  show ?case
  proof (cases "in_last_used i + in_lifetime i \<le> re_now E \<or> CCNL_MAX_INTEREST_RETRANSMIT \<le> in_retries i")
    case True
    note rem = interest_remove_ok [OF Cons.prems(1) p]
    have "in_ptr ` set is \<subseteq> in_ptr ` set (rl_pit (ccnl_interest_remove r (in_ptr i)))"
    proof
      fix q assume q: "q \<in> in_ptr ` set is"
      then have "q \<in> in_ptr ` set (rl_pit r) - {in_ptr i}"
        using Cons.prems(2,3) subset_minus [of "in_ptr i" "in_ptr ` set is" "in_ptr ` set (rl_pit r)"] by auto
      then show "q \<in> in_ptr ` set (rl_pit (ccnl_interest_remove r (in_ptr i)))" unfolding rem(3) by auto
    qed
    then have IH: "keeps (ccnl_interest_remove r (in_ptr i)) (age_interests E is (ccnl_interest_remove r (in_ptr i)))"
      using Cons.IH [OF rem(1)] Cons.prems(2) by simp
    have "keeps r (ccnl_interest_remove r (in_ptr i))" using rem(1,2) by (simp add: keeps_def)
    from keeps_trans [OF this IH] True show ?thesis by simp
  next
    case False
    define r1 where "r1 = ccnl_interest_propagate E r i"
    let ?g = "\<lambda>i. i\<lparr>in_retries := in_retries i + 1\<rparr>"
    have s: "sends r r1" using propagate_sends [OF Cons.prems(1)] by (simp add: r1_def)
    have ok1: "relay_ok r1" using sends_ok [OF s Cons.prems(1)] .
    have "interest_ok F n (?g j)" if "interest_ok F n j" for F n j using that by (simp add: interest_ok_def)
    note u = upd_interest_ok [OF ok1, of ?g, OF _ this]
    have k: "keeps r (upd_interest (in_ptr i) ?g r1)"
      using u(1,2) sends_grows [OF s] by (auto simp: keeps_def intro: grows_trans)
    have "in_ptr ` set is \<subseteq> in_ptr ` set (rl_pit (upd_interest (in_ptr i) ?g r1))"
      using Cons.prems(3) u(3) sends_fields(3) [OF s] by simp
    then have "keeps (upd_interest (in_ptr i) ?g r1) (age_interests E is (upd_interest (in_ptr i) ?g r1))"
      using Cons.IH [OF keepsD(1) [OF k]] Cons.prems(2) by simp
    from keeps_trans [OF k this] False show ?thesis by (simp add: r1_def)
  qed
qed (simp add: keeps_refl)

lemma do_ageing_ok:
  assumes "relay_ok r"
  shows "relay_ok (ccnl_do_ageing E r)"
proof -
  let ?r1 = "age_contents E (rl_contents r) r" and ?r2 = "\<lambda>r1. age_interests E (rl_pit r) r1"
  have d: "distinct (map ct_ptr (rl_contents r))" "distinct (map in_ptr (rl_pit r))" "distinct (map fc_ptr (rl_faces r))"
    using relay_okD [OF assms] by (simp_all add: contents_ok_def pit_ok_def faces_ok_def)
  have 1: "keeps r ?r1" "rl_pit ?r1 = rl_pit r" using age_contents_keeps [OF assms d(1) order_refl, of E] by simp_all
  have 2: "keeps r (?r2 ?r1)"
    using age_interests_keeps [OF keepsD(1) [OF 1(1)] d(2)] 1 keeps_trans by auto
  have "fc_ptr ` set (rl_faces r) \<subseteq> face_ptrs (?r2 ?r1)"
    using keepsD(2) [OF 2] by (auto simp: grows_def face_ptrs_def)
  from age_faces_ok [OF keepsD(1) [OF 2] d(3) this] show ?thesis by (simp add: ccnl_do_ageing_def Let_def)
qed

lemma handleContent_keeps:
  assumes "relay_ok r"
  shows "\<exists>rc r'. ccnl_fwd_handleContent E r from pkt = Some (rc, r') \<and> (keeps r r' \<or> pk_pfx pkt = None \<and> rc < 0 \<and> crashed r')"
proof -
  obtain r1 rc1 where cb: "(case re_rx_on_data E of None \<Rightarrow> (r, 0) | Some f \<Rightarrow> f r from pkt) = (r1, rc1)" by fastforce
  have k1: "keeps r r1"
    using cb rx_on_data [OF _ assms, of _ "from" pkt] keeps_refl [OF assms] by (cases "re_rx_on_data E") fastforce+
  have ok1: "relay_ok r1" using k1 by (rule keepsD)
  consider (null) "rc1 = 0" "pk_pfx pkt = None \<and> (rl_contents r1 \<noteq> [] \<or> rl_pit r1 \<noteq> [])"
    | (stop) "rc1 \<noteq> 0 \<or> \<not> (pk_pfx pkt = None \<and> (rl_contents r1 \<noteq> [] \<or> rl_pit r1 \<noteq> [])) \<and> (\<exists>c\<in>set (rl_contents r1). same_name (ct_pkt c) pkt)"
    | (go) "rc1 = 0" "\<not> (pk_pfx pkt = None \<and> (rl_contents r1 \<noteq> [] \<or> rl_pit r1 \<noteq> []))" "\<not> (\<exists>c\<in>set (rl_contents r1). same_name (ct_pkt c) pkt)"
    by blast
  then show ?thesis
  proof cases
    case null
    with cb fault_crashed [OF ok1] show ?thesis by (simp add: ccnl_fwd_handleContent_def)
  next
    case stop
    with cb k1 show ?thesis by (auto simp: ccnl_fwd_handleContent_def)
  next
    case go
    obtain y r2 where a: "ccnl_calloc E r1 = (y, r2)" by fastforce
    have k2: "keeps r r2" using sends_keeps [OF calloc_sends [OF a] ok1] k1 keeps_trans by blast
    show ?thesis
    proof (cases y)
      case None
      with go cb a k2 show ?thesis by (auto simp: ccnl_fwd_handleContent_def ccnl_content_new_def)
    next
      case (Some p)
      define c where "c = \<lparr>ct_ptr = p, ct_pkt = pkt, ct_flags = 0, ct_last_used = re_now E, ct_served_cnt = 0\<rparr>"
      have p: "p = rl_allocs r1" "rl_contents r2 = rl_contents r1" "p < rl_allocs r2" using a Some by (auto dest: callocD)
      have fresh: "p \<notin> ct_ptr ` set (rl_contents r2)"
        using relay_okD(4) [OF ok1] p by (auto simp: contents_ok_def)
      obtain c' cnt r3 where sv: "ccnl_content_serve_pending E r2 c = Some (c', cnt, r3)" "keeps r2 r3"
          "rl_contents r3 = rl_contents r2" "ct_ptr c' = ct_ptr c"
        using serve_pending_keeps [OF keepsD(1) [OF k2]] by metis
      have k3: "keeps r r3" using k2 sv(2) keeps_trans by blast
      obtain rc4 r4 where st: "cache_strategy_cache E r3 c' = (rc4, r4)" by fastforce
      have s4: "shrinks r3 r4"
        using st cs_decision [of _ r3 c'] keepsD(1) [OF k3] by (cases "re_cs_decision E") (auto simp: cache_strategy_cache_def shrinks_refl split: prod.splits)
      then have k4: "keeps r3 r4" and sub: "set (rl_contents r4) \<subseteq> set (rl_contents r3)" by (auto simp: shrinks_def)
      have "ct_ptr c' < rl_allocs r4" "ct_ptr c' \<notin> ct_ptr ` set (rl_contents r4)"
        using p fresh sv sub keepsD(2) [OF sv(2)] keepsD(2) [OF k4] by (auto simp: c_def grows_def)
      note k5 = add2cache_ok [OF keepsD(1) [OF k4] this]
      define r5 where "r5 = snd (ccnl_content_add2cache E r4 c')"
      have k5: "keeps r r5" using k3 k4 k5 keeps_trans unfolding r5_def by blast
      have eq: "ccnl_fwd_handleContent E r from pkt =
        Some (0, if cnt = 0 \<or> rl_max_cache_entries r3 = 0 then r3 else if rc4 = 0 then r4
                 else if c' \<in> set (rl_contents r5) then r5 else fault (LostContent (ct_ptr c')) r5)"
        using go cb a Some sv(1) st
        by (auto simp: ccnl_fwd_handleContent_def ccnl_content_new_def c_def r5_def split: prod.splits)
      have "keeps r (fault (LostContent (ct_ptr c')) r5)"
        using benign_fault_keeps [OF keepsD(1) [OF k5], of "LostContent (ct_ptr c')"] k5 keeps_trans by auto
      then show ?thesis unfolding eq using k3 k5 keeps_trans [OF k3 k4] by auto
    qed
  qed
qed

lemma pit_step_keeps:
  assumes "relay_ok r" "pk_pfx pkt \<noteq> None" "\<And>p. from = Some p \<Longrightarrow> p \<in> face_ptrs r"
  shows "keeps r (snd (pit_step E r from pkt))"
proof -
  define known where "known = find (\<lambda>i. ccnl_interest_isSame i pkt \<noteq> 0) (rl_pit r)"
  obtain x r1 where n: "(case known of Some i \<Rightarrow> (Some (in_ptr i), r) | None \<Rightarrow> ccnl_interest_new E r from pkt) = (x, r1)" by fastforce
  have 1: "keeps r r1" "\<And>p. x = Some p \<Longrightarrow> p \<in> in_ptr ` set (rl_pit r1)"
  proof -
    have "keeps r r1 \<and> (\<forall>p. x = Some p \<longrightarrow> p \<in> in_ptr ` set (rl_pit r1))"
    proof (cases known)
      case None
      with n interest_new_ok [OF assms(1) _ assms(2,3), of E "from" x r1] show ?thesis by (auto simp: keeps_def)
    next
      case (Some i)
      then have "i \<in> set (rl_pit r)" by (auto simp: known_def find_Some_iff)
      with Some n assms(1) show ?thesis by (auto simp: keeps_refl)
    qed
    then show "keeps r r1" "\<And>p. x = Some p \<Longrightarrow> p \<in> in_ptr ` set (rl_pit r1)" by auto
  qed
  show ?thesis
  proof (cases "ccnl_pkt_fwdOK pkt \<and> x \<noteq> None")
    case False
    with n 1(1) assms(1) show ?thesis by (auto simp: pit_step_def known_def [symmetric] Let_def keeps_refl)
  next
    case True
    then obtain p where x: "x = Some p" by auto
    define r2 where "r2 = snd (ccnl_interest_append_pending E r1 p from)"
    have "relay_ok r2 \<and> grows r1 r2 \<and> in_ptr ` set (rl_pit r2) = in_ptr ` set (rl_pit r1)" unfolding r2_def
      using assms(3) keepsD [OF 1(1)] 1(2) [OF x] by (intro append_pending_ok) (auto simp: grows_def)
    then have k2: "keeps r r2" and p: "p \<in> in_ptr ` set (rl_pit r2)" using 1 x by (auto simp: keeps_def intro: grows_trans)
    obtain i where i: "find (\<lambda>i. in_ptr i = p) (rl_pit r2) = Some i" using find_interest [OF p] by blast
    have "keeps r (ccnl_interest_propagate E r2 i)"
      using sends_keeps [OF propagate_sends] keepsD(1) [OF k2] k2 keeps_trans by blast
    with True n x i k2 show ?thesis
      by (simp add: pit_step_def known_def [symmetric] r2_def [symmetric] Let_def)
  qed
qed

lemma handleInterest_ok:
  assumes "relay_ok r" "\<And>p. from = Some p \<Longrightarrow> p \<in> face_ptrs r"
  shows "relay_ok (snd (ccnl_fwd_handleInterest E r from pkt))
    \<or> pk_pfx pkt = None \<and> fst (ccnl_fwd_handleInterest E r from pkt) < 0 \<and> crashed (snd (ccnl_fwd_handleInterest E r from pkt))"
proof -
  obtain dup r1 where d: "ccnl_nonce_isDup E r pkt = (dup, r1)" by fastforce
  have k1: "keeps r r1" using nonce_isDup_keeps [OF assms(1) d] .
  obtain r2 rc2 where cb: "(case re_local_producer E of None \<Rightarrow> (r1, 0) | Some f \<Rightarrow> f r1 from pkt) = (r2, rc2)" by fastforce
  have "keeps r1 r2"
    using cb local_producer [OF _ keepsD(1) [OF k1], of _ "from" pkt] keeps_refl [OF keepsD(1) [OF k1]]
    by (cases "re_local_producer E") fastforce+
  then have k2: "keeps r r2" using k1 keeps_trans by blast
  have ok2: "relay_ok r2" and f2: "\<And>p. from = Some p \<Longrightarrow> p \<in> face_ptrs r2"
    using assms(2) keepsD [OF k2] by (auto simp: grows_def)
  have send: "relay_ok (snd (ccnl_send_pkt E r2 p q))" if "get_face p r2 = Some f" "0 \<le> fc_ifndx f" for p q f
  proof -
    have "p \<in> net_ptrs r2" using that get_face_Some [OF that(1)] by (auto simp: net_ptrs_def)
    then show ?thesis using sends_ok [OF sends_send_pkt [OF ok2] ok2] by blast
  qed
  have live: "get_face p r2 \<noteq> None" if "from = Some p" for p using f2 [OF that] get_face_None by blast
  have step: "relay_ok (snd (pit_step E r2 from pkt))" if "pk_pfx pkt \<noteq> None"
    using pit_step_keeps [OF ok2 that f2] by (simp add: keeps_def)
  show ?thesis
    using d cb keepsD(1) [OF k1] ok2 send live step fault_crashed [OF ok2] mgmt [OF _ ok2]
    by (auto simp: ccnl_fwd_handleInterest_def dest: keepsD split: option.splits)
qed

lemma forwarder_ok:
  assumes "relay_ok r" "\<And>p. from = Some p \<Longrightarrow> p \<in> face_ptrs r"
  shows "\<exists>rc data' datalen' r'. ccnl_ndntlv_forwarder E r from data datalen = Some (rc, data', datalen', r')
    \<and> (relay_ok r' \<or> nameless_pkt E data datalen \<and> rc < 0 \<and> crashed r')"
proof -
  have bad: "relay_ok (fault BadRead r)" using benign_fault_keeps [OF assms(1), of BadRead] by (simp add: keeps_def)
  have data: "\<exists>rc r'. ccnl_fwd_handleContent E r from pkt = Some (rc, r') \<and> (relay_ok r' \<or> pk_pfx pkt = None \<and> rc < 0 \<and> crashed r')" for pkt
    using handleContent_keeps [OF assms(1), of "from" pkt] keepsD(1) by blast
  have interest: "relay_ok r' \<or> pk_pfx pkt = None \<and> rc < 0 \<and> crashed r'"
    if "ccnl_fwd_handleInterest E r from pkt = (rc, r')" for pkt rc r'
    using handleInterest_ok [of r "from" pkt] assms that by simp
  show ?thesis
  proof (cases "ccnl_ndntlv_dehead data datalen")
    case (Parsed x)
    obtain h data' datalen' where x: "x = (h, data', datalen')" by (metis prod_cases3)
    show ?thesis
    proof (cases h)
      case None
      with Parsed x assms(1) show ?thesis by (simp add: ccnl_ndntlv_forwarder_def)
    next
      case (Some tl)
      obtain ty len where tl: "tl = (ty, len)" by fastforce
      note head = Parsed [unfolded x Some tl]
      show ?thesis
      proof (cases "ccnl_ndntlv_bytes2pkt (re_mem E) ty data data' datalen'")
        case (Parsed y)
        obtain pkt data2 datalen2 where y: "y = (pkt, data2, datalen2)" by (metis prod_cases3)
        show ?thesis
          using head Parsed [unfolded y] assms(1) data [of "pkt\<lparr>pk_type := ty\<rparr>"]
            interest [of "pkt\<lparr>pk_type := ty\<rparr>"] bad
          by (cases "ccnl_fwd_handleInterest E r from (pkt\<lparr>pk_type := ty\<rparr>)")
            (auto simp: ccnl_ndntlv_forwarder_def nameless_pkt_def Let_def)
      qed (use head assms(1) bad in \<open>simp_all add: ccnl_ndntlv_forwarder_def\<close>)
    qed
  qed (use assms(1) bad in \<open>simp_all add: ccnl_ndntlv_forwarder_def\<close>)
qed

end

end
