(* ===== verification/Ccn_Events.thy ===== *)
theory Ccn_Events
  imports Ccn_Invariant
begin

section \<open>The events of the relay\<close>

text \<open>
  The relay program waits for datagrams and for its timer, and its tables are configured from
  outside. Each of these events is a step; the tables are consistent after every sequence of steps,
  and every datagram is handled to its end unless it is a packet without a name, which crashes the
  relay when a table is searched for that name. A crashed relay takes no further step.
\<close>

subsection \<open>Receiving\<close>

lemma set_ifs_keeps:
  assumes "relay_ok r" "n < length (rl_ifs r)" "\<And>c. if_qlen (g c) = if_qlen c" "\<And>c. if_qfront (g c) = if_qfront c" "\<And>c. if_queue (g c) = if_queue c"
  shows "keeps r (upd_if n g r)"
proof -
  have "ifs_ok (upd_if n g r)"
    using relay_okD(2) [OF assms(1)] assms(2-5) by (auto simp: ifs_ok_def upd_if_def dest!: set_update_subset_insert [THEN subsetD])
  then show ?thesis
    using assms(1) by (auto simp: keeps_def grows_def relay_ok_def faces_ok_def pit_ok_def contents_ok_def fib_ok_def nonces_ok_def
        face_ptrs_def net_ptrs_def upd_if_def)
qed

text \<open>The datagram, after its code switches, is a packet without a name.\<close>

definition nameless :: "renv \<Rightarrow> bytes \<Rightarrow> u64 \<Rightarrow> bool" where
  "nameless E data datalen = (case switch_loop (-1) data datalen of (_, data', datalen') \<Rightarrow> nameless_pkt E data' datalen')"

context relay_functions
begin

lemma rx_loop_ok:
  assumes "relay_ok r" "p \<in> face_ptrs r"
  shows "\<exists>r'. rx_loop E p (-1) data datalen r = Some r' \<and> (relay_ok r' \<or> nameless E data datalen \<and> crashed r')"
proof (cases "datalen = 0")
  case True
  with assms(1) show ?thesis by (simp add: rx_loop.simps)
next
  case False
  obtain suite1 data1 len1 where sw: "switch_loop (-1) data datalen = (suite1, data1, len1)" by (metis prod_cases3)
  show ?thesis
  proof (cases "if suite1 = -1 then ccnl_pkt2suite data1 len1 else Some suite1")
    case None
    have "relay_ok (fault BadRead r)" using benign_fault_keeps [OF assms(1), of BadRead] by (simp add: keeps_def)
    with None sw False show ?thesis by (subst rx_loop.simps) simp
  next
    case (Some s)
    obtain rc data2 len2 r2 where fw: "ccnl_ndntlv_forwarder E r (Some p) data1 len1 = Some (rc, data2, len2, r2)"
        "relay_ok r2 \<or> nameless_pkt E data1 len1 \<and> rc < 0 \<and> crashed r2"
      using forwarder_ok [of r "Some p" data1 len1] assms by auto
    have "len2 = 0" if "\<not> rc < 0" using forwarder_exhausts [OF fw(1)] that by simp
    then have "\<not> rc < 0 \<Longrightarrow> rx_loop E p s data2 len2 r2 = Some r2" by (simp add: rx_loop.simps)
    with Some sw False fw assms(1) show ?thesis by (subst rx_loop.simps) (auto simp: nameless_def)
  qed
qed

lemma core_RX_ok:
  assumes "relay_ok r" "ifndx < int (length (rl_ifs r))"
  shows "\<exists>r'. ccnl_core_RX E r ifndx data datalen sa = Some r' \<and> (relay_ok r' \<or> nameless E data datalen \<and> crashed r')"
proof -
  define r1 where "r1 = (if 0 \<le> ifndx then upd_if (nat ifndx) (\<lambda>c. c\<lparr>if_rx_cnt := if_rx_cnt c + 1\<rparr>) r else r)"
  have n: "nat ifndx < length (rl_ifs r)" if "0 \<le> ifndx" using assms(2) that by linarith
  have k: "keeps r r1" using assms(1) n by (auto simp: r1_def keeps_refl intro!: set_ifs_keeps)
  have len: "length (rl_ifs r1) = length (rl_ifs r)" by (simp add: r1_def upd_if_def)
  obtain x r2 where g: "ccnl_get_face_or_create E r1 ifndx sa = (x, r2)" by fastforce
  have "relay_ok r2 \<and> (\<forall>p. x = Some p \<longrightarrow> p \<in> face_ptrs r2)"
    using get_face_or_create_ok [OF keepsD(1) [OF k] _ g] assms(2) len by auto
  then have "\<exists>r'. (case x of None \<Rightarrow> Some r2 | Some p \<Rightarrow> rx_loop E p (-1) data datalen r2) = Some r'
      \<and> (relay_ok r' \<or> nameless E data datalen \<and> crashed r')"
    using rx_loop_ok by (auto split: option.splits)
  then show ?thesis
    using g n by (auto simp: ccnl_core_RX_def r1_def Let_def split: option.splits)
qed

lemma cs_add_ok:
  assumes "relay_ok r" "ct_ptr c < rl_allocs r" "ct_ptr c \<notin> ct_ptr ` set (rl_contents r)"
  shows "\<exists>rc r'. ccnl_cs_add E r c = Some (rc, r') \<and> relay_ok r'"
proof (cases "ccnl_content_add2cache E r c")
  case (Pair x r1)
  have k1: "keeps r r1" using add2cache_ok [OF assms] Pair by simp
  show ?thesis
  proof (cases x)
    case None
    with Pair k1 show ?thesis by (simp add: ccnl_cs_add_def keeps_def)
  next
    case (Some c1)
    then have c1: "c1 = c" using Pair by (auto simp: ccnl_content_add2cache_def Let_def split: if_splits)
    obtain c2 cnt r2 where sv: "ccnl_content_serve_pending E r1 c = Some (c2, cnt, r2)" "keeps r1 r2"
        "rl_contents r2 = rl_contents r1" "ct_ptr c2 = ct_ptr c" "ct_pkt c2 = ct_pkt c"
      using serve_pending_keeps [OF keepsD(1) [OF k1]] by metis
    let ?cs = "map (\<lambda>d. if ct_ptr d = ct_ptr c then c2 else d) (rl_contents r2)"
    have ok2: "relay_ok r2" using sv(2) by (rule keepsD)
    have m: "map ct_ptr ?cs = map ct_ptr (rl_contents r2)" using sv(4) by simp
    have pkt: "ct_pkt d = ct_pkt c" if "d \<in> set (rl_contents r2)" "ct_ptr d = ct_ptr c" for d
    proof -
      have "set (rl_contents r1) \<subseteq> insert c (set (rl_contents r))"
        using Pair Some make_room_ok [OF assms(1), of c]
        by (auto simp: ccnl_content_add2cache_def Let_def shrinks_def split: if_splits)
      then show ?thesis using that sv(3) assms(3) by (metis imageI insertE subsetD)
    qed
    have "relay_ok (r2\<lparr>rl_contents := ?cs, rl_contentcnt := int (length ?cs)\<rparr>)"
    proof (rule set_contents_ok [OF ok2])
      show "distinct (map ct_ptr ?cs)" unfolding m using relay_okD(4) [OF ok2] by (simp add: contents_ok_def)
      show "\<exists>d\<in>set (rl_contents r2). ct_ptr d = ct_ptr x \<and> ct_pkt d = ct_pkt x" if "x \<in> set ?cs" for x
      proof -
        obtain d where "d \<in> set (rl_contents r2)" "x = (if ct_ptr d = ct_ptr c then c2 else d)"
          using \<open>x \<in> set ?cs\<close> unfolding set_map by blast
        then show ?thesis using pkt sv(4,5) by (intro bexI [of _ d]) auto
      qed
    qed simp
    moreover have "r2\<lparr>rl_contents := ?cs, rl_contentcnt := int (length ?cs)\<rparr> = r2\<lparr>rl_contents := ?cs\<rparr>"
      using content_count [OF ok2] by simp
    ultimately show ?thesis using Pair Some c1 sv(1) by (simp add: ccnl_cs_add_def)
  qed
qed

end

lemma cs_find_in:
  "cs_find E path cs r = (x, r') \<Longrightarrow> sends r r' \<and> (\<forall>c. x = Inr c \<longrightarrow> c \<in> set cs)"
proof (induction cs arbitrary: r)
  case (Cons c cs)
  obtain y r1 where p: "ccnl_prefix_to_path E r (ct_pkt c) = (y, r1)" by fastforce
  have s1: "sends r r1"
    using p calloc_sends by (auto simp: ccnl_prefix_to_path_def split: prod.splits option.splits)
  show ?case
    using Cons p s1 by (auto split: option.splits if_splits intro: sends_trans)
qed auto

lemma cs_remove_ok:
  assumes "relay_ok r"
  shows "relay_ok (snd (ccnl_cs_remove E r path))"
proof (cases path)
  case (Some s)
  obtain x r1 where f: "cs_find E s (rl_contents r) r = (x, r1)" by fastforce
  note fin = cs_find_in [OF f]
  have ok1: "relay_ok r1" using sends_ok fin assms by blast
  have "rl_contents r1 = rl_contents r" using fin sends_fields(4) by blast
  then have "ct_ptr c \<in> ct_ptr ` set (rl_contents r1)" if "x = Inr c" for c using fin that by simp
  with Some f ok1 show ?thesis
    by (auto simp: ccnl_cs_remove_def content_remove_ok(1) split: sum.splits)
qed (use assms in \<open>simp add: ccnl_cs_remove_def\<close>)

subsection \<open>The relay program\<close>

text \<open>The relay program installs no function; its build has no management protocol.\<close>

definition relay_env :: "renv \<Rightarrow> renv" where
  "relay_env E = E\<lparr>re_rx_on_data := None, re_local_producer := None, re_cs_remove := None, re_cs_decision := None,
                   re_tap := (\<lambda>t r from pfx buf. r), re_mgmt := None\<rparr>"

interpretation program: relay_functions "relay_env E" for E
  by unfold_locales (simp_all add: relay_env_def)

text \<open>The state after the start: no entries, and interfaces with empty queues.\<close>

definition relay_start :: "ccnl_relay_s \<Rightarrow> bool" where
  "relay_start r \<longleftrightarrow> rl_faces r = [] \<and> rl_fib r = [] \<and> rl_pit r = [] \<and> rl_contents r = [] \<and> rl_nonces r = []
     \<and> rl_contentcnt r = 0 \<and> rl_pitcnt r = 0 \<and> rl_faults r = [] \<and> ifs_ok r"

text \<open>
  The events. The relay goes on after a datagram that did not crash it. Routes are only added: no code
  of the repository calls \<^const>\<open>ccnl_fib_rem_entry\<close>.
\<close>

inductive relay_step :: "ccnl_relay_s \<Rightarrow> ccnl_relay_s \<Rightarrow> bool" where
  datagram: "\<lbrakk>n < rl_ifcount r; ccnl_core_RX (relay_env E) r (int n) data datalen (Some sa) = Some r'; \<not> crashed r'\<rbrakk> \<Longrightarrow> relay_step r r'"
| timer: "relay_step r (ccnl_do_ageing (relay_env E) r)"
| new_neighbour: "ifndx < int (rl_ifcount r) \<Longrightarrow> relay_step r (snd (ccnl_get_face_or_create (relay_env E) r ifndx sa))"
| lost_neighbour: "p \<in> face_ptrs r \<Longrightarrow> relay_step r (ccnl_face_remove r p)"
| route: "p \<in> net_ptrs r \<Longrightarrow> relay_step r (snd (ccnl_fib_add_entry (relay_env E) r pfx p))"
| store: "\<lbrakk>ccnl_content_new (relay_env E) r pkt = (Some c, r1); ccnl_cs_add (relay_env E) r1 c = Some (rc, r')\<rbrakk> \<Longrightarrow> relay_step r r'"
| forget: "relay_step r (snd (ccnl_cs_remove (relay_env E) r path))"

lemma relay_start_ok: "relay_start r \<Longrightarrow> relay_ok r"
  by (auto simp: relay_start_def relay_ok_def faces_ok_def pit_ok_def contents_ok_def fib_ok_def nonces_ok_def)

lemma relay_step_ok: "\<lbrakk>relay_step r r'; relay_ok r\<rbrakk> \<Longrightarrow> relay_ok r'"
proof (induction rule: relay_step.induct)
  case (datagram n r E data datalen sa r')
  then show ?case
    using program.core_RX_ok [of r "int n" E data datalen "Some sa"] relay_okD(2) [of r] by (auto simp: ifs_ok_def)
next
  case (timer r E)
  then show ?case by (rule program.do_ageing_ok)
next
  case (new_neighbour ifndx r E sa)
  then show ?case
    using get_face_or_create_ok [of r ifndx "relay_env E" sa] relay_okD(2) [of r]
    by (cases "ccnl_get_face_or_create (relay_env E) r ifndx sa") (auto simp: ifs_ok_def)
next
  case (lost_neighbour p r)
  then show ?case by (intro face_remove_ok)
next
  case (route p r E pfx)
  then show ?case using fib_add_entry_ok keepsD(1) by blast
next
  case (store E r pkt c r1 rc r')
  obtain y r2 where a: "ccnl_calloc (relay_env E) r = (y, r2)" by fastforce
  with store(1) obtain p where p: "y = Some p" "r1 = r2" "ct_ptr c = p"
    by (cases y) (auto simp: ccnl_content_new_def)
  with a have r1: "p = rl_allocs r" "r1 = r\<lparr>rl_allocs := Suc (rl_allocs r)\<rparr>" by (auto dest: callocD)
  have ok1: "relay_ok r1" using sends_ok [OF calloc_sends [OF a] store(3)] p by simp
  have "ct_ptr c < rl_allocs r1" "ct_ptr c \<notin> ct_ptr ` set (rl_contents r1)"
    using relay_okD(4) [OF store(3)] p r1 by (auto simp: contents_ok_def)
  from program.cs_add_ok [OF ok1 this, of E] store(2) show ?case by simp
next
  case (forget r E path)
  then show ?case by (rule cs_remove_ok)
qed


text \<open>A relay with one interface and room for two contents.\<close>

definition ex_if :: ccnl_if_s where
  "ex_if = \<lparr>if_addr = SU_ip4 1 6363, if_reflect = False, if_fwdalli = False, if_qlen = 0, if_qfront = 0,
     if_queue = replicate 64 \<lparr>tx_buf = [], tx_dst = SU_other, tx_face = 0\<rparr>, if_rx_cnt = 0, if_tx_cnt = 0\<rparr>"

definition ex_relay :: ccnl_relay_s where
  "ex_relay = \<lparr>rl_faces = [], rl_fib = [], rl_pit = [], rl_contents = [], rl_nonces = [], rl_contentcnt = 0,
     rl_max_cache_entries = 2, rl_pitcnt = 0, rl_max_pit_entries = -1, rl_ifs = replicate 10 ex_if, rl_ifcount = 1,
     rl_seqno = 0, rl_allocs = 0, rl_sent = [], rl_faults = []\<rparr>"

definition ex_env :: renv where
  "ex_env = relay_env \<lparr>re_alloc = (\<lambda>_. True), re_mem = (\<lambda>_. True), re_now = 100, re_digest = (\<lambda>_. None), re_rx_on_data = None,
     re_local_producer = None, re_cs_remove = None, re_cs_decision = None, re_tap = (\<lambda>_ r _ _ _. r), re_mgmt = None\<rparr>"

lemma ex_relay_start: "relay_start ex_relay"
  by (auto simp: relay_start_def ex_relay_def ifs_ok_def ex_if_def CCNL_MAX_IF_QLEN_def)

lemma ex_env_simps [simp]:
  "re_alloc ex_env n" "re_mem ex_env s" "re_now ex_env = 100" "re_digest ex_env b = None" "re_rx_on_data ex_env = None"
  "re_local_producer ex_env = None" "re_cs_remove ex_env = None" "re_cs_decision ex_env = None" "re_mgmt ex_env = None"
  by (simp_all add: ex_env_def relay_env_def)

lemma relay_env_ex [simp]: "relay_env ex_env = ex_env"
  by (simp add: ex_env_def relay_env_def)


end
