(* ===== verification/Ccn_Delivery.thy ===== *)
theory Ccn_Delivery
  imports Ccn_Events
begin

section \<open>What the relay sends\<close>

text \<open>
  The frames the relay sends for a packet, exactly: data goes once to every neighbour that waits for
  it, an interest goes along the forwarding entries that cover its name or is answered from the
  store. The results are stated for consistent tables and allocations that succeed.
\<close>

subsection \<open>Serving, in closed form\<close>

definition frame_to :: "ccnl_relay_s \<Rightarrow> bytes \<Rightarrow> nat \<Rightarrow> nat \<times> sockunion \<times> bytes" where
  "frame_to r buf p = (case get_face p r of Some f \<Rightarrow> (nat (fc_ifndx f), fc_peer f, buf) | None \<Rightarrow> (0, SU_other, buf))"

definition served :: "ccnl_relay_s \<Rightarrow> nat \<Rightarrow> bool" where
  "served r p = (case get_face p r of Some f \<Rightarrow> fc_flags f AND CCNL_FACE_FLAGS_SERVED \<noteq> 0 | None \<Rightarrow> False)"

definition mark :: "nat set \<Rightarrow> ccnl_face_s list \<Rightarrow> ccnl_face_s list" where
  "mark S = map (\<lambda>f. if fc_ptr f \<in> S then f\<lparr>fc_flags := fc_flags f OR CCNL_FACE_FLAGS_SERVED\<rparr> else f)"

lemma find_mark: "find (\<lambda>f. fc_ptr f = p) (mark S fs) =
    map_option (\<lambda>f. if fc_ptr f \<in> S then f\<lparr>fc_flags := fc_flags f OR CCNL_FACE_FLAGS_SERVED\<rparr> else f) (find (\<lambda>f. fc_ptr f = p) fs)"
  by (induction fs) (auto simp: mark_def)

lemma mark_simps [simp]: "mark {} fs = fs" "map fc_ptr (mark S fs) = map fc_ptr fs"
  by (auto simp: mark_def intro: map_idI)

lemma mark_mark: "mark T (mark S fs) = mark (S \<union> T) fs"
  by (auto simp: mark_def or.assoc)

lemma get_face_mark:
  assumes "rl_faces r' = mark S (rl_faces r)"
  shows "get_face p r' = map_option (\<lambda>f. if fc_ptr f \<in> S then f\<lparr>fc_flags := fc_flags f OR CCNL_FACE_FLAGS_SERVED\<rparr> else f) (get_face p r)"
  by (simp add: get_face_def assms find_mark)

lemma flag_set: "(x OR CCNL_FACE_FLAGS_SERVED) AND CCNL_FACE_FLAGS_SERVED \<noteq> 0"
proof -
  have "(x OR 4) AND 4 = 4" by (rule bit_eqI) (auto simp: bit_simps)
  then show ?thesis by (simp add: CCNL_FACE_FLAGS_SERVED_def)
qed

lemma after_mark:
  assumes "rl_faces r' = mark S (rl_faces r)"
  shows "frame_to r' buf p = frame_to r buf p"
    and "p \<in> face_ptrs r \<Longrightarrow> served r' p \<longleftrightarrow> served r p \<or> p \<in> S"
    and "face_ptrs r' = face_ptrs r" "net_ptrs r' = net_ptrs r"
proof -
  show "frame_to r' buf p = frame_to r buf p"
    by (cases "get_face p r") (auto simp: frame_to_def get_face_mark [OF assms])
  show "p \<in> face_ptrs r \<Longrightarrow> served r' p \<longleftrightarrow> served r p \<or> p \<in> S"
    using flag_set by (auto elim!: get_faceE simp: served_def get_face_mark [OF assms])
  show "face_ptrs r' = face_ptrs r"
    using arg_cong [OF mark_simps(2), of set S "rl_faces r"] by (simp only: face_ptrs_def assms set_map)
  show "net_ptrs r' = net_ptrs r"
  proof -
    have "map fc_ptr (filter (\<lambda>f. 0 \<le> fc_ifndx f) (mark S fs)) = map fc_ptr (filter (\<lambda>f. 0 \<le> fc_ifndx f) fs)" for fs
      by (induction fs) (auto simp: mark_def)
    from arg_cong [OF this, of set "rl_faces r"] show ?thesis by (simp add: net_ptrs_def assms)
  qed
qed

lemma serve_faces_spec:
  assumes "relay_ok r" "distinct (map pi_face ps)" "pi_face ` set ps \<subseteq> face_ptrs r" "\<forall>n. re_alloc E n"
    and "serve_faces E c cnt ps r = (c', cnt', r')"
  defines "qs \<equiv> filter (\<lambda>p. \<not> served r p) (map pi_face ps)"
  shows "rl_sent r' = rl_sent r @ map (frame_to r (pk_buf (ct_pkt c))) (filter (\<lambda>p. p \<in> net_ptrs r) qs)
    \<and> cnt' = cnt + length qs \<and> rl_faces r' = mark (set qs) (rl_faces r)"
  using assms(1-5) unfolding qs_def
proof (induction E c cnt ps r arbitrary: c' cnt' r' rule: serve_faces.induct)
  case (2 E c cnt pi ps r)
  let ?p = "pi_face pi"
  obtain f where f: "get_face ?p r = Some f" "f \<in> set (rl_faces r)" "fc_ptr f = ?p"
    using "2.prems"(3) by (auto elim: get_faceE)
  show ?case
  proof (cases "fc_flags f AND CCNL_FACE_FLAGS_SERVED \<noteq> 0")
    case True
    then have "served r ?p" using f by (simp add: served_def)
    with True f "2.prems" "2.IH"(2) [OF f(1) True, of c' cnt' r'] show ?thesis by auto
  next
    case False
    then have new: "\<not> served r ?p" using f by (simp add: served_def)
    define r1 where "r1 = upd_face ?p (\<lambda>f. f\<lparr>fc_flags := fc_flags f OR CCNL_FACE_FLAGS_SERVED\<rparr>) r"
    define r2 where "r2 = (if 0 \<le> fc_ifndx f then snd (ccnl_send_pkt E r1 ?p (ct_pkt c)) else r1)"
    have m1: "rl_faces r1 = mark {?p} (rl_faces r)" by (simp add: r1_def upd_face_def mark_def)
    have k1: "keeps r r1" unfolding r1_def using served_flag_keeps [OF "2.prems"(1)] .
    note ok1 = keepsD(1) [OF k1]
    have net: "?p \<in> net_ptrs r \<longleftrightarrow> 0 \<le> fc_ifndx f"
      using f net_face_index [OF relay_okD(1) [OF "2.prems"(1)] _ f(1)] by (force simp: net_ptrs_def)
    have g1: "get_face ?p r1 = Some (f\<lparr>fc_flags := fc_flags f OR CCNL_FACE_FLAGS_SERVED\<rparr>)"
      using f get_face_mark [OF m1, of ?p] by simp
    have s2: "sends r1 r2"
      using sends_send_pkt [OF ok1] net after_mark(4) [OF m1] by (simp add: r2_def)
    have sent: "rl_sent r2 = rl_sent r @ (if ?p \<in> net_ptrs r then [frame_to r (pk_buf (ct_pkt c)) ?p] else [])"
      using send_pkt_eq [OF relay_okD(1,2) [OF ok1] g1, of E "ct_pkt c"] "2.prems"(4) net f
      by (simp add: r2_def frame_to_def transmit_def upd_if_def) (simp add: r1_def upd_face_def)
    have m2: "rl_faces r2 = mark {?p} (rl_faces r)" using sends_fields(1) [OF s2] m1 by simp
    note am = after_mark [OF m2]
    have ok2: "relay_ok r2" using sends_ok [OF s2 ok1] .
    have eq: "serve_faces E (c\<lparr>ct_served_cnt := ct_served_cnt c + 1\<rparr>) (Suc cnt) ps r2 = (c', cnt', r')"
      using "2.prems"(5) f False by (auto simp: r1_def r2_def Let_def)
    have same: "filter (\<lambda>p. \<not> served r2 p) (map pi_face ps) = filter (\<lambda>p. \<not> served r p) (map pi_face ps)"
    proof (rule filter_cong [OF refl])
      fix q assume "q \<in> set (map pi_face ps)"
      moreover from this have "q \<noteq> ?p" using "2.prems"(2) unfolding list.map distinct.simps by blast
      ultimately have "q \<in> face_ptrs r" "q \<noteq> ?p" using "2.prems"(3) by auto
      then show "(\<not> served r2 q) = (\<not> served r q)" using am(2) by simp
    qed
    have IH: "rl_sent r' = rl_sent r2 @ map (frame_to r2 (pk_buf (ct_pkt c))) (filter (\<lambda>p. p \<in> net_ptrs r2) (filter (\<lambda>p. \<not> served r2 p) (map pi_face ps)))
        \<and> cnt' = Suc cnt + length (filter (\<lambda>p. \<not> served r2 p) (map pi_face ps))
        \<and> rl_faces r' = mark (set (filter (\<lambda>p. \<not> served r2 p) (map pi_face ps))) (rl_faces r2)"
      using "2.IH"(3) [OF f(1) False r1_def r2_def ok2 _ _ "2.prems"(4) eq] "2.prems"(2,3) am(3) by simp
    show ?thesis
      using IH new sent am(1,4) m2 unfolding same by (simp add: mark_mark fun_eq_iff)
  qed
qed auto

text \<open>The faces served for a list of interests, in the order they are served in.\<close>

fun recipients :: "(ccnl_pkt_s \<Rightarrow> bool) \<Rightarrow> nat set \<Rightarrow> ccnl_interest_s list \<Rightarrow> nat list" where
  "recipients A S [] = []"
| "recipients A S (i # is) =
    (if A (in_pkt i)
     then (let qs = filter (\<lambda>p. p \<notin> S) (map pi_face (in_pending i)) in qs @ recipients A (S \<union> set qs) is)
     else recipients A S is)"

lemma recipients_set:
  assumes "\<And>i. i \<in> set is \<Longrightarrow> distinct (map pi_face (in_pending i))"
  shows "distinct (recipients A S is)"
    and "set (recipients A S is) = {p. \<exists>i\<in>set is. A (in_pkt i) \<and> p \<in> pi_face ` set (in_pending i)} - S"
  using assms by (induction A S "is" rule: recipients.induct) (auto simp: Let_def)

lemma serve_loop_spec:
  assumes "relay_ok r" "distinct (map in_ptr is)" "set is \<subseteq> set (rl_pit r)" "\<forall>n. re_alloc E n"
    and "serve_loop E c cnt is r = Some (c', cnt', r')"
  defines "qs \<equiv> recipients (answers E (ct_pkt c)) {p. served r p} is"
  shows "rl_sent r' = rl_sent r @ map (frame_to r (pk_buf (ct_pkt c))) (filter (\<lambda>p. p \<in> net_ptrs r) qs)
    \<and> cnt' = cnt + length qs + length (filter (\<lambda>i. answers E (ct_pkt c) (in_pkt i) \<and> in_pending i = []) is)
    \<and> rl_pit r' = filter (\<lambda>j. \<not> (\<exists>i\<in>set is. in_ptr i = in_ptr j \<and> answers E (ct_pkt c) (in_pkt i))) (rl_pit r)"
  using assms(1-5) unfolding qs_def
proof (induction "is" arbitrary: c cnt r)
  case (Cons i "is")
  have i: "interest_ok (face_ptrs r) (rl_allocs r) i" using Cons.prems(1,3) by (auto intro: interest_okD)
  then have pfx: "pk_pfx (in_pkt i) \<noteq> None" and pend: "pi_face ` set (in_pending i) \<subseteq> face_ptrs r" "distinct (map pi_face (in_pending i))"
    by (auto simp: interest_ok_def)
  show ?case
  proof (cases "answers E (ct_pkt c) (in_pkt i)")
    case False
    then have "serve_loop E c cnt is r = Some (c', cnt', r')" using Cons.prems(5) pfx by simp
    with Cons.IH [OF Cons.prems(1) _ _ Cons.prems(4) this] Cons.prems(2,3) False show ?thesis by auto
  next
    case True
    let ?A = "answers E (ct_pkt c)"
    let ?q = "filter (\<lambda>p. \<not> served r p) (map pi_face (in_pending i))"
    obtain c1 cnt1 r1 where sv: "serve_faces E c cnt (in_pending i) r = (c1, cnt1, r1)" by (metis prod_cases3)
    note k1 = serve_faces_keeps [OF Cons.prems(1) pend(1) sv]
    note sp = serve_faces_spec [OF Cons.prems(1) pend(2,1) Cons.prems(4) sv]
    define c2 cnt2 where "c2 = (if in_pending i = [] then c\<lparr>ct_flags := ct_flags c OR CCNL_CONTENT_FLAGS_STATIC,
        ct_served_cnt := ct_served_cnt c + 1\<rparr> else c1)" and "cnt2 = (if in_pending i = [] then Suc cnt else cnt1)"
    define r2 where "r2 = ccnl_interest_remove r1 (in_ptr i)"
    have r1: "r1 = r" if "in_pending i = []" using sv that by simp
    have step: "serve_loop E c2 cnt2 is r2 = Some (c', cnt', r')"
      using Cons.prems(5) pfx True sv r1 by (auto simp: c2_def cnt2_def r2_def split: if_splits)
    have ok1: "relay_ok r1" and pit1: "rl_pit r1 = rl_pit r" using k1 by (auto simp: keeps_def)
    have mem: "in_ptr i \<in> in_ptr ` set (rl_pit r1)" using Cons.prems(3) pit1 by auto
    note rem = interest_remove_ok [OF ok1 mem, folded r2_def]
    have pit2: "rl_pit r2 = filter (\<lambda>j. in_ptr j \<noteq> in_ptr i) (rl_pit r)" using rem(3) pit1 by simp
    have sub: "set is \<subseteq> set (rl_pit r2)" using Cons.prems(2,3) unfolding pit2 by (force simp: image_iff)
    have f2: "rl_faces r2 = mark (set ?q) (rl_faces r)" "rl_sent r2 = rl_sent r1"
      using sp mem by (auto simp: r2_def ccnl_interest_remove_def)
    note am = after_mark [OF f2(1)]
    have pkt2: "ct_pkt c2 = ct_pkt c" using k1 by (simp add: c2_def)
    have S: "{p. served r2 p} = {p. served r p} \<union> set ?q"
    proof -
      have "p \<in> face_ptrs r" if "served r p" for p r
        using that get_face_None [of p r] by (auto simp: served_def split: option.splits)
      then have "served r2 p \<longleftrightarrow> served r p \<or> p \<in> set ?q" for p
        using am(2) [of p] am(3) pend(1) by (cases "p \<in> face_ptrs r") auto
      then show ?thesis by blast
    qed
    have q: "filter (\<lambda>p. p \<notin> {p. served r p}) (map pi_face (in_pending i)) = ?q" by simp
    have IH: "rl_sent r' = rl_sent r2 @ map (frame_to r2 (pk_buf (ct_pkt c)))
          (filter (\<lambda>p. p \<in> net_ptrs r2) (recipients ?A {p. served r2 p} is))"
        "cnt' = cnt2 + length (recipients ?A {p. served r2 p} is) + length (filter (\<lambda>i. ?A (in_pkt i) \<and> in_pending i = []) is)"
        "rl_pit r' = filter (\<lambda>j. \<not> (\<exists>i\<in>set is. in_ptr i = in_ptr j \<and> ?A (in_pkt i))) (rl_pit r2)"
      using Cons.IH [OF rem(1) _ sub Cons.prems(4) step] Cons.prems(2) pkt2 by auto
    have rec: "recipients ?A {p. served r p} (i # is) = ?q @ recipients ?A {p. served r2 p} is"
      using True q S by (simp add: Let_def)
    have fr: "frame_to r2 = frame_to r" using am(1) by (intro ext)
    have "cnt2 = cnt + length ?q + (if in_pending i = [] then 1 else 0)" using sp by (auto simp: cnt2_def)
    moreover have "rl_pit r' = filter (\<lambda>j. \<not> (\<exists>k\<in>set (i # is). in_ptr k = in_ptr j \<and> ?A (in_pkt k))) (rl_pit r)"
      unfolding IH(3) pit2 filter_filter using True by (intro filter_cong) auto
    ultimately show ?thesis
      unfolding rec using IH sp f2(2) am(4) fr True by auto
  qed
qed auto

text \<open>A consistent table serves each interest under its own address.\<close>

lemma serve_pending_spec:
  assumes "relay_ok r" "\<forall>n. re_alloc E n" "ccnl_content_serve_pending E r c = Some (c', cnt, r')"
  defines "A \<equiv> answers E (ct_pkt c)"
  shows "\<exists>ps. distinct ps \<and> set ps = {p \<in> net_ptrs r. \<exists>i\<in>set (rl_pit r). A (in_pkt i) \<and> p \<in> pi_face ` set (in_pending i)}
      \<and> rl_sent r' = rl_sent r @ map (frame_to r (pk_buf (ct_pkt c))) ps"
    and "rl_pit r' = filter (\<lambda>i. \<not> A (in_pkt i)) (rl_pit r)"
    and "cnt = 0 \<longleftrightarrow> (\<forall>i\<in>set (rl_pit r). \<not> A (in_pkt i))"
proof -
  let ?g = "\<lambda>f. f\<lparr>fc_flags := fc_flags f AND NOT CCNL_FACE_FLAGS_SERVED\<rparr>"
  define r1 where "r1 = r\<lparr>rl_faces := map ?g (rl_faces r)\<rparr>"
  have ok1: "relay_ok r1" using upd_faces_ok(1) [OF assms(1), of ?g] by (simp add: r1_def)
  have gf: "get_face p r1 = map_option ?g (get_face p r)" for p
  proof -
    have "find (\<lambda>f. fc_ptr f = p) (map ?g fs) = map_option ?g (find (\<lambda>f. fc_ptr f = p) fs)" for fs by (induction fs) auto
    then show ?thesis by (simp add: get_face_def r1_def)
  qed
  have fr: "frame_to r1 = frame_to r" by (auto simp: frame_to_def gf fun_eq_iff split: option.splits)
  have none: "{p. served r1 p} = {}"
  proof -
    have "(x AND NOT CCNL_FACE_FLAGS_SERVED) AND CCNL_FACE_FLAGS_SERVED = 0" for x by (simp add: and.assoc)
    then show ?thesis by (auto simp: served_def gf split: option.splits)
  qed
  have net: "net_ptrs r1 = net_ptrs r" by (force simp: net_ptrs_def r1_def image_iff)
  have d: "distinct (map in_ptr (rl_pit r1))" using relay_okD(3) [OF assms(1)] by (simp add: r1_def pit_ok_def)
  let ?qs = "recipients A {} (rl_pit r)"
  have sp: "rl_sent r' = rl_sent r @ map (frame_to r (pk_buf (ct_pkt c))) (filter (\<lambda>p. p \<in> net_ptrs r) ?qs)"
      "cnt = length ?qs + length (filter (\<lambda>i. A (in_pkt i) \<and> in_pending i = []) (rl_pit r))"
      "rl_pit r' = filter (\<lambda>j. \<not> (\<exists>i\<in>set (rl_pit r). in_ptr i = in_ptr j \<and> A (in_pkt i))) (rl_pit r)"
  proof -
    have pit: "rl_pit r1 = rl_pit r" and sent: "rl_sent r1 = rl_sent r" by (simp_all add: r1_def)
    have "serve_loop E c 0 (rl_pit r1) r1 = Some (c', cnt, r')"
      using assms(3) by (simp add: ccnl_content_serve_pending_def r1_def)
    from serve_loop_spec [OF ok1 d order_refl assms(2) this, unfolded none fr net pit sent, folded A_def]
    show "rl_sent r' = rl_sent r @ map (frame_to r (pk_buf (ct_pkt c))) (filter (\<lambda>p. p \<in> net_ptrs r) ?qs)"
      "cnt = length ?qs + length (filter (\<lambda>i. A (in_pkt i) \<and> in_pending i = []) (rl_pit r))"
      "rl_pit r' = filter (\<lambda>j. \<not> (\<exists>i\<in>set (rl_pit r). in_ptr i = in_ptr j \<and> A (in_pkt i))) (rl_pit r)"
      by auto
  qed
  have "\<And>i. i \<in> set (rl_pit r) \<Longrightarrow> distinct (map pi_face (in_pending i))"
    using interest_okD [OF assms(1)] by (simp add: interest_ok_def)
  note rs = recipients_set [OF this, of "rl_pit r" A "{}"]
  show "\<exists>ps. distinct ps \<and> set ps = {p \<in> net_ptrs r. \<exists>i\<in>set (rl_pit r). A (in_pkt i) \<and> p \<in> pi_face ` set (in_pending i)}
      \<and> rl_sent r' = rl_sent r @ map (frame_to r (pk_buf (ct_pkt c))) ps"
    using sp(1) rs by (intro exI [of _ "filter (\<lambda>p. p \<in> net_ptrs r) ?qs"]) auto
  have "in_ptr i = in_ptr j \<Longrightarrow> i = j" if "i \<in> set (rl_pit r)" "j \<in> set (rl_pit r)" for i j
    using that relay_okD(3) [OF assms(1)] by (auto simp: pit_ok_def distinct_map inj_on_def)
  then show "rl_pit r' = filter (\<lambda>i. \<not> A (in_pkt i)) (rl_pit r)"
    unfolding sp(3) by (intro filter_cong) auto
  show "cnt = 0 \<longleftrightarrow> (\<forall>i\<in>set (rl_pit r). \<not> A (in_pkt i))"
  proof -
    have "set ?qs = {} \<longleftrightarrow> (\<forall>i\<in>set (rl_pit r). A (in_pkt i) \<longrightarrow> in_pending i = [])"
      by (subst rs(2)) (auto, metis hd_in_set imageI)
    then have "?qs = [] \<longleftrightarrow> (\<forall>i\<in>set (rl_pit r). A (in_pkt i) \<longrightarrow> in_pending i = [])" by simp
    then show ?thesis unfolding sp(2) by (auto simp: filter_empty_conv)
  qed
qed


subsection \<open>Data\<close>

lemma relay_env_simps [simp]:
  "re_alloc (relay_env E) = re_alloc E" "re_mem (relay_env E) = re_mem E" "re_now (relay_env E) = re_now E"
  "re_digest (relay_env E) = re_digest E" "re_rx_on_data (relay_env E) = None" "re_local_producer (relay_env E) = None"
  "re_cs_remove (relay_env E) = None" "re_cs_decision (relay_env E) = None" "re_mgmt (relay_env E) = None"
  "re_tap (relay_env E) t r from pfx buf = r"
  by (simp_all add: relay_env_def)

text \<open>Caching touches the store and its counter only.\<close>

lemma content_remove_frame:
  "\<exists>cs n fl. ccnl_content_remove r p = r\<lparr>rl_contents := cs, rl_contentcnt := n, rl_faults := fl\<rparr>"
proof -
  have "r\<lparr>rl_faults := fl\<rparr> = r\<lparr>rl_contents := rl_contents r, rl_contentcnt := rl_contentcnt r, rl_faults := fl\<rparr>" for fl by simp
  moreover have "r\<lparr>rl_contents := cs, rl_contentcnt := n\<rparr> = r\<lparr>rl_contents := cs, rl_contentcnt := n, rl_faults := rl_faults r\<rparr>" for cs n by simp
  ultimately show ?thesis unfolding ccnl_content_remove_def fault_def by (metis (no_types))
qed

lemma add2cache_frame:
  "rl_sent (snd (ccnl_content_add2cache (relay_env E) r c)) = rl_sent r"
  "rl_pit (snd (ccnl_content_add2cache (relay_env E) r c)) = rl_pit r"
proof -
  define r1 where "r1 = make_room (relay_env E) r c"
  have "rl_sent r1 = rl_sent r \<and> rl_pit r1 = rl_pit r"
  proof -
    have "rl_sent (ccnl_content_remove r p) = rl_sent r \<and> rl_pit (ccnl_content_remove r p) = rl_pit r" for p
      using content_remove_frame [of r p] by auto
    then show ?thesis by (auto simp: r1_def make_room_def cache_strategy_remove_def split: option.splits)
  qed
  then show "rl_sent (snd (ccnl_content_add2cache (relay_env E) r c)) = rl_sent r"
    "rl_pit (snd (ccnl_content_add2cache (relay_env E) r c)) = rl_pit r"
    by (auto simp: ccnl_content_add2cache_def r1_def [symmetric] Let_def)
qed

text \<open>
  Data that is not in the store goes to the neighbours that wait for it, to each exactly once whatever
  the number of its interests that match, and to nobody else, as the very packet that was received. The
  interests it answers are taken from the table, the others stay. Data nobody waits for is neither sent nor
  stored.
\<close>

lemma handleContent_delivers:
  assumes "relay_ok r" "\<forall>n. re_alloc E n" "pk_pfx pkt \<noteq> None" "\<forall>c\<in>set (rl_contents r). \<not> same_name (ct_pkt c) pkt"
  shows "\<exists>r' ps. ccnl_fwd_handleContent (relay_env E) r from pkt = Some (0, r')
    \<and> distinct ps
    \<and> set ps = {p \<in> net_ptrs r. \<exists>i\<in>set (rl_pit r). answers E pkt (in_pkt i) \<and> p \<in> pi_face ` set (in_pending i)}
    \<and> rl_sent r' = rl_sent r @ map (frame_to r (pk_buf pkt)) ps
    \<and> rl_pit r' = filter (\<lambda>i. \<not> answers E pkt (in_pkt i)) (rl_pit r)
    \<and> ((\<forall>i\<in>set (rl_pit r). \<not> answers E pkt (in_pkt i)) \<longrightarrow> rl_contents r' = rl_contents r)"
proof -
  let ?E = "relay_env E"
  define r1 where "r1 = r\<lparr>rl_allocs := Suc (rl_allocs r)\<rparr>"
  define c where "c = \<lparr>ct_ptr = rl_allocs r, ct_pkt = pkt, ct_flags = 0, ct_last_used = re_now E, ct_served_cnt = 0\<rparr>"
  have ca: "ccnl_calloc ?E r = (Some (rl_allocs r), r1)" using assms(2) by (simp add: ccnl_calloc_def r1_def)
  have ok1: "relay_ok r1" using sends_ok [OF calloc_sends [OF ca] assms(1)] .
  obtain c' cnt r2 where sv: "ccnl_content_serve_pending ?E r1 c = Some (c', cnt, r2)" "rl_contents r2 = rl_contents r1"
    using serve_pending_keeps [OF ok1] by metis
  have A: "answers ?E (ct_pkt c) = answers E pkt" by (simp add: answers_def c_def fun_eq_iff)
  have fr: "frame_to r1 = frame_to r" "net_ptrs r1 = net_ptrs r" "rl_pit r1 = rl_pit r" "rl_sent r1 = rl_sent r" "rl_contents r1 = rl_contents r"
    by (simp_all add: frame_to_def get_face_def net_ptrs_def r1_def fun_eq_iff)
  have al: "\<forall>n. re_alloc ?E n" using assms(2) by simp
  note sp = serve_pending_spec [OF ok1 al sv(1), unfolded A fr]
  then obtain ps where ps: "distinct ps"
      "set ps = {p \<in> net_ptrs r. \<exists>i\<in>set (rl_pit r). answers E pkt (in_pkt i) \<and> p \<in> pi_face ` set (in_pending i)}"
      "rl_sent r2 = rl_sent r @ map (frame_to r (pk_buf pkt)) ps"
    by (auto simp: c_def)
  define r3 where "r3 = (if cnt = 0 \<or> rl_max_cache_entries r2 = 0 then r2 else snd (ccnl_content_add2cache ?E r2 c'))"
  define r' where "r' = (if cnt = 0 \<or> rl_max_cache_entries r2 = 0 \<or> c' \<in> set (rl_contents r3) then r3 else fault (LostContent (ct_ptr c')) r3)"
  have h: "ccnl_fwd_handleContent ?E r from pkt = Some (0, r')"
    using assms(3,4) ca sv(1) unfolding r'_def
    by (auto simp: ccnl_fwd_handleContent_def ccnl_content_new_def c_def cache_strategy_cache_def r3_def split: prod.splits)
  have "rl_sent r3 = rl_sent r2" "rl_pit r3 = rl_pit r2" by (simp_all add: r3_def add2cache_frame)
  then have "rl_sent r' = rl_sent r2" "rl_pit r' = rl_pit r2" by (simp_all add: r'_def fault_def)
  moreover have "rl_contents r' = rl_contents r" if "cnt = 0" using that sv(2) fr by (simp add: r'_def r3_def)
  ultimately show ?thesis using h ps sp(2,3) by (intro exI [of _ r'] exI [of _ ps]) simp
qed


subsection \<open>Interests\<close>

definition next_hops :: "ccnl_relay_s \<Rightarrow> ccnl_pkt_s \<Rightarrow> nat option \<Rightarrow> nat list" where
  "next_hops r pkt from = List.map_filter fw_face (filter (\<lambda>fwd. fib_covers fwd pkt \<and> may_send r fwd from) (rl_fib r))"

lemma same_faces:
  assumes "rl_faces r1 = rl_faces r"
  shows "get_face p r1 = get_face p r" "frame_to r1 = frame_to r" "may_send r1 = may_send r" "net_ptrs r1 = net_ptrs r" "face_ptrs r1 = face_ptrs r"
  by (intro ext | simp only: get_face_def frame_to_def may_send_def net_ptrs_def face_ptrs_def assms)+

lemma send_sent:
  assumes "relay_ok r" "p \<in> net_ptrs r" "\<forall>n. re_alloc E n"
  shows "rl_sent (snd (ccnl_send_pkt E r p pkt)) = rl_sent r @ [frame_to r (pk_buf pkt) p]"
proof -
  obtain f where f: "get_face p r = Some f" using assms(2) net_face_ptrs by (blast elim: get_faceE)
  note ok = relay_okD(1,2) [OF assms(1)]
  show ?thesis
    using send_pkt_eq [OF ok f net_face_index [OF ok(1) assms(2) f], of E pkt] assms(3) f
    by (simp add: frame_to_def transmit_def upd_if_def)
qed

lemma propagate_loop_sent:
  assumes "relay_ok r" "\<forall>n. re_alloc E n" "\<And>fwd p. \<lbrakk>fwd \<in> set fs; fw_face fwd = Some p\<rbrakk> \<Longrightarrow> p \<in> net_ptrs r"
  shows "rl_sent (propagate_loop (relay_env E) i fs r) = rl_sent r @ map (frame_to r (pk_buf (in_pkt i)))
     (List.map_filter fw_face (filter (\<lambda>fwd. fib_covers fwd (in_pkt i) \<and> may_send r fwd (in_from i)) fs))"
  using assms
proof (induction fs arbitrary: r)
  case (Cons fwd fs)
  show ?case
  proof (cases "fib_covers fwd (in_pkt i) \<and> may_send r fwd (in_from i) \<and> fw_face fwd \<noteq> None")
    case False
    have "propagate_loop (relay_env E) i (fwd # fs) r = propagate_loop (relay_env E) i fs r"
      using False by (auto split: option.splits)
    moreover have "rl_sent (propagate_loop (relay_env E) i fs r) = rl_sent r @ map (frame_to r (pk_buf (in_pkt i)))
       (List.map_filter fw_face (filter (\<lambda>fwd. fib_covers fwd (in_pkt i) \<and> may_send r fwd (in_from i)) fs))"
      by (rule Cons.IH [OF Cons.prems(1,2)]) (use Cons.prems(3) in auto)
    ultimately show ?thesis using False by (auto simp: map_filter_simps)
  next
    case True
    then obtain p where p: "fw_face fwd = Some p" by auto
    then have net: "p \<in> net_ptrs r" using Cons.prems(3) [of fwd] by simp
    define r1 where "r1 = snd (ccnl_send_pkt (relay_env E) r p (in_pkt i))"
    have s: "sends r r1" using sends_send_pkt [OF Cons.prems(1) net] by (simp add: r1_def)
    have sent: "rl_sent r1 = rl_sent r @ [frame_to r (pk_buf (in_pkt i)) p]"
      using send_sent [OF Cons.prems(1) net, of "relay_env E"] Cons.prems(2) by (simp add: r1_def)
    have same: "frame_to r1 = frame_to r" "may_send r1 = may_send r" "net_ptrs r1 = net_ptrs r"
      using same_faces [OF sends_fields(1) [OF s]] by auto
    have "rl_sent (propagate_loop (relay_env E) i fs r1) = rl_sent r1 @ map (frame_to r1 (pk_buf (in_pkt i)))
       (List.map_filter fw_face (filter (\<lambda>fwd. fib_covers fwd (in_pkt i) \<and> may_send r1 fwd (in_from i)) fs))"
      using Cons.prems(3) same(3) by (intro Cons.IH [OF sends_ok [OF s Cons.prems(1)] Cons.prems(2)]) auto
    moreover have "propagate_loop (relay_env E) i (fwd # fs) r = propagate_loop (relay_env E) i fs r1"
      using True p by (simp add: r1_def split: option.splits)
    ultimately show ?thesis using True p sent same by (simp add: map_filter_simps)
  qed
qed (simp add: map_filter_simps)

lemma nonce_isDup_spec:
  assumes "ccnl_nonce_isDup E r pkt = (dup, r1)"
  shows "r1 = r\<lparr>rl_nonces := rl_nonces r1, rl_allocs := rl_allocs r1\<rparr>"
    and "dup \<longleftrightarrow> pk_suite pkt = CCNL_SUITE_NDNTLV \<and> (\<exists>n\<in>set (rl_nonces r). pk_nonce pkt = Some n)"
    and "dup \<Longrightarrow> r1 = r"
  using assms by (cases r; auto simp: ccnl_nonce_isDup_def ccnl_nonce_find_or_append_def ccnl_calloc_def Let_def
      split: if_splits option.splits prod.splits)+

text \<open>An interest whose nonce is new and that is no request to the management reaches the tables.\<close>

definition fresh_interest :: "ccnl_relay_s \<Rightarrow> ccnl_pkt_s \<Rightarrow> bool" where
  "fresh_interest r pkt \<longleftrightarrow> pk_pfx pkt \<noteq> None \<and> \<not> mgmt_name pkt \<and> (\<forall>n\<in>set (rl_nonces r). pk_nonce pkt \<noteq> Some n)"

lemma handleInterest_fresh:
  assumes "fresh_interest r pkt" "relay_ok r"
  obtains r1 ns n where "r1 = r\<lparr>rl_nonces := ns, rl_allocs := n\<rparr>" "relay_ok r1"
    "ccnl_fwd_handleInterest (relay_env E) r from pkt =
       (case find (cs_hit (relay_env E) pkt) (rl_contents r) of
          Some c \<Rightarrow> (0, case from of None \<Rightarrow> r1
             | Some p \<Rightarrow> (case get_face p r1 of None \<Rightarrow> fault (FreedAccess p) r1
                 | Some f \<Rightarrow> if 0 \<le> fc_ifndx f then snd (ccnl_send_pkt (relay_env E) r1 p (ct_pkt c)) else r1))
        | None \<Rightarrow> pit_step (relay_env E) r1 from pkt)"
proof -
  obtain dup r1 where d: "ccnl_nonce_isDup (relay_env E) r pkt = (dup, r1)" by fastforce
  note sp = nonce_isDup_spec [OF d]
  have "\<not> dup" using assms(1) sp(2) by (auto simp: fresh_interest_def)
  moreover have "rl_contents r1 = rl_contents r" using arg_cong [OF sp(1), of rl_contents] by simp
  ultimately show ?thesis
    using assms(1) d keepsD(1) [OF nonce_isDup_keeps [OF assms(2) d]]
    by (intro that [OF sp(1)]) (auto simp: ccnl_fwd_handleInterest_def fresh_interest_def)
qed

text \<open>
  A new interest that the store cannot answer is passed on to the neighbours whose forwarding entries
  cover its name, in the order of the table and without change, but not back to the neighbour it came from
  unless that interface reflects; the relay remembers it with that neighbour waiting.
\<close>

lemma handleInterest_forwards:
  assumes "relay_ok r" "\<forall>n. re_alloc E n" "fresh_interest r pkt" "p \<in> face_ptrs r"
    and "\<forall>c\<in>set (rl_contents r). \<not> cs_hit (relay_env E) pkt c" "\<forall>i\<in>set (rl_pit r). ccnl_interest_isSame i pkt = 0"
    and "ccnl_pkt_fwdOK pkt" "rl_max_pit_entries r = -1 \<or> rl_pitcnt r < rl_max_pit_entries r"
  shows "\<exists>r' i. ccnl_fwd_handleInterest (relay_env E) r (Some p) pkt = (0, r')
    \<and> rl_sent r' = rl_sent r @ map (frame_to r (pk_buf pkt)) (next_hops r pkt (Some p))
    \<and> rl_pit r' = i # rl_pit r \<and> in_pkt i = pkt \<and> map pi_face (in_pending i) = [p] \<and> in_retries i = 0
    \<and> relay_ok r' \<and> rl_faces r' = rl_faces r \<and> rl_contents r' = rl_contents r \<and> length (rl_ifs r') = length (rl_ifs r)"
proof -
  let ?E = "relay_env E"
  have nohit: "find (cs_hit ?E pkt) (rl_contents r) = None" using assms(5) by (simp add: find_None_iff)
  obtain r1 ns n where r1: "r1 = r\<lparr>rl_nonces := ns, rl_allocs := n\<rparr>" "relay_ok r1"
    and h: "ccnl_fwd_handleInterest ?E r (Some p) pkt = pit_step ?E r1 (Some p) pkt"
    by (rule handleInterest_fresh [OF assms(3,1), of E "Some p", unfolded nohit option.case])
  have tabs: "rl_faces r1 = rl_faces r" "rl_pit r1 = rl_pit r" "rl_fib r1 = rl_fib r" "rl_sent r1 = rl_sent r" "rl_pitcnt r1 = rl_pitcnt r"
    "rl_max_pit_entries r1 = rl_max_pit_entries r"
    by (simp_all add: r1(1))
  note fr = same_faces [OF tabs(1)]
  define i0 where "i0 = \<lparr>in_ptr = n, in_pkt = pkt, in_from = Some p, in_pending = [],
      in_lifetime = ucast (ccnl_pkt_interest_lifetime pkt), in_last_used = re_now E, in_retries = 0\<rparr>"
  define i where "i = i0\<lparr>in_pending := [\<lparr>pi_face = p, pi_last_used = re_now E\<rparr>]\<rparr>"
  have known: "find (\<lambda>i. ccnl_interest_isSame i pkt \<noteq> 0) (rl_pit r1) = None" using assms(6) tabs(2) by (simp add: find_None_iff)
  have new: "ccnl_interest_new ?E r1 (Some p) pkt = (Some n, r1\<lparr>rl_allocs := Suc n, rl_pit := i0 # rl_pit r1, rl_pitcnt := rl_pitcnt r1 + 1\<rparr>)"
    using assms(2,8) tabs(5,6) r1(1) by (auto simp: ccnl_interest_new_def ccnl_calloc_def i0_def)
  define r2 where "r2 = r1\<lparr>rl_allocs := Suc (Suc n), rl_pit := i # rl_pit r1, rl_pitcnt := rl_pitcnt r1 + 1\<rparr>"
  have other: "in_ptr j \<noteq> n" if "j \<in> set (rl_pit r1)" for j
    using interest_okD [OF r1(2) that] r1(1) by (simp add: interest_ok_def)
  then have "map (\<lambda>i. if in_ptr i = n then i\<lparr>in_pending := in_pending i @ [\<lparr>pi_face = p, pi_last_used = re_now E\<rparr>]\<rparr> else i) (rl_pit r1) = rl_pit r1"
    by (auto intro!: map_idI)
  then have app: "snd (ccnl_interest_append_pending ?E (r1\<lparr>rl_allocs := Suc n, rl_pit := i0 # rl_pit r1, rl_pitcnt := rl_pitcnt r1 + 1\<rparr>) n (Some p)) = r2"
    using assms(2) by (cases r1) (simp add: ccnl_interest_append_pending_def ccnl_calloc_def upd_interest_def r2_def i_def i0_def)
  have st: "pit_step ?E r1 (Some p) pkt = (0, ccnl_interest_propagate ?E r2 i)"
    using assms(7) known new app by (simp add: pit_step_def Let_def) (simp add: r2_def i_def i0_def)
  have ok2: "relay_ok r2"
  proof -
    have "relay_ok (snd (ccnl_interest_new ?E r1 (Some p) pkt)) \<and> n \<in> in_ptr ` set (rl_pit (snd (ccnl_interest_new ?E r1 (Some p) pkt)))
        \<and> grows r1 (snd (ccnl_interest_new ?E r1 (Some p) pkt))"
      using interest_new_ok [OF r1(2) new] assms(3,4) fr(5) new by (auto simp: fresh_interest_def)
    then show ?thesis
      using append_pending_ok [of "snd (ccnl_interest_new ?E r1 (Some p) pkt)" n "Some p" ?E] assms(4) fr(5) new app
      by (auto simp: grows_def)
  qed
  have fr2: "frame_to r2 = frame_to r" "may_send r2 = may_send r" "net_ptrs r2 = net_ptrs r" "rl_fib r2 = rl_fib r" "rl_sent r2 = rl_sent r"
    using same_faces [of r2 r] tabs by (simp_all add: r2_def)
  have sd: "sends r2 (ccnl_interest_propagate ?E r2 i)" using program.propagate_sends [OF ok2] .
  have frame: "rl_faces (ccnl_interest_propagate ?E r2 i) = rl_faces r" "rl_contents (ccnl_interest_propagate ?E r2 i) = rl_contents r"
    using sends_fields(1,4) [OF sd] by (simp_all add: r2_def r1(1))
  have ifs: "length (rl_ifs (ccnl_interest_propagate ?E r2 i)) = length (rl_ifs r2)" using sd unfolding sends_def by fastforce
  have lifs: "length (rl_ifs r2) = length (rl_ifs r)" by (simp add: r2_def r1(1))
  note ok' = sends_ok [OF sd ok2]
  from sd have pit: "rl_pit (ccnl_interest_propagate ?E r2 i) = i # rl_pit r" using sends_fields(3) tabs(2) by (simp add: r2_def)
  have fib: "\<And>fwd q. \<lbrakk>fwd \<in> set (rl_fib r2); fw_face fwd = Some q\<rbrakk> \<Longrightarrow> q \<in> net_ptrs r2"
    using relay_okD(5) [OF ok2] by (auto simp: fib_ok_def)
  have "rl_sent (ccnl_interest_propagate ?E r2 i) = rl_sent r @ map (frame_to r (pk_buf pkt)) (next_hops r pkt (Some p))"
    using propagate_loop_sent [of r2 E "rl_fib r2" i] ok2 assms(2) fib fr2
    by (simp add: ccnl_interest_propagate_def next_hops_def i_def i0_def)
  with h st pit frame ifs lifs ok' show ?thesis by (auto simp: i_def i0_def)
qed


lemma interest_not_new:
  assumes "relay_ok r" "\<forall>n. re_alloc E n" "p \<in> net_ptrs r" "pk_suite pkt = CCNL_SUITE_NDNTLV"
  shows "(\<exists>n\<in>set (rl_nonces r). pk_nonce pkt = Some n) \<Longrightarrow> ccnl_fwd_handleInterest (relay_env E) r (Some p) pkt = (0, r)"
    and "\<lbrakk>fresh_interest r pkt; find (cs_hit (relay_env E) pkt) (rl_contents r) = Some c\<rbrakk> \<Longrightarrow>
      \<exists>r'. ccnl_fwd_handleInterest (relay_env E) r (Some p) pkt = (0, r')
        \<and> rl_sent r' = rl_sent r @ [frame_to r (pk_buf (ct_pkt c)) p] \<and> rl_pit r' = rl_pit r"
    and "\<lbrakk>fresh_interest r pkt; find (cs_hit (relay_env E) pkt) (rl_contents r) = None; ccnl_pkt_fwdOK pkt;
        find (\<lambda>i. ccnl_interest_isSame i pkt \<noteq> 0) (rl_pit r) = Some i\<rbrakk> \<Longrightarrow>
      \<exists>r'. ccnl_fwd_handleInterest (relay_env E) r (Some p) pkt = (0, r') \<and> rl_sent r' = rl_sent r
        \<and> (\<exists>j\<in>set (rl_pit r'). in_ptr j = in_ptr i \<and> in_pkt j = in_pkt i
            \<and> pi_face ` set (in_pending j) = insert p (pi_face ` set (in_pending i)))"
proof -
  show "ccnl_fwd_handleInterest (relay_env E) r (Some p) pkt = (0, r)" if "\<exists>n\<in>set (rl_nonces r). pk_nonce pkt = Some n"
  proof -
    obtain dup r1 where d: "ccnl_nonce_isDup (relay_env E) r pkt = (dup, r1)" by fastforce
    have "dup" "r1 = r" using nonce_isDup_spec(2,3) [OF d] that assms(4) by auto
    with d show ?thesis by (simp add: ccnl_fwd_handleInterest_def)
  qed
next
  assume f: "fresh_interest r pkt" and hit: "find (cs_hit (relay_env E) pkt) (rl_contents r) = Some c"
  obtain r1 ns n where r1: "r1 = r\<lparr>rl_nonces := ns, rl_allocs := n\<rparr>" "relay_ok r1"
    and h: "ccnl_fwd_handleInterest (relay_env E) r (Some p) pkt =
      (0, case get_face p r1 of None \<Rightarrow> fault (FreedAccess p) r1
          | Some f \<Rightarrow> if 0 \<le> fc_ifndx f then snd (ccnl_send_pkt (relay_env E) r1 p (ct_pkt c)) else r1)"
    by (rule handleInterest_fresh [OF f assms(1), of E "Some p", unfolded hit option.case])
  have tabs: "rl_faces r1 = rl_faces r" "rl_pit r1 = rl_pit r" "rl_sent r1 = rl_sent r" by (simp_all add: r1(1))
  note fr = same_faces [OF tabs(1)]
  have net: "p \<in> net_ptrs r1" using assms(3) fr(4) by simp
  obtain g where g: "get_face p r1 = Some g" using net net_face_ptrs by (blast elim: get_faceE)
  have "0 \<le> fc_ifndx g" using net_face_index [OF relay_okD(1) [OF r1(2)] net g] .
  with h g have h: "ccnl_fwd_handleInterest (relay_env E) r (Some p) pkt = (0, snd (ccnl_send_pkt (relay_env E) r1 p (ct_pkt c)))" by simp
  have s: "sends r1 (snd (ccnl_send_pkt (relay_env E) r1 p (ct_pkt c)))" by (rule sends_send_pkt [OF r1(2) net])
  show "\<exists>r'. ccnl_fwd_handleInterest (relay_env E) r (Some p) pkt = (0, r')
      \<and> rl_sent r' = rl_sent r @ [frame_to r (pk_buf (ct_pkt c)) p] \<and> rl_pit r' = rl_pit r"
    using h send_sent [OF r1(2) net, of "relay_env E" "ct_pkt c"] sends_fields(3) [OF s] tabs fr(2) assms(2) by simp
next
  assume f: "fresh_interest r pkt" and nohit: "find (cs_hit (relay_env E) pkt) (rl_contents r) = None"
    and ok: "ccnl_pkt_fwdOK pkt" and known: "find (\<lambda>i. ccnl_interest_isSame i pkt \<noteq> 0) (rl_pit r) = Some i"
  obtain r1 ns n where r1: "r1 = r\<lparr>rl_nonces := ns, rl_allocs := n\<rparr>" "relay_ok r1"
    and h: "ccnl_fwd_handleInterest (relay_env E) r (Some p) pkt = pit_step (relay_env E) r1 (Some p) pkt"
    by (rule handleInterest_fresh [OF f assms(1), of E "Some p", unfolded nohit option.case])
  have tabs: "rl_pit r1 = rl_pit r" "rl_sent r1 = rl_sent r" by (simp_all add: r1(1))
  define r2 where "r2 = snd (ccnl_interest_append_pending (relay_env E) r1 (in_ptr i) (Some p))"
  have st: "ccnl_fwd_handleInterest (relay_env E) r (Some p) pkt = (0, r2)"
    using h ok known tabs(1) by (simp add: pit_step_def Let_def r2_def)
  have i: "i \<in> set (rl_pit r1)" using known tabs(1) by (auto simp: find_Some_iff)
  have fi: "find (\<lambda>j. in_ptr j = in_ptr i) (rl_pit r1) = Some i"
  proof -
    obtain j where j: "find (\<lambda>j. in_ptr j = in_ptr i) (rl_pit r1) = Some j" "j \<in> set (rl_pit r1)" "in_ptr j = in_ptr i"
      using find_interest [of "in_ptr i" r1] i by blast
    then have "j = i" using i relay_okD(3) [OF r1(2)] by (auto simp: pit_ok_def distinct_map inj_on_def)
    with j show ?thesis by simp
  qed
  have "rl_sent r2 = rl_sent r \<and> (\<exists>j\<in>set (rl_pit r2). in_ptr j = in_ptr i \<and> in_pkt j = in_pkt i
      \<and> pi_face ` set (in_pending j) = insert p (pi_face ` set (in_pending i)))"
  proof (cases "\<exists>pi\<in>set (in_pending i). pi_face pi = p")
    case True
    let ?g = "\<lambda>i. i\<lparr>in_pending := map (\<lambda>pi. if pi_face pi = p then pi\<lparr>pi_last_used := re_now (relay_env E)\<rparr> else pi) (in_pending i)\<rparr>"
    have r2: "r2 = upd_interest (in_ptr i) ?g r1" using True fi by (simp add: r2_def ccnl_interest_append_pending_def)
    have "?g i \<in> set (rl_pit r2)" using imageI [OF i, of "\<lambda>j. if in_ptr j = in_ptr i then ?g j else j"] by (simp add: r2 upd_interest_def)
    moreover have "pi_face ` set (in_pending (?g i)) = insert p (pi_face ` set (in_pending i))"
      using image_key_map [of pi_face "\<lambda>pi. pi\<lparr>pi_last_used := re_now (relay_env E)\<rparr>" p "in_pending i"] True by auto
    ultimately show ?thesis using tabs(2) by (intro conjI bexI [of _ "?g i"]) (simp_all add: r2 upd_interest_def)
  next
    case False
    let ?h = "\<lambda>i. i\<lparr>in_pending := in_pending i @ [\<lparr>pi_face = p, pi_last_used = re_now E\<rparr>]\<rparr>"
    have r2: "r2 = upd_interest (in_ptr i) ?h (r1\<lparr>rl_allocs := Suc (rl_allocs r1)\<rparr>)"
      using False fi assms(2) by (simp add: r2_def ccnl_interest_append_pending_def ccnl_calloc_def)
    have "?h i \<in> set (rl_pit r2)" using imageI [OF i, of "\<lambda>j. if in_ptr j = in_ptr i then ?h j else j"] by (simp add: r2 upd_interest_def)
    then show ?thesis using tabs(2) by (intro conjI bexI [of _ "?h i"]) (simp_all add: r2 upd_interest_def)
  qed
  with st show "\<exists>r'. ccnl_fwd_handleInterest (relay_env E) r (Some p) pkt = (0, r') \<and> rl_sent r' = rl_sent r
        \<and> (\<exists>j\<in>set (rl_pit r'). in_ptr j = in_ptr i \<and> in_pkt j = in_pkt i
            \<and> pi_face ` set (in_pending j) = insert p (pi_face ` set (in_pending i)))" by simp
qed

end
