(* ===== verification/Ccn_Request.thy ===== *)
theory Ccn_Request
  imports Pep_Ccn Ccn_Parse
begin

section \<open>A request of a client, as the relay sees it\<close>

text \<open>
  The composition of \<open>ccn.c\<close> with the two halves of ccn-lite: the HTTP request a client sends
  becomes an interest, and the relay parses the interest back into a name.
\<close>

subsection \<open>Sizes\<close>

lemma length_enc_block: "length (enc_block (t, e)) \<le> length e + 18"
  using length_enc_tlval(2) [of t] length_enc_tlval(2) [of "of_nat (length e)"]
  by (simp add: enc_block_def enc_tl_def)

lemma length_enc_comps: "length (enc_comps cs) \<le> length (concat cs) + 18 * length cs"
proof (induction cs)
  case (Cons c cs)
  then show ?case using length_enc_block [of NDN_TLV_NameComponent c] by (simp add: enc_comps_def)
qed (simp add: enc_comps_def)

lemma length_enc_interest:
  assumes "px_chunknum p = None"
  shows "length (enc_interest p (-1) opts) \<le> length (concat (comps p)) + 18 * length (comps p) + 138"
proof -
  let ?fresh = "enc_block (NDN_TLV_MustBeFresh, [])" and ?life = "enc_nonneg (ucast (io_interestlifetime opts))"
  have "length ?fresh \<le> 18" "length (enc_block (NDN_TLV_Selectors, ?fresh)) \<le> length ?fresh + 18"
    "length (enc_block (NDN_TLV_InterestLifetime, ?life)) \<le> length ?life + 18"
    "length (enc_block (NDN_TLV_Nonce, nonce_bytes (io_nonce opts))) \<le> 22"
    "length (enc_name p) \<le> length (enc_comps (comps p)) + 18"
    using length_enc_block [of NDN_TLV_MustBeFresh "[]"] length_enc_block [of NDN_TLV_Nonce "nonce_bytes (io_nonce opts)"]
      length_enc_block assms
    by (simp_all add: nonce_bytes_def enc_name_def enc_chunk_def)
  then show ?thesis
    using length_enc_nonneg [of "ucast (io_interestlifetime opts)"] length_enc_comps [of "comps p"]
      length_enc_block [of NDN_TLV_Interest]
    unfolding enc_interest_def by (intro order_trans [OF length_enc_block]) (simp split: if_splits)
qed

subsection \<open>The request line\<close>

definition word_char :: "char \<Rightarrow> bool" where
  "word_char c \<longleftrightarrow> \<not> is_space c \<and> c \<noteq> CHR 0x00"

lemma scan_word_append:
  assumes "v \<noteq> []" "\<forall>c\<in>set v. \<not> is_space c" "\<forall>c\<in>set pre. is_space c"
  shows "scan_word (pre @ v @ CHR '' '' # r) = Some (v, CHR '' '' # r)"
proof -
  have sp: "is_space (CHR '' '')" by (simp add: is_space_def)
  have "dropWhile is_space (pre @ v @ CHR '' '' # r) = v @ CHR '' '' # r"
    using assms by (cases v) (auto simp: dropWhile_append2)
  moreover have "takeWhile (\<lambda>c. \<not> is_space c) (v @ CHR '' '' # r) = v"
    "dropWhile (\<lambda>c. \<not> is_space c) (v @ CHR '' '' # r) = CHR '' '' # r"
    using assms(2) sp by (simp_all add: takeWhile_append2 dropWhile_append2)
  ultimately show ?thesis using assms(1) by (simp add: scan_word_def Let_def)
qed

lemma parse_get:
  assumes "path \<noteq> []" "\<forall>c\<in>set path. \<not> is_space c"
  shows "parse_request (''GET '' @ path @ CHR '' '' # r) = (path, ''/ndn/test/'' @ path, 32 \<le> length path \<or> 22 \<le> length path)"
proof -
  have "strstr (''GET '' @ path @ CHR '' '' # r) ''GET'' = Some (''GET '' @ path @ CHR '' '' # r)" by simp
  moreover have "scan_word (''GET '' @ path @ CHR '' '' # r) = Some (''GET'', '' '' @ path @ CHR '' '' # r)"
    using scan_word_append [of "''GET''" "[]" "path @ CHR '' '' # r"] by (simp add: is_space_def)
  moreover have "scan_word ('' '' @ path @ CHR '' '' # r) = Some (path, CHR '' '' # r)"
    using scan_word_append [OF assms, of "'' ''" r] by (simp add: is_space_def)
  ultimately show ?thesis by (simp add: parse_request_def Let_def del: strstr.simps)
qed

lemma char_of_unat: "char_of (unat (of_char c :: u8)) = c"
proof -
  have "unat (of_nat (of_char c) :: u8) = of_char c"
    using nat_of_char_less_256 [of c] by (intro unat_of_nat8) simp
  then show ?thesis unfolding of_nat_of_char by (simp only: char_of_char)
qed

lemma chars_of_bytes: "map (\<lambda>b. char_of (unat b)) (map of_char s :: bytes) = s"
  by (simp add: comp_def char_of_unat)

lemma request_text:
  assumes "\<forall>c\<in>set path. word_char c"
  shows "\<exists>r. takeWhile (\<lambda>c. c \<noteq> CHR 0x00) (map (\<lambda>b. char_of (unat b)) (map of_char (''GET '' @ path @ CHR '' '' # rest) :: bytes))
     = ''GET '' @ path @ CHR '' '' # r"
proof -
  have "\<forall>c\<in>set (''GET '' @ path @ '' ''). c \<noteq> CHR 0x00" using assms by (auto simp: word_char_def)
  then have "takeWhile (\<lambda>c. c \<noteq> CHR 0x00) ((''GET '' @ path @ '' '') @ rest) = (''GET '' @ path @ '' '') @ takeWhile (\<lambda>c. c \<noteq> CHR 0x00) rest"
    by (intro takeWhile_append2) blast
  then show ?thesis unfolding chars_of_bytes by simp
qed

subsection \<open>From the request to the relay\<close>

definition path_of :: "string list \<Rightarrow> string" where
  "path_of cs = concat (map (\<lambda>c. CHR ''/'' # c) cs)"

text \<open>A segment of a path the URI parser takes literally.\<close>

definition segment :: "string \<Rightarrow> bool" where
  "segment c \<longleftrightarrow> c \<noteq> [] \<and> (\<forall>x\<in>set c. word_char x \<and> x \<noteq> CHR ''/'' \<and> x \<noteq> CHR ''%'')"

lemma of_char_inj: "(of_char x :: u8) = of_char y \<longleftrightarrow> x = y"
  using char_of_unat by metis

lemma uri_bytes_path: "uri_bytes (path_of cs) = concat (map (\<lambda>x. 0x2f # x) (map uri_bytes cs))"
proof -
  have "(of_char (CHR ''/'') :: u8) = 0x2f" by simp
  then show ?thesis by (induction cs) (simp_all add: path_of_def uri_bytes_def del: of_char_Char)
qed

lemma uri_components_segments:
  assumes "\<forall>c\<in>set cs. segment c" "cs \<noteq> []" "length cs + 3 < CCNL_MAX_NAME_COMP"
  shows "ccnl_URItoComponentsK (uri_bytes (''/ndn/test/'' @ path_of cs)) = map uri_bytes ([''ndn'', ''test'', ''''] @ cs)"
proof -
  let ?xs = "[''ndn'', ''test'', ''''] @ cs"
  have slash: "(0x2f :: u8) = of_char (CHR ''/'')" "(0x25 :: u8) = of_char (CHR ''%'')" by simp_all
  have ns: "\<forall>c\<in>set ?xs. CHR ''/'' \<notin> set c \<and> CHR ''%'' \<notin> set c" using assms(1) by (auto simp: segment_def)
  then have b: "\<forall>x\<in>set (map uri_bytes ?xs). 0x2f \<notin> set x \<and> 0x25 \<notin> set x"
    unfolding slash by (auto simp only: uri_bytes_def set_map of_char_inj image_iff)
  have "last cs \<noteq> []" using assms(1,2) last_in_set [of cs] by (auto simp: segment_def)
  then have l: "last (map uri_bytes ?xs) \<noteq> []" using assms(2) by (simp add: last_map uri_bytes_def)
  have "''/ndn/test/'' @ path_of cs = path_of ?xs" by (simp add: path_of_def)
  then have "ccnl_URItoComponentsK (uri_bytes (''/ndn/test/'' @ path_of cs)) = map unescape_component (map uri_bytes ?xs)"
    using URItoComponents_concat [of "map uri_bytes ?xs"] b l assms(3) by (simp add: uri_bytes_path)
  also have "\<dots> = map uri_bytes ?xs" using b by (intro map_idI unescape_plain) blast
  finally show ?thesis .
qed

lemma path_of_simps: "path_of [] = []" "path_of (c # cs) = CHR ''/'' # c @ path_of cs"
  by (simp_all add: path_of_def)

lemma length_path:
  "\<forall>c\<in>set cs. segment c \<Longrightarrow> 2 * length cs \<le> length (path_of cs) \<and> length (concat (map uri_bytes cs)) \<le> length (path_of cs)"
proof (induction cs)
  case (Cons c cs)
  then obtain x y where "c = x # y" by (auto simp: segment_def neq_Nil_conv)
  with Cons show ?case by (simp add: path_of_simps uri_bytes_def)
qed (simp add: path_of_simps)

text \<open>
  An HTTP request for a short path becomes one interest, sent on the connection's far socket
  without a fault, whose name a parser of the format reads back as \<open>ndn\<close>, \<open>test\<close>, an empty component and the
  segments of the path, with the nonce the module drew.
\<close>

abbreviation call_opts :: "ccn_call \<Rightarrow> ccnl_ndntlv_interest_opts_s" where
  "call_opts C \<equiv> \<lparr>io_nonce = cc_nonce C, io_mustbefresh = cc_mustbefresh C, io_interestlifetime = cc_interestlifetime C\<rparr>"

definition request_names :: "string list \<Rightarrow> bytes list" where
  "request_names cs = map uri_bytes ([''ndn'', ''test'', ''''] @ cs)"

lemma ccn_request_sent:
  assumes "recv MAX_BUF_SIZE = (rc, map of_char (''GET '' @ path_of cs @ CHR '' '' # rest))"
    and "0 < rc" "rc < int MAX_BUF_SIZE" "kzalloc E A_buffer"
    and "cs \<noteq> []" "\<forall>c\<in>set cs. segment c" "length (path_of cs) < 22"
    and "\<forall>s. cc_mem C s" "cc_nonce C \<noteq> 0" "\<forall>buf. 0 < sent buf" "slack \<noteq> []" "\<forall>s. al s"
  shows "\<exists>buf q.
      pepdna_fwd_request E recv C sent from dest w
        = (sent buf, (log_event (Ev_sent dest buf) w)\<lparr>g_request_done := True\<rparr>)
    \<and> ndntlv_datagram al (buf @ slack) (of_nat (length buf)) = Parsed (interest_of q (call_opts C) buf)
    \<and> comps q = request_names cs \<and> px_suite q = CCNL_SUITE_NDNTLV \<and> (\<exists>b. buf = 5 # b)"
proof -
  let ?url = "''/ndn/test/'' @ path_of cs" and ?names = "map uri_bytes ([''ndn'', ''test'', ''''] @ cs)"
  let ?o = "call_opts C"
  have chars: "\<forall>c\<in>set (path_of cs). word_char c"
    using assms(6) by (auto simp: path_of_def segment_def word_char_def is_space_def)
  have ne: "path_of cs \<noteq> []" using assms(5) by (cases cs) (simp_all add: path_of_def)
  obtain r where req: "takeWhile (\<lambda>c. c \<noteq> CHR 0x00) (map (\<lambda>b. char_of (unat b))
      (map of_char (''GET '' @ path_of cs @ CHR '' '' # rest) :: bytes)) = ''GET '' @ path_of cs @ CHR '' '' # r"
    using request_text [OF chars] by blast
  have parse: "parse_request (''GET '' @ path_of cs @ CHR '' '' # r) = (path_of cs, ?url, False)"
    using parse_get [OF ne] chars assms(7) by (simp add: word_char_def)
  have few: "length cs \<le> 10" using length_path [OF assms(6)] assms(7) by linarith
  obtain p where p: "ccnl_URItoPrefixK (cc_mem C) (uri_bytes ?url) CCNL_SUITE_NDNTLV None = Some p"
    using assms(8) by (simp add: ccnl_URItoPrefixK_def ccnl_prefix_new_def Let_def)
  have comps: "comps p = ?names" "px_suite p = CCNL_SUITE_NDNTLV" "px_chunknum p = None"
    using own_URItoPrefixK [OF p] uri_components_segments [OF assms(6,5)] few
    by (simp_all add: CCNL_MAX_NAME_COMP_def uri_bytes_def)
  have "length (concat (comps p)) + 18 * length (comps p) + 138 \<le> CCNL_MAX_PACKET_SIZE"
    using length_path [OF assms(6)] assms(7) few by (simp add: comps CCNL_MAX_PACKET_SIZE_def uri_bytes_def)
  then have size: "length (enc_interest p (-1) ?o) \<le> CCNL_MAX_PACKET_SIZE"
    by (rule order_trans [OF length_enc_interest [OF comps(3)]])
  then have mk: "ccnl_mkSimpleInterestK (cc_mem C) (cc_random C) p (Some ?o) = (Some (enc_interest p (-1) ?o), False)"
    using mkSimpleInterestK_eq [OF comps(2), of ?o "cc_mem C"] assms(8,9) by simp
  have fwd: "pepdna_fwd_request E recv C sent from dest w
      = (sent (enc_interest p (-1) ?o), (log_event (Ev_sent dest (enc_interest p (-1) ?o)) w)\<lparr>g_request_done := True\<rparr>)"
    unfolding pepdna_fwd_request_def assms(1) Let_def prod.case req parse pepdna_send_to_ccn_relay_def p option.case mk
    using assms(2,3,4,10) by simp
  have plain: "\<forall>c\<in>set (comps p). plain_comp c"
  proof
    fix c assume c: "c \<in> set (comps p)"
    have zero: "(0 :: u8) = of_char (CHR 0x00)" by simp
    obtain x where x: "c = uri_bytes x" "x \<in> set ([''ndn'', ''test'', ''''] @ cs)" using c unfolding comps(1) by auto
    have "\<forall>y\<in>set x. y \<noteq> CHR 0x00" if "x \<in> set cs" using assms(6) that by (auto simp: segment_def word_char_def)
    moreover have "x = ''ndn'' \<or> x = ''test'' \<or> x = '''' \<or> x \<in> set cs" using x(2) by simp
    ultimately have "\<forall>y\<in>set x. y \<noteq> CHR 0x00" by (elim disjE) simp_all
    then show "plain_comp c" unfolding plain_comp_def NDN_Marker_SegmentNumber_def zero x(1) uri_bytes_def
      by (cases x) (simp_all only: list.simps list.sel of_char_inj, simp_all)
  qed
  have cnt: "length (comps p) + length (chunk_comp (px_chunknum p)) \<le> CCNL_MAX_NAME_COMP"
    using few by (simp add: comps chunk_comp_def CCNL_MAX_NAME_COMP_def)
  obtain q where q: "ndntlv_datagram al (enc_interest p (-1) ?o @ slack) (of_nat (length (enc_interest p (-1) ?o)))
      = Parsed (interest_of q ?o (enc_interest p (-1) ?o))" "comps q = comps p @ chunk_comp (px_chunknum p)" "px_suite q = CCNL_SUITE_NDNTLV"
    using interest_parsed [OF plain cnt _ assms(12,11), of ?o] size by (auto simp: CCNL_MAX_PACKET_SIZE_def)
  have "comps q = request_names cs"
    using q(2) by (simp only: comps chunk_comp_def option.case append_Nil2 request_names_def)
  moreover have "\<exists>b. enc_interest p (-1) ?o = 5 # b"
    by (simp add: enc_interest_def enc_block_def enc_tl_def enc_tlval_def NDN_TLV_Interest_def)
  ultimately show ?thesis
    using fwd q(1,3) by blast
qed

definition ex_call :: ccn_call where
  "ex_call = \<lparr>cc_mem = \<lambda>_. True, cc_nonce = 0x01020304, cc_random = 5, cc_mustbefresh = 0, cc_interestlifetime = 0\<rparr>"

end
