(* ===== verification/Ccn_Service.thy ===== *)
theory Ccn_Service
  imports Ccn_Delivery Ccn_Request
begin

section \<open>Datagrams, from the module to the neighbours of the relay\<close>

text \<open>
  The theorems on the handlers carried to whole datagrams: the parser, the dispatcher and the
  handlers together. The module's requests are followed through the relay.
\<close>

subsection \<open>One packet per datagram\<close>

lemma switch_loop_stop: "data = [] \<or> hd data \<noteq> 0x80 \<Longrightarrow> switch_loop suite data len = (suite, data, len)"
proof -
  assume "data = [] \<or> hd data \<noteq> 0x80"
  then have "ccnl_switch_dehead data len = None" by (cases "(data, len)" rule: ccnl_switch_dehead.cases) auto
  then show ?thesis by (subst switch_loop.simps) simp
qed

lemma datagram_parsed:
  assumes "ndntlv_datagram al data datalen = Parsed pkt"
  obtains t len d n p d' where "ccnl_ndntlv_dehead data datalen = Parsed (Some (t, len), d, n)" "\<not> n < len"
    "ccnl_ndntlv_bytes2pkt al t data d n = Parsed (p, d', 0)" "pkt = p\<lparr>pk_type := t\<rparr>" "t = NDN_TLV_Interest \<or> t = NDN_TLV_Data"
proof -
  obtain t len d n where h: "ccnl_ndntlv_dehead data datalen = Parsed (Some (t, len), d, n)"
    using assms by (auto simp: ndntlv_datagram_def elim!: if_parsed.elims split: option.splits)
  with assms obtain p d' n' where p: "ccnl_ndntlv_bytes2pkt al t data d n = Parsed (p, d', n')" "pkt = p\<lparr>pk_type := t\<rparr>" "\<not> n < len"
    by (auto simp: ndntlv_datagram_def elim!: if_parsed.elims split: if_splits)
  moreover from p(1) have "n' = 0" "t = NDN_TLV_Interest \<or> t = NDN_TLV_Data"
    by (auto simp: ccnl_ndntlv_bytes2pkt_def split: if_splits dest!: packet_loop_exhausts elim!: if_parsed.elims)
  ultimately show ?thesis using h that by blast
qed

lemma forwarder_parsed:
  assumes "ndntlv_datagram (re_mem E) data datalen = Parsed pkt"
  obtains data' where "ccnl_ndntlv_forwarder E r from data datalen =
      (if pk_type pkt = NDN_TLV_Interest
       then (case ccnl_fwd_handleInterest E r from pkt of (rc, r') \<Rightarrow> Some (if rc \<noteq> 0 then -1 else 0, data', 0, r'))
       else (case ccnl_fwd_handleContent E r from pkt of None \<Rightarrow> None
             | Some (rc, r') \<Rightarrow> Some (if rc \<noteq> 0 then -1 else 0, data', 0, r')))"
  using assms
proof (rule datagram_parsed)
  fix t len d n p d'
  assume "ccnl_ndntlv_dehead data datalen = Parsed (Some (t, len), d, n)" "\<not> n < len"
    "ccnl_ndntlv_bytes2pkt (re_mem E) t data d n = Parsed (p, d', 0)" "pkt = p\<lparr>pk_type := t\<rparr>" "t = NDN_TLV_Interest \<or> t = NDN_TLV_Data"
  then show ?thesis
    by (intro that [of d'])
      (auto simp: ccnl_ndntlv_forwarder_def Let_def NDN_TLV_Interest_def NDN_TLV_Data_def split: prod.splits option.splits)
qed

lemma first_byte:
  assumes "ndntlv_datagram al data datalen = Parsed pkt"
  shows "datalen \<noteq> 0" "data \<noteq> []"
  using assms by (cases data; auto simp: ndntlv_datagram_def ccnl_ndntlv_dehead_def ccnl_ndntlv_varlenint_def)+

text \<open>
  A datagram from a known neighbour that the parser accepts is handled as the packet it holds, and only
  as that packet.
\<close>

definition received :: "ccnl_relay_s \<Rightarrow> nat \<Rightarrow> nat \<Rightarrow> u32 \<Rightarrow> ccnl_relay_s" where
  "received r n p now = upd_face p (\<lambda>f. f\<lparr>fc_last_used := now\<rparr>) (upd_if n (\<lambda>c. c\<lparr>if_rx_cnt := if_rx_cnt c + 1\<rparr>) r)"

definition handle :: "renv \<Rightarrow> ccnl_relay_s \<Rightarrow> nat \<Rightarrow> ccnl_pkt_s \<Rightarrow> ccnl_relay_s option" where
  "handle E r p pkt = (if pk_type pkt = NDN_TLV_Interest then Some (snd (ccnl_fwd_handleInterest E r (Some p) pkt))
     else map_option snd (ccnl_fwd_handleContent E r (Some p) pkt))"

lemma core_RX_parsed:
  assumes "ndntlv_datagram (re_mem E) data datalen = Parsed pkt" "hd data = 5 \<or> hd data = 6"
    and "n < length (rl_ifs r)" "find_face (int n) (Some sa) (rl_faces r) = Some f"
  shows "ccnl_core_RX E r (int n) data datalen (Some sa) = handle E (received r n (fc_ptr f) (re_now E)) (fc_ptr f) pkt"
proof -
  let ?r = "received r n (fc_ptr f) (re_now E)"
  note fb = first_byte [OF assms(1)]
  obtain b d where data: "data = b # d" "b = 5 \<or> b = 6" using fb assms(2) by (cases data) auto
  have sw: "switch_loop s data datalen = (s, data, datalen)" for s using data by (intro switch_loop_stop) auto
  have su: "ccnl_pkt2suite data datalen = Some CCNL_SUITE_NDNTLV"
    using fb sw data by (auto simp: ccnl_pkt2suite_def NDN_TLV_Interest_def NDN_TLV_Data_def)
  obtain d' where "ccnl_ndntlv_forwarder E ?r (Some (fc_ptr f)) data datalen =
      (if pk_type pkt = NDN_TLV_Interest
       then (case ccnl_fwd_handleInterest E ?r (Some (fc_ptr f)) pkt of (rc, r') \<Rightarrow> Some (if rc \<noteq> 0 then -1 else 0, d', 0, r'))
       else (case ccnl_fwd_handleContent E ?r (Some (fc_ptr f)) pkt of None \<Rightarrow> None
             | Some (rc, r') \<Rightarrow> Some (if rc \<noteq> 0 then -1 else 0, d', 0, r')))"
    using forwarder_parsed [OF assms(1)] .
  moreover have "rx_loop E p s x 0 q = Some q" for p s x q by (subst rx_loop.simps) simp
  ultimately have "rx_loop E (fc_ptr f) (-1) data datalen ?r = handle E ?r (fc_ptr f) pkt"
    using fb(1) sw su by (subst rx_loop.simps) (auto simp: handle_def ccnl_isSuite_def split: prod.splits option.splits)
  then show ?thesis
    using assms(3,4) by (simp add: ccnl_core_RX_def ccnl_get_face_or_create_def received_def upd_if_def)
qed

text \<open>Receiving by itself changes only a counter and the time the neighbour was last heard.\<close>

lemma received_same:
  fixes r n p t
  assumes "relay_ok r" "n < length (rl_ifs r)"
  defines "r' \<equiv> received r n p t"
  shows "relay_ok r'" "frame_to r' = frame_to r" "may_send r' = may_send r" "net_ptrs r' = net_ptrs r" "face_ptrs r' = face_ptrs r"
    "rl_pit r' = rl_pit r" "rl_contents r' = rl_contents r" "rl_nonces r' = rl_nonces r" "rl_fib r' = rl_fib r" "rl_sent r' = rl_sent r"
    "rl_pitcnt r' = rl_pitcnt r" "rl_max_pit_entries r' = rl_max_pit_entries r" "rl_faults r' = rl_faults r"
proof -
  let ?g = "\<lambda>f. if fc_ptr f = p then f\<lparr>fc_last_used := t\<rparr> else f"
  define r1 where "r1 = upd_if n (\<lambda>c. c\<lparr>if_rx_cnt := if_rx_cnt c + 1\<rparr>) r"
  have r': "r' = r1\<lparr>rl_faces := map ?g (rl_faces r1)\<rparr>" by (simp add: r'_def received_def r1_def upd_face_def)
  have f1: "rl_faces r1 = rl_faces r" by (simp add: r1_def upd_if_def)
  have faces: "rl_faces r' = map ?g (rl_faces r)" by (simp add: r' f1)
  have "relay_ok r1"
    using assms(1,2) by (auto simp: r1_def intro!: keepsD(1) [OF set_ifs_keeps])
  then show "relay_ok r'" using upd_faces_ok(1) [of r1 ?g] by (simp add: r')
  have gf: "get_face q r' = map_option ?g (get_face q r)" for q
  proof -
    have "find (\<lambda>f. fc_ptr f = q) (map ?g fs) = map_option ?g (find (\<lambda>f. fc_ptr f = q) fs)" for fs by (induction fs) auto
    then show ?thesis by (simp add: get_face_def faces)
  qed
  show "frame_to r' = frame_to r" "may_send r' = may_send r"
    by (auto simp: frame_to_def may_send_def gf fun_eq_iff split: option.splits)
  have "map fc_ptr (map ?g fs) = map fc_ptr fs" for fs by simp
  from arg_cong [OF this, of set "rl_faces r"] show "face_ptrs r' = face_ptrs r" by (simp only: face_ptrs_def faces set_map)
  have "map fc_ptr (filter (\<lambda>f. 0 \<le> fc_ifndx f) (map ?g fs)) = map fc_ptr (filter (\<lambda>f. 0 \<le> fc_ifndx f) fs)" for fs
    by (induction fs) auto
  from arg_cong [OF this, of set "rl_faces r"] show "net_ptrs r' = net_ptrs r" by (simp add: net_ptrs_def faces)
qed (simp_all add: r'_def received_def upd_face_def upd_if_def)

lemma find_face_in: "find_face ifndx sa fs = Some f \<Longrightarrow> f \<in> set fs \<and> (sa \<noteq> None \<longrightarrow> fc_ifndx f = ifndx)"
  by (induction ifndx sa fs rule: find_face.induct) (auto split: if_splits)

text \<open>
  \<open>heard E r n sa data len f pkt\<close>: a datagram arrives at interface \<open>n\<close> from the address of the neighbour
  \<open>f\<close>, and the parser finds the packet \<open>pkt\<close> in it.
\<close>

definition heard :: "renv \<Rightarrow> ccnl_relay_s \<Rightarrow> nat \<Rightarrow> sockunion \<Rightarrow> bytes \<Rightarrow> u64 \<Rightarrow> ccnl_face_s \<Rightarrow> ccnl_pkt_s \<Rightarrow> bool" where
  "heard E r n sa data len f pkt \<longleftrightarrow> n < length (rl_ifs r) \<and> find_face (int n) (Some sa) (rl_faces r) = Some f
     \<and> (hd data = 5 \<or> hd data = 6) \<and> ndntlv_datagram (re_mem E) data len = Parsed pkt"

lemma heardD:
  assumes "heard E r n sa data len f pkt"
  shows "n < length (rl_ifs r)" "f \<in> set (rl_faces r)" "fc_ptr f \<in> net_ptrs r"
    "ccnl_core_RX (relay_env E) r (int n) data len (Some sa) = handle (relay_env E) (received r n (fc_ptr f) (re_now E)) (fc_ptr f) pkt"
  using assms find_face_in [of "int n" "Some sa" "rl_faces r" f] core_RX_parsed [of "relay_env E" data len pkt n r sa f]
  by (auto simp: heard_def net_ptrs_def)

lemma RX_handlers:
  assumes "heard E r n sa data len f pkt"
  shows "\<lbrakk>pk_type pkt = NDN_TLV_Interest;
      ccnl_fwd_handleInterest (relay_env E) (received r n (fc_ptr f) (re_now E)) (Some (fc_ptr f)) pkt = (rc, r')\<rbrakk>
    \<Longrightarrow> ccnl_core_RX (relay_env E) r (int n) data len (Some sa) = Some r'"
    and "\<lbrakk>pk_type pkt = NDN_TLV_Data;
      ccnl_fwd_handleContent (relay_env E) (received r n (fc_ptr f) (re_now E)) (Some (fc_ptr f)) pkt = Some (rc, r')\<rbrakk>
    \<Longrightarrow> ccnl_core_RX (relay_env E) r (int n) data len (Some sa) = Some r'"
  using heardD(4) [OF assms] by (simp_all add: handle_def NDN_TLV_Interest_def NDN_TLV_Data_def)

text \<open>
  C14. Data that arrives and is not in the store goes to the neighbours that wait for it, to each exactly once
  whatever the number of its interests that match, and to nobody else, as the very packet that was received.
  The interests it answers are taken from the table, the others stay. Data nobody waits for is neither sent
  nor stored.
\<close>

theorem data_reaches_waiting:
  assumes "relay_ok r" "\<forall>n. re_alloc E n" "heard E r n sa data len f pkt" "pk_type pkt = NDN_TLV_Data"
    and "pk_pfx pkt \<noteq> None" "\<forall>c\<in>set (rl_contents r). \<not> same_name (ct_pkt c) pkt"
  shows "\<exists>r' ps. ccnl_core_RX (relay_env E) r (int n) data len (Some sa) = Some r'
    \<and> distinct ps
    \<and> set ps = {p \<in> net_ptrs r. \<exists>i\<in>set (rl_pit r). answers E pkt (in_pkt i) \<and> p \<in> pi_face ` set (in_pending i)}
    \<and> rl_sent r' = rl_sent r @ map (frame_to r (pk_buf pkt)) ps
    \<and> rl_pit r' = filter (\<lambda>i. \<not> answers E pkt (in_pkt i)) (rl_pit r)
    \<and> ((\<forall>i\<in>set (rl_pit r). \<not> answers E pkt (in_pkt i)) \<longrightarrow> rl_contents r' = rl_contents r)"
proof -
  note same = received_same [OF assms(1) heardD(1) [OF assms(3)], of "fc_ptr f" "re_now E"]
  show ?thesis
    using handleContent_delivers [OF same(1) assms(2,5), of "Some (fc_ptr f)", unfolded same, OF assms(6)]
    by (elim exE conjE) (intro exI conjI, erule RX_handlers(2) [OF assms(3,4)], assumption+)
qed

lemma forwarded_frame:
  assumes "relay_ok r" "\<forall>n. re_alloc E n" "heard E r n sa data len f pkt" "pk_type pkt = NDN_TLV_Interest" "fresh_interest r pkt"
    and "\<forall>c\<in>set (rl_contents r). \<not> cs_hit (relay_env E) pkt c" "\<forall>i\<in>set (rl_pit r). ccnl_interest_isSame i pkt = 0"
    and "ccnl_pkt_fwdOK pkt" "rl_max_pit_entries r = -1 \<or> rl_pitcnt r < rl_max_pit_entries r"
  obtains r' i where "ccnl_core_RX (relay_env E) r (int n) data len (Some sa) = Some r'"
    "rl_sent r' = rl_sent r @ map (frame_to r (pk_buf pkt)) (next_hops r pkt (Some (fc_ptr f)))"
    "rl_pit r' = i # rl_pit r" "in_pkt i = pkt" "map pi_face (in_pending i) = [fc_ptr f]" "in_retries i = 0"
    "relay_ok r'" "rl_faces r' = rl_faces (received r n (fc_ptr f) (re_now E))" "rl_contents r' = rl_contents r"
    "length (rl_ifs r') = length (rl_ifs r)"
proof -
  note same = received_same [OF assms(1) heardD(1) [OF assms(3)], of "fc_ptr f" "re_now E"]
  let ?r = "received r n (fc_ptr f) (re_now E)"
  have len: "length (rl_ifs ?r) = length (rl_ifs r)" by (simp add: received_def upd_face_def upd_if_def)
  have fresh: "fresh_interest ?r pkt = fresh_interest r pkt" "next_hops ?r = next_hops r"
    by (simp_all add: fresh_interest_def next_hops_def same fun_eq_iff)
  have "fc_ptr f \<in> face_ptrs r" using heardD(2) [OF assms(3)] by (simp add: face_ptrs_def)
  from handleInterest_forwards [OF same(1) assms(2), of pkt "fc_ptr f", unfolded same fresh len, OF assms(5) this assms(6-9)]
  show ?thesis by (elim exE conjE) (rule that [OF RX_handlers(1) [OF assms(3,4)]])
qed

text \<open>
  C27. An interest that is not new is not passed on: with a nonce already seen it changes nothing but the
  counter of the interface and the time its sender was heard; when the store has an answer, exactly that stored packet is returned to the
  neighbour that asked; when the same interest is already pending, the neighbour joins those that wait and
  nothing is sent.
\<close>

theorem interest_not_forwarded:
  assumes "relay_ok r" "\<forall>n. re_alloc E n" "heard E r n sa data len f pkt" "pk_type pkt = NDN_TLV_Interest" "pk_suite pkt = CCNL_SUITE_NDNTLV"
  shows "((\<exists>n\<in>set (rl_nonces r). pk_nonce pkt = Some n) \<longrightarrow>
        ccnl_core_RX (relay_env E) r (int n) data len (Some sa) = Some (received r n (fc_ptr f) (re_now E)))
    \<and> (fresh_interest r pkt \<and> find (cs_hit (relay_env E) pkt) (rl_contents r) = Some c \<longrightarrow>
        (\<exists>r'. ccnl_core_RX (relay_env E) r (int n) data len (Some sa) = Some r'
          \<and> rl_sent r' = rl_sent r @ [frame_to r (pk_buf (ct_pkt c)) (fc_ptr f)] \<and> rl_pit r' = rl_pit r))
    \<and> (fresh_interest r pkt \<and> find (cs_hit (relay_env E) pkt) (rl_contents r) = None \<and> ccnl_pkt_fwdOK pkt
        \<and> find (\<lambda>i. ccnl_interest_isSame i pkt \<noteq> 0) (rl_pit r) = Some i \<longrightarrow>
        (\<exists>r'. ccnl_core_RX (relay_env E) r (int n) data len (Some sa) = Some r' \<and> rl_sent r' = rl_sent r
          \<and> (\<exists>j\<in>set (rl_pit r'). in_ptr j = in_ptr i \<and> in_pkt j = in_pkt i
              \<and> pi_face ` set (in_pending j) = insert (fc_ptr f) (pi_face ` set (in_pending i)))))"
proof -
  note h = heardD [OF assms(3)] and same = received_same [OF assms(1) heardD(1) [OF assms(3)], of "fc_ptr f" "re_now E"]
  have net: "fc_ptr f \<in> net_ptrs (received r n (fc_ptr f) (re_now E))" using h(3) same(4) by simp
  note nn = interest_not_new [OF same(1) assms(2) net assms(5)]
  note rx = RX_handlers(1) [OF assms(3,4)]
  have fresh: "fresh_interest (received r n (fc_ptr f) (re_now E)) pkt = fresh_interest r pkt" by (simp add: fresh_interest_def same)
  show ?thesis
  proof (intro conjI impI; (elim conjE)?)
    assume "\<exists>n\<in>set (rl_nonces r). pk_nonce pkt = Some n"
    then show "ccnl_core_RX (relay_env E) r (int n) data len (Some sa) = Some (received r n (fc_ptr f) (re_now E))"
      using rx nn(1) [unfolded same] by blast
  next
    assume "fresh_interest r pkt" "find (cs_hit (relay_env E) pkt) (rl_contents r) = Some c"
    then show "\<exists>r'. ccnl_core_RX (relay_env E) r (int n) data len (Some sa) = Some r'
        \<and> rl_sent r' = rl_sent r @ [frame_to r (pk_buf (ct_pkt c)) (fc_ptr f)] \<and> rl_pit r' = rl_pit r"
      using rx nn(2) [of c, unfolded same fresh] by blast
  next
    assume "fresh_interest r pkt" "find (cs_hit (relay_env E) pkt) (rl_contents r) = None" "ccnl_pkt_fwdOK pkt"
      "find (\<lambda>i. ccnl_interest_isSame i pkt \<noteq> 0) (rl_pit r) = Some i"
    from nn(3) [of i, unfolded same fresh, OF this] show "\<exists>r'. ccnl_core_RX (relay_env E) r (int n) data len (Some sa) = Some r'
        \<and> rl_sent r' = rl_sent r \<and> (\<exists>j\<in>set (rl_pit r'). in_ptr j = in_ptr i \<and> in_pkt j = in_pkt i
          \<and> pi_face ` set (in_pending j) = insert (fc_ptr f) (pi_face ` set (in_pending i)))"
      by (elim exE conjE) (intro exI conjI, erule rx, assumption+)
  qed
qed


lemma find_face_received:
  "find_face k sa (map (\<lambda>f. if fc_ptr f = p then f\<lparr>fc_last_used := t\<rparr> else f) fs)
    = map_option (\<lambda>f. if fc_ptr f = p then f\<lparr>fc_last_used := t\<rparr> else f) (find_face k sa fs)"
  by (induction k sa fs rule: find_face.induct) auto

text \<open>
  C6. A request and its answer: a new interest goes, unchanged, to the neighbours whose forwarding entries cover
  its name, but not back to its sender unless that neighbour reflects; the data that answers it goes to the
  neighbour that asked, and only there. Afterwards the pending interests are what they were before.
\<close>

theorem exchange_completes:
  assumes "relay_ok r" "\<forall>n. re_alloc E n" "heard E r n sa data len f pkt" "pk_type pkt = NDN_TLV_Interest" "fresh_interest r pkt"
    and "\<forall>c\<in>set (rl_contents r). \<not> cs_hit (relay_env E) pkt c" "\<forall>i\<in>set (rl_pit r). ccnl_interest_isSame i pkt = 0"
    and "ccnl_pkt_fwdOK pkt" "rl_max_pit_entries r = -1 \<or> rl_pitcnt r < rl_max_pit_entries r"
    and "heard E r m sb data2 len2 g d" "pk_type d = NDN_TLV_Data" "pk_pfx d \<noteq> None"
    and "\<forall>c\<in>set (rl_contents r). \<not> same_name (ct_pkt c) d"
    and "answers E d pkt" "\<forall>i\<in>set (rl_pit r). \<not> answers E d (in_pkt i)"
  shows "\<exists>r1 r2. ccnl_core_RX (relay_env E) r (int n) data len (Some sa) = Some r1
    \<and> ccnl_core_RX (relay_env E) r1 (int m) data2 len2 (Some sb) = Some r2
    \<and> rl_sent r2 = rl_sent r @ map (frame_to r (pk_buf pkt)) (next_hops r pkt (Some (fc_ptr f))) @ [frame_to r (pk_buf d) (fc_ptr f)]
    \<and> rl_pit r2 = rl_pit r"
proof -
  obtain r1 i where r1: "ccnl_core_RX (relay_env E) r (int n) data len (Some sa) = Some r1"
    "rl_sent r1 = rl_sent r @ map (frame_to r (pk_buf pkt)) (next_hops r pkt (Some (fc_ptr f)))"
    "rl_pit r1 = i # rl_pit r" "in_pkt i = pkt" "map pi_face (in_pending i) = [fc_ptr f]"
    "relay_ok r1" "rl_faces r1 = rl_faces (received r n (fc_ptr f) (re_now E))" "rl_contents r1 = rl_contents r"
    "length (rl_ifs r1) = length (rl_ifs r)"
    by (rule forwarded_frame [OF assms(1-9)])
  note same = received_same [OF assms(1) heardD(1) [OF assms(3)], of "fc_ptr f" "re_now E"]
  note fr = same_faces [OF r1(7), unfolded same]
  define g' where "g' = (if fc_ptr g = fc_ptr f then g\<lparr>fc_last_used := re_now E\<rparr> else g)"
  have "heard E r1 m sb data2 len2 g' d"
    using assms(10) r1(7,9) by (auto simp: heard_def received_def upd_face_def upd_if_def find_face_received g'_def)
  note hd = this and same1 = received_same [OF r1(6) heardD(1) [OF this], of "fc_ptr g'" "re_now E"]
  obtain r2 ps where r2: "ccnl_core_RX (relay_env E) r1 (int m) data2 len2 (Some sb) = Some r2" "distinct ps"
    "set ps = {p \<in> net_ptrs r. \<exists>j\<in>set (i # rl_pit r). answers E d (in_pkt j) \<and> p \<in> pi_face ` set (in_pending j)}"
    "rl_sent r2 = rl_sent r1 @ map (frame_to r (pk_buf d)) ps" "rl_pit r2 = filter (\<lambda>j. \<not> answers E d (in_pkt j)) (i # rl_pit r)"
    using handleContent_delivers [OF same1(1) assms(2,12), of "Some (fc_ptr g')", unfolded same1 fr r1(3,8), OF assms(13)]
      RX_handlers(2) [OF hd assms(11)] by metis
  have "pi_face ` set (in_pending i) = {fc_ptr f}"
    using arg_cong [OF r1(5), of set] by simp
  then have "set ps = {fc_ptr f}" using r2(3) assms(14,15) r1(4) heardD(3) [OF assms(3)] by auto
  then have "ps = [fc_ptr f]" using r2(2) by (cases ps) (auto simp: subset_singleton_iff)
  moreover have "rl_pit r2 = rl_pit r" using r2(5) assms(14,15) r1(4) by simp
  ultimately show ?thesis using r1(1,2) r2(1,4) by auto
qed

text \<open>
  C13. From the client to the network, for an HTTP request whose path is shorter than 22 bytes (the
  buffers of the module hold 32 bytes with the prefix of the name; a longer path is written past their
  end) and has no empty segment: the interest the module sends, with memory and a device that takes it, is accepted by the relay as an interest for the name \<open>ndn\<close>, \<open>test\<close>, an empty component and the segments of the path. A
  relay that has neither content nor a pending interest for that name, does not know the nonce and has room for a pending interest sends the module's packet, unchanged, to
  the neighbours whose forwarding entries cover the name, and waits for data on behalf of the module.
\<close>

theorem http_request_forwarded:
  assumes "recv MAX_BUF_SIZE = (rc, map of_char (''GET '' @ path_of cs @ CHR '' '' # rest))"
    and "0 < rc" "rc < int MAX_BUF_SIZE" "kzalloc K A_buffer"
    and "cs \<noteq> []" "\<forall>c\<in>set cs. segment c" "length (path_of cs) < 22"
    and "\<forall>s. cc_mem C s" "cc_nonce C \<noteq> 0" "\<forall>buf. 0 < sent buf" "slack \<noteq> []"
    and "relay_ok r" "\<forall>n. re_alloc E n" "\<forall>s. re_mem E s" "n < length (rl_ifs r)" "find_face (int n) (Some sa) (rl_faces r) = Some f"
    and "\<forall>pkt q. pk_pfx pkt = Some q \<and> comps q = request_names cs \<longrightarrow>
      (\<forall>c\<in>set (rl_contents r). \<not> cs_hit (relay_env E) pkt c) \<and> (\<forall>i\<in>set (rl_pit r). ccnl_interest_isSame i pkt = 0)"
    and "nonce_bytes (cc_nonce C) \<notin> set (rl_nonces r)" "rl_max_pit_entries r = -1 \<or> rl_pitcnt r < rl_max_pit_entries r"
  shows "\<exists>buf q r' i.
      pepdna_fwd_request K recv C sent src dest w = (sent buf, (log_event (Ev_sent dest buf) w)\<lparr>g_request_done := True\<rparr>)
    \<and> ccnl_core_RX (relay_env E) r (int n) (buf @ slack) (of_nat (length buf)) (Some sa) = Some r'
    \<and> rl_sent r' = rl_sent r @ map (frame_to r buf) (next_hops r (in_pkt i) (Some (fc_ptr f)))
    \<and> rl_pit r' = i # rl_pit r \<and> map pi_face (in_pending i) = [fc_ptr f]
    \<and> pk_pfx (in_pkt i) = Some q \<and> px_suite q = CCNL_SUITE_NDNTLV \<and> comps q = request_names cs"
proof -
  obtain buf q where sent: "pepdna_fwd_request K recv C sent src dest w = (sent buf, (log_event (Ev_sent dest buf) w)\<lparr>g_request_done := True\<rparr>)"
    and parsed: "ndntlv_datagram (re_mem E) (buf @ slack) (of_nat (length buf)) = Parsed (interest_of q (call_opts C) buf)"
    and q: "comps q = request_names cs" "px_suite q = CCNL_SUITE_NDNTLV" "\<exists>b. buf = 5 # b"
    using ccn_request_sent [where al = "re_mem E" and recv = recv and sent = sent, OF assms(1-11,14)] by blast
  let ?pkt = "interest_of q (call_opts C) buf"
  have pkt: "pk_pfx ?pkt = Some q" "name_of ?pkt = q" "pk_type ?pkt = NDN_TLV_Interest" "pk_buf ?pkt = buf" "ccnl_pkt_fwdOK ?pkt"
    "pk_nonce ?pkt = Some (nonce_bytes (cc_nonce C))"
    by (simp_all add: interest_of_def zero_pkt_def name_of_def ccnl_pkt_fwdOK_def)
  have "\<not> mgmt_name ?pkt"
  proof -
    have "px_comp q ! 0 = comps q ! 0" if "px_compcnt q = 4" using that by (simp add: comps_def)
    then show ?thesis using q(1) pkt(2) by (auto simp: mgmt_name_def request_names_def uri_bytes_def)
  qed
  then have fresh: "fresh_interest r ?pkt" using assms(18) pkt by (auto simp: fresh_interest_def)
  have heard: "heard E r n sa (buf @ slack) (of_nat (length buf)) f ?pkt" using assms(15,16) parsed q(3) by (auto simp: heard_def)
  have tables: "\<forall>c\<in>set (rl_contents r). \<not> cs_hit (relay_env E) ?pkt c" "\<forall>i\<in>set (rl_pit r). ccnl_interest_isSame i ?pkt = 0"
    using assms(17) pkt(1) q(1) by blast+
  obtain r' i where r': "ccnl_core_RX (relay_env E) r (int n) (buf @ slack) (of_nat (length buf)) (Some sa) = Some r'"
    "rl_sent r' = rl_sent r @ map (frame_to r (pk_buf ?pkt)) (next_hops r ?pkt (Some (fc_ptr f)))"
    "rl_pit r' = i # rl_pit r" "in_pkt i = ?pkt" "map pi_face (in_pending i) = [fc_ptr f]"
    by (rule forwarded_frame [OF assms(12,13) heard pkt(3) fresh tables pkt(5) assms(19)])
  then show ?thesis
    using sent pkt(1,4) q(1,2) by (intro exI [of _ buf] exI [of _ q] exI [of _ r'] exI [of _ i]) simp
qed

text \<open>
  C34. The two bytes of an interest without a name, from any neighbour, make the relay dereference a null
  pointer: the parser accepts an interest without a name, the handler reads the name without a check.
\<close>

theorem nameless_interest_crashes:
  assumes "relay_ok r" "\<forall>s. re_mem E s" "n < length (rl_ifs r)" "find_face (int n) (Some sa) (rl_faces r) = Some f" "slack \<noteq> []"
  shows "\<exists>r'. ccnl_core_RX (relay_env E) r (int n) ([5, 0] @ slack) 2 (Some sa) = Some r' \<and> rl_faults r' = rl_faults r @ [NullAccess]"
proof -
  let ?pkt = "(zero_pkt NDN_TLV_Interest 1)\<lparr>pk_buf := [5, 0]\<rparr>"
  have "ndntlv_datagram (re_mem E) (enc_block (NDN_TLV_Interest, []) @ slack) (of_nat (length (enc_block (NDN_TLV_Interest, []))))
      = Parsed ((zero_pkt NDN_TLV_Interest 1)\<lparr>pk_buf := enc_block (NDN_TLV_Interest, []), pk_type := NDN_TLV_Interest\<rparr>)"
    using assms(2,5) by (intro datagram_header) (simp_all add: small_block_def enc_block_def enc_tl_def enc_tlval_def NDN_TLV_Interest_def packet_loop_end)
  then have "ndntlv_datagram (re_mem E) ([5, 0] @ slack) 2 = Parsed ?pkt"
    by (simp add: enc_block_def enc_tl_def enc_tlval_def NDN_TLV_Interest_def zero_pkt_def)
  then have heard: "heard E r n sa ([5, 0] @ slack) 2 f ?pkt" using assms(3,4) by (simp add: heard_def)
  note same = received_same [OF assms(1,3), of "fc_ptr f" "re_now E"]
  have "ccnl_fwd_handleInterest (relay_env E) (received r n (fc_ptr f) (re_now E)) (Some (fc_ptr f)) ?pkt
      = (-1, fault NullAccess (received r n (fc_ptr f) (re_now E)))"
    by (simp add: ccnl_fwd_handleInterest_def ccnl_nonce_isDup_def zero_pkt_def)
  from RX_handlers(1) [OF heard _ this] same(13) show ?thesis by (simp add: zero_pkt_def fault_def)
qed

subsection \<open>An example\<close>

text \<open>Two neighbours, the second on the way to all names that begin with the components \<open>pfx\<close>.\<close>

definition ex_face :: "nat \<Rightarrow> ccnl_face_s" where
  "ex_face p = \<lparr>fc_ptr = p, fc_faceid = int p, fc_ifndx = 0, fc_peer = SU_ip4 (of_nat p) 6363, fc_flags = 0,
     fc_last_used = 90, fc_outq = []\<rparr>"

text \<open>The name of two components as the parser gives it, an interest for it and the data.\<close>

definition ex_name :: ccnl_prefix_s where
  "ex_name = \<lparr>px_comp = [1] # [2] # replicate 62 [], px_compcnt = 2, px_suite = CCNL_SUITE_NDNTLV, px_name = Some (2, 2),
     px_bytes = None, px_chunknum = None\<rparr>"

definition ex_pkt :: "u64 \<Rightarrow> u32 \<Rightarrow> bytes \<Rightarrow> bytes option \<Rightarrow> bytes option \<Rightarrow> ccnl_pkt_s" where
  "ex_pkt t flags buf nonce content = (zero_pkt t flags)\<lparr>pk_pfx := Some ex_name, pk_val := -1, pk_buf := buf, pk_nonce := nonce, pk_content := content\<rparr>"

definition ask :: bytes where
  "ask = [5, 14, 7, 6, 8, 1, 1, 8, 1, 2, 10, 4, 1, 2, 3, 4]"

definition reply :: bytes where
  "reply = [6, 11, 7, 6, 8, 1, 1, 8, 1, 2, 21, 1, 99]"

abbreviation ask_pkt :: ccnl_pkt_s where
  "ask_pkt \<equiv> ex_pkt NDN_TLV_Interest 1 ask (Some [1, 2, 3, 4]) None"

abbreviation reply_pkt :: ccnl_pkt_s where
  "reply_pkt \<equiv> ex_pkt NDN_TLV_Data 2 reply None (Some [99])"

lemma ex_parsed:
  "ndntlv_datagram (\<lambda>_. True) (ask @ [0]) 16 = Parsed ask_pkt"
  "ndntlv_datagram (\<lambda>_. True) (reply @ [0]) 13 = Parsed reply_pkt"
  by code_simp+

definition ex_interest :: ccnl_interest_s where
  "ex_interest = \<lparr>in_ptr = 5, in_pkt = ask_pkt, in_from = Some 2,
     in_pending = [\<lparr>pi_face = 2, pi_last_used = 90\<rparr>], in_lifetime = 4, in_last_used = 98, in_retries = 0\<rparr>"

definition ex_busy :: "bytes list \<Rightarrow> ccnl_interest_s list \<Rightarrow> ccnl_relay_s" where
  "ex_busy pfx is = ex_relay\<lparr>rl_faces := [ex_face 2, ex_face 3], rl_allocs := 10, rl_pit := is, rl_pitcnt := int (length is),
     rl_fib := [\<lparr>fw_prefix = Some (ex_prefix pfx), fw_tap = None, fw_face = Some 3, fw_suite = CCNL_SUITE_NDNTLV\<rparr>]\<rparr>"

lemma ex_faces [simp]:
  "face_ptrs (ex_busy pfx is) = {2, 3}" "net_ptrs (ex_busy pfx is) = {2, 3}"
  "frame_to (ex_busy pfx is) b 2 = (0, SU_ip4 2 6363, b)" "frame_to (ex_busy pfx is) b 3 = (0, SU_ip4 3 6363, b)"
  by (simp_all add: ex_busy_def ex_face_def face_ptrs_def net_ptrs_def frame_to_def get_face_def Collect_disj_eq conj_disj_distribR
      flip: Collect_conj_eq) force?

lemma ex_busy_simps [simp]:
  "rl_pit (ex_busy pfx is) = is" "rl_contents (ex_busy pfx is) = []" "rl_nonces (ex_busy pfx is) = []" "rl_sent (ex_busy pfx is) = []"
  "rl_max_pit_entries (ex_busy pfx is) = -1" "length (rl_ifs (ex_busy pfx is)) = 10" "rl_faults (ex_busy pfx is) = []"
  "find_face 0 (Some (SU_ip4 2 6363)) (rl_faces (ex_busy pfx is)) = Some (ex_face 2)"
  "find_face 0 (Some (SU_ip4 3 6363)) (rl_faces (ex_busy pfx is)) = Some (ex_face 3)"
  "fc_ptr (ex_face p) = p"
  by (simp_all add: ex_busy_def ex_relay_def ex_face_def)

lemma ex_name_simps [simp]:
  "comps ex_name = [[1], [2]]" "wf_prefix ex_name" "px_suite ex_name = CCNL_SUITE_NDNTLV" "px_chunknum ex_name = None" "px_compcnt ex_name = 2"
  by (simp_all add: ex_name_def comps_def wf_prefix_def)

lemma ex_pkt_simps [simp]:
  "pk_pfx (ex_pkt t fl b n c) = Some ex_name" "name_of (ex_pkt t fl b n c) = ex_name" "pk_buf (ex_pkt t fl b n c) = b"
  "pk_suite (ex_pkt t fl b n c) = CCNL_SUITE_NDNTLV" "pk_nonce (ex_pkt t fl b n c) = n" "pk_type (ex_pkt t fl b n c) = t"
  "pk_minsuffix (ex_pkt t fl b n c) = 0" "pk_maxsuffix (ex_pkt t fl b n c) = 64" "ccnl_pkt_fwdOK (ex_pkt t fl b n c)"
  by (simp_all add: ex_pkt_def name_of_def zero_pkt_def CCNL_MAX_NAME_COMP_def ccnl_pkt_fwdOK_def)

lemma ex_busy_ok: "is = [] \<or> is = [ex_interest] \<Longrightarrow> relay_ok (ex_busy pfx is)"
  using relay_okD(2) [OF relay_start_ok [OF ex_relay_start]]
  by (auto simp: relay_ok_def faces_ok_def ifs_ok_def pit_ok_def contents_ok_def fib_ok_def nonces_ok_def interest_ok_def ex_interest_def)
    (auto simp: ex_busy_def ex_relay_def ex_face_def ex_if_def CCNL_MAX_NONCES_def)

lemma ex_mem: "re_mem ex_env = (\<lambda>_. True)" by (simp add: fun_eq_iff)

lemma ex_heard:
  "heard ex_env (ex_busy pfx is) 0 (SU_ip4 2 6363) (ask @ [0]) 16 (ex_face 2) ask_pkt"
  "heard ex_env (ex_busy pfx is) 0 (SU_ip4 3 6363) (ask @ [0]) 16 (ex_face 3) ask_pkt"
  "heard ex_env (ex_busy pfx is) 0 (SU_ip4 3 6363) (reply @ [0]) 13 (ex_face 3) reply_pkt"
  using ex_parsed by (simp_all add: heard_def ex_mem) (simp_all add: ask_def reply_def)

lemma ex_answers: "answers E reply_pkt ask_pkt"
  by (simp add: answers_def ccnl_i_prefixof_c_def prefix_cmp_exact)

lemma ex_fresh: "fresh_interest (ex_busy pfx is) ask_pkt"
  by (simp add: fresh_interest_def mgmt_name_def)

lemma ex_next_hops: "next_hops (ex_busy [[1]] is) ask_pkt (Some 2) = [3]"
  by (simp add: next_hops_def fib_covers_def prefix_cmp_longest may_send_def map_filter_simps ex_busy_def)

theorem data_reaches_waiting_witness:
  "relay_ok (ex_busy [[1]] [ex_interest]) \<and> (\<exists>r'. ccnl_core_RX ex_env (ex_busy [[1]] [ex_interest]) 0 (reply @ [0]) 13 (Some (SU_ip4 3 6363)) = Some r'
    \<and> rl_sent r' = [(0, SU_ip4 2 6363, reply)] \<and> rl_pit r' = [])"
proof -
  have ok: "relay_ok (ex_busy [[1]] [ex_interest])" by (simp add: ex_busy_ok)
  have i: "in_pkt ex_interest = ask_pkt" "pi_face ` set (in_pending ex_interest) = {2}" by (simp_all add: ex_interest_def)
  obtain r' ps where h: "ccnl_core_RX ex_env (ex_busy [[1]] [ex_interest]) 0 (reply @ [0]) 13 (Some (SU_ip4 3 6363)) = Some r'" "distinct ps"
    "set ps = {2}" "rl_sent r' = map (frame_to (ex_busy [[1]] [ex_interest]) reply) ps" "rl_pit r' = []"
  proof -
    have "{p. p = 2 \<and> (p = 2 \<or> p = (3 :: nat))} = {2}" by auto
    then show ?thesis using that data_reaches_waiting [OF ok _ ex_heard(3)] ex_answers i by auto
  qed
  then have "ps = [2]" by (cases ps) (auto simp: subset_singleton_iff)
  with h ok show ?thesis by simp
qed

theorem interest_not_forwarded_witness:
  "relay_ok (ex_busy [[1]] [ex_interest]) \<and> (\<exists>r'. ccnl_core_RX ex_env (ex_busy [[1]] [ex_interest]) 0 (ask @ [0]) 16 (Some (SU_ip4 3 6363)) = Some r'
    \<and> rl_sent r' = [] \<and> (\<exists>j\<in>set (rl_pit r'). pi_face ` set (in_pending j) = {2, 3}))"
proof -
  have ok: "relay_ok (ex_busy [[1]] [ex_interest])" by (simp add: ex_busy_ok)
  have i: "in_pkt ex_interest = ask_pkt" "pi_face ` set (in_pending ex_interest) = {2}" by (simp_all add: ex_interest_def)
  then have "ccnl_interest_isSame ex_interest ask_pkt \<noteq> 0" by (simp add: ccnl_interest_isSame_def prefix_cmp_exact)
  with i show ?thesis
    using interest_not_forwarded [OF ok _ ex_heard(2), of undefined ex_interest] ok by (auto simp: ex_fresh insert_commute)
qed

theorem exchange_completes_witness:
  "relay_ok (ex_busy [[1]] []) \<and> (\<exists>r1 r2. ccnl_core_RX ex_env (ex_busy [[1]] []) 0 (ask @ [0]) 16 (Some (SU_ip4 2 6363)) = Some r1
    \<and> ccnl_core_RX ex_env r1 0 (reply @ [0]) 13 (Some (SU_ip4 3 6363)) = Some r2
    \<and> rl_sent r2 = [(0, SU_ip4 3 6363, ask), (0, SU_ip4 2 6363, reply)] \<and> rl_pit r2 = [])"
proof -
  have ok: "relay_ok (ex_busy [[1]] [])" by (simp add: ex_busy_ok)
  show ?thesis
    using exchange_completes [OF ok _ ex_heard(1) _ ex_fresh _ _ _ _ ex_heard(3)] ok ex_answers by (auto simp: ex_next_hops)
qed

theorem nameless_interest_crashes_witness:
  "relay_ok (ex_busy [[1]] []) \<and> (\<exists>r'. ccnl_core_RX ex_env (ex_busy [[1]] []) 0 ([5, 0] @ [0]) 2 (Some (SU_ip4 2 6363)) = Some r'
    \<and> rl_faults r' = [NullAccess])"
  using nameless_interest_crashes [of "ex_busy [[1]] []" ex_env 0 "SU_ip4 2 6363" "ex_face 2" "[0]"] by (simp add: ex_busy_ok)

theorem http_request_forwarded_witness:
  "\<exists>buf r'. pepdna_fwd_request sample_env (\<lambda>_. (25, map of_char (''GET '' @ path_of [''a'', ''b.txt''] @ CHR '' '' # ''HTTP/1.1''))) ex_call
        (\<lambda>_. 40) 1 2 sock_sample = (40, (log_event (Ev_sent 2 buf) sock_sample)\<lparr>g_request_done := True\<rparr>)
    \<and> ccnl_core_RX ex_env (ex_busy [uri_bytes ''ndn''] []) 0 (buf @ [0]) (of_nat (length buf)) (Some (SU_ip4 2 6363)) = Some r'
    \<and> rl_sent r' = [(0, SU_ip4 3 6363, buf)]"
proof -
  let ?cs = "[''a'', ''b.txt'']" and ?r = "ex_busy [uri_bytes ''ndn''] []"
  define recv where "recv = (\<lambda>_ :: nat. (25 :: int, map of_char (''GET '' @ path_of ?cs @ CHR '' '' # ''HTTP/1.1'') :: bytes))"
  then have recv: "recv MAX_BUF_SIZE = (25, map of_char (''GET '' @ path_of ?cs @ CHR '' '' # ''HTTP/1.1''))" by simp
  have seg: "\<forall>c\<in>set ?cs. segment c" "length (path_of ?cs) < 22"
    by (simp_all add: segment_def word_char_def is_space_def path_of_def)
  have hops: "next_hops ?r pkt (Some 2) = [3]" if "pk_pfx pkt = Some q" "comps q = request_names ?cs" "px_suite q = CCNL_SUITE_NDNTLV" for pkt q
    using that by (simp add: next_hops_def fib_covers_def prefix_cmp_longest may_send_def map_filter_simps ex_busy_def request_names_def)
  have env: "\<forall>s. cc_mem ex_call s" "cc_nonce ex_call \<noteq> 0" "kzalloc sample_env A_buffer" "(25 :: int) < int MAX_BUF_SIZE"
    by (simp_all add: ex_call_def MAX_BUF_SIZE_def sample_env_def)
  have "\<exists>buf q r' i. pepdna_fwd_request sample_env recv ex_call (\<lambda>_. 40) 1 2 sock_sample
        = (40, (log_event (Ev_sent 2 buf) sock_sample)\<lparr>g_request_done := True\<rparr>)
    \<and> ccnl_core_RX ex_env ?r 0 (buf @ [0]) (of_nat (length buf)) (Some (SU_ip4 2 6363)) = Some r'
    \<and> rl_sent r' = map (frame_to ?r buf) (next_hops ?r (in_pkt i) (Some 2)) \<and> rl_pit r' = [i] \<and> map pi_face (in_pending i) = [2]
    \<and> pk_pfx (in_pkt i) = Some q \<and> px_suite q = CCNL_SUITE_NDNTLV \<and> comps q = request_names ?cs"
    using http_request_forwarded [where recv = recv and sent = "\<lambda>_. 40" and slack = "[0]" and r = ?r and E = ex_env and n = 0
        and sa = "SU_ip4 2 6363" and f = "ex_face 2" and src = 1 and dest = 2 and w = sock_sample, OF recv _ env(4,3) _ seg env(1,2)]
      ex_busy_ok [of "[]"] by simp
  then show ?thesis using hops unfolding recv_def [symmetric] by fastforce
qed

end
