(* ===== verification/Ccn_Store.thy ===== *)
theory Ccn_Store
  imports Ccn_Service
begin

section \<open>What the relay remembers, and for how long\<close>

text \<open>
  The content store replaces its oldest entry, the memory for nonces is a queue of 256 different
  ones, interests that get no answer are forgotten after at most eight timer events, and the
  clean-up releases everything. The last part shows what the look-up by a printed name really accepts.
\<close>

subsection \<open>Replacement in the content store\<close>

lemma find_oldest_min:
  assumes "\<forall>c\<in>set cs. \<not> is_static c \<longrightarrow> ct_last_used c \<noteq> 0" "age \<noteq> 0" "find_oldest cs age (Some p) = Some q"
  shows "(q = p \<and> (\<forall>c\<in>set cs. \<not> is_static c \<longrightarrow> age \<le> ct_last_used c))
    \<or> (\<exists>c\<in>set cs. q = ct_ptr c \<and> \<not> is_static c \<and> ct_last_used c < age \<and> (\<forall>d\<in>set cs. \<not> is_static d \<longrightarrow> ct_last_used c \<le> ct_last_used d))"
  using assms
proof (induction cs age "Some p" arbitrary: p rule: find_oldest.induct)
  case (2 c cs age p)
  show ?case
  proof (cases "\<not> is_static c \<and> ct_last_used c < age")
    case True
    with 2 show ?thesis by (auto simp: not_less)
  next
    case False
    with 2 show ?thesis by (auto simp: not_less)
  qed
qed auto

lemma find_oldest_spec:
  assumes "\<forall>c\<in>set cs. \<not> is_static c \<longrightarrow> ct_last_used c \<noteq> 0" "\<exists>c\<in>set cs. \<not> is_static c"
  obtains c where "c \<in> set cs" "find_oldest cs 0 None = Some (ct_ptr c)" "\<not> is_static c"
    "\<forall>d\<in>set cs. \<not> is_static d \<longrightarrow> ct_last_used c \<le> ct_last_used d"
proof -
  have "\<exists>c\<in>set cs. find_oldest cs 0 None = Some (ct_ptr c) \<and> \<not> is_static c \<and> (\<forall>d\<in>set cs. \<not> is_static d \<longrightarrow> ct_last_used c \<le> ct_last_used d)"
    using assms
  proof (induction cs)
    case (Cons c cs)
    show ?case
    proof (cases "is_static c")
      case True
      with Cons show ?thesis by auto
    next
      case False
      obtain q where q: "find_oldest cs (ct_last_used c) (Some (ct_ptr c)) = Some q"
      proof -
        have "find_oldest xs a (Some p) \<noteq> None" for xs a p by (induction xs a "Some p" arbitrary: p rule: find_oldest.induct) auto
        then show ?thesis using that by blast
      qed
      have "\<forall>c\<in>set cs. \<not> is_static c \<longrightarrow> ct_last_used c \<noteq> 0" "ct_last_used c \<noteq> 0" using Cons.prems(1) False by auto
      from find_oldest_min [OF this q] False q show ?thesis by auto
    qed
  qed simp
  then show ?thesis using that by blast
qed

text \<open>
  A full store that takes a new content gives up exactly one entry for it, one that is not static and whose
  time of last use is the least among those; static entries are never given up. The entries must not have been
  used at time zero, which the code takes for \<open>none found\<close>.
\<close>

lemma cache_replaces_oldest:
  assumes "relay_ok r" "0 < rl_max_cache_entries r" "rl_contentcnt r = rl_max_cache_entries r"
    and "\<forall>d\<in>set (rl_contents r). \<not> same_name (ct_pkt c) (ct_pkt d)"
    and "\<forall>d\<in>set (rl_contents r). \<not> is_static d \<longrightarrow> ct_last_used d \<noteq> 0" "\<exists>d\<in>set (rl_contents r). \<not> is_static d"
  shows "\<exists>v\<in>set (rl_contents r). \<not> is_static v \<and> (\<forall>d\<in>set (rl_contents r). \<not> is_static d \<longrightarrow> ct_last_used v \<le> ct_last_used d)
    \<and> ccnl_content_add2cache (relay_env E) r c
      = (Some c, r\<lparr>rl_contents := c # filter (\<lambda>d. ct_ptr d \<noteq> ct_ptr v) (rl_contents r)\<rparr>)"
proof -
  obtain v where v: "v \<in> set (rl_contents r)" "find_oldest (rl_contents r) 0 None = Some (ct_ptr v)" "\<not> is_static v"
    "\<forall>d\<in>set (rl_contents r). \<not> is_static d \<longrightarrow> ct_last_used v \<le> ct_last_used d"
    using find_oldest_spec [OF assms(5,6)] by blast
  have "ct_ptr v \<in> ct_ptr ` set (rl_contents r)" using v(1) by simp
  note rem = content_remove_ok [OF assms(1) this]
  have mr: "make_room (relay_env E) r c = ccnl_content_remove r (ct_ptr v)"
    using assms(2,3) v(2) by (simp add: make_room_def cache_strategy_remove_def)
  have "ccnl_content_add2cache (relay_env E) r c
      = (Some c, r\<lparr>rl_contents := c # filter (\<lambda>d. ct_ptr d \<noteq> ct_ptr v) (rl_contents r), rl_contentcnt := rl_contentcnt r\<rparr>)"
    using assms(3,4) rem(4) content_count [OF assms(1)] by (auto simp: ccnl_content_add2cache_def mr rem(2) Let_def)
  then show ?thesis using v(1,3,4) by (intro bexI [of _ v]) simp_all
qed

subsection \<open>Nonces\<close>

text \<open>The memory for nonces as a queue: a new one enters at the front, the 257th falls out.\<close>

definition remember :: "bytes \<Rightarrow> bytes list \<Rightarrow> bytes list" where
  "remember n ns = (if n \<in> set ns then ns else take CCNL_MAX_NONCES (n # ns))"

lemma nonce_queue:
  assumes "length (rl_nonces r) \<le> CCNL_MAX_NONCES" "\<forall>n. re_alloc E n"
  shows "fst (ccnl_nonce_find_or_append E r n) = (if n \<in> set (rl_nonces r) then -1 else 0)"
    and "rl_nonces (snd (ccnl_nonce_find_or_append E r n)) = remember n (rl_nonces r)"
proof -
  have "n # butlast ns = take 256 (n # ns)" if "length ns = 256" for ns :: "bytes list"
    using that by (simp add: butlast_conv_take take_Cons')
  then show "fst (ccnl_nonce_find_or_append E r n) = (if n \<in> set (rl_nonces r) then -1 else 0)"
    "rl_nonces (snd (ccnl_nonce_find_or_append E r n)) = remember n (rl_nonces r)"
    using assms by (auto simp: ccnl_nonce_find_or_append_def ccnl_calloc_def remember_def CCNL_MAX_NONCES_def Let_def)
qed

lemma remember_bounded: "length ns \<le> CCNL_MAX_NONCES \<Longrightarrow> length (remember n ns) \<le> CCNL_MAX_NONCES"
  by (simp add: remember_def)

lemma remember_distinct: "distinct ns \<Longrightarrow> distinct (remember n ns)"
  by (simp add: remember_def)

text \<open>What entered after a nonce is among what was given since; so many fit before it falls out.\<close>

lemma takeWhile_until: "x \<notin> set as \<Longrightarrow> takeWhile (\<lambda>y. y \<noteq> x) (as @ x # bs) = as"
  by (induction as) auto

lemma remember_keeps:
  assumes "x \<in> set ns" "distinct ns" "set (takeWhile (\<lambda>y. y \<noteq> x) ns) \<subseteq> S" "finite S" "card (insert n S) < CCNL_MAX_NONCES"
  shows "x \<in> set (remember n ns)" "set (takeWhile (\<lambda>y. y \<noteq> x) (remember n ns)) \<subseteq> insert n S"
proof -
  obtain as bs where ns: "ns = as @ x # bs" "x \<notin> set as" using split_list_first [OF assms(1)] by blast
  then have tw: "takeWhile (\<lambda>y. y \<noteq> x) ns = as" by (simp add: takeWhile_until)
  have fin: "finite (insert n S)" using assms(4) by simp
  show "x \<in> set (remember n ns)" "set (takeWhile (\<lambda>y. y \<noteq> x) (remember n ns)) \<subseteq> insert n S"
  proof -
    have "length (n # as) \<le> card (insert n S)" if "n \<notin> set ns"
    proof -
      have "distinct (n # as)" "set (n # as) \<subseteq> insert n S" using that assms(2,3) tw ns by auto
      then show ?thesis using card_mono [OF fin, of "set (n # as)"] distinct_card [of "n # as"] by simp
    qed
    then have l: "Suc (length as) < CCNL_MAX_NONCES" if "n \<notin> set ns" using that assms(5) by fastforce
    have r: "remember n ns = n # as @ x # take (CCNL_MAX_NONCES - Suc (Suc (length as))) bs" if "n \<notin> set ns"
      using that l [OF that] by (simp add: remember_def ns take_Cons' split: nat.splits)
    show "x \<in> set (remember n ns)" using r ns by (cases "n \<in> set ns") (simp_all add: remember_def)
    show "set (takeWhile (\<lambda>y. y \<noteq> x) (remember n ns)) \<subseteq> insert n S"
    proof (cases "n \<in> set ns")
      case True
      then show ?thesis using assms(3) by (auto simp: remember_def)
    next
      case False
      then have "takeWhile (\<lambda>y. y \<noteq> x) (remember n ns) = n # as" using r ns takeWhile_until [of x "n # as"] by auto
      then show ?thesis using assms(3) tw by auto
    qed
  qed
qed

lemma remembered:
  assumes "x \<in> set ns" "distinct ns" "length ns \<le> CCNL_MAX_NONCES" "set (takeWhile (\<lambda>y. y \<noteq> x) ns) \<subseteq> S" "finite S"
    and "card (S \<union> set xs) < CCNL_MAX_NONCES"
  shows "x \<in> set (fold remember xs ns)"
  using assms
proof (induction xs arbitrary: ns S)
  case (Cons n xs)
  have "card (insert n S) \<le> card (S \<union> set (n # xs))" using Cons.prems(5) by (intro card_mono) auto
  then have "card (insert n S) < CCNL_MAX_NONCES" using Cons.prems(6) by simp
  note k = remember_keeps [OF Cons.prems(1,2,4,5) this]
  have "x \<in> set (fold remember xs (remember n ns))"
    using Cons.prems by (intro Cons.IH [OF k(1) _ _ k(2)] remember_distinct remember_bounded) simp_all
  then show ?case by simp
qed simp

lemma nonces_fold:
  assumes "length (rl_nonces r) \<le> CCNL_MAX_NONCES" "\<forall>n. re_alloc E n"
  shows "rl_nonces (foldl (\<lambda>r n. snd (ccnl_nonce_find_or_append E r n)) r ns) = fold remember ns (rl_nonces r)"
  using assms
proof (induction ns arbitrary: r)
  case (Cons n ns)
  with nonce_queue(2) [OF Cons.prems] remember_bounded [OF Cons.prems(1)] show ?case by simp
qed simp

text \<open>
  C29. The memory for nonces is a queue of the last 256 different nonces. A nonce that enters is recognised as a duplicate
  as long as fewer than 256 different nonces follow.
\<close>

theorem nonce_window:
  assumes "relay_ok r" "\<forall>n. re_alloc E n" "n \<notin> set (rl_nonces r)" "card (set ns) < 256"
  defines "see \<equiv> \<lambda>r n. snd (ccnl_nonce_find_or_append E r n)"
  shows "rl_nonces (foldl see r ms) = fold remember ms (rl_nonces r)
    \<and> fst (ccnl_nonce_find_or_append E r n) = 0 \<and> fst (ccnl_nonce_find_or_append E (foldl see (see r n) ns) n) = -1"
proof -
  have b: "length (rl_nonces r) \<le> CCNL_MAX_NONCES" "distinct (rl_nonces r)" using relay_okD(6) [OF assms(1)] by (simp_all add: nonces_ok_def)
  let ?m = "remember n (rl_nonces r)"
  have m: "n \<in> set ?m" "takeWhile (\<lambda>y. y \<noteq> n) ?m = []" using assms(3) by (simp_all add: remember_def CCNL_MAX_NONCES_def)
  have b1: "length ?m \<le> CCNL_MAX_NONCES" "distinct ?m" using remember_bounded [OF b(1)] remember_distinct [OF b(2)] by auto
  have "rl_nonces (see r n) = ?m" using nonce_queue(2) [OF b(1) assms(2)] by (simp add: see_def)
  then have all: "rl_nonces (foldl see (see r n) ns) = fold remember ns ?m"
    using nonces_fold [of "see r n" E ns] b1(1) assms(2) by (simp add: see_def)
  have "n \<in> set (fold remember ns ?m)"
    using remembered [OF m(1) b1(2,1), of "{}" ns] m(2) assms(4) by (simp add: CCNL_MAX_NONCES_def)
  moreover have "length (fold remember ns xs) \<le> CCNL_MAX_NONCES" if "length xs \<le> CCNL_MAX_NONCES" for xs
    using that by (induction ns arbitrary: xs) (simp_all add: remember_bounded)
  ultimately show ?thesis
    using nonces_fold [OF b(1) assms(2), folded see_def] nonce_queue(1) [OF b(1) assms(2)] nonce_queue(1) [of "foldl see (see r n) ns" E n] assms(2,3) all b1(1) by simp
qed

subsection \<open>Ageing\<close>

text \<open>The entries that are left after ageing were there before, with one retransmission less.\<close>

lemma age_interests_retries:
  assumes "relay_ok r" "distinct (map in_ptr is)" "set is \<subseteq> set (rl_pit r)" "j \<in> set (rl_pit (age_interests (relay_env E) is r))"
  shows "(j \<in> set (rl_pit r) \<and> in_ptr j \<notin> in_ptr ` set is)
    \<or> (\<exists>i\<in>set is. in_retries i < CCNL_MAX_INTEREST_RETRANSMIT \<and> in_retries j = in_retries i + 1)"
  using assms
proof (induction "is" arbitrary: r)
  case (Cons i "is")
  have p: "in_ptr i \<in> in_ptr ` set (rl_pit r)" using Cons.prems(3) by simp
  have sep: "in_ptr x \<noteq> in_ptr i" if "x \<in> set is" for x using Cons.prems(2) imageI [OF that, of in_ptr] by auto
  show ?case
  proof (cases "in_last_used i + in_lifetime i \<le> re_now E \<or> CCNL_MAX_INTEREST_RETRANSMIT \<le> in_retries i")
    case True
    note rem = interest_remove_ok [OF Cons.prems(1) p]
    have "set is \<subseteq> set (rl_pit (ccnl_interest_remove r (in_ptr i)))" using Cons.prems(3) sep by (auto simp: rem(3))
    with Cons.IH [OF rem(1)] Cons.prems(2,4) True show ?thesis by (auto simp: rem(3))
  next
    case False
    define r1 where "r1 = ccnl_interest_propagate (relay_env E) r i"
    let ?g = "\<lambda>i. i\<lparr>in_retries := in_retries i + 1\<rparr>"
    define r2 where "r2 = upd_interest (in_ptr i) ?g r1"
    have s: "sends r r1" using program.propagate_sends [OF Cons.prems(1)] by (simp add: r1_def)
    have ok1: "relay_ok r1" using sends_ok [OF s Cons.prems(1)] .
    have "interest_ok F n (?g j)" if "interest_ok F n j" for F n j using that by (simp add: interest_ok_def)
    note ok2 = upd_interest_ok(1) [OF ok1, of ?g, OF _ this, of "in_ptr i", folded r2_def]
    have pit: "rl_pit r2 = map (\<lambda>x. if in_ptr x = in_ptr i then ?g x else x) (rl_pit r)"
      using sends_fields(3) [OF s] by (simp add: r2_def upd_interest_def)
    have "set is \<subseteq> set (rl_pit r2)"
    proof
      fix x assume "x \<in> set is"
      then have "x \<in> set (rl_pit r)" "in_ptr x \<noteq> in_ptr i" using Cons.prems(3) sep by auto
      then show "x \<in> set (rl_pit r2)" unfolding pit by force
    qed
    moreover have "j \<in> set (rl_pit (age_interests (relay_env E) is r2))" using Cons.prems(4) False by (simp add: r2_def r1_def)
    ultimately have IH: "(j \<in> set (rl_pit r2) \<and> in_ptr j \<notin> in_ptr ` set is)
        \<or> (\<exists>i\<in>set is. in_retries i < CCNL_MAX_INTEREST_RETRANSMIT \<and> in_retries j = in_retries i + 1)"
      using Cons.IH [OF ok2] Cons.prems(2) by simp
    have uniq: "x = i" if "x \<in> set (rl_pit r)" "in_ptr x = in_ptr i" for x
      using that Cons.prems(3) relay_okD(3) [OF Cons.prems(1)] by (auto simp: pit_ok_def distinct_map inj_on_def)
    show ?thesis using False IH unfolding pit by (auto split: if_splits dest: uniq)
  qed
qed simp

lemma face_remove_retries:
  "\<lbrakk>relay_ok r; p \<in> face_ptrs r; j \<in> set (rl_pit (ccnl_face_remove r p))\<rbrakk> \<Longrightarrow> \<exists>i\<in>set (rl_pit r). in_retries j = in_retries i"
  by (auto simp: face_remove_eq)

lemma age_faces_retries:
  "\<lbrakk>relay_ok r; distinct (map fc_ptr fs); fc_ptr ` set fs \<subseteq> face_ptrs r; j \<in> set (rl_pit (age_faces E fs r))\<rbrakk>
    \<Longrightarrow> \<exists>i\<in>set (rl_pit r). in_retries j = in_retries i"
proof (induction fs arbitrary: r)
  case (Cons f fs)
  have f: "fc_ptr f \<in> face_ptrs r" using Cons.prems(3) by simp
  show ?case
  proof (cases "fc_flags f AND CCNL_FACE_FLAGS_STATIC = 0 \<and> fc_last_used f + CCNL_FACE_TIMEOUT \<le> re_now E")
    case True
    note rem = face_remove_ok [OF Cons.prems(1) f]
    have "fc_ptr ` set fs \<subseteq> face_ptrs (ccnl_face_remove r (fc_ptr f))"
      unfolding rem(2) using Cons.prems(2,3) by (intro subset_minus) simp_all
    with Cons.IH [OF rem(1)] Cons.prems(2,4) True obtain i where "i \<in> set (rl_pit (ccnl_face_remove r (fc_ptr f)))" "in_retries j = in_retries i"
      by auto
    with face_remove_retries [OF Cons.prems(1) f] show ?thesis by fastforce
  next
    case False
    with Cons show ?thesis by auto
  qed
qed auto

lemma do_ageing_retries:
  assumes "relay_ok r" "j \<in> set (rl_pit (ccnl_do_ageing (relay_env E) r))"
  shows "\<exists>i\<in>set (rl_pit r). in_retries i < CCNL_MAX_INTEREST_RETRANSMIT \<and> in_retries j = in_retries i + 1"
proof -
  define r1 where "r1 = age_contents (relay_env E) (rl_contents r) r"
  define r2 where "r2 = age_interests (relay_env E) (rl_pit r) r1"
  have d: "distinct (map ct_ptr (rl_contents r))" "distinct (map in_ptr (rl_pit r))" "distinct (map fc_ptr (rl_faces r))"
    using relay_okD [OF assms(1)] by (simp_all add: contents_ok_def pit_ok_def faces_ok_def)
  have 1: "keeps r r1" "rl_pit r1 = rl_pit r" "rl_faces r1 = rl_faces r"
    using age_contents_keeps [OF assms(1) d(1) order_refl] by (simp_all add: r1_def)
  have 2: "keeps r1 r2" using program.age_interests_keeps [OF keepsD(1) [OF 1(1)] d(2)] 1(2) by (simp add: r2_def)
  have "fc_ptr ` set (rl_faces r) \<subseteq> face_ptrs r2"
    using keepsD(2) [OF 2] 1(3) by (auto simp: grows_def face_ptrs_def)
  moreover have "j \<in> set (rl_pit (age_faces (relay_env E) (rl_faces r) r2))"
    using assms(2) by (simp add: ccnl_do_ageing_def Let_def r1_def r2_def)
  ultimately obtain i where i: "i \<in> set (rl_pit r2)" "in_retries j = in_retries i"
    using age_faces_retries [OF keepsD(1) [OF 2] d(3)] by blast
  from age_interests_retries [OF keepsD(1) [OF 1(1)] d(2) _ i(1) [unfolded r2_def]] 1(2) i(2) show ?thesis by auto
qed

text \<open>
  C28. Interests that get no answer do not stay: after eight timer events, whatever the time says, the table of
  pending interests is empty and its counter is zero. An interest is passed on again at most seven times.
\<close>

theorem unanswered_interests_forgotten:
  assumes "relay_ok r" "\<forall>i\<in>set (rl_pit r). 0 \<le> in_retries i" "length Es = 8"
  defines "r' \<equiv> foldl (\<lambda>r E. ccnl_do_ageing (relay_env E) r) r Es"
  shows "relay_ok r' \<and> rl_pit r' = [] \<and> rl_pitcnt r' = 0"
proof -
  have *: "relay_ok (foldl (\<lambda>r E. ccnl_do_ageing (relay_env E) r) r Es)
      \<and> (\<forall>j\<in>set (rl_pit (foldl (\<lambda>r E. ccnl_do_ageing (relay_env E) r) r Es)). k + int (length Es) \<le> in_retries j \<and> (Es \<noteq> [] \<longrightarrow> in_retries j \<le> 7))"
    if "relay_ok r" "\<forall>i\<in>set (rl_pit r). k \<le> in_retries i" for k r
    using that
  proof (induction Es arbitrary: k r rule: rev_induct)
    case (snoc E Es)
    let ?r = "foldl (\<lambda>r E. ccnl_do_ageing (relay_env E) r) r Es"
    have IH: "relay_ok ?r" "\<And>j. j \<in> set (rl_pit ?r) \<Longrightarrow> k + int (length Es) \<le> in_retries j"
      using snoc.IH [OF snoc.prems] by auto
    then show ?case
      using program.do_ageing_ok [OF IH(1), of E] do_ageing_retries [OF IH(1), of _ E]
      by (force simp: CCNL_MAX_INTEREST_RETRANSMIT_def)
  qed simp
  have ok: "relay_ok r'" and none: "\<And>j. j \<in> set (rl_pit r') \<Longrightarrow> 8 \<le> in_retries j \<and> in_retries j \<le> 7"
    using * [OF assms(1), of 0] assms(2,3) by (auto simp: r'_def)
  have "rl_pit r' = []" using none by (cases "rl_pit r'") fastforce+
  with ok pit_count [OF ok] show ?thesis by simp
qed

subsection \<open>Clean-up\<close>

text \<open>Removing every entry of a table, one after the other, under what its removal keeps.\<close>

locale clearing =
  fixes rem :: "ccnl_relay_s \<Rightarrow> nat \<Rightarrow> ccnl_relay_s" and tab :: "ccnl_relay_s \<Rightarrow> 'e list" and key :: "'e \<Rightarrow> nat"
    and inv :: "ccnl_relay_s \<Rightarrow> bool"
  assumes removes: "\<lbrakk>inv r; p \<in> key ` set (tab r)\<rbrakk> \<Longrightarrow> inv (rem r p) \<and> tab (rem r p) = filter (\<lambda>e. key e \<noteq> p) (tab r)"
    and keys: "inv r \<Longrightarrow> distinct (map key (tab r))"
begin

lemma clear_from: "\<lbrakk>inv r; map key (tab r) = ps\<rbrakk> \<Longrightarrow> inv (foldl rem r ps) \<and> tab (foldl rem r ps) = []"
proof (induction ps arbitrary: r)
  case (Cons p ps)
  then obtain e es where t: "tab r = e # es" "key e = p" "map key es = ps" by auto
  have "p \<notin> set ps" using keys [OF Cons.prems(1)] t by simp
  then have "filter (\<lambda>e. key e \<noteq> p) es = es" using t(3) by (auto intro: filter_True)
  then have "inv (rem r p)" "tab (rem r p) = es" using removes [OF Cons.prems(1), of p] t by auto
  with Cons.IH t(3) show ?case by simp
qed simp

lemma clear: "inv r \<Longrightarrow> inv (foldl rem r (map key (tab r))) \<and> tab (foldl rem r (map key (tab r))) = []"
  by (rule clear_from) simp_all

end

interpretation interests: clearing ccnl_interest_remove rl_pit in_ptr "\<lambda>r. relay_ok r \<and> rl_faults r = fl" for fl
proof
  fix r p assume r: "relay_ok r \<and> rl_faults r = fl" "p \<in> in_ptr ` set (rl_pit r)"
  then have "rl_faults (ccnl_interest_remove r p) = fl" by (auto simp: ccnl_interest_remove_def)
  with r interest_remove_ok(1,3) [of r p] show "(relay_ok (ccnl_interest_remove r p) \<and> rl_faults (ccnl_interest_remove r p) = fl)
      \<and> rl_pit (ccnl_interest_remove r p) = filter (\<lambda>e. in_ptr e \<noteq> p) (rl_pit r)" by simp
qed (simp add: relay_ok_def pit_ok_def)

interpretation faces: clearing ccnl_face_remove rl_faces fc_ptr "\<lambda>r. relay_ok r \<and> rl_faults r = fl \<and> rl_pit r = []" for fl
proof
  fix r p assume r: "relay_ok r \<and> rl_faults r = fl \<and> rl_pit r = []" "p \<in> fc_ptr ` set (rl_faces r)"
  then have ok: "relay_ok r" "p \<in> face_ptrs r" by (simp_all add: face_ptrs_def)
  show "(relay_ok (ccnl_face_remove r p) \<and> rl_faults (ccnl_face_remove r p) = fl \<and> rl_pit (ccnl_face_remove r p) = [])
      \<and> rl_faces (ccnl_face_remove r p) = filter (\<lambda>e. fc_ptr e \<noteq> p) (rl_faces r)"
    using r face_remove_ok(1) [OF ok] face_remove_eq [OF ok] by simp
qed (simp add: relay_ok_def faces_ok_def)

interpretation contents: clearing ccnl_content_remove rl_contents ct_ptr
  "\<lambda>r. relay_ok r \<and> rl_faults r = fl \<and> rl_pit r = [] \<and> rl_faces r = [] \<and> rl_fib r = []" for fl
proof
  fix r p assume r: "relay_ok r \<and> rl_faults r = fl \<and> rl_pit r = [] \<and> rl_faces r = [] \<and> rl_fib r = []"
    and p: "p \<in> ct_ptr ` set (rl_contents r)"
  from r have ok: "relay_ok r" by simp
  show "(relay_ok (ccnl_content_remove r p) \<and> rl_faults (ccnl_content_remove r p) = fl \<and> rl_pit (ccnl_content_remove r p) = []
      \<and> rl_faces (ccnl_content_remove r p) = [] \<and> rl_fib (ccnl_content_remove r p) = [])
      \<and> rl_contents (ccnl_content_remove r p) = filter (\<lambda>e. ct_ptr e \<noteq> p) (rl_contents r)"
    using r content_remove_ok(1,2) [OF ok p] by simp
qed (simp add: relay_ok_def contents_ok_def)

text \<open>
  Cleaning up a relay with consistent tables releases every face, forwarding entry, pending interest,
  content and nonce, and touches nothing that was freed before.
\<close>

lemma cleanup_releases_all:
  assumes "relay_ok r"
  defines "r' \<equiv> ccnl_core_cleanup r"
  shows "rl_faces r' = [] \<and> rl_fib r' = [] \<and> rl_pit r' = [] \<and> rl_contents r' = [] \<and> rl_nonces r' = []
    \<and> rl_pitcnt r' = 0 \<and> rl_contentcnt r' = 0 \<and> rl_faults r' = rl_faults r"
proof -
  define r1 where "r1 = foldl ccnl_interest_remove r (map in_ptr (rl_pit r))"
  define r2 where "r2 = foldl ccnl_face_remove r1 (map fc_ptr (rl_faces r1))"
  define r3 where "r3 = r2\<lparr>rl_fib := []\<rparr>"
  define r4 where "r4 = foldl ccnl_content_remove r3 (map ct_ptr (rl_contents r3))"
  have 1: "relay_ok r1 \<and> rl_faults r1 = rl_faults r \<and> rl_pit r1 = []"
    using interests.clear [of r "rl_faults r"] assms(1) by (simp add: r1_def)
  have 2: "relay_ok r2 \<and> rl_faults r2 = rl_faults r \<and> rl_pit r2 = [] \<and> rl_faces r2 = []"
    using faces.clear [OF 1] by (simp add: r2_def)
  then have 3: "relay_ok r3 \<and> rl_faults r3 = rl_faults r \<and> rl_pit r3 = [] \<and> rl_faces r3 = [] \<and> rl_fib r3 = []"
    by (auto simp: r3_def relay_ok_def faces_ok_def ifs_ok_def pit_ok_def contents_ok_def fib_ok_def nonces_ok_def)
  have 4: "relay_ok r4" "rl_faults r4 = rl_faults r" "rl_pit r4 = []" "rl_faces r4 = []" "rl_fib r4 = []" "rl_contents r4 = []"
    using contents.clear [OF 3] by (simp_all add: r4_def)
  have "r' = r4\<lparr>rl_nonces := []\<rparr>" by (simp add: r'_def ccnl_core_cleanup_def Let_def r1_def r2_def r3_def r4_def)
  with 4 pit_count [OF 4(1)] content_count [OF 4(1)] show ?thesis by simp
qed

subsection \<open>Looking up a printed name\<close>

text \<open>
  A look-up by a printed name compares only as many bytes as the stored name is long: every path that
  continues a stored name finds, and removes, that content.
\<close>

lemma lookup_accepts_extensions:
  assumes "\<forall>n. re_alloc E n" "rl_contents r = c # cs" "ccnl_prefix_to_str_detailed (name_of (ct_pkt c)) False CCNL_MAX_PREFIX_SIZE = Some spref"
  shows "fst (ccnl_cs_lookup E r (Some (spref @ rest))) = Some c
    \<and> fst (ccnl_cs_remove E r (Some (spref @ rest))) = 0
    \<and> rl_contents (snd (ccnl_cs_remove E r (Some (spref @ rest)))) = filter (\<lambda>d. ct_ptr d \<noteq> ct_ptr c) cs"
  using assms by (simp add: ccnl_cs_lookup_def ccnl_cs_remove_def ccnl_prefix_to_path_def ccnl_calloc_def ccnl_content_remove_def)

subsection \<open>Examples\<close>

definition ex_content :: "nat \<Rightarrow> bytes list \<Rightarrow> u8 \<Rightarrow> u32 \<Rightarrow> ccnl_content_s" where
  "ex_content p cs flags t = \<lparr>ct_ptr = p, ct_pkt = reply_pkt\<lparr>pk_pfx := Some (ex_prefix cs)\<rparr>, ct_flags = flags, ct_last_used = t, ct_served_cnt = 0\<rparr>"

definition ex_store :: "ccnl_content_s list \<Rightarrow> ccnl_relay_s" where
  "ex_store cs = (ex_busy [[1]] [])\<lparr>rl_contents := cs, rl_contentcnt := int (length cs)\<rparr>"

lemma ex_content_simps [simp]:
  "ct_ptr (ex_content p cs fl t) = p" "name_of (ct_pkt (ex_content p cs fl t)) = ex_prefix cs" "is_static (ex_content p cs fl t) \<longleftrightarrow> fl AND 1 \<noteq> 0"
  "ct_last_used (ex_content p cs fl t) = t"
  by (simp_all add: ex_content_def name_of_def is_static_def CCNL_CONTENT_FLAGS_STATIC_def)

lemma ex_store_simps [simp]: "rl_contents (ex_store cs) = cs" "rl_contentcnt (ex_store cs) = int (length cs)" "rl_max_cache_entries (ex_store cs) = 2"
  by (simp_all add: ex_store_def ex_busy_def ex_relay_def)

lemma ex_same_name [simp]: "same_name (ct_pkt (ex_content p cs fl t)) (ct_pkt (ex_content p' cs' fl' t')) \<longleftrightarrow> cs = cs'"
  by (simp add: same_name_def prefix_cmp_exact)

lemma ex_store_ok: "relay_ok (ex_store [ex_content 6 [[1]] 0 80, ex_content 7 [[2]] 0 70])"
proof -
  have "contents_ok (ex_store [ex_content 6 [[1]] 0 80, ex_content 7 [[2]] 0 70])"
    by (simp add: contents_ok_def) (simp add: ex_store_def ex_busy_def)
  then show ?thesis
    using ex_busy_ok [of "[]" "[[1]]"]
    by (auto simp: relay_ok_def faces_ok_def ifs_ok_def pit_ok_def fib_ok_def nonces_ok_def face_ptrs_def net_ptrs_def ex_store_def)
qed

theorem nonce_window_witness:
  "relay_ok (ex_busy [[1]] []) \<and> fst (ccnl_nonce_find_or_append ex_env (ex_busy [[1]] []) [7]) = 0
   \<and> fst (ccnl_nonce_find_or_append ex_env (snd (ccnl_nonce_find_or_append ex_env (snd (ccnl_nonce_find_or_append ex_env (ex_busy [[1]] []) [7])) [8])) [7]) = -1"
  using nonce_window [where r = "ex_busy [[1]] []" and E = ex_env and n = "[7]" and ns = "[[8]]" and ms = "[]"] ex_busy_ok by simp

theorem unanswered_interests_forgotten_witness:
  "relay_ok (ex_busy [[1]] [ex_interest]) \<and> length (replicate 8 ex_env) = 8
   \<and> rl_pit (foldl (\<lambda>r E. ccnl_do_ageing (relay_env E) r) (ex_busy [[1]] [ex_interest]) (replicate 8 ex_env)) = []"
  using unanswered_interests_forgotten [OF ex_busy_ok, of "[ex_interest]" "[[1]]" "replicate 8 ex_env"] ex_busy_ok by (simp add: ex_interest_def)

end
