(* ===== verification/Rina_Ids.thy ===== *)
theory Rina_Ids
  imports Pep_Prelude
begin

section \<open>Port and connection identifiers of the RINA stack (pidm.c, cidm.c)\<close>

text \<open>
  The kernel side of the RINA stack that PEP-DNA's \<open>rina.c\<close> writes to numbers its flows by
  port-ids and the endpoints of its connections by cep-ids. Two managers with the same code
  hand them out: a list of the identifiers in use, the last one put in front, and the last one
  allocated. Identifiers are C's \<open>int\<close>; they stay below \<open>2 ^ 16\<close>. The search for a free
  identifier is a loop without a bound, hence a partial function: \<open>None\<close> means that it does not
  return. What both managers share is proved once, in the locale \<open>id_manager\<close>.
\<close>

subsection \<open>The two managers\<close>

definition MAX_PORT_ID :: int where "MAX_PORT_ID = push_bit 8 64 * 4 - 1"
definition MAX_CEP_ID :: int where "MAX_CEP_ID = push_bit 8 64 * 4 - 1"

definition is_port_id_ok :: "int \<Rightarrow> bool" where "is_port_id_ok i \<longleftrightarrow> i \<ge> 0"
definition port_id_bad :: int where "port_id_bad = -1"
definition cep_id_bad :: int where "cep_id_bad = -1"

record pidm =
  allocated_ports :: "int list"
  last_port :: int

record cidm =
  allocated_cep_ids :: "int list"
  last_cep :: int

text \<open>Creation returns nothing when the instance cannot be allocated (\<open>ok\<close> is the answer of
  \<open>rkmalloc\<close>); destruction frees the instance, so nothing is left of it.\<close>

definition pidm_create :: "bool \<Rightarrow> pidm option" where
  "pidm_create ok = (if ok then Some \<lparr>allocated_ports = [], last_port = 0\<rparr> else None)"

definition cidm_create :: "bool \<Rightarrow> cidm option" where
  "cidm_create ok = (if ok then Some \<lparr>allocated_cep_ids = [], last_cep = 0\<rparr> else None)"

definition pidm_destroy :: "pidm option \<Rightarrow> pidm option \<times> int" where
  "pidm_destroy inst = (case inst of None \<Rightarrow> (None, -1) | Some _ \<Rightarrow> (None, 0))"

definition cidm_destroy :: "cidm option \<Rightarrow> cidm option \<times> int" where
  "cidm_destroy inst = (case inst of None \<Rightarrow> (None, -1) | Some _ \<Rightarrow> (None, 0))"

definition pidm_allocated :: "pidm option \<Rightarrow> int \<Rightarrow> int" where
  "pidm_allocated inst i =
    (case inst of None \<Rightarrow> -1 | Some m \<Rightarrow> if i \<in> set (allocated_ports m) then 1 else 0)"

definition cidm_allocated :: "cidm option \<Rightarrow> int \<Rightarrow> int" where
  "cidm_allocated inst i =
    (case inst of None \<Rightarrow> -1 | Some m \<Rightarrow> if i \<in> set (allocated_cep_ids m) then 1 else 0)"

text \<open>The loop of the allocation, from a first candidate.\<close>

partial_function (option) pidm_search :: "pidm \<Rightarrow> int \<Rightarrow> int option" where
  [code]: "pidm_search m pid =
    (if pidm_allocated (Some m) pid \<noteq> 0
     then pidm_search m (if pid = MAX_PORT_ID then 1 else pid + 1) else Some pid)"

partial_function (option) cidm_search :: "cidm \<Rightarrow> int \<Rightarrow> int option" where
  [code]: "cidm_search m cep_id =
    (if cidm_allocated (Some m) cep_id \<noteq> 0
     then cidm_search m (if cep_id = MAX_CEP_ID then 1 else cep_id + 1) else Some cep_id)"

text \<open>
  Allocation: the manager afterwards and the identifier, \<open>None\<close> when the search does not end;
  \<open>ok\<close> is the answer of \<open>rkmalloc\<close> for the list entry.
\<close>

definition pidm_allocate :: "bool \<Rightarrow> pidm option \<Rightarrow> (pidm option \<times> int) option" where
  "pidm_allocate ok inst =
    (case inst of None \<Rightarrow> Some (None, port_id_bad)
     | Some m \<Rightarrow>
        (case pidm_search m (if last_port m = MAX_PORT_ID then 1 else last_port m + 1) of
           None \<Rightarrow> None
         | Some pid \<Rightarrow>
            if \<not> ok then Some (Some m, port_id_bad)
            else Some (Some (m\<lparr>allocated_ports := pid # allocated_ports m, last_port := pid\<rparr>),
                       pid)))"

definition cidm_allocate :: "bool \<Rightarrow> cidm option \<Rightarrow> (cidm option \<times> int) option" where
  "cidm_allocate ok inst =
    (case inst of None \<Rightarrow> Some (None, port_id_bad)
     | Some m \<Rightarrow>
        (case cidm_search m (if last_cep m = MAX_CEP_ID then 1 else last_cep m + 1) of
           None \<Rightarrow> None
         | Some cep_id \<Rightarrow>
            if \<not> ok then Some (Some m, cep_id_bad)
            else Some (Some (m\<lparr>allocated_cep_ids := cep_id # allocated_cep_ids m,
                               last_cep := cep_id\<rparr>),
                       cep_id)))"

text \<open>Release removes the first entry with the identifier and answers 0 also when there is none.\<close>

definition pidm_release :: "pidm option \<Rightarrow> int \<Rightarrow> pidm option \<times> int" where
  "pidm_release inst i =
    (if \<not> is_port_id_ok i then (inst, -1)
     else case inst of None \<Rightarrow> (None, -1)
       | Some m \<Rightarrow>
          if i \<in> set (allocated_ports m)
          then (Some (m\<lparr>allocated_ports := remove1 i (allocated_ports m)\<rparr>), 0)
          else (Some m, 0))"

definition cidm_release :: "cidm option \<Rightarrow> int \<Rightarrow> cidm option \<times> int" where
  "cidm_release inst i =
    (if \<not> is_port_id_ok i then (inst, -1)
     else case inst of None \<Rightarrow> (None, -1)
       | Some m \<Rightarrow>
          if i \<in> set (allocated_cep_ids m)
          then (Some (m\<lparr>allocated_cep_ids := remove1 i (allocated_cep_ids m)\<rparr>), 0)
          else (Some m, 0))"

lemmas max_ids = MAX_PORT_ID_def MAX_CEP_ID_def

lemma max_id_value: "MAX_PORT_ID = 65535" "MAX_CEP_ID = 65535"
  by (simp_all add: max_ids push_bit_eq_mult)

subsection \<open>What an identifier manager promises\<close>

text \<open>
  A history of calls: allocations, each with the answer of the allocator for its list entry, and
  releases. \<open>id_run\<close> gives the manager afterwards and the results, \<open>None\<close> when a call does not
  return; \<open>held\<close> is what the callers hold: the identifiers they were given and have not
  released since.
\<close>

datatype id_op = Allocate bool | Release int

fun id_run :: "(bool \<Rightarrow> 'm \<Rightarrow> ('m \<times> int) option) \<Rightarrow> ('m \<Rightarrow> int \<Rightarrow> 'm \<times> int) \<Rightarrow> id_op list \<Rightarrow> 'm
    \<Rightarrow> ('m \<times> int list) option" where
  "id_run al re [] m = Some (m, [])"
| "id_run al re (Allocate ok # ops) m =
    (case al ok m of None \<Rightarrow> None
     | Some (m', i) \<Rightarrow> map_option (map_prod id ((#) i)) (id_run al re ops m'))"
| "id_run al re (Release i # ops) m =
    (case re m i of (m', r) \<Rightarrow> map_option (map_prod id ((#) r)) (id_run al re ops m'))"

fun held :: "id_op list \<Rightarrow> int list \<Rightarrow> int set \<Rightarrow> int set" where
  "held (Allocate ok # ops) (r # rs) H = held ops rs (if r = -1 then H else insert r H)"
| "held (Release i # ops) (r # rs) H = held ops rs (H - {i})"
| "held _ _ H = H"

text \<open>
  The interface: the list of identifiers in use, the last one allocated, the search and the two
  operations on an instance. The laws are the equations of the code; that the search only
  stops at a free identifier among the candidates is a law too, because the equation alone does
  not exclude that a search that does not stop has a result.
\<close>

locale id_manager =
  fixes ids :: "'m \<Rightarrow> int list"
    and last_id :: "'m \<Rightarrow> int"
    and most :: int
    and search :: "'m \<Rightarrow> int \<Rightarrow> int option"
    and allocate :: "bool \<Rightarrow> 'm \<Rightarrow> ('m \<times> int) option"
    and release :: "'m \<Rightarrow> int \<Rightarrow> 'm \<times> int"
  assumes most_pos: "1 \<le> most"
    and search_step: "search m i =
      (if i \<in> set (ids m) then search m (if i = most then 1 else i + 1) else Some i)"
    and search_free: "search m i = Some j \<Longrightarrow> j \<notin> set (ids m)"
    and search_range: "\<lbrakk>search m i = Some j; i \<in> {1..most}\<rbrakk> \<Longrightarrow> j \<in> {1..most}"
    and allocate_none: "allocate ok m = None \<longleftrightarrow>
      search m (if last_id m = most then 1 else last_id m + 1) = None"
    and allocate_some: "allocate True m = Some (m', i) \<Longrightarrow>
      search m (if last_id m = most then 1 else last_id m + 1) = Some i \<and>
      ids m' = i # ids m \<and> last_id m' = i"
    and allocate_fail: "allocate False m = Some (m', i) \<Longrightarrow> m' = m \<and> i = -1"
    and release_ids: "set (ids m) \<subseteq> {1..most} \<Longrightarrow> ids (fst (release m i)) = remove1 i (ids m)"
    and release_last: "last_id (fst (release m i)) = last_id m"
begin

text \<open>The candidate after \<open>i\<close>, and the invariant of a manager.\<close>

definition nxt :: "int \<Rightarrow> int" where
  "nxt i = (if i = most then 1 else i + 1)"

definition fits :: "'m \<Rightarrow> bool" where
  "fits m \<longleftrightarrow> distinct (ids m) \<and> set (ids m) \<subseteq> {1..most} \<and> last_id m \<in> {0..most}"

lemma nxt_range: "i \<in> {0..most} \<Longrightarrow> nxt i \<in> {1..most}"
  using most_pos by (auto simp: nxt_def)

lemma nxt_funpow: "i + int n \<le> most \<Longrightarrow> (nxt ^^ n) i = i + int n"
  by (induction n) (auto simp: nxt_def)

lemma nxt_covers:
  assumes "i \<in> {1..most}" "j \<in> {1..most}"
  shows "\<exists>n. (nxt ^^ n) i = j"
proof (cases "i \<le> j")
  case True
  hence "(nxt ^^ nat (j - i)) i = j" using assms by (simp add: nxt_funpow)
  thus ?thesis ..
next
  case False
  have up: "(nxt ^^ nat (most - i)) i = most" using assms by (simp add: nxt_funpow)
  have from_one: "(nxt ^^ nat (j - 1)) 1 = j" using assms by (simp add: nxt_funpow)
  have "(nxt ^^ (nat (j - 1) + Suc (nat (most - i)))) i = j"
    by (simp only: funpow_add funpow.simps comp_def up) (simp add: nxt_def from_one)
  thus ?thesis ..
qed

lemma search_iterates:
  "\<lbrakk>\<forall>k<n. (nxt ^^ k) i \<in> set (ids m); (nxt ^^ n) i \<notin> set (ids m)\<rbrakk>
   \<Longrightarrow> search m i = Some ((nxt ^^ n) i)"
proof (induction n arbitrary: i)
  case 0 thus ?case by (subst search_step) simp
next
  case (Suc n)
  have shift: "(nxt ^^ k) (nxt i) = (nxt ^^ Suc k) i" for k
    by (simp add: funpow_swap1)
  have used: "i \<in> set (ids m)" using Suc.prems(1) by (metis funpow_0 zero_less_Suc)
  have "search m (nxt i) = Some ((nxt ^^ n) (nxt i))"
    by (rule Suc.IH) (use Suc.prems in \<open>auto simp only: shift Suc_less_eq\<close>)
  thus ?case using used by (subst search_step) (simp only: nxt_def [symmetric] shift if_True)
qed

text \<open>The search ends at the first free candidate, when one is free.\<close>

lemma search_first_free:
  assumes "i \<in> {1..most}" "\<not> {1..most} \<subseteq> set (ids m)"
  shows "\<exists>n. search m i = Some ((nxt ^^ n) i) \<and> (\<forall>k<n. (nxt ^^ k) i \<in> set (ids m))"
proof -
  obtain j where j: "j \<in> {1..most}" "j \<notin> set (ids m)" using assms(2) by blast
  obtain n where n: "(nxt ^^ n) i = j" using nxt_covers [OF assms(1) j(1)] ..
  define l where "l = (LEAST n. (nxt ^^ n) i \<notin> set (ids m))"
  have "(nxt ^^ l) i \<notin> set (ids m)"
    unfolding l_def by (rule LeastI [of _ n]) (simp add: n j(2))
  moreover have "\<forall>k<l. (nxt ^^ k) i \<in> set (ids m)"
    using not_less_Least by (auto simp: l_def)
  ultimately show ?thesis using search_iterates by blast
qed

lemma search_returns:
  assumes "i \<in> {1..most}"
  shows "search m i = None \<longleftrightarrow> {1..most} \<subseteq> set (ids m)"
proof
  show "{1..most} \<subseteq> set (ids m)" if "search m i = None"
    using search_first_free [OF assms, of m] that by auto
  show "search m i = None" if "{1..most} \<subseteq> set (ids m)"
  proof (cases "search m i")
    case (Some j)
    thus ?thesis using search_free [OF Some] search_range [OF Some assms] that by blast
  qed
qed

lemma first_candidate: "fits m \<Longrightarrow> (if last_id m = most then 1 else last_id m + 1) \<in> {1..most}"
  using nxt_range [of "last_id m"] by (simp add: nxt_def fits_def)

lemma allocate_returns: "fits m \<Longrightarrow> allocate ok m = None \<longleftrightarrow> {1..most} \<subseteq> set (ids m)"
  by (simp only: allocate_none search_returns [OF first_candidate])

lemma allocate_next:
  assumes "fits m" "\<not> {1..most} \<subseteq> set (ids m)"
  shows "\<exists>m' n. allocate True m = Some (m', (nxt ^^ Suc n) (last_id m))
    \<and> (\<forall>k<n. (nxt ^^ Suc k) (last_id m) \<in> set (ids m))"
proof -
  obtain n where n: "search m (nxt (last_id m)) = Some ((nxt ^^ n) (nxt (last_id m)))"
      "\<forall>k<n. (nxt ^^ k) (nxt (last_id m)) \<in> set (ids m)"
    using search_first_free [OF nxt_range assms(2), of "last_id m"] assms(1)
    unfolding fits_def by blast
  obtain m' i where a: "allocate True m = Some (m', i)"
    using allocate_returns [OF assms(1)] assms(2) by (metis not_None_eq surj_pair)
  have "i = (nxt ^^ n) (nxt (last_id m))"
    using allocate_some [OF a] n(1) by (simp add: nxt_def)
  thus ?thesis using a n(2) by (auto simp: funpow_swap1)
qed

lemma allocate_fits:
  assumes "fits m" "allocate ok m = Some (m', i)"
  shows "fits m' \<and> (if ok then i \<in> {1..most} \<and> i \<notin> set (ids m) \<and> ids m' = i # ids m
                     else m' = m \<and> i = -1)"
proof (cases ok)
  case True
  have a: "search m (if last_id m = most then 1 else last_id m + 1) = Some i"
      "ids m' = i # ids m" "last_id m' = i"
    using allocate_some assms(2) True by auto
  have "i \<in> {1..most}" by (rule search_range [OF a(1) first_candidate [OF assms(1)]])
  thus ?thesis using a search_free [OF a(1)] assms(1) True by (auto simp: fits_def)
qed (use assms allocate_fail in auto)

lemma release_fits: "fits m \<Longrightarrow> fits (fst (release m i))"
  by (auto simp: fits_def release_ids release_last distinct_remove1 dest: notin_set_remove1)

text \<open>
  After any history the identifiers in use are distinct, in range, and exactly those the callers
  hold.
\<close>

lemma run_fits:
  "\<lbrakk>id_run allocate release ops m = Some (m', rs); fits m\<rbrakk>
   \<Longrightarrow> fits m' \<and> set (ids m') = held ops rs (set (ids m))"
proof (induction ops arbitrary: m rs)
  case (Cons op ops)
  show ?case
  proof (cases op)
    case [simp]: (Allocate ok)
    obtain m1 i rs1 where s: "allocate ok m = Some (m1, i)" "rs = i # rs1"
        "id_run allocate release ops m1 = Some (m', rs1)"
      using Cons.prems(1) by (auto split: option.splits)
    have f: "fits m1 \<and> (if ok then i \<in> {1..most} \<and> i \<notin> set (ids m) \<and> ids m1 = i # ids m
        else m1 = m \<and> i = -1)"
      by (rule allocate_fits [OF Cons.prems(2) s(1)])
    have "set (ids m1) = (if i = -1 then set (ids m) else insert i (set (ids m)))"
      using f by (auto split: if_splits)
    thus ?thesis using Cons.IH [OF s(3)] f s(2) by simp
  next
    case [simp]: (Release i)
    obtain m1 r rs1 where s: "release m i = (m1, r)" "rs = r # rs1"
        "id_run allocate release ops m1 = Some (m', rs1)"
      using Cons.prems(1) by (auto split: prod.splits)
    have "fits m1" "set (ids m1) = set (ids m) - {i}"
      using release_fits [OF Cons.prems(2), of i] release_ids [of m i] Cons.prems(2) s(1)
      by (auto simp: fits_def)
    thus ?thesis using Cons.IH [OF s(3)] s(2) by simp
  qed
qed simp

end

subsection \<open>Both managers keep the promise\<close>

text \<open>The operations on an instance that exists.\<close>

definition port_allocate :: "bool \<Rightarrow> pidm \<Rightarrow> (pidm \<times> int) option" where
  "port_allocate ok m = map_option (map_prod the id) (pidm_allocate ok (Some m))"

definition port_release :: "pidm \<Rightarrow> int \<Rightarrow> pidm \<times> int" where
  "port_release m i = map_prod the id (pidm_release (Some m) i)"

definition cep_allocate :: "bool \<Rightarrow> cidm \<Rightarrow> (cidm \<times> int) option" where
  "cep_allocate ok m = map_option (map_prod the id) (cidm_allocate ok (Some m))"

definition cep_release :: "cidm \<Rightarrow> int \<Rightarrow> cidm \<times> int" where
  "cep_release m i = map_prod the id (cidm_release (Some m) i)"

lemma pidm_search_result:
  assumes "pidm_search m i = Some j"
  shows "j \<notin> set (allocated_ports m) \<and> (i \<in> {1..MAX_PORT_ID} \<longrightarrow> j \<in> {1..MAX_PORT_ID})"
  by (rule pidm_search.raw_induct [where P = "\<lambda>m i j. j \<notin> set (allocated_ports m) \<and>
        (i \<in> {1..MAX_PORT_ID} \<longrightarrow> j \<in> {1..MAX_PORT_ID})", OF _ assms])
     (fastforce simp: pidm_allocated_def max_id_value split: if_splits)

lemma cidm_search_result:
  assumes "cidm_search m i = Some j"
  shows "j \<notin> set (allocated_cep_ids m) \<and> (i \<in> {1..MAX_CEP_ID} \<longrightarrow> j \<in> {1..MAX_CEP_ID})"
  by (rule cidm_search.raw_induct [where P = "\<lambda>m i j. j \<notin> set (allocated_cep_ids m) \<and>
        (i \<in> {1..MAX_CEP_ID} \<longrightarrow> j \<in> {1..MAX_CEP_ID})", OF _ assms])
     (fastforce simp: cidm_allocated_def max_id_value split: if_splits)

lemma port_release_ids:
  "set (allocated_ports m) \<subseteq> {1..MAX_PORT_ID} \<Longrightarrow> allocated_ports (fst (port_release m i)) = remove1 i (allocated_ports m)"
  by (auto simp: port_release_def pidm_release_def is_port_id_ok_def remove1_idem)

lemma pidm_search_step:
  "pidm_search m i =
    (if i \<in> set (allocated_ports m) then pidm_search m (if i = MAX_PORT_ID then 1 else i + 1) else Some i)"
  by (subst pidm_search.simps) (simp add: pidm_allocated_def)

interpretation ports: id_manager allocated_ports last_port MAX_PORT_ID pidm_search port_allocate port_release
proof unfold_locales
  show "1 \<le> MAX_PORT_ID" by (simp add: max_id_value)
  show "pidm_search m i = (if i \<in> set (allocated_ports m)
    then pidm_search m (if i = MAX_PORT_ID then 1 else i + 1) else Some i)" for m i
    by (rule pidm_search_step)
qed (use pidm_search_result port_release_ids in
      \<open>auto simp: port_allocate_def pidm_allocate_def port_release_def pidm_release_def port_id_bad_def
         cep_id_bad_def split: option.splits if_splits\<close>)

lemma cep_release_ids:
  "set (allocated_cep_ids m) \<subseteq> {1..MAX_CEP_ID} \<Longrightarrow> allocated_cep_ids (fst (cep_release m i)) = remove1 i (allocated_cep_ids m)"
  by (auto simp: cep_release_def cidm_release_def is_port_id_ok_def remove1_idem)

lemma cidm_search_step:
  "cidm_search m i =
    (if i \<in> set (allocated_cep_ids m) then cidm_search m (if i = MAX_CEP_ID then 1 else i + 1) else Some i)"
  by (subst cidm_search.simps) (simp add: cidm_allocated_def)

interpretation ceps: id_manager allocated_cep_ids last_cep MAX_CEP_ID cidm_search cep_allocate cep_release
proof unfold_locales
  show "1 \<le> MAX_CEP_ID" by (simp add: max_id_value)
  show "cidm_search m i = (if i \<in> set (allocated_cep_ids m)
    then cidm_search m (if i = MAX_CEP_ID then 1 else i + 1) else Some i)" for m i
    by (rule cidm_search_step)
qed (use cidm_search_result cep_release_ids in
      \<open>auto simp: cep_allocate_def cidm_allocate_def cep_release_def cidm_release_def port_id_bad_def
         cep_id_bad_def split: option.splits if_splits\<close>)

lemma port_fits: "ports.fits m \<longleftrightarrow>
    distinct (allocated_ports m) \<and> set (allocated_ports m) \<subseteq> {1..65535} \<and> last_port m \<in> {0..65535}"
  unfolding ports.fits_def by (simp only: max_id_value)

lemma port_nxt: "ports.nxt = (\<lambda>i. if i = 65535 then 1 else i + 1)"
  unfolding ports.nxt_def [abs_def] by (simp only: max_id_value)

lemma port_create_fits: "pidm_create True = Some m \<Longrightarrow> ports.fits m \<and> allocated_ports m = []"
  by (auto simp: pidm_create_def port_fits)

lemma port_run_fits:
  assumes "pidm_create True = Some m0" "id_run port_allocate port_release ops m0 = Some (m, rs)"
  shows "ports.fits m \<and> set (allocated_ports m) = held ops rs {}"
  using ports.run_fits [OF assms(2)] port_create_fits [OF assms(1)] by simp

lemma pidm_allocate_None: "pidm_allocate ok (Some m) = None \<longleftrightarrow> port_allocate ok m = None"
  by (simp add: port_allocate_def)

lemma pidm_allocate_Some:
  "port_allocate True m = Some (m', i) \<Longrightarrow> pidm_allocate True (Some m) = Some (Some m', i)"
  by (cases "pidm_search m (if last_port m = MAX_PORT_ID then 1 else last_port m + 1)")
     (auto simp: port_allocate_def pidm_allocate_def)

subsection \<open>Properties\<close>

text \<open>
  C24. After any history of allocations and releases on a new manager, with any failures of the
  memory allocator and any numbers passed to the release, the port-ids in use are distinct, lie
  between 1 and 65535, and are exactly those the callers were given and have not released: no
  port-id is held twice and none is lost.
\<close>

theorem port_ids_held:
  assumes "pidm_create True = Some m0"
    and "id_run port_allocate port_release ops m0 = Some (m, rs)"
  shows "distinct (allocated_ports m) \<and> set (allocated_ports m) \<subseteq> {1..65535}
    \<and> set (allocated_ports m) = held ops rs {}"
  using port_run_fits [OF assms] unfolding port_fits by blast

theorem port_ids_held_witness:
  "distinct [3 :: int, 2] \<and> set [3 :: int, 2] \<subseteq> {1..65535} \<and>
   set [3 :: int, 2] = held [Allocate True, Allocate True, Release 1, Allocate False, Release 7,
     Allocate True] [1, 2, 0, -1, 0, 3] {}"
proof -
  have c: "pidm_create True = Some \<lparr>allocated_ports = [], last_port = 0\<rparr>" by code_simp
  have r: "id_run port_allocate port_release
      [Allocate True, Allocate True, Release 1, Allocate False, Release 7, Allocate True]
      \<lparr>allocated_ports = [], last_port = 0\<rparr>
    = Some (\<lparr>allocated_ports = [3, 2], last_port = 3\<rparr>, [1, 2, 0, -1, 0, 3])"
    by code_simp
  show ?thesis using port_ids_held [OF c r] unfolding pidm.simps .
qed

text \<open>
  C25. After any such history the search of an allocation ends exactly when some port-id between 1
  and 65535 is not held: with all of them held \<open>pidm_allocate\<close> does not return, whatever the
  memory allocator would answer. When it ends, the port-id is the first one in cyclic order after
  the last allocated one that nobody holds.
\<close>

theorem port_allocate_returns:
  assumes "pidm_create True = Some m0"
    and "id_run port_allocate port_release ops m0 = Some (m, rs)"
  shows "(pidm_allocate ok (Some m) = None \<longleftrightarrow> {1..65535} \<subseteq> held ops rs {}) \<and>
    (\<not> {1..65535} \<subseteq> held ops rs {} \<longrightarrow>
      (let succ = \<lambda>i. if i = 65535 then 1 else i + 1
       in \<exists>m' n. pidm_allocate True (Some m) = Some (Some m', (succ ^^ Suc n) (last_port m))
            \<and> (succ ^^ Suc n) (last_port m) \<in> {1..65535} - held ops rs {}
            \<and> (\<forall>k<n. (succ ^^ Suc k) (last_port m) \<in> held ops rs {})))"
proof -
  have f: "ports.fits m" and h: "set (allocated_ports m) = held ops rs {}"
    using port_run_fits [OF assms] by auto
  have ret: "pidm_allocate ok (Some m) = None \<longleftrightarrow> {1..65535} \<subseteq> held ops rs {}"
    using ports.allocate_returns [OF f, of ok] h
    by (simp add: pidm_allocate_None max_id_value)
  have "\<exists>m' n. pidm_allocate True (Some m) = Some (Some m', (ports.nxt ^^ Suc n) (last_port m))
            \<and> (ports.nxt ^^ Suc n) (last_port m) \<in> {1..65535} - held ops rs {}
            \<and> (\<forall>k<n. (ports.nxt ^^ Suc k) (last_port m) \<in> held ops rs {})"
    if free: "\<not> {1..65535} \<subseteq> held ops rs {}"
  proof -
    obtain m' n where a: "port_allocate True m = Some (m', (ports.nxt ^^ Suc n) (last_port m))"
        "\<forall>k<n. (ports.nxt ^^ Suc k) (last_port m) \<in> set (allocated_ports m)"
      using ports.allocate_next [OF f] free unfolding h max_id_value(1) [symmetric] by blast
    have "pidm_allocate True (Some m) = Some (Some m', (ports.nxt ^^ Suc n) (last_port m))"
      by (rule pidm_allocate_Some [OF a(1)])
    moreover have "(ports.nxt ^^ Suc n) (last_port m) \<in> {1..65535} - held ops rs {}"
      using ports.allocate_fits [OF f a(1)] unfolding h max_id_value(1) by simp
    ultimately show ?thesis using a(2) h by blast
  qed
  thus ?thesis using ret by (simp only: port_nxt Let_def) blast
qed

theorem port_allocate_returns_witness:
  "pidm_allocate False (Some \<lparr>allocated_ports = [2], last_port = 2\<rparr>) \<noteq> None \<and>
   \<not> {1..65535} \<subseteq> held [Allocate True, Allocate True, Release 1] [1, 2, 0] {}"
proof -
  have c: "pidm_create True = Some \<lparr>allocated_ports = [], last_port = 0\<rparr>" by code_simp
  have r: "id_run port_allocate port_release [Allocate True, Allocate True, Release 1]
      \<lparr>allocated_ports = [], last_port = 0\<rparr>
    = Some (\<lparr>allocated_ports = [2], last_port = 2\<rparr>, [1, 2, 0])"
    by code_simp
  have free: "\<not> {1..65535} \<subseteq> held [Allocate True, Allocate True, Release 1] [1, 2, 0] {}"
  proof
    assume "{1..65535} \<subseteq> held [Allocate True, Allocate True, Release 1] [1, 2, 0] {}"
    hence "(1 :: int) \<in> held [Allocate True, Allocate True, Release 1] [1, 2, 0] {}"
      by (rule subsetD) simp
    thus False by simp
  qed
  thus ?thesis using port_allocate_returns [OF c r, of False] by blast
qed

end
