(* ===== verification/Rina_Ringq.thy ===== *)
theory Rina_Ringq
  imports Pep_Prelude
begin

section \<open>The ring queue of the RINA stack (rds/ringq.c)\<close>

text \<open>
  DTP keeps the data units it is going to deliver and the control PDUs it is going to send in
  queues of a fixed number of entries, linked in a circular list with a head: \<open>slots\<close> is the list
  from the head on, an empty entry is \<open>None\<close>, and \<open>cur\<close> is the position of the entry the next
  element is written to. The position behind the last entry is the head of the list, which is not
  an entry: writing there is a fault (\<open>None\<close>). Taking an element moves its entry to the end of
  the list, so the position of every other entry decreases by one.
\<close>

record 'a ringq =
  slots :: "'a option list"
  cur :: nat
  occupation :: nat

text \<open>Creation: the instance and its entries are allocated one after the other.\<close>

fun ringq_entries :: "nat \<Rightarrow> bool list \<Rightarrow> 'a option list \<Rightarrow> 'a option list option" where
  "ringq_entries 0 m es = Some es"
| "ringq_entries (Suc n) [] es = ringq_entries n [] (None # es)"
| "ringq_entries (Suc n) (ok # m) es = (if ok then ringq_entries n m (None # es) else None)"

definition ringq_create :: "nat \<Rightarrow> bool list \<Rightarrow> 'a ringq option" where
  "ringq_create len m =
    (if m \<noteq> [] \<and> \<not> hd m then None
     else map_option (\<lambda>es. \<lparr>slots = es, cur = 0, occupation = 0\<rparr>) (ringq_entries len (tl m) []))"

definition nxt_entry :: "'a ringq \<Rightarrow> nat \<Rightarrow> nat" where
  "nxt_entry q i = (if i \<ge> length (slots q) then 0 else i + 1)"

definition ringq_push :: "'a ringq option \<Rightarrow> 'a \<Rightarrow> ('a ringq option \<times> int) option" where
  "ringq_push rq e =
    (case rq of
       None \<Rightarrow> Some (None, -1)
     | Some q \<Rightarrow>
        if occupation q \<ge> length (slots q) then Some (rq, -1)
        else if cur q \<ge> length (slots q) then None
        else Some (Some (q\<lparr>slots := (slots q)[cur q := Some e],
                           cur := if occupation q < length (slots q) - 1 then nxt_entry q (cur q) else cur q,
                           occupation := occupation q + 1\<rparr>), 0))"

definition ringq_pop :: "'a ringq option \<Rightarrow> 'a ringq option \<times> 'a option" where
  "ringq_pop rq =
    (case rq of
       None \<Rightarrow> (None, None)
     | Some q \<Rightarrow>
        if occupation q = 0 then (rq, None)
        else
          let moved = q\<lparr>slots := tl (slots q) @ [None],
                        cur := if cur q = 0 then length (slots q) - 1
                               else if cur q < length (slots q) then cur q - 1 else cur q\<rparr>
          in (Some (moved\<lparr>cur := if occupation q = length (slots q) then nxt_entry moved (cur moved)
                                 else cur moved,
                          occupation := occupation q - 1\<rparr>),
              hd (slots q)))"

definition ringq_is_empty :: "'a ringq \<Rightarrow> bool" where
  "ringq_is_empty q \<longleftrightarrow> occupation q = 0"

definition ringq_length :: "'a ringq option \<Rightarrow> int" where
  "ringq_length rq = (case rq of None \<Rightarrow> -1 | Some q \<Rightarrow> int (length (slots q)))"

definition ringq_occupation :: "'a ringq option \<Rightarrow> int" where
  "ringq_occupation rq = (case rq of None \<Rightarrow> -1 | Some q \<Rightarrow> int (occupation q))"

text \<open>Destruction gives back the elements that are still in the queue to the destructor.\<close>

definition ringq_destroy :: "'a ringq option \<Rightarrow> bool \<Rightarrow> 'a list \<times> int" where
  "ringq_destroy rq dtor =
    (case rq of None \<Rightarrow> ([], -1)
     | Some q \<Rightarrow> if \<not> dtor then ([], -1) else (map the (filter (\<lambda>e. e \<noteq> None) (slots q)), 0))"

text \<open>
  The loop that empties a queue, as DTP writes it: \<open>while (!ringq_is_empty(q)) ringq_pop(q)\<close>, with
  the elements in the order in which they are taken. Each round takes one element off the count.
\<close>

function ringq_drain :: "'a ringq \<Rightarrow> 'a ringq \<times> 'a list" where
  "ringq_drain q =
    (if ringq_is_empty q then (q, [])
     else case ringq_pop (Some q) of
       (None, _) \<Rightarrow> (q, [])
     | (Some q', e) \<Rightarrow> map_prod id (\<lambda>es. case e of None \<Rightarrow> es | Some x \<Rightarrow> x # es) (ringq_drain q'))"
  by pat_completeness auto

termination
  by (relation "measure occupation") (auto simp: ringq_is_empty_def ringq_pop_def Let_def split: if_splits)

declare ringq_drain.simps [simp del]

subsection \<open>The interface: a bounded queue\<close>

text \<open>
  What the users of the queue rely on: below its capacity an element is appended, at its capacity
  it is refused and nothing changes, and elements leave in the order in which they came.
\<close>

locale bounded_queue =
  fixes ok :: "'q \<Rightarrow> bool"
    and contents :: "'q \<Rightarrow> 'a list"
    and capacity :: "'q \<Rightarrow> nat"
    and push :: "'q option \<Rightarrow> 'a \<Rightarrow> ('q option \<times> int) option"
    and drain :: "'q \<Rightarrow> 'q \<times> 'a list"
  assumes push_room: "\<lbrakk>ok q; length (contents q) < capacity q\<rbrakk> \<Longrightarrow>
      \<exists>q'. push (Some q) x = Some (Some q', 0) \<and> ok q' \<and> contents q' = contents q @ [x]
        \<and> capacity q' = capacity q"
    and push_full: "\<lbrakk>ok q; length (contents q) \<ge> capacity q\<rbrakk> \<Longrightarrow> push (Some q) x = Some (Some q, -1)"
    and drain_all: "ok q \<Longrightarrow> \<exists>q'. drain q = (q', contents q) \<and> ok q' \<and> contents q' = []
        \<and> capacity q' = capacity q"
begin

text \<open>A queue filled by a batch of elements and then emptied gives what it held and the batch.\<close>

definition push_all :: "'a list \<Rightarrow> 'q \<Rightarrow> 'q option" where
  "push_all xs q = fold (\<lambda>x o'. Option.bind o' (\<lambda>q. Option.bind (push (Some q) x) fst)) xs (Some q)"

lemma push_all_contents:
  "\<lbrakk>ok q; length (contents q) + length xs \<le> capacity q\<rbrakk> \<Longrightarrow>
    \<exists>q'. push_all xs q = Some q' \<and> ok q' \<and> contents q' = contents q @ xs \<and> capacity q' = capacity q"
proof (induction xs arbitrary: q)
  case (Cons x xs)
  obtain q1 where q1: "push (Some q) x = Some (Some q1, 0)" "ok q1" "contents q1 = contents q @ [x]"
      "capacity q1 = capacity q"
    using push_room [OF Cons.prems(1)] Cons.prems(2) by auto
  show ?case using Cons.IH [OF q1(2)] Cons.prems(2) q1 by (simp add: push_all_def)
qed (simp add: push_all_def)

lemma batch_in_order:
  assumes "ok q" "contents q = []" "length xs \<le> capacity q"
  shows "\<exists>q' q''. push_all xs q = Some q' \<and> drain q' = (q'', xs) \<and> ok q'' \<and> contents q'' = []"
  using push_all_contents [OF assms(1)] drain_all assms(2,3) by fastforce

end

subsection \<open>The ring keeps the promise\<close>

text \<open>The elements come first, the empty entries behind them, and the cursor is where they meet.\<close>

definition ring_ok :: "'a ringq \<Rightarrow> bool" where
  "ring_ok q \<longleftrightarrow>
    2 \<le> length (slots q) \<and> occupation q \<le> length (slots q)
    \<and> None \<notin> set (take (occupation q) (slots q))
    \<and> cur q = min (occupation q) (length (slots q) - 1)"

definition ring_contents :: "'a ringq \<Rightarrow> 'a list" where
  "ring_contents q = map the (take (occupation q) (slots q))"

definition ring_capacity :: "'a ringq \<Rightarrow> nat" where
  "ring_capacity q = length (slots q)"

lemma length_ring_contents: "ring_ok q \<Longrightarrow> length (ring_contents q) = occupation q"
  by (simp add: ring_contents_def ring_ok_def)

lemma ring_push:
  assumes "ring_ok q" "occupation q < length (slots q)"
  shows "\<exists>q'. ringq_push (Some q) x = Some (Some q', 0) \<and> ring_ok q'
    \<and> ring_contents q' = ring_contents q @ [x] \<and> ring_capacity q' = ring_capacity q"
proof -
  have cur: "cur q = occupation q" "cur q < length (slots q)"
    using assms by (auto simp: ring_ok_def min_def)
  have "take (Suc (occupation q)) ((slots q)[occupation q := Some x]) = take (occupation q) (slots q) @ [Some x]"
    using assms(2) by (simp add: take_Suc_conv_app_nth)
  thus ?thesis using assms cur
    by (auto simp: ringq_push_def ring_ok_def ring_contents_def ring_capacity_def nxt_entry_def min_def)
qed

lemma ring_pop:
  assumes "ring_ok q" "ring_contents q = x # xs"
  shows "\<exists>q'. ringq_pop (Some q) = (Some q', Some x) \<and> ring_ok q' \<and> ring_contents q' = xs
    \<and> ring_capacity q' = ring_capacity q \<and> occupation q = Suc (occupation q')"
proof -
  obtain n s ss where q: "occupation q = Suc n" "slots q = s # ss"
    using assms length_ring_contents [OF assms(1)]
    by (cases "occupation q"; cases "slots q") (auto simp: ring_contents_def)
  have n: "n \<le> length ss" "1 \<le> length ss" using assms(1) q by (auto simp: ring_ok_def)
  have s: "s = Some x" "map the (take n ss) = xs" "None \<notin> set (take n ss)"
    using assms q by (auto simp: ring_ok_def ring_contents_def)
  have cur: "cur q = min (Suc n) (length ss)" using assms(1) q by (simp add: ring_ok_def)
  show ?thesis
  proof (cases "n = length ss")
    case True
    thus ?thesis using q n s cur
      by (auto simp: ringq_pop_def ring_ok_def ring_contents_def ring_capacity_def nxt_entry_def Let_def min_def)
  next
    case False
    hence "n < length ss" using n by simp
    thus ?thesis using q n s cur
      by (auto simp: ringq_pop_def ring_ok_def ring_contents_def ring_capacity_def nxt_entry_def Let_def min_def)
  qed
qed

lemma ring_drain:
  "ring_ok q \<Longrightarrow> \<exists>q'. ringq_drain q = (q', ring_contents q) \<and> ring_ok q' \<and> ring_contents q' = []
     \<and> ring_capacity q' = ring_capacity q"
proof (induction "occupation q" arbitrary: q)
  case 0
  thus ?case by (subst ringq_drain.simps) (simp add: ringq_is_empty_def ring_contents_def)
next
  case (Suc n)
  obtain x xs where c: "ring_contents q = x # xs"
    using Suc.hyps(2) length_ring_contents [OF Suc.prems] by (cases "ring_contents q") auto
  obtain q1 where p: "ringq_pop (Some q) = (Some q1, Some x)" "ring_ok q1" "ring_contents q1 = xs"
      "ring_capacity q1 = ring_capacity q" "occupation q = Suc (occupation q1)"
    using ring_pop [OF Suc.prems c] by blast
  obtain q2 where "ringq_drain q1 = (q2, xs)" "ring_ok q2" "ring_contents q2 = []"
      "ring_capacity q2 = ring_capacity q1"
    using Suc.hyps(1) [of q1] Suc.hyps(2) p by auto
  thus ?case using p Suc.hyps(2) c by (subst ringq_drain.simps) (simp add: ringq_is_empty_def)
qed

interpretation ring: bounded_queue ring_ok ring_contents ring_capacity ringq_push ringq_drain
proof unfold_locales
  fix q :: "'a ringq" and x :: 'a
  assume ok: "ring_ok q"
  show "length (ring_contents q) < ring_capacity q \<Longrightarrow> \<exists>q'. ringq_push (Some q) x = Some (Some q', 0)
      \<and> ring_ok q' \<and> ring_contents q' = ring_contents q @ [x] \<and> ring_capacity q' = ring_capacity q"
    using ring_push [OF ok] length_ring_contents [OF ok] by (simp add: ring_capacity_def)
  show "ring_capacity q \<le> length (ring_contents q) \<Longrightarrow> ringq_push (Some q) x = Some (Some q, -1)"
    using length_ring_contents [OF ok] by (simp add: ringq_push_def ring_capacity_def)
  show "\<exists>q'. ringq_drain q = (q', ring_contents q) \<and> ring_ok q' \<and> ring_contents q' = []
      \<and> ring_capacity q' = ring_capacity q"
    by (rule ring_drain [OF ok])
qed


lemma ringq_entries_spec: "False \<notin> set m \<Longrightarrow> ringq_entries n m es = Some (replicate n None @ es)"
  by (induction n m es rule: ringq_entries.induct) (auto simp: replicate_app_Cons_same)

lemma ring_created:
  assumes "ringq_create len m = Some q" "False \<notin> set m" "2 \<le> len"
  shows "ring_ok q \<and> ring_contents q = [] \<and> ring_capacity q = len"
proof -
  have "False \<notin> set (tl m)" using assms(2) by (cases m) auto
  hence "ringq_entries len (tl m) [] = Some (replicate len (None :: 'a option))"
    by (simp add: ringq_entries_spec)
  hence "q = \<lparr>slots = replicate len None, cur = 0, occupation = 0\<rparr>"
    using assms(1) by (simp add: ringq_create_def split: if_splits)
  thus ?thesis using assms(3) by (simp add: ring_ok_def ring_contents_def ring_capacity_def)
qed

subsection \<open>Properties\<close>

text \<open>
  A history of calls on a queue and its results: of a push its return code, of a pop the element
  (the null pointer is \<open>None\<close>). The specification runs the same calls on a list with a capacity.
\<close>

datatype 'a ring_op = Push 'a | Pop

fun ring_run :: "'a ring_op list \<Rightarrow> 'a ringq \<Rightarrow> ('a ringq \<times> (int + 'a option) list) option" where
  "ring_run [] q = Some (q, [])"
| "ring_run (Push x # ops) q =
    (case ringq_push (Some q) x of
       Some (Some q', r) \<Rightarrow> map_option (map_prod id ((#) (Inl r))) (ring_run ops q')
     | _ \<Rightarrow> None)"
| "ring_run (Pop # ops) q =
    (case ringq_pop (Some q) of
       (Some q', e) \<Rightarrow> map_option (map_prod id ((#) (Inr e))) (ring_run ops q')
     | _ \<Rightarrow> None)"

fun fifo_run :: "nat \<Rightarrow> 'a ring_op list \<Rightarrow> 'a list \<Rightarrow> 'a list \<times> (int + 'a option) list" where
  "fifo_run n [] xs = (xs, [])"
| "fifo_run n (Push x # ops) xs =
    (if length xs < n then map_prod id ((#) (Inl 0)) (fifo_run n ops (xs @ [x]))
     else map_prod id ((#) (Inl (-1))) (fifo_run n ops xs))"
| "fifo_run n (Pop # ops) xs =
    (case xs of [] \<Rightarrow> map_prod id ((#) (Inr None)) (fifo_run n ops [])
     | x # xs \<Rightarrow> map_prod id ((#) (Inr (Some x))) (fifo_run n ops xs))"

lemma ring_run_fifo:
  "ring_ok q \<Longrightarrow> \<exists>q'. ring_ok q' \<and> ring_capacity q' = ring_capacity q \<and>
     ring_run ops q = Some (q', snd (fifo_run (ring_capacity q) ops (ring_contents q))) \<and>
     ring_contents q' = fst (fifo_run (ring_capacity q) ops (ring_contents q))"
proof (induction ops arbitrary: q)
  case (Cons op ops)
  show ?case
  proof (cases op)
    case (Push x)
    show ?thesis
    proof (cases "length (ring_contents q) < ring_capacity q")
      case True
      obtain q1 where "ringq_push (Some q) x = Some (Some q1, 0)" "ring_ok q1"
          "ring_contents q1 = ring_contents q @ [x]" "ring_capacity q1 = ring_capacity q"
        using ring.push_room [OF Cons.prems True] by blast
      thus ?thesis using Cons.IH [of q1] Push True by auto
    next
      case False
      hence "ringq_push (Some q) x = Some (Some q, -1)"
        by (intro ring.push_full [OF Cons.prems]) simp
      thus ?thesis using Cons.IH [OF Cons.prems] Push False by auto
    qed
  next
    case Pop
    show ?thesis
    proof (cases "ring_contents q")
      case Nil
      hence "occupation q = 0" using length_ring_contents [OF Cons.prems] by simp
      thus ?thesis using Cons.IH [OF Cons.prems] Pop Nil by (auto simp: ringq_pop_def)
    next
      case (Cons x xs)
      obtain q1 where "ringq_pop (Some q) = (Some q1, Some x)" "ring_ok q1" "ring_contents q1 = xs"
          "ring_capacity q1 = ring_capacity q"
        using ring_pop [OF \<open>ring_ok q\<close> Cons] by blast
      thus ?thesis using Cons.IH [of q1] Pop Cons by auto
    qed
  qed
qed simp

text \<open>
  C23. A ring queue with two or more entries refines the bounded first-in-first-out queue: every
  history of calls on a new ring, of any length, gives the results the specification gives, an
  element refused when all entries are taken included, and no call writes outside its entries.
\<close>

theorem ringq_refines_fifo:
  assumes "ringq_create len m = Some q" "False \<notin> set m" "2 \<le> len"
  shows "\<exists>q'. ring_run ops q = Some (q', snd (fifo_run len ops []))
    \<and> ring_contents q' = fst (fifo_run len ops [])"
  using ring_run_fifo [of q ops] ring_created [OF assms] by auto

theorem ringq_refines_fifo_witness:
  "\<exists>q'. ring_run [Push 1, Push (2 :: nat), Push 3, Pop, Push 4, Pop, Pop, Pop]
      \<lparr>slots = [None, None], cur = 0, occupation = 0\<rparr>
    = Some (q', snd (fifo_run 2 [Push 1, Push 2, Push 3, Pop, Push 4, Pop, Pop, Pop] []))
    \<and> ring_contents q' = fst (fifo_run 2 [Push 1, Push 2, Push 3, Pop, Push 4, Pop, Pop, Pop] [])"
proof -
  have "ringq_create 2 [] = Some \<lparr>slots = [None, None :: nat option], cur = 0, occupation = 0\<rparr>"
    by code_simp
  thus ?thesis by (rule ringq_refines_fifo) simp_all
qed

text \<open>
  A ring with a single entry is not a queue: taking its element moves the cursor to the head of
  the list, and the next element is written there.
\<close>

lemma ring_of_one_faults:
  "ring_run [Push (1 :: nat), Pop, Push 2] \<lparr>slots = [None], cur = 0, occupation = 0\<rparr> = None"
  by code_simp

end
