(* ===== verification/Rina_Delim.thy ===== *)
theory Rina_Delim
  imports Pep_Prelude
begin

section \<open>Delimiting: fragmentation and reassembly of SDUs (delim-ps-default.c, du.c, efcp.c)\<close>

text \<open>
  The RINA flow PEP-DNA relays over carries SDUs of any size in PDUs of a bounded size. The
  sender (\<open>efcp_write\<close>) cuts an SDU into fragments, each with a leading byte of flags, and hands
  them to DTP; the receiver (\<open>efcp_enqueue\<close>) collects them and hands the SDU to the layer above.
  A data unit is the bytes of its buffer; a list of data units is a list, appended at its end.
  Lengths are C's \<open>int\<close>, the maximum fragment size is a \<open>uint32_t\<close>, and they are compared as
  unsigned numbers, so all are \<open>u32\<close> here. The sending loop may not end, and the receiver may read
  or write outside a buffer: either result is \<open>None\<close>.
\<close>

subsection \<open>Data units, lists of data units and memory (du.c)\<close>

text \<open>
  The answers of the next allocations (every later one succeeds), what uninitialised memory
  holds, and the data units destroyed so far.
\<close>

record du_world =
  mem :: "bool list"
  junk :: u8
  destroyed :: "bytes list"

definition rkzalloc :: "du_world \<Rightarrow> bool \<times> du_world" where
  "rkzalloc w = (case mem w of [] \<Rightarrow> (True, w) | ok # m \<Rightarrow> (ok, w\<lparr>mem := m\<rparr>))"

definition du_destroy :: "bytes \<Rightarrow> du_world \<Rightarrow> du_world" where
  "du_destroy d w = w\<lparr>destroyed := destroyed w @ [d]\<rparr>"

definition du_len :: "bytes \<Rightarrow> u32" where
  "du_len d = word_of_nat (length d)"

text \<open>The structure and its buffer are allocated one after the other.\<close>

definition du_create :: "u32 \<Rightarrow> du_world \<Rightarrow> bytes option \<times> du_world" where
  "du_create n w =
    (case rkzalloc w of (ok, w) \<Rightarrow>
       if \<not> ok then (None, w)
       else case rkzalloc w of (ok, w) \<Rightarrow>
         if ok then (Some (replicate (unat n) (junk w)), w) else (None, w))"

text \<open>One byte in front of the data, for which the buffer may have to be expanded.\<close>

definition du_head_grow1 :: "u8 \<Rightarrow> bytes \<Rightarrow> du_world \<Rightarrow> bytes option \<times> du_world" where
  "du_head_grow1 b d w =
    (case rkzalloc w of (ok, w) \<Rightarrow> (if ok then Some (b # d) else None, w))"

definition add_du_to_list :: "bytes list \<Rightarrow> bytes \<Rightarrow> du_world \<Rightarrow> bytes list \<times> int \<times> du_world" where
  "add_du_to_list l d w =
    (case rkzalloc w of (ok, w) \<Rightarrow> if ok then (l @ [d], 0, w) else (l, -1, w))"

definition du_list_create :: "du_world \<Rightarrow> bytes list option \<times> du_world" where
  "du_list_create w = (case rkzalloc w of (ok, w) \<Rightarrow> (if ok then Some [] else None, w))"

definition du_list_clear :: "bytes list option \<Rightarrow> bool \<Rightarrow> du_world \<Rightarrow> bytes list option \<times> int \<times> du_world" where
  "du_list_clear l destroy_dus w =
    (case l of None \<Rightarrow> (None, -1, w)
     | Some dus \<Rightarrow> (Some [], 0, if destroy_dus then fold du_destroy dus w else w))"

definition du_list_destroy :: "bytes list option \<Rightarrow> bool \<Rightarrow> du_world \<Rightarrow> int \<times> du_world" where
  "du_list_destroy l destroy_dus w =
    (case du_list_clear l destroy_dus w of (_, r, w) \<Rightarrow> (if r \<noteq> 0 then -1 else 0, w))"

text \<open>A copy into a buffer, at an offset: \<open>None\<close> when it leaves the buffer.\<close>

definition memcpy_at :: "bytes \<Rightarrow> nat \<Rightarrow> bytes \<Rightarrow> bytes option" where
  "memcpy_at buf off src =
    (if off + length src \<le> length buf
     then Some (take off buf @ src @ drop (off + length src) buf) else None)"

subsection \<open>The sender (default_delim_fragment)\<close>

definition fragment_single_full_sdu :: "bytes \<Rightarrow> bytes list \<Rightarrow> du_world \<Rightarrow> bytes list \<times> int \<times> du_world" where
  "fragment_single_full_sdu du l w =
    (case du_head_grow1 0x07 du w of
       (None, w) \<Rightarrow> (l, -1, du_destroy du w)
     | (Some du', w) \<Rightarrow>
        (case add_du_to_list l du' w of
           (l', r, w) \<Rightarrow> if r \<noteq> 0 then (l', -1, du_destroy du' w) else (l', 0, w)))"

definition copy_du_fragment_to_list ::
  "u32 \<Rightarrow> u32 \<Rightarrow> u8 \<Rightarrow> bytes \<Rightarrow> bytes list \<Rightarrow> du_world \<Rightarrow> bytes list \<times> int \<times> du_world" where
  "copy_du_fragment_to_list len offset flags du l w =
    (case du_create (len + 1) w of
       (None, w) \<Rightarrow> (l, -1, du_destroy du w)
     | (Some _, w) \<Rightarrow>
        (let frag = flags # take (unat len) (drop (unat offset) du)
         in case add_du_to_list l frag w of
              (l', r, w) \<Rightarrow>
                if r \<noteq> 0 then (l', -1, du_destroy du (du_destroy frag w)) else (l', 0, w)))"

partial_function (option) delim_fragment_loop ::
  "u32 \<Rightarrow> bytes \<Rightarrow> u32 \<Rightarrow> u32 \<Rightarrow> bool \<Rightarrow> bytes list \<Rightarrow> du_world \<Rightarrow> (bytes list \<times> int \<times> du_world) option" where
  [code]: "delim_fragment_loop sz du offset pending first_frag l w =
    (if \<not> 0 <s pending then Some (l, 0, du_destroy du w)
     else
       let flags = (if first_frag then 0x05 else if pending \<le> sz then 0x06 else 0x04);
           len = (if pending > sz then sz else pending)
       in case copy_du_fragment_to_list len offset flags du l w of
            (l', r, w) \<Rightarrow>
              if r \<noteq> 0 then Some (l', -1, w)
              else delim_fragment_loop sz du (offset + len) (pending - len) False l' w)"

text \<open>The instance is its maximum fragment size, \<open>None\<close> the missing instance.\<close>

definition default_delim_fragment ::
  "u32 option \<Rightarrow> bytes \<Rightarrow> bytes list \<Rightarrow> du_world \<Rightarrow> (bytes list \<times> int \<times> du_world) option" where
  "default_delim_fragment dm du l w =
    (case dm of
       None \<Rightarrow> Some (l, -1, du_destroy du w)
     | Some sz \<Rightarrow>
        if du_len du \<le> sz then Some (fragment_single_full_sdu du l w)
        else delim_fragment_loop sz du 0 (du_len du) True l w)"

text \<open>The number of user data fields an SDU will need, computed without cutting it.\<close>

partial_function (option) num_udfs_loop :: "u32 \<Rightarrow> u32 \<Rightarrow> int \<Rightarrow> int option" where
  [code]: "num_udfs_loop sz dulen num_fragments =
    (if 0 <s dulen then num_udfs_loop sz (dulen - sz) (num_fragments + 1) else Some num_fragments)"

definition default_delim_num_udfs :: "u32 option \<Rightarrow> bytes \<Rightarrow> du_world \<Rightarrow> (int \<times> du_world) option" where
  "default_delim_num_udfs dm du w =
    (case dm of None \<Rightarrow> Some (-1, du_destroy du w)
     | Some sz \<Rightarrow> map_option (\<lambda>n. (n, w)) (num_udfs_loop sz (du_len du) 0))"

subsection \<open>The receiver (default_delim_process_udf)\<close>

record delim_def_priv =
  pending_dus :: "bytes list option"
  reassembly_in_process :: bool
  total_length :: u32

text \<open>Whether the list of pending data units was allocated is not checked.\<close>

definition delim_def_priv_create :: "du_world \<Rightarrow> delim_def_priv option \<times> du_world" where
  "delim_def_priv_create w =
    (case rkzalloc w of (ok, w) \<Rightarrow>
       if \<not> ok then (None, w)
       else case du_list_create w of (l, w) \<Rightarrow>
         (Some \<lparr>pending_dus = l, reassembly_in_process = False, total_length = 0\<rparr>, w))"

definition delim_def_priv_destroy :: "delim_def_priv option \<Rightarrow> du_world \<Rightarrow> du_world" where
  "delim_def_priv_destroy priv w =
    (case priv of None \<Rightarrow> w
     | Some p \<Rightarrow> if pending_dus p \<noteq> None then snd (du_list_destroy (pending_dus p) True w) else w)"

definition delim_def_priv_reset :: "delim_def_priv \<Rightarrow> du_world \<Rightarrow> delim_def_priv \<times> du_world" where
  "delim_def_priv_reset p w =
    (case du_list_clear (pending_dus p) True w of
       (l, _, w) \<Rightarrow> (p\<lparr>pending_dus := l, reassembly_in_process := False, total_length := 0\<rparr>, w))"

definition process_single_full_sdu :: "bytes \<Rightarrow> bytes list \<Rightarrow> du_world \<Rightarrow> bytes list \<times> int \<times> du_world" where
  "process_single_full_sdu du l w =
    (case add_du_to_list l (tl du) w of
       (l', r, w) \<Rightarrow> if r \<noteq> 0 then (l', -1, du_destroy (tl du) w) else (l', 0, w))"

text \<open>Appending to a list that does not exist follows a null pointer, after the list item is
  allocated.\<close>

definition append_pending_du ::
  "delim_def_priv \<Rightarrow> bytes \<Rightarrow> du_world \<Rightarrow> (delim_def_priv \<times> int \<times> du_world) option" where
  "append_pending_du p du w =
    (let p = p\<lparr>total_length := total_length p + du_len du - 1\<rparr>
     in case rkzalloc w of (ok, w) \<Rightarrow>
          if \<not> ok then
            (case delim_def_priv_reset p w of (p, w) \<Rightarrow> Some (p, -1, du_destroy du w))
          else case pending_dus p of
            None \<Rightarrow> None
          | Some l \<Rightarrow> Some (p\<lparr>pending_dus := Some (l @ [du])\<rparr>, 0, w))"

definition process_first_fragment ::
  "delim_def_priv \<Rightarrow> bytes \<Rightarrow> du_world \<Rightarrow> (delim_def_priv \<times> int \<times> du_world) option" where
  "process_first_fragment p du w =
    (case (if reassembly_in_process p then delim_def_priv_reset p w else (p, w)) of
       (p, w) \<Rightarrow> append_pending_du (p\<lparr>reassembly_in_process := True\<rparr>) du w)"

definition process_mid_fragment ::
  "delim_def_priv \<Rightarrow> bytes \<Rightarrow> du_world \<Rightarrow> (delim_def_priv \<times> int \<times> du_world) option" where
  "process_mid_fragment p du w =
    (if \<not> reassembly_in_process p then
       (case delim_def_priv_reset p w of (p, w) \<Rightarrow> Some (p, -1, du_destroy du w))
     else append_pending_du p du w)"

text \<open>The copies of the pending fragments, without their flags, one behind the other.\<close>

fun gather :: "bytes list \<Rightarrow> nat \<Rightarrow> bytes \<Rightarrow> bytes option" where
  "gather [] offset buf = Some buf"
| "gather (d # ds) offset buf =
    (case memcpy_at buf offset (tl d) of None \<Rightarrow> None
     | Some buf \<Rightarrow> gather ds (offset + length (tl d)) buf)"

text \<open>
  A total length with its sign bit set is more than a kernel buffer holds: \<open>skb_put\<close> panics.
\<close>

definition process_last_fragment ::
  "delim_def_priv \<Rightarrow> bytes \<Rightarrow> bytes list \<Rightarrow> du_world
    \<Rightarrow> (delim_def_priv \<times> bytes list \<times> int \<times> du_world) option" where
  "process_last_fragment p du l w =
    (case process_mid_fragment p du w of
       None \<Rightarrow> None
     | Some (p, r, w) \<Rightarrow>
        if r \<noteq> 0 then Some (p, l, -1, w)
        else if total_length p <s 0 then None
        else case du_create (total_length p) w of
          (None, w) \<Rightarrow> (case delim_def_priv_reset p w of (p, w) \<Rightarrow> Some (p, l, -1, w))
        | (Some frag_sdu, w) \<Rightarrow>
           (case gather (the (pending_dus p)) 0 frag_sdu of
              None \<Rightarrow> None
            | Some frag_sdu \<Rightarrow>
               (case add_du_to_list l frag_sdu w of
                  (l', r, w) \<Rightarrow>
                    (case delim_def_priv_reset p w of
                       (p, w) \<Rightarrow>
                         if r \<noteq> 0 then Some (p, l', -1, du_destroy frag_sdu w)
                         else Some (p, l', 0, w)))))"

text \<open>The result of a middle fragment is not looked at. An empty data unit has no flags to read.\<close>

definition default_delim_process_udf ::
  "u32 option \<Rightarrow> delim_def_priv option \<Rightarrow> bytes \<Rightarrow> bytes list \<Rightarrow> du_world
    \<Rightarrow> (delim_def_priv option \<times> bytes list \<times> int \<times> du_world) option" where
  "default_delim_process_udf dm priv du l w =
    (if dm = None then Some (priv, l, -1, du_destroy du w)
     else case priv of
       None \<Rightarrow> Some (None, l, -1, du_destroy du w)
     | Some p \<Rightarrow>
        (case du of
           [] \<Rightarrow> None
         | flags # _ \<Rightarrow>
            if flags AND 0x08 \<noteq> 0 then Some (Some p, l, -1, du_destroy du w)
            else if flags AND 0x04 \<noteq> 0 then
              (if flags AND 0x02 \<noteq> 0 \<and> flags AND 0x01 \<noteq> 0 then
                 (case process_single_full_sdu du l w of (l', r, w) \<Rightarrow> Some (Some p, l', r, w))
               else if flags AND 0x01 \<noteq> 0 then
                 map_option (\<lambda>(p, r, w). (Some p, l, r, w)) (process_first_fragment p du w)
               else if flags AND 0x02 \<noteq> 0 then
                 map_option (\<lambda>(p, l', r, w). (Some p, l', r, w)) (process_last_fragment p du l w)
               else
                 map_option (\<lambda>(p, r, w). (Some p, l, 0, w)) (process_mid_fragment p du w))
            else Some (Some p, l, -1, du_destroy du w)))"

subsection \<open>The policy set and the connection (delim_ps_default_create, efcp.c)\<close>

text \<open>The structure of the policy set is leaked when its private data cannot be allocated; either
  way the caller sees no policy set.\<close>

definition delim_ps_default_create :: "du_world \<Rightarrow> delim_def_priv option \<times> du_world" where
  "delim_ps_default_create w =
    (case rkzalloc w of (ok, w) \<Rightarrow> if \<not> ok then (None, w) else delim_def_priv_create w)"

definition delim_ps_default_destroy :: "delim_def_priv option \<Rightarrow> du_world \<Rightarrow> du_world" where
  "delim_ps_default_destroy priv w = delim_def_priv_destroy priv w"

record delim =
  max_fragment_size :: u32
  tx_dus :: "bytes list"
  rx_dus :: "bytes list"
  ps_priv :: "delim_def_priv option"

text \<open>
  The fragment size of a connection, from the largest PDU of the DIF and the size of the header
  of a data PDU.
\<close>

definition delim_fragment_size :: "u32 \<Rightarrow> u32 \<Rightarrow> u32" where
  "delim_fragment_size max_pdu_size pci_size = max_pdu_size - pci_size - 1"

text \<open>
  Writing an SDU into a connection: the delimiting module afterwards, the data units handed to
  DTP in this order, and the result. The result of DTP (\<open>dtp_write\<close>) matters only when there is no
  delimiting module.
\<close>

definition efcp_write ::
  "(bytes \<Rightarrow> int) \<Rightarrow> delim option \<Rightarrow> bytes \<Rightarrow> du_world
    \<Rightarrow> (delim option \<times> bytes list \<times> int \<times> du_world) option" where
  "efcp_write dtp_write dl du w =
    (case dl of
       None \<Rightarrow> Some (None, [du], if dtp_write du \<noteq> 0 then -1 else 0, w)
     | Some d \<Rightarrow>
        (case default_delim_fragment (Some (max_fragment_size d)) du (tx_dus d) w of
           None \<Rightarrow> None
         | Some (l, r, w) \<Rightarrow>
            if r \<noteq> 0 then
              Some (Some (d\<lparr>tx_dus := []\<rparr>), [], -1, snd (snd (du_list_clear (Some l) True w)))
            else Some (Some (d\<lparr>tx_dus := []\<rparr>), l, 0, w)))"

text \<open>The layer above is called for one SDU after the other, until it refuses one.\<close>

fun enqueue_all :: "(bytes \<Rightarrow> int) \<Rightarrow> bytes list \<Rightarrow> bytes list \<times> bool" where
  "enqueue_all up [] = ([], True)"
| "enqueue_all up (d # ds) =
    (if up d \<noteq> 0 then ([d], False) else map_prod ((#) d) id (enqueue_all up ds))"

text \<open>
  Data arriving for a connection: the delimiting module afterwards, the data units the layer
  above was called with, and the result. When the layer above refuses an SDU the list of received
  SDUs is left as it is.
\<close>

definition efcp_enqueue ::
  "bool \<Rightarrow> (bytes \<Rightarrow> int) \<Rightarrow> delim option \<Rightarrow> bytes \<Rightarrow> du_world
    \<Rightarrow> (delim option \<times> bytes list \<times> int \<times> du_world) option" where
  "efcp_enqueue user_ipcp up dl du w =
    (if \<not> user_ipcp then Some (dl, [], -1, du_destroy du w)
     else case dl of
       None \<Rightarrow> Some (None, [du], if up du \<noteq> 0 then -1 else 0, w)
     | Some d \<Rightarrow>
        (case default_delim_process_udf (Some (max_fragment_size d)) (ps_priv d) du (rx_dus d) w of
           None \<Rightarrow> None
         | Some (p, l, r, w) \<Rightarrow>
            if r \<noteq> 0 then
              Some (Some (d\<lparr>ps_priv := p, rx_dus := []\<rparr>), [], -1,
                    snd (snd (du_list_clear (Some l) True w)))
            else
              (case enqueue_all up l of
                 (called, True) \<Rightarrow> Some (Some (d\<lparr>ps_priv := p, rx_dus := []\<rparr>), called, 0, w)
               | (called, False) \<Rightarrow> Some (Some (d\<lparr>ps_priv := p, rx_dus := l\<rparr>), called, -1, w))))"


subsection \<open>The fragments of an SDU\<close>

text \<open>The user data fields an SDU is cut into, as a reference definition over the whole SDU.\<close>

fun cut :: "nat \<Rightarrow> bool \<Rightarrow> bytes \<Rightarrow> bytes list" where
  "cut sz fst_frag d =
    (if d = [] \<or> sz = 0 then []
     else ((if fst_frag then 0x05 else if length d \<le> sz then 0x06 else 0x04) # take sz d)
            # cut sz False (drop sz d))"

declare cut.simps [simp del]

definition udfs :: "nat \<Rightarrow> bytes \<Rightarrow> bytes list" where
  "udfs sz d = (if length d \<le> sz then [0x07 # d] else cut sz True d)"

lemma sint_small: "unat (x :: u32) < 2 ^ 31 \<Longrightarrow> sint x = int (unat x)"
proof -
  assume "unat x < 2 ^ 31"
  hence "unat x < 2147483648" by simp
  hence "int (unat x) < 2147483648" by linarith
  hence "uint x < 2 ^ 31" by simp
  hence "signed_take_bit 31 (uint x) = uint x"
    by (intro signed_take_bit_int_eq_self) (auto intro: order_trans [OF _ uint_ge_0])
  thus ?thesis by (simp add: sint_uint)
qed

lemma sint_diff_small:
  assumes "unat (x :: u32) < 2 ^ 31" "unat (y :: u32) < 2 ^ 31"
  shows "sint (x - y) = int (unat x) - int (unat y)"
proof -
  have "signed_take_bit 31 (sint x - sint y) = int (unat x) - int (unat y)"
  proof -
    have "unat x < 2147483648" "unat y < 2147483648" using assms by simp_all
    hence "- 2147483648 \<le> int (unat x) - int (unat y)" "int (unat x) - int (unat y) < 2147483648"
      by linarith+
    hence "- (2 ^ 31) \<le> int (unat x) - int (unat y)" "int (unat x) - int (unat y) < 2 ^ 31"
      by simp_all
    thus ?thesis unfolding sint_small [OF assms(1)] sint_small [OF assms(2)]
      by (rule signed_take_bit_int_eq_self)
  qed
  thus ?thesis by (simp add: sint_word_ariths)
qed

lemma sless_0_small: "unat (x :: u32) < 2 ^ 31 \<Longrightarrow> \<not> x <s 0 \<and> (0 <s x \<longleftrightarrow> x \<noteq> 0)"
  using sint_small [of x] by (simp only: word_sless_alt sint_0) (auto simp: word_neq_0_conv word_less_def)

lemma unat_du_len: "length d < 2 ^ 31 \<Longrightarrow> unat (du_len d) = length d"
  by (simp add: du_len_def unat_of_nat)

lemma enough_memory [simp]: "mem w = [] \<Longrightarrow> rkzalloc w = (True, w)"
  by (simp add: rkzalloc_def)

lemma mem_destroy [simp]: "mem (du_destroy d w) = mem w" "mem (fold du_destroy ds w) = mem w"
proof -
  show "mem (fold du_destroy ds w) = mem w" by (induction ds arbitrary: w) (auto simp: du_destroy_def)
qed (simp add: du_destroy_def)

lemma copy_fragment:
  "mem w = [] \<Longrightarrow> copy_du_fragment_to_list len off flags du l w
    = (l @ [flags # take (unat len) (drop (unat off) du)], 0, w)"
  by (simp add: copy_du_fragment_to_list_def du_create_def add_du_to_list_def)

lemma fragment_loop_cut:
  assumes "mem w = []" "sz \<noteq> 0" "length du < 2 ^ 31" "unat off + unat pending = length du"
  shows "delim_fragment_loop sz du off pending fst_frag l w
    = Some (l @ cut (unat sz) fst_frag (drop (unat off) du), 0, du_destroy du w)"
  using assms
proof (induction "unat pending" arbitrary: off pending fst_frag l rule: less_induct)
  case less
  have small: "unat pending < 2 ^ 31" using less.prems by simp
  show ?case
  proof (cases "pending = 0")
    case True
    thus ?thesis using less.prems by (subst delim_fragment_loop.simps) (simp add: cut.simps)
  next
    case False
    have nz: "unat pending > 0" "unat sz > 0" using False less.prems(2) by (simp_all add: unat_gt_0)
    define len where "len = (if pending > sz then sz else pending)"
    have len: "unat len = min (unat sz) (unat pending)" "len \<noteq> 0" "len \<le> pending"
      using less.prems(2) False by (auto simp: len_def word_nat min_def)
    have step: "unat (pending - len) = unat pending - unat len" "unat (off + len) = unat off + unat len"
      using len(3) less.prems(3,4) len(1) by (auto simp: unat_sub_small unat_add_small word_nat)
    have less_pending: "unat (pending - len) < unat pending"
      using step(1) len(2) False by (simp add: unat_gt_0)
    have cut: "cut (unat sz) fst_frag (drop (unat off) du) =
        ((if fst_frag then 0x05 else if pending \<le> sz then 0x06 else 0x04)
           # take (unat len) (drop (unat off) du)) # cut (unat sz) False (drop (unat (off + len)) du)"
    proof -
      have "unat off < length du" "unat sz \<noteq> 0" "take (unat sz) (drop (unat off) du) = take (unat len) (drop (unat off) du)"
          "drop (unat sz) (drop (unat off) du) = drop (unat (off + len)) du"
        using less.prems(2,4) nz len(1) unfolding step(2) by (auto simp: min_def add.commute)
      thus ?thesis using less.prems(4) by (subst cut.simps) (auto simp: word_nat simp del: drop_drop)
    qed
    have "delim_fragment_loop sz du (off + len) (pending - len) False
        (l @ [(if fst_frag then 0x05 else if pending \<le> sz then 0x06 else 0x04)
           # take (unat len) (drop (unat off) du)]) w
      = Some ((l @ [(if fst_frag then 0x05 else if pending \<le> sz then 0x06 else 0x04)
           # take (unat len) (drop (unat off) du)])
          @ cut (unat sz) False (drop (unat (off + len)) du), 0, du_destroy du w)"
      by (rule less.hyps [OF less_pending less.prems(1-3)]) (use step less.prems(4) len in auto)
    thus ?thesis using sless_0_small [OF small] False less.prems(1)
      by (subst delim_fragment_loop.simps) (simp add: copy_fragment cut Let_def len_def [symmetric])
  qed
qed

lemma fragment_udfs:
  assumes "mem w = []" "sz \<noteq> 0" "length du < 2 ^ 31"
  shows "\<exists>w'. default_delim_fragment (Some sz) du l w = Some (l @ udfs (unat sz) du, 0, w') \<and> mem w' = []"
proof (cases "length du \<le> unat sz")
  case True
  thus ?thesis using assms
    by (simp add: default_delim_fragment_def word_nat unat_du_len udfs_def fragment_single_full_sdu_def
         du_head_grow1_def add_du_to_list_def)
next
  case False
  thus ?thesis using assms fragment_loop_cut [OF assms, of 0 "du_len du" True l]
    by (simp add: default_delim_fragment_def word_nat unat_du_len udfs_def)
qed


subsection \<open>What the receiver has collected\<close>

text \<open>
  The invariant of the receiver's private data: the list exists, holds fragments with their flags,
  is empty exactly when no reassembly is in process, and its length is the total length (up to the
  width of that counter). \<open>collected\<close> is the abstraction: the data of the SDU so far.
\<close>

definition pending_data :: "bytes list \<Rightarrow> bytes" where
  "pending_data l = concat (map tl l)"

definition priv_ok :: "delim_def_priv \<Rightarrow> bool" where
  "priv_ok p \<longleftrightarrow>
    (case pending_dus p of None \<Rightarrow> False
     | Some l \<Rightarrow> [] \<notin> set l \<and> (reassembly_in_process p \<longleftrightarrow> l \<noteq> [])
         \<and> total_length p = word_of_nat (length (pending_data l)))"

definition collected :: "delim_def_priv \<Rightarrow> bytes option" where
  "collected p =
    (if reassembly_in_process p then Some (pending_data (the (pending_dus p))) else None)"

lemma pending_data_simps [simp]:
  "pending_data [] = []" "pending_data (d # l) = tl d @ pending_data l"
  "pending_data (l @ l') = pending_data l @ pending_data l'"
  by (simp_all add: pending_data_def)

lemma gather_spec:
  "off + length (pending_data ds) \<le> length buf \<Longrightarrow>
   gather ds off buf = Some (take off buf @ pending_data ds @ drop (off + length (pending_data ds)) buf)"
proof (induction ds arbitrary: off buf)
  case (Cons d ds)
  define buf' where "buf' = take off buf @ tl d @ drop (off + length (tl d)) buf"
  have len: "length buf' = length buf" "off + length (tl d) \<le> length buf"
    using Cons.prems by (auto simp: buf'_def)
  have "gather ds (off + length (tl d)) buf' = Some (take (off + length (tl d)) buf' @ pending_data ds
      @ drop (off + length (tl d) + length (pending_data ds)) buf')"
    by (rule Cons.IH) (use Cons.prems len in simp)
  moreover have "take (off + length (tl d)) buf' = take off buf @ tl d"
      "drop (off + length (tl d) + length (pending_data ds)) buf'
        = drop (off + length (tl d) + length (pending_data ds)) buf"
    using len by (auto simp: buf'_def add_ac)
  moreover have "memcpy_at buf off (tl d) = Some buf'" using len(2) by (simp add: memcpy_at_def buf'_def)
  ultimately show ?case by (simp add: add_ac)
qed simp

lemma reset_spec:
  "priv_ok p \<Longrightarrow> \<exists>w'. delim_def_priv_reset p w =
     (p\<lparr>pending_dus := Some [], reassembly_in_process := False, total_length := 0\<rparr>, w') \<and> mem w' = mem w"
  by (auto simp: delim_def_priv_reset_def du_list_clear_def priv_ok_def split: option.splits)

lemma reset_ok [simp]:
  "priv_ok (p\<lparr>pending_dus := Some [], reassembly_in_process := False, total_length := 0\<rparr>)"
  "collected (p\<lparr>pending_dus := Some [], reassembly_in_process := False, total_length := 0\<rparr>) = None"
  by (simp_all add: priv_ok_def collected_def)

text \<open>
  Appending a fragment: with memory it extends what is collected, without it drops everything.
  \<open>q\<close> is the private data with its flag already set, as \<open>process_first_fragment\<close> sets it.
\<close>

lemma append_spec:
  assumes "pending_dus q = Some l" "[] \<notin> set l" "reassembly_in_process q" "du \<noteq> []"
    "total_length q = word_of_nat (length (pending_data l))"
  shows "\<exists>p' r w'. append_pending_du q du w = Some (p', r, w') \<and> priv_ok p' \<and>
    (r = 0 \<longrightarrow> collected p' = Some (pending_data l @ tl du)) \<and> (r \<noteq> 0 \<longrightarrow> collected p' = None) \<and>
    (r = 0 \<or> r = -1) \<and> (mem w = [] \<longrightarrow> r = 0 \<and> mem w' = [])"
proof (cases "rkzalloc w")
  case (Pair ok w1)
  have len: "total_length q + du_len du - 1 = word_of_nat (length (pending_data (l @ [du])))"
    using assms(4,5) by (cases du) (simp_all add: du_len_def)
  show ?thesis
  proof (cases ok)
    case True
    thus ?thesis using assms len Pair
      by (auto simp: append_pending_du_def priv_ok_def collected_def)
  next
    case False
    hence "mem w \<noteq> []" using Pair by (auto simp: rkzalloc_def)
    thus ?thesis using assms(1) Pair False
      by (simp add: append_pending_du_def delim_def_priv_reset_def du_list_clear_def priv_ok_def
           collected_def)
  qed
qed


lemma first_spec:
  assumes "priv_ok p" "du \<noteq> []"
  shows "\<exists>p' r w'. process_first_fragment p du w = Some (p', r, w') \<and> priv_ok p' \<and>
    (r = 0 \<longrightarrow> collected p' = Some (tl du)) \<and> (r \<noteq> 0 \<longrightarrow> collected p' = None) \<and>
    (r = 0 \<or> r = -1) \<and> (mem w = [] \<longrightarrow> r = 0 \<and> mem w' = [])"
proof -
  define q w1 where "q = fst (if reassembly_in_process p then delim_def_priv_reset p w else (p, w))"
    and "w1 = snd (if reassembly_in_process p then delim_def_priv_reset p w else (p, w))"
  have q: "pending_dus q = Some []" "total_length q = 0" "mem w1 = mem w"
    using assms(1) reset_spec [OF assms(1), of w]
    by (auto simp: q_def w1_def priv_ok_def split: option.splits)
  have "process_first_fragment p du w = append_pending_du (q\<lparr>reassembly_in_process := True\<rparr>) du w1"
    by (simp add: process_first_fragment_def q_def w1_def split: prod.splits)
  thus ?thesis
    using append_spec [of "q\<lparr>reassembly_in_process := True\<rparr>" "[]" du w1] q assms(2) by auto
qed

lemma mid_spec:
  assumes "priv_ok p" "du \<noteq> []"
  shows "\<exists>p' r w'. process_mid_fragment p du w = Some (p', r, w') \<and> priv_ok p' \<and>
    (r \<noteq> 0 \<longrightarrow> collected p' = None) \<and>
    (r = 0 \<longrightarrow> (\<exists>x. collected p = Some x \<and> collected p' = Some (x @ tl du))) \<and>
    (collected p = None \<longrightarrow> r \<noteq> 0) \<and> (r = 0 \<or> r = -1) \<and>
    (mem w = [] \<longrightarrow> mem w' = [] \<and> (r = 0 \<longleftrightarrow> collected p \<noteq> None))"
proof (cases "reassembly_in_process p")
  case False
  obtain w' where "delim_def_priv_reset p w =
      (p\<lparr>pending_dus := Some [], reassembly_in_process := False, total_length := 0\<rparr>, w')" "mem w' = mem w"
    using reset_spec [OF assms(1)] by blast
  hence "process_mid_fragment p du w = Some (p\<lparr>pending_dus := Some [], reassembly_in_process := False,
      total_length := 0\<rparr>, -1, du_destroy du w')" "mem (du_destroy du w') = mem w" "collected p = None"
    using False by (simp_all add: process_mid_fragment_def collected_def)
  thus ?thesis using reset_ok [of p] by (intro exI conjI) auto
next
  case True
  obtain l where l: "pending_dus p = Some l" "[] \<notin> set l" "total_length p = word_of_nat (length (pending_data l))"
    using assms(1) by (auto simp: priv_ok_def split: option.splits)
  have "process_mid_fragment p du w = append_pending_du p du w" "collected p = Some (pending_data l)"
    using True l(1) by (simp_all add: process_mid_fragment_def collected_def)
  thus ?thesis using append_spec [OF l(1,2) True assms(2) l(3), of w] by auto
qed

lemma create_spec:
  "(\<exists>w'. du_create n w = (None, w') \<and> mem w \<noteq> []) \<or>
   (\<exists>d w'. du_create n w = (Some d, w') \<and> length d = unat n \<and> (mem w = [] \<longrightarrow> mem w' = []))"
  by (auto simp: du_create_def rkzalloc_def split: list.splits)

lemma add_spec:
  "(\<exists>w'. add_du_to_list l d w = (l, -1, w') \<and> mem w \<noteq> []) \<or>
   (\<exists>w'. add_du_to_list l d w = (l @ [d], 0, w') \<and> (mem w = [] \<longrightarrow> mem w' = []))"
  by (auto simp: add_du_to_list_def rkzalloc_def split: list.splits)

lemma last_spec:
  assumes "priv_ok p" "du \<noteq> []"
    and "\<And>x. collected p = Some x \<Longrightarrow> length x + length du < 2 ^ 31"
  shows "\<exists>p' l' r w'. process_last_fragment p du l w = Some (p', l', r, w') \<and> priv_ok p' \<and>
    collected p' = None \<and> (r = 0 \<or> r = -1) \<and>
    (if r = 0 then \<exists>x. collected p = Some x \<and> l' = l @ [x @ tl du] else l' = l) \<and>
    (mem w = [] \<longrightarrow> mem w' = [] \<and> (r = 0 \<longleftrightarrow> collected p \<noteq> None))"
proof -
  obtain p1 r1 w1 where m: "process_mid_fragment p du w = Some (p1, r1, w1)" "priv_ok p1"
      "r1 \<noteq> 0 \<longrightarrow> collected p1 = None"
      "r1 = 0 \<longrightarrow> (\<exists>x. collected p = Some x \<and> collected p1 = Some (x @ tl du))"
      "mem w = [] \<longrightarrow> mem w1 = [] \<and> (r1 = 0 \<longleftrightarrow> collected p \<noteq> None)"
    using mid_spec [OF assms(1,2), of w] by blast
  show ?thesis
  proof (cases "r1 = 0")
    case False
    thus ?thesis using m by (auto simp: process_last_fragment_def)
  next
    case True
    obtain x where x: "collected p = Some x" "collected p1 = Some (x @ tl du)" using m(4) True by auto
    have data: "pending_data (the (pending_dus p1)) = x @ tl du"
        "total_length p1 = word_of_nat (length (x @ tl du))"
      using x(2) m(2) by (auto simp: collected_def priv_ok_def split: if_splits option.splits)
    have "length (x @ tl du) < 2 ^ 31" using assms(3) [OF x(1)] by simp
    hence tot: "unat (total_length p1) = length (x @ tl du)" "\<not> total_length p1 <s 0"
      using unat_du_len [of "x @ tl du"] sless_0_small [of "total_length p1"] unfolding data(2)
      by (auto simp: du_len_def)
    obtain p2 where reset: "\<And>w. \<exists>w'. delim_def_priv_reset p1 w = (p2, w') \<and> mem w' = mem w"
        "priv_ok p2" "collected p2 = None"
      using reset_spec [OF m(2)] reset_ok by blast
    show ?thesis
    proof (cases "du_create (total_length p1) w1")
      case (Pair d w2)
      show ?thesis
      proof (cases d)
        case None
        obtain w3 where "delim_def_priv_reset p1 w2 = (p2, w3)" using reset(1) by blast
        hence "process_last_fragment p du l w = Some (p2, l, -1, w3)"
          using m(1) True Pair tot(2) None by (simp add: process_last_fragment_def)
        moreover have "mem w \<noteq> []" using create_spec [of "total_length p1" w1] Pair None m(5) by auto
        ultimately show ?thesis using reset(2,3) by simp
      next
        case (Some buf)
        have len: "length buf = length (x @ tl du)"
          and mm: "mem w1 = [] \<longrightarrow> mem w2 = []"
          using create_spec [of "total_length p1" w1] Pair Some tot(1) by auto
        have g: "gather (the (pending_dus p1)) 0 buf = Some (x @ tl du)"
          using gather_spec [of 0 "the (pending_dus p1)" buf] len data(1) by simp
        obtain l' r w3 where a: "add_du_to_list l (x @ tl du) w2 = (l', r, w3)" by (metis prod_cases3)
        obtain w4 where z: "delim_def_priv_reset p1 w3 = (p2, w4)" "mem w4 = mem w3" using reset(1) by blast
        define w5 where "w5 = (if r \<noteq> 0 then du_destroy (x @ tl du) w4 else w4)"
        have "process_last_fragment p du l w = Some (p2, l', if r \<noteq> 0 then -1 else 0, w5)"
          using m(1) True Pair tot(2) Some g a z(1) by (simp add: process_last_fragment_def w5_def)
        moreover have "mem w5 = mem w3" using z(2) by (simp add: w5_def)
        ultimately show ?thesis
          using add_spec [of l "x @ tl du" w2] a reset(2,3) x(1) mm m(5) by auto
      qed
    qed
  qed
qed


subsection \<open>The receiver refines its specification\<close>

text \<open>
  The abstract receiver: the data of the SDU in reassembly, if any, and a user data field give the
  data afterwards, the SDUs that are complete and the result.
\<close>

definition reassemble :: "bytes option \<Rightarrow> bytes \<Rightarrow> bytes option \<times> bytes list \<times> int" where
  "reassemble a du =
    (let flags = hd du
     in if flags AND 0x08 \<noteq> 0 \<or> flags AND 0x04 = 0 then (a, [], -1)
        else if flags AND 0x02 \<noteq> 0 \<and> flags AND 0x01 \<noteq> 0 then (a, [tl du], 0)
        else if flags AND 0x01 \<noteq> 0 then (Some (tl du), [], 0)
        else case a of
          None \<Rightarrow> (None, [], if flags AND 0x02 \<noteq> 0 then -1 else 0)
        | Some x \<Rightarrow> if flags AND 0x02 \<noteq> 0 then (None, [x @ tl du], 0) else (Some (x @ tl du), [], 0))"

lemma process_udf_spec:
  assumes "priv_ok p" "du \<noteq> []"
    and "\<And>x. \<lbrakk>collected p = Some x; hd du AND 0x01 = 0\<rbrakk> \<Longrightarrow> length x + length du < 2 ^ 31"
    and spec: "reassemble (collected p) du = (a, out, res)"
  shows "\<exists>p' l' r w'. default_delim_process_udf (Some sz) (Some p) du l w = Some (Some p', l', r, w') \<and>
    priv_ok p' \<and> collected p' \<in> {a, None} \<and> l' \<in> {l @ out, l} \<and>
    (mem w = [] \<longrightarrow> mem w' = [] \<and> collected p' = a \<and> l' = l @ out \<and> r = res)"
proof -
  obtain flags d where du: "du = flags # d" using assms(2) by (cases du) auto
  consider (bad) "flags AND 0x08 \<noteq> 0 \<or> flags AND 0x04 = 0"
    | (full) "flags AND 0x08 = 0" "flags AND 0x04 \<noteq> 0" "flags AND 0x02 \<noteq> 0" "flags AND 0x01 \<noteq> 0"
    | (first) "flags AND 0x08 = 0" "flags AND 0x04 \<noteq> 0" "flags AND 0x02 = 0" "flags AND 0x01 \<noteq> 0"
    | (last) "flags AND 0x08 = 0" "flags AND 0x04 \<noteq> 0" "flags AND 0x02 \<noteq> 0" "flags AND 0x01 = 0"
    | (mid) "flags AND 0x08 = 0" "flags AND 0x04 \<noteq> 0" "flags AND 0x02 = 0" "flags AND 0x01 = 0"
    by blast
  thus ?thesis
  proof cases
    case bad
    thus ?thesis using assms(1) spec
      by (auto simp: default_delim_process_udf_def du reassemble_def)
  next
    case full
    thus ?thesis using assms(1) spec add_spec [of l d w]
      by (auto simp: default_delim_process_udf_def du reassemble_def process_single_full_sdu_def)
  next
    case first
    thus ?thesis using spec first_spec [OF assms(1,2), of w]
      by (auto simp: default_delim_process_udf_def du reassemble_def)
  next
    case last
    thus ?thesis using spec last_spec [OF assms(1,2), of l w] assms(3)
      by (auto simp: default_delim_process_udf_def du reassemble_def split: option.splits)
  next
    case mid
    thus ?thesis using spec mid_spec [OF assms(1,2), of w]
      by (auto simp: default_delim_process_udf_def du reassemble_def split: option.splits)
  qed
qed


subsection \<open>From sender to receiver\<close>

text \<open>
  SDUs written one after the other into a connection, and user data fields arriving one after the
  other: the data units handed to DTP, and those the layer above was called with.
\<close>

fun write_all :: "(bytes \<Rightarrow> int) \<Rightarrow> delim option \<Rightarrow> bytes list \<Rightarrow> du_world
    \<Rightarrow> (delim option \<times> bytes list \<times> du_world) option" where
  "write_all dtp dl [] w = Some (dl, [], w)"
| "write_all dtp dl (s # ss) w =
    (case efcp_write dtp dl s w of None \<Rightarrow> None
     | Some (dl, us, _, w) \<Rightarrow>
        map_option (\<lambda>(dl, us', w). (dl, us @ us', w)) (write_all dtp dl ss w))"

fun receive_all :: "(bytes \<Rightarrow> int) \<Rightarrow> delim option \<Rightarrow> bytes list \<Rightarrow> du_world
    \<Rightarrow> (delim option \<times> bytes list \<times> du_world) option" where
  "receive_all up dl [] w = Some (dl, [], w)"
| "receive_all up dl (u # us) w =
    (case efcp_enqueue True up dl u w of None \<Rightarrow> None
     | Some (dl, ss, _, w) \<Rightarrow>
        map_option (\<lambda>(dl, ss', w). (dl, ss @ ss', w)) (receive_all up dl us w))"

fun reassemble_all :: "bytes option \<Rightarrow> bytes list \<Rightarrow> bytes option \<times> bytes list" where
  "reassemble_all a [] = (a, [])"
| "reassemble_all a (u # us) =
    (case reassemble a u of (a, out, _) \<Rightarrow> map_prod id ((@) out) (reassemble_all a us))"

lemma write_all_udfs:
  assumes "max_fragment_size d \<noteq> 0" "tx_dus d = []" "mem w = []" "\<forall>s\<in>set ss. length s < 2 ^ 31"
  shows "\<exists>w'. write_all dtp (Some d) ss w
    = Some (Some d, concat (map (udfs (unat (max_fragment_size d))) ss), w') \<and> mem w' = []"
  using assms(3,4)
proof (induction ss arbitrary: w)
  case (Cons s ss)
  obtain w1 where "default_delim_fragment (Some (max_fragment_size d)) s [] w
      = Some (udfs (unat (max_fragment_size d)) s, 0, w1)" "mem w1 = []"
    using fragment_udfs [OF Cons.prems(1) assms(1), of s "[]"] Cons.prems(2) by auto
  moreover obtain w2 where "write_all dtp (Some d) ss w1
      = Some (Some d, concat (map (udfs (unat (max_fragment_size d))) ss), w2)" "mem w2 = []"
    using Cons.IH [OF calculation(2)] Cons.prems(2) by auto
  moreover have "efcp_write dtp (Some d) s w = Some (Some d, udfs (unat (max_fragment_size d)) s, 0, w1)"
    using calculation(1) assms(2) by (cases d) (simp add: efcp_write_def)
  ultimately show ?case by simp
qed simp

lemma enqueue_all_accepted [simp]: "\<forall>x. up x = 0 \<Longrightarrow> enqueue_all up l = (l, True)"
  by (induction l) auto

text \<open>The receiver is ready: it has no SDUs it has not handed over, and its invariant holds.\<close>

definition receiver_ok :: "delim \<Rightarrow> bool" where
  "receiver_ok d \<longleftrightarrow> rx_dus d = [] \<and> (case ps_priv d of None \<Rightarrow> False | Some p \<Rightarrow> priv_ok p)"

definition in_reassembly :: "delim \<Rightarrow> bytes option" where
  "in_reassembly d = Option.bind (ps_priv d) collected"

lemma efcp_enqueue_spec:
  assumes "receiver_ok d" "mem w = []" "\<forall>x. up x = 0" "du \<noteq> []"
    and "\<And>x. \<lbrakk>in_reassembly d = Some x; hd du AND 0x01 = 0\<rbrakk> \<Longrightarrow> length x + length du < 2 ^ 31"
    and spec: "reassemble (in_reassembly d) du = (a, out, res)"
  shows "\<exists>d' w'. efcp_enqueue True up (Some d) du w = Some (Some d', if res = 0 then out else [], res, w')
    \<and> receiver_ok d' \<and> in_reassembly d' = a \<and> mem w' = []"
proof -
  obtain p where p: "ps_priv d = Some p" "priv_ok p" "rx_dus d = []" "in_reassembly d = collected p"
    using assms(1) by (auto simp: receiver_ok_def in_reassembly_def split: option.splits)
  obtain p' w' where "default_delim_process_udf (Some (max_fragment_size d)) (Some p) du [] w
      = Some (Some p', out, res, w')" "priv_ok p'" "collected p' = a" "mem w' = []"
    using process_udf_spec [OF p(2) assms(4), of a out res "max_fragment_size d" "[]" w] assms(2,5) spec
    unfolding p(4) by auto
  moreover have "res = 0 \<or> res = -1"
    using spec by (auto simp: reassemble_def Let_def split: if_splits option.splits)
  ultimately show ?thesis using assms(3) p
    by (auto simp: efcp_enqueue_def receiver_ok_def in_reassembly_def du_list_clear_def)
qed


lemma receive_append:
  assumes "receive_all up dl us w = Some (dl1, ss1, w1)" "receive_all up dl1 us' w1 = Some (dl2, ss2, w2)"
  shows "receive_all up dl (us @ us') w = Some (dl2, ss1 @ ss2, w2)"
  using assms
proof (induction us arbitrary: dl w ss1)
  case (Cons u us)
  obtain dl0 s0 r0 w0 where e: "efcp_enqueue True up dl u w = Some (dl0, s0, r0, w0)"
    using Cons.prems(1) by (auto split: option.splits)
  obtain ss where "receive_all up dl0 us w0 = Some (dl1, ss, w1)" "ss1 = s0 @ ss"
    using Cons.prems(1) e by (auto split: option.splits)
  thus ?case using Cons.IH [OF _ Cons.prems(2)] e by simp
qed simp

lemma receive_cut:
  assumes "receiver_ok d" "mem w = []" "\<forall>x. up x = 0" "in_reassembly d = Some x"
    and "rest \<noteq> []" "sz \<noteq> 0" "length x + length rest < 2 ^ 31 - 1"
  shows "\<exists>d' w'. receive_all up (Some d) (cut sz False rest) w = Some (Some d', [x @ rest], w')
    \<and> receiver_ok d' \<and> mem w' = []"
  using assms
proof (induction "length rest" arbitrary: d w x rest rule: less_induct)
  case less
  note prems = less.prems(1,2) assms(3) less.prems(4-)
  have cut: "cut sz False rest = ((if length rest \<le> sz then 0x06 else 0x04) # take sz rest)
      # cut sz False (drop sz rest)"
    using prems(5,6) by (subst cut.simps) simp
  show ?case
  proof (cases "length rest \<le> sz")
    case True
    have "reassemble (in_reassembly d) (0x06 # take sz rest) = (None, [x @ rest], 0)"
      using prems(4) True by (simp add: reassemble_def)
    from efcp_enqueue_spec [OF prems(1,2) assms(3) _ _ this] obtain d' w' where
      "efcp_enqueue True up (Some d) (0x06 # take sz rest) w = Some (Some d', [x @ rest], 0, w')"
      "receiver_ok d'" "mem w' = []"
      using prems(4,7) by fastforce
    moreover have "cut sz False (drop sz rest) = []" using True by (subst cut.simps) simp
    ultimately show ?thesis using cut True by simp
  next
    case False
    have "reassemble (in_reassembly d) (0x04 # take sz rest) = (Some (x @ take sz rest), [], 0)"
      using prems(4) by (simp add: reassemble_def)
    from efcp_enqueue_spec [OF prems(1,2) assms(3) _ _ this] obtain d1 w1 where
      e: "efcp_enqueue True up (Some d) (0x04 # take sz rest) w = Some (Some d1, [], 0, w1)"
      "receiver_ok d1" "mem w1 = []" "in_reassembly d1 = Some (x @ take sz rest)"
      using prems(4,7) by fastforce
    have "length (drop sz rest) < length rest" "drop sz rest \<noteq> []"
        "length (x @ take sz rest) + length (drop sz rest) < 2 ^ 31 - 1"
      using False prems(5-7) by auto
    from less.hyps [OF this(1) e(2,3) assms(3) e(4) this(2) prems(6) this(3)]
    show ?thesis using cut False e(1) by auto
  qed
qed

lemma receive_udfs:
  assumes "receiver_ok d" "mem w = []" "\<forall>x. up x = 0" "sz \<noteq> 0" "length s < 2 ^ 31 - 1"
  shows "\<exists>d' w'. receive_all up (Some d) (udfs sz s) w = Some (Some d', [s], w')
    \<and> receiver_ok d' \<and> mem w' = []"
proof (cases "length s \<le> sz")
  case True
  have "reassemble (in_reassembly d) (0x07 # s) = (in_reassembly d, [s], 0)" by (simp add: reassemble_def)
  from efcp_enqueue_spec [OF assms(1-3) _ _ this] show ?thesis using True by (auto simp: udfs_def)
next
  case False
  have cut: "cut sz True s = (0x05 # take sz s) # cut sz False (drop sz s)"
    using assms(4) False by (subst cut.simps) auto
  have "reassemble (in_reassembly d) (0x05 # take sz s) = (Some (take sz s), [], 0)"
    by (simp add: reassemble_def)
  from efcp_enqueue_spec [OF assms(1-3) _ _ this] obtain d1 w1 where
    e: "efcp_enqueue True up (Some d) (0x05 # take sz s) w = Some (Some d1, [], 0, w1)"
    "receiver_ok d1" "mem w1 = []" "in_reassembly d1 = Some (take sz s)"
    by fastforce
  have "length (take sz s) + length (drop sz s) < 2 ^ 31 - 1" "drop sz s \<noteq> []"
    using False assms(5) by auto
  from receive_cut [OF e(2,3) assms(3) e(4) this(2) assms(4) this(1)]
  show ?thesis using False cut e(1) by (auto simp: udfs_def)
qed

lemma receive_stream:
  assumes "receiver_ok d" "mem w = []" "\<forall>x. up x = 0" "sz \<noteq> 0" "\<forall>s\<in>set ss. length s < 2 ^ 31 - 1"
  shows "\<exists>d' w'. receive_all up (Some d) (concat (map (udfs sz) ss)) w = Some (Some d', ss, w')
    \<and> receiver_ok d' \<and> mem w' = []"
  using assms(1,2,5)
proof (induction ss arbitrary: d w)
  case (Cons s ss)
  obtain d1 w1 where "receive_all up (Some d) (udfs sz s) w = Some (Some d1, [s], w1)"
      "receiver_ok d1" "mem w1 = []"
    using receive_udfs [OF Cons.prems(1,2) assms(3,4), of s] Cons.prems(3) by auto
  moreover obtain d2 w2 where "receive_all up (Some d1) (concat (map (udfs sz) ss)) w1 = Some (Some d2, ss, w2)"
      "receiver_ok d2" "mem w2 = []"
    using Cons.IH [OF calculation(2,3)] Cons.prems(3) by auto
  ultimately show ?case using receive_append by fastforce
qed simp


subsection \<open>Every way the loops and the receiver can end\<close>

lemma cut_sizes: "u \<in> set (cut sz b d) \<Longrightarrow> u \<noteq> [] \<and> length u \<le> sz + 1"
proof (induction sz b d rule: cut.induct)
  case (1 sz b d)
  from "1.prems" show ?case
    by (subst (asm) cut.simps) (use "1.IH" in \<open>auto split: if_splits\<close>)
qed

lemma udfs_sizes: "u \<in> set (udfs sz d) \<Longrightarrow> u \<noteq> [] \<and> length u \<le> sz + 1"
  by (auto simp: udfs_def dest: cut_sizes split: if_splits)

lemma copy_fragment_result:
  "\<exists>l' r w'. copy_du_fragment_to_list len off flags du l w = (l', r, w')"
  by (metis prod_cases3)

text \<open>With a positive fragment size the sending loop ends, also when allocations fail.\<close>

lemma fragment_loop_returns:
  assumes "sz \<noteq> 0" "unat pending < 2 ^ 31"
  shows "\<exists>r. delim_fragment_loop sz du off pending b l w = Some r"
  using assms
proof (induction "unat pending" arbitrary: off pending b l w rule: less_induct)
  case less
  show ?case
  proof (cases "pending = 0")
    case True thus ?thesis by (subst delim_fragment_loop.simps) simp
  next
    case False
    define len where "len = (if pending > sz then sz else pending)"
    have len: "len \<noteq> 0" "len \<le> pending"
      using less.prems(1) False by (auto simp: len_def)
    have "unat (pending - len) = unat pending - unat len" using len(2) by (simp add: unat_sub_small word_nat)
    hence "unat (pending - len) < unat pending" using len(1) False by (simp add: unat_gt_0)
    hence "\<exists>r. delim_fragment_loop sz du off' (pending - len) False l' w' = Some r" for off' l' w'
      by (rule less.hyps) (use less.prems \<open>unat (pending - len) < unat pending\<close> in auto)
    thus ?thesis using sless_0_small [OF less.prems(2)] False
      by (subst delim_fragment_loop.simps) (auto simp: Let_def len_def [symmetric] split: prod.splits)
  qed
qed

text \<open>With a fragment size of zero it produces fragments without data as long as there is memory.\<close>

lemma fragment_loop_stuck:
  assumes "0 <s pending" "mem w = []"
  shows "delim_fragment_loop 0 du off pending b l w = None"
proof (cases "delim_fragment_loop 0 du off pending b l w")
  case (Some r)
  have "sz = 0 \<and> 0 <s pending \<and> mem w = [] \<longrightarrow> False"
    if "delim_fragment_loop sz du off pending b l w = Some y" for sz du off pending b l w y
    by (rule delim_fragment_loop.raw_induct [OF _ that,
          where P = "\<lambda>sz du off pending b l w y. sz = 0 \<and> 0 <s pending \<and> mem w = [] \<longrightarrow> False"])
       (auto simp: copy_fragment Let_def word_sless_alt word_gt_0 split: if_splits)
  thus ?thesis using assms Some by blast
qed

lemma num_udfs_loop_cut:
  assumes "0 < unat sz" "unat sz < 2 ^ 31" "length d < 2 ^ 31"
  shows "num_udfs_loop sz (du_len d) n = Some (n + int (length (cut (unat sz) b d)))"
  using assms(3)
proof (induction "length d" arbitrary: d n b rule: less_induct)
  case less
  have small: "unat (du_len d) = length d" by (rule unat_du_len [OF less.prems])
  show ?case
  proof (cases "d = []")
    case True
    thus ?thesis by (subst num_udfs_loop.simps, subst cut.simps) (simp add: du_len_def)
  next
    case False
    have pos: "0 <s du_len d"
      using sless_0_small [of "du_len d"] small less.prems False by (auto simp flip: unat_eq_0)
    have cut: "length (cut (unat sz) b d) = Suc (length (cut (unat sz) False (drop (unat sz) d)))"
      using False assms(1) by (subst cut.simps) simp
    show ?thesis
    proof (cases "length d \<le> unat sz")
      case True
      have "sint (du_len d - sz) = int (length d) - int (unat sz)"
        using sint_diff_small [of "du_len d" sz] small less.prems assms(2) by simp
      hence neg: "\<not> 0 <s du_len d - sz" using True unfolding word_sless_alt sint_0 by linarith
      have "cut (unat sz) False (drop (unat sz) d) = []" using True by (subst cut.simps) simp
      thus ?thesis using pos cut neg
        by (subst num_udfs_loop.simps, subst num_udfs_loop.simps) simp
    next
      case False
      have "du_len d - sz = du_len (drop (unat sz) d)"
        using False by (simp add: du_len_def of_nat_diff)
      thus ?thesis using pos cut less.hyps [of "drop (unat sz) d" "n + 1" False] assms(1) False less.prems
        by (subst num_udfs_loop.simps) simp
    qed
  qed
qed


lemma reassemble_length:
  "\<lbrakk>reassemble a du = (Some x, out, r); \<And>y. a = Some y \<Longrightarrow> length y \<le> n\<rbrakk> \<Longrightarrow> length x \<le> n + length du"
  by (cases du) (fastforce simp: reassemble_def Let_def split: if_splits option.splits)+

lemma efcp_enqueue_in_bounds:
  assumes "ps_priv d = Some p" "priv_ok p" "du \<noteq> []"
    and "\<And>x. collected p = Some x \<Longrightarrow> length x \<le> n" "n + length du < 2 ^ 31"
  shows "\<exists>d' p' called r w'. efcp_enqueue True up (Some d) du w = Some (Some d', called, r, w')
    \<and> ps_priv d' = Some p' \<and> priv_ok p' \<and> (\<forall>x. collected p' = Some x \<longrightarrow> length x \<le> n + length du)"
proof -
  obtain a out res where spec: "reassemble (collected p) du = (a, out, res)" by (metis prod_cases3)
  have "length x + length du < 2 ^ 31" if "collected p = Some x" for x
    using assms(4) [OF that] assms(5) by simp
  from process_udf_spec [OF assms(2,3) this spec] obtain p' l' r w' where
    p: "default_delim_process_udf (Some (max_fragment_size d)) (Some p) du (rx_dus d) w = Some (Some p', l', r, w')"
    "priv_ok p'" "collected p' \<in> {a, None}" by blast
  have "length x \<le> n + length du" if "collected p' = Some x" for x
    using reassemble_length [of "collected p" du x out res n] spec assms(4) p(3) that by auto
  moreover obtain called b where "enqueue_all up l' = (called, b)" by (metis surj_pair)
  ultimately show ?thesis using p(1,2) assms(1)
    by (cases "r = 0"; cases b) (auto simp: efcp_enqueue_def)
qed

lemma receive_all_in_bounds:
  assumes "ps_priv d = Some p" "priv_ok p" "[] \<notin> set us"
    and "\<And>x. collected p = Some x \<Longrightarrow> length x \<le> n" "n + length (concat us) < 2 ^ 31"
  shows "\<exists>d' p' called w'. receive_all up (Some d) us w = Some (Some d', called, w')
    \<and> ps_priv d' = Some p' \<and> priv_ok p'"
  using assms
proof (induction us arbitrary: d p w n)
  case (Cons u us)
  obtain d1 p1 c1 r1 w1 where e: "efcp_enqueue True up (Some d) u w = Some (Some d1, c1, r1, w1)"
      "ps_priv d1 = Some p1" "priv_ok p1" "\<forall>x. collected p1 = Some x \<longrightarrow> length x \<le> n + length u"
    using efcp_enqueue_in_bounds [OF Cons.prems(1,2), of u n up w] Cons.prems(3-5) by auto
  obtain d2 p2 c2 w2 where "receive_all up (Some d1) us w1 = Some (Some d2, c2, w2)"
      "ps_priv d2 = Some p2" "priv_ok p2"
    using Cons.IH [OF e(2,3), of "n + length u" w1] Cons.prems(3,5) e(4) by auto
  thus ?case using e(1) by auto
qed simp


subsection \<open>Properties\<close>

text \<open>A receiver as \<open>delim_create\<close> and the creation of its policy set leave it.\<close>

definition new_delim :: "u32 \<Rightarrow> delim" where
  "new_delim sz = \<lparr>max_fragment_size = sz, tx_dus = [], rx_dus = [],
     ps_priv = Some \<lparr>pending_dus = Some [], reassembly_in_process = False, total_length = 0\<rparr>\<rparr>"

lemma new_delim_ok [simp]: "receiver_ok (new_delim sz)" "in_reassembly (new_delim sz) = None"
  by (simp_all add: new_delim_def receiver_ok_def priv_ok_def in_reassembly_def collected_def)

text \<open>
  Delimiting is transparent: SDUs of any size below \<open>2 ^ 31 - 1\<close> bytes, empty ones included,
  written one after the other into a connection with a positive fragment size, and received in the
  order sent by a connection in any consistent state (an SDU half reassembled included), reach the
  layer above complete, unchanged and in order; no fragment handed to DTP is longer than the
  maximum fragment size and its flags. Memory allocations succeed and the layer above accepts.
\<close>

lemma sdus_delivered:
  assumes "max_fragment_size snd_d \<noteq> 0" "tx_dus snd_d = []" "mem w = []"
    and "\<forall>s\<in>set sdus. length s < 2 ^ 31 - 1"
    and "receiver_ok rcv_d" "mem w' = []" "\<forall>x. up x = 0"
  shows "\<exists>us w1 rcv_d' w2. write_all dtp (Some snd_d) sdus w = Some (Some snd_d, us, w1)
    \<and> receive_all up (Some rcv_d) us w' = Some (Some rcv_d', sdus, w2)
    \<and> (\<forall>u\<in>set us. length u \<le> unat (max_fragment_size snd_d) + 1) \<and> receiver_ok rcv_d'"
proof -
  let ?us = "concat (map (udfs (unat (max_fragment_size snd_d))) sdus)"
  have "\<forall>s\<in>set sdus. length s < 2 ^ 31" using assms(4) by auto
  from write_all_udfs [OF assms(1-3) this, of dtp]
  obtain w1 where "write_all dtp (Some snd_d) sdus w = Some (Some snd_d, ?us, w1)" by blast
  moreover have "unat (max_fragment_size snd_d) \<noteq> 0" using assms(1) by (simp add: unat_eq_zero)
  from receive_stream [OF assms(5,6,7) this assms(4)] obtain rcv_d' w2 where
    "receive_all up (Some rcv_d) ?us w' = Some (Some rcv_d', sdus, w2)" "receiver_ok rcv_d'" by blast
  moreover have "\<forall>u\<in>set ?us. length u \<le> unat (max_fragment_size snd_d) + 1"
    using udfs_sizes by auto
  ultimately show ?thesis by blast
qed

definition plenty :: du_world where "plenty = \<lparr>mem = [], junk = 0xAA, destroyed = []\<rparr>"

text \<open>
  C22. One step of the receiver refines the abstract reassembly of an SDU, with \<open>collected\<close> as the
  abstraction: as long as memory lasts the data collected, the SDUs handed out and the result are
  those of \<open>reassemble\<close>, for every flag combination. Whatever fails, the invariant is kept, nothing
  but what the specification gives is handed out, and the data collected is that of the
  specification or dropped as a whole.
\<close>

theorem reassembly_refines:
  assumes "priv_ok p" "du \<noteq> []" "\<forall>x. collected p = Some x \<longrightarrow> length x + length du < 2 ^ 31"
  shows "case reassemble (collected p) du of (a, out, res) \<Rightarrow>
    \<exists>p' l' r w'. default_delim_process_udf (Some sz) (Some p) du l w = Some (Some p', l', r, w') \<and>
      priv_ok p' \<and> collected p' \<in> {a, None} \<and> l' \<in> {l @ out, l} \<and>
      (mem w = [] \<longrightarrow> collected p' = a \<and> l' = l @ out \<and> r = res)"
proof (cases "reassemble (collected p) du")
  case (fields a out res)
  from process_udf_spec [OF assms(1,2) _ fields, of sz l w] show ?thesis
    unfolding fields prod.case using assms(3) by blast
qed

theorem reassembly_refines_witness:
  "case reassemble (Some [1, 2]) [0x06, 3] of (a, out, res) \<Rightarrow>
    \<exists>p' l' r w'. default_delim_process_udf (Some 2)
        (Some \<lparr>pending_dus = Some [[0x05, 1, 2]], reassembly_in_process = True, total_length = 2\<rparr>)
        [0x06, 3] [] plenty = Some (Some p', l', r, w') \<and>
      priv_ok p' \<and> collected p' \<in> {a, None} \<and> l' \<in> {[] @ out, []} \<and>
      (mem plenty = [] \<longrightarrow> collected p' = a \<and> l' = [] @ out \<and> r = res)"
proof -
  let ?p = "\<lparr>pending_dus = Some [[0x05, 1, 2]], reassembly_in_process = True, total_length = 2\<rparr>"
  have p: "collected ?p = Some [1, 2]" "priv_ok ?p" by code_simp+
  have b: "\<forall>x. collected ?p = Some x \<longrightarrow> length x + length [0x06 :: u8, 3] < 2 ^ 31"
    unfolding p(1) by simp
  show ?thesis by (rule reassembly_refines [OF p(2) _ b, unfolded p(1)]) simp
qed

text \<open>
  No user data fields crash the receiver: from a consistent state, fields that are not empty
  and carry together less than \<open>2 ^ 31\<close> bytes are processed without a read or write outside a
  buffer and leave a consistent state, whatever their flags, whichever allocations fail and
  whatever the layer above answers.
\<close>

lemma reassembly_in_bounds:
  assumes "ps_priv d = Some p" "priv_ok p" "[] \<notin> set us"
    and "\<forall>x. collected p = Some x \<longrightarrow> length x + length (concat us) < 2 ^ 31"
    and "length (concat us) < 2 ^ 31"
  shows "\<exists>d' p' called w'. receive_all up (Some d) us w = Some (Some d', called, w')
    \<and> ps_priv d' = Some p' \<and> priv_ok p'"
proof (cases "collected p")
  case None
  thus ?thesis using receive_all_in_bounds [OF assms(1-3), of 0] assms(5) by simp
next
  case (Some x)
  thus ?thesis using receive_all_in_bounds [OF assms(1-3), of "length x"] assms(4) by simp
qed

text \<open>
  Fragmentation returns for every SDU below \<open>2 ^ 31\<close> bytes when the fragment size is positive,
  also when allocations fail. With a fragment size of zero, which a maximum PDU size of the header
  and one byte gives, it does not return for an SDU that is not empty: it appends fragments without
  data as long as there is memory for them.
\<close>

lemma fragment_returns:
  assumes "length du < 2 ^ 31"
  shows "(sz \<noteq> 0 \<longrightarrow> (\<exists>r. default_delim_fragment (Some sz) du l w = Some r)) \<and>
    (sz = delim_fragment_size (pci + 1) pci \<and> du \<noteq> [] \<and> mem w = [] \<longrightarrow>
      default_delim_fragment (Some sz) du l w = None)"
proof -
  have small: "unat (du_len du) < 2 ^ 31" using unat_du_len [OF assms] assms by simp
  have pos: "du \<noteq> [] \<Longrightarrow> 0 <s du_len du \<and> du_len du \<noteq> 0"
    using sless_0_small [OF small] unat_du_len [OF assms] by auto
  have "sz \<noteq> 0 \<longrightarrow> (\<exists>r. default_delim_fragment (Some sz) du l w = Some r)"
    using fragment_loop_returns [OF _ small, of sz] by (simp add: default_delim_fragment_def del: split_paired_Ex)
  moreover have "sz = delim_fragment_size (pci + 1) pci \<and> du \<noteq> [] \<and> mem w = [] \<longrightarrow>
      default_delim_fragment (Some sz) du l w = None"
    using fragment_loop_stuck pos by (simp add: default_delim_fragment_def delim_fragment_size_def)
  ultimately show ?thesis ..
qed

text \<open>
  The number of user data fields announced for an SDU is the number it is cut into, for every
  SDU that is not empty; for the empty SDU zero is announced and one is produced.
\<close>

lemma num_udfs_agree:
  assumes "0 < sz" "sz < 2 ^ 31" "length du < 2 ^ 31" "mem w = []"
  shows "\<exists>us w' n. default_delim_fragment (Some sz) du l w = Some (l @ us, 0, w')
    \<and> default_delim_num_udfs (Some sz) du w = Some (int n, w)
    \<and> (if du = [] then n = 0 \<and> us = [[0x07]] else n = length us)"
proof -
  have sz: "0 < unat sz" "unat sz < 2 ^ 31" "sz \<noteq> 0" using assms(1,2) by (auto simp: word_nat unat_gt_0)
  obtain w' where "default_delim_fragment (Some sz) du l w = Some (l @ udfs (unat sz) du, 0, w')"
    using fragment_udfs [OF assms(4) sz(3) assms(3), of l] by blast
  moreover have "default_delim_num_udfs (Some sz) du w = Some (int (length (cut (unat sz) True du)), w)"
    using num_udfs_loop_cut [OF sz(1,2) assms(3), of 0 True] by (simp add: default_delim_num_udfs_def)
  moreover have "length (cut (unat sz) True du) = 1" if "du \<noteq> []" "length du \<le> unat sz"
    using that sz(1) by (subst cut.simps, subst cut.simps) simp
  moreover have "cut (unat sz) True [] = []" by (simp add: cut.simps)
  ultimately show ?thesis by (cases "du = []") (auto simp: udfs_def)
qed

text \<open>
  An SDU that the layer above refuses stays on the list of received SDUs: when the next SDU
  arrives the layer above is called with the refused one again, which it has already destroyed,
  before the new one; if it refuses once more the new SDU is not offered at all.
\<close>

lemma refused_sdu_offered_again:
  assumes "receiver_ok d" "mem w = []" "up s \<noteq> 0"
  shows "\<exists>d1 w1. efcp_enqueue True up (Some d) (0x07 # s) w = Some (Some d1, [s], -1, w1)
    \<and> (\<exists>d2 r w2. efcp_enqueue True up' (Some d1) (0x07 # t) w1
        = Some (Some d2, if up' s = 0 then [s, t] else [s], r, w2))"
  using assms
  by (auto simp: efcp_enqueue_def receiver_ok_def default_delim_process_udf_def
        process_single_full_sdu_def add_du_to_list_def split: option.splits)

text \<open>
  The fragments carry no number: when a middle fragment of an SDU does not arrive, the receiver
  joins its neighbours and hands up the SDU without the missing bytes as a complete one, with
  result 0 for every fragment.
\<close>

lemma lost_fragment_unnoticed:
  assumes "receiver_ok d" "mem w = []" "\<forall>x. up x = 0" "sz \<noteq> 0"
    and "length a = sz" "length b = sz" "c \<noteq> []" "length c \<le> sz" "length (a @ c) < 2 ^ 31 - 1"
  shows "udfs sz (a @ b @ c) = [0x05 # a, 0x04 # b, 0x06 # c] \<and>
    (\<exists>d1 d2 w1 w2. efcp_enqueue True up (Some d) (0x05 # a) w = Some (Some d1, [], 0, w1)
       \<and> efcp_enqueue True up (Some d1) (0x06 # c) w1 = Some (Some d2, [a @ c], 0, w2))"
proof -
  have "reassemble (in_reassembly d) (0x05 # a) = (Some a, [], 0)" by (simp add: reassemble_def)
  from efcp_enqueue_spec [OF assms(1-3) _ _ this] obtain d1 w1 where
    e: "efcp_enqueue True up (Some d) (0x05 # a) w = Some (Some d1, [], 0, w1)"
    "receiver_ok d1" "mem w1 = []" "in_reassembly d1 = Some a" by fastforce
  have "reassemble (in_reassembly d1) (0x06 # c) = (None, [a @ c], 0)"
    using e(4) by (simp add: reassemble_def)
  from efcp_enqueue_spec [OF e(2,3) assms(3) _ _ this] obtain d2 w2 where
    "efcp_enqueue True up (Some d1) (0x06 # c) w1 = Some (Some d2, [a @ c], 0, w2)"
    using e(4) assms(9) by fastforce
  moreover have "udfs sz (a @ b @ c) = [0x05 # a, 0x04 # b, 0x06 # c]"
    using assms(4-8) by (simp add: udfs_def) (subst cut.simps; simp)+
  ultimately show ?thesis using e(1) by blast
qed

end
