(* ===== verification/Rina_Dtp.thy ===== *)
theory Rina_Dtp
  imports Rina_Ringq Rina_Delim
begin

section \<open>The receiver of the RINA data transfer protocol (dtp.c, dtcp.c and their default policies)\<close>

text \<open>
  Data PDUs arrive at \<open>dtp_receive\<close>: it drops duplicates, keeps PDUs that came too early in the
  sequencing queue, hands the others in order to \<open>pdu_post\<close>, and lets DTCP acknowledge them and move
  the receive window; the A timer delivers what waited too long. The state is the part of
  \<open>struct dtp\<close> and \<open>struct dtcp\<close> the receiver uses. Sequence numbers and times in milliseconds are
  \<open>u32\<close>, times in jiffies \<open>unsigned long\<close>, here \<open>u64\<close>. What is handed to \<open>pdu_post\<close>, sent to the RMT
  and destroyed is recorded in the state. \<open>None\<close> is the use of a null pointer or a write outside a
  queue. The state-vector lock makes each function one step.
\<close>

subsection \<open>State\<close>

record dt_pdu =
  p_sn :: u32
  p_drf :: bool
  p_data :: bytes

datatype pdu_type = PDU_TYPE_ACK | PDU_TYPE_FC | PDU_TYPE_ACK_AND_FC | PDU_TYPE_NACK
  | PDU_TYPE_NACK_AND_FC | PDU_TYPE_RENDEZVOUS | PDU_TYPE_CACK

text \<open>A control PDU; a field its type does not have, or that was not set, is \<open>None\<close>.\<close>

record ctrl_pdu =
  c_type :: pdu_type
  c_sn :: u32
  c_ack :: "u32 option"
  c_new_lwe :: "u32 option"
  c_new_rwe :: "u32 option"
  c_my_lwe :: "u32 option"
  c_my_rwe :: "u32 option"
  c_rate :: "u32 option"
  c_time :: "u32 option"
  c_last_ctl :: "u32 option"

text \<open>The settings of DTCP, in its configuration and copied into its policy set.\<close>

record dtcp_settings =
  flow_ctrl :: bool
  window_based :: bool
  rate_based :: bool
  rtx_ctrl :: bool

record dtcp =
  dtcp_cfg :: dtcp_settings
  dtcp_ps :: dtcp_settings
  next_snd_ctl_seq :: u32
  last_rcv_ctl_seq :: u32
  last_snd_data_ack :: u32
  snd_lft_win :: u32
  snd_rt_wind_edge :: u32
  rcvr_credit :: u32
  rcvr_rt_wind_edge :: u32
  sndr_rate :: u32
  time_unit :: u32
  pdus_rcvd_in_time_unit :: u32
  rendezvous_rcvr :: bool
  rendezvous_rcv :: "u64 option"
  cpdus_in_transit :: int

record dtp =
  dtp_dtcp :: "dtcp option"
  sv_MPL :: u32
  sv_R :: u32
  sv_A :: u32
  rcv_left_window_edge :: u32
  drf_required :: bool
  in_order_delivery :: bool
  max_sdu_gap :: u32
  drop_pdus :: u32
  rx_pdus :: u32
  rx_bytes :: u32
  seqq :: "(u64 \<times> dt_pdu) list"
  to_post :: "dt_pdu ringq"
  to_send :: "ctrl_pdu ringq"
  rttq :: "(u64 \<times> u32) list option"
  receiver_inactivity :: "u64 option"
  sender_inactivity :: "u64 option"
  a_timer :: "u64 option"
  dtp_mem :: "bool list"
  posted :: "dt_pdu list"
  sent :: "ctrl_pdu list"
  dropped :: "dt_pdu list"

text \<open>
  The environment of a call: the clock, its frequency, the conversion of milliseconds, and what
  \<open>pdu_post\<close> answers for a data unit.
\<close>

record dtp_env =
  jiffies :: u64
  HZ :: u32
  msecs_to_jiffies :: "u32 \<Rightarrow> u32"
  post_result :: "dt_pdu \<Rightarrow> int"

definition dtp_alloc :: "dtp \<Rightarrow> bool \<times> dtp" where
  "dtp_alloc d = (case dtp_mem d of [] \<Rightarrow> (True, d) | ok # m \<Rightarrow> (ok, d\<lparr>dtp_mem := m\<rparr>))"

subsection \<open>Timers (rds/rtimer.c)\<close>

text \<open>A timer is the time at which it expires, when it is pending. Restarting is starting.\<close>

definition rtimer_start :: "dtp_env \<Rightarrow> u64 option \<Rightarrow> u32 \<Rightarrow> u64 option" where
  "rtimer_start E tm ms =
    (if tm \<noteq> None then tm else Some (jiffies E + ucast ((ms * HZ E) div 1000)))"

definition rtimer_restart :: "dtp_env \<Rightarrow> u64 option \<Rightarrow> u32 \<Rightarrow> u64 option" where
  "rtimer_restart E tm ms = rtimer_start E tm ms"

definition rtimer_stop :: "u64 option \<Rightarrow> u64 option" where
  "rtimer_stop tm = None"

subsection \<open>The sequencing queue\<close>

datatype seq_place = Placed "(u64 \<times> dt_pdu) list" | Same | Nowhere

text \<open>
  The loop over the queue: the new entry goes behind the first entry with a smaller number. When
  there is none, the loop ends without a place for it.
\<close>

fun seq_insert :: "u64 \<times> dt_pdu \<Rightarrow> (u64 \<times> dt_pdu) list \<Rightarrow> seq_place" where
  "seq_insert e [] = Nowhere"
| "seq_insert e (c # q) =
    (if p_sn (snd e) = p_sn (snd c) then Same
     else if p_sn (snd e) > p_sn (snd c) then Placed (c # e # q)
     else case seq_insert e q of Placed q' \<Rightarrow> Placed (c # q') | r \<Rightarrow> r)"

text \<open>
  An entry that is a duplicate is destroyed with its PDU; one without a place is neither linked
  nor destroyed. Without memory for the entry the PDU stays with the caller.
\<close>

definition seq_queue_push_ni :: "dtp_env \<Rightarrow> dt_pdu \<Rightarrow> dtp \<Rightarrow> dtp \<times> int" where
  "seq_queue_push_ni E du d =
    (case dtp_alloc d of (ok, d) \<Rightarrow>
       if \<not> ok then (d, -1)
       else
         let e = (jiffies E, du)
         in if seqq d = [] then (d\<lparr>seqq := [e]\<rparr>, 0)
            else if p_sn du = p_sn (snd (last (seqq d))) then (d\<lparr>dropped := dropped d @ [du]\<rparr>, -1)
            else if p_sn du > p_sn (snd (last (seqq d))) then (d\<lparr>seqq := seqq d @ [e]\<rparr>, 0)
            else case seq_insert e (seqq d) of
                Placed q \<Rightarrow> (d\<lparr>seqq := q\<rparr>, 0)
              | Same \<Rightarrow> (d\<lparr>dropped := dropped d @ [du]\<rparr>, 0)
              | Nowhere \<Rightarrow> (d, 0))"

definition seq_queue_pop :: "(u64 \<times> dt_pdu) list \<Rightarrow> (u64 \<times> dt_pdu) list \<times> dt_pdu option" where
  "seq_queue_pop q = (case q of [] \<Rightarrow> ([], None) | e # q' \<Rightarrow> (q', Some (snd e)))"

definition are_there_pdus :: "(u64 \<times> dt_pdu) list \<Rightarrow> u32 \<Rightarrow> bool" where
  "are_there_pdus q LWE = (case q of [] \<Rightarrow> False | e # _ \<Rightarrow> p_sn (snd e) = LWE + 1)"

definition dtp_squeue_flush :: "dtp \<Rightarrow> dtp" where
  "dtp_squeue_flush d = d\<lparr>seqq := [], dropped := dropped d @ map snd (seqq d)\<rparr>"

definition seqq_is_empty :: "dtp \<Rightarrow> bool" where
  "seqq_is_empty d \<longleftrightarrow> seqq d = []"


subsection \<open>Acknowledgement and flow control by DTCP (dtcp.c, dtcp-ps-default.c)\<close>

text \<open>The fields of a control PDU by its type (pci.c): a setter for a field the type lacks fails.\<close>

definition pci_control_ack_seq_num_set :: "u32 \<Rightarrow> ctrl_pdu \<Rightarrow> ctrl_pdu \<times> int" where
  "pci_control_ack_seq_num_set n c =
    (if c_type c \<in> {PDU_TYPE_ACK, PDU_TYPE_ACK_AND_FC} then (c\<lparr>c_ack := Some n\<rparr>, 0) else (c, -1))"

definition pci_control_new_rt_wind_edge_set :: "u32 \<Rightarrow> ctrl_pdu \<Rightarrow> ctrl_pdu" where
  "pci_control_new_rt_wind_edge_set n c =
    (if c_type c \<in> {PDU_TYPE_FC, PDU_TYPE_RENDEZVOUS, PDU_TYPE_CACK, PDU_TYPE_ACK_AND_FC}
     then c\<lparr>c_new_rwe := Some n\<rparr> else c)"

definition pci_control_new_left_wind_edge_set :: "u32 \<Rightarrow> ctrl_pdu \<Rightarrow> ctrl_pdu" where
  "pci_control_new_left_wind_edge_set n c =
    (if c_type c \<in> {PDU_TYPE_RENDEZVOUS, PDU_TYPE_CACK, PDU_TYPE_ACK_AND_FC}
     then c\<lparr>c_new_lwe := Some n\<rparr> else c)"

definition pci_control_my_rt_wind_edge_set :: "u32 \<Rightarrow> ctrl_pdu \<Rightarrow> ctrl_pdu" where
  "pci_control_my_rt_wind_edge_set n c =
    (if c_type c \<in> {PDU_TYPE_FC, PDU_TYPE_RENDEZVOUS, PDU_TYPE_CACK, PDU_TYPE_ACK_AND_FC}
     then c\<lparr>c_my_rwe := Some n\<rparr> else c)"

definition pci_control_my_left_wind_edge_set :: "u32 \<Rightarrow> ctrl_pdu \<Rightarrow> ctrl_pdu" where
  "pci_control_my_left_wind_edge_set n c =
    (if c_type c \<in> {PDU_TYPE_FC, PDU_TYPE_RENDEZVOUS, PDU_TYPE_CACK, PDU_TYPE_ACK_AND_FC}
     then c\<lparr>c_my_lwe := Some n\<rparr> else c)"

definition pci_control_last_seq_num_rcvd_set :: "u32 \<Rightarrow> ctrl_pdu \<Rightarrow> ctrl_pdu \<times> int" where
  "pci_control_last_seq_num_rcvd_set n c =
    (if c_type c \<in> {PDU_TYPE_RENDEZVOUS, PDU_TYPE_CACK, PDU_TYPE_ACK_AND_FC}
     then (c\<lparr>c_last_ctl := Some n\<rparr>, 0) else (c, -1))"

definition pci_control_sndr_rate_set :: "u32 \<Rightarrow> ctrl_pdu \<Rightarrow> ctrl_pdu" where
  "pci_control_sndr_rate_set n c =
    (if c_type c \<in> {PDU_TYPE_FC, PDU_TYPE_RENDEZVOUS, PDU_TYPE_CACK, PDU_TYPE_ACK_AND_FC}
     then c\<lparr>c_rate := Some n\<rparr> else c)"

definition pci_control_time_frame_set :: "u32 \<Rightarrow> ctrl_pdu \<Rightarrow> ctrl_pdu" where
  "pci_control_time_frame_set n c =
    (if c_type c \<in> {PDU_TYPE_FC, PDU_TYPE_CACK, PDU_TYPE_ACK_AND_FC}
     then c\<lparr>c_time := Some n\<rparr> else c)"

definition populate_windows :: "dtcp \<Rightarrow> u32 \<Rightarrow> ctrl_pdu \<Rightarrow> ctrl_pdu" where
  "populate_windows t LWE c =
    (if window_based (dtcp_cfg t)
     then pci_control_my_rt_wind_edge_set (snd_rt_wind_edge t)
            (pci_control_my_left_wind_edge_set (snd_lft_win t)
              (pci_control_new_rt_wind_edge_set (rcvr_rt_wind_edge t)
                (pci_control_new_left_wind_edge_set LWE c)))
     else c)"

definition populate_rate :: "dtcp \<Rightarrow> ctrl_pdu \<Rightarrow> ctrl_pdu" where
  "populate_rate t c =
    (if rate_based (dtcp_cfg t)
     then pci_control_time_frame_set (time_unit t) (pci_control_sndr_rate_set (sndr_rate t) c) else c)"

definition populate_ctrl_pci :: "dtcp \<Rightarrow> u32 \<Rightarrow> ctrl_pdu \<Rightarrow> ctrl_pdu \<times> int" where
  "populate_ctrl_pci t LWE c =
    (let c = (if flow_ctrl (dtcp_cfg t) then populate_rate t (populate_windows t LWE c) else c)
     in case c_type c of
          PDU_TYPE_ACK_AND_FC \<Rightarrow>
            (case pci_control_ack_seq_num_set LWE c of (c, r) \<Rightarrow>
               if r \<noteq> 0 then (c, -1) else pci_control_last_seq_num_rcvd_set (last_rcv_ctl_seq t) c)
        | PDU_TYPE_ACK \<Rightarrow> pci_control_ack_seq_num_set LWE c
        | PDU_TYPE_NACK_AND_FC \<Rightarrow> pci_control_ack_seq_num_set (LWE + 1) c
        | PDU_TYPE_NACK \<Rightarrow> pci_control_ack_seq_num_set (LWE + 1) c
        | PDU_TYPE_RENDEZVOUS \<Rightarrow> pci_control_last_seq_num_rcvd_set (last_rcv_ctl_seq t) c
        | PDU_TYPE_CACK \<Rightarrow> pci_control_last_seq_num_rcvd_set (last_rcv_ctl_seq t) c
        | PDU_TYPE_FC \<Rightarrow> (c, 0))"

text \<open>
  A control PDU of the given type, with the next control sequence number; nothing when it cannot
  be allocated (the structure and its buffer) or filled in. The addresses and identifiers that
  \<open>pci_format\<close> copies from the connection are left out.
\<close>

definition pdu_ctrl_generate :: "pdu_type \<Rightarrow> dtcp \<Rightarrow> dtp \<Rightarrow> ctrl_pdu option \<times> dtcp \<times> dtp" where
  "pdu_ctrl_generate ty t d =
    (case dtp_alloc d of (ok, d) \<Rightarrow>
       if \<not> ok then (None, t, d)
       else case dtp_alloc d of (ok, d) \<Rightarrow>
         if \<not> ok then (None, t, d)
         else
           let t = t\<lparr>next_snd_ctl_seq := next_snd_ctl_seq t + 1\<rparr>;
               c = \<lparr>c_type = ty, c_sn = next_snd_ctl_seq t, c_ack = None, c_new_lwe = None,
                    c_new_rwe = None, c_my_lwe = None, c_my_rwe = None, c_rate = None, c_time = None,
                    c_last_ctl = None\<rparr>
           in case populate_ctrl_pci t (rcv_left_window_edge d) c of
                (c, r) \<Rightarrow> (if r \<noteq> 0 then None else Some c, t, d))"

definition dtcp_pdu_send :: "ctrl_pdu \<Rightarrow> dtp \<Rightarrow> (dtp \<times> int) option" where
  "dtcp_pdu_send c d =
    (case ringq_push (Some (to_send d)) c of
       Some (Some q, r) \<Rightarrow> Some (d\<lparr>to_send := q\<rparr>, r)
     | _ \<Rightarrow> None)"

text \<open>Sent at once, with the answer of the RMT, or queued for the end of the call.\<close>

definition ctrl_pdu_send ::
  "pdu_type \<Rightarrow> (ctrl_pdu \<Rightarrow> int) option \<Rightarrow> dtcp \<Rightarrow> dtp \<Rightarrow> (dtcp \<times> dtp \<times> int) option" where
  "ctrl_pdu_send ty direct t d =
    (case pdu_ctrl_generate ty t d of
       (None, t, d) \<Rightarrow> Some (t\<lparr>cpdus_in_transit := cpdus_in_transit t - 1\<rparr>, d, -1)
     | (Some c, t, d) \<Rightarrow>
        (let t = t\<lparr>cpdus_in_transit := cpdus_in_transit t - 1\<rparr>
         in case direct of
              Some rmt \<Rightarrow> if rmt c \<noteq> 0 then Some (t, d, -1) else Some (t, d\<lparr>sent := sent d @ [c]\<rparr>, 0)
            | None \<Rightarrow>
               (case dtcp_pdu_send c d of None \<Rightarrow> None
                | Some (d, r) \<Rightarrow> Some (t, d, if r \<noteq> 0 then -1 else 0))))"

text \<open>The type of acknowledgement that is due, if the left window edge has moved.\<close>

definition pdu_ctrl_type_get :: "u32 \<Rightarrow> dtcp \<Rightarrow> pdu_type option \<times> dtcp" where
  "pdu_ctrl_type_get LWE t =
    (if last_snd_data_ack t < LWE
     then (Some (if flow_ctrl (dtcp_ps t) then PDU_TYPE_ACK_AND_FC else PDU_TYPE_ACK),
           t\<lparr>last_snd_data_ack := LWE\<rparr>)
     else (None, t))"

definition dtcp_ack_flow_control_pdu_send :: "dtcp \<Rightarrow> dtp \<Rightarrow> (dtcp \<times> dtp \<times> int) option" where
  "dtcp_ack_flow_control_pdu_send t d =
    (let t = t\<lparr>cpdus_in_transit := cpdus_in_transit t + 1\<rparr>
     in case pdu_ctrl_type_get (rcv_left_window_edge d) t of
          (None, t) \<Rightarrow> Some (t\<lparr>cpdus_in_transit := cpdus_in_transit t - 1\<rparr>, d, 0)
        | (Some ty, t) \<Rightarrow> ctrl_pdu_send ty None t d)"

definition default_rcvr_ack :: "dtcp \<Rightarrow> dtp \<Rightarrow> (dtcp \<times> dtp \<times> int) option" where
  "default_rcvr_ack t d = dtcp_ack_flow_control_pdu_send t d"

definition default_receiving_flow_control :: "dtcp \<Rightarrow> dtp \<Rightarrow> (dtcp \<times> dtp \<times> int) option" where
  "default_receiving_flow_control t d =
    (case pdu_ctrl_generate PDU_TYPE_FC t d of
       (None, t, d) \<Rightarrow> Some (t, d, -1)
     | (Some c, t, d) \<Rightarrow>
        (case dtcp_pdu_send c d of None \<Rightarrow> None
         | Some (d, r) \<Rightarrow> Some (t, d, if r \<noteq> 0 then -1 else 0)))"

definition default_rcvr_flow_control :: "dtcp \<Rightarrow> dtp \<Rightarrow> dtcp" where
  "default_rcvr_flow_control t d = t\<lparr>rcvr_rt_wind_edge := rcv_left_window_edge d + rcvr_credit t\<rparr>"

text \<open>
  The state-vector update after a data PDU. The rate policy reads the rate from the PDU and does
  nothing when there is none, which is so for every data PDU; the other policies use no field of
  the PDU. The receiver acknowledgement policy is the one of the default build configuration.
\<close>

definition dtcp_sv_update :: "dtcp \<Rightarrow> dtp \<Rightarrow> (dtcp \<times> dtp \<times> int) option" where
  "dtcp_sv_update t d =
    (let t = (if flow_ctrl (dtcp_ps t) \<and> window_based (dtcp_ps t) then default_rcvr_flow_control t d else t)
     in if flow_ctrl (dtcp_ps t) \<and> \<not> rtx_ctrl (dtcp_ps t) then default_receiving_flow_control t d
        else if rtx_ctrl (dtcp_ps t) then default_rcvr_ack t d
        else Some (t, d, 0))"

text \<open>Running it from DTP, which owns the DTCP instance.\<close>

definition sv_update :: "dtp \<Rightarrow> (dtp \<times> int) option" where
  "sv_update d =
    (case dtp_dtcp d of None \<Rightarrow> Some (d, 0)
     | Some t \<Rightarrow> (case dtcp_sv_update t d of None \<Rightarrow> None
                | Some (t, d, r) \<Rightarrow> Some (d\<lparr>dtp_dtcp := Some t\<rparr>, r)))"

definition dtp_send_pending_ctrl_pdus :: "dtp \<Rightarrow> dtp" where
  "dtp_send_pending_ctrl_pdus d =
    (case ringq_drain (to_send d) of (q, cs) \<Rightarrow> d\<lparr>to_send := q, sent := sent d @ cs\<rparr>)"


subsection \<open>Receiving a data PDU (dtp_receive)\<close>

definition is_fc_overrun :: "u32 \<Rightarrow> nat \<Rightarrow> dtp \<Rightarrow> bool \<times> dtp" where
  "is_fc_overrun seq_num pdul d =
    (case dtp_dtcp d of
       None \<Rightarrow> (False, d)
     | Some t \<Rightarrow>
        (window_based (dtcp_cfg t) \<and> seq_num > rcvr_rt_wind_edge t,
         if rate_based (dtcp_cfg t)
         then d\<lparr>dtp_dtcp := Some (t\<lparr>pdus_rcvd_in_time_unit := pdus_rcvd_in_time_unit t + word_of_nat pdul\<rparr>)\<rparr>
         else d))"

definition drop_pdu :: "dt_pdu \<Rightarrow> dtp \<Rightarrow> dtp" where
  "drop_pdu du d = d\<lparr>dropped := dropped d @ [du]\<rparr>"

definition stats_drop :: "dtp \<Rightarrow> dtp" where
  "stats_drop d = d\<lparr>drop_pdus := drop_pdus d + 1\<rparr>"

definition stats_rx :: "dt_pdu \<Rightarrow> dtp \<Rightarrow> dtp" where
  "stats_rx du d = d\<lparr>rx_pdus := rx_pdus d + 1, rx_bytes := rx_bytes d + word_of_nat (length (p_data du))\<rparr>"

text \<open>\<open>pdu_post\<close> hands the data unit to \<open>efcp_enqueue\<close>, which owns it from then on.\<close>

definition pdu_post :: "dtp_env \<Rightarrow> dt_pdu \<Rightarrow> dtp \<Rightarrow> dtp \<times> int" where
  "pdu_post E du d = (d\<lparr>posted := posted d @ [du]\<rparr>, if post_result E du \<noteq> 0 then -1 else 0)"

definition post_all :: "dtp_env \<Rightarrow> dt_pdu list \<Rightarrow> dtp \<Rightarrow> dtp" where
  "post_all E dus d = fold (\<lambda>du d. fst (pdu_post E du d)) dus d"

text \<open>The first PDU of a data run: the receiver synchronises to it.\<close>

definition receive_data_run :: "dtp_env \<Rightarrow> dt_pdu \<Rightarrow> dtp \<Rightarrow> (dtp \<times> int) option" where
  "receive_data_run E du d =
    (let d = d\<lparr>receiver_inactivity :=
                 rtimer_restart E (receiver_inactivity d) (2 * (sv_MPL d + sv_R d + sv_A d))\<rparr>
     in if p_drf du then
          let d = dtp_squeue_flush (d\<lparr>drf_required := False, rcv_left_window_edge := p_sn du\<rparr>);
              d = d\<lparr>rttq := map_option (\<lambda>_. []) (rttq d)\<rparr>
          in case sv_update d of
               None \<Rightarrow> None
             | Some (d, r) \<Rightarrow>
                if r \<noteq> 0 then Some (d, -1)
                else Some (stats_rx du (fst (pdu_post E du (dtp_send_pending_ctrl_pdus d))), 0)
        else Some (drop_pdu du (stats_drop d), 0))"

text \<open>Without an A timer a PDU is delivered at once, or dropped when a retransmission will follow.\<close>

definition receive_unordered :: "dtp_env \<Rightarrow> dt_pdu \<Rightarrow> u32 \<Rightarrow> dtp \<Rightarrow> (dtp \<times> int) option" where
  "receive_unordered E du LWE d =
    (if \<not> in_order_delivery d \<and> dtp_dtcp d = None then Some (pdu_post E du d)
     else case dtp_dtcp d of
       None \<Rightarrow> None
     | Some t \<Rightarrow>
        let set_lft_win_edge = (\<not> (rtx_ctrl (dtcp_cfg t) \<and> p_sn du - LWE > max_sdu_gap d + 1));
            d = (if set_lft_win_edge then d\<lparr>rcv_left_window_edge := p_sn du\<rparr> else d)
        in case sv_update d of
             None \<Rightarrow> None
           | Some (d, r) \<Rightarrow>
              if r \<noteq> 0 then Some (drop_pdu du d, -1)
              else
                let d = dtp_send_pending_ctrl_pdus d
                in if \<not> set_lft_win_edge then Some (drop_pdu du d, 0)
                   else case pdu_post E du d of
                     (d, r) \<Rightarrow> if r \<noteq> 0 then Some (d, -1) else Some (stats_rx du d, 0))"

text \<open>The queue of data units to post; the result of appending to it is not looked at.\<close>

definition post_later :: "dt_pdu \<Rightarrow> dtp \<Rightarrow> dtp option" where
  "post_later du d =
    (case ringq_push (Some (to_post d)) du of
       Some (Some q, _) \<Rightarrow> Some (d\<lparr>to_post := q\<rparr>)
     | _ \<Rightarrow> None)"

text \<open>The loop that takes PDUs from the sequencing queue while the next number is at its head.\<close>

function deliver_ready :: "u32 \<Rightarrow> dtp \<Rightarrow> dtp option" where
  "deliver_ready LWE d =
    (if \<not> are_there_pdus (seqq d) LWE then Some d
     else case seq_queue_pop (seqq d) of
       (q, None) \<Rightarrow> Some d
     | (q, Some du) \<Rightarrow>
        (case post_later du (d\<lparr>seqq := q, rcv_left_window_edge := p_sn du\<rparr>) of
           None \<Rightarrow> None
         | Some d' \<Rightarrow> deliver_ready (p_sn du) d'))"
  by pat_completeness auto

termination
  by (relation "measure (\<lambda>(LWE, d). length (seqq d))")
     (auto simp: seq_queue_pop_def post_later_def split: list.splits option.splits prod.splits)

declare deliver_ready.simps [simp del]

text \<open>Posting what was collected, with its statistics.\<close>

definition post_collected :: "dtp_env \<Rightarrow> dtp \<Rightarrow> dtp" where
  "post_collected E d =
    (case ringq_drain (to_post d) of
       (q, dus) \<Rightarrow> fold (\<lambda>du d. stats_rx du (fst (pdu_post E du d))) dus (d\<lparr>to_post := q\<rparr>))"

text \<open>
  In order delivery. The data unit itself is passed on to the DTCP state update, also when it was a
  duplicate that the sequencing queue has just destroyed; what the policies read from it then has no
  effect without rate based flow control (only debug messages show it), and that read is not recorded here.
\<close>

definition receive_ordered :: "dtp_env \<Rightarrow> dt_pdu \<Rightarrow> dtp \<Rightarrow> (dtp \<times> int) option" where
  "receive_ordered E du d =
    (let LWE = rcv_left_window_edge d
     in case (if p_sn du = LWE + 1
              then map_option (\<lambda>d. (p_sn du, d)) (post_later du (d\<lparr>rcv_left_window_edge := p_sn du\<rparr>))
              else Some (LWE, fst (seq_queue_push_ni E du d))) of
          None \<Rightarrow> None
        | Some (LWE, d) \<Rightarrow>
           (case deliver_ready LWE d of
              None \<Rightarrow> None
            | Some d \<Rightarrow>
               (case sv_update d of
                  None \<Rightarrow> None
                | Some (d, _) \<Rightarrow>
                   let d = dtp_send_pending_ctrl_pdus d;
                       d = d\<lparr>a_timer := if seqq d = [] then rtimer_stop (a_timer d)
                                         else rtimer_start E (a_timer d) (sv_A d)\<rparr>
                   in Some (post_collected E d, 0))))"

definition dtp_receive :: "dtp_env \<Rightarrow> dt_pdu \<Rightarrow> dtp \<Rightarrow> (dtp \<times> int) option" where
  "dtp_receive E du d =
    (let LWE = rcv_left_window_edge d
     in if drf_required d then receive_data_run E du d
        else case (if p_sn du \<le> LWE then (True, d) else is_fc_overrun (p_sn du) (length (p_data du)) d) of
          (True, d) \<Rightarrow> Some (drop_pdu du (stats_drop d), 0)
        | (False, d) \<Rightarrow>
           (let d = d\<lparr>receiver_inactivity :=
                        rtimer_restart E (receiver_inactivity d) (2 * (sv_MPL d + sv_R d + sv_A d))\<rparr>
            in case dtp_dtcp d of
                 None \<Rightarrow> None
               | Some t \<Rightarrow>
                  let d = (if rendezvous_rcvr t
                           then d\<lparr>dtp_dtcp := Some (t\<lparr>rendezvous_rcvr := False,
                                                       rendezvous_rcv := rtimer_stop (rendezvous_rcv t)\<rparr>)\<rparr>
                           else d)
                  in if sv_A d = 0 then receive_unordered E du LWE d else receive_ordered E du d))"

subsection \<open>Timers of the receiver (process_A_expiration, tf_a, receiver inactivity)\<close>

text \<open>
  The loop over the sequencing queue when the A timer expires, with the number of the last PDU
  taken, if any. A PDU that waited for longer than A is delivered, or dropped when it will be
  retransmitted; a PDU within the allowed gap is delivered; the loop stops at any other.
\<close>

function A_loop :: "dtp_env \<Rightarrow> dtcp option \<Rightarrow> u32 \<Rightarrow> dt_pdu option \<Rightarrow> dtp \<Rightarrow> (dtp \<times> dt_pdu option) option" where
  "A_loop E t LWE prev d =
    (case seqq d of
       [] \<Rightarrow> Some (d, prev)
     | (ts, du) # q \<Rightarrow>
        let expired = (\<not> jiffies E - (ts + ucast (msecs_to_jiffies E (sv_A d))) <s 0)
        in if expired \<or> p_sn du - LWE - 1 \<le> max_sdu_gap d then
             if expired \<and> t = None then None
             else if expired \<and> rtx_ctrl (dtcp_cfg (the t)) then
               A_loop E t LWE prev (drop_pdu du (d\<lparr>seqq := q\<rparr>))
             else (case post_later du (d\<lparr>seqq := q, rcv_left_window_edge := p_sn du\<rparr>) of
                     None \<Rightarrow> None
                   | Some d' \<Rightarrow> A_loop E t (p_sn du) (Some du) d')
           else Some (d, prev))"
  by pat_completeness auto

termination
  by (relation "measure (\<lambda>(E, t, LWE, l, d). length (seqq d))")
     (auto simp: drop_pdu_def post_later_def split: option.splits prod.splits)

declare A_loop.simps [simp del]

definition process_A_expiration :: "dtp_env \<Rightarrow> dtp \<Rightarrow> (dtp \<times> dt_pdu option) option" where
  "process_A_expiration E d =
    (case A_loop E (dtp_dtcp d) (rcv_left_window_edge d) None d of
       None \<Rightarrow> None
     | Some (d, pci) \<Rightarrow>
        (case ringq_drain (to_post d) of (q, dus) \<Rightarrow> Some (post_all E dus (d\<lparr>to_post := q\<rparr>), pci)))"

definition default_sending_ack :: "dtp_env \<Rightarrow> dtp \<Rightarrow> (dtp \<times> int) option" where
  "default_sending_ack E d =
    (case process_A_expiration E d of
       None \<Rightarrow> None
     | Some (d, None) \<Rightarrow> Some (d, 0)
     | Some (d, Some _) \<Rightarrow> sv_update d)"

definition tf_a :: "dtp_env \<Rightarrow> dtp \<Rightarrow> dtp option" where
  "tf_a E d0 =
    (let d = d0\<lparr>a_timer := None\<rparr>;
         restart = (\<lambda>d. d\<lparr>a_timer := rtimer_start E (a_timer d) (sv_A d0)\<rparr>);
         finish = (\<lambda>d. if \<not> seqq_is_empty d then restart d else d)
     in if dtp_dtcp d \<noteq> None then
          (case default_sending_ack E d of
             None \<Rightarrow> None
           | Some (d, r) \<Rightarrow>
              Some (finish (dtp_send_pending_ctrl_pdus (if r \<noteq> 0 then restart d else d))))
        else
          (case process_A_expiration E d of
             None \<Rightarrow> None
           | Some (d, _) \<Rightarrow>
              Some (finish (d\<lparr>sender_inactivity := rtimer_restart E (sender_inactivity d)
                                 (3 * (sv_MPL d0 + sv_R d0 + sv_A d0))\<rparr>))))"

definition default_receiver_inactivity_timer :: "dtp \<Rightarrow> dtp \<times> int" where
  "default_receiver_inactivity_timer d =
    (case dtp_dtcp d of
       None \<Rightarrow> (d, -1)
     | Some t \<Rightarrow>
        (dtp_squeue_flush (d\<lparr>dtp_dtcp := Some (t\<lparr>rcvr_rt_wind_edge := 0, rendezvous_rcvr := False\<rparr>),
           rcv_left_window_edge := 0\<rparr>) \<lparr>drf_required := True\<rparr>, 0))"

definition tf_receiver_inactivity :: "dtp \<Rightarrow> dtp" where
  "tf_receiver_inactivity d = fst (default_receiver_inactivity_timer (d\<lparr>receiver_inactivity := None\<rparr>))"

end
