(* ===== verification/Rina_Sender.thy ===== *)
theory Rina_Sender
  imports Rina_Dtp
    "HOL-Library.Signed_Division"
begin

section \<open>The sender of the RINA data transfer protocol (dtp.c, dtcp.c, dtp-utils.c and the default policies)\<close>

text \<open>
  Data units written to a connection are numbered by \<open>dtp_write\<close> and handed to the RMT, or wait in
  the closed window queue; with retransmission control a copy stays in the retransmission queue until it
  is acknowledged. Control PDUs from the peer (\<open>dtcp_common_rcv_control\<close>) acknowledge, move the window
  and update the round-trip time. The state adds to the one of the receiver, \<open>base\<close>, what only the
  sender uses; configuration values are fields that never change. What is handed to the RMT is
  recorded with a flag that tells retransmissions, and PDUs that are freed with the reason. Flows
  between different addresses are modelled: \<open>dtp_pdu_send\<close> hands the PDU to the RMT.
\<close>

subsection \<open>State\<close>

record rtxq_entry_dt =
  rt_stamp :: u64
  rt_du :: dt_pdu
  rt_retries :: u32

record rtxqueue_dt =
  rq_len :: int
  rq_drop_pdus :: int
  rq_entries :: "rtxq_entry_dt list"

record tx =
  base :: dtp
  sv_tr :: u32
  seq_nr_to_send :: u32
  max_seq_nr_sent :: u32
  drf_flag :: bool
  window_closed :: bool
  rate_fulfiled :: bool
  sv_window_based :: bool
  sv_rate_based :: bool
  rexmsn_ctrl :: bool
  err_pdus :: u32
  tx_pdus :: u32
  tx_bytes :: u32
  cwq :: "dt_pdu list option"
  rtxq :: "rtxqueue_dt option"
  sndr_credit :: u32
  rcvr_rate :: u32
  pdus_sent_in_time_unit :: u32
  last_time :: "int \<times> int"
  dup_acks :: u32
  dup_flow_ctl :: u32
  rtt :: u32
  srtt :: u32
  rttvar :: u32
  rendezvous_sndr :: bool
  rate_window :: "u64 option"
  rtx_timer :: "u64 option"
  rendezvous :: "u64 option"
  initial_credit :: u32
  max_closed_winq_length :: u32
  data_retransmit_max :: u32
  write_enabled :: bool
  to_rmt :: "(bool \<times> dt_pdu) list"
  acked :: "dt_pdu list"
  given_up :: "dt_pdu list"
  lost :: "dt_pdu list"

text \<open>
  The environment of a call: that of the receiver, the wall clock in seconds and nanoseconds, the
  conversion of jiffies, the answers of the RMT and of the layer above, a random number, and
  whether the header of a data PDU has a size.
\<close>

record tx_env =
  clock :: dtp_env
  now :: "int \<times> int"
  jiffies_to_msecs :: "u64 \<Rightarrow> u32"
  rmt_result :: "dt_pdu \<Rightarrow> int"
  rmt_ctrl_result :: "ctrl_pdu \<Rightarrow> int"
  switch_result :: int
  random_bytes :: u32
  encap_ok :: bool

definition the_dtcp :: "tx \<Rightarrow> dtcp" where
  "the_dtcp s = the (dtp_dtcp (base s))"

definition upd_base :: "(dtp \<Rightarrow> dtp) \<Rightarrow> tx \<Rightarrow> tx" where
  "upd_base f s = s\<lparr>base := f (base s)\<rparr>"

definition upd_dtcp :: "(dtcp \<Rightarrow> dtcp) \<Rightarrow> tx \<Rightarrow> tx" where
  "upd_dtcp f s = upd_base (\<lambda>d. d\<lparr>dtp_dtcp := map_option f (dtp_dtcp d)\<rparr>) s"

definition tx_alloc :: "tx \<Rightarrow> bool \<times> tx" where
  "tx_alloc s = (case dtp_alloc (base s) of (ok, d) \<Rightarrow> (ok, s\<lparr>base := d\<rparr>))"

text \<open>A copy of a data unit takes two allocations.\<close>

definition du_dup_ni :: "tx \<Rightarrow> bool \<times> tx" where
  "du_dup_ni s = (case tx_alloc s of (ok, s) \<Rightarrow> if ok then tx_alloc s else (False, s))"

definition dtp_pdu_send :: "tx_env \<Rightarrow> bool \<Rightarrow> dt_pdu \<Rightarrow> tx \<Rightarrow> tx \<times> int" where
  "dtp_pdu_send V again du s =
    (s\<lparr>to_rmt := to_rmt s @ [(again, du)]\<rparr>, if rmt_result V du \<noteq> 0 then -1 else 0)"

subsection \<open>The rate\<close>

definition dtcp_rate_exceeded :: "tx_env \<Rightarrow> bool \<Rightarrow> tx \<Rightarrow> bool \<times> tx" where
  "dtcp_rate_exceeded V send s =
    (let timedif_ms = word_of_int ((fst (now V) - fst (last_time s)) * 1000
                        + (snd (now V) - snd (last_time s)) sdiv 1000000);
         s = (if time_unit (the_dtcp s) \<le> timedif_ms
              then upd_dtcp (\<lambda>t. t\<lparr>pdus_rcvd_in_time_unit := 0\<rparr>)
                     (s\<lparr>pdus_sent_in_time_unit := 0, last_time := now V\<rparr>)
              else s)
     in (if send then sndr_rate (the_dtcp s) \<le> pdus_sent_in_time_unit s
         else rcvr_rate s \<le> pdus_rcvd_in_time_unit (the_dtcp s), s))"

definition msec_to_next_rate :: "tx_env \<Rightarrow> u32 \<Rightarrow> int \<times> int \<Rightarrow> u32" where
  "msec_to_next_rate V time_frame lst =
    word_of_int ((fst lst - fst (now V)) * 1000 + (snd lst - snd (now V)) sdiv 1000000) + time_frame"

definition dtp_start_rate_timer :: "tx_env \<Rightarrow> tx \<Rightarrow> tx" where
  "dtp_start_rate_timer V s =
    (if rate_window s \<noteq> None then s
     else s\<lparr>rate_window := rtimer_start (clock V) (rate_window s)
                              (msec_to_next_rate V (time_unit (the_dtcp s)) (last_time s))\<rparr>)"

text \<open>Counting the bytes of a PDU, up to the rate.\<close>

definition count_sent :: "nat \<Rightarrow> tx \<Rightarrow> tx" where
  "count_sent sz s =
    (if word_of_nat sz + pdus_sent_in_time_unit s \<ge> sndr_rate (the_dtcp s)
     then s\<lparr>pdus_sent_in_time_unit := sndr_rate (the_dtcp s)\<rparr>
     else s\<lparr>pdus_sent_in_time_unit := pdus_sent_in_time_unit s + word_of_nat sz\<rparr>)"

text \<open>Before a retransmission: whether the rate stops it.\<close>

definition rate_stops :: "tx_env \<Rightarrow> dt_pdu \<Rightarrow> tx \<Rightarrow> bool \<times> tx" where
  "rate_stops V du s =
    (if rate_based (dtcp_cfg (the_dtcp s))
     then case dtcp_rate_exceeded V True (count_sent (length (p_data du)) s) of
            (True, s) \<Rightarrow> (True, dtp_start_rate_timer V (s\<lparr>rate_fulfiled := True\<rparr>))
          | (False, s) \<Rightarrow> (False, s)
     else (False, s))"

subsection \<open>The retransmission queue (dtp-utils.c)\<close>

fun rtx_insert :: "rtxq_entry_dt \<Rightarrow> rtxq_entry_dt list \<Rightarrow> rtxq_entry_dt list option" where
  "rtx_insert e [] = None"
| "rtx_insert e (c # q) =
    (if p_sn (rt_du e) = p_sn (rt_du c) then None
     else if p_sn (rt_du e) > p_sn (rt_du c) then Some (c # e # q)
     else map_option ((#) c) (rtx_insert e q))"

definition rtxqueue_push_ni_dt :: "tx_env \<Rightarrow> dt_pdu \<Rightarrow> rtxqueue_dt \<Rightarrow> tx \<Rightarrow> rtxqueue_dt \<times> tx \<times> int" where
  "rtxqueue_push_ni_dt V du q s =
    (case tx_alloc s of (ok, s) \<Rightarrow>
       if \<not> ok then (q, s, -1)
       else
         let e = \<lparr>rt_stamp = jiffies (clock V), rt_du = du, rt_retries = 0\<rparr>;
             es = rq_entries q
         in if es = [] then (q\<lparr>rq_entries := [e], rq_len := rq_len q + 1\<rparr>, s, 0)
            else if p_sn du = p_sn (rt_du (last es)) then (q, s, -1)
            else if p_sn du > p_sn (rt_du (last es)) then (q\<lparr>rq_entries := es @ [e], rq_len := rq_len q + 1\<rparr>, s, 0)
            else case rtx_insert e es of
                None \<Rightarrow> (q, s, -1)
              | Some es' \<Rightarrow> (q\<lparr>rq_entries := es', rq_len := rq_len q + 1\<rparr>, s, 0))"

definition rtxq_push_ni_dt :: "tx_env \<Rightarrow> dt_pdu \<Rightarrow> tx \<Rightarrow> (tx \<times> int) option" where
  "rtxq_push_ni_dt V du s =
    (case rtxq s of
       None \<Rightarrow> None
     | Some q \<Rightarrow>
        (case rtxqueue_push_ni_dt V du q (s\<lparr>rtx_timer := rtimer_start (clock V) (rtx_timer s) (sv_tr s)\<rparr>) of
           (q, s, r) \<Rightarrow> Some (s\<lparr>rtxq := Some q\<rparr>, r)))"

definition rtxq_size_dt :: "tx \<Rightarrow> int" where
  "rtxq_size_dt s = (case rtxq s of None \<Rightarrow> -1 | Some q \<Rightarrow> rq_len q)"

text \<open>Acknowledged entries leave from the head; the loop ends at the first larger number.\<close>

fun entries_ack_dt :: "u32 \<Rightarrow> rtxq_entry_dt list \<Rightarrow> rtxq_entry_dt list \<times> dt_pdu list" where
  "entries_ack_dt n [] = ([], [])"
| "entries_ack_dt n (e # es) =
    (if p_sn (rt_du e) \<le> n then map_prod id ((#) (rt_du e)) (entries_ack_dt n es) else (e # es, []))"

definition rtxqueue_entries_ack_dt :: "u32 \<Rightarrow> rtxqueue_dt \<Rightarrow> rtxqueue_dt \<times> dt_pdu list" where
  "rtxqueue_entries_ack_dt n q =
    (case entries_ack_dt n (rq_entries q) of
       (es, gone) \<Rightarrow> (q\<lparr>rq_entries := es, rq_len := rq_len q - int (length gone)\<rparr>, gone))"

definition rtxq_ack_dt :: "tx_env \<Rightarrow> u32 \<Rightarrow> u32 \<Rightarrow> tx \<Rightarrow> tx \<times> int" where
  "rtxq_ack_dt V n tr s =
    (case rtxq s of
       None \<Rightarrow> (s, -1)
     | Some q \<Rightarrow>
        (case rtxqueue_entries_ack_dt n q of
           (q, gone) \<Rightarrow>
             (s\<lparr>rtxq := Some q, acked := acked s @ gone,
                rtx_timer := rtimer_restart (clock V) (rtx_timer s) tr\<rparr>, 0)))"

definition rtxq_flush_dt :: "tx \<Rightarrow> tx \<times> int" where
  "rtxq_flush_dt s =
    (case rtxq s of
       None \<Rightarrow> (s, -1)
     | Some q \<Rightarrow>
        (s\<lparr>rtx_timer := rtimer_stop (rtx_timer s),
           rtxq := Some (q\<lparr>rq_entries := [], rq_len := rq_len q - int (length (rq_entries q))\<rparr>),
           lost := lost s @ map rt_du (rq_entries q)\<rparr>, 0))"

text \<open>
  The time stamp of an entry, for the round-trip time: 0 when it was retransmitted, all bits set
  when it is not in the queue.
\<close>

fun rtxqueue_entry_timestamp :: "u32 \<Rightarrow> rtxq_entry_dt list \<Rightarrow> u64" where
  "rtxqueue_entry_timestamp sn [] = -1"
| "rtxqueue_entry_timestamp sn (e # es) =
    (if p_sn (rt_du e) > sn then -1
     else if p_sn (rt_du e) = sn then if rt_retries e \<noteq> 0 then 0 else rt_stamp e
     else rtxqueue_entry_timestamp sn es)"

definition rtxq_entry_timestamp :: "u32 \<Rightarrow> tx \<Rightarrow> u64" where
  "rtxq_entry_timestamp sn s = (case rtxq s of None \<Rightarrow> 0 | Some q \<Rightarrow> rtxqueue_entry_timestamp sn (rq_entries q))"

definition MAX_RTX_WAIT_TIME :: "tx_env \<Rightarrow> u64" where
  "MAX_RTX_WAIT_TIME V = ucast (msecs_to_jiffies (clock V) 60000)"

definition time_to_rtx :: "tx_env \<Rightarrow> rtxq_entry_dt \<Rightarrow> u32 \<Rightarrow> u64" where
  "time_to_rtx V e tr =
    (let rtx_wtime = ucast ((1 + rt_retries e * rt_retries e) * tr)
     in rt_stamp e + (if rtx_wtime > MAX_RTX_WAIT_TIME V then MAX_RTX_WAIT_TIME V else rtx_wtime))"

text \<open>
  Sending an entry again: the copy is not checked, so without memory a null pointer is used
  (\<open>None\<close>). The result of sending is not looked at.
\<close>

definition send_again :: "tx_env \<Rightarrow> dt_pdu \<Rightarrow> tx \<Rightarrow> tx option" where
  "send_again V du s =
    (case du_dup_ni s of (ok, s) \<Rightarrow> if ok then Some (fst (dtp_pdu_send V True du s)) else None)"

text \<open>
  The loop of the retransmission timer: the entries that stay, and the PDUs that were given up. It
  ends at the first entry whose time has not come.
\<close>

fun rtx_loop :: "tx_env \<Rightarrow> u32 \<Rightarrow> u32 \<Rightarrow> rtxq_entry_dt list \<Rightarrow> tx
    \<Rightarrow> (rtxq_entry_dt list \<times> tx \<times> dt_pdu list) option" where
  "rtx_loop V tr mx [] s = Some ([], s, [])"
| "rtx_loop V tr mx (e # es) s =
    (if jiffies (clock V) - time_to_rtx V e tr <s 0 then Some (e # es, s, [])
     else
       let e = e\<lparr>rt_retries := rt_retries e + 1\<rparr>
       in if rt_retries e \<ge> mx then
            map_option (\<lambda>(es, s, gone). (es, s, rt_du e # gone)) (rtx_loop V tr mx es s)
          else case rate_stops V (rt_du e) s of
            (True, s) \<Rightarrow> Some (e # es, s, [])
          | (False, s) \<Rightarrow>
             (case send_again V (rt_du e) s of None \<Rightarrow> None
              | Some s \<Rightarrow> map_option (\<lambda>(es, s, gone). (e # es, s, gone)) (rtx_loop V tr mx es s)))"

definition cwq_size :: "tx \<Rightarrow> int" where
  "cwq_size s = (case cwq s of None \<Rightarrow> -1 | Some q \<Rightarrow> int (length q))"

definition start_rendezvous :: "tx_env \<Rightarrow> tx \<Rightarrow> tx" where
  "start_rendezvous V s =
    s\<lparr>rendezvous_sndr := True,
      rendezvous := rtimer_start (clock V) (rendezvous s) (jiffies_to_msecs V (ucast (sv_tr s)))\<rparr>"

definition rtxqueue_rtx :: "tx_env \<Rightarrow> u32 \<Rightarrow> u32 \<Rightarrow> tx \<Rightarrow> tx option" where
  "rtxqueue_rtx V tr mx s =
    (case rtxq s of
       None \<Rightarrow> None
     | Some q \<Rightarrow>
        (case rtx_loop V tr mx (rq_entries q) s of
           None \<Rightarrow> None
         | Some (es, s, gone) \<Rightarrow>
            let n = int (length gone);
                s = s\<lparr>rtxq := Some (q\<lparr>rq_entries := es, rq_len := rq_len q - n, rq_drop_pdus := rq_drop_pdus q + n\<rparr>),
                      given_up := given_up s @ gone\<rparr>
            in Some (if gone = [] then s
                     else
                       let dropped_sn = fold (\<lambda>du m. if p_sn du > m then p_sn du else m) gone 0;
                           s = (if snd_lft_win (the_dtcp s) < dropped_sn
                                then upd_dtcp (\<lambda>t. t\<lparr>snd_lft_win := dropped_sn\<rparr>) s else s)
                       in if rq_len q - n = 0 \<and> cwq_size s = uint (max_closed_winq_length s) \<and> \<not> rendezvous_sndr s
                          then start_rendezvous V s else s)))"

definition rtx_timer_func :: "tx_env \<Rightarrow> tx \<Rightarrow> tx option" where
  "rtx_timer_func V s0 =
    (case rtxqueue_rtx V (sv_tr s0) (data_retransmit_max s0) (s0\<lparr>rtx_timer := None\<rparr>) of
       None \<Rightarrow> None
     | Some s \<Rightarrow>
        Some (if rq_entries (the (rtxq s)) \<noteq> []
              then s\<lparr>rtx_timer := rtimer_restart (clock V) (rtx_timer s) (sv_tr s0)\<rparr> else s))"

text \<open>The loop of a negative acknowledgement, from the tail of the queue.\<close>

fun nack_loop :: "tx_env \<Rightarrow> u32 \<Rightarrow> u32 \<Rightarrow> rtxq_entry_dt list \<Rightarrow> tx
    \<Rightarrow> (rtxq_entry_dt list \<times> tx \<times> dt_pdu list) option" where
  "nack_loop V n mx [] s = Some ([], s, [])"
| "nack_loop V n mx (e # es) s =
    (if p_sn (rt_du e) < n then Some (e # es, s, [])
     else
       let e = e\<lparr>rt_retries := rt_retries e + 1\<rparr>
       in if rt_retries e \<ge> mx then
            map_option (\<lambda>(es, s, gone). (es, s, rt_du e # gone)) (nack_loop V n mx es s)
          else case rate_stops V (rt_du e) s of
            (True, s) \<Rightarrow> Some (e # es, s, [])
          | (False, s) \<Rightarrow>
             (case send_again V (rt_du e) s of None \<Rightarrow> None
              | Some s \<Rightarrow> map_option (\<lambda>(es, s, gone). (e # es, s, gone)) (nack_loop V n mx es s)))"

definition rtxq_nack :: "tx_env \<Rightarrow> u32 \<Rightarrow> u32 \<Rightarrow> tx \<Rightarrow> (tx \<times> int) option" where
  "rtxq_nack V n tr s =
    (case rtxq s of
       None \<Rightarrow> Some (s, -1)
     | Some q \<Rightarrow>
        (case nack_loop V n (data_retransmit_max s) (rev (rq_entries q)) s of
           None \<Rightarrow> None
         | Some (es, s, gone) \<Rightarrow>
            Some (s\<lparr>rtxq := Some (q\<lparr>rq_entries := rev es, rq_len := rq_len q - int (length gone),
                                     rq_drop_pdus := rq_drop_pdus q + int (length gone)\<rparr>),
                    given_up := given_up s @ gone,
                    rtx_timer := rtimer_restart (clock V) (rtx_timer s) tr\<rparr>, 0)))"

subsection \<open>The queue for round-trip times without retransmission control\<close>

fun rtt_insert :: "u64 \<times> u32 \<Rightarrow> (u64 \<times> u32) list \<Rightarrow> (u64 \<times> u32) list" where
  "rtt_insert e [] = []"
| "rtt_insert e (c # q) =
    (if snd e = snd c then c # q else if snd e > snd c then c # e # q else c # rtt_insert e q)"

definition rttq_push :: "tx_env \<Rightarrow> u32 \<Rightarrow> (u64 \<times> u32) list \<Rightarrow> tx \<Rightarrow> tx \<times> int" where
  "rttq_push V sn q s =
    (case tx_alloc s of (ok, s) \<Rightarrow>
       if \<not> ok then (s, -1)
       else
         let e = (jiffies (clock V), sn);
             q' = (if q = [] then [e] else if sn = snd (last q) then q else if sn > snd (last q) then q @ [e]
                   else rtt_insert e q)
         in (upd_base (\<lambda>d. d\<lparr>rttq := Some q'\<rparr>) s, 0))"

fun rttqueue_entry_timestamp :: "u32 \<Rightarrow> (u64 \<times> u32) list \<Rightarrow> u64" where
  "rttqueue_entry_timestamp sn [] = 0"
| "rttqueue_entry_timestamp sn ((ts, csn) # q) =
    (if csn > sn then 0 else if csn = sn then ts else rttqueue_entry_timestamp sn q)"

definition rttq_drop :: "u32 \<Rightarrow> (u64 \<times> u32) list \<Rightarrow> (u64 \<times> u32) list" where
  "rttq_drop sn q = dropWhile (\<lambda>e. snd e \<le> sn) q"

subsection \<open>The closed window queue\<close>

definition cwq_push :: "dt_pdu \<Rightarrow> tx \<Rightarrow> (tx \<times> int) option" where
  "cwq_push du s =
    (case cwq s of
       None \<Rightarrow> None
     | Some q \<Rightarrow>
        (case tx_alloc s of (ok, s) \<Rightarrow>
           if ok then Some (s\<lparr>cwq := Some (q @ [du])\<rparr>, 0) else Some (s\<lparr>lost := lost s @ [du]\<rparr>, -1)))"

definition can_deliver :: "tx_env \<Rightarrow> tx \<Rightarrow> bool \<times> tx" where
  "can_deliver V s =
    (let is_wb = window_based (dtcp_cfg (the_dtcp s));
         is_rb = rate_based (dtcp_cfg (the_dtcp s));
         w_ret = (is_wb \<and> max_seq_nr_sent s < snd_rt_wind_edge (the_dtcp s))
     in case (if is_rb then dtcp_rate_exceeded V False s else (True, s)) of
          (exceeded, s) \<Rightarrow>
            let r_ret = (is_rb \<and> \<not> exceeded)
            in (if is_wb \<and> is_rb \<and> w_ret \<noteq> r_ret then True else w_ret \<or> r_ret, s))"

text \<open>
  A copy for the retransmission queue, or the number for the round-trip time. The second component
  is false when the caller has to give up; the result of the push is not looked at.
\<close>

definition keep_copy :: "tx_env \<Rightarrow> dt_pdu \<Rightarrow> tx \<Rightarrow> tx \<times> bool" where
  "keep_copy V du s =
    (if rtx_ctrl (dtcp_ps (the_dtcp s)) then
       if rtxq s = None then (s, False)
       else case du_dup_ni s of (ok, s) \<Rightarrow>
         if \<not> ok then (s, False)
         else (case rtxq_push_ni_dt V du s of None \<Rightarrow> (s, False) | Some (s, _) \<Rightarrow> (s, True))
     else case rttq (base s) of None \<Rightarrow> (s, True) | Some q \<Rightarrow> (fst (rttq_push V (p_sn du) q s), True))"

text \<open>
  The loop over the queue: what stays, and whether the function returns from inside the loop. A
  PDU whose bytes reach the rate ends the loop and is not sent.
\<close>

fun deliver_loop :: "tx_env \<Rightarrow> dt_pdu list \<Rightarrow> tx \<Rightarrow> dt_pdu list \<times> tx \<times> bool" where
  "deliver_loop V [] s = ([], s, False)"
| "deliver_loop V (du # q) s =
    (case can_deliver V s of
       (False, s) \<Rightarrow> (du # q, s, False)
     | (True, s) \<Rightarrow>
        (case keep_copy V du s of
           (s, False) \<Rightarrow> (q, s\<lparr>lost := lost s @ [du]\<rparr>, True)
         | (s, True) \<Rightarrow>
            let rate_ctrl = (flow_ctrl (dtcp_ps (the_dtcp s)) \<and> rate_based (dtcp_cfg (the_dtcp s)));
                full = (word_of_nat (length (p_data du)) + pdus_sent_in_time_unit s \<ge> sndr_rate (the_dtcp s));
                s = (if rate_ctrl then count_sent (length (p_data du)) s else s)
            in if rate_ctrl \<and> full then (q, s\<lparr>lost := lost s @ [du]\<rparr>, False)
               else
                 let s = upd_dtcp (\<lambda>t. t\<lparr>snd_lft_win := p_sn du\<rparr>) (s\<lparr>max_seq_nr_sent := p_sn du\<rparr>)
                 in deliver_loop V q (fst (dtp_pdu_send V False du s))))"

definition cwq_deliver :: "tx_env \<Rightarrow> dt_pdu list \<Rightarrow> tx \<Rightarrow> tx" where
  "cwq_deliver V q s =
    (case deliver_loop V q s of
       (q, s, returned) \<Rightarrow>
         let s = s\<lparr>cwq := Some q\<rparr>;
             wb = window_based (dtcp_cfg (the_dtcp s));
             rb = rate_based (dtcp_cfg (the_dtcp s))
         in if returned then s
            else if q \<noteq> [] then
              let s = (if wb then s\<lparr>window_closed := True\<rparr> else s)
              in if rb then dtp_start_rate_timer V (s\<lparr>rate_fulfiled := True\<rparr>) else s
            else
              let s = (if wb then s\<lparr>window_closed := False\<rparr> else s);
                  s = (if rb then s\<lparr>rate_fulfiled := True\<rparr> else s)
              in if 0 < max_closed_winq_length s then s\<lparr>write_enabled := True\<rparr> else s)"

subsection \<open>Writing (dtp_write)\<close>

definition stats_err :: "tx \<Rightarrow> tx" where
  "stats_err s = s\<lparr>err_pdus := err_pdus s + 1\<rparr>"

definition stats_tx :: "nat \<Rightarrow> tx \<Rightarrow> tx" where
  "stats_tx sz s = s\<lparr>tx_pdus := tx_pdus s + 1, tx_bytes := tx_bytes s + word_of_nat sz\<rparr>"

definition default_transmission_control :: "tx_env \<Rightarrow> dt_pdu \<Rightarrow> tx \<Rightarrow> tx \<times> int" where
  "default_transmission_control V du s =
    dtp_pdu_send V False du (upd_dtcp (\<lambda>t. t\<lparr>snd_lft_win := p_sn du\<rparr>) (s\<lparr>max_seq_nr_sent := p_sn du\<rparr>))"

definition default_snd_flow_control_overrun :: "tx_env \<Rightarrow> dt_pdu \<Rightarrow> tx \<Rightarrow> (tx \<times> int) option" where
  "default_snd_flow_control_overrun V du s =
    (case cwq_push du s of
       None \<Rightarrow> None
     | Some (s, r) \<Rightarrow>
        if r \<noteq> 0 then Some (s, -1)
        else if switch_result V \<noteq> 0 then Some (s, -1)
        else Some (s\<lparr>write_enabled := False\<rparr>, 0))"

definition default_closed_window :: "tx_env \<Rightarrow> dt_pdu \<Rightarrow> tx \<Rightarrow> (tx \<times> int) option" where
  "default_closed_window V du s =
    (if max_closed_winq_length s \<noteq> 0 \<and> cwq_size s < uint (max_closed_winq_length s - 1)
     then map_option (\<lambda>(s, r). (s, if r \<noteq> 0 then -1 else 0)) (cwq_push du s)
     else map_option (\<lambda>(s, r). (s, if r \<noteq> 0 then -1 else 0)) (default_snd_flow_control_overrun V du s))"

definition window_is_closed :: "tx_env \<Rightarrow> u32 \<Rightarrow> tx \<Rightarrow> bool \<times> tx" where
  "window_is_closed V seq_num s =
    (let w_ret = (sv_window_based s \<and> seq_num > snd_rt_wind_edge (the_dtcp s));
         s = (if w_ret then s\<lparr>window_closed := True\<rparr> else s)
     in case (if sv_rate_based s then dtcp_rate_exceeded V True s else (False, s)) of
          (r_ret, s) \<Rightarrow>
            let s = (if sv_rate_based s then s\<lparr>rate_fulfiled := r_ret\<rparr> else s)
            in (w_ret \<or> r_ret, if r_ret then dtp_start_rate_timer V s else s))"

text \<open>The window is closed: the PDU waits, and a rendezvous begins when nothing else will open it.\<close>

definition dtp_write_closed :: "tx_env \<Rightarrow> dt_pdu \<Rightarrow> tx \<Rightarrow> (tx \<times> int) option" where
  "dtp_write_closed V du s =
    (case default_closed_window V du s of
       None \<Rightarrow> None
     | Some (s, r) \<Rightarrow>
        if r \<noteq> 0 then Some (stats_err s, -1)
        else if rexmsn_ctrl s \<and> rtxq_size_dt s > 0 then Some (s, 0)
        else if \<not> rendezvous_sndr s then Some (start_rendezvous V s, 0)
        else Some (s, 0))"

text \<open>The window is open: a copy is kept and the PDU is sent.\<close>

definition dtp_write_open :: "tx_env \<Rightarrow> dt_pdu \<Rightarrow> tx \<Rightarrow> (tx \<times> int) option" where
  "dtp_write_open V du s =
    (case (if rexmsn_ctrl s then
             case du_dup_ni s of (ok, s) \<Rightarrow> if ok then rtxq_push_ni_dt V du s else Some (s, -1)
           else case rttq (base s) of None \<Rightarrow> Some (s, 0) | Some q \<Rightarrow> Some (fst (rttq_push V (p_sn du) q s), 0)) of
       None \<Rightarrow> None
     | Some (s, r) \<Rightarrow>
        if r \<noteq> 0 then Some (stats_err (s\<lparr>lost := lost s @ [du]\<rparr>), -1)
        else case default_transmission_control V du s of
          (s, r) \<Rightarrow>
            if r \<noteq> 0 then Some (stats_err s, -1)
            else Some (upd_base (\<lambda>d. d\<lparr>sender_inactivity := rtimer_restart (clock V) (sender_inactivity d)
                                           (3 * (sv_MPL d + sv_R d + sv_A d))\<rparr>)
                         (stats_tx (length (p_data du)) s), 0))"

text \<open>The number is taken before anything else can fail; DTCP is used without a check.\<close>

definition dtp_write :: "tx_env \<Rightarrow> bytes \<Rightarrow> tx \<Rightarrow> (tx \<times> int) option" where
  "dtp_write V data s =
    (let s = upd_base (\<lambda>d. d\<lparr>sender_inactivity := rtimer_stop (sender_inactivity d)\<rparr>) s
     in if \<not> encap_ok V then Some (s, -1)
        else
          let csn = seq_nr_to_send s + 1;
              s = s\<lparr>seq_nr_to_send := csn\<rparr>
          in case dtp_dtcp (base s) of
               None \<Rightarrow> None
             | Some t \<Rightarrow>
                let du = \<lparr>p_sn = csn, p_drf = (drf_flag s \<or> (snd_lft_win t = csn - 1 \<and> rexmsn_ctrl s)),
                          p_data = data\<rparr>
                in if sv_window_based s \<or> sv_rate_based s then
                     case window_is_closed V csn s of
                       (True, s) \<Rightarrow> dtp_write_closed V du s
                     | (False, s) \<Rightarrow>
                        dtp_write_open V du (if sv_rate_based s then count_sent (length data) s else s)
                   else dtp_write_open V du s)"

subsection \<open>Control PDUs (dtcp.c)\<close>

text \<open>
  Reading the fields of a control PDU (pci.c): a received PDU has all fields of its type, and for a
  type without the field the getter returns the value given here.
\<close>

definition pci_control_ack_seq_num :: "ctrl_pdu \<Rightarrow> u32" where
  "pci_control_ack_seq_num c =
    (if c_type c \<in> {PDU_TYPE_ACK, PDU_TYPE_ACK_AND_FC} then the (c_ack c) else -1)"

definition pci_control_new_rt_wind_edge :: "ctrl_pdu \<Rightarrow> u32" where
  "pci_control_new_rt_wind_edge c =
    (if c_type c \<in> {PDU_TYPE_FC, PDU_TYPE_RENDEZVOUS, PDU_TYPE_CACK, PDU_TYPE_ACK_AND_FC}
     then the (c_new_rwe c) else -1)"

definition pci_control_my_left_wind_edge :: "ctrl_pdu \<Rightarrow> u32" where
  "pci_control_my_left_wind_edge c =
    (if c_type c \<in> {PDU_TYPE_FC, PDU_TYPE_RENDEZVOUS, PDU_TYPE_CACK, PDU_TYPE_ACK_AND_FC}
     then the (c_my_lwe c) else -1)"

definition pci_control_sndr_rate :: "ctrl_pdu \<Rightarrow> u32" where
  "pci_control_sndr_rate c =
    (if c_type c \<in> {PDU_TYPE_FC, PDU_TYPE_RENDEZVOUS, PDU_TYPE_CACK, PDU_TYPE_ACK_AND_FC}
     then the (c_rate c) else 0)"

definition pci_control_time_frame :: "ctrl_pdu \<Rightarrow> u32" where
  "pci_control_time_frame c =
    (if c_type c \<in> {PDU_TYPE_FC, PDU_TYPE_CACK, PDU_TYPE_ACK_AND_FC} then the (c_time c) else 0)"

text \<open>The round-trip time. The smoothed value is set by the first sample only.\<close>

definition rtt_calculation :: "tx_env \<Rightarrow> u32 \<Rightarrow> tx \<Rightarrow> tx" where
  "rtt_calculation V start_time s =
    (let new_sample = jiffies_to_msecs V (jiffies (clock V) - ucast start_time);
         (rtt', rttvar', srtt') =
           (if rtt s = 0 then (new_sample, drop_bit 1 new_sample, new_sample)
            else
              let dif = srtt s - new_sample;
                  ab = (if dif <s 0 then - dif else dif)
              in (drop_bit 7 (rtt s * 112 + push_bit 4 new_sample),
                  drop_bit 2 (3 * rttvar s) + drop_bit 2 ab, srtt s));
         trmsecs = push_bit 2 rttvar';
         trmsecs = (if 100 > trmsecs then 100 else trmsecs);
         trmsecs = trmsecs + srtt' + jiffies_to_msecs V (ucast (sv_A (base s)))
     in s\<lparr>rtt := rtt', rttvar := rttvar', srtt := srtt', sv_tr := msecs_to_jiffies (clock V) trmsecs\<rparr>)"

definition default_rtt_estimator :: "tx_env \<Rightarrow> u32 \<Rightarrow> tx \<Rightarrow> tx \<times> int" where
  "default_rtt_estimator V sn s =
    (let start_time = ucast (rtxq_entry_timestamp sn s)
     in if start_time = 0 then (s, 0)
        else if start_time = -1 then (s, -1)
        else (rtt_calculation V start_time s, 0))"

definition default_rtt_estimator_nortx :: "tx_env \<Rightarrow> u32 \<Rightarrow> tx \<Rightarrow> tx \<times> int" where
  "default_rtt_estimator_nortx V sn s =
    (let start_time = ucast (case rttq (base s) of None \<Rightarrow> 0 | Some q \<Rightarrow> rttqueue_entry_timestamp sn q)
     in if start_time = 0 then (s, 0) else (rtt_calculation V start_time s, 0))"

definition default_sender_ack :: "tx_env \<Rightarrow> u32 \<Rightarrow> tx \<Rightarrow> tx \<times> int" where
  "default_sender_ack V seq_num s =
    (if rtx_ctrl (dtcp_ps (the_dtcp s)) then
       if rtxq s = None then (s, -1)
       else (upd_dtcp (\<lambda>t. t\<lparr>snd_lft_win := seq_num + 1\<rparr>) (fst (rtxq_ack_dt V seq_num (sv_tr s) s)), 0)
     else (s, 0))"

definition rcv_nack_ctl :: "tx_env \<Rightarrow> ctrl_pdu \<Rightarrow> tx \<Rightarrow> (tx \<times> int) option" where
  "rcv_nack_ctl V c s =
    (if rtx_ctrl (dtcp_ps (the_dtcp s)) then
       if rtxq s = None then Some (s, -1)
       else (case rtxq_nack V (pci_control_ack_seq_num c) (sv_tr s) s of
               None \<Rightarrow> None
             | Some (s, _) \<Rightarrow> Some (fst (default_rtt_estimator V (pci_control_ack_seq_num c) s), 0))
     else Some (s, 0))"

definition rcv_ack :: "tx_env \<Rightarrow> ctrl_pdu \<Rightarrow> tx \<Rightarrow> tx \<times> int" where
  "rcv_ack V c s =
    (case (if rtx_ctrl (dtcp_ps (the_dtcp s)) then default_rtt_estimator V (pci_control_ack_seq_num c) s else (s, 0)) of
       (s, r) \<Rightarrow> if r = -1 then (s, 0) else default_sender_ack V (pci_control_ack_seq_num c) s)"

definition push_pdus_rmt :: "tx_env \<Rightarrow> tx \<Rightarrow> tx \<times> int" where
  "push_pdus_rmt V s = (case cwq s of None \<Rightarrow> (s, -1) | Some q \<Rightarrow> (cwq_deliver V q s, 0))"

definition update_window_and_rate :: "tx_env \<Rightarrow> ctrl_pdu \<Rightarrow> tx \<Rightarrow> tx" where
  "update_window_and_rate V c s =
    (let s = (if window_based (dtcp_cfg (the_dtcp s))
              then upd_dtcp (\<lambda>t. t\<lparr>snd_rt_wind_edge := pci_control_new_rt_wind_edge c\<rparr>) s else s);
         rt = pci_control_sndr_rate c;
         tf = pci_control_time_frame c;
         s = (if rate_based (dtcp_cfg (the_dtcp s)) \<and> tf \<noteq> 0 \<and> rt \<noteq> 0
              then upd_dtcp (\<lambda>t. t\<lparr>sndr_rate := rt, time_unit := tf\<rparr>) s else s);
         s = (if rendezvous_sndr s then s\<lparr>rendezvous_sndr := False, rendezvous := rtimer_stop (rendezvous s)\<rparr> else s)
     in fst (push_pdus_rmt V s))"

definition rcv_flow_ctl :: "tx_env \<Rightarrow> ctrl_pdu \<Rightarrow> tx \<Rightarrow> tx \<times> int" where
  "rcv_flow_ctl V c s =
    (let sn = pci_control_new_rt_wind_edge c - sndr_credit s;
         s = (if \<not> rtx_ctrl (dtcp_ps (the_dtcp s)) then fst (default_rtt_estimator_nortx V sn s) else s);
         s = upd_base (\<lambda>d. d\<lparr>rttq := map_option (rttq_drop sn) (rttq d)\<rparr>) s
     in (update_window_and_rate V c s, 0))"

definition rcv_ack_and_flow_ctl :: "tx_env \<Rightarrow> ctrl_pdu \<Rightarrow> tx \<Rightarrow> tx \<times> int" where
  "rcv_ack_and_flow_ctl V c s =
    (case (if rtx_ctrl (dtcp_ps (the_dtcp s)) then default_rtt_estimator V (pci_control_ack_seq_num c) s else (s, 0)) of
       (s, r) \<Rightarrow> if r = -1 then (s, 0)
                 else (update_window_and_rate V c (fst (default_sender_ack V (pci_control_ack_seq_num c) s)), 0))"

text \<open>A control PDU sent at once, by a function that has counted it.\<close>

definition send_ctrl_now :: "tx_env \<Rightarrow> pdu_type \<Rightarrow> tx \<Rightarrow> tx \<times> int" where
  "send_ctrl_now V ty s =
    (case ctrl_pdu_send ty (Some (rmt_ctrl_result V)) ((the_dtcp s)\<lparr>cpdus_in_transit := cpdus_in_transit (the_dtcp s) + 1\<rparr>)
            (base s) of
       None \<Rightarrow> (s, -1)
     | Some (t, d, r) \<Rightarrow> (s\<lparr>base := d\<lparr>dtp_dtcp := Some t\<rparr>\<rparr>, r))"

definition default_rcvr_rendezvous :: "tx_env \<Rightarrow> ctrl_pdu \<Rightarrow> tx \<Rightarrow> tx \<times> int" where
  "default_rcvr_rendezvous V c s =
    (let s = (if sv_window_based s
              then upd_dtcp (\<lambda>t. t\<lparr>rcvr_rt_wind_edge := pci_control_my_left_wind_edge c + rcvr_credit t\<rparr>) s else s);
         s = upd_dtcp (\<lambda>t. t\<lparr>rendezvous_rcvr := True\<rparr>) s;
         s = (if rcvr_credit (the_dtcp s) \<noteq> 0
              then upd_dtcp (\<lambda>t. t\<lparr>rendezvous_rcv := rtimer_start (clock V) (rendezvous_rcv t)
                                     (jiffies_to_msecs V (ucast (sv_tr s)))\<rparr>) s else s)
     in send_ctrl_now V PDU_TYPE_FC s)"

definition dtcp_rendezvous_pdu_send :: "tx_env \<Rightarrow> tx \<Rightarrow> tx \<times> int" where
  "dtcp_rendezvous_pdu_send V s = send_ctrl_now V PDU_TYPE_RENDEZVOUS s"

definition count_duplicate :: "ctrl_pdu \<Rightarrow> tx \<Rightarrow> tx" where
  "count_duplicate c s =
    (case c_type c of
       PDU_TYPE_FC \<Rightarrow> s\<lparr>dup_flow_ctl := dup_flow_ctl s + 1\<rparr>
     | PDU_TYPE_ACK \<Rightarrow> s\<lparr>dup_acks := dup_acks s + 1\<rparr>
     | PDU_TYPE_ACK_AND_FC \<Rightarrow> s\<lparr>dup_flow_ctl := dup_flow_ctl s + 1, dup_acks := dup_acks s + 1\<rparr>
     | _ \<Rightarrow> s)"

definition dtcp_common_rcv_control :: "tx_env \<Rightarrow> ctrl_pdu \<Rightarrow> tx \<Rightarrow> (tx \<times> int) option" where
  "dtcp_common_rcv_control V c s =
    (if dtp_dtcp (base s) = None then None
     else
       let s = upd_dtcp (\<lambda>t. t\<lparr>cpdus_in_transit := cpdus_in_transit t + 1\<rparr>) s
       in if c_sn c \<le> last_rcv_ctl_seq (the_dtcp s) then Some (count_duplicate c s, 0)
          else
            let s = upd_dtcp (\<lambda>t. t\<lparr>last_rcv_ctl_seq := c_sn c\<rparr>) s
            in case (case c_type c of
                       PDU_TYPE_ACK \<Rightarrow> Some (rcv_ack V c s)
                     | PDU_TYPE_NACK \<Rightarrow> rcv_nack_ctl V c s
                     | PDU_TYPE_FC \<Rightarrow> Some (rcv_flow_ctl V c s)
                     | PDU_TYPE_ACK_AND_FC \<Rightarrow> Some (rcv_ack_and_flow_ctl V c s)
                     | PDU_TYPE_RENDEZVOUS \<Rightarrow> Some (default_rcvr_rendezvous V c s)
                     | _ \<Rightarrow> Some (s, -1)) of
                 None \<Rightarrow> None
               | Some (s, r) \<Rightarrow>
                  Some (upd_base dtp_send_pending_ctrl_pdus
                          (upd_dtcp (\<lambda>t. t\<lparr>cpdus_in_transit := cpdus_in_transit t - 1\<rparr>) s), r))"

subsection \<open>Timers of the sender\<close>

definition tf_rendezvous :: "tx_env \<Rightarrow> tx \<Rightarrow> tx option" where
  "tf_rendezvous V s0 =
    (let s = s0\<lparr>rendezvous := None\<rparr>
     in if dtp_dtcp (base s) = None then None
        else if rendezvous_sndr s
        then let s' = fst (dtcp_rendezvous_pdu_send V s)
             in Some (s'\<lparr>rendezvous := rtimer_start (clock V) (rendezvous s') (jiffies_to_msecs V (ucast (sv_tr s)))\<rparr>)
        else Some s)"

definition tf_rendezvous_rcv :: "tx_env \<Rightarrow> tx \<Rightarrow> tx" where
  "tf_rendezvous_rcv V s0 =
    (let s = upd_dtcp (\<lambda>t. t\<lparr>rendezvous_rcv := None\<rparr>) s0
     in if rendezvous_rcvr (the_dtcp s)
        then upd_dtcp (\<lambda>t. t\<lparr>rendezvous_rcv := rtimer_start (clock V) (rendezvous_rcv t)
                               (jiffies_to_msecs V (ucast (sv_tr s)))\<rparr>)
               (fst (send_ctrl_now V PDU_TYPE_FC s))
        else s)"

definition tf_rate_window :: "tx_env \<Rightarrow> tx \<Rightarrow> tx option" where
  "tf_rate_window V s0 =
    (let s = s0\<lparr>rate_window := None\<rparr>
     in if dtp_dtcp (base s) = None then None
        else
          let s = upd_dtcp (\<lambda>t. t\<lparr>pdus_rcvd_in_time_unit := 0\<rparr>)
                    (s\<lparr>pdus_sent_in_time_unit := 0, last_time := now V, rate_fulfiled := False, write_enabled := True\<rparr>)
          in case cwq s of None \<Rightarrow> None | Some q \<Rightarrow> Some (cwq_deliver V q s))"

definition initial_seq_num :: "tx_env \<Rightarrow> tx \<Rightarrow> tx" where
  "initial_seq_num V s = s\<lparr>seq_nr_to_send := if random_bytes V = 0 then 1 else random_bytes V\<rparr>"

definition cwq_flush :: "tx \<Rightarrow> tx \<times> int" where
  "cwq_flush s = (case cwq s of None \<Rightarrow> (s, -1) | Some q \<Rightarrow> (s\<lparr>cwq := Some [], lost := lost s @ q\<rparr>, 0))"

definition default_sender_inactivity_timer :: "tx_env \<Rightarrow> tx \<Rightarrow> tx \<times> int" where
  "default_sender_inactivity_timer V s =
    (if dtp_dtcp (base s) = None then (s, -1)
     else
       let s = initial_seq_num V s;
           s = s\<lparr>drf_flag := True, window_closed := False, rendezvous_sndr := False\<rparr>;
           s = upd_dtcp (\<lambda>t. t\<lparr>snd_rt_wind_edge := seq_nr_to_send s + initial_credit s\<rparr>) s;
           s = upd_base (\<lambda>d. d\<lparr>rttq := map_option (\<lambda>_. []) (rttq d)\<rparr>) s
       in case (if rtx_ctrl (dtcp_ps (the_dtcp s)) then if rtxq s = None then (s, -1) else (fst (rtxq_flush_dt s), 0)
                else (s, 0 :: int)) of
            (s, r) \<Rightarrow>
              if r \<noteq> 0 then (s, -1)
              else if flow_ctrl (dtcp_ps (the_dtcp s))
              then case cwq_flush s of (s, r) \<Rightarrow> (s, if r \<noteq> 0 then -1 else 0)
              else (s, 0))"

definition tf_sender_inactivity :: "tx_env \<Rightarrow> tx \<Rightarrow> tx" where
  "tf_sender_inactivity V s =
    fst (default_sender_inactivity_timer V (upd_base (\<lambda>d. d\<lparr>sender_inactivity := None\<rparr>) s))"

subsection \<open>Initial values (dtp_sv_init, dtcp_sv_init)\<close>

definition dtcp_sv_init :: "u32 \<Rightarrow> u32 \<Rightarrow> tx \<Rightarrow> tx" where
  "dtcp_sv_init sending_rate time_period s =
    (let ps = dtcp_ps (the_dtcp s);
         s = upd_dtcp (\<lambda>t. t\<lparr>next_snd_ctl_seq := 0, last_rcv_ctl_seq := 0, last_snd_data_ack := 0, snd_lft_win := 0,
               time_unit := 0, snd_rt_wind_edge := 100, sndr_rate := 0, rcvr_credit := 1, rcvr_rt_wind_edge := 100,
               pdus_rcvd_in_time_unit := 0, rendezvous_rcvr := False\<rparr>)
              (s\<lparr>sndr_credit := 1, pdus_sent_in_time_unit := 0, rcvr_rate := 0, dup_acks := 0, dup_flow_ctl := 0,
                 rtt := 0, srtt := 0, rttvar := 0, last_time := (0, 0), rendezvous_sndr := False\<rparr>);
         s = (if flow_ctrl ps \<and> window_based ps
              then upd_dtcp (\<lambda>t. t\<lparr>snd_rt_wind_edge := initial_credit s + seq_nr_to_send s,
                                   rcvr_credit := initial_credit s, rcvr_rt_wind_edge := initial_credit s\<rparr>)
                     (s\<lparr>sndr_credit := initial_credit s\<rparr>)
              else s)
     in if flow_ctrl ps \<and> rate_based ps
        then upd_dtcp (\<lambda>t. t\<lparr>sndr_rate := sending_rate, time_unit := time_period\<rparr>) (s\<lparr>rcvr_rate := sending_rate\<rparr>)
        else s)"

definition dtp_sv_init :: "bool \<Rightarrow> bool \<Rightarrow> bool \<Rightarrow> u32 \<Rightarrow> u32 \<Rightarrow> u32 \<Rightarrow> u32 \<Rightarrow> tx \<Rightarrow> tx" where
  "dtp_sv_init rexmsn window rate mpl a r tr s =
    upd_base (\<lambda>d. d\<lparr>drop_pdus := 0, rx_pdus := 0, rx_bytes := 0, sv_MPL := mpl, sv_A := a, sv_R := r\<rparr>)
      (s\<lparr>err_pdus := 0, tx_pdus := 0, tx_bytes := 0, rexmsn_ctrl := rexmsn, sv_window_based := window,
         sv_rate_based := rate, max_seq_nr_sent := seq_nr_to_send s, sv_tr := tr\<rparr>)"

end
