(* ===== verification/Rina_Flow.thy ===== *)
theory Rina_Flow
  imports Rina_Receive
begin

section \<open>Properties of the RINA data transfer\<close>

text \<open>
  What a receiver of the RINA stack hands to the layer above, from the arrival of PDUs to complete
  SDUs, with the errors the code makes with PDUs out of order, with its timers and without DTCP.
\<close>

subsection \<open>The first PDU of a data run\<close>

lemma receive_first:
  assumes "rx_ready d" "drf_required d" "p_drf du" "dtp_mem d = []" "dtp_dtcp d = Some t"
  shows "\<exists>d' t'. dtp_receive E du d = Some (d', 0) \<and> rx_ready d' \<and> \<not> drf_required d' \<and> seqq d' = []
    \<and> posted d' = posted d @ [du] \<and> rcv_left_window_edge d' = p_sn du \<and> sv_A d' = sv_A d \<and> dtp_mem d' = []
    \<and> dropped d' = dropped d @ map snd (seqq d) \<and> dtp_dtcp d' = Some t' \<and> same_dtcp t t'
    \<and> (flow_ctrl (dtcp_ps t) \<and> window_based (dtcp_ps t) \<longrightarrow> rcvr_rt_wind_edge t' = p_sn du + rcvr_credit t)"
proof -
  define d1 where "d1 = d\<lparr>receiver_inactivity := inactivity_after E d\<rparr>"
  define d2 where "d2 = dtp_squeue_flush (d1\<lparr>drf_required := False, rcv_left_window_edge := p_sn du\<rparr>)"
  define d3 where "d3 = d2\<lparr>rttq := map_option (\<lambda>_. []) (rttq d2)\<rparr>"
  have f: "to_post d3 = to_post d" "to_send d3 = to_send d" "dtp_mem d3 = []" "dtp_dtcp d3 = Some t"
      "rcv_left_window_edge d3 = p_sn du" "\<not> drf_required d3" "seqq d3 = []" "posted d3 = posted d" "sv_A d3 = sv_A d"
      "dropped d3 = dropped d @ map snd (seqq d)"
    using assms(4,5) by (simp_all add: d3_def d2_def d1_def dtp_squeue_flush_def)
  obtain t' d4 r where u: "sv_update d3 = Some (d4, r)" "dtp_dtcp d4 = Some t'" "only_dtcp d3 d4" "same_dtcp t t'"
      "flow_ctrl (dtcp_ps t) \<and> window_based (dtcp_ps t) \<longrightarrow> rcvr_rt_wind_edge t' = p_sn du + rcvr_credit t"
      "r = 0"
    using sv_update_spec [OF f(4)] f assms(1) by (auto simp: rx_ready_def rings_ok_def)
  have s: "ring_ok (to_send d4)" "core d4 = core d3" "dtp_mem d4 = []"
    using u(3) f assms(1) by (auto simp: only_dtcp_def rx_ready_def rings_ok_def)
  have run: "dtp_receive E du d = Some (stats_rx du (fst (pdu_post E du (dtp_send_pending_ctrl_pdus d4))), 0)"
    using assms(2,3) u(1,6)
    by (simp add: dtp_receive_def receive_data_run_def Let_def d3_def d2_def d1_def inactivity_after_def)
  show ?thesis unfolding run
    using send_pending_spec [OF s(1)] s u(2,4,5) f assms(1)
    by (auto simp: stats_rx_def pdu_post_def rx_ready_def rings_ok_def core_def)
qed

lemma receive_run:
  assumes "in_data_run d" "seqq d = []" "dtp_mem d = []" "length queued < 1000"
    and "room (length (before @ late # queued @ aft)) d"
    and "numbered (rcv_left_window_edge d + 1) (map snd (before @ late # queued @ aft))"
  shows "\<exists>d'. dtp_receive_all (before @ queued @ late # aft) d = Some d' \<and> in_data_run d' \<and> seqq d' = []
    \<and> posted d' = posted d @ map snd (before @ late # queued @ aft)"
proof -
  obtain E du where late: "late = (E, du)" by (cases late)
  let ?q = "map (\<lambda>(E, du). (jiffies E, du)) queued"
  have q: "map snd ?q = map snd queued" by (simp add: comp_def case_prod_beta)
  have num: "numbered (rcv_left_window_edge d + 1) (map snd before)"
      "p_sn du = rcv_left_window_edge d + word_of_nat (length before) + 1"
      "numbered (rcv_left_window_edge d + word_of_nat (length before) + 2) (map snd queued)"
      "numbered (rcv_left_window_edge d + word_of_nat (length before) + 2 + word_of_nat (length queued)) (map snd aft)"
    using assms(6) late by (simp_all add: numbered_append algebra_simps)
  obtain d1 where d1: "dtp_receive_all before d = Some d1" "in_data_run d1" "seqq d1 = []"
      "room (Suc (length queued + length aft)) d1" "posted d1 = posted d @ map snd before" "dtp_mem d1 = []"
      "rcv_left_window_edge d1 = rcv_left_window_edge d + word_of_nat (length before)"
    using receive_in_order [OF assms(1,2) _ num(1), of "Suc (length queued + length aft)"] assms(3,5) by auto
  have nq: "numbered (rcv_left_window_edge d1 + 2) (map snd (seqq d1 @ ?q))"
    unfolding d1(3,7) append_Nil q using num(3) by (simp add: algebra_simps)
  have lq: "length (seqq d1) + length queued < 1000"
      "length (seqq d1) + length queued < Suc (length queued + length aft)"
    using assms(4) by (simp_all add: d1(3))
  obtain d2 where d2: "dtp_receive_all queued d1 = Some d2" "in_data_run d2" "seqq d2 = ?q" "dtp_mem d2 = []"
      "room (Suc (length queued + length aft)) d2" "posted d2 = posted d1"
      "rcv_left_window_edge d2 = rcv_left_window_edge d1"
    using receive_queued [OF d1(2,6) lq(1) d1(4) nq refl lq(2)] unfolding d1(3) append_Nil by blast
  obtain d3 where d3: "dtp_receive E du d2 = Some (d3, 0)" "in_data_run d3" "seqq d3 = []" "room (length aft) d3"
      "posted d3 = posted d2 @ du # map snd queued"
      "rcv_left_window_edge d3 = rcv_left_window_edge d2 + word_of_nat (Suc (length queued))"
    using receive_gap_closed [OF d2(2), of "length aft" du E] d2(3,5,7) d1(7) num(2,3) q assms(4)
    by (simp add: algebra_simps del: map_map) blast
  obtain d4 where "dtp_receive_all aft d3 = Some d4" "in_data_run d4" "seqq d4 = []"
      "posted d4 = posted d3 @ map snd aft"
    using receive_in_order [OF d3(2,3), of aft 0] d3(4,6) d2(7) d1(7) num(4) by (auto simp: algebra_simps)
  moreover have "dtp_receive_all (before @ queued @ late # aft) d = dtp_receive_all aft d3"
    using d1(1) d2(1) d3(1) late by (simp add: receive_all_append)
  ultimately show ?thesis using d1(5) d2(6) d3(5) late by simp
qed


text \<open>
  The PDUs after the first of a data run: in order, or with one of them overtaken by others. The first
  PDU itself has to arrive first, see \<open>first_overtaken_lost\<close>.
\<close>

definition delayed :: "'a list \<Rightarrow> 'a list \<Rightarrow> bool" where
  "delayed pdus arr \<longleftrightarrow> arr = pdus \<or>
    (\<exists>before late overtaking aft. pdus = before @ late # overtaking @ aft
       \<and> arr = before @ overtaking @ late # aft \<and> length overtaking < 1000)"

text \<open>The receive window follows the left edge and is large enough for \<open>k\<close> numbers from \<open>n\<close> on.\<close>

definition ample :: "nat \<Rightarrow> u32 \<Rightarrow> dtcp \<Rightarrow> bool" where
  "ample k n t \<longleftrightarrow> unat n + k + unat (rcvr_credit t) < 2 ^ 32 \<and>
    (window_based (dtcp_cfg t) \<longrightarrow> flow_ctrl (dtcp_ps t) \<and> window_based (dtcp_ps t) \<and> k \<le> unat (rcvr_credit t))"

lemma receive_data_run_delayed:
  assumes "rx_ready d" "drf_required d" "dtp_mem d = []" "dtp_dtcp d = Some t" "sv_A d \<noteq> 0"
    and "ample (length pdus) (p_sn (snd first)) t"
    and "numbered (p_sn (snd first) + 1) (map snd pdus)" "p_drf (snd first)" "delayed pdus arr"
  shows "\<exists>d'. dtp_receive_all (first # arr) d = Some d' \<and> in_data_run d' \<and> seqq d' = []
    \<and> posted d' = posted d @ map snd (first # pdus)"
proof -
  obtain E du where f: "first = (E, du)" by (cases first)
  obtain d1 t1 where d1: "dtp_receive E du d = Some (d1, 0)" "rx_ready d1" "\<not> drf_required d1" "seqq d1 = []"
      "posted d1 = posted d @ [du]" "rcv_left_window_edge d1 = p_sn du" "sv_A d1 = sv_A d" "dtp_mem d1 = []"
      "dtp_dtcp d1 = Some t1" "same_dtcp t t1"
      "flow_ctrl (dtcp_ps t) \<and> window_based (dtcp_ps t) \<longrightarrow> rcvr_rt_wind_edge t1 = p_sn du + rcvr_credit t"
    using receive_first [OF assms(1,2) _ assms(3,4), of du E] assms(8) f by auto
  have run: "in_data_run d1" using d1 assms(5) by (simp add: in_data_run_def)
  have "unat (p_sn du + rcvr_credit t) = unat (p_sn du) + unat (rcvr_credit t)"
    using assms(6) f by (intro unat_add_small) (simp add: ample_def)
  hence rm: "room (length pdus) d1"
    using assms(6) f d1(6,9,10,11) by (auto simp: room_def ample_def same_dtcp_def)
  have num: "numbered (rcv_left_window_edge d1 + 1) (map snd pdus)" using assms(7) f d1(6) by simp
  have "\<exists>d'. dtp_receive_all arr d1 = Some d' \<and> in_data_run d' \<and> seqq d' = []
      \<and> posted d' = posted d1 @ map snd pdus"
  proof (cases "arr = pdus")
    case True
    thus ?thesis using receive_in_order [OF run d1(4) _ num, of 0] rm by auto
  next
    case False
    then obtain before late overtaking aft where "pdus = before @ late # overtaking @ aft"
        "arr = before @ overtaking @ late # aft" "length overtaking < 1000"
      using assms(9) unfolding delayed_def by blast
    thus ?thesis using receive_run [OF run d1(4,8)] rm num by blast
  qed
  thus ?thesis using d1(1,5) f by auto
qed

subsection \<open>The A timer\<close>

definition waited :: "dtp_env \<Rightarrow> dtp \<Rightarrow> u64 \<times> dt_pdu \<Rightarrow> bool" where
  "waited E d e \<longleftrightarrow> \<not> jiffies E - (fst e + ucast (msecs_to_jiffies E (sv_A d))) <s 0"

text \<open>Everything that waited for longer than A goes to the queue of data units to post.\<close>

lemma A_loop_all:
  assumes "ring_ok (to_post d)" "\<not> rtx_ctrl (dtcp_cfg t)" "\<forall>e\<in>set (seqq d). waited E d e"
    "length (ring_contents (to_post d)) + length (seqq d) \<le> ring_capacity (to_post d)"
  shows "\<exists>n q last. A_loop E (Some t) LWE prev d = Some (d\<lparr>seqq := [], rcv_left_window_edge := n, to_post := q\<rparr>, last)
    \<and> ring_ok q \<and> ring_contents q = ring_contents (to_post d) @ map snd (seqq d)
    \<and> ring_capacity q = ring_capacity (to_post d)"
  using assms(1,3,4)
proof (induction "seqq d" arbitrary: d LWE prev)
  case Nil
  have "d\<lparr>seqq := [], rcv_left_window_edge := rcv_left_window_edge d, to_post := to_post d\<rparr> = d"
    using Nil(1) by (cases d) simp
  thus ?case using Nil by (intro exI [of _ "rcv_left_window_edge d"] exI [of _ "to_post d"]) (simp add: A_loop.simps)
next
  case (Cons e es)
  obtain ts du where e: "e = (ts, du)" by (cases e)
  let ?d = "d\<lparr>seqq := es, rcv_left_window_edge := p_sn du\<rparr>"
  obtain q where q: "post_later du ?d = Some (?d\<lparr>to_post := q\<rparr>)" "ring_ok q"
      "ring_contents q = ring_contents (to_post d) @ [du]" "ring_capacity q = ring_capacity (to_post d)"
    using post_later_room [of ?d du] Cons.prems Cons.hyps(2) [symmetric] by auto
  have "A_loop E (Some t) LWE prev d = A_loop E (Some t) (p_sn du) (Some du) (?d\<lparr>to_post := q\<rparr>)"
    using Cons.prems(2) Cons.hyps(2) [symmetric] e q(1) assms(2)
    by (subst A_loop.simps) (simp add: waited_def Let_def)
  moreover obtain n q' last where "A_loop E (Some t) (p_sn du) (Some du) (?d\<lparr>to_post := q\<rparr>)
      = Some (?d\<lparr>to_post := q, seqq := [], rcv_left_window_edge := n, to_post := q'\<rparr>, last)"
      "ring_ok q'" "ring_contents q' = ring_contents q @ map snd es" "ring_capacity q' = ring_capacity q"
    using Cons.hyps(1) [of "?d\<lparr>to_post := q\<rparr>" "p_sn du" "Some du"] Cons.prems Cons.hyps(2) [symmetric] q(2-4)
    by (auto simp: waited_def)
  ultimately show ?case using q(3,4) e Cons.hyps(2) [symmetric]
    by (intro exI [of _ n] exI [of _ q'] exI [of _ last]) simp
qed

lemma post_all_spec:
  "posted (post_all E dus d) = posted d @ dus \<and> seqq (post_all E dus d) = seqq d
    \<and> dtp_dtcp (post_all E dus d) = dtp_dtcp d \<and> to_send (post_all E dus d) = to_send d"
  by (induction dus arbitrary: d) (simp_all add: post_all_def pdu_post_def)

text \<open>The timer hands up the queue as it is.\<close>

lemma tf_a_all:
  assumes "rx_ready d" "dtp_dtcp d = Some t" "\<not> rtx_ctrl (dtcp_cfg t)" "length (seqq d) \<le> 1000"
    "\<forall>e\<in>set (seqq d). waited E d e"
  shows "\<exists>d'. tf_a E d = Some d' \<and> posted d' = posted d @ map snd (seqq d) \<and> seqq d' = []"
proof -
  let ?d = "d\<lparr>a_timer := None\<rparr>"
  have "ring_ok (to_post ?d)" "\<forall>e\<in>set (seqq ?d). waited E ?d e"
      "length (ring_contents (to_post ?d)) + length (seqq ?d) \<le> ring_capacity (to_post ?d)"
    using assms by (simp_all add: rx_ready_def rings_ok_def waited_def)
  from A_loop_all [OF this(1) assms(3) this(2,3), of "rcv_left_window_edge d" None]
  obtain n q last where l: "A_loop E (Some t) (rcv_left_window_edge d) None ?d
      = Some (?d\<lparr>seqq := [], rcv_left_window_edge := n, to_post := q\<rparr>, last)"
      "ring_ok q" "ring_contents q = map snd (seqq d)"
    using assms(1) by (auto simp: rx_ready_def)
  obtain q' where q': "ringq_drain q = (q', map snd (seqq d))" using ring.drain_all [OF l(2)] l(3) by auto
  define d1 where "d1 = post_all E (map snd (seqq d))
    (?d\<lparr>seqq := [], rcv_left_window_edge := n, to_post := q'\<rparr>)"
  have p: "process_A_expiration E ?d = Some (d1, last)"
    using l(1) q' assms(2) by (simp add: process_A_expiration_def d1_def)
  have d1: "posted d1 = posted d @ map snd (seqq d)" "seqq d1 = []" "dtp_dtcp d1 = Some t" "to_send d1 = to_send d"
    using post_all_spec [of E "map snd (seqq d)"] assms(2) by (simp_all add: d1_def)
  have "\<exists>d2 r. default_sending_ack E ?d = Some (d2, r) \<and> core d2 = core d1 \<and> ring_ok (to_send d2)"
  proof (cases last)
    case None
    thus ?thesis using p d1(4) assms(1) by (simp add: default_sending_ack_def rx_ready_def rings_ok_def)
  next
    case (Some x)
    thus ?thesis using p sv_update_spec [OF d1(3)] d1(4) assms(1)
      by (auto simp: default_sending_ack_def rx_ready_def rings_ok_def only_dtcp_def)
  qed
  then obtain d2 r where d2: "default_sending_ack E ?d = Some (d2, r)" "posted d2 = posted d1" "seqq d2 = []"
      "ring_ok (to_send d2)" using d1(2) by (auto simp: core_def)
  let ?f = "\<lambda>d2. dtp_send_pending_ctrl_pdus (if r \<noteq> 0 then d2\<lparr>a_timer := rtimer_start E (a_timer d2) (sv_A d)\<rparr> else d2)"
  have "posted (?f d2) = posted d2 \<and> seqq (?f d2) = seqq d2"
    using send_pending_spec [OF d2(4)] send_pending_spec [of "d2\<lparr>a_timer := rtimer_start E (a_timer d2) (sv_A d)\<rparr>"] d2(4)
    by (simp add: core_def)
  thus ?thesis using d2 d1(1) assms(2) by (simp add: tf_a_def Let_def seqq_is_empty_def)
qed


subsection \<open>Early PDUs that do not come in increasing order\<close>

lemma seq_insert_nowhere: "\<forall>c\<in>set q. p_sn (snd e) < p_sn (snd c) \<Longrightarrow> seq_insert e q = Nowhere"
  by (induction q) auto

lemma after_left_edge: "\<lbrakk>(n :: u32) < m; m \<noteq> n + 1\<rbrakk> \<Longrightarrow> n + 1 < m"
  by (metis inc_le order_le_imp_less_or_eq)

text \<open>A PDU that waits, with its number given by its distance from the left window edge.\<close>

lemma receive_placed:
  assumes "in_data_run d" "dtp_mem d = []" "room k d" "p_sn du = rcv_left_window_edge d + word_of_nat n"
    "1 < n" "n \<le> k" "length q \<le> 1000" "\<not> are_there_pdus q (rcv_left_window_edge d)"
    and push: "\<And>d2. \<lbrakk>seqq d2 = seqq d; dtp_mem d2 = []\<rbrakk> \<Longrightarrow> fst (seq_queue_push_ni E du d2) = d2\<lparr>seqq := q\<rparr>"
  shows "\<exists>d'. dtp_receive E du d = Some (d', 0) \<and> in_data_run d' \<and> dtp_mem d' = [] \<and> room k d' \<and> seqq d' = q
    \<and> posted d' = posted d \<and> rcv_left_window_edge d' = rcv_left_window_edge d \<and> sv_A d' = sv_A d
    \<and> map_option dtcp_cfg (dtp_dtcp d') = map_option dtcp_cfg (dtp_dtcp d)"
proof -
  have lt: "rcv_left_window_edge d < p_sn du" "window_allows (p_sn du) d"
    using room_allows [OF assms(3), of n] assms(4-6) by auto
  have "rcv_left_window_edge d + word_of_nat 1 < p_sn du"
    unfolding assms(4) using assms(3,5,6) by (intro plus_nat_less) (auto simp: room_def)
  hence ne: "p_sn du \<noteq> rcv_left_window_edge d + 1" by auto
  obtain d' where d': "dtp_receive E du d = Some (d', 0)" "in_data_run d'"
      "keeps_rx (d\<lparr>receiver_inactivity := inactivity_after E d\<rparr>) d'" "seqq d' = q" "posted d' = posted d"
      "rcv_left_window_edge d' = rcv_left_window_edge d"
    using receive_waits [OF assms(1,2) lt ne assms(7,8) push] by blast
  have "room k d'" using room_moves [OF assms(3) d'(3), of 0] d'(6) by simp
  moreover have "dtp_mem d' = []" "sv_A d' = sv_A d"
      "map_option dtcp_cfg (dtp_dtcp d') = map_option dtcp_cfg (dtp_dtcp d)"
    using d'(3) assms(2) by (cases "dtp_dtcp d"; cases "dtp_dtcp d'"; simp add: keeps_rx_def)+
  ultimately show ?thesis using d' by blast
qed

text \<open>The places an early PDU gets: behind all that wait, or behind the first.\<close>

lemma push_behind_last:
  "\<lbrakk>dtp_mem d = []; seqq d \<noteq> [] \<longrightarrow> p_sn (snd (last (seqq d))) < p_sn du\<rbrakk>
    \<Longrightarrow> fst (seq_queue_push_ni E du d) = d\<lparr>seqq := seqq d @ [(jiffies E, du)]\<rparr>"
  by (auto simp: seq_queue_push_ni_def dtp_alloc_def Let_def)

lemma push_behind_first:
  "\<lbrakk>dtp_mem d = []; seqq d = e # q; p_sn (snd e) < p_sn du; p_sn du < p_sn (snd (last (seqq d)))\<rbrakk>
    \<Longrightarrow> fst (seq_queue_push_ni E du d) = d\<lparr>seqq := e # (jiffies E, du) # q\<rparr>"
  by (auto simp: seq_queue_push_ni_def dtp_alloc_def Let_def)

lemma push_nowhere:
  assumes "dtp_mem d = []" "seqq d \<noteq> []" "\<forall>e\<in>set (seqq d). p_sn du < p_sn (snd e)"
  shows "fst (seq_queue_push_ni E du d) = d"
proof -
  have "\<not> p_sn (snd (last (seqq d))) \<le> p_sn du" using assms(2,3) by (simp add: not_le)
  moreover have "seq_insert (jiffies E, du) (seqq d) = Nowhere"
    by (rule seq_insert_nowhere) (use assms(3) in simp)
  ultimately show ?thesis using assms(1,2) by (simp add: seq_queue_push_ni_def dtp_alloc_def Let_def)
qed

text \<open>The fourth of four early PDUs comes before the third: it is put behind the first.\<close>

lemma receive_misplaced:
  assumes "in_data_run d" "seqq d = []" "dtp_mem d = []" "room k d"
    "1 < n1" "n1 < n2" "n2 < n3" "n3 < n4" "n4 \<le> k"
    "p_sn x1 = rcv_left_window_edge d + word_of_nat n1" "p_sn x2 = rcv_left_window_edge d + word_of_nat n2"
    "p_sn x3 = rcv_left_window_edge d + word_of_nat n3" "p_sn x4 = rcv_left_window_edge d + word_of_nat n4"
  shows "\<exists>d'. dtp_receive_all [(E1, x1), (E2, x2), (E4, x4), (E3, x3)] d = Some d' \<and> in_data_run d'
    \<and> seqq d' = [(jiffies E1, x1), (jiffies E3, x3), (jiffies E2, x2), (jiffies E4, x4)]
    \<and> posted d' = posted d \<and> sv_A d' = sv_A d
    \<and> map_option dtcp_cfg (dtp_dtcp d') = map_option dtcp_cfg (dtp_dtcp d)"
proof -
  let ?l = "rcv_left_window_edge d"
  have lt: "?l + word_of_nat i < ?l + word_of_nat j" if "i < j" "j \<le> n4" for i j
    using assms(4,9) that by (intro plus_nat_less) (auto simp: room_def)
  have "?l + 1 < p_sn x1" unfolding assms(10) using lt [of 1 n1] assms(5-8) by simp
  hence ne: "\<not> are_there_pdus ((ts, x1) # q) ?l" for ts q by (auto simp: are_there_pdus_def)
  have sn: "p_sn x1 < p_sn x2" "p_sn x2 < p_sn x3" "p_sn x3 < p_sn x4"
    unfolding assms(10-13) using lt assms(5-8) by auto
  have le: "1 < n2" "n2 \<le> k" "1 < n3" "n3 \<le> k" "1 < n4" "n1 \<le> k" using assms(5-9) by auto
  have len: "length [a] \<le> 1000" "length [a, b] \<le> 1000" "length [a, b, c] \<le> 1000" "length [a, b, c, e] \<le> 1000"
    for a b c e :: "u64 \<times> dt_pdu" by simp_all
  let ?e = "\<lambda>E x. (jiffies E, x)"
  have p1: "fst (seq_queue_push_ni E1 x1 d2) = d2\<lparr>seqq := [?e E1 x1]\<rparr>" if "seqq d2 = seqq d" "dtp_mem d2 = []" for d2
    using push_behind_last [of d2 x1 E1] that assms(2) by simp
  obtain d1 where d1: "dtp_receive E1 x1 d = Some (d1, 0)" "in_data_run d1" "dtp_mem d1 = []" "room k d1"
      "seqq d1 = [?e E1 x1]" "posted d1 = posted d" "rcv_left_window_edge d1 = ?l" "sv_A d1 = sv_A d"
      "map_option dtcp_cfg (dtp_dtcp d1) = map_option dtcp_cfg (dtp_dtcp d)"
    using receive_placed [OF assms(1,3,4,10,5) le(6) len(1) ne p1] by blast
  have p2: "fst (seq_queue_push_ni E2 x2 d2) = d2\<lparr>seqq := [?e E1 x1, ?e E2 x2]\<rparr>"
    if "seqq d2 = seqq d1" "dtp_mem d2 = []" for d2
    using push_behind_last [of d2 x2 E2] that d1(5) sn by simp
  obtain d2 where d2: "dtp_receive E2 x2 d1 = Some (d2, 0)" "in_data_run d2" "dtp_mem d2 = []" "room k d2"
      "seqq d2 = [?e E1 x1, ?e E2 x2]" "posted d2 = posted d" "rcv_left_window_edge d2 = ?l" "sv_A d2 = sv_A d"
      "map_option dtcp_cfg (dtp_dtcp d2) = map_option dtcp_cfg (dtp_dtcp d)"
    using receive_placed [OF d1(2-4) _ le(1,2) len(2) _ p2, unfolded d1(6-9), OF assms(11) ne] by blast
  have p3: "fst (seq_queue_push_ni E4 x4 d3) = d3\<lparr>seqq := [?e E1 x1, ?e E2 x2, ?e E4 x4]\<rparr>"
    if "seqq d3 = seqq d2" "dtp_mem d3 = []" for d3
    using push_behind_last [of d3 x4 E4] that d2(5) order.strict_trans [OF sn(2,3)] by simp
  obtain d3 where d3: "dtp_receive E4 x4 d2 = Some (d3, 0)" "in_data_run d3" "dtp_mem d3 = []" "room k d3"
      "seqq d3 = [?e E1 x1, ?e E2 x2, ?e E4 x4]" "posted d3 = posted d" "rcv_left_window_edge d3 = ?l"
      "sv_A d3 = sv_A d" "map_option dtcp_cfg (dtp_dtcp d3) = map_option dtcp_cfg (dtp_dtcp d)"
    using receive_placed [OF d2(2-4) _ le(5) assms(9) len(3) _ p3, unfolded d2(6-9), OF assms(13) ne] by blast
  have p4: "fst (seq_queue_push_ni E3 x3 d4) = d4\<lparr>seqq := [?e E1 x1, ?e E3 x3, ?e E2 x2, ?e E4 x4]\<rparr>"
    if "seqq d4 = seqq d3" "dtp_mem d4 = []" for d4
    using push_behind_first [of d4 "?e E1 x1" _ x3 E3] that d3(5) order.strict_trans [OF sn(1,2)] sn(3) by simp
  obtain d4 where d4: "dtp_receive E3 x3 d3 = Some (d4, 0)" "in_data_run d4"
      "seqq d4 = [?e E1 x1, ?e E3 x3, ?e E2 x2, ?e E4 x4]" "posted d4 = posted d" "sv_A d4 = sv_A d"
      "map_option dtcp_cfg (dtp_dtcp d4) = map_option dtcp_cfg (dtp_dtcp d)"
    using receive_placed [OF d3(2-4) _ le(3,4) len(4) _ p4, unfolded d3(6-9), OF assms(12) ne] by blast
  have "dtp_receive_all [(E1, x1), (E2, x2), (E4, x4), (E3, x3)] d = Some d4"
    using d1(1) d2(1) d3(1) d4(1) by simp
  thus ?thesis using d4(2-) by blast
qed

subsection \<open>Properties\<close>

text \<open>Receivers for the examples: a window of 100 numbers, acknowledgement, an A timer.\<close>

definition dtcp_example :: dtcp where
  "dtcp_example = (let s = \<lparr>flow_ctrl = True, window_based = True, rate_based = False, rtx_ctrl = False\<rparr> in
     \<lparr>dtcp_cfg = s, dtcp_ps = s, next_snd_ctl_seq = 0, last_rcv_ctl_seq = 0, last_snd_data_ack = 0,
      snd_lft_win = 0, snd_rt_wind_edge = 100, rcvr_credit = 100, rcvr_rt_wind_edge = 100, sndr_rate = 0,
      time_unit = 0, pdus_rcvd_in_time_unit = 0, rendezvous_rcvr = False, rendezvous_rcv = None,
      cpdus_in_transit = 0\<rparr>)"

definition rx_example :: "bool \<Rightarrow> u32 \<Rightarrow> dtp" where
  "rx_example drf lwe =
    \<lparr>dtp_dtcp = Some dtcp_example, sv_MPL = 10, sv_R = 10, sv_A = 5, rcv_left_window_edge = lwe,
     drf_required = drf, in_order_delivery = True, max_sdu_gap = 0, drop_pdus = 0, rx_pdus = 0, rx_bytes = 0,
     seqq = [], to_post = the (ringq_create 1000 []), to_send = the (ringq_create 16 []), rttq = None,
     receiver_inactivity = None, sender_inactivity = None, a_timer = None, dtp_mem = [], posted = [],
     sent = [], dropped = []\<rparr>"

definition env_example :: "u64 \<Rightarrow> dtp_env" where
  "env_example now = \<lparr>jiffies = now, HZ = 1000, msecs_to_jiffies = (\<lambda>x. x), post_result = (\<lambda>_. 0)\<rparr>"

definition pdu_example :: "u32 \<Rightarrow> dt_pdu" where
  "pdu_example n = \<lparr>p_sn = n, p_drf = True, p_data = [ucast n]\<rparr>"

lemma ring_new [simp]:
  "2 \<le> len \<Longrightarrow> ring_ok (the (ringq_create len [])) \<and> ring_contents (the (ringq_create len [])) = []
    \<and> ring_capacity (the (ringq_create len [])) = len"
  by (simp add: ringq_create_def ringq_entries_spec ring_ok_def ring_contents_def ring_capacity_def)

lemma rx_example_ready [simp]: "rx_ready (rx_example drf n)" "in_data_run (rx_example False n)"
  by (simp_all add: rx_ready_def rings_ok_def in_data_run_def rx_example_def)

lemma rx_example_fields [simp]:
  "seqq (rx_example drf n) = []" "dtp_mem (rx_example drf n) = []" "posted (rx_example drf n) = []"
  "rcv_left_window_edge (rx_example drf n) = n" "drf_required (rx_example drf n) = drf"
  "dtp_dtcp (rx_example drf n) = Some dtcp_example" "sv_A (rx_example drf n) = 5"
  "receiver_inactivity (rx_example drf n) = None"
  "p_sn (pdu_example k) = k" "p_drf (pdu_example k)" "p_data (pdu_example k) = [ucast k]"
  "jiffies (env_example now) = now"
  by (simp_all add: rx_example_def pdu_example_def env_example_def)

lemma dtcp_example_fields [simp]:
  "window_based (dtcp_cfg dtcp_example)" "window_based (dtcp_ps dtcp_example)" "flow_ctrl (dtcp_ps dtcp_example)"
  "\<not> rtx_ctrl (dtcp_cfg dtcp_example)" "rcvr_credit dtcp_example = 100" "rcvr_rt_wind_edge dtcp_example = 100"
  by (simp_all add: dtcp_example_def Let_def)

text \<open>
  C12. In order delivery between two expirations of the timers. Take a receiver in a data run that has
  DTCP and an A timer (A is not 0), and at most 1000 PDUs that wait or arrive before the next timer of
  the receiver expires. Whatever arrives and in whatever order, duplicates and numbers outside the
  window included, the receiver hands up a run of consecutive sequence numbers that begins behind its
  left window edge, each of a PDU that waited or arrived; the left window edge is the last number handed
  up; and no call fails or writes outside a queue. Without these conditions the order is not kept: the
  A timer hands up the queue as it is (C39), the inactivity timer starts a new data run (C40), with A = 0
  a PDU is handed up over a gap, and without DTCP the second PDU crashes the receiver
  (\<open>no_dtcp_crash\<close>).
\<close>

theorem dtp_in_sequence:
  assumes "in_data_run d" "length (seqq d) + length arr \<le> 1000"
  shows "\<exists>d' dus. dtp_receive_all arr d = Some d' \<and> in_data_run d' \<and> posted d' = posted d @ dus
    \<and> numbered (rcv_left_window_edge d + 1) dus
    \<and> rcv_left_window_edge d' = rcv_left_window_edge d + word_of_nat (length dus)
    \<and> set dus \<subseteq> set (map snd (seqq d)) \<union> set (map snd arr)"
  using receive_all_numbered [OF assms] by blast

theorem dtp_in_sequence_witness:
  "\<exists>d' dus. dtp_receive_all (map (\<lambda>n. (env_example 0, pdu_example n)) [7, 5, 4, 5, 300, 6, 3]) (rx_example False 3)
      = Some d' \<and> in_data_run d' \<and> posted d' = posted (rx_example False 3) @ dus
    \<and> numbered (rcv_left_window_edge (rx_example False 3) + 1) dus
    \<and> rcv_left_window_edge d' = rcv_left_window_edge (rx_example False 3) + word_of_nat (length dus)
    \<and> set dus \<subseteq> set (map snd (seqq (rx_example False 3)))
        \<union> set (map snd (map (\<lambda>n. (env_example 0, pdu_example n)) [7, 5, 4, 5, 300, 6, 3]))"
  by (rule dtp_in_sequence [OF rx_example_ready(2)]) simp

text \<open>
  C38. An early PDU with a smaller number than all that wait is lost: the loop that looks for its
  place in the sequencing queue finds none, and the PDU is neither queued nor handed up nor
  destroyed, while the call returns success.
\<close>

theorem early_below_queue_lost:
  assumes "in_data_run d" "dtp_mem d = []" "seqq d \<noteq> []" "length (seqq d) \<le> 1000"
    and "rcv_left_window_edge d < p_sn du" "p_sn du \<noteq> rcv_left_window_edge d + 1" "window_allows (p_sn du) d"
    and "\<forall>e\<in>set (seqq d). p_sn du < p_sn (snd e)"
  shows "\<exists>d'. dtp_receive E du d = Some (d', 0) \<and> seqq d' = seqq d \<and> posted d' = posted d
    \<and> dropped d' = dropped d \<and> rcv_left_window_edge d' = rcv_left_window_edge d"
proof -
  have "fst (seq_queue_push_ni E du d2) = d2\<lparr>seqq := seqq d\<rparr>" if s: "seqq d2 = seqq d" "dtp_mem d2 = []" for d2
  proof -
    have "d2\<lparr>seqq := seqq d\<rparr> = d2" unfolding s(1) [symmetric] by (cases d2) simp
    thus ?thesis using push_nowhere [of d2 du E] s assms(3,8) by simp
  qed
  moreover have "\<not> are_there_pdus (seqq d) (rcv_left_window_edge d)"
    using after_left_edge [OF assms(5,6)] assms(3,8) by (cases "seqq d") (auto simp: are_there_pdus_def)
  ultimately show ?thesis using receive_waits [OF assms(1,2,5,7,6,4)] by blast
qed

theorem early_below_queue_lost_witness:
  "\<exists>d'. dtp_receive (env_example 1) (pdu_example 5) (rx_example False 3 \<lparr>seqq := [(0, pdu_example 6)]\<rparr>) = Some (d', 0)
    \<and> seqq d' = seqq (rx_example False 3 \<lparr>seqq := [(0, pdu_example 6)]\<rparr>)
    \<and> posted d' = posted (rx_example False 3 \<lparr>seqq := [(0, pdu_example 6)]\<rparr>)
    \<and> dropped d' = dropped (rx_example False 3 \<lparr>seqq := [(0, pdu_example 6)]\<rparr>)
    \<and> rcv_left_window_edge d' = rcv_left_window_edge (rx_example False 3 \<lparr>seqq := [(0, pdu_example 6)]\<rparr>)"
  by (rule early_below_queue_lost)
     (use rx_example_ready(2) [of 3] in \<open>simp_all add: window_allows_def in_data_run_def rx_ready_def rings_ok_def\<close>)

text \<open>
  C39. The A timer can hand up PDUs out of order: of four early PDUs the last two of which are
  swapped, the third is queued in front of the second, and when A has passed (with no
  retransmission to wait for) the timer delivers the queue as it is.
\<close>

theorem a_timer_out_of_order:
  assumes "in_data_run d" "seqq d = []" "dtp_mem d = []" "room k d"
    and "1 < n1" "n1 < n2" "n2 < n3" "n3 < n4" "n4 \<le> k"
    and "p_sn x1 = rcv_left_window_edge d + word_of_nat n1" "p_sn x2 = rcv_left_window_edge d + word_of_nat n2"
    and "p_sn x3 = rcv_left_window_edge d + word_of_nat n3" "p_sn x4 = rcv_left_window_edge d + word_of_nat n4"
    and "dtp_dtcp d = Some t0" "\<not> rtx_ctrl (dtcp_cfg t0)"
    and "\<forall>e\<in>{(jiffies E1, x1), (jiffies E2, x2), (jiffies E3, x3), (jiffies E4, x4)}. waited T d e"
  shows "\<exists>d1 d2. dtp_receive_all [(E1, x1), (E2, x2), (E4, x4), (E3, x3)] d = Some d1
    \<and> tf_a T d1 = Some d2 \<and> posted d2 = posted d @ [x1, x3, x2, x4]"
proof -
  obtain d1 where d1: "dtp_receive_all [(E1, x1), (E2, x2), (E4, x4), (E3, x3)] d = Some d1" "in_data_run d1"
      "seqq d1 = [(jiffies E1, x1), (jiffies E3, x3), (jiffies E2, x2), (jiffies E4, x4)]"
      "posted d1 = posted d" "sv_A d1 = sv_A d"
      "map_option dtcp_cfg (dtp_dtcp d1) = map_option dtcp_cfg (dtp_dtcp d)"
    using receive_misplaced [OF assms(1-13)] by blast
  obtain t where t: "dtp_dtcp d1 = Some t" "\<not> rtx_ctrl (dtcp_cfg t)" "rx_ready d1"
  proof -
    obtain t where "dtp_dtcp d1 = Some t" "dtcp_cfg t = dtcp_cfg t0" using d1(6) assms(14) by (cases "dtp_dtcp d1") auto
    thus ?thesis using that assms(15) d1(2) by (simp add: in_data_run_def)
  qed
  have "\<forall>e\<in>set (seqq d1). waited T d1 e" using assms(16) d1(3,5) by (simp add: waited_def)
  moreover have "length (seqq d1) \<le> 1000" by (simp add: d1(3))
  ultimately obtain d2 where "tf_a T d1 = Some d2" "posted d2 = posted d1 @ map snd (seqq d1)"
    using tf_a_all [OF t(3,1,2)] by blast
  thus ?thesis using d1(1,3,4) by simp
qed

theorem a_timer_out_of_order_witness:
  "\<exists>d1 d2. dtp_receive_all [(env_example 0, pdu_example 5), (env_example 1, pdu_example 6),
      (env_example 2, pdu_example 8), (env_example 3, pdu_example 7)] (rx_example False 3) = Some d1
    \<and> tf_a (env_example 8) d1 = Some d2
    \<and> posted d2 = posted (rx_example False 3) @ [pdu_example 5, pdu_example 7, pdu_example 6, pdu_example 8]"
proof -
  have "\<forall>e\<in>{(jiffies (env_example 0), pdu_example 5), (jiffies (env_example 1), pdu_example 6),
      (jiffies (env_example 3), pdu_example 7), (jiffies (env_example 2), pdu_example 8)}.
      waited (env_example 8) (rx_example False 3) e"
    by (simp add: waited_def env_example_def) (simp add: word_sless_alt)
  from a_timer_out_of_order [of _ 97 2 3 4 5, OF _ _ _ _ _ _ _ _ _ _ _ _ _ _ _ this] show ?thesis
    by (simp add: room_def)
qed

text \<open>
  C40. Traffic does not keep a receiver from resetting itself: restarting a timer that is pending
  leaves it as it is, so the inactivity timer of a receiver fires at the time set by the first PDU
  it accepted, whatever arrives in between; and after it has fired a PDU with the data run flag,
  also one that has already been handed up, is handed up as the first of a new data run.
\<close>

theorem traffic_does_not_extend:
  assumes "in_data_run d" "dtp_mem d = []" "receiver_inactivity d = Some at_time"
    and "length (seqq d) + length arr \<le> 1000" "p_drf du"
  shows "\<exists>d1 d2. dtp_receive_all arr d = Some d1 \<and> receiver_inactivity d1 = Some at_time
    \<and> dtp_receive E du (tf_receiver_inactivity d1) = Some (d2, 0) \<and> posted d2 = posted d1 @ [du]"
proof -
  obtain d1 where d1: "dtp_receive_all arr d = Some d1" "in_data_run d1" "dtp_mem d1 = []"
      "receiver_inactivity d1 = Some at_time"
    using receive_all_numbered [OF assms(1,4)] assms(2,3) by auto
  obtain t where t: "dtp_dtcp d1 = Some t" "rx_ready d1" using d1(2) by (auto simp: in_data_run_def)
  let ?t = "t\<lparr>rcvr_rt_wind_edge := 0, rendezvous_rcvr := False\<rparr>"
  have "rx_ready (tf_receiver_inactivity d1)" "drf_required (tf_receiver_inactivity d1)"
      "dtp_mem (tf_receiver_inactivity d1) = []" "dtp_dtcp (tf_receiver_inactivity d1) = Some ?t"
      "posted (tf_receiver_inactivity d1) = posted d1"
    using t d1(3) by (simp_all add: tf_receiver_inactivity_def default_receiver_inactivity_timer_def
        dtp_squeue_flush_def rx_ready_def rings_ok_def)
  thus ?thesis using receive_first [of "tf_receiver_inactivity d1" du ?t E] assms(5) d1(1,4) by auto
qed

theorem traffic_does_not_extend_witness:
  "\<exists>d1 d2. dtp_receive_all [(env_example 30, pdu_example 4), (env_example 40, pdu_example 5)]
       (rx_example False 3 \<lparr>receiver_inactivity := Some 50\<rparr>) = Some d1 \<and> receiver_inactivity d1 = Some 50
    \<and> dtp_receive (env_example 51) (pdu_example 5) (tf_receiver_inactivity d1) = Some (d2, 0)
    \<and> posted d2 = posted d1 @ [pdu_example 5]"
  by (rule traffic_does_not_extend)
     (use rx_example_ready(2) [of 3] in \<open>simp_all add: in_data_run_def rx_ready_def rings_ok_def\<close>)

text \<open>
  A first PDU that is overtaken is lost. Every PDU of a sender without retransmissions carries the data
  run flag, so a new receiver takes the one that arrives first for the beginning of the data run; the PDU
  before it is then refused as a duplicate, and no later arrival of it is handed up in this run.
\<close>

lemma first_overtaken_lost:
  assumes "rx_ready d" "drf_required d" "dtp_mem d = []" "dtp_dtcp d = Some t" "sv_A d \<noteq> 0"
    and "p_drf second" "p_sn first < p_sn second"
  shows "\<exists>d'. dtp_receive_all [(E, second), (F, first)] d = Some d' \<and> posted d' = posted d @ [second]
    \<and> dropped d' = dropped d @ map snd (seqq d) @ [first] \<and> rcv_left_window_edge d' = p_sn second"
proof -
  obtain d1 where d1: "dtp_receive E second d = Some (d1, 0)" "rx_ready d1" "\<not> drf_required d1"
      "posted d1 = posted d @ [second]" "rcv_left_window_edge d1 = p_sn second" "sv_A d1 = sv_A d" "dtp_dtcp d1 \<noteq> None"
      "dropped d1 = dropped d @ map snd (seqq d)"
    using receive_first [OF assms(1,2,6,3,4), of E] by auto
  have "in_data_run d1" using d1 assms(5) by (simp add: in_data_run_def)
  then obtain d2 where "dtp_receive F first d1 = Some (d2, 0)" "posted d2 = posted d1"
      "rcv_left_window_edge d2 = rcv_left_window_edge d1" "dropped d2 = dropped d1 @ [first]"
    using receive_refused [of d1 first F] d1(5) assms(7) by (auto simp: less_imp_le)
  thus ?thesis using d1 by simp
qed

text \<open>
  A connection without DTCP does not survive its second data PDU: the first is handed up, and
  with the next one the receiver uses the DTCP instance that is not there.
\<close>

lemma no_dtcp_crash:
  assumes "drf_required d" "dtp_dtcp d = None" "p_drf x" "p_sn x < p_sn y"
  shows "\<exists>d1. dtp_receive E x d = Some (d1, 0) \<and> posted d1 = posted d @ [x] \<and> dtp_receive F y d1 = None"
proof -
  have "posted (dtp_send_pending_ctrl_pdus a) = posted a" "drf_required (dtp_send_pending_ctrl_pdus a) = drf_required a"
      "dtp_dtcp (dtp_send_pending_ctrl_pdus a) = dtp_dtcp a"
      "rcv_left_window_edge (dtp_send_pending_ctrl_pdus a) = rcv_left_window_edge a" for a
    by (simp_all add: dtp_send_pending_ctrl_pdus_def split: prod.split)
  thus ?thesis using assms
    by (simp add: dtp_receive_def receive_data_run_def Let_def dtp_squeue_flush_def sv_update_def stats_rx_def
         pdu_post_def is_fc_overrun_def not_le)
qed

end
