(* ===== verification/Rina_Send.thy ===== *)
theory Rina_Send
  imports Rina_Sender Rina_Flow
begin

section \<open>What the RINA sender guarantees\<close>

text \<open>
  The sender of \<open>Rina_Sender\<close> with window-based flow control and retransmission control, under every
  sequence of writes, control PDUs and timers: it sends the data in the order written, numbered
  consecutively and never beyond the right window edge, and keeps every PDU until it is
  acknowledged or given up.
\<close>

subsection \<open>The loops of the retransmission queue\<close>

definition numbers :: "rtxq_entry_dt list \<Rightarrow> u32 list" where
  "numbers es = map (\<lambda>e. p_sn (rt_du e)) es"

lemma tx_alloc_plenty [simp]: "dtp_mem (base s) = [] \<Longrightarrow> tx_alloc s = (True, s)"
  by (simp add: tx_alloc_def dtp_alloc_def)

lemma du_dup_plenty [simp]: "dtp_mem (base s) = [] \<Longrightarrow> du_dup_ni s = (True, s)"
  by (simp add: du_dup_ni_def)

lemma rate_stops_off [simp]: "\<not> rate_based (dtcp_cfg (the_dtcp s)) \<Longrightarrow> rate_stops V du s = (False, s)"
  by (simp add: rate_stops_def)

lemma send_again_plenty [simp]:
  "dtp_mem (base s) = [] \<Longrightarrow> send_again V du s = Some (s\<lparr>to_rmt := to_rmt s @ [(True, du)]\<rparr>)"
  by (simp add: send_again_def dtp_pdu_send_def)

text \<open>What a loop over the queue does: some entries go, the others stay in order, some are sent again.\<close>

definition resent :: "rtxq_entry_dt list \<Rightarrow> tx \<Rightarrow> (rtxq_entry_dt list \<times> tx \<times> dt_pdu list) option \<Rightarrow> bool" where
  "resent es s res \<longleftrightarrow> (\<exists>es' xs gone. res = Some (es', s\<lparr>to_rmt := to_rmt s @ map (Pair True) xs\<rparr>, gone)
     \<and> subseq (map rt_du es') (map rt_du es) \<and> set (map rt_du es) = set (map rt_du es') \<union> set gone
     \<and> length es = length es' + length gone \<and> set xs \<subseteq> set (map rt_du es))"

lemma tx_same: "s\<lparr>to_rmt := to_rmt s\<rparr> = s"
  by (cases s) simp

lemma resent_stop: "resent es s (Some (es, s, []))"
  unfolding resent_def by (intro exI [of _ es] exI [of _ "[]"]) (simp add: tx_same)

lemma resent_drop:
  "resent es s r \<Longrightarrow> resent (e # es) s (map_option (\<lambda>(es, s, gone). (es, s, rt_du e # gone)) r)"
  unfolding resent_def by (elim exE conjE, intro exI conjI) (assumption | auto)+

lemma resent_send:
  assumes "resent es (s\<lparr>to_rmt := to_rmt s @ [(True, rt_du e)]\<rparr>) r" "rt_du e' = rt_du e"
  shows "resent (e # es) s (map_option (\<lambda>(es, s, gone). (e' # es, s, gone)) r)"
proof -
  obtain es' xs gone where r: "r = Some (es', s\<lparr>to_rmt := to_rmt s @ [(True, rt_du e)]\<rparr>\<lparr>to_rmt :=
        to_rmt (s\<lparr>to_rmt := to_rmt s @ [(True, rt_du e)]\<rparr>) @ map (Pair True) xs\<rparr>, gone)"
      "subseq (map rt_du es') (map rt_du es)" "set (map rt_du es) = set (map rt_du es') \<union> set gone"
      "length es = length es' + length gone" "set xs \<subseteq> set (map rt_du es)"
    using assms(1) unfolding resent_def by blast
  have "map_option (\<lambda>(es, s, gone). (e' # es, s, gone)) r
      = Some (e' # es', s\<lparr>to_rmt := to_rmt s @ map (Pair True) (rt_du e # xs)\<rparr>, gone)"
    unfolding r(1) by simp
  moreover have "subseq (map rt_du (e' # es')) (map rt_du (e # es))" using r(2) assms(2) by simp
  moreover have "set (map rt_du (e # es)) = set (map rt_du (e' # es')) \<union> set gone"
    using r(3) assms(2) by auto
  moreover have "set (rt_du e # xs) \<subseteq> set (map rt_du (e # es))" using r(5) by auto
  moreover have "length (e # es) = length (e' # es') + length gone" using r(4) by simp
  ultimately show ?thesis unfolding resent_def by blast
qed

lemma resent_cong: "resent (e\<lparr>rt_retries := k\<rparr> # es) s r = resent (e # es) s r"
  by (simp add: resent_def)

lemma rtx_loop_resent:
  "\<lbrakk>dtp_mem (base s) = []; \<not> rate_based (dtcp_cfg (the_dtcp s))\<rbrakk> \<Longrightarrow> resent es s (rtx_loop V tr mx es s)"
proof (induction es arbitrary: s)
  case (Cons e es)
  let ?e = "e\<lparr>rt_retries := rt_retries e + 1\<rparr>"
  let ?s = "s\<lparr>to_rmt := to_rmt s @ [(True, rt_du e)]\<rparr>"
  have "resent es s (rtx_loop V tr mx es s)" using Cons by blast
  hence d: "resent (e # es) s (map_option (\<lambda>(es, s, gone). (es, s, rt_du e # gone)) (rtx_loop V tr mx es s))"
    by (rule resent_drop)
  have "resent es ?s (rtx_loop V tr mx es ?s)" using Cons.IH [of ?s] Cons.prems by (simp add: the_dtcp_def)
  hence "resent (e # es) s (map_option (\<lambda>(es, s, gone). (?e # es, s, gone)) (rtx_loop V tr mx es ?s))"
    by (rule resent_send) simp
  thus ?case using d Cons.prems resent_stop [of "e # es" s] by (simp add: Let_def)
qed (simp add: resent_stop)

lemma nack_loop_resent:
  "\<lbrakk>dtp_mem (base s) = []; \<not> rate_based (dtcp_cfg (the_dtcp s))\<rbrakk> \<Longrightarrow> resent es s (nack_loop V n mx es s)"
proof (induction es arbitrary: s)
  case (Cons e es)
  let ?e = "e\<lparr>rt_retries := rt_retries e + 1\<rparr>"
  let ?s = "s\<lparr>to_rmt := to_rmt s @ [(True, rt_du e)]\<rparr>"
  have "resent es s (nack_loop V n mx es s)" using Cons by blast
  hence d: "resent (e # es) s (map_option (\<lambda>(es, s, gone). (es, s, rt_du e # gone)) (nack_loop V n mx es s))"
    by (rule resent_drop)
  have "resent es ?s (nack_loop V n mx es ?s)" using Cons.IH [of ?s] Cons.prems by (simp add: the_dtcp_def)
  hence "resent (e # es) s (map_option (\<lambda>(es, s, gone). (?e # es, s, gone)) (nack_loop V n mx es ?s))"
    by (rule resent_send) simp
  thus ?case using d Cons.prems resent_stop [of "e # es" s] by (simp add: Let_def)
qed (simp add: resent_stop)

lemma entries_ack_spec:
  "case entries_ack_dt n es of (es', gone) \<Rightarrow> map rt_du es = gone @ map rt_du es' \<and> (\<forall>du\<in>set gone. p_sn du \<le> n)
     \<and> (es' \<noteq> [] \<longrightarrow> n < p_sn (rt_du (hd es')))"
  by (induction es) (auto split: prod.splits)

subsection \<open>The invariant\<close>

definition rwe :: "tx \<Rightarrow> u32" where
  "rwe s = snd_rt_wind_edge (the_dtcp s)"

text \<open>The PDUs sent for the first time, in the order in which they were sent.\<close>

definition first_sent :: "tx \<Rightarrow> dt_pdu list" where
  "first_sent s = map snd (filter (\<lambda>x. \<not> fst x) (to_rmt s))"

definition tx_config :: "tx \<Rightarrow> bool" where
  "tx_config s \<longleftrightarrow> sv_window_based s \<and> \<not> sv_rate_based s \<and> rexmsn_ctrl s \<and> dtp_mem (base s) = []
     \<and> dtp_dtcp (base s) \<noteq> None \<and> window_based (dtcp_cfg (the_dtcp s)) \<and> \<not> rate_based (dtcp_cfg (the_dtcp s))
     \<and> rtx_ctrl (dtcp_ps (the_dtcp s))"

definition rtxq_good :: "tx \<Rightarrow> rtxqueue_dt \<Rightarrow> bool" where
  "rtxq_good s rq \<longleftrightarrow> rtxq s = Some rq \<and> rq_len rq = int (length (rq_entries rq))
     \<and> sorted_wrt (<) (numbers (rq_entries rq))
     \<and> set (first_sent s) = set (acked s) \<union> set (given_up s) \<union> set (map rt_du (rq_entries rq))"

text \<open>
  The sender with the PDUs \<open>q\<close> in its closed window queue, after the data \<open>ds\<close> were written to a
  connection whose numbers begin behind \<open>n0\<close>, when the peer has announced no right edge beyond \<open>M\<close>
  and acknowledged no number beyond \<open>A\<close>.
\<close>

definition tx_good :: "u32 \<Rightarrow> u32 \<Rightarrow> u32 \<Rightarrow> bytes list \<Rightarrow> dt_pdu list \<Rightarrow> tx \<Rightarrow> bool" where
  "tx_good n0 M A ds q s \<longleftrightarrow> tx_config s \<and> unat n0 + length ds < 2 ^ 32
     \<and> seq_nr_to_send s = n0 + word_of_nat (length ds)
     \<and> map p_data (first_sent s @ q) = ds \<and> numbered (n0 + 1) (first_sent s @ q)
     \<and> max_seq_nr_sent s = n0 + word_of_nat (length (first_sent s))
     \<and> max_seq_nr_sent s \<le> M \<and> rwe s \<le> M \<and> (\<forall>du\<in>set (acked s). p_sn du \<le> A)
     \<and> (\<forall>x\<in>set (to_rmt s). snd x \<in> set (first_sent s)) \<and> (\<exists>rq. rtxq_good s rq)"

definition tx_ok :: "u32 \<Rightarrow> u32 \<Rightarrow> u32 \<Rightarrow> bytes list \<Rightarrow> tx \<Rightarrow> bool" where
  "tx_ok n0 M A ds s \<longleftrightarrow>
    (\<exists>q. cwq s = Some q \<and> tx_good n0 M A ds q s \<and> (q \<noteq> [] \<longrightarrow> rwe s \<le> max_seq_nr_sent s))"

text \<open>The part of the state the invariant speaks of.\<close>

definition view where
  "view s = (sv_window_based s, sv_rate_based s, rexmsn_ctrl s, rtxq s, seq_nr_to_send s, max_seq_nr_sent s,
     to_rmt s, acked s, given_up s, dtp_mem (base s),
     map_option (\<lambda>t. (dtcp_cfg t, dtcp_ps t, snd_rt_wind_edge t)) (dtp_dtcp (base s)))"

lemma view_dtcp:
  "\<lbrakk>view s = view s'; dtp_dtcp (base s) \<noteq> None\<rbrakk> \<Longrightarrow> dtp_dtcp (base s') \<noteq> None
    \<and> dtcp_cfg (the_dtcp s) = dtcp_cfg (the_dtcp s') \<and> dtcp_ps (the_dtcp s) = dtcp_ps (the_dtcp s') \<and> rwe s = rwe s'"
  by (cases "dtp_dtcp (base s)"; cases "dtp_dtcp (base s')") (simp_all add: view_def the_dtcp_def rwe_def)

lemma view_none: "\<lbrakk>view s = view s'; dtp_dtcp (base s) = None\<rbrakk> \<Longrightarrow> dtp_dtcp (base s') = None"
  by (simp add: view_def)

lemma view_rest:
  "view s = view s' \<Longrightarrow> sv_window_based s = sv_window_based s' \<and> sv_rate_based s = sv_rate_based s'
    \<and> rexmsn_ctrl s = rexmsn_ctrl s' \<and> rtxq s = rtxq s' \<and> seq_nr_to_send s = seq_nr_to_send s'
    \<and> max_seq_nr_sent s = max_seq_nr_sent s' \<and> to_rmt s = to_rmt s' \<and> acked s = acked s'
    \<and> given_up s = given_up s' \<and> dtp_mem (base s) = dtp_mem (base s') \<and> first_sent s = first_sent s'"
  by (simp add: view_def first_sent_def)

lemma tx_good_view:
  assumes "view s = view s'"
  shows "tx_good n0 M A ds q s = tx_good n0 M A ds q s'"
proof (cases "dtp_dtcp (base s) = None")
  case True
  thus ?thesis using view_none [OF assms] by (simp add: tx_good_def tx_config_def)
next
  case False
  hence "dtp_dtcp (base s') \<noteq> None" "dtcp_cfg (the_dtcp s) = dtcp_cfg (the_dtcp s')"
      "dtcp_ps (the_dtcp s) = dtcp_ps (the_dtcp s')" "rwe s = rwe s'"
    using view_dtcp [OF assms] by blast+
  thus ?thesis using False view_rest [OF assms] by (simp add: tx_good_def tx_config_def rtxq_good_def)
qed

lemma tx_ok_view:
  assumes "view s = view s'" "cwq s = cwq s'"
  shows "tx_ok n0 M A ds s = tx_ok n0 M A ds s'"
proof (cases "dtp_dtcp (base s) = None")
  case True
  thus ?thesis using view_none [OF assms(1)] by (simp add: tx_ok_def tx_good_def tx_config_def)
next
  case False
  hence "rwe s = rwe s'" using view_dtcp [OF assms(1)] by blast
  thus ?thesis using view_rest [OF assms(1)] tx_good_view [OF assms(1)] assms(2) by (simp add: tx_ok_def)
qed

subsection \<open>Sending the next PDU\<close>

lemma numbered_range:
  assumes "numbered (n + 1) ps" "unat n + length ps < 2 ^ 32" "du \<in> set ps"
  shows "n < p_sn du \<and> p_sn du \<le> n + word_of_nat (length ps)"
proof -
  obtain i where i: "i < length ps" "ps ! i = du" using assms(3) by (metis in_set_conv_nth)
  hence "p_sn du = n + word_of_nat (Suc i)" using numbered_nth [OF assms(1) i(1)] by (simp add: algebra_simps)
  moreover have "unat (n + word_of_nat (Suc i)) = unat n + Suc i"
      "unat (n + word_of_nat (length ps)) = unat n + length ps"
    using assms(2) i(1) by (intro unat_plus_nat; linarith)+
  ultimately show ?thesis using i(1) by (simp add: word_less_nat_alt word_le_nat_alt)
qed

lemma good_room:
  assumes "tx_good n0 M A ds q s"
  shows "unat n0 + length (first_sent s) + length q < 2 ^ 32"
proof -
  have "length ds = length (first_sent s) + length q" using assms by (metis tx_good_def length_append length_map)
  thus ?thesis using assms by (simp add: tx_good_def)
qed

lemma good_next:
  assumes "tx_good n0 M A ds (du # q) s"
  shows "p_sn du = max_seq_nr_sent s + 1 \<and> max_seq_nr_sent s < p_sn du"
proof -
  have sn: "p_sn du = max_seq_nr_sent s + 1"
    using assms by (simp add: tx_good_def numbered_append algebra_simps)
  have "n0 + word_of_nat (length (first_sent s)) < n0 + word_of_nat (length (first_sent s) + 1)"
    using good_room [OF assms] by (intro plus_nat_less) auto
  thus ?thesis using sn assms by (simp add: tx_good_def algebra_simps)
qed

lemma good_queue_le:
  assumes "tx_good n0 M A ds q s" "rtxq s = Some rq" "e \<in> set (rq_entries rq)"
  shows "p_sn (rt_du e) \<le> max_seq_nr_sent s"
proof -
  have "rt_du e \<in> set (first_sent s)" "numbered (n0 + 1) (first_sent s)"
    using assms by (auto simp: tx_good_def rtxq_good_def numbered_append)
  thus ?thesis using numbered_range [of n0 "first_sent s" "rt_du e"] good_room [OF assms(1)] assms(1)
    by (simp add: tx_good_def)
qed

definition with_copy :: "tx_env \<Rightarrow> dt_pdu \<Rightarrow> rtxqueue_dt \<Rightarrow> rtxqueue_dt" where
  "with_copy V du rq = rq\<lparr>rq_entries := rq_entries rq @ [\<lparr>rt_stamp = jiffies (clock V), rt_du = du, rt_retries = 0\<rparr>],
     rq_len := rq_len rq + 1\<rparr>"

lemma push_copy:
  assumes "tx_good n0 M A ds (du # q) s" "rtxq s = Some rq"
  shows "\<exists>tm. rtxq_push_ni_dt V du s = Some (s\<lparr>rtx_timer := tm, rtxq := Some (with_copy V du rq)\<rparr>, 0)"
proof -
  let ?tm = "rtimer_start (clock V) (rtx_timer s) (sv_tr s)"
  have m: "dtp_mem (base s) = []" using assms(1) by (simp add: tx_good_def tx_config_def)
  have "\<not> p_sn du \<le> p_sn (rt_du (last (rq_entries rq)))" if "rq_entries rq \<noteq> []"
    using good_queue_le [OF assms, of "last (rq_entries rq)"] good_next [OF assms(1)] that by auto
  hence "rtxqueue_push_ni_dt V du rq (s\<lparr>rtx_timer := ?tm\<rparr>) = (with_copy V du rq, s\<lparr>rtx_timer := ?tm\<rparr>, 0)"
    using m by (cases "rq_entries rq = []") (auto simp: rtxqueue_push_ni_dt_def Let_def with_copy_def not_le)
  thus ?thesis using assms(2) by (auto simp: rtxq_push_ni_dt_def)
qed

lemma put_sent:
  assumes "tx_good n0 M A ds (du # q) s" "rtxq s = Some rq" "p_sn du \<le> M"
    and "view s' = view (s\<lparr>rtxq := Some (with_copy V du rq), max_seq_nr_sent := p_sn du,
                            to_rmt := to_rmt s @ [(False, du)]\<rparr>)"
  shows "tx_good n0 M A ds q s'"
proof -
  let ?s = "s\<lparr>rtxq := Some (with_copy V du rq), max_seq_nr_sent := p_sn du, to_rmt := to_rmt s @ [(False, du)]\<rparr>"
  have g: "rtxq_good s rq" using assms(1,2) by (auto simp: tx_good_def rtxq_good_def)
  have "\<forall>e\<in>set (rq_entries rq). p_sn (rt_du e) < p_sn du"
    using good_queue_le [OF assms(1,2)] good_next [OF assms(1)] by (meson le_less_trans)
  hence "sorted_wrt (<) (numbers (rq_entries (with_copy V du rq)))"
    using g by (simp add: with_copy_def numbers_def rtxq_good_def sorted_wrt_append)
  hence "rtxq_good ?s (with_copy V du rq)"
    using g by (auto simp: rtxq_good_def with_copy_def first_sent_def)
  moreover have "p_sn du = n0 + word_of_nat (length (first_sent ?s))"
    using good_next [OF assms(1)] assms(1) by (simp add: tx_good_def first_sent_def algebra_simps)
  moreover have "first_sent ?s @ q = first_sent s @ du # q" by (simp add: first_sent_def)
  moreover have "tx_config ?s" "rwe ?s = rwe s" "\<forall>x\<in>set (to_rmt ?s). snd x \<in> set (first_sent ?s)"
    using assms(1) by (auto simp: tx_good_def tx_config_def the_dtcp_def rwe_def first_sent_def)
  ultimately have "tx_good n0 M A ds q ?s" using assms(1,3) unfolding tx_good_def by auto
  thus ?thesis using tx_good_view [OF assms(4)] by blast
qed

text \<open>Functions that change no part of the view.\<close>

lemma view_simps [simp]:
  "view (s\<lparr>rtx_timer := tm\<rparr>) = view s" "view (s\<lparr>lost := l\<rparr>) = view s" "view (s\<lparr>window_closed := b\<rparr>) = view s"
  "view (s\<lparr>cwq := q\<rparr>) = view s" "view (s\<lparr>write_enabled := b\<rparr>) = view s" "view (stats_err s) = view s"
  "view (stats_tx n s) = view s" "view (s\<lparr>rendezvous_sndr := b\<rparr>) = view s" "view (s\<lparr>rendezvous := tm\<rparr>) = view s"
  "view (start_rendezvous V s) = view s" "view (count_duplicate c s) = view s"
  by (simp_all add: view_def stats_err_def stats_tx_def start_rendezvous_def count_duplicate_def split: pdu_type.split)

lemma view_base:
  "\<lbrakk>\<And>d. dtp_mem (f d) = dtp_mem d; \<And>d. dtp_dtcp (f d) = dtp_dtcp d\<rbrakk> \<Longrightarrow> view (upd_base f s) = view s"
  by (simp add: view_def upd_base_def)

lemma view_upd_dtcp:
  "(\<And>t. dtcp_cfg (f t) = dtcp_cfg t \<and> dtcp_ps (f t) = dtcp_ps t \<and> snd_rt_wind_edge (f t) = snd_rt_wind_edge t)
    \<Longrightarrow> view (upd_dtcp f s) = view s"
  by (simp add: view_def upd_dtcp_def upd_base_def option.map_comp comp_def)

lemma upd_fields [simp]:
  "cwq (upd_base f s) = cwq s" "cwq (upd_dtcp g s) = cwq s" "rtxq (upd_dtcp g s) = rtxq s" "rtxq (upd_base f s) = rtxq s"
  "to_rmt (upd_dtcp g s) = to_rmt s" "max_seq_nr_sent (upd_dtcp g s) = max_seq_nr_sent s"
  "dtp_dtcp (base (upd_dtcp g s)) = map_option g (dtp_dtcp (base s))" "base (upd_base f s) = f (base s)"
  by (simp_all add: upd_base_def upd_dtcp_def)

lemma the_upd_dtcp [simp]: "dtp_dtcp (base s) \<noteq> None \<Longrightarrow> the_dtcp (upd_dtcp g s) = g (the_dtcp s)"
  by (auto simp: the_dtcp_def)

lemma can_deliver_window:
  "tx_config s \<Longrightarrow> can_deliver V s = (max_seq_nr_sent s < rwe s, s)"
  by (simp add: can_deliver_def tx_config_def rwe_def Let_def)

lemma good_config: "tx_good n0 M A ds q s \<Longrightarrow> tx_config s"
  by (simp add: tx_good_def)

lemma good_rtxq: "tx_good n0 M A ds q s \<Longrightarrow> \<exists>rq. rtxq s = Some rq"
  by (auto simp: tx_good_def rtxq_good_def)

text \<open>The PDUs \<open>ps\<close> were sent for the first time, in order, and a copy of each was put behind the retransmission queue.\<close>

definition passed :: "tx \<Rightarrow> dt_pdu list \<Rightarrow> tx \<Rightarrow> bool" where
  "passed s ps s' \<longleftrightarrow> to_rmt s' = to_rmt s @ map (Pair False) ps
     \<and> map_option (map rt_du \<circ> rq_entries) (rtxq s') = map_option (\<lambda>rq. map rt_du (rq_entries rq) @ ps) (rtxq s)"

lemma passed_view: "\<lbrakk>view t = view s; view t' = view s'\<rbrakk> \<Longrightarrow> passed t ps t' = passed s ps s'"
  by (simp add: passed_def view_def)

lemma passed_Nil: "passed s [] s"
  by (simp add: passed_def comp_def)

lemma passed_Cons: "\<lbrakk>passed s [du] s'; passed s' ps s''\<rbrakk> \<Longrightarrow> passed s (du # ps) s''"
  by (cases "rtxq s"; cases "rtxq s'"; cases "rtxq s''") (auto simp: passed_def)

text \<open>One round of the loop over the closed window queue.\<close>

lemma deliver_loop_step:
  assumes "tx_good n0 M A ds (du # q) s" "max_seq_nr_sent s < rwe s"
  shows "\<exists>s'. deliver_loop V (du # q) s = deliver_loop V q s' \<and> tx_good n0 M A ds q s' \<and> rwe s' = rwe s
    \<and> passed s [du] s' \<and> p_sn du \<le> rwe s"
proof -
  note c = good_config [OF assms(1), unfolded tx_config_def]
  obtain rq where rq: "rtxq s = Some rq" using good_rtxq [OF assms(1)] by blast
  obtain tm where p: "rtxq_push_ni_dt V du s = Some (s\<lparr>rtx_timer := tm, rtxq := Some (with_copy V du rq)\<rparr>, 0)"
    using push_copy [OF assms(1) rq] by blast
  define s1 where "s1 = s\<lparr>rtx_timer := tm, rtxq := Some (with_copy V du rq)\<rparr>"
  define s' where "s' = fst (dtp_pdu_send V False du
    (upd_dtcp (\<lambda>t. t\<lparr>snd_lft_win := p_sn du\<rparr>) (s1\<lparr>max_seq_nr_sent := p_sn du\<rparr>)))"
  have k: "keep_copy V du s = (s1, True)" using c rq p by (simp add: keep_copy_def s1_def)
  have "\<not> rate_based (dtcp_cfg (the_dtcp s1))" using c by (simp add: s1_def the_dtcp_def)
  hence run: "deliver_loop V (du # q) s = deliver_loop V q s'"
    using can_deliver_window [OF good_config [OF assms(1)]] assms(2) k by (simp add: Let_def s'_def)
  have v: "view s' = view (s\<lparr>rtxq := Some (with_copy V du rq), max_seq_nr_sent := p_sn du,
      to_rmt := to_rmt s @ [(False, du)]\<rparr>)"
    by (simp add: s'_def s1_def view_def dtp_pdu_send_def upd_dtcp_def upd_base_def option.map_comp comp_def)
  moreover have "p_sn du \<le> M"
    using good_next [OF assms(1)] assms by (metis inc_le order_trans tx_good_def)
  ultimately have "tx_good n0 M A ds q s'" using put_sent [OF assms(1) rq] by blast
  moreover have "passed s [du] s'"
    using rq unfolding passed_view [OF refl v] by (simp add: passed_def with_copy_def)
  moreover have "p_sn du \<le> rwe s" using good_next [OF assms(1)] assms(2) by (metis inc_le)
  moreover have "rwe s' = rwe s"
    using c by (auto simp: s'_def s1_def rwe_def the_dtcp_def dtp_pdu_send_def upd_dtcp_def upd_base_def)
  ultimately show ?thesis using run by blast
qed

text \<open>Of the PDUs \<open>q\<close> that waited, \<open>ps\<close> were sent: all that lie in the window.\<close>

definition opened :: "dt_pdu list \<Rightarrow> tx \<Rightarrow> dt_pdu list \<Rightarrow> tx \<Rightarrow> bool" where
  "opened q s q' s' \<longleftrightarrow> (\<exists>ps. q = ps @ q' \<and> passed s ps s' \<and> (\<forall>du\<in>set ps. p_sn du \<le> rwe s))"

lemma deliver_loop_good:
  "tx_good n0 M A ds q s \<Longrightarrow> \<exists>q' s'. deliver_loop V q s = (q', s', False) \<and> tx_good n0 M A ds q' s'
     \<and> rwe s' = rwe s \<and> (q' \<noteq> [] \<longrightarrow> rwe s' \<le> max_seq_nr_sent s') \<and> opened q s q' s'"
proof (induction q arbitrary: s)
  case (Cons du q)
  show ?case
  proof (cases "max_seq_nr_sent s < rwe s")
    case False
    hence "deliver_loop V (du # q) s = (du # q, s, False)"
      using can_deliver_window [OF good_config [OF Cons.prems]] by simp
    moreover have "opened (du # q) s (du # q) s" by (simp add: opened_def passed_Nil)
    ultimately show ?thesis using Cons.prems False by auto
  next
    case True
    obtain s1 where s1: "deliver_loop V (du # q) s = deliver_loop V q s1" "tx_good n0 M A ds q s1" "rwe s1 = rwe s"
        "passed s [du] s1" "p_sn du \<le> rwe s"
      using deliver_loop_step [OF Cons.prems True] by blast
    obtain q' s' where l: "deliver_loop V q s1 = (q', s', False)" "tx_good n0 M A ds q' s'" "rwe s' = rwe s1"
        "q' \<noteq> [] \<longrightarrow> rwe s' \<le> max_seq_nr_sent s'" "opened q s1 q' s'"
      using Cons.IH [OF s1(2)] by blast
    obtain ps where "q = ps @ q'" "passed s1 ps s'" "\<forall>du\<in>set ps. p_sn du \<le> rwe s1" using l(5) unfolding opened_def by blast
    hence "opened (du # q) s q' s'"
      unfolding opened_def using s1(3-5) passed_Cons by (intro exI [of _ "du # ps"]) auto
    thus ?thesis using s1(1,3) l(1-4) by simp
  qed
qed (simp add: opened_def passed_Nil)

lemma cwq_deliver_ok:
  assumes "tx_good n0 M A ds q s"
  shows "tx_ok n0 M A ds (cwq_deliver V q s) \<and> rwe (cwq_deliver V q s) = rwe s
    \<and> (\<exists>q'. cwq (cwq_deliver V q s) = Some q' \<and> opened q s q' (cwq_deliver V q s))"
proof -
  obtain q' s' where l: "deliver_loop V q s = (q', s', False)" "tx_good n0 M A ds q' s'" "rwe s' = rwe s"
      "q' \<noteq> [] \<longrightarrow> rwe s' \<le> max_seq_nr_sent s'" "opened q s q' s'"
    using deliver_loop_good [OF assms] by blast
  have c: "\<not> rate_based (dtcp_cfg (the_dtcp s'))" "dtp_dtcp (base s') \<noteq> None"
    using good_config [OF l(2)] by (simp_all add: tx_config_def)
  have v: "view (cwq_deliver V q s) = view s'" "cwq (cwq_deliver V q s) = Some q'"
    using c(1) by (simp_all add: cwq_deliver_def l(1) Let_def the_dtcp_def)
  have "rwe (cwq_deliver V q s) = rwe s'" using view_dtcp [OF v(1) [symmetric] c(2)] by simp
  moreover have "max_seq_nr_sent (cwq_deliver V q s) = max_seq_nr_sent s'" using view_rest [OF v(1)] by simp
  moreover have "opened q s q' (cwq_deliver V q s)" using l(5) passed_view [OF refl v(1)] by (simp add: opened_def)
  ultimately show ?thesis using l(2-4) v(2) tx_good_view [OF v(1)] by (simp add: tx_ok_def)
qed

subsection \<open>Writing\<close>

lemma cwq_push_effect:
  "\<lbrakk>cwq s = Some q; dtp_mem (base s) = []\<rbrakk> \<Longrightarrow> cwq_push du s = Some (s\<lparr>cwq := Some (q @ [du])\<rparr>, 0)"
  by (simp add: cwq_push_def)

lemma closed_window_effect:
  assumes "cwq s = Some q" "dtp_mem (base s) = []"
  shows "\<exists>s' r. default_closed_window V du s = Some (s', r) \<and> view s' = view s \<and> cwq s' = Some (q @ [du])"
  using cwq_push_effect [OF assms]
  by (auto simp: default_closed_window_def default_snd_flow_control_overrun_def)

lemma write_closed_effect:
  assumes "cwq s = Some q" "dtp_mem (base s) = []"
  shows "\<exists>s' r. dtp_write_closed V du s = Some (s', r) \<and> view s' = view s \<and> cwq s' = Some (q @ [du])"
proof -
  obtain s' r where "default_closed_window V du s = Some (s', r)" "view s' = view s" "cwq s' = Some (q @ [du])"
    using closed_window_effect [OF assms] by blast
  thus ?thesis by (auto simp: dtp_write_closed_def stats_err_def [of s'] start_rendezvous_def [of V s'] view_def)
qed

lemma write_open_ok:
  assumes "tx_good n0 M A ds [du] s" "p_sn du \<le> M"
  shows "\<exists>s' r. dtp_write_open V du s = Some (s', r) \<and> tx_good n0 M A ds [] s' \<and> cwq s' = cwq s
    \<and> to_rmt s' = to_rmt s @ [(False, du)] \<and> rwe s' = rwe s \<and> drf_flag s' = drf_flag s"
proof -
  note c = good_config [OF assms(1), unfolded tx_config_def]
  obtain rq where rq: "rtxq s = Some rq" using good_rtxq [OF assms(1)] by blast
  obtain tm where p: "rtxq_push_ni_dt V du s = Some (s\<lparr>rtx_timer := tm, rtxq := Some (with_copy V du rq)\<rparr>, 0)"
    using push_copy [OF assms(1) rq] by blast
  let ?s1 = "s\<lparr>rtx_timer := tm, rtxq := Some (with_copy V du rq)\<rparr>"
  define s2 where "s2 = fst (default_transmission_control V du ?s1)"
  have s2: "view s2 = view (s\<lparr>rtxq := Some (with_copy V du rq), max_seq_nr_sent := p_sn du,
      to_rmt := to_rmt s @ [(False, du)]\<rparr>)" "cwq s2 = cwq s" "drf_flag s2 = drf_flag s"
    by (simp_all add: s2_def default_transmission_control_def view_def dtp_pdu_send_def upd_dtcp_def upd_base_def
          option.map_comp comp_def)
  define s3 where "s3 = upd_base (\<lambda>d. d\<lparr>sender_inactivity := rtimer_restart (clock V) (sender_inactivity d)
    (3 * (sv_MPL d + sv_R d + sv_A d))\<rparr>) (stats_tx (length (p_data du)) s2)"
  have s3: "view s3 = view s2" "cwq s3 = cwq s" "drf_flag s3 = drf_flag s"
    using s2(2,3) view_base by (simp_all add: s3_def stats_tx_def upd_base_def view_def)
  have err: "view (stats_err s2) = view s2" "cwq (stats_err s2) = cwq s" "drf_flag (stats_err s2) = drf_flag s"
    using s2(2,3) by (simp_all add: stats_err_def view_def)
  obtain r2 where "default_transmission_control V du ?s1 = (s2, r2)" by (metis s2_def prod.collapse)
  hence "dtp_write_open V du s = (if r2 \<noteq> 0 then Some (stats_err s2, -1) else Some (s3, 0))"
    using c p by (simp add: dtp_write_open_def s3_def)
  then consider "dtp_write_open V du s = Some (s3, 0)" | "dtp_write_open V du s = Some (stats_err s2, -1)"
    by metis
  then obtain s' r where s': "dtp_write_open V du s = Some (s', r)" "view s' = view s2" "cwq s' = cwq s"
      "drf_flag s' = drf_flag s"
    using s3 err by cases blast+
  have good: "tx_good n0 M A ds [] s'" using put_sent [OF assms(1) rq assms(2)] s'(2) s2(1) by simp
  moreover have "to_rmt s' = to_rmt s @ [(False, du)]" using view_rest [of s' s2] s'(2) s2(1) view_rest [OF s2(1)] by simp
  moreover have "rwe s' = rwe s"
  proof -
    have "view s' = view (s\<lparr>rtxq := Some (with_copy V du rq), max_seq_nr_sent := p_sn du,
      to_rmt := to_rmt s @ [(False, du)]\<rparr>)" using s'(2) s2(1) by simp
    from view_dtcp [OF this] show ?thesis using good_config [OF good] by (simp add: tx_config_def rwe_def the_dtcp_def)
  qed
  ultimately show ?thesis using s' by blast
qed

lemma first_sent_seq [simp]: "first_sent (s\<lparr>seq_nr_to_send := n\<rparr>) = first_sent s"
  by (simp add: first_sent_def)

text \<open>The state after the number was taken, with the new PDU last.\<close>

lemma write_numbered:
  assumes "tx_good n0 M A ds q s" "unat n0 + length ds + 1 < 2 ^ 32" "p_sn du = seq_nr_to_send s + 1" "p_data du = data"
    and "view s' = view (s\<lparr>seq_nr_to_send := seq_nr_to_send s + 1\<rparr>)"
  shows "tx_good n0 M A (ds @ [data]) (q @ [du]) s'"
proof -
  let ?s = "s\<lparr>seq_nr_to_send := seq_nr_to_send s + 1\<rparr>"
  have len: "length (first_sent s @ q) = length ds" using assms(1) by (metis tx_good_def length_map)
  have "numbered (n0 + 1) ((first_sent s @ q) @ [du])"
    using assms(1,3) len by (subst numbered_append) (simp add: tx_good_def algebra_simps)
  moreover have "tx_config ?s" "rwe ?s = rwe s" "\<exists>rq. rtxq_good ?s rq"
    using assms(1) by (auto simp: tx_good_def tx_config_def the_dtcp_def rwe_def rtxq_good_def)
  moreover have "seq_nr_to_send ?s = n0 + word_of_nat (length (ds @ [data]))"
    using assms(1) by (simp add: tx_good_def algebra_simps)
  moreover have "map p_data (first_sent s @ q @ [du]) = ds @ [data]" using assms(1,4) by (auto simp: tx_good_def)
  ultimately have "tx_good n0 M A (ds @ [data]) (q @ [du]) ?s"
    using assms(1,2) unfolding tx_good_def by auto
  thus ?thesis using tx_good_view [OF assms(5)] by blast
qed

lemma dtp_write_cases:
  assumes "tx_config s" "encap_ok V"
  shows "\<exists>s1 du. p_sn du = seq_nr_to_send s + 1 \<and> p_data du = data \<and> (drf_flag s \<longrightarrow> p_drf du)
    \<and> view s1 = view (s\<lparr>seq_nr_to_send := seq_nr_to_send s + 1\<rparr>) \<and> cwq s1 = cwq s \<and> to_rmt s1 = to_rmt s
    \<and> drf_flag s1 = drf_flag s
    \<and> dtp_write V data s = (if rwe s < p_sn du then dtp_write_closed V du s1 else dtp_write_open V du s1)"
proof -
  let ?s = "(upd_base (\<lambda>d. d\<lparr>sender_inactivity := rtimer_stop (sender_inactivity d)\<rparr>) s)
    \<lparr>seq_nr_to_send := seq_nr_to_send s + 1\<rparr>"
  obtain t where t: "dtp_dtcp (base s) = Some t" using assms(1) by (auto simp: tx_config_def)
  let ?du = "\<lparr>p_sn = seq_nr_to_send s + 1, p_drf = (drf_flag s \<or> (snd_lft_win t = seq_nr_to_send s \<and> rexmsn_ctrl s)),
    p_data = data\<rparr>"
  let ?s1 = "if rwe s < p_sn ?du then ?s\<lparr>window_closed := True\<rparr> else ?s"
  have "rwe ?s = rwe s" by (simp add: rwe_def the_dtcp_def upd_base_def)
  hence "dtp_write V data s = (if rwe s < p_sn ?du then dtp_write_closed V ?du ?s1 else dtp_write_open V ?du ?s1)"
    using assms t by (simp add: dtp_write_def Let_def upd_base_def window_is_closed_def tx_config_def rwe_def)
  moreover have "view ?s1 = view (s\<lparr>seq_nr_to_send := seq_nr_to_send s + 1\<rparr>)" "cwq ?s1 = cwq s" "to_rmt ?s1 = to_rmt s"
      "drf_flag ?s1 = drf_flag s"
    by (simp_all add: view_def upd_base_def)
  ultimately show ?thesis by (intro exI [of _ ?s1] exI [of _ ?du]) simp
qed

lemma dtp_write_ok:
  assumes "tx_ok n0 M A ds s" "encap_ok V" "unat n0 + length ds + 1 < 2 ^ 32"
  shows "\<exists>s' r. dtp_write V data s = Some (s', r) \<and> tx_ok n0 M A (ds @ [data]) s'"
proof -
  obtain q where q: "cwq s = Some q" "tx_good n0 M A ds q s" "q \<noteq> [] \<longrightarrow> rwe s \<le> max_seq_nr_sent s"
    using assms(1) by (auto simp: tx_ok_def)
  obtain s1 du where d: "p_sn du = seq_nr_to_send s + 1" "p_data du = data"
      "view s1 = view (s\<lparr>seq_nr_to_send := seq_nr_to_send s + 1\<rparr>)" "cwq s1 = cwq s"
      "dtp_write V data s = (if rwe s < p_sn du then dtp_write_closed V du s1 else dtp_write_open V du s1)"
    using dtp_write_cases [OF good_config [OF q(2)] assms(2)] by blast
  have g: "tx_good n0 M A (ds @ [data]) (q @ [du]) s1" by (rule write_numbered [OF q(2) assms(3) d(1,2,3)])
  have m: "max_seq_nr_sent s1 = max_seq_nr_sent s" using view_rest [OF d(3)] by simp
  have w: "rwe s1 = rwe s"
  proof -
    have "rwe (s\<lparr>seq_nr_to_send := seq_nr_to_send s + 1\<rparr>) = rwe s" by (simp add: rwe_def the_dtcp_def)
    thus ?thesis using view_dtcp [OF d(3)] good_config [OF g] by (simp add: tx_config_def)
  qed
  have after: "p_sn du = max_seq_nr_sent s + 1" "max_seq_nr_sent s < p_sn du" if "q = []"
    using good_next [of n0 M A "ds @ [data]" du "[]" s1] g that m by auto
  show ?thesis
  proof (cases "rwe s < p_sn du")
    case True
    have "dtp_mem (base s1) = []" using good_config [OF g] by (simp add: tx_config_def)
    then obtain s' r where s': "dtp_write_closed V du s1 = Some (s', r)" "view s' = view s1" "cwq s' = Some (q @ [du])"
      using write_closed_effect [of s1 q V du] d(4) q(1) by auto
    have "rwe s \<le> max_seq_nr_sent s"
      using q(3) after True by (cases "q = []") (auto dest: inc_le simp: not_less [symmetric])
    moreover have "rwe s' = rwe s1" "max_seq_nr_sent s' = max_seq_nr_sent s1"
      using view_dtcp [OF s'(2) [symmetric]] view_rest [OF s'(2)] good_config [OF g] by (auto simp: tx_config_def)
    ultimately have "tx_ok n0 M A (ds @ [data]) s'"
      using g s'(3) w m tx_good_view [OF s'(2)] by (auto simp: tx_ok_def)
    thus ?thesis using d(5) True s'(1) by auto
  next
    case False
    have "q = []"
    proof (rule ccontr)
      assume ne: "q \<noteq> []"
      have "numbered (n0 + 1) (first_sent s1 @ q @ [du])" using g by (simp add: tx_good_def)
      hence "numbered (max_seq_nr_sent s1 + 1) (q @ [du])" using g by (simp add: numbered_append tx_good_def algebra_simps)
      moreover have "unat (max_seq_nr_sent s1) + length (q @ [du]) < 2 ^ 32"
        using good_room [OF g] g unat_plus_nat [of n0 "length (first_sent s1)"] by (simp add: tx_good_def)
      ultimately have "max_seq_nr_sent s1 < p_sn du"
        using numbered_range [of "max_seq_nr_sent s1" "q @ [du]" du] by simp
      thus False using q(3) ne False m by auto
    qed
    moreover have "p_sn du \<le> M" using False q(2) by (auto simp: tx_good_def)
    ultimately obtain s' r where "dtp_write_open V du s1 = Some (s', r)" "tx_good n0 M A (ds @ [data]) [] s'"
        "cwq s' = cwq s1"
      using write_open_ok [of n0 M A "ds @ [data]" du s1 V] g by auto
    thus ?thesis using d(4,5) False q(1) \<open>q = []\<close> by (auto simp: tx_ok_def)
  qed
qed

subsection \<open>Acknowledgements and retransmissions\<close>

lemma sorted_wrt_subseq: "\<lbrakk>subseq xs ys; sorted_wrt P ys\<rbrakk> \<Longrightarrow> sorted_wrt P xs"
  by (induction rule: list_emb.induct) (auto dest: list_emb_set)

lemma good_requeued:
  assumes "tx_good n0 M A ds q s" "rtxq s = Some rq" "subseq (map rt_du es) (map rt_du (rq_entries rq))"
    and "set (map rt_du (rq_entries rq)) = set (map rt_du es) \<union> set gone"
    and "length (rq_entries rq) = length es + length gone" "set xs \<subseteq> set (map rt_du (rq_entries rq))"
    and "rq_entries rq' = es" "rq_len rq' = rq_len rq - int (length gone)"
    and "view s' = view (s\<lparr>rtxq := Some rq', to_rmt := to_rmt s @ map (Pair True) xs, given_up := given_up s @ gone\<rparr>)"
  shows "tx_good n0 M A ds q s'"
proof -
  let ?s = "s\<lparr>rtxq := Some rq', to_rmt := to_rmt s @ map (Pair True) xs, given_up := given_up s @ gone\<rparr>"
  have g: "rtxq_good s rq" using assms(1,2) by (auto simp: tx_good_def rtxq_good_def)
  have f: "first_sent ?s = first_sent s" by (simp add: first_sent_def filter_map comp_def)
  have "subseq (numbers es) (numbers (rq_entries rq))"
    using subseq_map [OF assms(3), of p_sn] by (simp add: numbers_def comp_def)
  hence "sorted_wrt (<) (numbers es)" using g sorted_wrt_subseq by (auto simp: rtxq_good_def)
  moreover have "set (first_sent s) = set (acked s) \<union> (set (given_up s) \<union> set gone) \<union> set (map rt_du es)"
    using g assms(4) unfolding rtxq_good_def by blast
  ultimately have "rtxq_good ?s rq'" using g f assms(5,7,8) by (simp add: rtxq_good_def)
  moreover have "tx_config ?s" "rwe ?s = rwe s" using assms(1) by (auto simp: tx_good_def tx_config_def the_dtcp_def rwe_def)
  moreover have "\<forall>x\<in>set (to_rmt ?s). snd x \<in> set (first_sent s)"
    using assms(1,6) g by (auto simp: tx_good_def rtxq_good_def)
  ultimately have "tx_good n0 M A ds q ?s" using assms(1) f unfolding tx_good_def by auto
  thus ?thesis using tx_good_view [OF assms(9)] by blast
qed

lemma good_acked:
  assumes "tx_good n0 M A ds q s" "n \<le> A"
  shows "tx_good n0 M A ds q (fst (rtxq_ack_dt V n tr s))"
proof -
  obtain rq where rq: "rtxq s = Some rq" using good_rtxq [OF assms(1)] by blast
  obtain es gone where e: "entries_ack_dt n (rq_entries rq) = (es, gone)" by (metis surj_pair)
  have split: "map rt_du (rq_entries rq) = gone @ map rt_du es" "\<forall>du\<in>set gone. p_sn du \<le> n"
    using entries_ack_spec [where n = n and es = "rq_entries rq"] e by auto
  have g: "rtxq_good s rq" using assms(1) rq by (auto simp: tx_good_def rtxq_good_def)
  let ?rq = "rq\<lparr>rq_entries := es, rq_len := rq_len rq - int (length gone)\<rparr>"
  let ?s = "s\<lparr>rtxq := Some ?rq, acked := acked s @ gone\<rparr>"
  have "numbers (rq_entries rq) = map p_sn gone @ numbers es"
    using arg_cong [OF split(1), of "map p_sn"] by (simp add: numbers_def comp_def)
  hence "sorted_wrt (<) (numbers es)" using g by (simp add: rtxq_good_def sorted_wrt_append)
  moreover have "length (rq_entries rq) = length gone + length es"
    using arg_cong [OF split(1), of length] by simp
  moreover have "set (first_sent s) = (set (acked s) \<union> set gone) \<union> set (given_up s) \<union> set (map rt_du es)"
    using g arg_cong [OF split(1), of set] unfolding rtxq_good_def by auto
  moreover have "first_sent ?s = first_sent s" by (simp add: first_sent_def)
  ultimately have "rtxq_good ?s ?rq" using g by (simp add: rtxq_good_def)
  moreover have "tx_config ?s" "rwe ?s = rwe s" using assms(1) by (auto simp: tx_good_def tx_config_def the_dtcp_def rwe_def)
  moreover have "\<forall>du\<in>set (acked ?s). p_sn du \<le> A"
    using assms split(2) order_trans by (fastforce simp: tx_good_def)
  ultimately have "tx_good n0 M A ds q ?s"
    using assms(1) \<open>first_sent ?s = first_sent s\<close> unfolding tx_good_def by auto
  moreover have "view (fst (rtxq_ack_dt V n tr s)) = view ?s"
    using rq e by (simp add: rtxq_ack_dt_def rtxqueue_entries_ack_dt_def view_def)
  ultimately show ?thesis using tx_good_view by blast
qed

lemma good_rwe:
  assumes "tx_good n0 M A ds q s" "r \<le> M"
  shows "tx_good n0 M A ds q (upd_dtcp (\<lambda>t. t\<lparr>snd_rt_wind_edge := r\<rparr>) s)"
proof -
  let ?s = "upd_dtcp (\<lambda>t. t\<lparr>snd_rt_wind_edge := r\<rparr>) s"
  have d: "dtp_dtcp (base s) \<noteq> None" using good_config [OF assms(1)] by (simp add: tx_config_def)
  hence "the_dtcp ?s = (the_dtcp s)\<lparr>snd_rt_wind_edge := r\<rparr>" by simp
  moreover have "first_sent ?s = first_sent s" "rtxq ?s = rtxq s" "acked ?s = acked s" "given_up ?s = given_up s"
      "to_rmt ?s = to_rmt s" "seq_nr_to_send ?s = seq_nr_to_send s" "max_seq_nr_sent ?s = max_seq_nr_sent s"
      "sv_window_based ?s = sv_window_based s" "sv_rate_based ?s = sv_rate_based s" "rexmsn_ctrl ?s = rexmsn_ctrl s"
      "dtp_mem (base ?s) = dtp_mem (base s)" "dtp_dtcp (base ?s) \<noteq> None"
    using d by (simp_all add: first_sent_def upd_dtcp_def upd_base_def)
  ultimately show ?thesis using assms by (auto simp: tx_good_def tx_config_def rwe_def rtxq_good_def)
qed

lemma rtt_view [simp]:
  "view (rtt_calculation V x s) = view s" "cwq (rtt_calculation V x s) = cwq s"
  by (simp_all add: rtt_calculation_def view_def Let_def split: prod.split)

lemma estimator_view [simp]:
  "view (fst (default_rtt_estimator V n s)) = view s" "cwq (fst (default_rtt_estimator V n s)) = cwq s"
  "view (fst (default_rtt_estimator_nortx V n s)) = view s" "cwq (fst (default_rtt_estimator_nortx V n s)) = cwq s"
  by (simp_all add: default_rtt_estimator_def default_rtt_estimator_nortx_def Let_def)

lemma sender_ack_good:
  assumes "tx_good n0 M A ds q s" "n \<le> A"
  shows "tx_good n0 M A ds q (fst (default_sender_ack V n s)) \<and> cwq (fst (default_sender_ack V n s)) = cwq s
    \<and> rwe (fst (default_sender_ack V n s)) = rwe s \<and> max_seq_nr_sent (fst (default_sender_ack V n s)) = max_seq_nr_sent s"
proof -
  note c = good_config [OF assms(1), unfolded tx_config_def]
  obtain rq where rq: "rtxq s = Some rq" using good_rtxq [OF assms(1)] by blast
  let ?a = "fst (rtxq_ack_dt V n (sv_tr s) s)"
  have r: "fst (default_sender_ack V n s) = upd_dtcp (\<lambda>t. t\<lparr>snd_lft_win := n + 1\<rparr>) ?a"
    using c rq by (simp add: default_sender_ack_def)
  have v: "view (upd_dtcp (\<lambda>t. t\<lparr>snd_lft_win := n + 1\<rparr>) ?a) = view ?a" by (rule view_upd_dtcp) simp
  have a: "base ?a = base s" "cwq ?a = cwq s" "max_seq_nr_sent ?a = max_seq_nr_sent s"
    using rq by (simp_all add: rtxq_ack_dt_def split: prod.split)
  have "tx_good n0 M A ds q (upd_dtcp (\<lambda>t. t\<lparr>snd_lft_win := n + 1\<rparr>) ?a)"
    using good_acked [OF assms] tx_good_view [OF v] by blast
  moreover have "rwe (upd_dtcp (\<lambda>t. t\<lparr>snd_lft_win := n + 1\<rparr>) ?a) = rwe s"
    using c a(1) by (auto simp: rwe_def the_dtcp_def)
  ultimately show ?thesis unfolding r using a by simp
qed

lemma update_window_ok:
  assumes "tx_good n0 M A ds q s" "cwq s = Some q" "pci_control_new_rt_wind_edge c \<le> M"
  shows "tx_ok n0 M A ds (update_window_and_rate V c s)
    \<and> rwe (update_window_and_rate V c s) = pci_control_new_rt_wind_edge c
    \<and> (\<exists>q' ps. cwq (update_window_and_rate V c s) = Some q' \<and> q = ps @ q' \<and> passed s ps (update_window_and_rate V c s)
         \<and> (\<forall>du\<in>set ps. p_sn du \<le> pci_control_new_rt_wind_edge c))"
proof -
  note cf = good_config [OF assms(1), unfolded tx_config_def]
  define s1 where "s1 = upd_dtcp (\<lambda>t. t\<lparr>snd_rt_wind_edge := pci_control_new_rt_wind_edge c\<rparr>) s"
  have g1: "tx_good n0 M A ds q s1" unfolding s1_def by (rule good_rwe [OF assms(1,3)])
  have r1: "\<not> rate_based (dtcp_cfg (the_dtcp s1))" "rwe s1 = pci_control_new_rt_wind_edge c" "cwq s1 = Some q"
    using cf assms(2) by (simp_all add: s1_def rwe_def)
  define s2 where "s2 = (if rendezvous_sndr s1
    then s1\<lparr>rendezvous_sndr := False, rendezvous := rtimer_stop (rendezvous s1)\<rparr> else s1)"
  have v2: "view s2 = view s1" "cwq s2 = Some q" "rwe s2 = rwe s1" "passed s2 ps t = passed s ps t" for ps t
    using r1(3) by (simp_all add: s2_def s1_def rwe_def the_dtcp_def passed_def)
  have "update_window_and_rate V c s = fst (push_pdus_rmt V s2)"
    using cf r1(1) by (simp add: update_window_and_rate_def Let_def s1_def [symmetric] s2_def)
  hence "update_window_and_rate V c s = cwq_deliver V q s2" using v2(2) by (simp add: push_pdus_rmt_def)
  thus ?thesis using cwq_deliver_ok [of n0 M A ds q s2 V] tx_good_view [OF v2(1)] g1 r1(2) v2(3,4) by (auto simp: opened_def)
qed

lemma subseq_reversed: "subseq xs ys \<Longrightarrow> subseq (rev xs) (rev ys)"
  by (induction rule: list_emb.induct) (auto intro: subseq_rev_drop_many list_emb_append_mono)

lemma queue_resent_ok:
  assumes "tx_good n0 M A ds q s" "rtxq s = Some rq"
    and "resent es s (Some (es', s', gone))" "es = rq_entries rq \<and> ks = es' \<or> es = rev (rq_entries rq) \<and> ks = rev es'"
    and "rq_entries rq' = ks" "rq_len rq' = rq_len rq - int (length gone)"
    and "view t = view (s'\<lparr>rtxq := Some rq', given_up := given_up s' @ gone\<rparr>)"
  shows "tx_good n0 M A ds q t"
proof -
  obtain xs where x: "s' = s\<lparr>to_rmt := to_rmt s @ map (Pair True) xs\<rparr>" "subseq (map rt_du es') (map rt_du es)"
      "set (map rt_du es) = set (map rt_du es') \<union> set gone" "length es = length es' + length gone"
      "set xs \<subseteq> set (map rt_du es)"
    using assms(3) unfolding resent_def by blast
  have "subseq (map rt_du ks) (map rt_du (rq_entries rq))"
    using assms(4) x(2) subseq_reversed [of "map rt_du es'" "map rt_du es"] by (auto simp: rev_map [symmetric])
  moreover have "set (map rt_du (rq_entries rq)) = set (map rt_du ks) \<union> set gone"
      "length (rq_entries rq) = length ks + length gone" "set xs \<subseteq> set (map rt_du (rq_entries rq))"
    using assms(4) x(3-5) by (elim disjE; simp)+
  moreover have "view t = view (s\<lparr>rtxq := Some rq', to_rmt := to_rmt s @ map (Pair True) xs, given_up := given_up s @ gone\<rparr>)"
    unfolding assms(7) x(1) by (simp add: view_def)
  ultimately show ?thesis using good_requeued [OF assms(1,2)] assms(5,6) by blast
qed

subsection \<open>Control PDUs and timers\<close>

lemma ctrl_now_spec:
  assumes "dtp_mem d = []"
  shows "\<exists>t' d' r. ctrl_pdu_send ty (Some rmt) t d = Some (t', d', r) \<and> dtcp_cfg t' = dtcp_cfg t
    \<and> dtcp_ps t' = dtcp_ps t \<and> snd_rt_wind_edge t' = snd_rt_wind_edge t \<and> dtp_mem d' = []"
  using assms by (auto simp: ctrl_pdu_send_def pdu_ctrl_generate_def dtp_alloc_def Let_def split: prod.split option.split)

lemma send_ctrl_view:
  assumes "dtp_mem (base s) = []" "dtp_dtcp (base s) \<noteq> None"
  shows "view (fst (send_ctrl_now V ty s)) = view s \<and> cwq (fst (send_ctrl_now V ty s)) = cwq s"
proof -
  obtain t where t: "dtp_dtcp (base s) = Some t" using assms(2) by auto
  let ?t = "(the_dtcp s)\<lparr>cpdus_in_transit := cpdus_in_transit (the_dtcp s) + 1\<rparr>"
  obtain t' d' r where "ctrl_pdu_send ty (Some (rmt_ctrl_result V)) ?t (base s) = Some (t', d', r)"
      "dtcp_cfg t' = dtcp_cfg ?t" "dtcp_ps t' = dtcp_ps ?t" "snd_rt_wind_edge t' = snd_rt_wind_edge ?t" "dtp_mem d' = []"
    using ctrl_now_spec [OF assms(1)] by blast
  thus ?thesis using t assms(1) by (simp add: send_ctrl_now_def view_def the_dtcp_def)
qed

lemma ok_config: "tx_ok n0 M A ds s \<Longrightarrow> tx_config s"
  by (auto simp: tx_ok_def tx_good_def)

lemma rcvr_rendezvous_ok:
  assumes "tx_ok n0 M A ds s"
  shows "tx_ok n0 M A ds (fst (default_rcvr_rendezvous V c s))"
proof -
  note cf = ok_config [OF assms, unfolded tx_config_def]
  define s1 where "s1 = (if sv_window_based s
    then upd_dtcp (\<lambda>t. t\<lparr>rcvr_rt_wind_edge := pci_control_my_left_wind_edge c + rcvr_credit t\<rparr>) s else s)"
  define s2 where "s2 = upd_dtcp (\<lambda>t. t\<lparr>rendezvous_rcvr := True\<rparr>) s1"
  define s3 where "s3 = (if rcvr_credit (the_dtcp s2) \<noteq> 0
    then upd_dtcp (\<lambda>t. t\<lparr>rendezvous_rcv := rtimer_start (clock V) (rendezvous_rcv t)
           (jiffies_to_msecs V (ucast (sv_tr s2)))\<rparr>) s2 else s2)"
  have v: "view s3 = view s" "cwq s3 = cwq s"
    by (simp_all add: s3_def s2_def s1_def view_upd_dtcp)
  have "fst (default_rcvr_rendezvous V c s) = fst (send_ctrl_now V PDU_TYPE_FC s3)"
    by (simp only: default_rcvr_rendezvous_def Let_def s3_def s2_def s1_def)
  moreover have "dtp_mem (base s3) = []" "dtp_dtcp (base s3) \<noteq> None"
    using v(1) cf by (auto simp: view_def)
  ultimately show ?thesis using assms v send_ctrl_view [of s3 V PDU_TYPE_FC]
    by (metis tx_ok_view)
qed

lemma rcv_nack_ok:
  assumes "tx_ok n0 M A ds s"
  shows "\<exists>s' r. rcv_nack_ctl V c s = Some (s', r) \<and> tx_ok n0 M A ds s'"
proof -
  obtain q where q: "cwq s = Some q" "tx_good n0 M A ds q s" "q \<noteq> [] \<longrightarrow> rwe s \<le> max_seq_nr_sent s"
    using assms by (auto simp: tx_ok_def)
  note cf = good_config [OF q(2), unfolded tx_config_def]
  obtain rq where rq: "rtxq s = Some rq" using good_rtxq [OF q(2)] by blast
  let ?n = "pci_control_ack_seq_num c"
  let ?res = "nack_loop V ?n (data_retransmit_max s) (rev (rq_entries rq)) s"
  have re: "resent (rev (rq_entries rq)) s ?res" using nack_loop_resent cf by blast
  then obtain es xs gone where l: "?res = Some (es, s\<lparr>to_rmt := to_rmt s @ map (Pair True) xs\<rparr>, gone)"
    unfolding resent_def by blast
  let ?s1 = "s\<lparr>to_rmt := to_rmt s @ map (Pair True) xs\<rparr>"
  let ?rq = "rq\<lparr>rq_entries := rev es, rq_len := rq_len rq - int (length gone),
    rq_drop_pdus := rq_drop_pdus rq + int (length gone)\<rparr>"
  define s2 where "s2 = ?s1\<lparr>rtxq := Some ?rq, given_up := given_up s @ gone,
    rtx_timer := rtimer_restart (clock V) (rtx_timer s) (sv_tr s)\<rparr>"
  have good: "tx_good n0 M A ds q s2"
    by (rule queue_resent_ok [OF q(2) rq re [unfolded l]]) (auto simp: s2_def view_def)
  have run: "rcv_nack_ctl V c s = Some (fst (default_rtt_estimator V ?n s2), 0)"
    using cf rq l by (simp add: rcv_nack_ctl_def rtxq_nack_def s2_def)
  have "tx_ok n0 M A ds s2" using good q(1,3) by (auto simp: tx_ok_def s2_def rwe_def the_dtcp_def)
  thus ?thesis using run tx_ok_view [of "fst (default_rtt_estimator V ?n s2)" s2] by simp
qed

lemma rtx_timer_ok:
  assumes "tx_ok n0 M A ds s"
  shows "\<exists>s'. rtx_timer_func V s = Some s' \<and> tx_ok n0 M A ds s'"
proof -
  let ?s = "s\<lparr>rtx_timer := None\<rparr>"
  have "tx_ok n0 M A ds ?s" using assms tx_ok_view [of ?s s] by simp
  then obtain q where q: "cwq ?s = Some q" "tx_good n0 M A ds q ?s" "q \<noteq> [] \<longrightarrow> rwe ?s \<le> max_seq_nr_sent ?s"
    by (auto simp: tx_ok_def)
  note cf = good_config [OF q(2), unfolded tx_config_def]
  obtain rq where rq: "rtxq ?s = Some rq" using good_rtxq [OF q(2)] by blast
  let ?res = "rtx_loop V (sv_tr s) (data_retransmit_max s) (rq_entries rq) ?s"
  have re: "resent (rq_entries rq) ?s ?res" using rtx_loop_resent cf by blast
  then obtain es xs gone where l: "?res = Some (es, ?s\<lparr>to_rmt := to_rmt ?s @ map (Pair True) xs\<rparr>, gone)"
    unfolding resent_def by blast
  let ?s1 = "?s\<lparr>to_rmt := to_rmt ?s @ map (Pair True) xs\<rparr>"
  let ?n = "int (length gone)"
  let ?rq = "rq\<lparr>rq_entries := es, rq_len := rq_len rq - ?n, rq_drop_pdus := rq_drop_pdus rq + ?n\<rparr>"
  define s2 where "s2 = ?s1\<lparr>rtxq := Some ?rq, given_up := given_up ?s1 @ gone\<rparr>"
  have good: "tx_good n0 M A ds q s2"
    by (rule queue_resent_ok [OF q(2) rq re [unfolded l]]) (auto simp: s2_def view_def)
  have ok2: "tx_ok n0 M A ds s2" using good q(1,3) by (auto simp: tx_ok_def s2_def rwe_def the_dtcp_def)
  obtain s3 where s3: "rtxqueue_rtx V (sv_tr s) (data_retransmit_max s) ?s = Some s3" "view s3 = view s2" "cwq s3 = cwq s2"
  proof -
    let ?d = "fold (\<lambda>du m. if p_sn du > m then p_sn du else m) gone 0"
    let ?m = "if snd_lft_win (the_dtcp s2) < ?d then upd_dtcp (\<lambda>t. t\<lparr>snd_lft_win := ?d\<rparr>) s2 else s2"
    have m: "view ?m = view s2" "cwq ?m = cwq s2" by (simp_all add: view_upd_dtcp)
    have run: "rtxqueue_rtx V (sv_tr s) (data_retransmit_max s) ?s = Some (if gone = [] then s2
        else if rq_len rq - ?n = 0 \<and> cwq_size ?m = uint (max_closed_winq_length ?m) \<and> \<not> rendezvous_sndr ?m
             then start_rendezvous V ?m else ?m)"
      unfolding rtxqueue_rtx_def rq using l by (simp only: option.case prod.case Let_def s2_def)
    have "cwq (start_rendezvous V ?m) = cwq s2" using m(2) by (simp add: start_rendezvous_def)
    thus ?thesis using that run m by (auto split: if_splits)
  qed
  let ?s' = "if rq_entries (the (rtxq s3)) \<noteq> []
    then s3\<lparr>rtx_timer := rtimer_restart (clock V) (rtx_timer s3) (sv_tr s)\<rparr> else s3"
  have "rtx_timer_func V s = Some ?s'" by (simp add: rtx_timer_func_def s3(1))
  moreover have "view ?s' = view s2" "cwq ?s' = cwq s2" using s3(2,3) by simp_all
  ultimately show ?thesis using tx_ok_view ok2 by metis
qed

text \<open>
  What a sender is asked to do, and what it does, between two expirations of its inactivity timer
  (which drops what is queued and chooses a new number). The result is the state, whatever the call
  returns: a write returns an error when the RMT or the layer above refuses, but the PDU has been
  numbered and counts as sent or as waiting. \<open>None\<close> is a call that follows a null pointer.
\<close>

datatype tx_event = Write tx_env bytes | Control tx_env ctrl_pdu | Rtx_expires tx_env | Rendezvous_expires tx_env
  | Rendezvous_rcv_expires tx_env | Rate_expires tx_env

fun tx_step :: "tx_event \<Rightarrow> tx \<Rightarrow> tx option" where
  "tx_step (Write V data) s = map_option fst (dtp_write V data s)"
| "tx_step (Control V c) s = map_option fst (dtcp_common_rcv_control V c s)"
| "tx_step (Rtx_expires V) s = rtx_timer_func V s"
| "tx_step (Rendezvous_expires V) s = tf_rendezvous V s"
| "tx_step (Rendezvous_rcv_expires V) s = Some (tf_rendezvous_rcv V s)"
| "tx_step (Rate_expires V) s = tf_rate_window V s"

fun tx_run :: "tx_event list \<Rightarrow> tx \<Rightarrow> tx option" where
  "tx_run [] s = Some s"
| "tx_run (ev # evs) s = Option.bind (tx_step ev s) (tx_run evs)"

fun written :: "tx_event list \<Rightarrow> bytes list" where
  "written [] = []"
| "written (Write V data # evs) = data # written evs"
| "written (_ # evs) = written evs"

text \<open>No right edge beyond \<open>M\<close> and no acknowledgement beyond \<open>A\<close>; the header of a data PDU has a size.\<close>

fun peer_within :: "u32 \<Rightarrow> u32 \<Rightarrow> tx_event \<Rightarrow> bool" where
  "peer_within M A (Write V data) \<longleftrightarrow> encap_ok V"
| "peer_within M A (Control V c) \<longleftrightarrow>
    (c_type c \<in> {PDU_TYPE_FC, PDU_TYPE_ACK_AND_FC} \<longrightarrow> pci_control_new_rt_wind_edge c \<le> M)
    \<and> (c_type c \<in> {PDU_TYPE_ACK, PDU_TYPE_ACK_AND_FC} \<longrightarrow> pci_control_ack_seq_num c \<le> A)"
| "peer_within M A _ \<longleftrightarrow> True"

lemma rcv_ack_ok:
  assumes "tx_ok n0 M A ds s" "pci_control_ack_seq_num c \<le> A"
  shows "tx_ok n0 M A ds (fst (rcv_ack V c s))"
proof -
  note cf = ok_config [OF assms(1), unfolded tx_config_def]
  let ?s = "fst (default_rtt_estimator V (pci_control_ack_seq_num c) s)"
  have ok: "tx_ok n0 M A ds ?s" using assms(1) tx_ok_view [of ?s s] by simp
  then obtain q where q: "cwq ?s = Some q" "tx_good n0 M A ds q ?s" "q \<noteq> [] \<longrightarrow> rwe ?s \<le> max_seq_nr_sent ?s"
    by (auto simp: tx_ok_def)
  have "tx_ok n0 M A ds (fst (default_sender_ack V (pci_control_ack_seq_num c) ?s))"
    using sender_ack_good [OF q(2) assms(2), of V] q(1,3) by (auto simp: tx_ok_def)
  thus ?thesis using ok cf by (simp add: rcv_ack_def case_prod_beta)
qed

lemma rcv_ack_fc_ok:
  assumes "tx_ok n0 M A ds s" "pci_control_ack_seq_num c \<le> A" "pci_control_new_rt_wind_edge c \<le> M"
  shows "tx_ok n0 M A ds (fst (rcv_ack_and_flow_ctl V c s))"
proof -
  note cf = ok_config [OF assms(1), unfolded tx_config_def]
  let ?s = "fst (default_rtt_estimator V (pci_control_ack_seq_num c) s)"
  have ok: "tx_ok n0 M A ds ?s" using assms(1) tx_ok_view [of ?s s] by simp
  then obtain q where q: "cwq ?s = Some q" "tx_good n0 M A ds q ?s" by (auto simp: tx_ok_def)
  let ?a = "fst (default_sender_ack V (pci_control_ack_seq_num c) ?s)"
  have "tx_ok n0 M A ds (update_window_and_rate V c ?a)"
    using sender_ack_good [OF q(2) assms(2), of V] q(1) update_window_ok [of n0 M A ds q ?a c V] assms(3) by simp
  thus ?thesis using ok cf by (simp add: rcv_ack_and_flow_ctl_def case_prod_beta)
qed

lemma rcv_fc_ok:
  assumes "tx_ok n0 M A ds s" "pci_control_new_rt_wind_edge c \<le> M"
  shows "tx_ok n0 M A ds (fst (rcv_flow_ctl V c s))"
proof -
  note cf = ok_config [OF assms(1), unfolded tx_config_def]
  let ?s = "upd_base (\<lambda>d. d\<lparr>rttq := map_option (rttq_drop (pci_control_new_rt_wind_edge c - sndr_credit s)) (rttq d)\<rparr>) s"
  have "view ?s = view s" by (rule view_base) simp_all
  moreover have "cwq ?s = cwq s" by simp
  ultimately obtain q where "cwq ?s = Some q" "tx_good n0 M A ds q ?s"
    using assms(1) tx_good_view [of ?s s] by (auto simp: tx_ok_def)
  hence "tx_ok n0 M A ds (update_window_and_rate V c ?s)" using update_window_ok assms(2) by blast
  thus ?thesis using cf by (simp add: rcv_flow_ctl_def Let_def)
qed

lemma rcv_control_ok:
  assumes "tx_ok n0 M A ds s" "peer_within M A (Control V c)"
  shows "\<exists>s' r. dtcp_common_rcv_control V c s = Some (s', r) \<and> tx_ok n0 M A ds s'"
proof -
  note cf = ok_config [OF assms(1), unfolded tx_config_def]
  define s1 where "s1 = upd_dtcp (\<lambda>t. t\<lparr>cpdus_in_transit := cpdus_in_transit t + 1\<rparr>) s"
  have s1: "tx_ok n0 M A ds s1" using assms(1) tx_ok_view [of s1 s] by (simp add: s1_def view_upd_dtcp)
  show ?thesis
  proof (cases "c_sn c \<le> last_rcv_ctl_seq (the_dtcp s1)")
    case True
    hence "dtcp_common_rcv_control V c s = Some (count_duplicate c s1, 0)"
      using cf by (simp add: dtcp_common_rcv_control_def Let_def s1_def)
    moreover have "cwq (count_duplicate c s1) = cwq s1" by (simp add: count_duplicate_def split: pdu_type.split)
    ultimately show ?thesis using s1 tx_ok_view [of "count_duplicate c s1" s1] by simp
  next
    case False
    define s2 where "s2 = upd_dtcp (\<lambda>t. t\<lparr>last_rcv_ctl_seq := c_sn c\<rparr>) s1"
    have s2: "tx_ok n0 M A ds s2" using s1 tx_ok_view [of s2 s1] by (simp add: s2_def view_upd_dtcp)
    define res where "res = (case c_type c of PDU_TYPE_ACK \<Rightarrow> Some (rcv_ack V c s2) | PDU_TYPE_NACK \<Rightarrow> rcv_nack_ctl V c s2
      | PDU_TYPE_FC \<Rightarrow> Some (rcv_flow_ctl V c s2) | PDU_TYPE_ACK_AND_FC \<Rightarrow> Some (rcv_ack_and_flow_ctl V c s2)
      | PDU_TYPE_RENDEZVOUS \<Rightarrow> Some (default_rcvr_rendezvous V c s2) | _ \<Rightarrow> Some (s2, -1))"
    have "\<exists>s3 r. res = Some (s3, r) \<and> tx_ok n0 M A ds s3"
      using rcv_ack_ok [OF s2, of c V] rcv_nack_ok [OF s2, of V c] rcv_fc_ok [OF s2, of c V]
        rcv_ack_fc_ok [OF s2, of c V] rcvr_rendezvous_ok [OF s2, of V c] s2 assms(2)
      by (cases "c_type c") (auto simp: res_def intro: prod.collapse [symmetric])
    then obtain s3 r where s3: "res = Some (s3, r)" "tx_ok n0 M A ds s3" by blast
    let ?s4 = "upd_base dtp_send_pending_ctrl_pdus (upd_dtcp (\<lambda>t. t\<lparr>cpdus_in_transit := cpdus_in_transit t - 1\<rparr>) s3)"
    have "dtcp_common_rcv_control V c s = Some (?s4, r)"
      using cf False s3(1)
      by (simp add: dtcp_common_rcv_control_def Let_def s1_def [symmetric] s2_def [symmetric] res_def [symmetric])
    moreover have "view ?s4 = view s3"
    proof -
      have "view ?s4 = view (upd_dtcp (\<lambda>t. t\<lparr>cpdus_in_transit := cpdus_in_transit t - 1\<rparr>) s3)"
        by (rule view_base) (simp_all add: dtp_send_pending_ctrl_pdus_def split: prod.split)
      thus ?thesis by (simp add: view_upd_dtcp)
    qed
    ultimately show ?thesis using s3(2) tx_ok_view [of ?s4 s3] by simp
  qed
qed

lemma rendezvous_ok:
  assumes "tx_ok n0 M A ds s"
  shows "\<exists>s'. tf_rendezvous V s = Some s' \<and> tx_ok n0 M A ds s'"
proof -
  note cf = ok_config [OF assms, unfolded tx_config_def]
  let ?s = "s\<lparr>rendezvous := None\<rparr>"
  let ?c = "fst (dtcp_rendezvous_pdu_send V ?s)"
  have v: "view ?c = view s" "cwq ?c = cwq s"
    using send_ctrl_view [of ?s V PDU_TYPE_RENDEZVOUS] cf by (simp_all add: dtcp_rendezvous_pdu_send_def)
  have "tx_ok n0 M A ds ?s" "tx_ok n0 M A ds (?c\<lparr>rendezvous := tm\<rparr>)" for tm
    using assms v tx_ok_view [of ?s s] tx_ok_view [of "?c\<lparr>rendezvous := tm\<rparr>" s] by simp_all
  thus ?thesis using cf by (simp add: tf_rendezvous_def Let_def)
qed

lemma rendezvous_rcv_ok:
  assumes "tx_ok n0 M A ds s"
  shows "tx_ok n0 M A ds (tf_rendezvous_rcv V s)"
proof -
  note cf = ok_config [OF assms, unfolded tx_config_def]
  let ?s = "upd_dtcp (\<lambda>t. t\<lparr>rendezvous_rcv := None\<rparr>) s"
  have v: "view ?s = view s" "cwq ?s = cwq s" by (simp_all add: view_upd_dtcp)
  have "dtp_mem (base ?s) = []" "dtp_dtcp (base ?s) \<noteq> None" using v(1) cf by (auto simp: view_def)
  from send_ctrl_view [OF this, of V PDU_TYPE_FC]
  have "view (tf_rendezvous_rcv V s) = view s \<and> cwq (tf_rendezvous_rcv V s) = cwq s"
    using v by (simp add: tf_rendezvous_rcv_def Let_def view_upd_dtcp)
  thus ?thesis using assms tx_ok_view [of "tf_rendezvous_rcv V s" s] by simp
qed

lemma rate_window_ok:
  assumes "tx_ok n0 M A ds s"
  shows "\<exists>s'. tf_rate_window V s = Some s' \<and> tx_ok n0 M A ds s'"
proof -
  note cf = ok_config [OF assms, unfolded tx_config_def]
  define s1 where "s1 = upd_dtcp (\<lambda>t. t\<lparr>pdus_rcvd_in_time_unit := 0\<rparr>)
    (s\<lparr>rate_window := None, pdus_sent_in_time_unit := 0, last_time := now V, rate_fulfiled := False, write_enabled := True\<rparr>)"
  obtain q where q: "cwq s = Some q" "tx_good n0 M A ds q s" using assms by (auto simp: tx_ok_def)
  have v: "view s1 = view s" unfolding s1_def by (subst view_upd_dtcp) (simp_all add: view_def)
  have w: "cwq s1 = Some q" using q(1) by (simp add: s1_def)
  have "tf_rate_window V s = Some (cwq_deliver V q s1)"
    using cf w unfolding s1_def by (simp add: tf_rate_window_def Let_def)
  thus ?thesis using cwq_deliver_ok [of n0 M A ds q s1 V] tx_good_view [OF v] q(2) by blast
qed

lemma tx_step_ok:
  assumes "tx_ok n0 M A ds s" "peer_within M A ev" "unat n0 + length (ds @ written [ev]) < 2 ^ 32"
  shows "\<exists>s'. tx_step ev s = Some s' \<and> tx_ok n0 M A (ds @ written [ev]) s'"
proof (cases ev)
  case (Write V data)
  thus ?thesis using dtp_write_ok [OF assms(1), of V data] assms(2,3) by auto
next
  case (Control V c)
  thus ?thesis using rcv_control_ok [OF assms(1), of V c] assms(2) by auto
next
  case (Rtx_expires V)
  thus ?thesis using rtx_timer_ok [OF assms(1), of V] by simp
next
  case (Rendezvous_expires V)
  thus ?thesis using rendezvous_ok [OF assms(1), of V] by simp
next
  case (Rendezvous_rcv_expires V)
  thus ?thesis using rendezvous_rcv_ok [OF assms(1), of V] by simp
next
  case (Rate_expires V)
  thus ?thesis using rate_window_ok [OF assms(1), of V] by simp
qed

lemma written_Cons: "written (ev # evs) = written [ev] @ written evs"
  by (cases ev) simp_all

lemma tx_run_ok:
  "\<lbrakk>tx_ok n0 M A ds s; \<forall>ev\<in>set evs. peer_within M A ev; unat n0 + length (ds @ written evs) < 2 ^ 32\<rbrakk>
    \<Longrightarrow> \<exists>s'. tx_run evs s = Some s' \<and> tx_ok n0 M A (ds @ written evs) s'"
proof (induction evs arbitrary: ds s)
  case (Cons ev evs)
  obtain s1 where "tx_step ev s = Some s1" "tx_ok n0 M A (ds @ written [ev]) s1"
    using tx_step_ok [OF Cons.prems(1), of ev] Cons.prems(2,3) written_Cons [of ev evs] by auto
  moreover have "ds @ written (ev # evs) = (ds @ written [ev]) @ written evs" by (subst written_Cons) simp
  ultimately show ?case using Cons.IH [of "ds @ written [ev]" s1] Cons.prems(2,3) by (simp del: written.simps)
qed simp

subsection \<open>The effect of an acknowledgement with flow control\<close>

lemma timestamp_found:
  "\<lbrakk>sorted_wrt (<) (numbers es); e \<in> set es\<rbrakk>
    \<Longrightarrow> rtxqueue_entry_timestamp (p_sn (rt_du e)) es = (if rt_retries e \<noteq> 0 then 0 else rt_stamp e)"
proof (induction es)
  case (Cons a es)
  have s: "sorted_wrt (<) (numbers es)" "\<forall>x\<in>set es. p_sn (rt_du a) < p_sn (rt_du x)"
    using Cons.prems(1) by (auto simp: numbers_def)
  show ?case
  proof (cases "e = a")
    case False
    hence "e \<in> set es" using Cons.prems(2) by simp
    moreover have "p_sn (rt_du a) < p_sn (rt_du e)" using s(2) calculation by blast
    ultimately show ?thesis using Cons.IH [OF s(1)] by auto
  qed simp
qed simp

lemma good_waiting:
  assumes "tx_good n0 M A ds q s" "du \<in> set q"
  shows "max_seq_nr_sent s < p_sn du"
proof -
  have "numbered (max_seq_nr_sent s + 1) q" using assms(1) by (simp add: tx_good_def numbered_append algebra_simps)
  moreover have "unat (max_seq_nr_sent s) + length q < 2 ^ 32"
    using good_room [OF assms(1)] assms(1) unat_plus_nat [of n0 "length (first_sent s)"] by (simp add: tx_good_def)
  ultimately show ?thesis using numbered_range assms(2) by blast
qed

text \<open>An acknowledgement takes exactly the acknowledged entries out of the queue.\<close>

lemma entries_ack_filter:
  assumes "sorted_wrt (<) (numbers es)"
  shows "map rt_du (fst (entries_ack_dt n es)) = filter (\<lambda>du. n < p_sn du) (map rt_du es)"
  using assms
proof (induction es)
  case (Cons e es)
  have s: "sorted_wrt (<) (numbers es)" "\<forall>x\<in>set es. p_sn (rt_du e) < p_sn (rt_du x)"
    using Cons.prems by (auto simp: numbers_def)
  show ?case
  proof (cases "p_sn (rt_du e) \<le> n")
    case True
    thus ?thesis using Cons.IH [OF s(1)] by (simp add: not_less)
  next
    case False
    hence "\<forall>x\<in>set es. n < p_sn (rt_du x)" using s(2) by auto
    hence "filter (\<lambda>du. n < p_sn du) (map rt_du (e # es)) = map rt_du (e # es)"
      using False by (intro filter_True) auto
    thus ?thesis using False by simp
  qed
qed simp

lemma sender_ack_effect:
  assumes "tx_good n0 M A ds q s" "rtxq s = Some rq"
  shows "to_rmt (fst (default_sender_ack V n s)) = to_rmt s
    \<and> map_option (map rt_du \<circ> rq_entries) (rtxq (fst (default_sender_ack V n s))) = Some (filter (\<lambda>du. n < p_sn du) (map rt_du (rq_entries rq)))"
proof -
  have "sorted_wrt (<) (numbers (rq_entries rq))" using assms by (auto simp: tx_good_def rtxq_good_def)
  from entries_ack_filter [OF this, of n] show ?thesis
    using good_config [OF assms(1)] assms(2)
    by (cases "entries_ack_dt n (rq_entries rq)")
      (simp add: tx_config_def default_sender_ack_def rtxq_ack_dt_def rtxqueue_entries_ack_dt_def)
qed

text \<open>
  What an acknowledgement with flow control does to the queues: \<open>ps\<close> are the PDUs that waited and are
  sent, \<open>q\<close> those that go on waiting.
\<close>

definition ack_opens :: "u32 \<Rightarrow> u32 \<Rightarrow> tx \<Rightarrow> dt_pdu list \<Rightarrow> dt_pdu list \<Rightarrow> tx \<Rightarrow> bool" where
  "ack_opens n edge s ps q s' \<longleftrightarrow> cwq s = Some (ps @ q) \<and> cwq s' = Some q
     \<and> to_rmt s' = to_rmt s @ map (Pair False) ps
     \<and> map_option (map rt_du \<circ> rq_entries) (rtxq s')
         = map_option (\<lambda>rq. filter (\<lambda>du. n < p_sn du) (map rt_du (rq_entries rq)) @ ps) (rtxq s)
     \<and> (\<forall>du\<in>set ps. p_sn du \<le> edge) \<and> (\<forall>du\<in>set q. edge < p_sn du)"

lemma ack_opens_view:
  "\<lbrakk>view t = view s; cwq t = cwq s; view t' = view s'; cwq t' = cwq s'\<rbrakk> \<Longrightarrow> ack_opens n r t ps q t' = ack_opens n r s ps q s'"
  by (simp add: ack_opens_def view_def)

lemma ack_fc_effect:
  assumes "tx_ok n0 M A ds s" "pci_control_ack_seq_num c \<le> A" "pci_control_new_rt_wind_edge c \<le> M"
    and "rtxq s = Some rq" "e \<in> set (rq_entries rq)" "p_sn (rt_du e) = pci_control_ack_seq_num c"
    and "rt_retries e \<noteq> 0 \<or> (ucast (rt_stamp e) :: u32) \<noteq> - 1"
  shows "\<exists>s' ps q. rcv_ack_and_flow_ctl V c s = (s', 0) \<and> tx_ok n0 M A ds s' \<and> rwe s' = pci_control_new_rt_wind_edge c
    \<and> ack_opens (pci_control_ack_seq_num c) (pci_control_new_rt_wind_edge c) s ps q s'"
proof -
  let ?n = "pci_control_ack_seq_num c" and ?r = "pci_control_new_rt_wind_edge c"
  note cf = ok_config [OF assms(1), unfolded tx_config_def]
  obtain q0 where q0: "cwq s = Some q0" "tx_good n0 M A ds q0 s" using assms(1) by (auto simp: tx_ok_def)
  have "sorted_wrt (<) (numbers (rq_entries rq))" using q0(2) assms(4) by (auto simp: tx_good_def rtxq_good_def)
  hence "snd (default_rtt_estimator V ?n s) = 0"
    using timestamp_found [of "rq_entries rq" e] assms(4-7)
    by (auto simp: default_rtt_estimator_def rtxq_entry_timestamp_def Let_def)
  then obtain s1 where s1: "default_rtt_estimator V ?n s = (s1, 0)" by (metis prod.collapse)
  have v1: "view s1 = view s" "cwq s1 = Some q0"
    using estimator_view(1,2) [of V ?n s] s1 q0(1) by simp_all
  have g1: "tx_good n0 M A ds q0 s1" using q0(2) tx_good_view [OF v1(1)] by blast
  define a where "a = fst (default_sender_ack V ?n s1)"
  have a: "tx_good n0 M A ds q0 a" "cwq a = Some q0" using sender_ack_good [OF g1 assms(2)] v1(2) by (auto simp: a_def)
  have "rtxq s1 = Some rq" "to_rmt s1 = to_rmt s" using view_rest [OF v1(1)] assms(4) by simp_all
  with sender_ack_effect [OF g1, of rq V ?n] have ra: "to_rmt a = to_rmt s"
      "map_option (map rt_du \<circ> rq_entries) (rtxq a) = Some (filter (\<lambda>du. ?n < p_sn du) (map rt_du (rq_entries rq)))"
    by (simp_all add: a_def)
  let ?s' = "update_window_and_rate V c a"
  obtain q ps where u: "tx_ok n0 M A ds ?s'" "rwe ?s' = ?r" "cwq ?s' = Some q" "q0 = ps @ q" "passed a ps ?s'" "\<forall>du\<in>set ps. p_sn du \<le> ?r"
    using update_window_ok [OF a assms(3), of V] by blast
  have "?r < p_sn du" if "du \<in> set q" for du
    using u(1-3) that good_waiting [of n0 M A ds q ?s' du] by (fastforce simp: tx_ok_def)
  hence "ack_opens ?n ?r s ps q ?s'"
    using q0(1) u(3-6) ra assms(4) by (cases "rtxq a") (auto simp: ack_opens_def passed_def)
  moreover have "rcv_ack_and_flow_ctl V c s = (?s', 0)"
    using cf s1 by (simp add: rcv_ack_and_flow_ctl_def a_def)
  ultimately show ?thesis using u(1,2) by blast
qed

subsection \<open>A new sender\<close>

definition tx_started :: "u32 \<Rightarrow> tx \<Rightarrow> bool" where
  "tx_started n0 s \<longleftrightarrow> tx_config s \<and> seq_nr_to_send s = n0 \<and> max_seq_nr_sent s = n0 \<and> cwq s = Some []
     \<and> map_option rq_entries (rtxq s) = Some [] \<and> map_option rq_len (rtxq s) = Some 0
     \<and> to_rmt s = [] \<and> acked s = [] \<and> given_up s = []"

lemma u32_below: "unat (n :: u32) < 2 ^ 32"
  using unsigned_less [where w = n and 'b = 32] by simp

lemma started_good: "\<lbrakk>tx_started n0 s; n0 \<le> M; rwe s \<le> M\<rbrakk> \<Longrightarrow> tx_good n0 M A [] [] s"
  using u32_below [of n0] by (auto simp: tx_started_def tx_good_def first_sent_def rtxq_good_def numbers_def)

lemma started_ok: "\<lbrakk>tx_started n0 s; n0 \<le> M; rwe s \<le> M\<rbrakk> \<Longrightarrow> tx_ok n0 M A [] s"
  using started_good by (auto simp: tx_ok_def tx_started_def)

text \<open>The state that the initialisation of the two state vectors leaves.\<close>

lemma sv_init_started:
  assumes "dtp_dtcp (base s) = Some t" "dtcp_cfg t = dtcp_ps t" "flow_ctrl (dtcp_ps t)" "window_based (dtcp_ps t)"
    and "\<not> rate_based (dtcp_ps t)" "rtx_ctrl (dtcp_ps t)" "dtp_mem (base s) = []"
    and "cwq s = Some []" "rtxq s = Some \<lparr>rq_len = 0, rq_drop_pdus = 0, rq_entries = []\<rparr>"
    and "to_rmt s = []" "acked s = []" "given_up s = []"
  shows "(\<lambda>s'. tx_started (seq_nr_to_send s) s' \<and> rwe s' = initial_credit s + seq_nr_to_send s)
    (dtp_sv_init True True False mpl a r tr (dtcp_sv_init sr tp s))"
  using assms
  by (simp add: tx_started_def tx_config_def dtp_sv_init_def dtcp_sv_init_def the_dtcp_def upd_dtcp_def upd_base_def
        rwe_def Let_def)

text \<open>Writing while the window is open.\<close>

lemma write_run:
  assumes "tx_good n0 M A ds [] s" "cwq s = Some []" "drf_flag s" "encap_ok V"
    and "unat n0 + length ds + length us \<le> unat (rwe s)"
  shows "\<exists>s' pdus. tx_run (map (Write V) us) s = Some s' \<and> to_rmt s' = to_rmt s @ map (Pair False) pdus
    \<and> numbered (seq_nr_to_send s + 1) pdus \<and> map p_data pdus = us \<and> (\<forall>p\<in>set pdus. p_drf p)"
  using assms(1-3,5)
proof (induction us arbitrary: ds s)
  case Nil
  show ?case by (intro exI [of _ s] exI [of _ "[]"]) simp
next
  case (Cons u us)
  obtain s1 du where d: "p_sn du = seq_nr_to_send s + 1" "p_data du = u" "drf_flag s \<longrightarrow> p_drf du"
      "view s1 = view (s\<lparr>seq_nr_to_send := seq_nr_to_send s + 1\<rparr>)" "cwq s1 = cwq s" "to_rmt s1 = to_rmt s"
      "drf_flag s1 = drf_flag s"
      "dtp_write V u s = (if rwe s < p_sn du then dtp_write_closed V du s1 else dtp_write_open V du s1)"
    using dtp_write_cases [OF good_config [OF Cons.prems(1)] assms(4)] by blast
  have small: "unat n0 + length ds + 1 < 2 ^ 32" using Cons.prems(4) u32_below [of "rwe s"] by simp
  have g: "tx_good n0 M A (ds @ [u]) [du] s1" using write_numbered [OF Cons.prems(1) small d(1,2,4)] by simp
  have sn: "p_sn du = n0 + word_of_nat (length ds + 1)" using d(1) Cons.prems(1) by (simp add: tx_good_def algebra_simps)
  have un: "unat (p_sn du) = unat n0 + (length ds + 1)" unfolding sn by (rule unat_plus_nat) (use small in simp)
  have w: "p_sn du \<le> rwe s" using un Cons.prems(4) by (simp add: word_le_nat_alt)
  hence "p_sn du \<le> M" using Cons.prems(1) by (auto simp: tx_good_def)
  then obtain s2 r where s2: "dtp_write_open V du s1 = Some (s2, r)" "tx_good n0 M A (ds @ [u]) [] s2" "cwq s2 = cwq s1"
      "to_rmt s2 = to_rmt s1 @ [(False, du)]" "rwe s2 = rwe s1" "drf_flag s2 = drf_flag s1"
    using write_open_ok [OF g] by blast
  have "rwe s1 = rwe s"
  proof -
    have "rwe (s\<lparr>seq_nr_to_send := seq_nr_to_send s + 1\<rparr>) = rwe s" by (simp add: rwe_def the_dtcp_def)
    thus ?thesis using view_dtcp [OF d(4)] good_config [OF g] by (simp add: tx_config_def)
  qed
  hence room: "unat n0 + length (ds @ [u]) + length us \<le> unat (rwe s2)" using s2(5) Cons.prems(4) by simp
  obtain s' pdus where r: "tx_run (map (Write V) us) s2 = Some s'" "to_rmt s' = to_rmt s2 @ map (Pair False) pdus"
      "numbered (seq_nr_to_send s2 + 1) pdus" "map p_data pdus = us" "\<forall>p\<in>set pdus. p_drf p"
    using Cons.IH [OF s2(2) _ _ room] s2(3,6) d(5,7) Cons.prems(2,3) by auto
  have "seq_nr_to_send s2 = p_sn du" using s2(2) sn by (simp add: tx_good_def)
  moreover have "tx_run (map (Write V) (u # us)) s = Some s'" using d(8) w s2(1) r(1) by (simp add: not_less [symmetric])
  ultimately show ?case using r d s2(4) Cons.prems(3)
    by (intro exI [of _ s'] exI [of _ "du # pdus"]) simp
qed

lemma started_writes:
  assumes "tx_started n0 s" "drf_flag s" "encap_ok V" "unat n0 + length us \<le> unat (rwe s)"
  shows "\<exists>s' pdus. tx_run (map (Write V) us) s = Some s' \<and> to_rmt s' = map (Pair False) pdus
    \<and> numbered (n0 + 1) pdus \<and> map p_data pdus = us \<and> (\<forall>p\<in>set pdus. p_drf p)"
proof -
  have "n0 \<le> rwe s" using assms(4) by (simp add: word_le_nat_alt)
  hence "tx_good n0 (rwe s) 0 [] [] s" using started_good [OF assms(1)] by simp
  moreover have "cwq s = Some []" "seq_nr_to_send s = n0" "to_rmt s = []" using assms(1) by (simp_all add: tx_started_def)
  ultimately show ?thesis using write_run [OF _ _ assms(2,3), of n0 "rwe s" 0 "[]" us] assms(4) by simp
qed

subsection \<open>Properties\<close>

text \<open>A sender for the examples, as the initialisation leaves it: first number, credit.\<close>

definition tx_settings :: dtcp_settings where
  "tx_settings = \<lparr>flow_ctrl = True, window_based = True, rate_based = False, rtx_ctrl = True\<rparr>"

definition tx_blank :: "u32 \<Rightarrow> u32 \<Rightarrow> tx" where
  "tx_blank n credit =
    \<lparr>base = rx_example True 0 \<lparr>dtp_dtcp := Some (dtcp_example\<lparr>dtcp_cfg := tx_settings, dtcp_ps := tx_settings\<rparr>)\<rparr>,
     sv_tr = 0, seq_nr_to_send = n, max_seq_nr_sent = 0, drf_flag = True, window_closed = False, rate_fulfiled = False,
     sv_window_based = False, sv_rate_based = False, rexmsn_ctrl = False, err_pdus = 0, tx_pdus = 0, tx_bytes = 0,
     cwq = Some [], rtxq = Some \<lparr>rq_len = 0, rq_drop_pdus = 0, rq_entries = []\<rparr>, sndr_credit = 0, rcvr_rate = 0,
     pdus_sent_in_time_unit = 0, last_time = (0, 0), dup_acks = 0, dup_flow_ctl = 0, rtt = 0, srtt = 0, rttvar = 0,
     rendezvous_sndr = False, rate_window = None, rtx_timer = None, rendezvous = None, initial_credit = credit,
     max_closed_winq_length = 1, data_retransmit_max = 3, write_enabled = True, to_rmt = [], acked = [], given_up = [],
     lost = []\<rparr>"

definition tx_example :: "u32 \<Rightarrow> u32 \<Rightarrow> tx" where
  "tx_example n credit = dtp_sv_init True True False 10 5 10 50 (dtcp_sv_init 0 0 (tx_blank n credit))"

lemma tx_example_started [simp]: "tx_started n (tx_example n credit)" "rwe (tx_example n credit) = credit + n"
  using sv_init_started [of "tx_blank n credit" "dtcp_example\<lparr>dtcp_cfg := tx_settings, dtcp_ps := tx_settings\<rparr>" 10 5 10 50 0 0]
  by (simp_all add: tx_example_def tx_blank_def tx_settings_def rx_example_def)

lemma tx_example_drf [simp]: "drf_flag (tx_example n credit)"
  by (simp add: tx_example_def tx_blank_def dtp_sv_init_def dtcp_sv_init_def upd_base_def upd_dtcp_def Let_def)

definition tx_env_example :: "u64 \<Rightarrow> tx_env" where
  "tx_env_example tm = \<lparr>clock = env_example tm, now = (0, 0), jiffies_to_msecs = ucast, rmt_result = (\<lambda>_. 0),
     rmt_ctrl_result = (\<lambda>_. 0), switch_result = 0, random_bytes = 1, encap_ok = True\<rparr>"

definition ctrl_example :: "pdu_type \<Rightarrow> u32 \<Rightarrow> u32 \<Rightarrow> u32 \<Rightarrow> ctrl_pdu" where
  "ctrl_example ty sn ack edge = \<lparr>c_type = ty, c_sn = sn, c_ack = Some ack, c_new_lwe = Some ack, c_new_rwe = Some edge,
     c_my_lwe = Some 0, c_my_rwe = Some 0, c_rate = Some 0, c_time = Some 0, c_last_ctl = Some 0\<rparr>"

lemmas tx_examples = tx_env_example_def ctrl_example_def pci_control_ack_seq_num_def pci_control_new_rt_wind_edge_def

text \<open>Three writes into a window of two, retransmission, acknowledgements old and new.\<close>

definition events_example :: "tx_event list" where
  "events_example = [Write (tx_env_example 0) [1], Write (tx_env_example 1) [2], Write (tx_env_example 2) [3],
     Rtx_expires (tx_env_example 60), Control (tx_env_example 70) (ctrl_example PDU_TYPE_ACK_AND_FC 1 8 10),
     Control (tx_env_example 71) (ctrl_example PDU_TYPE_FC 1 0 9), Control (tx_env_example 72) (ctrl_example PDU_TYPE_NACK 2 0 0),
     Rendezvous_expires (tx_env_example 80), Rendezvous_rcv_expires (tx_env_example 81), Rate_expires (tx_env_example 82)]"

lemma events_example_within:
  "\<forall>ev\<in>set events_example. peer_within 10 8 ev" "written events_example = [[1], [2], [3]]"
  by (simp_all add: events_example_def tx_examples)



text \<open>
  The sender loses nothing: when the peer has acknowledged no number beyond \<open>A\<close>, every PDU beyond
  \<open>A\<close> that was ever sent is still in the retransmission queue, or was given up after the
  maximal number of retransmissions; the queue is sorted by number and its length counter agrees with it.
\<close>

lemma sender_keeps_until_acked:
  assumes "tx_started n0 s" "\<forall>ev\<in>set evs. peer_within M A ev" "n0 \<le> M" "rwe s \<le> M"
    and "unat n0 + length (written evs) < 2 ^ 32"
  shows "\<exists>s' rq. tx_run evs s = Some s' \<and> rtxq s' = Some rq \<and> sorted_wrt (<) (numbers (rq_entries rq))
    \<and> rq_len rq = int (length (rq_entries rq))
    \<and> (\<forall>x\<in>set (to_rmt s'). A < p_sn (snd x) \<longrightarrow> snd x \<in> set (given_up s') \<union> set (map rt_du (rq_entries rq)))"
proof -
  obtain s' q where r: "tx_run evs s = Some s'" "tx_good n0 M A (written evs) q s'"
    using tx_run_ok [OF started_ok [OF assms(1,3,4)] assms(2)] assms(5) by (auto simp: tx_ok_def)
  obtain rq where rq: "rtxq_good s' rq" using r(2) by (auto simp: tx_good_def)
  have "snd x \<in> set (given_up s') \<union> set (map rt_du (rq_entries rq))" if "x \<in> set (to_rmt s')" "A < p_sn (snd x)" for x
  proof -
    have "snd x \<in> set (acked s') \<union> set (given_up s') \<union> set (map rt_du (rq_entries rq))"
      using r(2) rq that(1) unfolding tx_good_def rtxq_good_def by blast
    moreover have "snd x \<notin> set (acked s')" using r(2) that(2) by (auto simp: tx_good_def)
    ultimately show ?thesis by blast
  qed
  thus ?thesis using r(1) rq by (auto simp: rtxq_good_def)
qed



text \<open>A window of one PDU: PDU 8 is sent and not acknowledged, PDU 9 waits.\<close>

definition tx_waiting :: tx where
  "tx_waiting = (tx_example 7 1)\<lparr>seq_nr_to_send := 9, max_seq_nr_sent := 8, cwq := Some [pdu_example 9],
     rtxq := Some \<lparr>rq_len = 1, rq_drop_pdus = 0, rq_entries = [\<lparr>rt_stamp = 0, rt_du = pdu_example 8, rt_retries = 0\<rparr>]\<rparr>,
     to_rmt := [(False, pdu_example 8)]\<rparr>"

lemma tx_waiting_simps:
  "rtxq tx_waiting = Some \<lparr>rq_len = 1, rq_drop_pdus = 0, rq_entries = [\<lparr>rt_stamp = 0, rt_du = pdu_example 8, rt_retries = 0\<rparr>]\<rparr>"
  "last_rcv_ctl_seq (the_dtcp tx_waiting) = 0" "p_sn (pdu_example n) = n"
  by (simp_all add: tx_waiting_def tx_example_def tx_blank_def dtp_sv_init_def dtcp_sv_init_def upd_base_def upd_dtcp_def
      the_dtcp_def Let_def dtcp_example_def rx_example_def pdu_example_def)

lemma tx_waiting_ok: "tx_ok 7 10 10 [p_data (pdu_example 8), p_data (pdu_example 9)] tx_waiting"
  using tx_example_started [of 7 1]
  by (auto simp: tx_waiting_def tx_ok_def tx_good_def tx_started_def tx_config_def rwe_def the_dtcp_def first_sent_def
      rtxq_good_def numbers_def pdu_example_def)

text \<open>
  C11. An acknowledgement with flow control does what it says: exactly the PDUs up to the number it
  acknowledges leave the retransmission queue, the right window edge is the announced one, and the
  PDUs that waited and lie in the new window are handed to the RMT in order, each with a copy behind
  the retransmission queue, while those beyond the window go on waiting. The PDU it acknowledges is
  in the queue, with a time stamp whose lower half is not the value that stands for a missing one;
  there is window and retransmission control, no rate control, and memory does not run out.
\<close>

theorem ack_opens_window:
  assumes "tx_ok n0 M A ds s" "c_type c = PDU_TYPE_ACK_AND_FC" "last_rcv_ctl_seq (the_dtcp s) < c_sn c"
    and "pci_control_ack_seq_num c \<le> A" "pci_control_new_rt_wind_edge c \<le> M"
    and "rtxq s = Some rq" "e \<in> set (rq_entries rq)" "p_sn (rt_du e) = pci_control_ack_seq_num c"
    and "rt_retries e \<noteq> 0 \<or> (ucast (rt_stamp e) :: u32) \<noteq> - 1"
  shows "\<exists>s' rq' ps q. dtcp_common_rcv_control V c s = Some (s', 0) \<and> rwe s' = pci_control_new_rt_wind_edge c
    \<and> cwq s = Some (ps @ q) \<and> cwq s' = Some q \<and> to_rmt s' = to_rmt s @ map (Pair False) ps
    \<and> (\<forall>du\<in>set ps. p_sn du \<le> rwe s') \<and> (\<forall>du\<in>set q. rwe s' < p_sn du) \<and> rtxq s' = Some rq'
    \<and> map rt_du (rq_entries rq') = filter (\<lambda>du. pci_control_ack_seq_num c < p_sn du) (map rt_du (rq_entries rq)) @ ps"
proof -
  let ?n = "pci_control_ack_seq_num c" and ?r = "pci_control_new_rt_wind_edge c"
  note cf = ok_config [OF assms(1), unfolded tx_config_def]
  define s1 where "s1 = upd_dtcp (\<lambda>t. t\<lparr>last_rcv_ctl_seq := c_sn c\<rparr>)
    (upd_dtcp (\<lambda>t. t\<lparr>cpdus_in_transit := cpdus_in_transit t + 1\<rparr>) s)"
  have v1: "view s1 = view s" "cwq s1 = cwq s" "rtxq s1 = Some rq"
    using assms(6) by (simp_all add: s1_def view_upd_dtcp)
  have ok1: "tx_ok n0 M A ds s1" using assms(1) tx_ok_view [OF v1(1,2)] by blast
  obtain s2 ps q where s2: "rcv_ack_and_flow_ctl V c s1 = (s2, 0)" "tx_ok n0 M A ds s2" "rwe s2 = ?r" "ack_opens ?n ?r s1 ps q s2"
    using ack_fc_effect [OF ok1 assms(4,5) v1(3) assms(7-9)] by blast
  let ?s' = "upd_base dtp_send_pending_ctrl_pdus (upd_dtcp (\<lambda>t. t\<lparr>cpdus_in_transit := cpdus_in_transit t - 1\<rparr>) s2)"
  have run: "dtcp_common_rcv_control V c s = Some (?s', 0)"
    using cf assms(2,3) s2(1)
    by (simp add: dtcp_common_rcv_control_def Let_def not_le s1_def [symmetric])
  have v: "view ?s' = view s2"
    by (subst view_base) (simp_all add: view_upd_dtcp dtp_send_pending_ctrl_pdus_def split: prod.split)
  have d: "dtp_dtcp (base s2) \<noteq> None" using ok_config [OF s2(2)] by (simp add: tx_config_def)
  have r: "rwe ?s' = ?r" using view_dtcp [OF v [symmetric] d] s2(3) by simp
  have "ack_opens ?n ?r s1 ps q s2 = ack_opens ?n ?r s ps q ?s'"
    using v1(1,2) v by (intro ack_opens_view) simp_all
  hence o: "ack_opens ?n ?r s ps q ?s'" using s2(4) by simp
  obtain rq' where rq': "rtxq ?s' = Some rq'" using o assms(6) by (cases "rtxq ?s'") (auto simp: ack_opens_def)
  show ?thesis
    by (intro exI [of _ ?s'] exI [of _ rq'] exI [of _ ps] exI [of _ q] conjI)
      (use run r rq' o assms(6) in \<open>simp_all add: ack_opens_def\<close>)
qed

theorem ack_opens_window_witness:
  "\<exists>s' rq'. dtcp_common_rcv_control (tx_env_example 9) (ctrl_example PDU_TYPE_ACK_AND_FC 1 8 10) tx_waiting = Some (s', 0)
    \<and> rwe s' = 10 \<and> cwq s' = Some [] \<and> to_rmt s' = [(False, pdu_example 8), (False, pdu_example 9)]
    \<and> rtxq s' = Some rq' \<and> map rt_du (rq_entries rq') = [pdu_example 9]"
proof -
  obtain s' rq' ps q where r: "dtcp_common_rcv_control (tx_env_example 9) (ctrl_example PDU_TYPE_ACK_AND_FC 1 8 10) tx_waiting = Some (s', 0)"
      "rwe s' = 10" "cwq tx_waiting = Some (ps @ q)" "cwq s' = Some q" "to_rmt s' = to_rmt tx_waiting @ map (Pair False) ps"
      "\<forall>du\<in>set q. rwe s' < p_sn du" "rtxq s' = Some rq'" "map rt_du (rq_entries rq') = ps"
    using ack_opens_window [OF tx_waiting_ok, where c = "ctrl_example PDU_TYPE_ACK_AND_FC 1 8 10" and V = "tx_env_example 9"
        and e = "\<lparr>rt_stamp = 0, rt_du = pdu_example 8, rt_retries = 0\<rparr>"]
    by (auto simp: tx_examples tx_waiting_simps)
  have "ps @ q = [pdu_example 9]" using r(3) by (simp add: tx_waiting_def)
  hence "q = []" "ps = [pdu_example 9]" using r(2,6) tx_waiting_simps(3) [of 9] by (auto simp: Cons_eq_append_conv append_eq_Cons_conv)
  thus ?thesis using r by (simp add: tx_waiting_def)
qed

text \<open>
  A negative acknowledgement is without effect: the control PDU has no field for the number, so
  the reader of the field gives the largest number, and no PDU of the retransmission queue is
  sent again.
\<close>

lemma nack_retransmits_nothing:
  assumes "c_type c = PDU_TYPE_NACK" "rtx_ctrl (dtcp_ps (the_dtcp s))" "rtxq s = Some rq"
    and "\<forall>e\<in>set (rq_entries rq). p_sn (rt_du e) < - 1"
  shows "\<exists>s' r. rcv_nack_ctl V c s = Some (s', r) \<and> to_rmt s' = to_rmt s
    \<and> map_option rq_entries (rtxq s') = Some (rq_entries rq)"
proof -
  have "nack_loop V (- 1) mx (rev (rq_entries rq)) s = Some (rev (rq_entries rq), s, [])" for mx
  proof (cases "rev (rq_entries rq)")
    case (Cons e es)
    have "e \<in> set (rq_entries rq)" by (metis Cons list.set_intros(1) set_rev)
    thus ?thesis using assms(4) Cons by simp
  qed simp
  moreover have "to_rmt (fst (default_rtt_estimator V n x)) = to_rmt x"
      "rtxq (fst (default_rtt_estimator V n x)) = rtxq x" for n x
    by (simp_all add: default_rtt_estimator_def rtt_calculation_def Let_def split: prod.split)
  ultimately show ?thesis using assms(1-3)
    by (simp add: rcv_nack_ctl_def rtxq_nack_def pci_control_ack_seq_num_def)
qed

text \<open>
  Rate-based flow control loses data: when the bytes of the first PDU that waits reach the rate,
  the loop that empties the closed window queue ends after it took this PDU off the queue and before it
  sent it.
\<close>

lemma rate_limit_loses_pdu:
  assumes "dtp_dtcp (base s) = Some t" "flow_ctrl (dtcp_ps t)" "rate_based (dtcp_cfg t)" "\<not> rtx_ctrl (dtcp_ps t)"
    and "can_deliver V s = (True, s)" "rttq (base s) = None"
    and "sndr_rate t \<le> word_of_nat (length (p_data du)) + pdus_sent_in_time_unit s"
  shows "cwq (cwq_deliver V (du # q) s) = Some q \<and> to_rmt (cwq_deliver V (du # q) s) = to_rmt s
    \<and> lost (cwq_deliver V (du # q) s) = lost s @ [du]"
proof -
  have t: "the_dtcp s = t" using assms(1) by (simp add: the_dtcp_def)
  have "deliver_loop V (du # q) s = (q, (count_sent (length (p_data du)) s)\<lparr>lost := lost s @ [du]\<rparr>, False)"
    using assms(2-7) t by (simp add: keep_copy_def count_sent_def)
  thus ?thesis
    by (simp add: cwq_deliver_def Let_def dtp_start_rate_timer_def count_sent_def)
qed

end
