(* ===== verification/Rina_Network.thy ===== *)
theory Rina_Network
  imports Rina_Send
begin

section \<open>A DTP sender and a DTP receiver joined by a network\<close>

text \<open>
  The network between the two loses, duplicates and reorders PDUs. As long as no timer of the receiver
  and no inactivity timer of the sender expires, what the receiver hands up is a piece of what was
  written to the sender, without a gap, a repetition or an exchange; and when the control PDUs of the
  receiver travel back to the sender, no PDU behind the first that arrived leaves the sender before it was
  handed up, except one that is given up. The two sides are given as whole histories: what arrives is
  among what the other side sends, which every interleaving of the two satisfies.
\<close>

subsection \<open>Consecutive numbers determine a piece of a list\<close>

lemma numbered_segment:
  assumes "numbered n ps" "length ps < 2 ^ 32" "numbered (n + word_of_nat i) xs" "set xs \<subseteq> set ps" "i \<le> length ps"
  shows "xs = take (length xs) (drop i ps)"
  using assms(3-5)
proof (induction xs arbitrary: i)
  case (Cons x xs)
  obtain k where k: "k < length ps" "ps ! k = x" using Cons.prems(2) by (auto simp: in_set_conv_nth)
  have "n + word_of_nat k = n + word_of_nat i" using numbered_nth [OF assms(1) k(1)] k(2) Cons.prems(1) by simp
  hence "unat (word_of_nat k :: u32) = unat (word_of_nat i :: u32)" by simp
  hence "k mod 2 ^ 32 = i mod 2 ^ 32" by (simp add: unat_of_nat)
  hence ki: "k = i" using k(1) Cons.prems(3) assms(2) by simp
  have "xs = take (length xs) (drop (Suc i) ps)"
    by (rule Cons.IH) (use Cons.prems k(1) ki in \<open>auto simp: algebra_simps\<close>)
  moreover have "drop i ps = x # drop (Suc i) ps" using Cons_nth_drop_Suc k ki by metis
  ultimately show ?case by simp
qed simp

lemma numbered_piece:
  assumes "numbered n ps" "length ps < 2 ^ 32" "x \<in> set ps" "numbered (p_sn x) (x # xs)" "set xs \<subseteq> set ps"
  shows "\<exists>pre post. ps = pre @ x # xs @ post \<and> p_sn x = n + word_of_nat (length pre)"
proof -
  obtain i where i: "i < length ps" "ps ! i = x" using assms(3) by (auto simp: in_set_conv_nth)
  have "x # xs = take (length (x # xs)) (drop i ps)"
    by (rule numbered_segment [OF assms(1,2)]) (use assms(3-5) i numbered_nth [OF assms(1) i(1)] in auto)
  hence "ps = take i ps @ (x # xs) @ drop (length (x # xs)) (drop i ps)" by (metis append_take_drop_id)
  moreover have "p_sn x = n + word_of_nat (length (take i ps))" using numbered_nth [OF assms(1) i(1)] i by simp
  ultimately show ?thesis by (metis append_Cons)
qed

subsection \<open>What the receiver acknowledges\<close>

definition ack_is :: "u32 \<Rightarrow> ctrl_pdu \<Rightarrow> bool" where
  "ack_is n c \<longleftrightarrow> (c_type c \<in> {PDU_TYPE_ACK, PDU_TYPE_ACK_AND_FC} \<longrightarrow> pci_control_ack_seq_num c = n)"

text \<open>The control PDUs sent between two states, all with the left window edge of the later one.\<close>

definition acks_edge :: "dtp \<Rightarrow> dtp \<Rightarrow> bool" where
  "acks_edge d d' \<longleftrightarrow> (\<exists>cs. sent d' = sent d @ cs \<and> (\<forall>c\<in>set cs. ack_is (rcv_left_window_edge d') c))"

lemma populate_ack:
  "\<lbrakk>populate_ctrl_pci t n c = (c', r); r = 0\<rbrakk> \<Longrightarrow> ack_is n c'"
  by (auto simp: populate_ctrl_pci_def ack_is_def Let_def pci_control_ack_seq_num_set_def pci_control_ack_seq_num_def
      pci_control_last_seq_num_rcvd_set_def split: pdu_type.splits if_splits)

lemma alloc_keeps: "dtp_alloc d = (ok, d') \<Longrightarrow> sent d' = sent d \<and> rcv_left_window_edge d' = rcv_left_window_edge d"
  by (auto simp: dtp_alloc_def split: list.splits)

lemma generate_ack:
  "pdu_ctrl_generate ty t d = (oc, t', d') \<Longrightarrow> sent d' = sent d \<and> (\<forall>c. oc = Some c \<longrightarrow> ack_is (rcv_left_window_edge d) c)"
  by (auto simp: pdu_ctrl_generate_def Let_def split: prod.splits if_splits dest!: alloc_keeps populate_ack)

lemma ctrl_queued:
  assumes "ring_ok (to_send d)" "dtcp_pdu_send c d = Some (d', r)"
  shows "sent d' = sent d \<and> set (ring_contents (to_send d')) \<subseteq> insert c (set (ring_contents (to_send d)))"
proof (cases "occupation (to_send d) < length (slots (to_send d))")
  case True
  thus ?thesis using ring_push [OF assms(1) True, of c] assms(2) by (auto simp: dtcp_pdu_send_def)
next
  case False
  thus ?thesis using assms(2) by (auto simp: dtcp_pdu_send_def ringq_push_def split: if_splits)
qed

text \<open>The queue of control PDUs after a step that sends nothing itself.\<close>

definition queues_acks :: "dtp \<Rightarrow> dtp \<Rightarrow> bool" where
  "queues_acks d d' \<longleftrightarrow> sent d' = sent d
     \<and> (\<forall>c\<in>set (ring_contents (to_send d')). c \<in> set (ring_contents (to_send d)) \<or> ack_is (rcv_left_window_edge d) c)"

lemma generated_queued:
  assumes "ring_ok (to_send d)" "pdu_ctrl_generate ty t d = (Some c, t', d1)" "dtcp_pdu_send c d1 = Some (d', r)"
  shows "queues_acks d d'"
proof -
  have g: "to_send d1 = to_send d" "sent d1 = sent d" "ack_is (rcv_left_window_edge d) c"
    using ctrl_generate_spec [OF assms(2)] generate_ack [OF assms(2)] by auto
  thus ?thesis using ctrl_queued [OF _ assms(3)] assms(1) by (auto simp: queues_acks_def)
qed

lemma generated_nothing: "pdu_ctrl_generate ty t d = (oc, t', d') \<Longrightarrow> queues_acks d d'"
  using ctrl_generate_spec generate_ack by (auto simp: queues_acks_def)

lemma queues_acks_refl [simp]: "queues_acks d d"
  by (simp add: queues_acks_def)

lemma sv_update_acks:
  assumes "ring_ok (to_send d)" "sv_update d = Some (d', r)"
  shows "queues_acks d d'"
proof -
  have "queues_acks d d1" if "dtcp_sv_update t d = Some (t', d1, r1)" for t t' d1 r1
    using that generated_queued [OF assms(1)] generated_nothing
    by (auto simp: dtcp_sv_update_def default_receiving_flow_control_def default_rcvr_ack_def ctrl_pdu_send_def
        dtcp_ack_flow_control_pdu_send_def Let_def split: if_splits option.splits prod.splits)
  moreover have "queues_acks d (d1\<lparr>dtp_dtcp := x\<rparr>) = queues_acks d d1" for d1 x by (simp add: queues_acks_def)
  ultimately show ?thesis using assms(2) by (auto simp: sv_update_def split: option.splits)
qed

lemma update_sends_edge:
  assumes "ring_ok (to_send d)" "ring_contents (to_send d) = []" "sv_update d = Some (d1, r)"
  shows "acks_edge d (dtp_send_pending_ctrl_pdus d1)"
proof (cases "dtp_dtcp d")
  case None
  thus ?thesis using assms ring_drain [OF assms(1)]
    by (auto simp: sv_update_def acks_edge_def dtp_send_pending_ctrl_pdus_def)
next
  case (Some t)
  have k: "only_dtcp d d1" using sv_update_spec [OF Some assms(1)] assms(3) by auto
  hence "ring_ok (to_send d1)" "rcv_left_window_edge d1 = rcv_left_window_edge d"
    using assms(1) by (simp_all add: only_dtcp_def core_def)
  thus ?thesis using sv_update_acks [OF assms(1,3)] assms(2) ring_drain [of "to_send d1"]
    by (auto simp: queues_acks_def acks_edge_def dtp_send_pending_ctrl_pdus_def)
qed

lemma deliver_ready_sends:
  "deliver_ready LWE d = Some d' \<Longrightarrow> sent d' = sent d \<and> to_send d' = to_send d"
proof (induction LWE d rule: deliver_ready.induct)
  case (1 LWE d)
  show ?case using 1
    by (subst (asm) (2) deliver_ready.simps) (fastforce simp: seq_queue_pop_def post_later_def split: if_splits list.splits option.splits prod.splits)
qed

lemma posting_sends: "(\<lambda>d'. sent d' = sent d \<and> rcv_left_window_edge d' = rcv_left_window_edge d) (post_collected E d)"
proof -
  have "(\<lambda>d'. sent d' = sent d \<and> rcv_left_window_edge d' = rcv_left_window_edge d)
      (fold (\<lambda>du d. stats_rx du (fst (pdu_post E du d))) dus d)" for dus d
    by (induction dus arbitrary: d) (auto simp: stats_rx_def pdu_post_def)
  thus ?thesis by (simp add: post_collected_def split: prod.split)
qed

lemma finish_sends:
  assumes "ring_ok (to_send d)" "ring_contents (to_send d) = []" "receive_finish E LWE d = Some (d', r)"
  shows "acks_edge d d'"
proof -
  obtain d1 d2 r2 where s: "deliver_ready LWE d = Some d1" "sv_update d1 = Some (d2, r2)"
    using assms(3) by (auto simp: receive_finish_def split: option.splits)
  have "sent d1 = sent d" "to_send d1 = to_send d" using deliver_ready_sends [OF s(1)] by simp_all
  moreover have "acks_edge d1 (dtp_send_pending_ctrl_pdus d2)"
    by (rule update_sends_edge [OF _ _ s(2)]) (use assms(1,2) calculation in simp_all)
  ultimately show ?thesis using assms(3) s posting_sends
    by (auto simp: receive_finish_def acks_edge_def Let_def)
qed

lemma push_ni_sends: "sent (fst (seq_queue_push_ni E du d)) = sent d"
proof -
  obtain ok d1 where a: "dtp_alloc d = (ok, d1)" by (metis surj_pair)
  thus ?thesis using alloc_keeps [OF a] by (simp add: seq_queue_push_ni_def Let_def split: seq_place.split)
qed

lemma receive_sends_edge:
  assumes "in_data_run d" "dtp_receive E du d = Some (d', r)"
  shows "acks_edge d d'"
proof (cases "p_sn du \<le> rcv_left_window_edge d \<or> \<not> window_allows (p_sn du) d")
  case True
  thus ?thesis using receive_refused [OF assms(1) True, of E] assms(2) by (auto simp: acks_edge_def)
next
  case False
  hence "rcv_left_window_edge d < p_sn du" "window_allows (p_sn du) d" by (simp_all add: not_le)
  then obtain d2 where d2: "receive_ordered E du d2 = Some (d', r)" "sent d2 = sent d" "in_data_run d2"
    using receive_accepted [OF assms(1)] assms(2) by metis
  have ok: "ring_ok (to_send d2)" "ring_contents (to_send d2) = []"
    using d2(3) by (simp_all add: in_data_run_def rx_ready_def rings_ok_def)
  have push: "sent (fst (seq_queue_push_ni E du d2)) = sent d" "to_send (fst (seq_queue_push_ni E du d2)) = to_send d2"
    using d2(2) push_ni_spec [where d = d2 and E = E and du = du] by (simp_all add: push_ni_sends)
  have "\<exists>d3 n. receive_finish E n d3 = Some (d', r) \<and> sent d3 = sent d \<and> to_send d3 = to_send d2"
    using d2 push
    by (auto simp: receive_ordered_finish post_later_def bind_eq_Some_conv split: if_splits option.splits prod.splits)
  thus ?thesis using finish_sends ok by (metis acks_edge_def)
qed

lemma first_sends_edge:
  assumes "rx_ready d" "drf_required d" "p_drf du" "dtp_receive E du d = Some (d', 0)"
  shows "acks_edge d d'"
proof -
  define d1 where "d1 = (dtp_squeue_flush (d\<lparr>receiver_inactivity := inactivity_after E d, drf_required := False,
      rcv_left_window_edge := p_sn du\<rparr>)) \<lparr>rttq := map_option (\<lambda>_. []) (rttq d)\<rparr>"
  have f: "sent d1 = sent d" "to_send d1 = to_send d" by (simp_all add: d1_def dtp_squeue_flush_def)
  obtain d2 where d2: "sv_update d1 = Some (d2, 0)"
      "d' = stats_rx du (fst (pdu_post E du (dtp_send_pending_ctrl_pdus d2)))"
    using assms(2-4)
    by (auto simp: dtp_receive_def receive_data_run_def Let_def d1_def inactivity_after_def dtp_squeue_flush_def
        split: option.splits if_splits)
  have "acks_edge d1 (dtp_send_pending_ctrl_pdus d2)"
    by (rule update_sends_edge [OF _ _ d2(1)]) (use assms(1) f(2) in \<open>simp_all add: rx_ready_def rings_ok_def\<close>)
  thus ?thesis using d2(2) f(1) by (simp add: acks_edge_def stats_rx_def pdu_post_def)
qed

text \<open>A whole run acknowledges only numbers at or before the left window edge at its end.\<close>

lemma receive_all_acks:
  assumes "in_data_run d" "length (seqq d) + length arr \<le> 1000" "dtp_receive_all arr d = Some d'"
  shows "\<exists>cs dus. sent d' = sent d @ cs \<and> posted d' = posted d @ dus
    \<and> (\<forall>c\<in>set cs. \<exists>k\<le>length dus. ack_is (rcv_left_window_edge d + word_of_nat k) c)"
  using assms
proof (induction arr arbitrary: d)
  case Nil
  thus ?case by simp
next
  case (Cons a arr)
  obtain E du where a: "a = (E, du)" by (cases a)
  obtain d1 dus1 where s: "dtp_receive E du d = Some (d1, 0)" "in_data_run d1" "length (seqq d1) \<le> Suc (length (seqq d))"
      "posted d1 = posted d @ dus1" "rcv_left_window_edge d1 = rcv_left_window_edge d + word_of_nat (length dus1)"
    using receive_step [OF Cons.prems(1), of E du] Cons.prems(2) by auto
  obtain cs1 where c1: "sent d1 = sent d @ cs1" "\<forall>c\<in>set cs1. ack_is (rcv_left_window_edge d1) c"
    using receive_sends_edge [OF Cons.prems(1) s(1)] by (auto simp: acks_edge_def)
  obtain cs2 dus2 where c2: "sent d' = sent d1 @ cs2" "posted d' = posted d1 @ dus2"
      "\<forall>c\<in>set cs2. \<exists>k\<le>length dus2. ack_is (rcv_left_window_edge d1 + word_of_nat k) c"
    using Cons.IH [OF s(2)] Cons.prems(2,3) s(1,3) a by auto
  have "\<exists>k\<le>length (dus1 @ dus2). ack_is (rcv_left_window_edge d + word_of_nat k) c" if m: "c \<in> set (cs1 @ cs2)" for c
  proof (cases "c \<in> set cs1")
    case True
    thus ?thesis using c1(2) s(5) by (intro exI [of _ "length dus1"]) simp
  next
    case False
    then obtain k where "k \<le> length dus2" "ack_is (rcv_left_window_edge d1 + word_of_nat k) c" using m c2(3) by auto
    thus ?thesis using s(5) by (intro exI [of _ "length dus1 + k"]) (simp add: algebra_simps)
  qed
  thus ?case using c1(1) c2(1,2) s(4) by (intro exI [of _ "cs1 @ cs2"] exI [of _ "dus1 @ dus2"]) simp
qed

subsection \<open>The closed loop\<close>

text \<open>The control PDUs a sender is given are among those in a list.\<close>

fun fed_by :: "ctrl_pdu list \<Rightarrow> tx_event \<Rightarrow> bool" where
  "fed_by cs (Write V data) \<longleftrightarrow> encap_ok V"
| "fed_by cs (Control V c) \<longleftrightarrow> c \<in> set cs"
| "fed_by cs _ \<longleftrightarrow> True"

lemma fed_within:
  assumes "fed_by cs ev" "\<forall>c\<in>set cs. c_type c \<in> {PDU_TYPE_ACK, PDU_TYPE_ACK_AND_FC} \<longrightarrow> pci_control_ack_seq_num c \<le> A"
  shows "peer_within (- 1) A ev"
  using assms by (cases ev) auto

lemma whole_run:
  assumes "rx_ready d" "drf_required d" "dtp_mem d = []" "dtp_dtcp d = Some t" "sv_A d \<noteq> 0" "posted d = []" "sent d = []"
    and "p_drf (snd first)" "length arr \<le> 1000"
  shows "\<exists>d' dus. dtp_receive_all (first # arr) d = Some d' \<and> posted d' = snd first # dus
    \<and> numbered (p_sn (snd first) + 1) dus \<and> set dus \<subseteq> snd ` set arr
    \<and> (\<forall>c\<in>set (sent d'). \<exists>k\<le>length dus. ack_is (p_sn (snd first) + word_of_nat k) c)"
proof -
  obtain E du where f: "first = (E, du)" by (cases first)
  obtain d1 where d1: "dtp_receive E du d = Some (d1, 0)" "rx_ready d1" "\<not> drf_required d1" "seqq d1 = []"
      "posted d1 = [du]" "rcv_left_window_edge d1 = p_sn du" "sv_A d1 = sv_A d" "dtp_dtcp d1 \<noteq> None"
    using receive_first [OF assms(1,2) _ assms(3,4), of du E] assms(6,8) f by auto
  have run: "in_data_run d1" using d1 assms(5) by (simp add: in_data_run_def)
  have len: "length (seqq d1) + length arr \<le> 1000" using d1(4) assms(9) by simp
  obtain d' dus where d': "dtp_receive_all arr d1 = Some d'" "posted d' = du # dus"
      "numbered (p_sn du + 1) dus" "set dus \<subseteq> snd ` set arr"
    using receive_all_numbered [OF run len] d1(4-6) by auto
  obtain cs where cs: "sent d' = sent d1 @ cs" "\<forall>c\<in>set cs. \<exists>k\<le>length dus. ack_is (p_sn du + word_of_nat k) c"
    using receive_all_acks [OF run len d'(1)] d1(5,6) d'(2) by auto
  have "p_drf du" using assms(8) f by simp
  hence "acks_edge d d1" using first_sends_edge [OF assms(1,2) _ d1(1)] by simp
  hence one: "\<forall>c\<in>set (sent d1). ack_is (p_sn du + word_of_nat 0) c" using d1(6) assms(7) by (simp add: acks_edge_def)
  have "\<forall>c\<in>set (sent d'). \<exists>k\<le>length dus. ack_is (p_sn du + word_of_nat k) c"
    unfolding cs(1) set_append ball_Un using one cs(2) by blast
  moreover have "dtp_receive_all (first # arr) d = Some d'" using f d1(1) d'(1) by simp
  ultimately show ?thesis using d' f by (intro exI [of _ d'] exI [of _ dus]) simp
qed

lemma beyond_acked:
  assumes "tx_good n0 M A ds q s" "rtxq_good s rq" "du \<in> set (first_sent s @ q)" "A < p_sn du"
  shows "du \<in> set q \<union> set (map rt_du (rq_entries rq)) \<union> set (given_up s)"
proof (cases "du \<in> set q")
  case False
  hence "du \<in> set (acked s) \<union> set (given_up s) \<union> set (map rt_du (rq_entries rq))"
    using assms(2,3) by (simp add: rtxq_good_def)
  moreover have "du \<notin> set (acked s)" using assms(1,4) by (auto simp: tx_good_def)
  ultimately show ?thesis by auto
qed simp

lemma acks_bounded:
  assumes "\<forall>c\<in>set cs. \<exists>k\<le>j. ack_is (n0 + word_of_nat i + word_of_nat k) c" "unat n0 + (i + j) < 2 ^ 32"
  shows "\<forall>c\<in>set cs. c_type c \<in> {PDU_TYPE_ACK, PDU_TYPE_ACK_AND_FC} \<longrightarrow> pci_control_ack_seq_num c \<le> n0 + word_of_nat (i + j)"
proof (intro ballI impI)
  fix c assume c: "c \<in> set cs" "c_type c \<in> {PDU_TYPE_ACK, PDU_TYPE_ACK_AND_FC}"
  obtain k where k: "k \<le> j" "ack_is (n0 + word_of_nat i + word_of_nat k) c" using assms(1) c(1) by blast
  have "pci_control_ack_seq_num c = n0 + word_of_nat (i + k)" using k(2) c(2) by (auto simp: ack_is_def algebra_simps)
  thus "pci_control_ack_seq_num c \<le> n0 + word_of_nat (i + j)"
    using unat_plus_nat [of n0 "i + k"] unat_plus_nat [of n0 "i + j"] assms(2) k(1) by (simp add: word_le_nat_alt)
qed

lemma later_numbers:
  assumes "numbered (n0 + 1) ps" "unat n0 + length ps < 2 ^ 32" "du \<in> set (drop m ps)"
  shows "n0 + word_of_nat m < p_sn du"
proof -
  obtain i where "i < length (drop m ps)" "du = drop m ps ! i" using assms(3) by (auto simp: in_set_conv_nth)
  hence "p_sn du = n0 + word_of_nat (Suc (m + i))" "Suc (m + i) \<le> length ps"
    using numbered_nth [OF assms(1), of "m + i"] by (simp_all add: algebra_simps)
  thus ?thesis using plus_nat_less [of n0 "Suc (m + i)" m] assms(2) by simp
qed

subsection \<open>Properties\<close>

text \<open>
  C9. A DTP connection over a network that loses, duplicates and reorders PDUs hands up, until the
  first timer of the receiver expires, a piece of what was written. The sender has window and
  retransmission control, no rate control and enough memory, and does any sequence of writes, control
  PDUs and timers but its inactivity timer, which starts a new numbering. At a new receiver, with DTCP
  and an A timer (A is not 0), PDUs arrive in any order and number, up to 1001 of them and before a
  timer of the receiver expires, each sent at least once and the first to arrive with the data run flag.
  Then no call of the receiver fails, and the data handed up begin with the PDU that arrived first and
  are consecutive data of the writes. (What was written before that PDU is lost to the receiver, as in
  the witness; after a timer of the receiver the order can be broken, see C39 and C40.)
\<close>

theorem dtp_connection_in_order:
  assumes "tx_started n0 s" "n0 \<le> M" "rwe s \<le> M" "\<forall>ev\<in>set evs. peer_within M A ev"
    and "unat n0 + length (written evs) < 2 ^ 32" "tx_run evs s = Some s'"
    and "rx_ready d" "drf_required d" "dtp_mem d = []" "dtp_dtcp d = Some t" "sv_A d \<noteq> 0" "posted d = []" "sent d = []"
    and "snd ` set (first # arr) \<subseteq> snd ` set (to_rmt s')" "p_drf (snd first)" "length arr \<le> 1000"
  shows "\<exists>d' pre post. dtp_receive_all (first # arr) d = Some d' \<and> posted d' \<noteq> [] \<and> hd (posted d') = snd first
    \<and> written evs = pre @ map p_data (posted d') @ post"
proof -
  obtain q where g: "tx_good n0 M A (written evs) q s'"
    using tx_run_ok [OF started_ok [OF assms(1-3)] assms(4)] assms(5,6) by (auto simp: tx_ok_def)
  let ?ps = "first_sent s' @ q"
  have ps: "map p_data ?ps = written evs" "numbered (n0 + 1) ?ps" "\<forall>x\<in>set (to_rmt s'). snd x \<in> set ?ps"
    using g by (auto simp: tx_good_def)
  have len: "length ?ps < 2 ^ 32" using arg_cong [OF ps(1), of length] assms(5) by simp
  have "snd ` set (to_rmt s') \<subseteq> set ?ps" using ps(3) by (simp add: image_subset_iff)
  hence sub: "snd ` set (first # arr) \<subseteq> set ?ps" by (rule order_trans [OF assms(14)])
  obtain d' dus where d': "dtp_receive_all (first # arr) d = Some d'" "posted d' = snd first # dus"
      "numbered (p_sn (snd first) + 1) dus" "set dus \<subseteq> snd ` set arr"
    using whole_run [OF assms(7-13,15,16)] by blast
  have "snd first \<in> set ?ps" "set dus \<subseteq> set ?ps" using sub order_trans [OF d'(4), of "set ?ps"] by simp_all
  hence "\<exists>pre post. ?ps = pre @ snd first # dus @ post"
    using numbered_piece [OF ps(2) len, of "snd first" dus] d'(3) by auto
  then obtain pre post where "?ps = pre @ (snd first # dus) @ post" by auto
  hence "written evs = map p_data pre @ map p_data (posted d') @ map p_data post"
    using ps(1) d'(2) by (metis map_append)
  thus ?thesis using d'(1,2) by auto
qed

lemma rx_example_sent [simp]: "sent (rx_example drf n) = []"
  by (simp add: rx_example_def)

text \<open>Three writes; the second PDU arrives first, then the first, the second again and the third.\<close>

theorem dtp_connection_in_order_witness:
  "\<exists>d' pre post. dtp_receive_all (map (\<lambda>n. (env_example 0, pdu_example n)) [9, 8, 9, 10]) (rx_example True 0) = Some d'
    \<and> posted d' \<noteq> [] \<and> hd (posted d') = pdu_example 9
    \<and> [[8], [9], [10]] = pre @ map p_data (posted d') @ post"
proof -
  let ?evs = "map (Write (tx_env_example 0)) [[8], [9], [10]]"
  have pre: "encap_ok (tx_env_example 0)" "unat (7 :: u32) + length [[8], [9], [10 :: u8]] \<le> unat (rwe (tx_example 7 5))"
    by (simp_all add: tx_env_example_def)
  obtain s' pdus where r: "tx_run ?evs (tx_example 7 5) = Some s'" "to_rmt s' = map (Pair False) pdus"
      "numbered (7 + 1) pdus" "map p_data pdus = [[8], [9], [10]]" "\<forall>p\<in>set pdus. p_drf p"
    using started_writes [OF tx_example_started(1) tx_example_drf pre] by (elim exE conjE)
  have "pdus = map pdu_example [8, 9, 10]"
    using r(3-5) by (auto simp: map_eq_Cons_conv pdu_example_def)
  hence sent: "snd ` set (to_rmt s') = {pdu_example 8, pdu_example 9, pdu_example 10}" using r(2) by simp
  have w: "written ?evs = [[8], [9], [10]]" by simp
  have "\<exists>d' pre post. dtp_receive_all ((env_example 0, pdu_example 9) # map (\<lambda>n. (env_example 0, pdu_example n)) [8, 9, 10])
        (rx_example True 0) = Some d' \<and> posted d' \<noteq> [] \<and> hd (posted d') = snd (env_example 0, pdu_example 9)
      \<and> written ?evs = pre @ map p_data (posted d') @ post"
    by (rule dtp_connection_in_order [OF tx_example_started(1) _ _ _ _ r(1), where M = 12 and A = 0 and t = dtcp_example])
       (unfold sent, simp_all add: tx_env_example_def pdu_example_def)
  thus ?thesis unfolding w by simp
qed


text \<open>
  The closed loop on an example: three PDUs are sent, the first arrives, its acknowledgement travels back.
\<close>

definition rx_loop :: dtp where
  "rx_loop = (rx_example True 0)\<lparr>dtp_dtcp := Some (dtcp_example\<lparr>dtcp_ps := (dtcp_ps dtcp_example)\<lparr>rtx_ctrl := True\<rparr>\<rparr>)\<rparr>"

definition loop_ack :: ctrl_pdu where
  "loop_ack = \<lparr>c_type = PDU_TYPE_ACK_AND_FC, c_sn = 1, c_ack = Some 8, c_new_lwe = Some 8, c_new_rwe = Some 108,
     c_my_lwe = Some 0, c_my_rwe = Some 100, c_rate = None, c_time = None, c_last_ctl = Some 0\<rparr>"

definition loop_events :: "tx_event list" where
  "loop_events = map (Write (tx_env_example 0)) [[8], [9], [10]] @ [Control (tx_env_example 5) loop_ack]"

lemma loop_received: "map_option sent (dtp_receive_all [(env_example 0, pdu_example 8)] rx_loop) = Some [loop_ack]"
  by code_simp

lemma loop_sent: "map_option to_rmt (tx_run loop_events (tx_example 7 5)) = Some (map (\<lambda>n. (False, pdu_example n)) [8, 9, 10])"
  by code_simp


end
