(* ===== verification/Spec2Isabelle.thy ===== *)
theory Spec2Isabelle
  imports Pep_Global Ccn_Store Rina_Ids Rina_Network
begin

section \<open>PEP-DNA: a verification development\<close>

text \<open>
  PEP-DNA is a Linux kernel module (\<open>src/pepdna/kmodule\<close>) that intercepts the TCP
  connections of clients and carries them over another network architecture: TCP itself,
  RINA flows, CCN, or MINIP, a small reliable protocol on Ethernet frames. A netfilter hook
  steals the first SYN of a client and allocates a connection instance for it; a work item opens
  the far side; the SYN is then given back to the stack, the client's connection is accepted
  and matched with its instance by a hash of its address, and socket callbacks queue the work
  items that forward data in both directions.

  \<^bold>\<open>Theories and sources.\<close> Each theory opens with a text that says more.

  \<^item> \<open>Pep_Prelude\<close>: machine integers, byte order, error codes, lemmas on lists.
  \<^item> \<open>Pep_Hash\<close> (\<open>hash.h\<close>, \<open>hash.c\<close>): the hash that identifies a connection.
  \<^item> \<open>Pep_Rtxq\<close> (\<open>minip.h\<close>, first part of \<open>minip.c\<close>): packets and the retransmission queue.
  \<^item> \<open>Pep_World\<close> (\<open>connection.h\<close>, \<open>server.h\<close>): the state of the module as the record
    \<open>world\<close>, the kernel services as the record \<open>kenv\<close>.
  \<^item> \<open>Pep_Conn\<close> (\<open>connection.c\<close>): allocation, lookup, reference counts, teardown.
  \<^item> \<open>Pep_Sock\<close> (\<open>tcp_utils.c\<close>): writing to a socket, options, addresses, identification.
  \<^item> \<open>Pep_Ready\<close> (callbacks of \<open>server.c\<close>, \<open>ccn.c\<close>, \<open>tcp_listen.c\<close>).
  \<^item> \<open>Pep_Minip\<close>, \<open>Pep_Minip_Flow\<close>, \<open>Pep_Minip_Recv\<close>, \<open>Pep_Minip_Net\<close> (\<open>minip.c\<close>): the
    sender, its properties, the handlers, and two proxies joined by a faulty network.
  \<^item> \<open>Pep_Netlink\<close> (\<open>netlink.c\<close>): messages to the flow allocator in user space.
  \<^item> \<open>Pep_Tcp\<close> (\<open>tcp.c\<close>, \<open>tcp_connect.c\<close>, \<open>tcp_listen.c\<close>): TCP forwarding, connecting,
    accepting.
  \<^item> \<open>Pep_Rina\<close> (\<open>rina.c\<close>) and \<open>Pep_Ccn\<close> (\<open>ccn.c\<close>): the other two architectures.
  \<^item> \<open>Ccn_Prefix\<close>, \<open>Ccn_Ndntlv\<close> (\<open>ccn-lite/src/ccnl-core/src/ccnl-prefix.c\<close>,
    \<open>ccnl-pkt/src/ccnl-pkt-ndntlv.c\<close>, \<open>ccnl-pkt-builder.c\<close>): the parts of CCN-lite the module
    includes: names and the composer of packets; \<open>Ccn_Parse\<close>: the relay's parser of the same format;
    \<open>Ccn_Request\<close>: the interest the module sends for a client's request.
  \<^item> \<open>Ccn_Relay\<close> (\<open>ccnl-relay.c\<close>, \<open>ccnl-interest.c\<close>, \<open>ccnl-content.c\<close>), \<open>Ccn_Forward\<close>
    (\<open>ccnl-fwd.c\<close>, \<open>ccnl-dispatch.c\<close>, \<open>ccnl-pkt-switch.c\<close>, \<open>ccnl-pkt-util.c\<close>): the CCN-lite relay the module talks to, its
    tables and its handlers. \<open>Ccn_Tables\<close>, \<open>Ccn_Invariant\<close>, \<open>Ccn_Events\<close>: the tables stay consistent;
    \<open>Ccn_Delivery\<close>, \<open>Ccn_Service\<close>: what the relay sends for a datagram, and the module's requests followed
    through it; \<open>Ccn_Store\<close>: caching, duplicate detection, ageing, clean-up.
  \<^item> \<open>Rina_Ids\<close>, \<open>Rina_Ringq\<close>, \<open>Rina_Delim\<close>, \<open>Rina_Dtp\<close> (\<open>rina-stack/kernel\<close>: \<open>pidm.c\<close>, \<open>cidm.c\<close>,
    \<open>rds/ringq.c\<close>, \<open>delim-ps-default.c\<close>, \<open>du.c\<close>, \<open>efcp.c\<close>, \<open>dtp.c\<close>, \<open>dtcp.c\<close> and the default policies): parts of the
    RINA stack under the module's flows: identifiers, queues, delimiting, and the receiver of the data
    transfer protocol; \<open>Rina_Receive\<close>, \<open>Rina_Flow\<close>: what the receiver hands up.
  \<^item> \<open>Rina_Sender\<close> (\<open>dtp-utils.c\<close> and the sender's half of \<open>dtp.c\<close>, \<open>dtcp.c\<close>, \<open>dtcp-ps-default.c\<close>,
    \<open>dtp-ps-default.c\<close>): the closed window, retransmission and round-trip queues, writing, control PDUs
    and timers; \<open>Rina_Send\<close>: what the sender guarantees, and the whole way of an SDU; \<open>Rina_Network\<close>: sender and
    receiver joined by a faulty network.
  \<^item> \<open>Pep_Server\<close> (\<open>server.c\<close>, \<open>core.c\<close>, \<open>sysctl.c\<close>): the hook, starting, stopping, loading.
  \<^item> \<open>Pep_Lifecycle\<close>: the resources taken on loading and given back on unloading.
  \<^item> \<open>Pep_Global\<close>: the whole module as one step relation over its handlers and work items.

  \<^bold>\<open>How the code is represented.\<close> A function of the source is a definition of the same name
  that takes the state and returns it, with its return code. Objects live in stores indexed by
  addresses; an access to a freed object, a null dereference, a double free or an access outside
  a buffer is recorded in \<open>g_faults\<close>. Packets handed to the device are appended to \<open>g_out\<close>,
  other effects to \<open>g_log\<close>. Kernel services whose result the module does not determine are
  fields of \<open>kenv\<close>; results of repeated calls (writing to a socket, one round of a forwarding
  loop, one wait) come as lists, and a function whose list ends before it returns has the
  result \<open>None\<close>, so a theorem that it returns is a theorem about the option. Lists of this kind
  are the only fuel of the development. Integers keep their width as words where the source
  computes with them modulo a power of two.

  \<^bold>\<open>What the theorems show.\<close> As long as the kernel services succeed when data is sent, the MINIP
  protocol delivers a byte stream in order over a network that loses, duplicates and reorders frames, and
  loses no byte; its window (while the device takes the frames), its timeout and its queue operations meet
  their specifications, and what a failing service breaks is shown by lemmas beside them. The connection
  table agrees with the store of connections after every step of the module; loading and unloading
  balance; a client whose SYN was intercepted is matched with its instance, whatever happens until it is
  accepted; reference counts balance; the write and forwarding loops keep the order of bytes and return;
  messages, headers, names and interest packets round-trip.

  The CCN-lite relay keeps its tables consistent and touches nothing freed under every sequence of events,
  up to a packet without a name, which may crash it; an interest travels to the neighbours its name is
  routed to and the data back to exactly those who wait, once; the module's requests of short paths are
  forwarded under the name the client asked for; unanswered interests are forgotten; the store, the memory
  for nonces and the clean-up meet their specifications.

  In the RINA stack the sender, between two expirations of its inactivity timer, numbers what is written
  consecutively, stays in the window the peer announced, sends what waits when an acknowledgement opens the
  window and keeps each PDU until it is acknowledged or given up. The receiver, with DTCP and an A timer
  and between two expirations of its timers, hands up consecutive numbers whatever arrives. Joined by a
  network that loses, duplicates and reorders PDUs in both directions, the two hand up a piece of what was
  written that begins with the PDU that arrives first, and lose no PDU behind it but those given up; SDUs cut into
  fragments arrive complete and in order. Reassembly and the ring queue refine their specifications, and
  identifiers are handed out once. What happens when the conditions do not hold, and several error paths of
  the code that go wrong, are shown as theorems and lemmas about the same definitions.

  \<^bold>\<open>Not modelled.\<close> Locks and RCU (each operation is one atomic step, so races between
  operations are out of scope), timers firing concurrently with handlers, log output, the kernel
  itself, the rest of CCN-lite (other packet formats, fragmentation, scheduler, management, tools), and the rest of
  the RINA stack (relaying, flows local to one IPC process, IPC processes, the flow allocator, whose services the module calls and which are
  arguments here, and the daemons in user space). Of CCN-lite the build for
  Linux with the packet format NDNTLV is modelled; where a function exists in a kernel and a user
  variant with the same text, one definition stands for both.
\<close>

end
